(* ===== verification/Cat_Prelude.thy ===== *)
theory Cat_Prelude
  imports Main "HOL-Library.Word" "HOL-Library.List_Lexorder" "HOL-Library.Sublist"
begin

text \<open>
  Shared vocabulary of the development: the machine types of the Rust code, big-endian byte
  encodings and their lexicographic order, fallible results (\<open>Result<T, CatalogError>\<close> as a sum),
  checked slicing, UTF-8 validation, and \<open>BTreeMap\<close> as a strictly sorted association list.
  Nothing here is specific to the catalog; every other theory imports this one.
\<close>

unbundle bit_operations_syntax

named_theorems key_defs \<open>unfoldings of key builders down to byte lists\<close>
named_theorems len_simps \<open>lengths of fixed-width byte fields\<close>

section \<open>Machine types\<close>

type_synonym byte = "8 word"
type_synonym bytes = "8 word list"
type_synonym u16 = "16 word"
type_synonym u32 = "32 word"
type_synonym u64 = "64 word"
type_synonym u128 = "128 word"
type_synonym i64 = "64 word" \<comment> \<open>two's complement, read by \<open>sint\<close>\<close>

text \<open>A Rust \<open>String\<close> is its UTF-8 bytes; that they are valid UTF-8 is a well-formedness premise.\<close>
type_synonym rust_string = "8 word list"

abbreviation slash :: byte where "slash \<equiv> 47" \<comment> \<open>\<open>b'/'\<close>\<close>

definition saturating_add :: "'a::len word \<Rightarrow> 'a word \<Rightarrow> 'a word" where
  "saturating_add a b = (if unat a + unat b < 2 ^ LENGTH('a) then a + b else - 1)"

lemma unat_lt2p: "unat (w :: 'a::len word) < 2 ^ LENGTH('a)"
  by (rule unsigned_less)

lemma uint_bound: "uint (w :: 'a::len word) < 2 ^ LENGTH('a)"
  by (rule unsigned_less)

lemma unat_minus_one_word: "unat (- 1 :: 'a::len word) = 2 ^ LENGTH('a) - 1"
  by (simp add: unsigned_minus_1_eq_mask mask_eq_exp_minus_1)

lemma unat_saturating_add:
  "unat (saturating_add a b :: 'a::len word) = min (unat a + unat b) (2 ^ LENGTH('a) - 1)"
  by (auto simp: saturating_add_def unat_word_ariths unat_minus_one_word)

lemma saturating_add_mono: "a \<le> saturating_add a (b :: 'a::len word)"
proof -
  have "unat a \<le> 2 ^ LENGTH('a) - 1"
    using unat_lt2p [of a] by linarith
  then show ?thesis by (simp add: word_le_nat_alt unat_saturating_add)
qed

section \<open>Big-endian encodings\<close>

primrec be_nat :: "nat \<Rightarrow> nat \<Rightarrow> bytes" where
  "be_nat 0 n = []"
| "be_nat (Suc k) n = word_of_nat (n div 256 ^ k) # be_nat k n"

definition from_be :: "bytes \<Rightarrow> nat" where
  "from_be bs = foldl (\<lambda>a b. a * 256 + unat b) 0 bs"

definition u16_to_be_bytes :: "u16 \<Rightarrow> bytes" where
  "u16_to_be_bytes w = be_nat 2 (unat w)"
definition u32_to_be_bytes :: "u32 \<Rightarrow> bytes" where
  "u32_to_be_bytes w = be_nat 4 (unat w)"
definition u64_to_be_bytes :: "u64 \<Rightarrow> bytes" where
  "u64_to_be_bytes w = be_nat 8 (unat w)"
definition u128_to_be_bytes :: "u128 \<Rightarrow> bytes" where
  "u128_to_be_bytes w = be_nat 16 (unat w)"

definition u32_from_be_bytes :: "bytes \<Rightarrow> u32" where
  "u32_from_be_bytes bs = word_of_nat (from_be bs)"
definition u64_from_be_bytes :: "bytes \<Rightarrow> u64" where
  "u64_from_be_bytes bs = word_of_nat (from_be bs)"
definition u128_from_be_bytes :: "bytes \<Rightarrow> u128" where
  "u128_from_be_bytes bs = word_of_nat (from_be bs)"

lemma length_be_nat [simp]: "length (be_nat k n) = k"
  by (induction k) simp_all

lemma length_u_to_be_bytes [simp, len_simps]:
  "length (u16_to_be_bytes a) = 2"
  "length (u32_to_be_bytes b) = 4"
  "length (u64_to_be_bytes c) = 8"
  "length (u128_to_be_bytes d) = 16"
  by (simp_all add: u16_to_be_bytes_def u32_to_be_bytes_def u64_to_be_bytes_def u128_to_be_bytes_def)

lemma from_be_foldl: "foldl (\<lambda>a b. a * 256 + unat b) x bs = x * 256 ^ length bs + from_be bs"
proof (induction bs arbitrary: x)
  case Nil
  then show ?case by (simp add: from_be_def)
next
  case (Cons b bs)
  have "foldl (\<lambda>a b. a * 256 + unat b) x (b # bs) = (x * 256 + unat b) * 256 ^ length bs + from_be bs"
    using Cons.IH by simp
  moreover have "from_be (b # bs) = unat b * 256 ^ length bs + from_be bs"
    using Cons.IH [of "unat b"] by (simp add: from_be_def)
  ultimately show ?case by (simp add: algebra_simps)
qed

lemma from_be_Nil [simp]: "from_be [] = 0"
  by (simp add: from_be_def)

lemma from_be_Cons: "from_be (b # bs) = unat b * 256 ^ length bs + from_be bs"
  using from_be_foldl [of "unat b" bs] by (simp add: from_be_def)

lemma from_be_less: "from_be bs < 256 ^ length bs"
proof (induction bs)
  case (Cons b bs)
  have "unat b < 256" using unsigned_less [of b] by simp
  then have "Suc (unat b) * 256 ^ length bs \<le> 256 * 256 ^ length bs"
    by (intro mult_le_mono1) simp
  with Cons show ?case by (simp only: from_be_Cons length_Cons power_Suc mult_Suc)
qed simp

lemma from_be_be_nat: "from_be (be_nat k n) = n mod 256 ^ k"
proof (induction k)
  case (Suc k)
  have "unat (word_of_nat (n div 256 ^ k) :: byte) = n div 256 ^ k mod 256"
    by (simp add: unat_of_nat)
  with Suc have "from_be (be_nat (Suc k) n) = n div 256 ^ k mod 256 * 256 ^ k + n mod 256 ^ k"
    by (simp add: from_be_Cons)
  also have "\<dots> = n mod (256 ^ k * 256)"
    by (simp add: mod_mult2_eq)
  finally show ?case by (simp add: mult.commute)
qed simp

lemma mod_mult_div: "0 < a \<Longrightarrow> n mod (a * b) div a = n div a mod b" for a b n :: nat
  by (simp add: mod_mult2_eq)

lemma less_iff_div_mod:
  "m < n \<longleftrightarrow> m div p < n div p \<or> m div p = n div p \<and> m mod p < n mod p" for m n p :: nat
proof (cases "m div p" "n div p" rule: linorder_cases)
  case less
  then show ?thesis by (metis div_le_mono not_le)
next
  case equal
  then show ?thesis by (metis add_less_cancel_left div_mult_mod_eq less_irrefl)
next
  case greater
  then show ?thesis by (metis div_le_mono less_imp_le not_le)
qed

lemma be_nat_mod: "be_nat k (n mod 256 ^ j) = be_nat k n" if "k \<le> j"
  using that
proof (induction k)
  case (Suc k)
  have *: "n mod 256 ^ j div 256 ^ k mod 256 = n div 256 ^ k mod (256::nat)"
  proof -
    from Suc.prems obtain i where j: "j = k + Suc i"
      by (metis add_Suc_right add_Suc less_eqE)
    have "n mod 256 ^ j div 256 ^ k = n div 256 ^ k mod (256 * 256 ^ i)"
      unfolding j power_add by (simp add: mod_mult_div)
    then show ?thesis by (simp add: mod_mod_cancel)
  qed
  have "(word_of_nat (n mod 256 ^ j div 256 ^ k) :: byte) = word_of_nat (n div 256 ^ k)"
    by (rule word_unat_eq_iff [THEN iffD2]) (simp add: unat_of_nat *)
  with Suc show ?case by simp
qed simp

lemma be_nat_from_be: "be_nat (length bs) (from_be bs) = bs"
proof (induction bs)
  case (Cons b bs)
  have d: "from_be (b # bs) div 256 ^ length bs = unat b"
    using from_be_less [of bs] by (simp add: from_be_Cons)
  have "from_be (b # bs) mod 256 ^ length bs = from_be bs"
    using from_be_less [of bs] by (simp add: from_be_Cons)
  then have "be_nat (length bs) (from_be (b # bs)) = bs"
    using be_nat_mod [of "length bs" "length bs" "from_be (b # bs)"] Cons by simp
  with d show ?case by simp
qed simp

lemma be_nat_inj: "be_nat k m = be_nat k n \<Longrightarrow> m < 256 ^ k \<Longrightarrow> n < 256 ^ k \<Longrightarrow> m = n"
  by (metis from_be_be_nat mod_less)

text \<open>Big-endian encodings of the same width compare lexicographically as the numbers compare.\<close>

lemma be_nat_less_iff:
  "m < 256 ^ k \<Longrightarrow> n < 256 ^ k \<Longrightarrow> be_nat k m < be_nat k n \<longleftrightarrow> m < n"
proof (induction k arbitrary: m n)
  case (Suc k)
  let ?w = "\<lambda>x. word_of_nat (x div 256 ^ k) :: byte"
  have d: "m div 256 ^ k < 256" "n div 256 ^ k < 256"
    using Suc.prems by (simp_all add: div_less_iff_less_mult mult.commute)
  have u: "unat (?w m) = m div 256 ^ k" "unat (?w n) = n div 256 ^ k"
    using d by (simp_all add: unat_of_nat)
  have r: "be_nat k m = be_nat k (m mod 256 ^ k)" "be_nat k n = be_nat k (n mod 256 ^ k)"
    by (simp_all add: be_nat_mod)
  have IH: "be_nat k m < be_nat k n \<longleftrightarrow> m mod 256 ^ k < n mod 256 ^ k"
    using Suc.IH [of "m mod 256 ^ k" "n mod 256 ^ k"] by (simp add: be_nat_mod)
  have "be_nat (Suc k) m < be_nat (Suc k) n \<longleftrightarrow>
      m div 256 ^ k < n div 256 ^ k \<or>
      m div 256 ^ k = n div 256 ^ k \<and> m mod 256 ^ k < n mod 256 ^ k"
    using u by (auto simp: IH word_less_nat_alt word_unat_eq_iff)
  also have "\<dots> \<longleftrightarrow> m < n"
    by (rule less_iff_div_mod [symmetric])
  finally show ?case .
qed simp

lemma u32_from_to_be [simp]: "u32_from_be_bytes (u32_to_be_bytes w) = w"
  using unat_lt2p [of w] by (simp add: u32_from_be_bytes_def u32_to_be_bytes_def from_be_be_nat)

lemma u64_from_to_be [simp]: "u64_from_be_bytes (u64_to_be_bytes w) = w"
  using unat_lt2p [of w] by (simp add: u64_from_be_bytes_def u64_to_be_bytes_def from_be_be_nat)

lemma u128_from_to_be [simp]: "u128_from_be_bytes (u128_to_be_bytes w) = w"
  using unat_lt2p [of w] by (simp add: u128_from_be_bytes_def u128_to_be_bytes_def from_be_be_nat)

lemma u64_to_from_be [simp]: "length bs = 8 \<Longrightarrow> u64_to_be_bytes (u64_from_be_bytes bs) = bs"
  using from_be_less [of bs] be_nat_from_be [of bs]
  by (simp add: u64_from_be_bytes_def u64_to_be_bytes_def unat_of_nat)

lemma u128_to_from_be [simp]: "length bs = 16 \<Longrightarrow> u128_to_be_bytes (u128_from_be_bytes bs) = bs"
  using from_be_less [of bs] be_nat_from_be [of bs]
  by (simp add: u128_from_be_bytes_def u128_to_be_bytes_def unat_of_nat)

lemma u16_to_be_inj [simp]: "u16_to_be_bytes a = u16_to_be_bytes b \<longleftrightarrow> a = b"
  using be_nat_inj [of 2 "unat a" "unat b"] unat_lt2p [of a] unat_lt2p [of b]
  by (auto simp: u16_to_be_bytes_def word_unat_eq_iff)

lemma u32_to_be_inj [simp]: "u32_to_be_bytes a = u32_to_be_bytes b \<longleftrightarrow> a = b"
  by (metis u32_from_to_be)

lemma u64_to_be_inj [simp]: "u64_to_be_bytes a = u64_to_be_bytes b \<longleftrightarrow> a = b"
  by (metis u64_from_to_be)

lemma u128_to_be_inj [simp]: "u128_to_be_bytes a = u128_to_be_bytes b \<longleftrightarrow> a = b"
  by (metis u128_from_to_be)

lemma u64_to_be_less [simp]: "u64_to_be_bytes a < u64_to_be_bytes b \<longleftrightarrow> a < b"
  using unat_lt2p [of a] unat_lt2p [of b]
  by (simp add: u64_to_be_bytes_def be_nat_less_iff word_less_nat_alt)

lemma u128_to_be_less [simp]: "u128_to_be_bytes a < u128_to_be_bytes b \<longleftrightarrow> a < b"
  using unat_lt2p [of a] unat_lt2p [of b]
  by (simp add: u128_to_be_bytes_def be_nat_less_iff word_less_nat_alt)

lemma u64_to_be_le [simp]: "u64_to_be_bytes a \<le> u64_to_be_bytes b \<longleftrightarrow> a \<le> b"
  by (simp add: le_less)

lemma u128_to_be_le [simp]: "u128_to_be_bytes a \<le> u128_to_be_bytes b \<longleftrightarrow> a \<le> b"
  by (simp add: le_less)

text \<open>A fixed-width field at the front of a key.\<close>

lemma prefix_field: "length a = length b \<Longrightarrow> prefix (a @ xs) (b @ ys) \<longleftrightarrow> a = b \<and> prefix xs ys"
  by (auto simp: prefix_def append_eq_append_conv)

lemma prefix_uN_field [simp]:
  "prefix (u64_to_be_bytes a @ xs) (u64_to_be_bytes b @ ys) \<longleftrightarrow> a = b \<and> prefix xs ys"
  "prefix (u32_to_be_bytes i @ xs) (u32_to_be_bytes j @ ys) \<longleftrightarrow> i = j \<and> prefix xs ys"
  by (simp_all add: prefix_field)

text \<open>\<open>b"..."\<close> literals.\<close>

definition ascii :: "string \<Rightarrow> bytes" where
  "ascii s = map of_char s"

lemma length_ascii [simp, len_simps]: "length (ascii s) = length s"
  by (simp add: ascii_def)

section \<open>UTF-8 validation\<close>

text \<open>\<open>std::str::from_utf8\<close> accepts exactly the well-formed sequences of the Unicode standard
  (table 3-7), the ones \<open>core::str::validations\<close> walks through.\<close>

definition utf8_cont :: "byte \<Rightarrow> bool" where
  "utf8_cont b \<longleftrightarrow> 0x80 \<le> b \<and> b \<le> 0xBF"

fun utf8_valid :: "bytes \<Rightarrow> bool" where
  "utf8_valid [] = True"
| "utf8_valid (a # bs) =
    (if a < 0x80 then utf8_valid bs
     else if 0xC2 \<le> a \<and> a \<le> 0xDF then
       (case bs of b # cs \<Rightarrow> utf8_cont b \<and> utf8_valid cs | _ \<Rightarrow> False)
     else if 0xE0 \<le> a \<and> a \<le> 0xEF then
       (case bs of b # c # ds \<Rightarrow>
          (if a = 0xE0 then 0xA0 \<le> b \<and> b \<le> 0xBF
           else if a = 0xED then 0x80 \<le> b \<and> b \<le> 0x9F
           else utf8_cont b) \<and> utf8_cont c \<and> utf8_valid ds
        | _ \<Rightarrow> False)
     else if 0xF0 \<le> a \<and> a \<le> 0xF4 then
       (case bs of b # c # d # es \<Rightarrow>
          (if a = 0xF0 then 0x90 \<le> b \<and> b \<le> 0xBF
           else if a = 0xF4 then 0x80 \<le> b \<and> b \<le> 0x8F
           else utf8_cont b) \<and> utf8_cont c \<and> utf8_cont d \<and> utf8_valid es
        | _ \<Rightarrow> False)
     else False)"

declare utf8_valid.simps(2) [simp del]

lemma utf8_valid_ascii: "(\<forall>b \<in> set bs. b < 0x80) \<Longrightarrow> utf8_valid bs"
  by (induction bs) (simp_all add: utf8_valid.simps(2))

section \<open>The lexicographic order of byte strings\<close>

lemma append_less_append [simp]: "xs @ ys < xs @ zs \<longleftrightarrow> ys < (zs :: 'a::order list)"
  by (induction xs) simp_all

lemma append_le_append [simp]: "xs @ ys \<le> xs @ zs \<longleftrightarrow> ys \<le> (zs :: 'a::order list)"
  by (auto simp: le_less)

lemma less_append_eq_length:
  "length xs = length us \<Longrightarrow> xs @ ys < us @ vs \<longleftrightarrow> xs < us \<or> xs = us \<and> ys < (vs :: 'a::order list)"
  by (induction xs us rule: list_induct2) auto

lemma prefix_imp_le: "prefix p k \<Longrightarrow> p \<le> (k :: 'a::linorder list)"
  by (auto elim!: prefixE simp: le_less) (metis append.right_neutral append_less_append Nil_less_Cons neq_Nil_conv)

lemma less_not_prefix_append: "p < k \<Longrightarrow> \<not> prefix p k \<Longrightarrow> p @ q < (k :: 'a::linorder list)"
proof (induction p arbitrary: k)
  case (Cons a p)
  then show ?case by (cases k) auto
qed simp

section \<open>Fallible results\<close>

text \<open>\<open>Result<T, E>\<close> is \<open>'e + 'a\<close>; \<open>rbind\<close> is the \<open>?\<close> operator, \<open>rmap\<close> is
  \<open>iter().map(f).collect::<Result<Vec<_>, _>>()\<close>, \<open>rfold\<close> a \<open>for\<close> loop whose body uses \<open>?\<close>.\<close>

fun rbind :: "'e + 'a \<Rightarrow> ('a \<Rightarrow> 'e + 'b) \<Rightarrow> 'e + 'b" where
  "rbind (Inl e) f = Inl e"
| "rbind (Inr x) f = f x"

fun rmap :: "('a \<Rightarrow> 'e + 'b) \<Rightarrow> 'a list \<Rightarrow> 'e + 'b list" where
  "rmap f [] = Inr []"
| "rmap f (x # xs) = rbind (f x) (\<lambda>y. rbind (rmap f xs) (\<lambda>ys. Inr (y # ys)))"

fun rfold :: "('a \<Rightarrow> 's \<Rightarrow> 'e + 's) \<Rightarrow> 'a list \<Rightarrow> 's \<Rightarrow> 'e + 's" where
  "rfold f [] s = Inr s"
| "rfold f (x # xs) s = rbind (f x s) (rfold f xs)"

text \<open>\<open>Option<Result<T, E>>::transpose\<close> after \<open>map\<close>.\<close>

fun rtranspose :: "('a \<Rightarrow> 'e + 'b) \<Rightarrow> 'a option \<Rightarrow> 'e + 'b option" where
  "rtranspose f None = Inr None"
| "rtranspose f (Some x) = rbind (f x) (\<lambda>y. Inr (Some y))"

lemma rbind_cong [fundef_cong]:
  "r = r' \<Longrightarrow> (\<And>x. r' = Inr x \<Longrightarrow> f x = g x) \<Longrightarrow> rbind r f = rbind r' g"
  by (cases r') auto

lemma rbind_Inr_iff: "rbind r f = Inr y \<longleftrightarrow> (\<exists>x. r = Inr x \<and> f x = Inr y)"
  by (cases r) auto

lemma rbind_Inl_iff: "rbind r f = Inl e \<longleftrightarrow> r = Inl e \<or> (\<exists>x. r = Inr x \<and> f x = Inl e)"
  by (cases r) auto

lemma rbind_if: "rbind (if b then r else r') f = (if b then rbind r f else rbind r' f)"
  by simp

lemma rmap_Inr: "(\<And>x. x \<in> set xs \<Longrightarrow> f x = Inr (g x)) \<Longrightarrow> rmap f xs = Inr (map g xs)"
  by (induction xs) auto

lemma rmap_length: "rmap f xs = Inr ys \<Longrightarrow> length ys = length xs"
  by (induction xs arbitrary: ys) (auto simp: rbind_Inr_iff)

lemma rmap_map: "rmap f (map g xs) = rmap (\<lambda>x. f (g x)) xs"
  by (induction xs) simp_all

lemma rmap_cong [fundef_cong]:
  "xs = ys \<Longrightarrow> (\<And>x. x \<in> set ys \<Longrightarrow> f x = g x) \<Longrightarrow> rmap f xs = rmap g ys"
proof (induction xs arbitrary: ys)
  case (Cons x xs)
  then show ?case by (cases ys) (auto intro!: rbind_cong)
qed simp

lemma rfold_append: "rfold f (xs @ ys) s = rbind (rfold f xs s) (rfold f ys)"
proof (induction xs arbitrary: s)
  case (Cons x xs)
  then show ?case by (cases "f x s") auto
qed simp

lemma rfold_invariant:
  assumes "rfold f xs s = Inr s'" and "P s"
    and "\<And>x s s'. x \<in> set xs \<Longrightarrow> P s \<Longrightarrow> f x s = Inr s' \<Longrightarrow> P s'"
  shows "P s'"
  using assms by (induction xs arbitrary: s) (auto simp: rbind_Inr_iff)

section \<open>BTreeMap as a strictly sorted association list\<close>

definition btree_wf :: "('k::linorder \<times> 'v) list \<Rightarrow> bool" where
  "btree_wf m = sorted_wrt (<) (map fst m)"

fun btree_insert :: "'k::linorder \<Rightarrow> 'v \<Rightarrow> ('k \<times> 'v) list \<Rightarrow> ('k \<times> 'v) list" where
  "btree_insert k v [] = [(k, v)]"
| "btree_insert k v (e # m) =
     (if k < fst e then (k, v) # e # m
      else if k = fst e then (k, v) # m
      else e # btree_insert k v m)"

definition btree_remove :: "'k::linorder \<Rightarrow> ('k \<times> 'v) list \<Rightarrow> ('k \<times> 'v) list" where
  "btree_remove k m = filter (\<lambda>e. fst e \<noteq> k) m"

definition btree_range :: "'k::linorder \<Rightarrow> 'k \<Rightarrow> ('k \<times> 'v) list \<Rightarrow> ('k \<times> 'v) list" where
  "btree_range lo hi m = filter (\<lambda>e. lo \<le> fst e \<and> fst e < hi) m"

lemma btree_wf_Nil [simp]: "btree_wf []"
  by (simp add: btree_wf_def)

lemma btree_wf_Cons: "btree_wf (e # m) \<longleftrightarrow> (\<forall>e' \<in> set m. fst e < fst e') \<and> btree_wf m"
  by (auto simp: btree_wf_def)

lemma btree_wf_filter [intro]: "btree_wf m \<Longrightarrow> btree_wf (filter P m)"
  by (induction m) (auto simp: btree_wf_Cons)

lemma btree_wf_distinct: "btree_wf m \<Longrightarrow> distinct (map fst m)"
  by (induction m) (force simp: btree_wf_Cons)+

lemma map_of_btree_insert [simp]: "map_of (btree_insert k v m) = (map_of m)(k \<mapsto> v)"
  by (induction m) (auto simp: fun_eq_iff)

lemma fst_btree_insert: "fst ` set (btree_insert k v m) = insert k (fst ` set m)"
  by (induction m) auto

lemma btree_wf_insert [intro]: "btree_wf m \<Longrightarrow> btree_wf (btree_insert k v m)"
proof (induction m)
  case Nil
  then show ?case by (simp add: btree_wf_def)
next
  case (Cons e m)
  have "\<forall>x \<in> set (btree_insert k v m). fst e < fst x" if "fst e < k"
  proof
    fix x
    assume "x \<in> set (btree_insert k v m)"
    then have "fst x \<in> insert k (fst ` set m)" by (metis fst_btree_insert image_eqI)
    with Cons.prems that show "fst e < fst x" by (auto simp: btree_wf_Cons)
  qed
  with Cons show ?case by (auto simp: btree_wf_Cons not_less)
qed

lemma map_of_filter_fst: "map_of (filter (\<lambda>e. P (fst e)) m) k = (if P k then map_of m k else None)"
  by (induction m) auto

lemma map_of_btree_remove [simp]: "map_of (btree_remove k m) = (map_of m)(k := None)"
  using map_of_filter_fst [of "\<lambda>x. x \<noteq> k" m] by (simp add: btree_remove_def fun_eq_iff)

lemma btree_wf_remove [intro]: "btree_wf m \<Longrightarrow> btree_wf (btree_remove k m)"
  by (auto simp: btree_remove_def)

lemma map_of_btree_range [simp]:
  "map_of (btree_range lo hi m) k = (if lo \<le> k \<and> k < hi then map_of m k else None)"
  using map_of_filter_fst [of "\<lambda>x. lo \<le> x \<and> x < hi" m k] by (simp add: btree_range_def)

lemma btree_wf_range [intro]: "btree_wf m \<Longrightarrow> btree_wf (btree_range lo hi m)"
  by (auto simp: btree_range_def)

lemma btree_mem_iff: "btree_wf m \<Longrightarrow> (k, v) \<in> set m \<longleftrightarrow> map_of m k = Some v"
  by (simp add: btree_wf_distinct)

text \<open>A strictly sorted association list is determined by the map it represents.\<close>

lemma btree_ext:
  assumes "btree_wf m" "btree_wf m'" "map_of m = map_of m'"
  shows "m = m'"
proof -
  have "(k, v) \<in> set m \<longleftrightarrow> (k, v) \<in> set m'" for k v
    using assms by (simp add: btree_mem_iff)
  then have eq: "set m = set m'" by auto
  show ?thesis
  proof (rule map_sorted_distinct_set_unique [of fst])
    show "inj_on fst (set m \<union> set m')"
      using btree_wf_distinct [OF assms(1)] by (simp add: eq distinct_map)
  qed (use assms eq btree_wf_distinct in \<open>auto simp: btree_wf_def strict_sorted_iff\<close>)
qed

end
