(* ===== verification/Cat_Ids.thy ===== *)
theory Cat_Ids
  imports Cat_Prelude
begin

text \<open>
  Identifiers and errors: \<open>ids.rs\<close> (numeric ids, \<open>RawSnapshotSequence\<close>, \<open>CatalogOrderId\<close> and its
  order), \<open>error.rs\<close> (\<open>CatalogError\<close>) and the change records of \<open>file_listing.rs\<close> that an error
  carries. A \<open>[u8; 16]\<close> order is held as the 128-bit word whose big-endian bytes it is; the order
  on it is the one the code defines, lexicographic on those bytes. An error keeps the literal text
  of its message and drops interpolated values. \<open>Panic\<close> is not a value of the Rust enum: it marks
  the points where the Rust code would abort (a slice or range out of bounds), so that theorems can
  say that they are never reached.
\<close>

section \<open>Numeric identifiers\<close>

type_synonym catalog_id = u64
type_synonym table_id = u64
type_synonym schema_id = u64
type_synonym macro_id = u64
type_synonym data_file_id = u64
type_synonym delete_file_id = u64
type_synonym column_id = u64
type_synonym partition_key_index = u32
type_synonym commit_attempt_id = u128
type_synonym raw_snapshot_sequence = u64
type_synonym ducklake_snapshot_id = u64

definition ducklake_snapshot_id_next :: "ducklake_snapshot_id \<Rightarrow> ducklake_snapshot_id" where
  "ducklake_snapshot_id_next s = saturating_add s 1"

definition raw_sequence_initial :: raw_snapshot_sequence where
  "raw_sequence_initial = 0"

definition raw_sequence_next :: "raw_snapshot_sequence \<Rightarrow> raw_snapshot_sequence" where
  "raw_sequence_next s = saturating_add s 1"

definition raw_sequence_to_be_bytes :: "raw_snapshot_sequence \<Rightarrow> bytes" where
  "raw_sequence_to_be_bytes s = u64_to_be_bytes s"

definition attempt_as_bytes :: "commit_attempt_id \<Rightarrow> bytes" where
  "attempt_as_bytes a = u128_to_be_bytes a"

section \<open>Catalog orders\<close>

datatype catalog_order_kind = FdbVersionstamp | UuidV7

datatype catalog_order_id = CatalogOrderId (order_kind: catalog_order_kind) (order_arr: u128)

definition uuid_v7 :: "u128 \<Rightarrow> catalog_order_id" where
  "uuid_v7 v = CatalogOrderId UuidV7 v"

definition order_from_u128 :: "u128 \<Rightarrow> catalog_order_id" where
  "order_from_u128 v = uuid_v7 v"

definition order_from_bytes :: "catalog_order_kind \<Rightarrow> bytes \<Rightarrow> catalog_order_id" where
  "order_from_bytes k bs = CatalogOrderId k (u128_from_be_bytes bs)"

definition order_as_bytes :: "catalog_order_id \<Rightarrow> bytes" where
  "order_as_bytes ord = u128_to_be_bytes (order_arr ord)"

text \<open>Ten bytes of versionstamp, two of user suffix, the rest zero.\<close>

definition fdb_versionstamp :: "bytes \<Rightarrow> u16 \<Rightarrow> catalog_order_id" where
  "fdb_versionstamp vs user_suffix =
     CatalogOrderId FdbVersionstamp
       (u128_from_be_bytes (vs @ u16_to_be_bytes user_suffix @ replicate 4 0))"

definition incomplete_fdb_order :: catalog_order_id where
  "incomplete_fdb_order = fdb_versionstamp (replicate 10 0) 0"

text \<open>\<open>Ord for CatalogOrderId\<close> compares the bytes and ignores the kind, while the derived equality
  compares both, so the comparison is a total preorder and not an order.\<close>

datatype cmp_ordering = OrdLess | OrdEqual | OrdGreater

definition order_cmp :: "catalog_order_id \<Rightarrow> catalog_order_id \<Rightarrow> cmp_ordering" where
  "order_cmp a b =
     (if order_as_bytes a < order_as_bytes b then OrdLess
      else if order_as_bytes a = order_as_bytes b then OrdEqual else OrdGreater)"

text \<open>The operators of \<open>PartialOrd\<close> read the result of \<open>cmp\<close>.\<close>

instantiation catalog_order_id :: preorder
begin

definition less_eq_catalog_order_id :: "catalog_order_id \<Rightarrow> catalog_order_id \<Rightarrow> bool" where
  "a \<le> b \<longleftrightarrow> order_cmp a b \<noteq> OrdGreater"

definition less_catalog_order_id :: "catalog_order_id \<Rightarrow> catalog_order_id \<Rightarrow> bool" where
  "a < b \<longleftrightarrow> order_cmp a b = OrdLess"

instance
  by standard (auto simp: less_eq_catalog_order_id_def less_catalog_order_id_def order_cmp_def split: if_splits)

end

lemma order_le_bytes: "a \<le> b \<longleftrightarrow> order_as_bytes a \<le> order_as_bytes b"
  by (auto simp: less_eq_catalog_order_id_def order_cmp_def)

lemma order_less_bytes: "a < b \<longleftrightarrow> order_as_bytes a < order_as_bytes b" for a b :: catalog_order_id
  by (simp add: less_catalog_order_id_def order_cmp_def)

lemma length_order_as_bytes [simp, len_simps]: "length (order_as_bytes ord) = 16"
  by (simp add: order_as_bytes_def)

lemma order_le_iff: "a \<le> b \<longleftrightarrow> order_arr a \<le> order_arr b"
  by (simp add: order_le_bytes order_as_bytes_def)

lemma order_less_iff: "a < b \<longleftrightarrow> order_arr a < order_arr b" for a b :: catalog_order_id
  by (simp add: order_less_bytes order_as_bytes_def)

lemma order_not_le [simp]: "\<not> a \<le> b \<longleftrightarrow> b < a" for a b :: catalog_order_id
  by (auto simp: order_le_iff order_less_iff)

lemma order_not_less [simp]: "\<not> a < b \<longleftrightarrow> b \<le> a" for a b :: catalog_order_id
  by (auto simp: order_le_iff order_less_iff)

lemma order_total: "a \<le> b \<or> b \<le> a" for a b :: catalog_order_id
  by (auto simp: order_le_iff)

lemma uuid_v7_simps [simp]:
  "order_kind (uuid_v7 n) = UuidV7" "order_arr (uuid_v7 n) = n" "uuid_v7 a = uuid_v7 b \<longleftrightarrow> a = b"
  "uuid_v7 a \<le> uuid_v7 b \<longleftrightarrow> a \<le> b" "uuid_v7 a < uuid_v7 b \<longleftrightarrow> a < b"
  by (simp_all add: uuid_v7_def order_le_iff order_less_iff)

lemma order_as_bytes_from_bytes [simp]:
  "length bs = 16 \<Longrightarrow> order_as_bytes (order_from_bytes k bs) = bs"
  by (simp add: order_as_bytes_def order_from_bytes_def)

lemma order_from_bytes_as_bytes [simp]:
  "order_from_bytes (order_kind ord) (order_as_bytes ord) = ord"
  by (cases ord) (simp add: order_as_bytes_def order_from_bytes_def)

lemma order_kind_from_bytes [simp]: "order_kind (order_from_bytes k bs) = k"
  by (simp add: order_from_bytes_def)

lemma order_as_bytes_eq_iff:
  "order_as_bytes a = order_as_bytes b \<longleftrightarrow> order_arr a = order_arr b"
  by (simp add: order_as_bytes_def)

lemma order_eqI: "order_kind a = order_kind b \<Longrightarrow> order_as_bytes a = order_as_bytes b \<Longrightarrow> a = b"
  by (cases a, cases b) (simp add: order_as_bytes_def)

section \<open>Change records and errors\<close>

datatype data_file_change_kind = Added | Removed

definition change_kind_code :: "data_file_change_kind \<Rightarrow> byte" where
  "change_kind_code k = (case k of Added \<Rightarrow> 97 | Removed \<Rightarrow> 114)"

record data_file_change =
  dfc_table_id :: table_id
  dfc_order :: catalog_order_id
  dfc_kind :: data_file_change_kind
  dfc_data_file_id :: data_file_id

datatype fdb_error_class = MaybeCommitted | RetryableNotCommitted | Retryable | NonRetryable

datatype catalog_error =
    Backend string
  | FoundationDb int string fdb_error_class
  | FoundationDbRetryExhausted string nat int string fdb_error_class
  | CommitAttemptOrderChanged commit_attempt_id
  | ConflictFenceChanged bytes
  | Decode string
  | InvalidMutation string
  | InvalidKey string
  | LogicalConflict table_id "data_file_change list"
  | TableLogicalConflict table_id catalog_order_id
  | TableSchemaConflict table_id catalog_order_id
  | NotFound string
  | Panic string

type_synonym 'a catalog_result = "catalog_error + 'a"

definition change_kind_from_code :: "byte \<Rightarrow> data_file_change_kind catalog_result" where
  "change_kind_from_code c =
     (if c = 97 then Inr Added else if c = 114 then Inr Removed
      else Inl (Decode ''unknown data file change kind''))"

lemma change_kind_from_code_code [simp]: "change_kind_from_code (change_kind_code k) = Inr k"
  by (cases k) (simp_all add: change_kind_from_code_def change_kind_code_def)

lemma change_kind_code_inj [simp]: "change_kind_code a = change_kind_code b \<longleftrightarrow> a = b"
  by (metis change_kind_from_code_code sum.inject(2))

definition is_panic :: "'a catalog_result \<Rightarrow> bool" where
  "is_panic r \<longleftrightarrow> (case r of Inl (Panic _) \<Rightarrow> True | _ \<Rightarrow> False)"

lemma is_panic_simps [simp]:
  "\<not> is_panic (Inr x)" "\<not> is_panic (Inl (Decode m))" "\<not> is_panic (Inl (InvalidKey m))"
  "\<not> is_panic (Inl (NotFound m))" "\<not> is_panic (Inl (InvalidMutation m))" "is_panic (Inl (Panic m))"
  by (simp_all add: is_panic_def)

lemma is_panic_rbind: "is_panic (rbind r f) \<longleftrightarrow> is_panic r \<or> (\<exists>x. r = Inr x \<and> is_panic (f x))"
  by (cases r) (auto simp: is_panic_def)

section \<open>Slices\<close>

text \<open>\<open>&bytes[a..b]\<close>, \<open>&bytes[a..]\<close> and \<open>bytes[i]\<close> abort when out of range.\<close>

definition slice :: "bytes \<Rightarrow> nat \<Rightarrow> nat \<Rightarrow> bytes catalog_result" where
  "slice bs a b =
     (if a \<le> b \<and> b \<le> length bs then Inr (take (b - a) (drop a bs))
      else Inl (Panic ''slice index out of range''))"

definition slice_from :: "bytes \<Rightarrow> nat \<Rightarrow> bytes catalog_result" where
  "slice_from bs a = slice bs a (length bs)"

definition byte_at :: "bytes \<Rightarrow> nat \<Rightarrow> byte catalog_result" where
  "byte_at bs i = (if i < length bs then Inr (bs ! i) else Inl (Panic ''index out of bounds''))"

text \<open>\<open>slice.try_into::<[u8; N]>().map_err(..)\<close> followed by \<open>from_be_bytes\<close>.\<close>

definition be_u64 :: "catalog_error \<Rightarrow> bytes \<Rightarrow> u64 catalog_result" where
  "be_u64 err bs = (if length bs = 8 then Inr (u64_from_be_bytes bs) else Inl err)"

definition be_u32 :: "catalog_error \<Rightarrow> bytes \<Rightarrow> u32 catalog_result" where
  "be_u32 err bs = (if length bs = 4 then Inr (u32_from_be_bytes bs) else Inl err)"

definition be_u128 :: "catalog_error \<Rightarrow> bytes \<Rightarrow> u128 catalog_result" where
  "be_u128 err bs = (if length bs = 16 then Inr (u128_from_be_bytes bs) else Inl err)"

definition str_from_utf8 :: "catalog_error \<Rightarrow> bytes \<Rightarrow> rust_string catalog_result" where
  "str_from_utf8 err bs = (if utf8_valid bs then Inr bs else Inl err)"

text \<open>\<open>key.strip_prefix(prefix)\<close>.\<close>

definition strip_prefix :: "bytes \<Rightarrow> bytes \<Rightarrow> bytes option" where
  "strip_prefix p k = (if prefix p k then Some (drop (length p) k) else None)"

lemma strip_prefix_append [simp]: "strip_prefix p (p @ t) = Some t"
  by (simp add: strip_prefix_def)

lemma strip_prefix_Some_iff: "strip_prefix p k = Some t \<longleftrightarrow> k = p @ t"
  by (auto simp: strip_prefix_def elim: prefixE)

lemma slice_ok: "a \<le> b \<Longrightarrow> b \<le> length bs \<Longrightarrow> slice bs a b = Inr (take (b - a) (drop a bs))"
  by (simp add: slice_def)

lemma slice_mid:
  "slice (xs @ ys @ zs) (length xs) (length xs + length ys) = Inr ys"
  by (simp add: slice_def)

lemma byte_at_ok: "i < length bs \<Longrightarrow> byte_at bs i = Inr (bs ! i)"
  by (simp add: byte_at_def)

lemma is_panic_slice [simp]: "is_panic (slice bs a b) \<longleftrightarrow> \<not> (a \<le> b \<and> b \<le> length bs)"
  by (simp add: slice_def)

lemma is_panic_byte_at [simp]: "is_panic (byte_at bs i) \<longleftrightarrow> \<not> i < length bs"
  by (simp add: byte_at_def)

end
