(* ===== verification/Cat_Key_Family.thy ===== *)
theory Cat_Key_Family
  imports Cat_Ids
begin

text \<open>
  The key space (\<open>keys.rs\<close>, \<open>key_debug.rs\<close>): every key starts with the big-endian catalog id, a
  slash, one byte naming the key family and another slash. This theory has the families, those
  prefixes, the debug decoder, and \<open>prefix_end\<close>, the exclusive upper bound of a prefix scan. The
  lemmas show that a half-open range below \<open>prefix_end\<close> holds exactly the keys with the prefix when
  the prefix does not end in \<open>0xff\<close>, and that an order scan bound separates orders.
\<close>

section \<open>Families\<close>

datatype key_family =
    Snapshot | SnapshotByTimestamp | SnapshotChanges | TableChanges | Object
  | DataFile | CurrentDataFile | DataFileBegin | EndOrder | InlineFlushWatermark
  | DeleteFile | CurrentDeleteFile | DeleteFileTimeline | DeleteFileChange | DeleteFileChangeByOrder
  | FileColumnStats | FileColumnStatsLookup | FilePartitionValue | PartitionValueLookup | InlineTable
  | InlineDeletion | InlineFileDeletion | InlineRowChange | InlineTableChange | InlineRowChangeBySchemaKind
  | InlineLiveRow | InlineCurrentRow | MetadataSetting | MetadataVersion | ColumnMapping
  | ConflictFence | CommitAttempt | ScheduledCleanup | SnapshotOperation

fun family_code :: "key_family \<Rightarrow> byte" where
  "family_code Snapshot = 115"
| "family_code SnapshotByTimestamp = 83"
| "family_code SnapshotChanges = 99"
| "family_code TableChanges = 67"
| "family_code Object = 111"
| "family_code DataFile = 100"
| "family_code CurrentDataFile = 68"
| "family_code DataFileBegin = 98"
| "family_code EndOrder = 69"
| "family_code InlineFlushWatermark = 87"
| "family_code DeleteFile = 120"
| "family_code CurrentDeleteFile = 88"
| "family_code DeleteFileTimeline = 121"
| "family_code DeleteFileChange = 89"
| "family_code DeleteFileChangeByOrder = 107"
| "family_code FileColumnStats = 102"
| "family_code FileColumnStatsLookup = 70"
| "family_code FilePartitionValue = 80"
| "family_code PartitionValueLookup = 113"
| "family_code InlineTable = 105"
| "family_code InlineDeletion = 73"
| "family_code InlineFileDeletion = 74"
| "family_code InlineRowChange = 82"
| "family_code InlineTableChange = 72"
| "family_code InlineRowChangeBySchemaKind = 75"
| "family_code InlineLiveRow = 76"
| "family_code InlineCurrentRow = 114"
| "family_code MetadataSetting = 109"
| "family_code MetadataVersion = 118"
| "family_code ColumnMapping = 77"
| "family_code ConflictFence = 119"
| "family_code CommitAttempt = 122"
| "family_code ScheduledCleanup = 71"
| "family_code SnapshotOperation = 79"

definition family_from_code :: "byte \<Rightarrow> key_family catalog_result" where
  "family_from_code c =
     (if c = 115 then Inr Snapshot
      else if c = 83 then Inr SnapshotByTimestamp
      else if c = 99 then Inr SnapshotChanges
      else if c = 67 then Inr TableChanges
      else if c = 111 then Inr Object
      else if c = 100 then Inr DataFile
      else if c = 68 then Inr CurrentDataFile
      else if c = 98 then Inr DataFileBegin
      else if c = 69 then Inr EndOrder
      else if c = 87 then Inr InlineFlushWatermark
      else if c = 120 then Inr DeleteFile
      else if c = 88 then Inr CurrentDeleteFile
      else if c = 121 then Inr DeleteFileTimeline
      else if c = 89 then Inr DeleteFileChange
      else if c = 107 then Inr DeleteFileChangeByOrder
      else if c = 102 then Inr FileColumnStats
      else if c = 70 then Inr FileColumnStatsLookup
      else if c = 80 then Inr FilePartitionValue
      else if c = 113 then Inr PartitionValueLookup
      else if c = 105 then Inr InlineTable
      else if c = 73 then Inr InlineDeletion
      else if c = 74 then Inr InlineFileDeletion
      else if c = 82 then Inr InlineRowChange
      else if c = 72 then Inr InlineTableChange
      else if c = 75 then Inr InlineRowChangeBySchemaKind
      else if c = 76 then Inr InlineLiveRow
      else if c = 114 then Inr InlineCurrentRow
      else if c = 109 then Inr MetadataSetting
      else if c = 118 then Inr MetadataVersion
      else if c = 77 then Inr ColumnMapping
      else if c = 119 then Inr ConflictFence
      else if c = 122 then Inr CommitAttempt
      else if c = 71 then Inr ScheduledCleanup
      else if c = 79 then Inr SnapshotOperation
      else Inl (InvalidKey ''unknown family byte''))"

fun family_label :: "key_family \<Rightarrow> string" where
  "family_label Snapshot = ''snapshot''"
| "family_label SnapshotByTimestamp = ''snapshot-by-timestamp''"
| "family_label SnapshotChanges = ''snapshot-changes''"
| "family_label TableChanges = ''table-changes''"
| "family_label Object = ''object''"
| "family_label DataFile = ''data-file''"
| "family_label CurrentDataFile = ''current-data-file''"
| "family_label DataFileBegin = ''data-file-begin''"
| "family_label EndOrder = ''end-order''"
| "family_label InlineFlushWatermark = ''inline-flush-watermark''"
| "family_label DeleteFile = ''delete-file''"
| "family_label CurrentDeleteFile = ''current-delete-file''"
| "family_label DeleteFileTimeline = ''delete-file-timeline''"
| "family_label DeleteFileChange = ''delete-file-change''"
| "family_label DeleteFileChangeByOrder = ''delete-file-change-by-order''"
| "family_label FileColumnStats = ''file-column-stats''"
| "family_label FileColumnStatsLookup = ''file-column-stats-lookup''"
| "family_label FilePartitionValue = ''file-partition-value''"
| "family_label PartitionValueLookup = ''partition-value-lookup''"
| "family_label InlineTable = ''inline-table''"
| "family_label InlineDeletion = ''inline-deletion''"
| "family_label InlineFileDeletion = ''inline-file-deletion''"
| "family_label InlineRowChange = ''inline-row-change''"
| "family_label InlineTableChange = ''inline-table-change''"
| "family_label InlineRowChangeBySchemaKind = ''inline-row-change-by-schema-kind''"
| "family_label InlineLiveRow = ''inline-live-row''"
| "family_label InlineCurrentRow = ''inline-current-row''"
| "family_label MetadataSetting = ''metadata-setting''"
| "family_label MetadataVersion = ''metadata-version''"
| "family_label ColumnMapping = ''column-mapping''"
| "family_label ConflictFence = ''conflict-fence''"
| "family_label CommitAttempt = ''commit-attempt''"
| "family_label ScheduledCleanup = ''scheduled-cleanup''"
| "family_label SnapshotOperation = ''snapshot-operation''"

lemma family_from_code_code [simp]: "family_from_code (family_code f) = Inr f"
  by (cases f) (simp_all add: family_from_code_def)

lemma family_code_inj [simp]: "family_code f = family_code g \<longleftrightarrow> f = g"
  by (metis family_from_code_code sum.inject(2))

lemma family_code_from_code: "family_from_code c = Inr f \<Longrightarrow> family_code f = c"
  by (auto simp: family_from_code_def split: if_splits)

section \<open>Prefixes\<close>

definition catalog_prefix :: "catalog_id \<Rightarrow> bytes" where
  "catalog_prefix catalog = u64_to_be_bytes catalog @ [slash]"

definition family_prefix :: "catalog_id \<Rightarrow> key_family \<Rightarrow> bytes" where
  "family_prefix catalog family = catalog_prefix catalog @ [family_code family] @ [slash]"

lemma length_catalog_prefix [simp, len_simps]: "length (catalog_prefix c) = 9"
  by (simp add: catalog_prefix_def)

lemma length_family_prefix [simp, len_simps]: "length (family_prefix c f) = 11"
  by (simp add: family_prefix_def)

lemma family_prefix_inj [simp]:
  "family_prefix c f = family_prefix c' f' \<longleftrightarrow> c = c' \<and> f = f'"
  by (auto simp: family_prefix_def catalog_prefix_def)

lemma family_prefix_append_eq [simp]:
  "family_prefix c f @ xs = family_prefix c' f' @ ys \<longleftrightarrow> c = c' \<and> f = f' \<and> xs = ys"
  by (auto simp: append_eq_append_conv)

lemma prefix_append_cancel [simp]: "prefix (p @ xs) (p @ ys) \<longleftrightarrow> prefix xs ys"
  by (simp add: prefix_def)

lemma prefix_family_prefix [simp]:
  "prefix (family_prefix c f @ xs) (family_prefix c' f' @ ys) \<longleftrightarrow> c = c' \<and> f = f' \<and> prefix xs ys"
  by (auto simp: prefix_def append_assoc)

lemma prefix_family_prefix_Nil [simp]:
  "prefix (family_prefix c f) (family_prefix c' f' @ ys) \<longleftrightarrow> c = c' \<and> f = f'"
  using prefix_family_prefix [of c f "[]" c' f' ys] by simp

section \<open>The end of a prefix scan\<close>

text \<open>The loop of \<open>prefix_end\<close> runs over the bytes from the last to the first; \<open>None\<close> is the loop
  running off the front, after which the code pushes a zero byte.\<close>

fun prefix_end_loop :: "bytes \<Rightarrow> bytes option" where
  "prefix_end_loop [] = None"
| "prefix_end_loop (b # bs) =
     (if b < 0xff then Some ((b + 1) # bs) else map_option (\<lambda>r. 0 # r) (prefix_end_loop bs))"

definition prefix_end :: "bytes \<Rightarrow> bytes" where
  "prefix_end p =
     (case prefix_end_loop (rev p) of
        Some r \<Rightarrow> rev r
      | None \<Rightarrow> replicate (length p) 0 @ [0])"

lemma prefix_end_snoc: "b < 0xff \<Longrightarrow> prefix_end (p @ [b]) = p @ [b + 1]"
  by (simp add: prefix_end_def)

lemma byte_less_Suc: "b < 0xff \<Longrightarrow> c < b + 1 \<longleftrightarrow> c \<le> b" for b c :: byte
  by (simp add: word_less_nat_alt word_le_nat_alt unat_word_ariths less_Suc_eq_le)

text \<open>For a prefix whose last byte is not \<open>0xff\<close>, the scanned range is exactly the prefixed keys.\<close>

lemma prefix_range_iff:
  "b < 0xff \<Longrightarrow> p @ [b] \<le> k \<and> k < prefix_end (p @ [b]) \<longleftrightarrow> prefix (p @ [b]) k"
proof -
  assume b: "b < 0xff"
  have "p @ [b] \<le> k \<and> k < p @ [b + 1] \<longleftrightarrow> prefix (p @ [b]) k"
  proof (induction p arbitrary: k)
    case Nil
    show ?case
      using b by (cases k) (auto simp: byte_less_Suc)
  next
    case (Cons a p)
    show ?case
    proof (cases k)
      case (Cons c ks)
      with Cons.IH [of ks] show ?thesis
        by (cases a c rule: linorder_cases) (auto dest: less_asym)
    qed simp
  qed
  with b show ?thesis by (simp add: prefix_end_snoc)
qed

lemma prefix_end_family: "prefix_end (family_prefix c f) = catalog_prefix c @ [family_code f] @ [slash + 1]"
  using prefix_end_snoc [of slash "catalog_prefix c @ [family_code f]"] by (simp add: family_prefix_def)

text \<open>A range between two keys with a common prefix holds only keys with that prefix.\<close>

lemma common_prefix_range: "p @ xs \<le> k \<Longrightarrow> k < p @ ys \<Longrightarrow> prefix p (k :: bytes)"
proof (induction p arbitrary: k)
  case (Cons a p)
  then show ?case by (cases k) (auto dest: less_asym)
qed simp

text \<open>Scan bounds built from an order: the key of order \<open>a\<close> lies below the bound of order \<open>b\<close>
  exactly when \<open>a \<le> b\<close>, because the byte after the order in a key is a slash and the bound ends in
  \<open>0xff\<close>.\<close>

lemma order_below_scan_end:
  "t < 0xff \<Longrightarrow>
   p @ order_as_bytes a @ t # rest < p @ order_as_bytes b @ [0xff] \<longleftrightarrow> a \<le> b"
  by (auto simp: less_append_eq_length order_le_bytes le_less)

lemma order_above_scan_start:
  "p @ order_as_bytes b \<le> p @ order_as_bytes a @ rest \<longleftrightarrow> b \<le> a"
proof -
  have "order_as_bytes b \<le> order_as_bytes a @ rest \<longleftrightarrow> order_as_bytes b \<le> order_as_bytes a"
    using less_append_eq_length [of "order_as_bytes a" "order_as_bytes b" rest "[]"]
    by (auto simp: linorder_not_less [symmetric])
  then show ?thesis by (simp add: order_le_bytes)
qed

lemma order_after_scan_start:
  "t < 0xff \<Longrightarrow>
   p @ order_as_bytes b @ [0xff] \<le> p @ order_as_bytes a @ t # rest \<longleftrightarrow> b < a"
  using order_below_scan_end [of t p a rest b]
  by (auto simp: linorder_not_less [symmetric] simp del: append_le_append append_less_append)

section \<open>Debug decoding\<close>

definition hex_digit :: "nat \<Rightarrow> char" where
  "hex_digit n = ''0123456789abcdef'' ! n"

definition hex_string :: "bytes \<Rightarrow> string" where
  "hex_string bs = concat (map (\<lambda>b. [hex_digit (unat b div 16), hex_digit (unat b mod 16)]) bs)"

fun show_nat :: "nat \<Rightarrow> string" where
  "show_nat n = (if n < 10 then [hex_digit n] else show_nat (n div 10) @ [hex_digit (n mod 10)])"

declare show_nat.simps [simp del]

definition parse_catalog_prefix :: "bytes \<Rightarrow> (u64 \<times> bytes) catalog_result" where
  "parse_catalog_prefix key =
     (if length key < 10 then Inl (InvalidKey ''key too short'')
      else rbind (slice key 0 8) (\<lambda>cb.
        rbind (be_u64 (InvalidKey ''catalog prefix is truncated'') cb) (\<lambda>catalog.
        rbind (byte_at key 8) (\<lambda>sep.
          if sep \<noteq> slash then Inl (InvalidKey ''missing catalog separator'')
          else rbind (slice_from key 9) (\<lambda>rest. Inr (catalog, rest))))))"

definition decode_key :: "bytes \<Rightarrow> string catalog_result" where
  "decode_key key =
     rbind (parse_catalog_prefix key) (\<lambda>(catalog, rest).
       case rest of
         [] \<Rightarrow> Inl (InvalidKey ''missing family'')
       | code # after_code \<Rightarrow>
           rbind (family_from_code code) (\<lambda>family.
             let tail = (case strip_prefix [slash] after_code of Some t \<Rightarrow> t | None \<Rightarrow> after_code)
             in Inr (''catalog='' @ show_nat (unat catalog) @ ''/family='' @ family_label family @
                     ''/tail='' @ hex_string tail)))"

end
