(* ===== verification/Cat_Keys.thy ===== *)
theory Cat_Keys
  imports Cat_Key_Family
begin

text \<open>
  The key builders and key decoders of \<open>keys.rs\<close>, \<open>object_keys.rs\<close>, \<open>change_keys.rs\<close> and
  \<open>snapshot_keys.rs\<close>, one definition per function. The lemmas show that fields are recovered from
  keys, that keys of one builder are injective in their fields, and that the scan bounds select by
  order or by timestamp.
\<close>

section \<open>Change kinds of inlined rows\<close>

datatype inline_row_change_kind = Inserted | Deleted

definition inline_change_kind_code :: "inline_row_change_kind \<Rightarrow> byte" where
  "inline_change_kind_code k = (case k of Inserted \<Rightarrow> 105 | Deleted \<Rightarrow> 100)"

definition inline_change_kind_from_code :: "byte \<Rightarrow> inline_row_change_kind catalog_result" where
  "inline_change_kind_from_code c =
     (if c = 105 then Inr Inserted else if c = 100 then Inr Deleted
      else Inl (InvalidKey ''unknown inline row change kind''))"

lemma inline_change_kind_from_code_code [simp]:
  "inline_change_kind_from_code (inline_change_kind_code k) = Inr k"
  by (cases k) (simp_all add: inline_change_kind_from_code_def inline_change_kind_code_def)

lemma inline_change_kind_code_inj [simp]:
  "inline_change_kind_code a = inline_change_kind_code b \<longleftrightarrow> a = b"
  by (metis inline_change_kind_from_code_code sum.inject(2))

section \<open>Key builders\<close>

subsection \<open>keys.rs\<close>

definition inline_live_row_key ::
    "catalog_id \<Rightarrow> table_id \<Rightarrow> schema_id \<Rightarrow> u64 \<Rightarrow> bytes" where [key_defs]:
  "inline_live_row_key catalog table_id schema_id row_id =
     family_prefix catalog InlineLiveRow @ u64_to_be_bytes table_id @ [slash] @
     u64_to_be_bytes schema_id @ [slash] @ u64_to_be_bytes row_id"

definition inline_current_row_prefix ::
    "catalog_id \<Rightarrow> table_id \<Rightarrow> schema_id \<Rightarrow> bytes" where [key_defs]:
  "inline_current_row_prefix catalog table_id schema_id =
     family_prefix catalog InlineCurrentRow @ u64_to_be_bytes table_id @ [slash] @
     u64_to_be_bytes schema_id @ [slash]"

definition inline_current_row_key ::
    "catalog_id \<Rightarrow> table_id \<Rightarrow> schema_id \<Rightarrow> u64 \<Rightarrow> bytes" where [key_defs]:
  "inline_current_row_key catalog table_id schema_id row_id =
     inline_current_row_prefix catalog table_id schema_id @ u64_to_be_bytes row_id"

definition inline_next_row_id_key ::
    "catalog_id \<Rightarrow> table_id \<Rightarrow> schema_id \<Rightarrow> bytes" where [key_defs]:
  "inline_next_row_id_key catalog table_id schema_id =
     family_prefix catalog MetadataVersion @ ascii ''inline-next-row-id/'' @
     u64_to_be_bytes table_id @ [slash] @ u64_to_be_bytes schema_id"

definition table_next_row_id_key :: "catalog_id \<Rightarrow> table_id \<Rightarrow> bytes" where [key_defs]:
  "table_next_row_id_key catalog table_id =
     family_prefix catalog MetadataVersion @ ascii ''table-next-row-id/'' @
     u64_to_be_bytes table_id"

definition data_file_key :: "catalog_id \<Rightarrow> data_file_id \<Rightarrow> bytes" where [key_defs]:
  "data_file_key catalog data_file_id =
     family_prefix catalog DataFile @ u64_to_be_bytes data_file_id"

definition table_file_stats_version_key ::
    "catalog_id \<Rightarrow> table_id \<Rightarrow> bytes" where [key_defs]:
  "table_file_stats_version_key catalog table_id =
     family_prefix catalog MetadataVersion @ ascii ''table-file-stats/'' @
     u64_to_be_bytes table_id"

definition catalog_file_stats_version_key :: "catalog_id \<Rightarrow> bytes" where [key_defs]:
  "catalog_file_stats_version_key catalog =
     family_prefix catalog MetadataVersion @ ascii ''catalog-file-stats''"

definition conflict_watermarks_initialized_key :: "catalog_id \<Rightarrow> bytes" where [key_defs]:
  "conflict_watermarks_initialized_key catalog =
     family_prefix catalog MetadataVersion @ ascii ''conflict-watermarks-initialized''"

definition conflict_max_catalog_id_key :: "catalog_id \<Rightarrow> bytes" where [key_defs]:
  "conflict_max_catalog_id_key catalog =
     family_prefix catalog MetadataVersion @ ascii ''conflict-max-catalog-id''"

definition conflict_max_file_id_key :: "catalog_id \<Rightarrow> bytes" where [key_defs]:
  "conflict_max_file_id_key catalog =
     family_prefix catalog MetadataVersion @ ascii ''conflict-max-file-id''"

definition current_schema_version_key :: "catalog_id \<Rightarrow> bytes" where [key_defs]:
  "current_schema_version_key catalog =
     family_prefix catalog MetadataVersion @ ascii ''current-schema-version''"

definition schema_version_history_prefix :: "catalog_id \<Rightarrow> bytes" where [key_defs]:
  "schema_version_history_prefix catalog =
     family_prefix catalog MetadataVersion @ ascii ''schema-version-history/''"

definition schema_version_history_key ::
    "catalog_id \<Rightarrow> catalog_order_id \<Rightarrow> bytes" where [key_defs]:
  "schema_version_history_key catalog ord =
     schema_version_history_prefix catalog @ order_as_bytes ord"

definition schema_version_history_scan_end ::
    "catalog_id \<Rightarrow> catalog_order_id \<Rightarrow> bytes" where [key_defs]:
  "schema_version_history_scan_end catalog ord =
     schema_version_history_key catalog ord @ [0xff]"

definition schema_version_history_key_order_offset :: "catalog_id \<Rightarrow> nat" where
  "schema_version_history_key_order_offset catalog = length (schema_version_history_prefix catalog)"

definition schema_version_begin_snapshot_key ::
    "catalog_id \<Rightarrow> u64 \<Rightarrow> bytes" where [key_defs]:
  "schema_version_begin_snapshot_key catalog schema_version =
     family_prefix catalog MetadataVersion @ ascii ''schema-version-begin-snapshot/'' @
     u64_to_be_bytes schema_version"

definition catalog_snapshot_version_key :: "catalog_id \<Rightarrow> bytes" where [key_defs]:
  "catalog_snapshot_version_key catalog =
     family_prefix catalog MetadataVersion @ ascii ''catalog-snapshot-version''"

definition latest_snapshot_row_key :: "catalog_id \<Rightarrow> bytes" where [key_defs]:
  "latest_snapshot_row_key catalog =
     family_prefix catalog MetadataVersion @ ascii ''latest-snapshot-row''"

definition raw_snapshot_row_key ::
    "catalog_id \<Rightarrow> raw_snapshot_sequence \<Rightarrow> bytes" where [key_defs]:
  "raw_snapshot_row_key catalog raw_sequence =
     family_prefix catalog MetadataVersion @ ascii ''raw-snapshot-row/'' @
     raw_sequence_to_be_bytes raw_sequence"

definition current_data_file_prefix ::
    "catalog_id \<Rightarrow> table_id \<Rightarrow> bytes" where [key_defs]:
  "current_data_file_prefix catalog table_id =
     family_prefix catalog CurrentDataFile @ u64_to_be_bytes table_id @ [slash]"

definition current_data_file_key ::
    "catalog_id \<Rightarrow> table_id \<Rightarrow> data_file_id \<Rightarrow> bytes" where [key_defs]:
  "current_data_file_key catalog table_id data_file_id =
     current_data_file_prefix catalog table_id @ u64_to_be_bytes data_file_id"

definition data_file_begin_key ::
    "catalog_id \<Rightarrow> table_id \<Rightarrow> catalog_order_id \<Rightarrow> data_file_id \<Rightarrow> bytes" where [key_defs]:
  "data_file_begin_key catalog table_id begin_order data_file_id =
     family_prefix catalog DataFileBegin @ u64_to_be_bytes table_id @ [slash] @
     order_as_bytes begin_order @ [slash] @ u64_to_be_bytes data_file_id"

definition data_file_begin_prefix :: "catalog_id \<Rightarrow> table_id \<Rightarrow> bytes" where [key_defs]:
  "data_file_begin_prefix catalog table_id =
     family_prefix catalog DataFileBegin @ u64_to_be_bytes table_id @ [slash]"

definition data_file_begin_scan_end ::
    "catalog_id \<Rightarrow> table_id \<Rightarrow> catalog_order_id \<Rightarrow> bytes" where [key_defs]:
  "data_file_begin_scan_end catalog table_id snapshot_order =
     data_file_begin_prefix catalog table_id @ order_as_bytes snapshot_order @ [0xff]"

definition data_file_end_key ::
    "catalog_id \<Rightarrow> table_id \<Rightarrow> catalog_order_id \<Rightarrow> data_file_id \<Rightarrow> bytes" where [key_defs]:
  "data_file_end_key catalog table_id end_order data_file_id =
     family_prefix catalog EndOrder @ u64_to_be_bytes table_id @ [slash] @
     order_as_bytes end_order @ [slash] @ u64_to_be_bytes data_file_id"

definition delete_file_end_key ::
    "catalog_id \<Rightarrow> table_id \<Rightarrow> catalog_order_id \<Rightarrow> delete_file_id \<Rightarrow> bytes" where [key_defs]:
  "delete_file_end_key catalog table_id end_order delete_file_id =
     family_prefix catalog EndOrder @ u64_to_be_bytes table_id @ [slash] @
     order_as_bytes end_order @ [slash] @ [120] @ [slash] @ u64_to_be_bytes delete_file_id"

definition inline_table_end_key ::
    "catalog_id \<Rightarrow> table_id \<Rightarrow> catalog_order_id \<Rightarrow> schema_id \<Rightarrow> catalog_order_id \<Rightarrow> bytes" where [key_defs]:
  "inline_table_end_key catalog table_id end_order schema_id begin_order =
     family_prefix catalog EndOrder @ u64_to_be_bytes table_id @ [slash] @
     order_as_bytes end_order @ [slash] @ [105] @ [slash] @ u64_to_be_bytes schema_id @ [slash] @
     order_as_bytes begin_order"

record inline_flush_watermark_key =
  ifw_table_id :: table_id
  ifw_end_order :: catalog_order_id
  ifw_schema_id :: schema_id
  ifw_max_begin_order :: catalog_order_id

definition inline_flush_watermark_key_encode ::
    "inline_flush_watermark_key \<Rightarrow> catalog_id \<Rightarrow> bytes" where [key_defs]:
  "inline_flush_watermark_key_encode w catalog =
     family_prefix catalog InlineFlushWatermark @ u64_to_be_bytes (ifw_table_id w) @ [slash] @
     order_as_bytes (ifw_end_order w) @ [slash] @ u64_to_be_bytes (ifw_schema_id w) @ [slash] @
     order_as_bytes (ifw_max_begin_order w)"

definition inline_file_deletion_table_prefix ::
    "catalog_id \<Rightarrow> table_id \<Rightarrow> bytes" where [key_defs]:
  "inline_file_deletion_table_prefix catalog table_id =
     family_prefix catalog InlineFileDeletion @ u64_to_be_bytes table_id @ [slash]"

definition inline_file_deletion_file_prefix ::
    "catalog_id \<Rightarrow> table_id \<Rightarrow> data_file_id \<Rightarrow> bytes" where [key_defs]:
  "inline_file_deletion_file_prefix catalog table_id data_file_id =
     inline_file_deletion_table_prefix catalog table_id @ u64_to_be_bytes data_file_id @ [slash]"

definition inline_file_deletion_key ::
    "catalog_id \<Rightarrow> table_id \<Rightarrow> data_file_id \<Rightarrow> catalog_order_id \<Rightarrow> u64 \<Rightarrow> bytes" where [key_defs]:
  "inline_file_deletion_key catalog table_id data_file_id begin_order row_id =
     inline_file_deletion_file_prefix catalog table_id data_file_id @ order_as_bytes begin_order @
     [slash] @ u64_to_be_bytes row_id"

definition delete_file_key :: "catalog_id \<Rightarrow> delete_file_id \<Rightarrow> bytes" where [key_defs]:
  "delete_file_key catalog delete_file_id =
     family_prefix catalog DeleteFile @ u64_to_be_bytes delete_file_id"

definition current_delete_file_key ::
    "catalog_id \<Rightarrow> data_file_id \<Rightarrow> bytes" where [key_defs]:
  "current_delete_file_key catalog data_file_id =
     family_prefix catalog CurrentDeleteFile @ u64_to_be_bytes data_file_id"

definition delete_file_timeline_prefix ::
    "catalog_id \<Rightarrow> data_file_id \<Rightarrow> bytes" where [key_defs]:
  "delete_file_timeline_prefix catalog data_file_id =
     family_prefix catalog DeleteFileTimeline @ u64_to_be_bytes data_file_id @ [slash]"

definition delete_file_timeline_key ::
    "catalog_id \<Rightarrow> data_file_id \<Rightarrow> catalog_order_id \<Rightarrow> delete_file_id \<Rightarrow> bytes" where [key_defs]:
  "delete_file_timeline_key catalog data_file_id begin_order delete_file_id =
     delete_file_timeline_prefix catalog data_file_id @ order_as_bytes begin_order @ [slash] @
     u64_to_be_bytes delete_file_id"

definition delete_file_timeline_scan_end ::
    "catalog_id \<Rightarrow> data_file_id \<Rightarrow> catalog_order_id \<Rightarrow> bytes" where [key_defs]:
  "delete_file_timeline_scan_end catalog data_file_id snapshot_order =
     delete_file_timeline_prefix catalog data_file_id @ order_as_bytes snapshot_order @ [0xff]"

definition file_column_stats_data_file_prefix ::
    "catalog_id \<Rightarrow> data_file_id \<Rightarrow> bytes" where [key_defs]:
  "file_column_stats_data_file_prefix catalog data_file_id =
     family_prefix catalog FileColumnStats @ u64_to_be_bytes data_file_id"

definition file_column_stats_key ::
    "catalog_id \<Rightarrow> data_file_id \<Rightarrow> column_id \<Rightarrow> bytes" where [key_defs]:
  "file_column_stats_key catalog data_file_id column_id =
     file_column_stats_data_file_prefix catalog data_file_id @ [slash] @
     u64_to_be_bytes column_id"

definition file_column_stats_lookup_prefix ::
    "catalog_id \<Rightarrow> table_id \<Rightarrow> column_id \<Rightarrow> bytes" where [key_defs]:
  "file_column_stats_lookup_prefix catalog table_id column_id =
     family_prefix catalog FileColumnStatsLookup @ u64_to_be_bytes table_id @ [slash] @
     u64_to_be_bytes column_id @ [slash]"

definition file_column_stats_lookup_key ::
    "catalog_id \<Rightarrow> table_id \<Rightarrow> column_id \<Rightarrow> data_file_id \<Rightarrow> bytes" where [key_defs]:
  "file_column_stats_lookup_key catalog table_id column_id data_file_id =
     file_column_stats_lookup_prefix catalog table_id column_id @ u64_to_be_bytes data_file_id"

definition file_partition_value_prefix ::
    "catalog_id \<Rightarrow> data_file_id \<Rightarrow> bytes" where [key_defs]:
  "file_partition_value_prefix catalog data_file_id =
     family_prefix catalog FilePartitionValue @ u64_to_be_bytes data_file_id @ [slash]"

definition file_partition_value_key ::
    "catalog_id \<Rightarrow> data_file_id \<Rightarrow> partition_key_index \<Rightarrow> bytes" where [key_defs]:
  "file_partition_value_key catalog data_file_id partition_key_index =
     file_partition_value_prefix catalog data_file_id @ u32_to_be_bytes partition_key_index"

definition partition_value_lookup_prefix ::
    "catalog_id \<Rightarrow> table_id \<Rightarrow> partition_key_index \<Rightarrow> rust_string \<Rightarrow> bytes" where [key_defs]:
  "partition_value_lookup_prefix catalog table_id partition_key_index partition_value =
     family_prefix catalog PartitionValueLookup @ u64_to_be_bytes table_id @ [slash] @
     u32_to_be_bytes partition_key_index @ [slash] @
     u32_to_be_bytes (word_of_nat (length partition_value)) @ partition_value @ [slash]"

definition partition_value_lookup_key ::
    "catalog_id \<Rightarrow> table_id \<Rightarrow> partition_key_index \<Rightarrow> rust_string \<Rightarrow> data_file_id \<Rightarrow> bytes" where [key_defs]:
  "partition_value_lookup_key catalog table_id partition_key_index partition_value data_file_id =
     partition_value_lookup_prefix catalog table_id partition_key_index partition_value @
     u64_to_be_bytes data_file_id"

definition scheduled_cleanup_prefix :: "catalog_id \<Rightarrow> byte \<Rightarrow> bytes" where [key_defs]:
  "scheduled_cleanup_prefix catalog kind =
     family_prefix catalog ScheduledCleanup @ [kind] @ [slash]"

definition scheduled_cleanup_key ::
    "catalog_id \<Rightarrow> byte \<Rightarrow> u64 \<Rightarrow> bytes" where [key_defs]:
  "scheduled_cleanup_key catalog kind file_id =
     scheduled_cleanup_prefix catalog kind @ u64_to_be_bytes file_id"

definition scheduled_data_file_cleanup_key ::
    "catalog_id \<Rightarrow> data_file_id \<Rightarrow> bytes" where [key_defs]:
  "scheduled_data_file_cleanup_key catalog data_file_id =
     scheduled_cleanup_key catalog 100 data_file_id"

definition scheduled_delete_file_cleanup_key ::
    "catalog_id \<Rightarrow> delete_file_id \<Rightarrow> bytes" where [key_defs]:
  "scheduled_delete_file_cleanup_key catalog delete_file_id =
     scheduled_cleanup_key catalog 120 delete_file_id"

definition scheduled_data_file_cleanup_prefix :: "catalog_id \<Rightarrow> bytes" where [key_defs]:
  "scheduled_data_file_cleanup_prefix catalog =
     scheduled_cleanup_prefix catalog 100"

definition scheduled_delete_file_cleanup_prefix :: "catalog_id \<Rightarrow> bytes" where [key_defs]:
  "scheduled_delete_file_cleanup_prefix catalog =
     scheduled_cleanup_prefix catalog 120"

subsection \<open>object\_keys.rs\<close>

definition conflict_fence_key :: "catalog_id \<Rightarrow> bytes \<Rightarrow> bytes" where [key_defs]:
  "conflict_fence_key catalog scope =
     family_prefix catalog ConflictFence @ scope"

definition table_object_scan_prefix :: "catalog_id \<Rightarrow> bytes" where [key_defs]:
  "table_object_scan_prefix catalog =
     family_prefix catalog Object @ [116] @ [slash]"

definition table_object_prefix :: "catalog_id \<Rightarrow> table_id \<Rightarrow> bytes" where [key_defs]:
  "table_object_prefix catalog table_id =
     table_object_scan_prefix catalog @ u64_to_be_bytes table_id @ [slash]"

definition table_object_key ::
    "catalog_id \<Rightarrow> table_id \<Rightarrow> catalog_order_id \<Rightarrow> bytes" where [key_defs]:
  "table_object_key catalog table_id ord =
     table_object_prefix catalog table_id @ order_as_bytes ord"

definition current_table_row_prefix :: "catalog_id \<Rightarrow> bytes" where [key_defs]:
  "current_table_row_prefix catalog =
     family_prefix catalog Object @ [84] @ [slash]"

definition current_table_row_key :: "catalog_id \<Rightarrow> table_id \<Rightarrow> bytes" where [key_defs]:
  "current_table_row_key catalog table_id =
     current_table_row_prefix catalog @ u64_to_be_bytes table_id"

definition to_ascii_lowercase :: "rust_string \<Rightarrow> rust_string" where
  "to_ascii_lowercase s = map (\<lambda>b. if 65 \<le> b \<and> b \<le> 90 then b + 32 else b) s"

definition current_table_name_key ::
    "catalog_id \<Rightarrow> schema_id \<Rightarrow> rust_string \<Rightarrow> bytes" where [key_defs]:
  "current_table_name_key catalog schema_id name =
     family_prefix catalog Object @ [110] @ [slash] @ u64_to_be_bytes schema_id @ [slash] @
     to_ascii_lowercase name"

definition table_visibility_prefix :: "catalog_id \<Rightarrow> bytes" where [key_defs]:
  "table_visibility_prefix catalog =
     family_prefix catalog Object @ [86] @ [slash]"

definition table_visibility_key ::
    "catalog_id \<Rightarrow> catalog_order_id \<Rightarrow> table_id \<Rightarrow> bytes" where [key_defs]:
  "table_visibility_key catalog begin_order table_id =
     table_visibility_prefix catalog @ order_as_bytes begin_order @ [slash] @
     u64_to_be_bytes table_id"

definition table_visibility_scan_end ::
    "catalog_id \<Rightarrow> catalog_order_id \<Rightarrow> bytes" where [key_defs]:
  "table_visibility_scan_end catalog snapshot_order =
     table_visibility_prefix catalog @ order_as_bytes snapshot_order @ [0xff]"

definition schema_object_scan_prefix :: "catalog_id \<Rightarrow> bytes" where [key_defs]:
  "schema_object_scan_prefix catalog =
     family_prefix catalog Object @ [115] @ [slash]"

definition schema_object_prefix :: "catalog_id \<Rightarrow> schema_id \<Rightarrow> bytes" where [key_defs]:
  "schema_object_prefix catalog schema_id =
     schema_object_scan_prefix catalog @ u64_to_be_bytes schema_id @ [slash]"

definition schema_object_key ::
    "catalog_id \<Rightarrow> schema_id \<Rightarrow> catalog_order_id \<Rightarrow> bytes" where [key_defs]:
  "schema_object_key catalog schema_id ord =
     schema_object_prefix catalog schema_id @ order_as_bytes ord"

definition view_object_scan_prefix :: "catalog_id \<Rightarrow> bytes" where [key_defs]:
  "view_object_scan_prefix catalog =
     family_prefix catalog Object @ [118] @ [slash]"

definition view_object_prefix :: "catalog_id \<Rightarrow> table_id \<Rightarrow> bytes" where [key_defs]:
  "view_object_prefix catalog view_id =
     view_object_scan_prefix catalog @ u64_to_be_bytes view_id @ [slash]"

definition view_object_key ::
    "catalog_id \<Rightarrow> table_id \<Rightarrow> catalog_order_id \<Rightarrow> bytes" where [key_defs]:
  "view_object_key catalog view_id ord =
     view_object_prefix catalog view_id @ order_as_bytes ord"

definition macro_object_scan_prefix :: "catalog_id \<Rightarrow> bytes" where [key_defs]:
  "macro_object_scan_prefix catalog =
     family_prefix catalog Object @ [109] @ [slash]"

definition macro_object_prefix :: "catalog_id \<Rightarrow> macro_id \<Rightarrow> bytes" where [key_defs]:
  "macro_object_prefix catalog macro_id =
     macro_object_scan_prefix catalog @ u64_to_be_bytes macro_id @ [slash]"

definition macro_object_key ::
    "catalog_id \<Rightarrow> macro_id \<Rightarrow> catalog_order_id \<Rightarrow> bytes" where [key_defs]:
  "macro_object_key catalog macro_id ord =
     macro_object_prefix catalog macro_id @ order_as_bytes ord"

subsection \<open>change\_keys.rs\<close>

definition table_data_file_change_prefix ::
    "catalog_id \<Rightarrow> table_id \<Rightarrow> bytes" where [key_defs]:
  "table_data_file_change_prefix catalog table_id =
     family_prefix catalog TableChanges @ u64_to_be_bytes table_id @ [slash]"

definition table_data_file_change_key ::
    "catalog_id \<Rightarrow> table_id \<Rightarrow> catalog_order_id \<Rightarrow> data_file_change_kind \<Rightarrow> data_file_id \<Rightarrow> bytes" where [key_defs]:
  "table_data_file_change_key catalog table_id ord kind data_file_id =
     table_data_file_change_prefix catalog table_id @ order_as_bytes ord @ [slash] @
     [change_kind_code kind] @ [slash] @ u64_to_be_bytes data_file_id"

definition snapshot_data_file_change_prefix :: "catalog_id \<Rightarrow> bytes" where [key_defs]:
  "snapshot_data_file_change_prefix catalog =
     family_prefix catalog SnapshotChanges"

definition snapshot_data_file_change_key ::
    "catalog_id \<Rightarrow> table_id \<Rightarrow> catalog_order_id \<Rightarrow> data_file_change_kind \<Rightarrow> data_file_id \<Rightarrow> bytes" where [key_defs]:
  "snapshot_data_file_change_key catalog table_id ord kind data_file_id =
     snapshot_data_file_change_prefix catalog @ order_as_bytes ord @ [slash] @
     u64_to_be_bytes table_id @ [slash] @ [change_kind_code kind] @ [slash] @
     u64_to_be_bytes data_file_id"

definition table_data_file_change_scan_start ::
    "catalog_id \<Rightarrow> table_id \<Rightarrow> catalog_order_id \<Rightarrow> bytes" where [key_defs]:
  "table_data_file_change_scan_start catalog table_id start_order =
     table_data_file_change_prefix catalog table_id @ order_as_bytes start_order"

definition table_data_file_change_scan_end ::
    "catalog_id \<Rightarrow> table_id \<Rightarrow> catalog_order_id \<Rightarrow> bytes" where [key_defs]:
  "table_data_file_change_scan_end catalog table_id end_order =
     table_data_file_change_prefix catalog table_id @ order_as_bytes end_order @ [0xff]"

definition table_delete_file_change_prefix ::
    "catalog_id \<Rightarrow> table_id \<Rightarrow> bytes" where [key_defs]:
  "table_delete_file_change_prefix catalog table_id =
     family_prefix catalog DeleteFileChange @ u64_to_be_bytes table_id @ [slash]"

definition table_delete_file_change_key ::
    "catalog_id \<Rightarrow> table_id \<Rightarrow> catalog_order_id \<Rightarrow> delete_file_id \<Rightarrow> bytes" where [key_defs]:
  "table_delete_file_change_key catalog table_id ord delete_file_id =
     table_delete_file_change_prefix catalog table_id @ order_as_bytes ord @ [slash] @
     u64_to_be_bytes delete_file_id"

definition table_delete_file_change_scan_start ::
    "catalog_id \<Rightarrow> table_id \<Rightarrow> catalog_order_id \<Rightarrow> bytes" where [key_defs]:
  "table_delete_file_change_scan_start catalog table_id start_order =
     table_delete_file_change_prefix catalog table_id @ order_as_bytes start_order"

definition table_delete_file_change_scan_end ::
    "catalog_id \<Rightarrow> table_id \<Rightarrow> catalog_order_id \<Rightarrow> bytes" where [key_defs]:
  "table_delete_file_change_scan_end catalog table_id end_order =
     table_delete_file_change_prefix catalog table_id @ order_as_bytes end_order @ [0xff]"

definition order_delete_file_change_prefix :: "catalog_id \<Rightarrow> bytes" where [key_defs]:
  "order_delete_file_change_prefix catalog =
     family_prefix catalog DeleteFileChangeByOrder"

definition order_delete_file_change_key ::
    "catalog_id \<Rightarrow> catalog_order_id \<Rightarrow> table_id \<Rightarrow> delete_file_id \<Rightarrow> bytes" where [key_defs]:
  "order_delete_file_change_key catalog ord table_id delete_file_id =
     order_delete_file_change_prefix catalog @ order_as_bytes ord @ [slash] @
     u64_to_be_bytes table_id @ [slash] @ u64_to_be_bytes delete_file_id"

definition order_delete_file_change_scan_start ::
    "catalog_id \<Rightarrow> catalog_order_id \<Rightarrow> bytes" where [key_defs]:
  "order_delete_file_change_scan_start catalog start_order =
     order_delete_file_change_prefix catalog @ order_as_bytes start_order"

definition order_delete_file_change_scan_end ::
    "catalog_id \<Rightarrow> catalog_order_id \<Rightarrow> bytes" where [key_defs]:
  "order_delete_file_change_scan_end catalog end_order =
     order_delete_file_change_prefix catalog @ order_as_bytes end_order @ [0xff]"

definition table_inline_row_change_prefix ::
    "catalog_id \<Rightarrow> table_id \<Rightarrow> bytes" where [key_defs]:
  "table_inline_row_change_prefix catalog table_id =
     family_prefix catalog InlineRowChange @ u64_to_be_bytes table_id @ [slash]"

definition table_inline_row_change_key ::
    "catalog_id \<Rightarrow> table_id \<Rightarrow> catalog_order_id \<Rightarrow> inline_row_change_kind \<Rightarrow> schema_id \<Rightarrow> u64 \<Rightarrow> bytes" where [key_defs]:
  "table_inline_row_change_key catalog table_id ord kind schema_id row_id =
     table_inline_row_change_prefix catalog table_id @ order_as_bytes ord @ [slash] @
     [inline_change_kind_code kind] @ [slash] @ u64_to_be_bytes schema_id @ [slash] @
     u64_to_be_bytes row_id"

definition table_inline_row_change_scan_start ::
    "catalog_id \<Rightarrow> table_id \<Rightarrow> catalog_order_id \<Rightarrow> bytes" where [key_defs]:
  "table_inline_row_change_scan_start catalog table_id start_order =
     table_inline_row_change_prefix catalog table_id @ order_as_bytes start_order"

definition table_inline_row_change_scan_end ::
    "catalog_id \<Rightarrow> table_id \<Rightarrow> catalog_order_id \<Rightarrow> bytes" where [key_defs]:
  "table_inline_row_change_scan_end catalog table_id end_order =
     table_inline_row_change_prefix catalog table_id @ order_as_bytes end_order @ [0xff]"

definition inline_table_change_prefix :: "catalog_id \<Rightarrow> bytes" where [key_defs]:
  "inline_table_change_prefix catalog =
     family_prefix catalog InlineTableChange"

definition inline_table_change_key ::
    "catalog_id \<Rightarrow> catalog_order_id \<Rightarrow> inline_row_change_kind \<Rightarrow> table_id \<Rightarrow> bytes" where [key_defs]:
  "inline_table_change_key catalog ord kind table_id =
     inline_table_change_prefix catalog @ order_as_bytes ord @ [slash] @
     [inline_change_kind_code kind] @ [slash] @ u64_to_be_bytes table_id"

definition table_schema_kind_inline_row_change_prefix ::
    "catalog_id \<Rightarrow> table_id \<Rightarrow> schema_id \<Rightarrow> inline_row_change_kind \<Rightarrow> bytes" where [key_defs]:
  "table_schema_kind_inline_row_change_prefix catalog table_id schema_id kind =
     family_prefix catalog InlineRowChangeBySchemaKind @ u64_to_be_bytes table_id @ [slash] @
     u64_to_be_bytes schema_id @ [slash] @ [inline_change_kind_code kind] @ [slash]"

definition table_schema_kind_inline_row_change_key ::
    "catalog_id \<Rightarrow> table_id \<Rightarrow> schema_id \<Rightarrow> inline_row_change_kind \<Rightarrow> catalog_order_id \<Rightarrow> u64 \<Rightarrow> bytes" where [key_defs]:
  "table_schema_kind_inline_row_change_key catalog table_id schema_id kind ord row_id =
     table_schema_kind_inline_row_change_prefix catalog table_id schema_id kind @
     order_as_bytes ord @ [slash] @ u64_to_be_bytes row_id"

definition table_schema_kind_inline_row_change_scan_start ::
    "catalog_id \<Rightarrow> table_id \<Rightarrow> schema_id \<Rightarrow> inline_row_change_kind \<Rightarrow> catalog_order_id \<Rightarrow> bytes" where [key_defs]:
  "table_schema_kind_inline_row_change_scan_start catalog table_id schema_id kind start_order =
     table_schema_kind_inline_row_change_prefix catalog table_id schema_id kind @
     order_as_bytes start_order"

definition table_schema_kind_inline_row_change_scan_end ::
    "catalog_id \<Rightarrow> table_id \<Rightarrow> schema_id \<Rightarrow> inline_row_change_kind \<Rightarrow> catalog_order_id \<Rightarrow> bytes" where [key_defs]:
  "table_schema_kind_inline_row_change_scan_end catalog table_id schema_id kind end_order =
     table_schema_kind_inline_row_change_prefix catalog table_id schema_id kind @
     order_as_bytes end_order @ [0xff]"

subsection \<open>snapshot\_keys.rs\<close>

definition snapshot_prefix :: "catalog_id \<Rightarrow> bytes" where [key_defs]:
  "snapshot_prefix catalog =
     family_prefix catalog Snapshot"

definition snapshot_key :: "catalog_id \<Rightarrow> catalog_order_id \<Rightarrow> bytes" where [key_defs]:
  "snapshot_key catalog ord =
     family_prefix catalog Snapshot @ order_as_bytes ord"

definition sortable_i64 :: "i64 \<Rightarrow> bytes" where
  "sortable_i64 v = u64_to_be_bytes (v XOR 0x8000000000000000)"

definition unsortable_i64 :: "bytes \<Rightarrow> i64" where
  "unsortable_i64 bs = u64_from_be_bytes bs XOR 0x8000000000000000"

definition snapshot_timestamp_prefix :: "catalog_id \<Rightarrow> bytes" where [key_defs]:
  "snapshot_timestamp_prefix catalog =
     family_prefix catalog SnapshotByTimestamp"

definition snapshot_timestamp_key ::
    "catalog_id \<Rightarrow> i64 \<Rightarrow> catalog_order_id \<Rightarrow> bytes" where [key_defs]:
  "snapshot_timestamp_key catalog created_at_micros ord =
     family_prefix catalog SnapshotByTimestamp @ sortable_i64 created_at_micros @ [slash] @
     order_as_bytes ord"

section \<open>Key decoders\<close>

definition delete_file_timeline_order_from_key ::
    "catalog_id \<Rightarrow> data_file_id \<Rightarrow> bytes \<Rightarrow> catalog_order_kind \<Rightarrow> catalog_order_id catalog_result" where
  "delete_file_timeline_order_from_key catalog data_file_id key kind =
     (case strip_prefix (delete_file_timeline_prefix catalog data_file_id) key of
        None \<Rightarrow> Inl (InvalidKey ''delete file timeline key has wrong prefix'')
      | Some tail \<Rightarrow>
          if length tail \<noteq> 16 + 1 + 8 \<or> tail ! 16 \<noteq> slash
          then Inl (InvalidKey ''delete file timeline key tail must be 25 bytes with separator'')
          else rbind (slice tail 0 16) (\<lambda>bs. Inr (order_from_bytes kind bs)))"

definition decode_snapshot_timestamp_key ::
    "catalog_id \<Rightarrow> bytes \<Rightarrow> (i64 \<times> catalog_order_id) catalog_result" where
  "decode_snapshot_timestamp_key catalog key =
     (case strip_prefix (snapshot_timestamp_prefix catalog) key of
        None \<Rightarrow> Inl (InvalidKey ''snapshot timestamp key has wrong prefix'')
      | Some tail \<Rightarrow>
          if length tail \<noteq> 8 + 1 + 16
          then Inl (InvalidKey ''snapshot timestamp key tail must be 25 bytes'')
          else rbind (byte_at tail 8) (\<lambda>sep.
            if sep \<noteq> slash then Inl (InvalidKey ''snapshot timestamp key is missing separator'')
            else rbind (slice tail 0 8) (\<lambda>ts.
              rbind (slice_from tail 9) (\<lambda>ob.
              rbind (be_u128 (InvalidKey ''snapshot timestamp order is truncated'') ob) (\<lambda>v.
                Inr (unsortable_i64 ts, uuid_v7 v))))))"

definition decode_order_delete_file_change_table_id :: "bytes \<Rightarrow> bytes \<Rightarrow> table_id catalog_result" where
  "decode_order_delete_file_change_table_id p key =
     (case strip_prefix p key of
        None \<Rightarrow> Inl (InvalidKey ''order delete-file change key has wrong prefix'')
      | Some tail \<Rightarrow>
          if length tail \<noteq> 16 + 1 + 8 + 1 + 8
          then Inl (InvalidKey ''order delete-file change key tail must be 34 bytes'')
          else if tail ! 16 \<noteq> slash \<or> tail ! 25 \<noteq> slash
          then Inl (InvalidKey ''order delete-file change key separator is invalid'')
          else rbind (slice tail 17 25)
                 (be_u64 (InvalidKey ''delete-file change table id is truncated'')))"

section \<open>Round trips\<close>

lemma delete_file_timeline_order_from_key_key [simp]:
  "delete_file_timeline_order_from_key c f (delete_file_timeline_key c f ord x) kind =
     Inr (order_from_bytes kind (order_as_bytes ord))"
  by (simp add: delete_file_timeline_order_from_key_def delete_file_timeline_key_def nth_append slice_def)

lemma xor_sign_bit_twice [simp]: "(v XOR m) XOR m = v" for v m :: "'a::len word"
  by (simp add: xor.assoc)

lemma unsortable_sortable [simp]: "unsortable_i64 (sortable_i64 v) = v"
  by (simp add: unsortable_i64_def sortable_i64_def)

lemma sortable_unsortable: "length bs = 8 \<Longrightarrow> sortable_i64 (unsortable_i64 bs) = bs"
  by (simp add: unsortable_i64_def sortable_i64_def)

lemma length_sortable_i64 [simp, len_simps]: "length (sortable_i64 v) = 8"
  by (simp add: sortable_i64_def)

lemma decode_snapshot_timestamp_key_key:
  "decode_snapshot_timestamp_key c (snapshot_timestamp_key c t ord) = Inr (t, uuid_v7 (order_arr ord))"
  by (simp add: decode_snapshot_timestamp_key_def snapshot_timestamp_key_def
      snapshot_timestamp_prefix_def byte_at_def nth_append slice_def slice_from_def be_u128_def
      order_as_bytes_def)

lemma decode_order_delete_file_change_table_id_key [simp]:
  "decode_order_delete_file_change_table_id (order_delete_file_change_prefix c)
     (order_delete_file_change_key c ord tid x) = Inr tid"
  by (simp add: decode_order_delete_file_change_table_id_def order_delete_file_change_key_def
      nth_append slice_def be_u64_def)

section \<open>Sortable timestamps\<close>

lemma xor_sign_bit_eq_add: "(v :: i64) XOR 0x8000000000000000 = v + 0x8000000000000000"
proof -
  have p: "(0x8000000000000000 :: i64) = push_bit 63 1" by simp
  have "v XOR push_bit 63 1 = flip_bit 63 v"
    by (simp add: flip_bit_eq_xor)
  also have "\<dots> = v + push_bit 63 1"
    by (simp add: flip_bit_eq_if set_bit_eq unset_bit_eq)
  finally show ?thesis by (simp only: p)
qed

lemma sint_i64: "sint (v :: i64) = (if uint v < 2 ^ 63 then uint v else uint v - 2 ^ 64)"
proof -
  have lt: "uint v < 2 ^ 64" using uint_bound [of v] by simp
  have "bit (uint v) 63 \<longleftrightarrow> \<not> uint v < 2 ^ 63"
  proof (cases "uint v < 2 ^ 63")
    case False
    with lt have "uint v div 2 ^ 63 = 1" by (simp add: int_div_pos_eq [of _ _ 1 "uint v - 2 ^ 63"])
    with False show ?thesis by (simp add: bit_iff_odd)
  qed (simp add: bit_iff_odd)
  moreover have "take_bit 64 (uint v) = uint v"
    using lt by (simp add: take_bit_int_eq_self)
  ultimately show ?thesis
    by (simp add: sint_uint signed_take_bit_eq_take_bit_minus)
qed

text \<open>Signed timestamps become byte strings that sort the way the timestamps do.\<close>

lemma sortable_i64_less_iff: "sortable_i64 a < sortable_i64 b \<longleftrightarrow> sint a < sint b"
proof -
  have *: "uint (v + 0x8000000000000000) =
      (if uint v < 2 ^ 63 then uint v + 2 ^ 63 else uint v - 2 ^ 63)" for v :: i64
  proof (cases "uint v < 2 ^ 63")
    case True
    then show ?thesis by (simp add: uint_word_ariths mod_pos_pos_trivial)
  next
    case False
    have "(uint v + 2 ^ 63) mod 2 ^ 64 = (uint v - 2 ^ 63 + 2 ^ 64) mod 2 ^ 64"
      by (simp add: add.commute)
    also have "\<dots> = uint v - 2 ^ 63"
      unfolding mod_add_self2
      using False uint_bound [of v] by (intro mod_pos_pos_trivial) auto
    finally show ?thesis using False by (simp add: uint_word_ariths)
  qed
  have "sortable_i64 a < sortable_i64 b \<longleftrightarrow> uint (a + 0x8000000000000000) < uint (b + 0x8000000000000000)"
    by (simp add: sortable_i64_def xor_sign_bit_eq_add word_less_def)
  also have "\<dots> \<longleftrightarrow> sint a < sint b"
    using uint_bound [of a] uint_bound [of b] unsigned_greater_eq [of a] unsigned_greater_eq [of b]
    by (simp only: * sint_i64) (simp; arith)
  finally show ?thesis .
qed

section \<open>Properties\<close>

text \<open>Keys of the timestamp index compare, as byte strings, first by the signed creation time and then
  by the snapshot order, so a forward scan of the index is chronological even for times before the epoch.\<close>
theorem snapshot_timestamp_key_order:
  "snapshot_timestamp_key c t a < snapshot_timestamp_key c u b \<longleftrightarrow> sint t < sint u \<or> t = u \<and> a < b"
proof -
  have inj: "sortable_i64 t = sortable_i64 u \<longleftrightarrow> t = u" by (metis unsortable_sortable)
  show ?thesis
    by (simp add: snapshot_timestamp_key_def less_append_eq_length inj sortable_i64_less_iff
        order_less_bytes)
qed


end
