(* ===== verification/Cat_Kv.thy ===== *)
theory Cat_Kv
  imports Cat_Keys
begin

text \<open>
  The ordered key-value layer (\<open>kv.rs\<close>): batches, the read operations every backend offers, the
  paged range visitor, and \<open>FakeOrderedCatalogKv\<close>, the in-memory backend. The locales state what the
  traits promise: \<open>paged_kv\<close> a backend that may return short pages, \<open>ordered_kv\<close> one that answers a
  scan completely, \<open>mutable_kv\<close> one whose commit applies a batch. The in-memory backend interprets
  them all. A \<open>BTreeMap\<close> is a strictly sorted association list; a scan limit of \<open>usize::MAX\<close> is
  \<open>None\<close>, since no collection holds more entries than that. \<open>BTreeMap::range\<close> aborts when the start
  lies above the end, which the model returns as \<open>Panic\<close>.
\<close>

section \<open>Data\<close>

datatype range_direction = Forward | Reverse

record range_item =
  ri_key :: bytes
  ri_value :: bytes

record kv_batch =
  checks :: "(bytes \<times> bytes option) list"
  writes :: "(bytes \<times> bytes) list"
  deletes :: "bytes list"
  fence_writes :: "bytes list"

definition usize_max :: nat where
  "usize_max = 2 ^ 64 - 1"

definition usize_saturating_add :: "nat \<Rightarrow> nat \<Rightarrow> nat" where
  "usize_saturating_add a b = min (a + b) usize_max"

section \<open>Batches\<close>

definition batch_new :: kv_batch where
  "batch_new = \<lparr>checks = [], writes = [], deletes = [], fence_writes = []\<rparr>"

definition batch_check_value :: "kv_batch \<Rightarrow> bytes \<Rightarrow> bytes option \<Rightarrow> kv_batch" where
  "batch_check_value b key expected = b\<lparr>checks := checks b @ [(key, expected)]\<rparr>"

definition batch_put :: "kv_batch \<Rightarrow> bytes \<Rightarrow> bytes \<Rightarrow> kv_batch" where
  "batch_put b key val = b\<lparr>writes := writes b @ [(key, val)]\<rparr>"

text \<open>\<open>put_max_u64\<close> raises the first staged write of the key in place, or appends a write.\<close>

fun raise_staged_u64 :: "(bytes \<times> bytes) list \<Rightarrow> bytes \<Rightarrow> u64 \<Rightarrow> ((bytes \<times> bytes) list option) catalog_result" where
  "raise_staged_u64 [] key v = Inr None"
| "raise_staged_u64 (w # ws) key v =
     (if fst w \<noteq> key
      then rbind (raise_staged_u64 ws key v) (\<lambda>r. Inr (map_option (\<lambda>ws'. w # ws') r))
      else rbind (be_u64 (InvalidKey ''staged max-u64 value is not 8 bytes'') (snd w)) (\<lambda>old.
             Inr (Some ((key, u64_to_be_bytes (max old v)) # ws))))"

definition batch_put_max_u64 :: "kv_batch \<Rightarrow> bytes \<Rightarrow> u64 \<Rightarrow> kv_batch catalog_result" where
  "batch_put_max_u64 b key v =
     rbind (raise_staged_u64 (writes b) key v) (\<lambda>r.
       case r of
         Some ws \<Rightarrow> Inr (b\<lparr>writes := ws\<rparr>)
       | None \<Rightarrow> Inr (batch_put b key (u64_to_be_bytes v)))"

definition batch_delete :: "kv_batch \<Rightarrow> bytes \<Rightarrow> kv_batch" where
  "batch_delete b key = b\<lparr>deletes := deletes b @ [key]\<rparr>"

definition batch_write_conflict_fence :: "kv_batch \<Rightarrow> bytes \<Rightarrow> kv_batch" where
  "batch_write_conflict_fence b key = b\<lparr>fence_writes := fence_writes b @ [key]\<rparr>"

definition estimated_mutation_bytes :: "kv_batch \<Rightarrow> nat" where
  "estimated_mutation_bytes b =
     (let write_bytes = sum_list (map (\<lambda>(k, v). usize_saturating_add (length k) (length v)) (writes b));
          delete_bytes = sum_list (map length (deletes b));
          check_bytes = sum_list (map (\<lambda>(k, v).
            usize_saturating_add (length k) (case v of None \<Rightarrow> 0 | Some x \<Rightarrow> length x)) (checks b));
          fence_bytes = sum_list (map length (fence_writes b))
      in usize_saturating_add (usize_saturating_add (usize_saturating_add write_bytes delete_bytes)
           check_bytes) fence_bytes)"

lemma batch_new_simps [simp]:
  "writes batch_new = []" "deletes batch_new = []" "checks batch_new = []" "fence_writes batch_new = []"
  by (simp_all add: batch_new_def)

lemma batch_put_simps [simp]:
  "writes (batch_put b k v) = writes b @ [(k, v)]" "deletes (batch_put b k v) = deletes b"
  "checks (batch_put b k v) = checks b" "fence_writes (batch_put b k v) = fence_writes b"
  by (simp_all add: batch_put_def)

lemma batch_delete_simps [simp]:
  "writes (batch_delete b k) = writes b" "deletes (batch_delete b k) = deletes b @ [k]"
  "checks (batch_delete b k) = checks b" "fence_writes (batch_delete b k) = fence_writes b"
  by (simp_all add: batch_delete_def)

text \<open>What a batch does to the map of stored items: deletes first, then the writes in order.\<close>

definition apply_batch :: "kv_batch \<Rightarrow> (bytes \<rightharpoonup> bytes) \<Rightarrow> (bytes \<rightharpoonup> bytes)" where
  "apply_batch b m = (m |` (- set (deletes b))) ++ map_of (rev (writes b))"

lemma apply_batch_apply:
  "apply_batch b m k =
     (case map_of (rev (writes b)) k of
        Some v \<Rightarrow> Some v
      | None \<Rightarrow> if k \<in> set (deletes b) then None else m k)"
  by (simp add: apply_batch_def map_add_def restrict_map_def split: option.splits)

lemma apply_batch_new [simp]: "apply_batch batch_new m = m"
  by (simp add: apply_batch_apply fun_eq_iff)

lemma apply_batch_put [simp]: "apply_batch (batch_put b k v) m = (apply_batch b m)(k \<mapsto> v)"
  by (auto simp: apply_batch_apply fun_eq_iff)

lemma apply_batch_untouched:
  "k \<notin> fst ` set (writes b) \<Longrightarrow> k \<notin> set (deletes b) \<Longrightarrow> apply_batch b m k = m k"
  by (auto simp: apply_batch_apply map_of_eq_None_iff [THEN iffD2] rev_map)

section \<open>Reads every backend offers\<close>

record catalog_read_range =
  rr_start :: bytes
  rr_end :: bytes
  rr_direction :: range_direction
  rr_limit :: "nat option"

record catalog_index_join =
  index_prefix :: bytes
  primary_prefix :: bytes

definition index_join_primary_key :: "catalog_index_join \<Rightarrow> bytes \<Rightarrow> bytes catalog_result" where
  "index_join_primary_key join index_key =
     (case strip_prefix (index_prefix join) index_key of
        Some suf \<Rightarrow>
          if length suf = 8 then Inr (primary_prefix join @ suf)
          else Inl (InvalidKey ''index row has an invalid primary identifier'')
      | None \<Rightarrow> Inl (InvalidKey ''index row has an invalid primary identifier''))"

type_synonym kv_get = "bytes \<Rightarrow> bytes option catalog_result"
type_synonym kv_scan_range =
  "bytes \<Rightarrow> bytes \<Rightarrow> range_direction \<Rightarrow> nat option \<Rightarrow> range_item list catalog_result"
type_synonym kv_scan_prefix = "bytes \<Rightarrow> range_direction \<Rightarrow> nat option \<Rightarrow> range_item list catalog_result"

text \<open>The trait's default methods, over the backend's \<open>get\<close> and scans.\<close>

definition kv_batch_get :: "kv_get \<Rightarrow> bytes list \<Rightarrow> bytes option list catalog_result" where
  "kv_batch_get read keys = rmap read keys"

definition kv_scan_prefixes ::
    "kv_scan_prefix \<Rightarrow> bytes list \<Rightarrow> range_direction \<Rightarrow> nat option \<Rightarrow> range_item list list catalog_result" where
  "kv_scan_prefixes scan_prefix ps direction limit =
     rmap (\<lambda>p. scan_prefix p direction limit) ps"

definition kv_read_set ::
    "kv_get \<Rightarrow> kv_scan_range \<Rightarrow> bytes list \<Rightarrow> catalog_read_range list \<Rightarrow>
     (bytes option list \<times> range_item list list) catalog_result" where
  "kv_read_set read scan_range keys ranges =
     rbind (kv_batch_get read keys) (\<lambda>vals.
     rbind (rmap (\<lambda>r. scan_range (rr_start r) (rr_end r) (rr_direction r) (rr_limit r)) ranges) (\<lambda>rs.
       Inr (vals, rs)))"

definition kv_scan_index_rows ::
    "kv_get \<Rightarrow> kv_scan_prefix \<Rightarrow> catalog_index_join \<Rightarrow>
     (range_item \<times> range_item option) list catalog_result" where
  "kv_scan_index_rows read scan_prefix join =
     rbind (scan_prefix (index_prefix join) Forward None) (\<lambda>indices.
     rbind (rmap (\<lambda>i. index_join_primary_key join (ri_key i)) indices) (\<lambda>keys.
     rbind (kv_batch_get read keys) (\<lambda>vals.
       if length vals \<noteq> length keys
       then Inl (Backend ''index join returned wrong primary row count'')
       else Inr (map (\<lambda>(index, key, val).
                  (index, map_option (\<lambda>v. \<lparr>ri_key = key, ri_value = v\<rparr>) val))
                (zip indices (zip keys vals))))))"

section \<open>Paged range visits\<close>

definition key_after_scan_item :: "bytes \<Rightarrow> bytes" where
  "key_after_scan_item key = key @ [0]"

definition page_size :: nat where
  "page_size = 256"

partial_function (option) scan_pages_loop ::
    "kv_scan_range \<Rightarrow> range_direction \<Rightarrow> (range_item \<Rightarrow> 's \<Rightarrow> 's catalog_result) \<Rightarrow>
     bytes \<Rightarrow> bytes \<Rightarrow> nat option \<Rightarrow> nat \<Rightarrow> 's \<Rightarrow> (nat \<times> 's) catalog_result option" where
  "scan_pages_loop scan_range direction visit page_start page_end remaining visited s =
     (let page_limit = (case remaining of None \<Rightarrow> page_size | Some r \<Rightarrow> min r page_size) in
      if page_limit = 0 then Some (Inr (visited, s))
      else case scan_range page_start page_end direction (Some page_limit) of
        Inl e \<Rightarrow> Some (Inl e)
      | Inr page \<Rightarrow>
          if page = [] then Some (Inr (visited, s))
          else if length page > page_limit
          then Some (Inl (InvalidMutation ''paged catalog scan returned more items than requested''))
          else case rfold visit page s of
            Inl e \<Rightarrow> Some (Inl e)
          | Inr s' \<Rightarrow>
              let visited' = visited + length page;
                  last_key = ri_key (last page);
                  remaining' = map_option (\<lambda>r. r - length page) remaining in
              if remaining' = Some 0 then Some (Inr (visited', s'))
              else case direction of
                Forward \<Rightarrow> scan_pages_loop scan_range direction visit
                  (key_after_scan_item last_key) page_end remaining' visited' s'
              | Reverse \<Rightarrow> scan_pages_loop scan_range direction visit
                  page_start last_key remaining' visited' s')"

definition scan_range_pages ::
    "kv_scan_range \<Rightarrow> bytes \<Rightarrow> bytes \<Rightarrow> range_direction \<Rightarrow> nat option \<Rightarrow>
     (range_item \<Rightarrow> 's \<Rightarrow> 's catalog_result) \<Rightarrow> 's \<Rightarrow> (nat \<times> 's) catalog_result option" where
  "scan_range_pages scan_range start stop direction max_items visit s =
     (if start \<ge> stop then Some (Inr (0, s))
      else scan_pages_loop scan_range direction visit start stop
             (map_option (\<lambda>limit. usize_saturating_add limit 1) max_items) 0 s)"

section \<open>The in-memory backend\<close>

record fake_kv =
  items :: "(bytes \<times> bytes) list"
  fence_versions :: "bytes \<rightharpoonup> u64"
  next_order :: u128

definition fake_new :: fake_kv where
  "fake_new = \<lparr>items = [], fence_versions = Map.empty, next_order = 0\<rparr>"

definition fake_get :: "fake_kv \<Rightarrow> bytes \<Rightarrow> bytes option" where
  "fake_get kv key = map_of (items kv) key"

definition limit_take :: "nat option \<Rightarrow> 'a list \<Rightarrow> 'a list" where
  "limit_take limit xs = (case limit of None \<Rightarrow> xs | Some n \<Rightarrow> take n xs)"

definition directed :: "range_direction \<Rightarrow> 'a list \<Rightarrow> 'a list" where
  "directed d xs = (case d of Forward \<Rightarrow> xs | Reverse \<Rightarrow> rev xs)"

definition to_item :: "bytes \<times> bytes \<Rightarrow> range_item" where
  "to_item e = \<lparr>ri_key = fst e, ri_value = snd e\<rparr>"

definition fake_scan_range ::
    "fake_kv \<Rightarrow> bytes \<Rightarrow> bytes \<Rightarrow> range_direction \<Rightarrow> nat option \<Rightarrow> range_item list catalog_result" where
  "fake_scan_range kv start stop direction limit =
     (if start > stop then Inl (Panic ''range start is greater than range end in BTreeMap'')
      else let range = map to_item (btree_range start stop (items kv))
           in Inr (limit_take limit (directed direction range)))"

definition fake_scan_prefix ::
    "fake_kv \<Rightarrow> bytes \<Rightarrow> range_direction \<Rightarrow> nat option \<Rightarrow> range_item list catalog_result" where
  "fake_scan_prefix kv p direction limit = fake_scan_range kv p (prefix_end p) direction limit"

definition fake_read_conflict_fence :: "fake_kv \<Rightarrow> bytes \<Rightarrow> bytes option" where
  "fake_read_conflict_fence kv key = map_option u64_to_be_bytes (fence_versions kv key)"

definition fake_write_conflict_fence :: "fake_kv \<Rightarrow> bytes \<Rightarrow> fake_kv" where
  "fake_write_conflict_fence kv key =
     kv\<lparr>fence_versions := (fence_versions kv)(key \<mapsto>
        saturating_add (case fence_versions kv key of None \<Rightarrow> 0 | Some v \<Rightarrow> v) 1)\<rparr>"

definition fake_generated_order_id :: "fake_kv \<Rightarrow> catalog_order_id \<times> fake_kv" where
  "fake_generated_order_id kv =
     (let n = saturating_add (next_order kv) 1
      in (order_from_u128 n, kv\<lparr>next_order := n\<rparr>))"

fun fake_run_checks :: "fake_kv \<Rightarrow> (bytes \<times> bytes option) list \<Rightarrow> unit catalog_result" where
  "fake_run_checks kv [] = Inr ()"
| "fake_run_checks kv ((key, expected) # cs) =
     (if fake_read_conflict_fence kv key \<noteq> expected then Inl (ConflictFenceChanged key)
      else fake_run_checks kv cs)"

definition fake_commit :: "fake_kv \<Rightarrow> kv_batch \<Rightarrow> fake_kv catalog_result" where
  "fake_commit kv b =
     rbind (fake_run_checks kv (checks b)) (\<lambda>_.
       let kv1 = kv\<lparr>items := fold btree_remove (deletes b) (items kv)\<rparr>;
           kv2 = kv1\<lparr>items := fold (\<lambda>(k, v). btree_insert k v) (writes b) (items kv1)\<rparr>
       in Inr (fold (\<lambda>k s. fake_write_conflict_fence s k) (fence_writes b) kv2))"

definition fake_wf :: "fake_kv \<Rightarrow> bool" where
  "fake_wf kv = btree_wf (items kv)"

section \<open>What a backend promises\<close>

lemma last_take_nth: "0 < q \<Longrightarrow> q \<le> length xs \<Longrightarrow> last (take q xs) = xs ! (q - 1)"
  by (subst last_conv_nth) auto

text \<open>A backend whose range reads may stop early: a read returns some first part of the range, never
  more than asked for, and at least one item when there is one.\<close>

locale paged_kv =
  fixes invar :: "'s \<Rightarrow> bool"
    and contents :: "'s \<Rightarrow> (bytes \<times> bytes) list"
    and scan :: "'s \<Rightarrow> kv_scan_range"
  assumes contents_wf: "invar st \<Longrightarrow> btree_wf (contents st)"
    and page_law: "invar st \<Longrightarrow> lo \<le> hi \<Longrightarrow> 0 < n \<Longrightarrow>
      \<exists>m. m \<le> n \<and> (btree_range lo hi (contents st) \<noteq> [] \<longrightarrow> 0 < m) \<and>
        scan st lo hi d (Some n) =
          Inr (take m (directed d (map to_item (btree_range lo hi (contents st)))))"
begin

lemma page_rest_Forward:
  assumes inv: "invar st" and r: "btree_range lo hi (contents st) = xs @ [e] @ ys"
  shows "btree_range (key_after_scan_item (fst e)) hi (contents st) = ys"
    and "key_after_scan_item (fst e) \<le> hi"
proof -
  let ?r = "btree_range lo hi (contents st)"
  have wf: "btree_wf ?r" using contents_wf [OF inv] by (rule btree_wf_range)
  have e: "e \<in> set ?r" by (simp add: r)
  then have lo: "lo \<le> fst e" and hi: "fst e < hi" by (auto simp: btree_range_def)
  have split: "\<forall>x \<in> set xs. fst x < fst e" "\<forall>y \<in> set ys. fst e < fst y"
    using wf by (auto simp: r btree_wf_def sorted_wrt_append)
  have after: "key_after_scan_item (fst e) \<le> k \<longleftrightarrow> fst e < k" for k
  proof -
    have "fst e < fst e @ [0]" using append_less_append [of "fst e" "[]" "[0]"] by simp
    moreover have "fst e @ [0] \<le> k" if "fst e < k"
    proof (cases "prefix (fst e) k")
      case True
      with that obtain b zs where "k = fst e @ b # zs" by (metis append.right_neutral less_irrefl neq_Nil_conv prefixE)
      then show ?thesis by (cases "b = 0") (simp_all add: word_neq_0_conv)
    next
      case False
      with that show ?thesis by (simp add: less_imp_le less_not_prefix_append)
    qed
    ultimately show ?thesis by (auto simp: key_after_scan_item_def)
  qed
  with hi show "key_after_scan_item (fst e) \<le> hi" by simp
  have "btree_range (key_after_scan_item (fst e)) hi (contents st) = filter (\<lambda>x. fst e < fst x) ?r"
    using lo by (auto simp: btree_range_def after intro!: filter_cong)
  also have "\<dots> = ys"
    using split by (auto simp: r filter_empty_conv filter_id_conv dest: less_asym)
  finally show "btree_range (key_after_scan_item (fst e)) hi (contents st) = ys" .
qed

lemma page_rest_Reverse:
  assumes inv: "invar st" and r: "btree_range lo hi (contents st) = xs @ [e] @ ys"
  shows "btree_range lo (fst e) (contents st) = xs" and "lo \<le> fst e"
proof -
  let ?r = "btree_range lo hi (contents st)"
  have wf: "btree_wf ?r" using contents_wf [OF inv] by (rule btree_wf_range)
  have "e \<in> set ?r" by (simp add: r)
  then show "lo \<le> fst e" by (simp add: btree_range_def)
  from \<open>e \<in> set ?r\<close> have hi: "fst e < hi" by (simp add: btree_range_def)
  have split: "\<forall>x \<in> set xs. fst x < fst e" "\<forall>y \<in> set ys. fst e < fst y"
    using wf by (auto simp: r btree_wf_def sorted_wrt_append)
  have "btree_range lo (fst e) (contents st) = filter (\<lambda>x. fst x < fst e) ?r"
    using hi by (auto simp: btree_range_def intro!: filter_cong)
  also have "\<dots> = xs"
    using split by (auto simp: r filter_empty_conv filter_id_conv dest: less_asym)
  finally show "btree_range lo (fst e) (contents st) = xs" .
qed

lemma page_step_Forward:
  fixes st lo hi q
  defines "R \<equiv> directed Forward (map to_item (btree_range lo hi (contents st)))"
  assumes inv: "invar st" and "0 < q" "q \<le> length R"
  defines "k \<equiv> key_after_scan_item (ri_key (last (take q R)))"
  shows "directed Forward (map to_item (btree_range k hi (contents st))) = drop q R" and "k \<le> hi"
proof -
  let ?r = "btree_range lo hi (contents st)"
  have R: "R = map to_item ?r" by (simp add: R_def directed_def)
  with assms(3,4) have q: "q - 1 < length ?r" by simp
  have r: "?r = take (q - 1) ?r @ [?r ! (q - 1)] @ drop q ?r"
    using id_take_nth_drop [OF q] assms(3) by simp
  have "last (take q R) = to_item (?r ! (q - 1))"
    using assms(3,4) q by (simp add: R last_take_nth)
  then have k: "k = key_after_scan_item (fst (?r ! (q - 1)))" by (simp add: k_def to_item_def)
  show "directed Forward (map to_item (btree_range k hi (contents st))) = drop q R"
    using page_rest_Forward(1) [OF inv r] by (simp add: k R directed_def drop_map)
  show "k \<le> hi" unfolding k by (rule page_rest_Forward(2) [OF inv r])
qed

lemma page_step_Reverse:
  fixes st lo hi q
  defines "R \<equiv> directed Reverse (map to_item (btree_range lo hi (contents st)))"
  assumes inv: "invar st" and "0 < q" "q \<le> length R"
  defines "k \<equiv> ri_key (last (take q R))"
  shows "directed Reverse (map to_item (btree_range lo k (contents st))) = drop q R" and "lo \<le> k"
proof -
  let ?r = "btree_range lo hi (contents st)"
  let ?i = "length ?r - q"
  have R: "R = rev (map to_item ?r)" by (simp add: R_def directed_def)
  with assms(3,4) have q: "?i < length ?r" "q \<le> length ?r" by simp_all
  have r: "?r = take ?i ?r @ [?r ! ?i] @ drop (Suc ?i) ?r"
    using id_take_nth_drop [OF q(1)] by simp
  have "last (take q R) = to_item (?r ! ?i)"
    using assms(3) q by (simp add: R last_take_nth rev_nth)
  then have k: "k = fst (?r ! ?i)" by (simp add: k_def to_item_def)
  show "directed Reverse (map to_item (btree_range lo k (contents st))) = drop q R"
    using q(2) by (simp add: k page_rest_Reverse(1) [OF inv r] R directed_def take_map drop_rev)
  show "lo \<le> k" unfolding k by (rule page_rest_Reverse(2) [OF inv r])
qed

text \<open>However short the pages are, the loop visits the range completely and in order, up to the
  remaining budget, and returns.\<close>

lemma scan_pages_loop_complete:
  assumes inv: "invar st" and "lo \<le> hi"
  shows "scan_pages_loop (scan st) d visit lo hi remaining visited s =
    (let R = limit_take remaining (directed d (map to_item (btree_range lo hi (contents st))))
     in Some (rbind (rfold visit R s) (\<lambda>s'. Inr (visited + length R, s'))))"
  using assms(2)
proof (induction "length (btree_range lo hi (contents st))" arbitrary: lo hi remaining visited s rule: less_induct)
  case less
  define R where "R = directed d (map to_item (btree_range lo hi (contents st)))"
  define p where "p = (case remaining of None \<Rightarrow> page_size | Some r \<Rightarrow> min r page_size)"
  have len: "length R = length (btree_range lo hi (contents st))"
    by (simp add: R_def directed_def split: range_direction.split)
  show ?case
  proof (cases "p = 0")
    case True
    then have "remaining = Some 0" by (auto simp: p_def page_size_def split: option.splits)
    then show ?thesis by (simp add: scan_pages_loop.simps limit_take_def)
  next
    case False
    then have "0 < p" by simp
    from page_law [OF inv less.prems this, of d] obtain m
      where m: "m \<le> p" "btree_range lo hi (contents st) \<noteq> [] \<longrightarrow> 0 < m"
        and scan: "scan st lo hi d (Some p) = Inr (take m R)"
      unfolding R_def by blast
    from m len have go: "0 < p" "m \<le> p" "R \<noteq> [] \<longrightarrow> 0 < m" using \<open>0 < p\<close> by auto
    define q where "q = min m (length R)"
    have page: "scan st lo hi d (Some p) = Inr (take q R)" "q \<le> p" "q \<le> length R" "length (take q R) = q"
      using go scan by (auto simp: q_def min_def)
    define rem where "rem = map_option (\<lambda>r. r - q) remaining"
    have "q \<le> r" if "remaining = Some r" for r
      using that page(2) by (simp add: p_def)
    then have lim: "limit_take remaining R = take q R @ limit_take rem (drop q R)"
      by (cases remaining) (auto simp: limit_take_def rem_def take_add [symmetric])
    have unfold: "scan_pages_loop (scan st) d visit lo hi remaining visited s =
      (if take q R = [] then Some (Inr (visited, s))
       else case rfold visit (take q R) s of
         Inl e \<Rightarrow> Some (Inl e)
       | Inr s' \<Rightarrow> if rem = Some 0 then Some (Inr (visited + q, s'))
           else case d of
             Forward \<Rightarrow> scan_pages_loop (scan st) d visit (key_after_scan_item (ri_key (last (take q R)))) hi
               rem (visited + q) s'
           | Reverse \<Rightarrow> scan_pages_loop (scan st) d visit lo (ri_key (last (take q R))) rem (visited + q) s')"
      by (subst scan_pages_loop.simps)
         (use go(1) page in \<open>simp add: p_def [symmetric] rem_def [symmetric] Let_def not_less split: sum.split\<close>)
    show ?thesis
    proof (cases "take q R = []")
      case True
      with go(3) have "R = []" by (auto simp: q_def min_def split: if_splits)
      with True show ?thesis unfolding unfold R_def [symmetric]
        by (simp add: limit_take_def split: option.split)
    next
      case False
      then have q: "0 < q" "q \<le> length R" using page(3) by auto
      show ?thesis
      proof (cases "rfold visit (take q R) s")
        case (Inl e)
        with False lim show ?thesis unfolding unfold R_def [symmetric]
          by (simp add: rfold_append)
      next
        case (Inr s')
        show ?thesis
        proof (cases "rem = Some 0")
          case True
          with False Inr lim page(4) show ?thesis unfolding unfold R_def [symmetric]
            by (simp add: rfold_append limit_take_def)
        next
          case more: False
          define lo' hi' where "lo' = (case d of Forward \<Rightarrow> key_after_scan_item (ri_key (last (take q R))) | Reverse \<Rightarrow> lo)"
            and "hi' = (case d of Forward \<Rightarrow> hi | Reverse \<Rightarrow> ri_key (last (take q R)))"
          have rest: "directed d (map to_item (btree_range lo' hi' (contents st))) = drop q R" "lo' \<le> hi'"
            using q page_step_Forward [OF inv, of q lo hi] page_step_Reverse [OF inv, of q lo hi]
            by (cases d; simp add: lo'_def hi'_def R_def)+
          have "length (btree_range lo' hi' (contents st)) = length (drop q R)"
            unfolding rest(1) [symmetric] by (simp add: directed_def split: range_direction.split)
          then have "length (btree_range lo' hi' (contents st)) < length (btree_range lo hi (contents st))"
            using q len by simp
          from less.hyps [OF this rest(2), of rem "visited + q" s']
          have IH: "scan_pages_loop (scan st) d visit lo' hi' rem (visited + q) s' =
            Some (rbind (rfold visit (limit_take rem (drop q R)) s')
              (\<lambda>s''. Inr (visited + q + length (limit_take rem (drop q R)), s'')))"
            by (simp add: rest(1) Let_def)
          have "scan_pages_loop (scan st) d visit lo hi remaining visited s =
              scan_pages_loop (scan st) d visit lo' hi' rem (visited + q) s'"
            unfolding unfold using False Inr more by (cases d) (simp_all add: lo'_def hi'_def)
          with IH Inr lim page(4) show ?thesis unfolding R_def [symmetric]
            by (simp add: rfold_append add.assoc)
        qed
      qed
    qed
  qed
qed

end

text \<open>A backend that answers a range read completely: what the stores of the catalog rely on.\<close>

locale ordered_kv =
  fixes invar :: "'s \<Rightarrow> bool"
    and contents :: "'s \<Rightarrow> (bytes \<times> bytes) list"
    and read :: "'s \<Rightarrow> kv_get"
    and scan :: "'s \<Rightarrow> kv_scan_range"
  assumes ordered_wf: "invar st \<Longrightarrow> btree_wf (contents st)"
    and read_law: "invar st \<Longrightarrow> read st k = Inr (map_of (contents st) k)"
    and scan_law: "invar st \<Longrightarrow> lo \<le> hi \<Longrightarrow>
      scan st lo hi d lim =
        Inr (limit_take lim (directed d (map to_item (btree_range lo hi (contents st)))))"
begin

lemma prefix_scan:
  assumes "invar st" and "b < 0xff"
  shows "scan st (p @ [b]) (prefix_end (p @ [b])) d lim =
    Inr (limit_take lim (directed d (map to_item (filter (\<lambda>e. prefix (p @ [b]) (fst e)) (contents st)))))"
proof -
  have le: "p @ [b] \<le> prefix_end (p @ [b])"
    using prefix_range_iff [OF assms(2), of p "p @ [b]"] by simp
  have "btree_range (p @ [b]) (prefix_end (p @ [b])) (contents st) =
      filter (\<lambda>e. prefix (p @ [b]) (fst e)) (contents st)"
    by (simp add: btree_range_def prefix_range_iff assms(2))
  with scan_law [OF assms(1) le] show ?thesis by simp
qed

lemma batch_read: "invar st \<Longrightarrow> kv_batch_get (read st) keys = Inr (map (map_of (contents st)) keys)"
  by (auto simp: kv_batch_get_def read_law intro: rmap_Inr)

end

sublocale ordered_kv \<subseteq> paged_kv invar contents scan
proof
  fix st and lo hi :: bytes and n :: nat and d
  assume "invar st" "lo \<le> hi" "0 < n"
  then have "scan st lo hi d (Some n) = Inr (take n (directed d (map to_item (btree_range lo hi (contents st)))))"
    by (simp add: scan_law limit_take_def)
  with \<open>0 < n\<close> show "\<exists>m. m \<le> n \<and> (btree_range lo hi (contents st) \<noteq> [] \<longrightarrow> 0 < m) \<and>
      scan st lo hi d (Some n) = Inr (take m (directed d (map to_item (btree_range lo hi (contents st)))))"
    by blast
qed (rule ordered_wf)

text \<open>A backend whose commit applies the batch to the stored items, or fails and changes nothing.\<close>

locale mutable_kv = ordered_kv +
  fixes commit :: "'a \<Rightarrow> kv_batch \<Rightarrow> 'a catalog_result"
  assumes commit_invar: "invar st \<Longrightarrow> commit st b = Inr st' \<Longrightarrow> invar st'"
    and commit_law: "invar st \<Longrightarrow> commit st b = Inr st' \<Longrightarrow>
      map_of (contents st') = apply_batch b (map_of (contents st))"
    and commit_unchecked: "invar st \<Longrightarrow> checks b = [] \<Longrightarrow> \<exists>st'. commit st b = Inr st'"
begin

lemma read_after_commit:
  "invar st \<Longrightarrow> commit st b = Inr st' \<Longrightarrow> read st' k = Inr (apply_batch b (map_of (contents st)) k)"
  by (simp add: commit_invar read_law commit_law)

text \<open>The result of a commit is determined by what the batch does to the map, so two batches with
  the same effect leave the same items.\<close>

lemma commit_contents_unique:
  assumes "invar st" "commit st b = Inr st1" "invar st2"
    and "map_of (contents st2) = apply_batch b (map_of (contents st))"
  shows "contents st1 = contents st2"
  using assms by (intro btree_ext) (simp_all add: ordered_wf commit_invar commit_law)

end

section \<open>The in-memory backend keeps the promises\<close>

lemma map_of_fold_remove: "map_of (fold btree_remove ks m) = map_of m |` (- set ks)"
  by (induction ks arbitrary: m) (auto simp: restrict_map_def fun_eq_iff)

lemma map_of_fold_insert:
  "map_of (fold (\<lambda>(k, v). btree_insert k v) ws m) = map_of m ++ map_of (rev ws)"
  by (induction ws arbitrary: m) (auto simp: map_add_def fun_eq_iff split: option.splits)

lemma btree_wf_fold_remove: "btree_wf m \<Longrightarrow> btree_wf (fold btree_remove ks m)"
  by (induction ks arbitrary: m) auto

lemma btree_wf_fold_insert: "btree_wf m \<Longrightarrow> btree_wf (fold (\<lambda>(k, v). btree_insert k v) ws m)"
  by (induction ws arbitrary: m) auto

lemma fold_fence_items [simp]:
  "items (fold (\<lambda>k s. fake_write_conflict_fence s k) ks kv) = items kv"
  by (induction ks arbitrary: kv) (simp_all add: fake_write_conflict_fence_def)

lemma fold_fence_next_order [simp]:
  "next_order (fold (\<lambda>k s. fake_write_conflict_fence s k) ks kv) = next_order kv"
  by (induction ks arbitrary: kv) (simp_all add: fake_write_conflict_fence_def)

lemma fake_commit_items:
  "fake_commit kv b = Inr kv' \<Longrightarrow>
   items kv' = fold (\<lambda>(k, v). btree_insert k v) (writes b) (fold btree_remove (deletes b) (items kv))"
  by (auto simp: fake_commit_def rbind_Inr_iff Let_def)

lemma fake_commit_get:
  "fake_commit kv b = Inr kv' \<Longrightarrow> fake_get kv' = apply_batch b (fake_get kv)"
  by (simp add: fake_get_def [abs_def] fake_commit_items map_of_fold_insert map_of_fold_remove apply_batch_def)

interpretation fake: mutable_kv fake_wf items "\<lambda>kv k. Inr (fake_get kv k)" fake_scan_range fake_commit
proof
  fix kv kv' b
  assume "fake_wf kv" "fake_commit kv b = Inr kv'"
  then show "fake_wf kv'"
    by (simp add: fake_wf_def fake_commit_items btree_wf_fold_insert btree_wf_fold_remove)
next
  fix kv kv' b
  assume "fake_commit kv b = Inr kv'"
  from fake_commit_get [OF this] show "map_of (items kv') = apply_batch b (map_of (items kv))"
    by (simp add: fake_get_def [abs_def])
qed (auto simp: fake_wf_def fake_get_def fake_scan_range_def fake_commit_def linorder_not_less Let_def)


section \<open>Reading a described part of the store\<close>

text \<open>When a sorted list describes the stored entries under a prefix, a prefix scan returns it.\<close>

lemma fake_scan_prefix_described:
  assumes "fake_wf kv" "p = q @ [b]" "b < 0xff" "btree_wf es"
    and keys: "\<forall>e \<in> set es. prefix p (fst e)"
    and entries: "\<And>k v. prefix p k \<Longrightarrow> fake_get kv k = Some v \<longleftrightarrow> (k, v) \<in> set es"
  shows "fake_scan_prefix kv p d lim = Inr (limit_take lim (directed d (map to_item es)))"
proof -
  have wf: "btree_wf (items kv)" using assms(1) by (simp add: fake_wf_def)
  have "filter (\<lambda>e. prefix p (fst e)) (items kv) = es"
  proof (rule btree_ext)
    show "map_of (filter (\<lambda>e. prefix p (fst e)) (items kv)) = map_of es"
    proof
      fix k
      show "map_of (filter (\<lambda>e. prefix p (fst e)) (items kv)) k = map_of es k"
      proof (cases "prefix p k")
        case True
        then have "map_of (items kv) k = Some v \<longleftrightarrow> map_of es k = Some v" for v
          using entries [of k v] by (simp add: fake_get_def btree_mem_iff [OF assms(4), symmetric])
        then have "map_of (items kv) k = map_of es k" by (metis option.exhaust)
        with True show ?thesis by (simp add: map_of_filter_fst [of "prefix p"])
      next
        case False
        with keys have "map_of es k = None" by (auto simp: map_of_eq_None_iff)
        with False show ?thesis by (simp add: map_of_filter_fst [of "prefix p"])
      qed
    qed
  qed (use wf assms(4) in auto)
  with fake.prefix_scan [OF assms(1,3), of q d lim] show ?thesis
    by (simp add: fake_scan_prefix_def assms(2))
qed

lemma btree_wf_sorted_map:
  fixes k :: "'a \<Rightarrow> 'k::linorder"
  assumes "inj_on k (set xs)" "distinct xs"
  shows "btree_wf (map (\<lambda>x. (k x, v x)) (sort_key k xs))"
proof -
  have "distinct (map k (sort_key k xs))"
    using assms by (simp add: distinct_map)
  then show ?thesis
    by (simp add: btree_wf_def strict_sorted_iff comp_def)
qed

section \<open>Operations on a mutable store\<close>

text \<open>A mutating operation takes the store and returns its result with the store it leaves.
  \<open>attempt\<close> is \<open>?\<close> in such an operation; \<open>commit_then\<close> commits a batch and returns a value.\<close>

type_synonym 'a kv_op = "'a catalog_result \<times> fake_kv"

definition attempt :: "fake_kv \<Rightarrow> 'a catalog_result \<Rightarrow> ('a \<Rightarrow> 'b kv_op) \<Rightarrow> 'b kv_op" where
  "attempt kv r f = (case r of Inl e \<Rightarrow> (Inl e, kv) | Inr x \<Rightarrow> f x)"

definition commit_then :: "fake_kv \<Rightarrow> kv_batch \<Rightarrow> 'a \<Rightarrow> 'a kv_op" where
  "commit_then kv b x = (case fake_commit kv b of Inl e \<Rightarrow> (Inl e, kv) | Inr kv' \<Rightarrow> (Inr x, kv'))"

lemma attempt_simps [simp]: "attempt kv (Inl e) f = (Inl e, kv)" "attempt kv (Inr x) f = f x"
  by (simp_all add: attempt_def)

lemma attempt_cong [fundef_cong]:
  "kv = kv' \<Longrightarrow> r = r' \<Longrightarrow> (\<And>x. r' = Inr x \<Longrightarrow> f x = g x) \<Longrightarrow> attempt kv r f = attempt kv' r' g"
  by (cases r') auto

lemma attempt_Inr_iff:
  "attempt kv r f = (Inr y, kv') \<longleftrightarrow> (\<exists>x. r = Inr x \<and> f x = (Inr y, kv'))"
  by (cases r) auto

lemma commit_then_Inr_iff:
  "commit_then kv b x = (Inr y, kv') \<longleftrightarrow> y = x \<and> fake_commit kv b = Inr kv'"
  by (auto simp: commit_then_def split: sum.splits)

text \<open>Without checks a commit always succeeds, and its effect is that of the batch.\<close>

lemma fake_commit_unchecked:
  assumes "checks b = []"
  obtains kv' where "fake_commit kv b = Inr kv'" "fake_get kv' = apply_batch b (fake_get kv)"
    "fake_wf kv \<Longrightarrow> fake_wf kv'" "next_order kv' = next_order kv"
proof -
  let ?kv = "fold (\<lambda>k s. fake_write_conflict_fence s k) (fence_writes b)
    (kv\<lparr>items := fold (\<lambda>(k, v). btree_insert k v) (writes b) (fold btree_remove (deletes b) (items kv))\<rparr>)"
  have c: "fake_commit kv b = Inr ?kv" using assms by (simp add: fake_commit_def Let_def)
  show thesis by (rule that [OF c]) (use c in \<open>auto simp: fake_commit_get intro: fake.commit_invar\<close>)
qed

lemma commit_then_unchecked:
  assumes "checks b = []"
  shows "\<exists>kv'. commit_then kv b x = (Inr x, kv') \<and> fake_get kv' = apply_batch b (fake_get kv) \<and>
    (fake_wf kv \<longrightarrow> fake_wf kv') \<and> next_order kv' = next_order kv"
proof -
  from assms obtain kv' where "fake_commit kv b = Inr kv'" "fake_get kv' = apply_batch b (fake_get kv)"
    "fake_wf kv \<Longrightarrow> fake_wf kv'" "next_order kv' = next_order kv"
    using fake_commit_unchecked [of b kv] by metis
  then show ?thesis by (intro exI [of _ kv']) (simp add: commit_then_def)
qed

lemma fake_generated_order_id_simps [simp]:
  "fst (fake_generated_order_id kv) = uuid_v7 (saturating_add (next_order kv) 1)"
  "items (snd (fake_generated_order_id kv)) = items kv"
  "fake_get (snd (fake_generated_order_id kv)) = fake_get kv"
  "fake_wf (snd (fake_generated_order_id kv)) = fake_wf kv"
  "next_order (snd (fake_generated_order_id kv)) = saturating_add (next_order kv) 1"
  by (simp_all add: fake_generated_order_id_def order_from_u128_def fake_get_def [abs_def] fake_wf_def Let_def)

section \<open>Properties\<close>

text \<open>A prefix scan of the in-memory store returns exactly the stored entries whose key has the prefix,
  in key order, for every prefix that does not end in \<open>0xff\<close> (every prefix the catalog builds ends in a slash
  or a fixed field).\<close>
theorem fake_prefix_scan_exact:
  assumes "fake_wf kv" "p \<noteq> []" "last p < 0xff"
  shows "fake_scan_prefix kv p d lim =
    Inr (limit_take lim (directed d (map to_item (filter (\<lambda>e. prefix p (fst e)) (items kv)))))"
  using fake.prefix_scan [OF assms(1,3), of "butlast p" d lim] assms(2)
  by (simp add: fake_scan_prefix_def)

theorem fake_prefix_scan_exact_witness:
  "fake_scan_prefix \<lparr>items = [([1], [7]), ([1, 2], [8]), ([3], [9])], fence_versions = Map.empty, next_order = 0\<rparr>
     [1] Reverse (Some 1) = Inr [to_item ([1, 2], [8])]"
  by (subst fake_prefix_scan_exact)
     (simp_all add: fake_wf_def btree_wf_def limit_take_def directed_def)

text \<open>C23: The paged range visitor always returns. It visits the items of the range once each and in the
  requested direction, up to one more than the requested maximum (the probe the callers use to detect
  overflow), stops at the first error of the visitor, and reports how many items it visited.\<close>
theorem fake_scan_range_pages_complete:
  assumes "fake_wf kv"
  shows "scan_range_pages (fake_scan_range kv) start stop d max_items visit s =
    Some (let R = limit_take (map_option (\<lambda>n. usize_saturating_add n 1) max_items)
                    (directed d (map to_item (btree_range start stop (items kv))))
          in rbind (rfold visit R s) (\<lambda>s'. Inr (length R, s')))"
proof (cases "start \<ge> stop")
  case True
  then have "btree_range start stop (items kv) = []" by (auto simp: btree_range_def filter_empty_conv)
  with True show ?thesis
    by (simp add: scan_range_pages_def limit_take_def directed_def split: option.split range_direction.split)
next
  case False
  then have "start \<le> stop" by simp
  from fake.scan_pages_loop_complete [OF assms this, of d visit _ 0 s] False show ?thesis
    by (simp add: scan_range_pages_def Let_def)
qed

theorem fake_scan_range_pages_complete_witness:
  "scan_range_pages (fake_scan_range \<lparr>items = [([1], [7]), ([2], [8]), ([3], [9])], fence_versions = Map.empty,
       next_order = 0\<rparr>) [1] [9] Reverse (Some 1) (\<lambda>i n. Inr (n + unat (hd (ri_value i)))) 0 =
     Some (Inr (2, 17 :: nat))"
  by (subst fake_scan_range_pages_complete)
     (simp_all add: fake_wf_def btree_wf_def limit_take_def directed_def btree_range_def to_item_def
       usize_saturating_add_def usize_max_def)



end
