(* ===== verification/Cat_Rows.thy ===== *)
theory Cat_Rows
  imports Cat_Keys
begin

text \<open>
  The stored rows of \<open>rows.rs\<close> and their byte encodings: snapshots, validity windows, stored orders,
  data files and delete files. Decoders follow the source branch by branch, older versions included;
  every slice and index is checked, so that the lemmas can state that no decoder ever runs out of
  bounds. The lemmas also give the round trips and the visibility of a validity window.
\<close>

section \<open>Clock\<close>

text \<open>\<open>SystemTime::now().duration_since(UNIX_EPOCH)\<close>: seconds and microseconds after or before it.\<close>

datatype since_epoch = AfterEpoch nat nat | BeforeEpoch nat nat

definition clamp_i128_to_i64 :: "int \<Rightarrow> i64" where
  "clamp_i128_to_i64 v = word_of_int (max (- (2 ^ 63)) (min (2 ^ 63 - 1) v))"

fun current_timestamp_micros :: "since_epoch \<Rightarrow> i64" where
  "current_timestamp_micros (AfterEpoch secs micros) =
     clamp_i128_to_i64 (int secs * 1000000 + int micros)"
| "current_timestamp_micros (BeforeEpoch secs micros) =
     - clamp_i128_to_i64 (int secs * 1000000 + int micros)"

section \<open>Snapshots\<close>

record snapshot_row =
  sn_order :: catalog_order_id
  sn_sequence :: raw_snapshot_sequence
  sn_created_at_micros :: i64
  sn_created_by :: rust_string
  sn_commit_message :: "rust_string option"
  sn_commit_extra_info :: "rust_string option"

record snapshot_commit_metadata =
  cm_author :: "rust_string option"
  cm_commit_message :: "rust_string option"
  cm_commit_extra_info :: "rust_string option"

definition aux_ducklake :: rust_string where
  "aux_ducklake = ascii ''aux-ducklake''"

definition snapshot_row_with_created_at_micros ::
    "catalog_order_id \<Rightarrow> raw_snapshot_sequence \<Rightarrow> i64 \<Rightarrow> snapshot_row" where
  "snapshot_row_with_created_at_micros ord seq created =
     \<lparr>sn_order = ord, sn_sequence = seq, sn_created_at_micros = created, sn_created_by = aux_ducklake,
      sn_commit_message = None, sn_commit_extra_info = None\<rparr>"

definition snapshot_row_new :: "i64 \<Rightarrow> catalog_order_id \<Rightarrow> raw_snapshot_sequence \<Rightarrow> snapshot_row" where
  "snapshot_row_new now ord seq = snapshot_row_with_created_at_micros ord seq now"

definition snapshot_row_initial :: "i64 \<Rightarrow> catalog_order_id \<Rightarrow> snapshot_row" where
  "snapshot_row_initial now ord = snapshot_row_new now ord raw_sequence_initial"

definition with_commit_metadata ::
    "snapshot_row \<Rightarrow> rust_string \<Rightarrow> rust_string option \<Rightarrow> rust_string option \<Rightarrow> snapshot_row" where
  "with_commit_metadata r author message extra =
     r\<lparr>sn_created_by := author, sn_commit_message := message, sn_commit_extra_info := extra\<rparr>"

definition with_optional_commit_metadata ::
    "snapshot_row \<Rightarrow> snapshot_commit_metadata option \<Rightarrow> snapshot_row" where
  "with_optional_commit_metadata r metadata =
     (case metadata of
        None \<Rightarrow> r
      | Some m \<Rightarrow>
          let r1 = (case cm_author m of Some a \<Rightarrow> r\<lparr>sn_created_by := a\<rparr> | None \<Rightarrow> r)
          in r1\<lparr>sn_commit_message := cm_commit_message m,
                sn_commit_extra_info := cm_commit_extra_info m\<rparr>)"

definition len_u32 :: "bytes \<Rightarrow> bytes" where
  "len_u32 bs = u32_to_be_bytes (word_of_nat (length bs))"

definition encode_optional_snapshot_string :: "rust_string option \<Rightarrow> bytes" where
  "encode_optional_snapshot_string v =
     (case v of
        Some s \<Rightarrow> [1] @ len_u32 s @ s
      | None \<Rightarrow> [0] @ u32_to_be_bytes 0)"

definition decode_optional_snapshot_string ::
    "bytes \<Rightarrow> nat \<Rightarrow> (rust_string option \<times> nat) catalog_result" where
  "decode_optional_snapshot_string bs offset =
     (if length bs < offset + 5 then Inl (Decode ''field is truncated'')
      else rbind (byte_at bs offset) (\<lambda>present.
        rbind (slice bs (offset + 1) (offset + 5)) (\<lambda>lb.
        rbind (be_u32 (Decode ''field length is truncated'') lb) (\<lambda>n.
        let value_start = offset + 5; len = unat n; value_end = value_start + len in
        if length bs < value_end then Inl (Decode ''field bytes are truncated'')
        else rbind
          (if present = 0 then
             (if len = 0 then Inr None else Inl (Decode ''field absent marker has nonzero length''))
           else if present = 1 then
             rbind (slice bs value_start value_end) (\<lambda>vb.
             rbind (str_from_utf8 (Decode ''field is not utf8'') vb) (\<lambda>s. Inr (Some s)))
           else Inl (Decode ''field has unsupported marker''))
          (\<lambda>v. Inr (v, value_end))))))"

definition snapshot_row_encode :: "snapshot_row \<Rightarrow> bytes" where
  "snapshot_row_encode r =
     [3] @ order_as_bytes (sn_order r) @ raw_sequence_to_be_bytes (sn_sequence r) @
     u64_to_be_bytes (sn_created_at_micros r) @
     encode_optional_snapshot_string (Some (sn_created_by r)) @
     encode_optional_snapshot_string (sn_commit_message r) @
     encode_optional_snapshot_string (sn_commit_extra_info r)"

definition snapshot_row_decode :: "bytes \<Rightarrow> snapshot_row catalog_result" where
  "snapshot_row_decode bs =
     (if length bs < 1 + 16 + 8 then Inl (Decode ''snapshot row is too short'')
      else rbind (byte_at bs 0) (\<lambda>version.
        if \<not> (version = 2 \<or> version = 3) then Inl (Decode ''unsupported snapshot row version'')
        else if length bs < 33 then Inl (Decode ''snapshot row is too short'')
        else rbind (slice bs 1 17) (\<lambda>ob.
          rbind (be_u128 (Decode ''snapshot order is truncated'') ob) (\<lambda>order_value.
          rbind (slice bs 17 25) (\<lambda>sb.
          rbind (be_u64 (Decode ''snapshot sequence is truncated'') sb) (\<lambda>seq.
          rbind (slice bs 25 33) (\<lambda>tb.
          rbind (be_u64 (Decode ''snapshot timestamp is truncated'') tb) (\<lambda>created.
          rbind
            (if version = 2 then
               rbind (slice_from bs 33) (\<lambda>cb.
               rbind (str_from_utf8 (Decode ''created_by is not utf8'') cb) (\<lambda>s. Inr (s, None, None)))
             else
               rbind (decode_optional_snapshot_string bs 33) (\<lambda>(created_by, off1).
               rbind (decode_optional_snapshot_string bs off1) (\<lambda>(message, off2).
               rbind (decode_optional_snapshot_string bs off2) (\<lambda>(extra, off3).
                 if off3 \<noteq> length bs then Inl (Decode ''snapshot row has trailing bytes'')
                 else Inr (case created_by of Some s \<Rightarrow> s | None \<Rightarrow> aux_ducklake, message, extra)))))
            (\<lambda>(created_by, message, extra).
              Inr \<lparr>sn_order = uuid_v7 order_value, sn_sequence = seq, sn_created_at_micros = created,
                   sn_created_by = created_by, sn_commit_message = message,
                   sn_commit_extra_info = extra\<rparr>)))))))))"

section \<open>Validity windows and stored orders\<close>

record validity_window =
  begin_order :: catalog_order_id
  end_order :: "catalog_order_id option"

definition validity_new :: "catalog_order_id \<Rightarrow> catalog_order_id option \<Rightarrow> validity_window" where
  "validity_new b e = \<lparr>begin_order = b, end_order = e\<rparr>"

definition is_visible_at :: "validity_window \<Rightarrow> catalog_order_id \<Rightarrow> bool" where
  "is_visible_at w snapshot_order \<longleftrightarrow>
     begin_order w \<le> snapshot_order \<and>
     (case end_order w of None \<Rightarrow> True | Some e \<Rightarrow> snapshot_order < e)"

definition stored_order_len :: nat where
  "stored_order_len = 1 + 16"

definition encode_stored_order :: "catalog_order_id \<Rightarrow> bytes" where
  "encode_stored_order ord =
     [case order_kind ord of FdbVersionstamp \<Rightarrow> 1 | UuidV7 \<Rightarrow> 2] @ order_as_bytes ord"

definition decode_stored_order :: "bytes \<Rightarrow> catalog_order_id catalog_result" where
  "decode_stored_order bs =
     (if length bs \<noteq> stored_order_len then Inl (Decode ''stored order is truncated'')
      else rbind (byte_at bs 0) (\<lambda>k.
        rbind (if k = 1 then Inr FdbVersionstamp else if k = 2 then Inr UuidV7
               else Inl (Decode ''unsupported order kind'')) (\<lambda>kind.
        rbind (slice_from bs 1) (\<lambda>ob. Inr (order_from_bytes kind ob)))))"

text \<open>The \<open>match\<close> on an optional field: a marker byte and a payload that is always written.\<close>

definition encode_optional_order :: "catalog_order_id option \<Rightarrow> bytes" where
  "encode_optional_order v =
     (case v of
        Some ord \<Rightarrow> [1] @ encode_stored_order ord
      | None \<Rightarrow> [0] @ encode_stored_order (uuid_v7 0))"

definition encode_optional_u64 :: "u64 option \<Rightarrow> bytes" where
  "encode_optional_u64 v =
     (case v of Some n \<Rightarrow> [1] @ u64_to_be_bytes n | None \<Rightarrow> [0] @ u64_to_be_bytes 0)"

text \<open>Reading such a field: marker 0 is \<open>None\<close>, 1 decodes the payload, anything else is an error.\<close>

definition decode_optional_order :: "catalog_error \<Rightarrow> bytes \<Rightarrow> nat \<Rightarrow> catalog_order_id option catalog_result" where
  "decode_optional_order err bs marker_index =
     rbind (byte_at bs marker_index) (\<lambda>m.
       if m = 0 then Inr None
       else if m = 1 then
         rbind (slice bs (marker_index + 1) (marker_index + 1 + stored_order_len)) (\<lambda>ob.
         rbind (decode_stored_order ob) (\<lambda>ord. Inr (Some ord)))
       else Inl err)"

definition decode_optional_u64 :: "catalog_error \<Rightarrow> catalog_error \<Rightarrow> bytes \<Rightarrow> nat \<Rightarrow> u64 option catalog_result" where
  "decode_optional_u64 truncated err bs marker_index =
     rbind (byte_at bs marker_index) (\<lambda>m.
     rbind (slice bs (marker_index + 1) (marker_index + 9)) (\<lambda>vb.
     rbind (be_u64 truncated vb) (\<lambda>v.
       if m = 0 then Inr None else if m = 1 then Inr (Some v) else Inl err)))"

definition decode_u64_at :: "catalog_error \<Rightarrow> bytes \<Rightarrow> nat \<Rightarrow> u64 catalog_result" where
  "decode_u64_at err bs i = rbind (slice bs i (i + 8)) (be_u64 err)"

text \<open>The encryption key with its length and then the path: the tail of file rows.\<close>

definition decode_key_and_path ::
    "bool \<Rightarrow> bytes \<Rightarrow> nat \<Rightarrow> (rust_string \<times> rust_string) catalog_result" where
  "decode_key_and_path has_key bs start =
     rbind
       (if has_key then
          (if length bs < start + 4 then Inl (Decode ''encryption key length is truncated'')
           else rbind (slice bs start (start + 4)) (\<lambda>lb.
             rbind (be_u32 (Decode ''encryption key length is truncated'') lb) (\<lambda>n.
             let value_start = start + 4; path_start = value_start + unat n in
             if length bs < path_start then Inl (Decode ''encryption key is truncated'')
             else rbind (slice bs value_start path_start) (\<lambda>kb.
               rbind (str_from_utf8 (Decode ''encryption key is not utf8'') kb) (\<lambda>k.
                 Inr (k, path_start))))))
        else Inr ([], start))
       (\<lambda>(key, path_start).
         rbind (slice_from bs path_start) (\<lambda>pb.
         rbind (str_from_utf8 (Decode ''path is not utf8'') pb) (\<lambda>path. Inr (key, path))))"

section \<open>Data files\<close>

record data_file_row =
  df_data_file_id :: data_file_id
  df_table_id :: table_id
  df_path :: rust_string
  df_record_count :: u64
  df_file_size_bytes :: u64
  df_footer_size :: "u64 option"
  df_encryption_key :: rust_string
  df_row_id_start :: u64
  df_row_id_start_known :: bool
  df_mapping_id :: "u64 option"
  df_max_partial_order :: "catalog_order_id option"
  df_validity :: validity_window

definition data_file_row_new ::
    "data_file_id \<Rightarrow> table_id \<Rightarrow> rust_string \<Rightarrow> u64 \<Rightarrow> u64 \<Rightarrow> catalog_order_id \<Rightarrow> data_file_row" where
  "data_file_row_new fid tid path count sz ord =
     \<lparr>df_data_file_id = fid, df_table_id = tid, df_path = path, df_record_count = count,
      df_file_size_bytes = sz, df_footer_size = None, df_encryption_key = [], df_row_id_start = 0,
      df_row_id_start_known = False, df_mapping_id = None, df_max_partial_order = None,
      df_validity = validity_new ord None\<rparr>"

definition df_with_row_id_start :: "data_file_row \<Rightarrow> u64 \<Rightarrow> data_file_row" where
  "df_with_row_id_start r start = r\<lparr>df_row_id_start := start, df_row_id_start_known := True\<rparr>"

definition df_with_mapping_id :: "data_file_row \<Rightarrow> u64 option \<Rightarrow> data_file_row" where
  "df_with_mapping_id r m = r\<lparr>df_mapping_id := m\<rparr>"

definition df_with_footer_size :: "data_file_row \<Rightarrow> u64 option \<Rightarrow> data_file_row" where
  "df_with_footer_size r f = r\<lparr>df_footer_size := f\<rparr>"

definition df_with_encryption_key :: "data_file_row \<Rightarrow> rust_string \<Rightarrow> data_file_row" where
  "df_with_encryption_key r k = r\<lparr>df_encryption_key := k\<rparr>"

definition df_with_begin_order :: "data_file_row \<Rightarrow> catalog_order_id \<Rightarrow> data_file_row" where
  "df_with_begin_order r ord = r\<lparr>df_validity := (df_validity r)\<lparr>begin_order := ord\<rparr>\<rparr>"

definition df_with_max_partial_order :: "data_file_row \<Rightarrow> catalog_order_id option \<Rightarrow> data_file_row" where
  "df_with_max_partial_order r ord = r\<lparr>df_max_partial_order := ord\<rparr>"

definition data_file_row_encode :: "data_file_row \<Rightarrow> bytes" where
  "data_file_row_encode r =
     [8] @ u64_to_be_bytes (df_data_file_id r) @ u64_to_be_bytes (df_table_id r) @
     u64_to_be_bytes (df_record_count r) @ u64_to_be_bytes (df_file_size_bytes r) @
     u64_to_be_bytes (df_row_id_start r) @ [if df_row_id_start_known r then 1 else 0] @
     encode_optional_u64 (df_mapping_id r) @
     encode_stored_order (begin_order (df_validity r)) @
     encode_optional_order (end_order (df_validity r)) @
     encode_optional_order (df_max_partial_order r) @
     encode_optional_u64 (df_footer_size r) @
     len_u32 (df_encryption_key r) @ df_encryption_key r @ df_path r"

definition data_file_row_decode :: "bytes \<Rightarrow> data_file_row catalog_result" where
  "data_file_row_decode bs =
     rbind (case bs of
              [] \<Rightarrow> Inl (Decode ''data file row is too short: 0 bytes'')
            | v # _ \<Rightarrow> if 3 \<le> v \<and> v \<le> 8 then Inr v else Inl (Decode ''unsupported data file row version''))
     (\<lambda>version.
       let row_id_known_len = (if version \<ge> 7 then 1 else 0);
           mapping_len = (if version \<ge> 4 then 1 + 8 else 0);
           max_partial_len = (if version \<ge> 5 then 1 + stored_order_len else 0);
           footer_len = (if version \<ge> 6 then 1 + 8 else 0);
           encryption_len = (if version \<ge> 8 then 4 else 0);
           minimum_len = 1 + 8 + 8 + 8 + 8 + 8 + row_id_known_len + mapping_len + stored_order_len + 1 +
             stored_order_len + max_partial_len + footer_len + encryption_len;
           row_id_known_start = 41;
           mapping_start = row_id_known_start + row_id_known_len;
           begin_start = mapping_start + mapping_len;
           end_present_index = begin_start + stored_order_len;
           max_partial_present_index = end_present_index + 1 + stored_order_len;
           footer_present_index = max_partial_present_index + max_partial_len;
           encryption_length_start = footer_present_index + footer_len
       in if length bs < minimum_len then Inl (Decode ''data file row is too short'')
       else
         rbind (decode_u64_at (Decode ''data file id is truncated'') bs 1) (\<lambda>data_file_id.
         rbind (decode_u64_at (Decode ''table id is truncated'') bs 9) (\<lambda>table_id.
         rbind (decode_u64_at (Decode ''record count is truncated'') bs 17) (\<lambda>record_count.
         rbind (decode_u64_at (Decode ''file size is truncated'') bs 25) (\<lambda>file_size.
         rbind (decode_u64_at (Decode ''row id start is truncated'') bs 33) (\<lambda>row_id_start.
         rbind (if version \<ge> 7 then
                  rbind (byte_at bs row_id_known_start) (\<lambda>m.
                    if m = 0 then Inr False else if m = 1 then Inr True
                    else Inl (Decode ''invalid data file row-id-known marker''))
                else Inr False) (\<lambda>row_id_start_known.
         rbind (if version \<ge> 4 then
                  decode_optional_u64 (Decode ''mapping id is truncated'')
                    (Decode ''invalid data file mapping marker'') bs mapping_start
                else Inr None) (\<lambda>mapping_id.
         rbind (slice bs begin_start end_present_index) (\<lambda>bb.
         rbind (decode_stored_order bb) (\<lambda>begin_ord.
         rbind (decode_optional_order (Decode ''invalid data file end-order marker'') bs
                  end_present_index) (\<lambda>end_ord.
         rbind (if version \<ge> 5 then
                  decode_optional_order (Decode ''invalid data file max-partial marker'') bs
                    max_partial_present_index
                else Inr None) (\<lambda>max_partial.
         rbind (if version \<ge> 6 then
                  decode_optional_u64 (Decode ''footer size is truncated'')
                    (Decode ''invalid data file footer-size marker'') bs footer_present_index
                else Inr None) (\<lambda>footer.
         rbind (decode_key_and_path (version \<ge> 8) bs encryption_length_start) (\<lambda>(key, path).
           Inr \<lparr>df_data_file_id = data_file_id, df_table_id = table_id, df_path = path,
                df_record_count = record_count, df_file_size_bytes = file_size,
                df_footer_size = footer, df_encryption_key = key, df_row_id_start = row_id_start,
                df_row_id_start_known = row_id_start_known, df_mapping_id = mapping_id,
                df_max_partial_order = max_partial,
                df_validity = validity_new begin_ord end_ord\<rparr>))))))))))))))"

section \<open>Delete files\<close>

record delete_file_row =
  xf_delete_file_id :: delete_file_id
  xf_data_file_id :: data_file_id
  xf_path :: rust_string
  xf_record_count :: u64
  xf_file_size_bytes :: u64
  xf_encryption_key :: rust_string
  xf_validity :: validity_window
  xf_max_partial_order :: "catalog_order_id option"

definition delete_file_row_new ::
    "delete_file_id \<Rightarrow> data_file_id \<Rightarrow> rust_string \<Rightarrow> u64 \<Rightarrow> u64 \<Rightarrow> catalog_order_id \<Rightarrow> delete_file_row" where
  "delete_file_row_new xid fid path count sz ord =
     \<lparr>xf_delete_file_id = xid, xf_data_file_id = fid, xf_path = path, xf_record_count = count,
      xf_file_size_bytes = sz, xf_encryption_key = [], xf_validity = validity_new ord None,
      xf_max_partial_order = None\<rparr>"

definition xf_with_max_partial_order :: "delete_file_row \<Rightarrow> catalog_order_id option \<Rightarrow> delete_file_row" where
  "xf_with_max_partial_order r ord = r\<lparr>xf_max_partial_order := ord\<rparr>"

definition xf_with_encryption_key :: "delete_file_row \<Rightarrow> rust_string \<Rightarrow> delete_file_row" where
  "xf_with_encryption_key r k = r\<lparr>xf_encryption_key := k\<rparr>"

definition delete_file_row_encode :: "delete_file_row \<Rightarrow> bytes" where
  "delete_file_row_encode r =
     [4] @ u64_to_be_bytes (xf_delete_file_id r) @ u64_to_be_bytes (xf_data_file_id r) @
     u64_to_be_bytes (xf_record_count r) @ u64_to_be_bytes (xf_file_size_bytes r) @
     encode_stored_order (begin_order (xf_validity r)) @
     encode_optional_order (end_order (xf_validity r)) @
     encode_optional_order (xf_max_partial_order r) @
     len_u32 (xf_encryption_key r) @ xf_encryption_key r @ xf_path r"

definition delete_file_row_decode :: "bytes \<Rightarrow> delete_file_row catalog_result" where
  "delete_file_row_decode bs =
     rbind (case bs of
              [] \<Rightarrow> Inl (Decode ''delete file row is too short: 0 bytes'')
            | v # _ \<Rightarrow> if v = 4 \<or> v = 3 \<or> v = 2 then Inr v
                       else Inl (Decode ''unsupported delete file row version''))
     (\<lambda>version.
       let minimum_len = 1 + 8 + 8 + 8 + 8 + stored_order_len + 1 + stored_order_len;
           begin_start = 33;
           end_present_index = begin_start + stored_order_len;
           legacy_path_start = end_present_index + 1 + stored_order_len;
           max_partial_present_index = legacy_path_start;
           max_partial_start = max_partial_present_index + 1;
           encryption_length_start =
             (if version \<ge> 3 then max_partial_start + stored_order_len else legacy_path_start)
       in if length bs < minimum_len then Inl (Decode ''delete file row is too short'')
       else if length bs < encryption_length_start
       then Inl (Decode ''delete file row version is too short'')
       else
         rbind (decode_u64_at (Decode ''delete file id is truncated'') bs 1) (\<lambda>delete_file_id.
         rbind (decode_u64_at (Decode ''data file id is truncated'') bs 9) (\<lambda>data_file_id.
         rbind (decode_u64_at (Decode ''record count is truncated'') bs 17) (\<lambda>record_count.
         rbind (decode_u64_at (Decode ''file size is truncated'') bs 25) (\<lambda>file_size.
         rbind (slice bs begin_start end_present_index) (\<lambda>bb.
         rbind (decode_stored_order bb) (\<lambda>begin_ord.
         rbind (decode_optional_order (Decode ''invalid delete file end-order marker'') bs
                  end_present_index) (\<lambda>end_ord.
         rbind (if version \<ge> 3 then
                  decode_optional_order (Decode ''invalid delete file max-partial marker'') bs
                    max_partial_present_index
                else Inr None) (\<lambda>max_partial.
         rbind (decode_key_and_path (version \<ge> 4) bs encryption_length_start) (\<lambda>(key, path).
           Inr \<lparr>xf_delete_file_id = delete_file_id, xf_data_file_id = data_file_id, xf_path = path,
                xf_record_count = record_count, xf_file_size_bytes = file_size,
                xf_encryption_key = key, xf_validity = validity_new begin_ord end_ord,
                xf_max_partial_order = max_partial\<rparr>))))))))))"

text \<open>Strings the encodings can carry: valid UTF-8 whose length fits the 32-bit length field.\<close>

definition string_ok :: "rust_string \<Rightarrow> bool" where
  "string_ok s \<longleftrightarrow> utf8_valid s \<and> length s < 2 ^ 32"

section \<open>Lengths\<close>

lemma length_len_u32 [simp, len_simps]: "length (len_u32 bs) = 4"
  by (simp add: len_u32_def)

lemma length_encode_stored_order [simp, len_simps]: "length (encode_stored_order ord) = 17"
  by (simp add: encode_stored_order_def)

lemma length_encode_optional_order [simp, len_simps]: "length (encode_optional_order v) = 18"
  by (simp add: encode_optional_order_def split: option.split)

lemma length_encode_optional_u64 [simp, len_simps]: "length (encode_optional_u64 v) = 9"
  by (simp add: encode_optional_u64_def split: option.split)

section \<open>Reading a field behind a known amount of bytes\<close>

text \<open>Each field reader, applied at the offset where the encoding of the field starts, returns it.
  The premise that the offset is the length of what comes before is discharged by simplification,
  so a whole row decodes by rewriting.\<close>

lemma slice_field: "length xs = i \<Longrightarrow> length ys = j - i \<Longrightarrow> i \<le> j \<Longrightarrow> slice (xs @ ys @ zs) i j = Inr ys"
  by (auto simp: slice_def)

lemma slice_from_field: "length xs = i \<Longrightarrow> slice_from (xs @ ys) i = Inr ys"
  by (auto simp: slice_from_def slice_def)

lemma decode_u64_at_field:
  "length xs = i \<Longrightarrow> decode_u64_at err (xs @ u64_to_be_bytes v @ zs) i = Inr v"
  by (simp add: decode_u64_at_def slice_field be_u64_def)

lemma decode_stored_order_encode [simp]: "decode_stored_order (encode_stored_order ord) = Inr ord"
  by (cases "order_kind ord")
     (auto simp: decode_stored_order_def encode_stored_order_def stored_order_len_def byte_at_def
       slice_from_def slice_def intro: order_eqI)

lemma byte_at_field: "length xs = i \<Longrightarrow> byte_at (xs @ b # zs) i = Inr b"
  by (auto simp: byte_at_def nth_append)

lemma decode_optional_order_field:
  assumes "length xs = i"
  shows "decode_optional_order err (xs @ encode_optional_order v @ zs) i = Inr v"
proof (cases v)
  case None
  then show ?thesis
    using assms by (simp add: decode_optional_order_def encode_optional_order_def byte_at_field)
next
  case (Some ord)
  have "slice (xs @ 1 # encode_stored_order ord @ zs) (i + 1) (i + 18) = Inr (encode_stored_order ord)"
    using assms slice_field [of "xs @ [1]" "i + 1" "encode_stored_order ord" "i + 18" zs] by simp
  with Some assms show ?thesis
    by (simp add: decode_optional_order_def encode_optional_order_def byte_at_field stored_order_len_def
        add.commute)
qed

lemma decode_optional_u64_field:
  assumes "length xs = i"
  shows "decode_optional_u64 t err (xs @ encode_optional_u64 v @ zs) i = Inr v"
proof -
  have "slice (xs @ m # u64_to_be_bytes n @ zs) (i + 1) (i + 9) = Inr (u64_to_be_bytes n)" for m n
    using assms slice_field [of "xs @ [m]" "i + 1" "u64_to_be_bytes n" "i + 9" zs] by simp
  with assms show ?thesis
    by (cases v) (simp_all add: decode_optional_u64_def encode_optional_u64_def byte_at_field be_u64_def)
qed

lemma unat_len_word: "length bs < 2 ^ 32 \<Longrightarrow> unat (word_of_nat (length bs) :: u32) = length bs"
  by (simp add: unat_of_nat)

lemma decode_key_and_path_field:
  assumes "length xs = i" "utf8_valid key" "utf8_valid path" "length key < 2 ^ 32"
  shows "decode_key_and_path True (xs @ len_u32 key @ key @ path) i = Inr (key, path)"
proof -
  have "slice (xs @ len_u32 key @ key @ path) (i + 4) (i + 4 + length key) = Inr key"
    using assms slice_field [of "xs @ len_u32 key" "i + 4" key "i + 4 + length key" path] by simp
  moreover have "slice_from (xs @ len_u32 key @ key @ path) (i + 4 + length key) = Inr path"
    using assms slice_from_field [of "xs @ len_u32 key @ key" "i + 4 + length key" path] by simp
  ultimately show ?thesis
    using assms by (simp add: decode_key_and_path_def slice_field be_u32_def len_u32_def
        unat_len_word str_from_utf8_def)
qed

lemma decode_optional_snapshot_string_field:
  assumes "length xs = i" and "pred_option string_ok v"
  shows "decode_optional_snapshot_string (xs @ encode_optional_snapshot_string v @ zs) i =
    Inr (v, i + length (encode_optional_snapshot_string v))"
proof (cases v)
  case None
  have "slice (xs @ 0 # u32_to_be_bytes 0 @ zs) (i + 1) (i + 5) = Inr (u32_to_be_bytes 0)"
    using assms slice_field [of "xs @ [0]" "i + 1" "u32_to_be_bytes 0" "i + 5" zs] by simp
  with None assms show ?thesis
    by (simp add: decode_optional_snapshot_string_def encode_optional_snapshot_string_def
        byte_at_field be_u32_def)
next
  case (Some s)
  have "slice (xs @ 1 # len_u32 s @ s @ zs) (i + 1) (i + 5) = Inr (len_u32 s)"
    using assms slice_field [of "xs @ [1]" "i + 1" "len_u32 s" "i + 5" "s @ zs"] by simp
  moreover have "slice (xs @ 1 # len_u32 s @ s @ zs) (i + 5) (i + 5 + length s) = Inr s"
    using assms slice_field [of "xs @ [1] @ len_u32 s" "i + 5" s "i + 5 + length s" zs] by simp
  moreover have "be_u32 err (len_u32 s) = Inr (word_of_nat (length s))" for err
    by (simp add: be_u32_def len_u32_def)
  ultimately show ?thesis
    using Some assms
    by (simp add: decode_optional_snapshot_string_def encode_optional_snapshot_string_def
        byte_at_field unat_len_word str_from_utf8_def Let_def string_ok_def)
qed

section \<open>Row round trips\<close>

definition snapshot_row_ok :: "snapshot_row \<Rightarrow> bool" where
  "snapshot_row_ok r \<longleftrightarrow> string_ok (sn_created_by r) \<and>
     pred_option string_ok (sn_commit_message r) \<and> pred_option string_ok (sn_commit_extra_info r)"

definition data_file_row_ok :: "data_file_row \<Rightarrow> bool" where
  "data_file_row_ok r \<longleftrightarrow> string_ok (df_encryption_key r) \<and> utf8_valid (df_path r)"

definition delete_file_row_ok :: "delete_file_row \<Rightarrow> bool" where
  "delete_file_row_ok r \<longleftrightarrow> string_ok (xf_encryption_key r) \<and> utf8_valid (xf_path r)"

text \<open>Skipping what lies before a field.\<close>

lemma rbind_case: "rbind r f = (case r of Inl e \<Rightarrow> Inl e | Inr x \<Rightarrow> f x)"
  by (cases r) simp_all

lemma byte_at_skip: "length xs \<le> i \<Longrightarrow> byte_at (xs @ ys) i = byte_at ys (i - length xs)"
  by (auto simp: byte_at_def nth_append)

lemma slice_skip:
  "length xs \<le> i \<Longrightarrow> i \<le> j \<Longrightarrow> slice (xs @ ys) i j = slice ys (i - length xs) (j - length xs)"
  by (auto simp: slice_def)

lemma slice_from_skip: "length xs \<le> i \<Longrightarrow> slice_from (xs @ ys) i = slice_from ys (i - length xs)"
  by (auto simp: slice_from_def slice_def)

lemma decode_u64_at_skip:
  "length xs \<le> i \<Longrightarrow> decode_u64_at e (xs @ ys) i = decode_u64_at e ys (i - length xs)"
  by (simp add: decode_u64_at_def slice_skip)

lemma decode_optional_order_skip:
  "length xs \<le> i \<Longrightarrow> decode_optional_order e (xs @ ys) i = decode_optional_order e ys (i - length xs)"
  unfolding le_iff_add by (auto simp: decode_optional_order_def slice_skip byte_at_skip add.assoc cong: if_cong)

lemma decode_optional_u64_skip:
  "length xs \<le> i \<Longrightarrow> decode_optional_u64 t e (xs @ ys) i = decode_optional_u64 t e ys (i - length xs)"
  unfolding le_iff_add by (auto simp: decode_optional_u64_def slice_skip byte_at_skip)

lemma decode_key_and_path_skip:
  assumes "length xs \<le> i"
  shows "decode_key_and_path b (xs @ ys) i = decode_key_and_path b ys (i - length xs)"
proof -
  from assms obtain j where "i = length xs + j" using le_Suc_ex by blast
  then show ?thesis
    by (cases b)
       (auto simp: decode_key_and_path_def slice_skip slice_from_skip Let_def add.assoc rbind_case
        cong: if_cong split: sum.split)
qed

lemmas field_skip = byte_at_skip slice_skip slice_from_skip decode_u64_at_skip
  decode_optional_order_skip decode_optional_u64_skip decode_key_and_path_skip

lemmas field_skip_Cons = field_skip [of "[x]" for x, simplified]

lemma field_read:
  "decode_u64_at e (u64_to_be_bytes v @ zs) 0 = Inr v"
  "decode_optional_order e (encode_optional_order w @ zs) 0 = Inr w"
  "decode_optional_u64 t e (encode_optional_u64 u @ zs) 0 = Inr u"
  "slice (encode_stored_order ord @ zs) 0 17 = Inr (encode_stored_order ord)"
  "byte_at (b # bs) 0 = Inr b"
  using decode_u64_at_field [of "[]"] decode_optional_order_field [of "[]"]
    decode_optional_u64_field [of "[]"] slice_field [of "[]"] byte_at_field [of "[]"] by simp_all

lemma key_and_path_read:
  "string_ok key \<Longrightarrow> utf8_valid path \<Longrightarrow>
   decode_key_and_path True (len_u32 key @ key @ path) 0 = Inr (key, path)"
  using decode_key_and_path_field [of "[]"] by (simp add: string_ok_def)

lemmas row_read = field_skip field_skip_Cons field_read key_and_path_read stored_order_len_def

lemma delete_file_row_roundtrip:
  "delete_file_row_ok r \<Longrightarrow> delete_file_row_decode (delete_file_row_encode r) = Inr r"
  by (cases r)
     (simp add: delete_file_row_decode_def delete_file_row_encode_def delete_file_row_ok_def
       row_read validity_new_def Let_def)

lemma data_file_row_roundtrip:
  "data_file_row_ok r \<Longrightarrow> data_file_row_decode (data_file_row_encode r) = Inr r"
  by (cases r)
     (simp add: data_file_row_decode_def data_file_row_encode_def data_file_row_ok_def
       row_read validity_new_def Let_def)

lemma length_order_seq_created [simp]:
  "length (raw_sequence_to_be_bytes n) = 8"
  by (simp add: raw_sequence_to_be_bytes_def)

text \<open>A snapshot row stores the bytes of its order but not its kind, so decoding answers a
  \<open>UuidV7\<close> order with the same bytes; the readers restore the kind from elsewhere.\<close>

lemma snapshot_row_roundtrip:
  assumes "snapshot_row_ok r"
  shows "snapshot_row_decode (snapshot_row_encode r) = Inr (r\<lparr>sn_order := uuid_v7 (order_arr (sn_order r))\<rparr>)"
proof -
  define h where "h = [3] @ order_as_bytes (sn_order r) @ raw_sequence_to_be_bytes (sn_sequence r) @
    u64_to_be_bytes (sn_created_at_micros r)"
  define a b c where "a = encode_optional_snapshot_string (Some (sn_created_by r))"
    and "b = encode_optional_snapshot_string (sn_commit_message r)"
    and "c = encode_optional_snapshot_string (sn_commit_extra_info r)"
  have e: "snapshot_row_encode r = h @ a @ b @ c"
    by (simp add: snapshot_row_encode_def h_def a_def b_def c_def)
  have h: "length h = 33" by (simp add: h_def)
  have strings:
    "decode_optional_snapshot_string (h @ a @ b @ c) 33 = Inr (Some (sn_created_by r), 33 + length a)"
    "decode_optional_snapshot_string (h @ a @ b @ c) (33 + length a) =
       Inr (sn_commit_message r, 33 + length a + length b)"
    "decode_optional_snapshot_string (h @ a @ b @ c) (33 + length a + length b) =
       Inr (sn_commit_extra_info r, 33 + length a + length b + length c)"
    using assms decode_optional_snapshot_string_field [of h 33 "Some (sn_created_by r)" "b @ c"]
      decode_optional_snapshot_string_field [of "h @ a" "33 + length a" "sn_commit_message r" c]
      decode_optional_snapshot_string_field
        [of "h @ a @ b" "33 + length a + length b" "sn_commit_extra_info r" "[]"]
    by (simp_all add: h a_def b_def c_def snapshot_row_ok_def)
  have fields:
    "byte_at (h @ t) 0 = Inr 3"
    "slice (h @ t) (Suc 0) 17 = Inr (order_as_bytes (sn_order r))"
    "slice (h @ t) 17 25 = Inr (u64_to_be_bytes (sn_sequence r))"
    "slice (h @ t) 25 33 = Inr (u64_to_be_bytes (sn_created_at_micros r))" for t
    using slice_field [of "[]" 0] by (simp_all add: h_def row_read slice_field [of "[]"] raw_sequence_to_be_bytes_def)
  show ?thesis
    unfolding snapshot_row_decode_def e
    by (simp add: strings h fields [of "a @ b @ c"] be_u128_def be_u64_def order_as_bytes_def)
qed

section \<open>Decoders stay in bounds\<close>

lemma no_panic_rbind:
  "\<not> is_panic r \<Longrightarrow> (\<And>x. r = Inr x \<Longrightarrow> \<not> is_panic (f x)) \<Longrightarrow> \<not> is_panic (rbind r f)"
  by (simp add: is_panic_rbind)

lemma no_panic_be [simp]:
  "\<not> is_panic (be_u64 (Decode m) bs)" "\<not> is_panic (be_u32 (Decode m) bs)"
  "\<not> is_panic (be_u128 (Decode m) bs)" "\<not> is_panic (str_from_utf8 (Decode m) bs)"
  by (simp_all add: be_u64_def be_u32_def be_u128_def str_from_utf8_def)

lemma no_panic_slice_from [simp]: "is_panic (slice_from bs i) \<longleftrightarrow> length bs < i"
  by (auto simp: slice_from_def)

lemma no_panic_decode_stored_order [simp]: "\<not> is_panic (decode_stored_order bs)"
  by (auto simp: decode_stored_order_def is_panic_rbind stored_order_len_def)

lemma no_panic_decode_u64_at: "i + 8 \<le> length bs \<Longrightarrow> \<not> is_panic (decode_u64_at (Decode m) bs i)"
  by (simp add: decode_u64_at_def is_panic_rbind)

lemma no_panic_decode_optional_order:
  "i + 18 \<le> length bs \<Longrightarrow> \<not> is_panic (decode_optional_order (Decode m) bs i)"
  by (simp add: decode_optional_order_def is_panic_rbind stored_order_len_def)

lemma no_panic_decode_optional_u64:
  "i + 9 \<le> length bs \<Longrightarrow> \<not> is_panic (decode_optional_u64 (Decode n) (Decode m) bs i)"
  by (simp add: decode_optional_u64_def is_panic_rbind)

lemma no_panic_decode_key_and_path: "i \<le> length bs \<Longrightarrow> \<not> is_panic (decode_key_and_path b bs i)"
  by (auto simp: decode_key_and_path_def is_panic_rbind rbind_Inr_iff Let_def not_less split: if_splits)

lemma no_panic_decode_optional_snapshot_string [simp]:
  "\<not> is_panic (decode_optional_snapshot_string bs i)"
  by (auto simp: decode_optional_snapshot_string_def is_panic_rbind Let_def not_less)

lemmas no_panic_fields = no_panic_decode_u64_at no_panic_decode_optional_order
  no_panic_decode_optional_u64 no_panic_decode_key_and_path

lemma snapshot_row_decode_no_panic: "\<not> is_panic (snapshot_row_decode bs)"
  by (auto simp: snapshot_row_decode_def is_panic_rbind split: prod.splits)

lemma delete_file_row_decode_no_panic: "\<not> is_panic (delete_file_row_decode bs)"
proof (cases bs)
  case (Cons v rest)
  show ?thesis
  proof (cases "v \<in> {4, 3, 2}")
    case True
    then show ?thesis unfolding delete_file_row_decode_def Let_def
      by (elim insertE emptyE)
         (simp_all add: Cons stored_order_len_def is_panic_rbind no_panic_fields not_less prod.case_eq_if)
  qed (simp add: Cons delete_file_row_decode_def)
qed (simp add: delete_file_row_decode_def)

lemma data_file_version_cases:
  "3 \<le> v \<Longrightarrow> v \<le> 8 \<Longrightarrow> v \<in> {3, 4, 5, 6, 7, 8}" for v :: byte
proof -
  assume "3 \<le> v" "v \<le> 8"
  then have "unat v \<in> {3, 4, 5, 6, 7, 8}" by (auto simp: word_le_nat_alt)
  then show ?thesis by (auto simp: word_unat_eq_iff)
qed

lemma data_file_row_decode_no_panic: "\<not> is_panic (data_file_row_decode bs)"
proof (cases bs)
  case Nil
  then show ?thesis by (simp add: data_file_row_decode_def)
next
  case (Cons v rest)
  show ?thesis
  proof (cases "3 \<le> v \<and> v \<le> 8")
    case False
    then show ?thesis
      by (simp only: data_file_row_decode_def Cons list.case if_False rbind.simps is_panic_simps
          simp_thms)
  next
    case True
    then have "v \<in> {3, 4, 5, 6, 7, 8}" using data_file_version_cases by blast
    then show ?thesis unfolding data_file_row_decode_def Let_def
      by (elim insertE emptyE)
         (simp_all add: Cons stored_order_len_def is_panic_rbind no_panic_fields not_less prod.case_eq_if)
  qed
qed

section \<open>Properties\<close>

text \<open>C24: Writing a data file row or a delete file row and reading it back gives the row, for every row whose
  strings are valid UTF-8 and whose encryption key is shorter than \<open>2 ^ 32\<close> bytes.\<close>
theorem file_rows_roundtrip:
  assumes "data_file_row_ok d" "delete_file_row_ok x"
  shows "data_file_row_decode (data_file_row_encode d) = Inr d \<and>
    delete_file_row_decode (delete_file_row_encode x) = Inr x"
  using assms by (simp add: data_file_row_roundtrip delete_file_row_roundtrip)

theorem file_rows_roundtrip_witness:
  "data_file_row_decode (data_file_row_encode (data_file_row_new 1 2 (ascii ''a.parquet'') 10 99 (uuid_v7 5))) =
     Inr (data_file_row_new 1 2 (ascii ''a.parquet'') 10 99 (uuid_v7 5)) \<and>
   delete_file_row_decode (delete_file_row_encode (delete_file_row_new 3 1 (ascii ''d'') 4 77 (uuid_v7 6))) =
     Inr (delete_file_row_new 3 1 (ascii ''d'') 4 77 (uuid_v7 6))"
  by (rule file_rows_roundtrip)
     (simp_all add: data_file_row_ok_def delete_file_row_ok_def data_file_row_new_def delete_file_row_new_def
       string_ok_def ascii_def utf8_valid.simps)

end
