(* ===== verification/Cat_Watermarks.thy ===== *)
theory Cat_Watermarks
  imports Cat_Kv Cat_Rows
begin

text \<open>
  Conflict watermarks (\<open>conflict_watermarks.rs\<close>): single \<open>u64\<close> cells under \<open>MetadataVersion\<close> keys
  that only grow, the largest catalog id, the largest file id and the next row id of each table.
  The in-memory store is read directly; the per-request read set of the runtime is not active here.
\<close>

record conflict_watermark_values =
  cw_max_catalog_id :: "u64 option"
  cw_max_file_id :: "u64 option"

definition stage_conflict_watermarks_initialized :: "kv_batch \<Rightarrow> catalog_id \<Rightarrow> kv_batch" where
  "stage_conflict_watermarks_initialized b catalog =
     batch_put (batch_put b (conflict_watermarks_initialized_key catalog) [1])
       (conflict_max_catalog_id_key catalog) (u64_to_be_bytes 0)"

definition watermark_decode_u64 :: "bytes \<Rightarrow> u64 catalog_result" where
  "watermark_decode_u64 v = be_u64 (InvalidKey ''invalid u64 watermark value for key'') v"

definition watermark_decode_optional_u64 :: "bytes option \<Rightarrow> u64 option catalog_result" where
  "watermark_decode_optional_u64 v = rtranspose watermark_decode_u64 v"

definition load_u64 :: "fake_kv \<Rightarrow> bytes \<Rightarrow> u64 option catalog_result" where
  "load_u64 kv key = rtranspose watermark_decode_u64 (fake_get kv key)"

definition load_max_catalog_id_watermark :: "fake_kv \<Rightarrow> catalog_id \<Rightarrow> u64 option catalog_result" where
  "load_max_catalog_id_watermark kv catalog = load_u64 kv (conflict_max_catalog_id_key catalog)"

definition load_max_file_id_watermark :: "fake_kv \<Rightarrow> catalog_id \<Rightarrow> u64 option catalog_result" where
  "load_max_file_id_watermark kv catalog = load_u64 kv (conflict_max_file_id_key catalog)"

definition validate_initialized_marker :: "bytes option \<Rightarrow> unit catalog_result" where
  "validate_initialized_marker v =
     (if v = Some [1] then Inr ()
      else Inl (InvalidKey ''missing or invalid conflict watermarks initialized marker''))"

definition decode_conflict_watermarks ::
    "bytes option \<Rightarrow> bytes option \<Rightarrow> bytes option \<Rightarrow> conflict_watermark_values catalog_result" where
  "decode_conflict_watermarks marker catalog_value file_value =
     rbind (validate_initialized_marker marker) (\<lambda>_.
     rbind (watermark_decode_optional_u64 catalog_value) (\<lambda>c.
     rbind (watermark_decode_optional_u64 file_value) (\<lambda>f.
       Inr \<lparr>cw_max_catalog_id = c, cw_max_file_id = f\<rparr>)))"

definition load_conflict_watermarks :: "fake_kv \<Rightarrow> catalog_id \<Rightarrow> conflict_watermark_values catalog_result" where
  "load_conflict_watermarks kv catalog =
     decode_conflict_watermarks (fake_get kv (conflict_watermarks_initialized_key catalog))
       (fake_get kv (conflict_max_catalog_id_key catalog)) (fake_get kv (conflict_max_file_id_key catalog))"

definition stage_max_u64 :: "fake_kv \<Rightarrow> kv_batch \<Rightarrow> bytes \<Rightarrow> u64 \<Rightarrow> kv_batch catalog_result" where
  "stage_max_u64 kv b key candidate =
     rbind (load_u64 kv key) (\<lambda>cur.
       batch_put_max_u64 b key (case cur of None \<Rightarrow> candidate | Some c \<Rightarrow> max c candidate))"

definition stage_max_catalog_id_watermark ::
    "fake_kv \<Rightarrow> kv_batch \<Rightarrow> catalog_id \<Rightarrow> u64 \<Rightarrow> kv_batch catalog_result" where
  "stage_max_catalog_id_watermark kv b catalog candidate =
     stage_max_u64 kv b (conflict_max_catalog_id_key catalog) candidate"

definition stage_max_file_id_watermark ::
    "fake_kv \<Rightarrow> kv_batch \<Rightarrow> catalog_id \<Rightarrow> u64 \<Rightarrow> kv_batch catalog_result" where
  "stage_max_file_id_watermark kv b catalog candidate =
     stage_max_u64 kv b (conflict_max_file_id_key catalog) candidate"

definition load_table_next_row_id :: "fake_kv \<Rightarrow> catalog_id \<Rightarrow> table_id \<Rightarrow> u64 catalog_result" where
  "load_table_next_row_id kv catalog table_id =
     rbind (load_u64 kv (table_next_row_id_key catalog table_id)) (\<lambda>v.
       Inr (case v of None \<Rightarrow> 0 | Some n \<Rightarrow> n))"

definition decode_table_next_row_id :: "bytes option \<Rightarrow> u64 catalog_result" where
  "decode_table_next_row_id v =
     rbind (watermark_decode_optional_u64 v) (\<lambda>r. Inr (case r of None \<Rightarrow> 0 | Some n \<Rightarrow> n))"

definition stage_table_next_row_id ::
    "fake_kv \<Rightarrow> kv_batch \<Rightarrow> catalog_id \<Rightarrow> table_id \<Rightarrow> u64 \<Rightarrow> kv_batch catalog_result" where
  "stage_table_next_row_id kv b catalog table_id candidate =
     stage_max_u64 kv b (table_next_row_id_key catalog table_id) candidate"

section \<open>What staging a maximum does\<close>

text \<open>A \<open>u64\<close> cell of a map of items: absent or eight bytes.\<close>

definition cell_ok :: "bytes option \<Rightarrow> bool" where
  "cell_ok v \<longleftrightarrow> (case v of None \<Rightarrow> True | Some bs \<Rightarrow> length bs = 8)"

definition cell_value :: "bytes option \<Rightarrow> u64 option" where
  "cell_value v = map_option u64_from_be_bytes v"

lemma load_u64_ok: "cell_ok (fake_get kv key) \<Longrightarrow> load_u64 kv key = Inr (cell_value (fake_get kv key))"
  by (auto simp: load_u64_def cell_ok_def cell_value_def watermark_decode_u64_def be_u64_def
      split: option.splits)

lemma load_u64_no_panic [simp]: "\<not> is_panic (load_u64 kv key)"
  by (cases "fake_get kv key")
     (auto simp: load_u64_def watermark_decode_u64_def be_u64_def)

text \<open>A batch stages at most one write for the key, with eight bytes.\<close>

definition staged_once :: "kv_batch \<Rightarrow> bytes \<Rightarrow> bool" where
  "staged_once b key \<longleftrightarrow> length (filter (\<lambda>w. fst w = key) (writes b)) \<le> 1 \<and>
     (\<forall>w \<in> set (filter (\<lambda>w. fst w = key) (writes b)). length (snd w) = 8)"

lemma staged_once_new [simp]: "staged_once batch_new key"
  by (simp add: staged_once_def)

lemma staged_once_put_other [simp]: "k \<noteq> key \<Longrightarrow> staged_once (batch_put b k v) key = staged_once b key"
  by (auto simp: staged_once_def)

lemma staged_once_delete [simp]: "staged_once (batch_delete b k) key = staged_once b key"
  "staged_once (b\<lparr>deletes := ds\<rparr>) key = staged_once b key"
  by (simp_all add: staged_once_def)

lemma map_of_filter_key: "map_of (filter (\<lambda>w. fst w = k) ws) k = map_of ws k"
  by (induction ws) auto

text \<open>The value the commit sees for the key: the staged write raised to the candidate.\<close>

definition raised :: "kv_batch \<Rightarrow> bytes \<Rightarrow> u64 \<Rightarrow> u64" where
  "raised b key v = (case map_of (rev (writes b)) key of None \<Rightarrow> v | Some x \<Rightarrow> max (u64_from_be_bytes x) v)"

lemma raise_staged_u64_absent: "key \<notin> fst ` set ws \<Longrightarrow> raise_staged_u64 ws key v = Inr None"
  by (induction ws) auto

lemma raise_staged_u64_present:
  assumes "length (filter (\<lambda>w. fst w = key) ws) \<le> 1" "\<forall>w \<in> set ws. fst w = key \<longrightarrow> length (snd w) = 8"
    "map_of ws key = Some x"
  shows "\<exists>ws'. raise_staged_u64 ws key v = Inr (Some ws') \<and>
    filter (\<lambda>w. fst w = key) ws' = [(key, u64_to_be_bytes (max (u64_from_be_bytes x) v))] \<and>
    (\<forall>k. k \<noteq> key \<longrightarrow> filter (\<lambda>w. fst w = k) ws' = filter (\<lambda>w. fst w = k) ws)"
  using assms
proof (induction ws)
  case (Cons w ws)
  show ?case
  proof (cases "fst w = key")
    case True
    with Cons.prems have "filter (\<lambda>w. fst w = key) ws = []" "snd w = x" "length x = 8" by (cases w; auto)+
    with True show ?thesis by (cases w) (auto simp: be_u64_def)
  next
    case False
    with Cons.prems have "map_of ws key = Some x" by (cases w) simp
    with False Cons obtain ws' where ws': "raise_staged_u64 ws key v = Inr (Some ws')"
      "filter (\<lambda>w. fst w = key) ws' = [(key, u64_to_be_bytes (max (u64_from_be_bytes x) v))]"
      "\<forall>k. k \<noteq> key \<longrightarrow> filter (\<lambda>w. fst w = k) ws' = filter (\<lambda>w. fst w = k) ws" by auto
    from False ws' show ?thesis by (intro exI [of _ "w # ws'"]) auto
  qed
qed simp

lemma staged_once_lookup:
  "staged_once b key \<Longrightarrow> map_of (rev (writes b)) key = map_of (writes b) key"
proof -
  assume "staged_once b key"
  then have "length (filter (\<lambda>w. fst w = key) (writes b)) \<le> 1" by (simp add: staged_once_def)
  then have "rev (filter (\<lambda>w. fst w = key) (writes b)) = filter (\<lambda>w. fst w = key) (writes b)"
    by (cases "filter (\<lambda>w. fst w = key) (writes b)") (auto simp: le_Suc_eq)
  then show ?thesis by (metis map_of_filter_key rev_filter)
qed

lemma batch_put_max_u64_staged:
  assumes "staged_once b key"
  shows "\<exists>b'. batch_put_max_u64 b key v = Inr b' \<and> (\<forall>k. staged_once b k \<longrightarrow> staged_once b' k) \<and>
    deletes b' = deletes b \<and> checks b' = checks b \<and> fence_writes b' = fence_writes b \<and>
    (\<forall>m. apply_batch b' m = (apply_batch b m)(key \<mapsto> u64_to_be_bytes (raised b key v)))"
proof (cases "map_of (writes b) key")
  case None
  then have "batch_put_max_u64 b key v = Inr (batch_put b key (u64_to_be_bytes v))"
    by (simp add: batch_put_max_u64_def raise_staged_u64_absent map_of_eq_None_iff)
  moreover have "staged_once (batch_put b key (u64_to_be_bytes v)) k" if "staged_once b k" for k
    using that None by (cases "k = key") (auto simp: staged_once_def map_of_eq_None_iff filter_empty_conv)
  moreover have "raised b key v = v" using None staged_once_lookup [OF assms] by (simp add: raised_def)
  ultimately show ?thesis by auto
next
  case (Some x)
  have "length (filter (\<lambda>w. fst w = key) (writes b)) \<le> 1"
    "\<forall>w \<in> set (writes b). fst w = key \<longrightarrow> length (snd w) = 8" using assms unfolding staged_once_def by auto
  from raise_staged_u64_present [OF this Some, of v] obtain ws' where
    ws': "raise_staged_u64 (writes b) key v = Inr (Some ws')"
    "filter (\<lambda>w. fst w = key) ws' = [(key, u64_to_be_bytes (max (u64_from_be_bytes x) v))]"
    "\<And>k. k \<noteq> key \<Longrightarrow> filter (\<lambda>w. fst w = k) ws' = filter (\<lambda>w. fst w = k) (writes b)"
    by blast
  let ?b = "b\<lparr>writes := ws'\<rparr>"
  have "batch_put_max_u64 b key v = Inr ?b" by (simp add: batch_put_max_u64_def ws'(1))
  moreover have "staged_once ?b k" if "staged_once b k" for k
    using that ws'(2,3) by (cases "k = key") (simp_all add: staged_once_def)
  moreover have "apply_batch ?b m = (apply_batch b m)(key \<mapsto> u64_to_be_bytes (raised b key v))" for m
  proof
    fix k
    have r: "map_of (rev ws) k = map_of (rev (filter (\<lambda>w. fst w = k) ws)) k" for ws :: "(bytes \<times> bytes) list"
      by (metis map_of_filter_key rev_filter)
    have new: "raised b key v = max (u64_from_be_bytes x) v"
      using Some staged_once_lookup [OF assms] by (simp add: raised_def)
    show "apply_batch ?b m k = ((apply_batch b m)(key \<mapsto> u64_to_be_bytes (raised b key v))) k"
    proof (cases "k = key")
      case True
      then have "map_of (rev ws') k = Some (u64_to_be_bytes (raised b key v))"
        using r [of ws'] ws'(2) by (simp add: new)
      with True show ?thesis by (simp add: apply_batch_apply)
    next
      case False
      then have "map_of (rev ws') k = map_of (rev (writes b)) k"
        using r [of ws'] r [of "writes b"] ws'(3) by simp
      with False show ?thesis by (simp add: apply_batch_apply)
    qed
  qed
  ultimately show ?thesis by (intro exI [of _ ?b]) simp
qed

text \<open>Staging the maximum of the stored cell and a candidate.\<close>

definition cell_max :: "bytes option \<Rightarrow> u64 \<Rightarrow> u64" where
  "cell_max cell v = (case cell_value cell of None \<Rightarrow> v | Some n \<Rightarrow> max n v)"

lemma stage_max_u64_staged:
  assumes "cell_ok (fake_get kv key)" "staged_once b key"
  shows "\<exists>b'. stage_max_u64 kv b key v = Inr b' \<and> (\<forall>k. staged_once b k \<longrightarrow> staged_once b' k) \<and>
    deletes b' = deletes b \<and> checks b' = checks b \<and> fence_writes b' = fence_writes b \<and>
    (\<forall>m. apply_batch b' m =
       (apply_batch b m)(key \<mapsto> u64_to_be_bytes (raised b key (cell_max (fake_get kv key) v))))"
  using batch_put_max_u64_staged [OF assms(2), of "cell_max (fake_get kv key) v"]
  by (simp add: stage_max_u64_def load_u64_ok [OF assms(1)] cell_max_def)

lemma raised_ge: "v \<le> raised b key v" "map_of (rev (writes b)) key = Some x \<Longrightarrow> u64_from_be_bytes x \<le> raised b key v"
  by (auto simp: raised_def split: option.split)

lemma cell_max_ge: "v \<le> cell_max cell v" "cell_value cell = Some old \<Longrightarrow> old \<le> cell_max cell v"
  by (auto simp: cell_max_def split: option.split)

section \<open>Properties\<close>

text \<open>C27: A watermark never falls. Staging a candidate on a batch and committing leaves in the cell the largest
  of the stored value, the values staged before in the batch, and the candidate; no other key changes with
  respect to committing the batch without the candidate.\<close>
theorem watermark_never_falls:
  assumes "cell_ok (fake_get kv key)" "staged_once b key" "checks b = []"
  shows "\<exists>b' kv' w. stage_max_u64 kv b key v = Inr b' \<and> fake_commit kv b' = Inr kv' \<and>
    fake_get kv' = (apply_batch b (fake_get kv))(key \<mapsto> u64_to_be_bytes w) \<and>
    v \<le> w \<and> (\<forall>old. cell_value (fake_get kv key) = Some old \<longrightarrow> old \<le> w) \<and>
    (\<forall>x. map_of (rev (writes b)) key = Some x \<longrightarrow> u64_from_be_bytes x \<le> w)"
proof -
  let ?w = "raised b key (cell_max (fake_get kv key) v)"
  from stage_max_u64_staged [OF assms(1,2), of v] obtain b' where
    b': "stage_max_u64 kv b key v = Inr b'" "checks b' = checks b"
    "apply_batch b' (fake_get kv) = (apply_batch b (fake_get kv))(key \<mapsto> u64_to_be_bytes ?w)" by blast
  obtain kv' where "fake_commit kv b' = Inr kv'" "fake_get kv' = apply_batch b' (fake_get kv)"
    using fake_commit_unchecked [of b' kv] b'(2) assms(3) by metis
  with b' show ?thesis
    using raised_ge [where b = b and key = key and v = "cell_max (fake_get kv key) v"]
      cell_max_ge [where cell = "fake_get kv key" and v = v]
    by (intro exI [of _ b'] exI [of _ kv'] exI [of _ ?w]) (auto intro: order_trans)
qed

theorem watermark_never_falls_witness:
  "\<exists>b' kv' w. stage_max_u64 (fake_new\<lparr>items := [([9], u64_to_be_bytes 5)]\<rparr>) batch_new [9] 3 = Inr b' \<and>
     fake_commit (fake_new\<lparr>items := [([9], u64_to_be_bytes 5)]\<rparr>) b' = Inr kv' \<and>
     fake_get kv' [9] = Some (u64_to_be_bytes w) \<and> 5 \<le> w"
proof -
  have "cell_ok (fake_get (fake_new\<lparr>items := [([9], u64_to_be_bytes 5)]\<rparr>) [9])"
    by (simp add: cell_ok_def fake_get_def)
  moreover have "cell_value (fake_get (fake_new\<lparr>items := [([9], u64_to_be_bytes 5)]\<rparr>) [9]) = Some 5"
    by (simp add: cell_value_def fake_get_def)
  ultimately show ?thesis
    using watermark_never_falls [of "fake_new\<lparr>items := [([9], u64_to_be_bytes 5)]\<rparr>" "[9]" batch_new 3]
    by (auto simp: staged_once_def)
qed

end
