(* ===== verification/Cat_Store.thy ===== *)
theory Cat_Store
  imports Cat_Watermarks
begin

text \<open>
  The snapshot store (\<open>store.rs\<close>, with \<open>fetch_latest_snapshot\<close> of \<open>catalog_request_read_set.rs\<close>):
  a snapshot is stored under its order, under its timestamp and order, under its raw sequence, and as
  the latest one. Expiring a snapshot removes the timestamp entry alone. The abstract state is the
  pair of the history of all snapshots and the list of the live ones; \<open>snapshots_are\<close> says that a
  store represents such a pair, and the lemmas show that the operations act on it as intended.
  The clock reading is the argument \<open>now\<close>. The model is the configuration without a read context,
  in which no latest-snapshot or snapshot-list cache is consulted.
\<close>

section \<open>Operations\<close>

definition latest_snapshot_value :: "snapshot_row \<Rightarrow> bytes" where
  "latest_snapshot_value r =
     [1] @ [case order_kind (sn_order r) of UuidV7 \<Rightarrow> 117 | FdbVersionstamp \<Rightarrow> 102] @
     snapshot_row_encode r"

definition stage_snapshot :: "kv_batch \<Rightarrow> catalog_id \<Rightarrow> snapshot_row \<Rightarrow> kv_batch" where
  "stage_snapshot b catalog r =
     (let b1 = batch_put b (snapshot_key catalog (sn_order r)) (snapshot_row_encode r);
          b2 = batch_put b1 (snapshot_timestamp_key catalog (sn_created_at_micros r) (sn_order r))
                 (snapshot_row_encode r);
          b3 = batch_put b2 (latest_snapshot_row_key catalog) (latest_snapshot_value r)
      in batch_put b3 (raw_snapshot_row_key catalog (sn_sequence r)) (latest_snapshot_value r))"

definition decode_latest_snapshot_value :: "bytes \<Rightarrow> snapshot_row catalog_result" where
  "decode_latest_snapshot_value v =
     (if length v < 2 \<or> v ! 0 \<noteq> 1 then Inl (Decode ''latest snapshot row has invalid version'')
      else rbind (byte_at v 1) (\<lambda>k.
        rbind (if k = 117 then Inr UuidV7 else if k = 102 then Inr FdbVersionstamp
               else Inl (Decode ''latest snapshot row has unknown order kind'')) (\<lambda>kind.
        rbind (slice_from v 2) (\<lambda>rb.
        rbind (snapshot_row_decode rb) (\<lambda>r.
          Inr (r\<lparr>sn_order := order_from_bytes kind (order_as_bytes (sn_order r))\<rparr>))))))"

definition snapshot_order_from_key ::
    "catalog_id \<Rightarrow> bytes \<Rightarrow> catalog_order_id \<Rightarrow> catalog_order_id catalog_result" where
  "snapshot_order_from_key catalog key value_order =
     (case strip_prefix (snapshot_prefix catalog) key of
        None \<Rightarrow> Inl (InvalidKey ''snapshot key has wrong prefix'')
      | Some tail \<Rightarrow>
          if length tail \<noteq> 16 then Inl (InvalidKey ''snapshot key order must be 16 bytes'')
          else Inr (order_from_bytes
                 (if order_as_bytes value_order = tail then order_kind value_order else FdbVersionstamp)
                 tail))"

definition decode_snapshot_item :: "catalog_id \<Rightarrow> bytes \<Rightarrow> bytes \<Rightarrow> snapshot_row catalog_result" where
  "decode_snapshot_item catalog key val =
     rbind (snapshot_row_decode val) (\<lambda>r.
     rbind (snapshot_order_from_key catalog key (sn_order r)) (\<lambda>ord.
       Inr (r\<lparr>sn_order := ord\<rparr>)))"

definition decode_timestamp_snapshot :: "catalog_id \<Rightarrow> range_item \<Rightarrow> snapshot_row catalog_result" where
  "decode_timestamp_snapshot catalog item =
     rbind (decode_snapshot_timestamp_key catalog (ri_key item)) (\<lambda>(created, ord).
     rbind (decode_snapshot_item catalog (snapshot_key catalog ord) (ri_value item)) (\<lambda>r.
       if sn_created_at_micros r \<noteq> created
       then Inl (Decode ''snapshot timestamp index does not match its row'')
       else Inr r))"

definition fetch_snapshot_row ::
    "fake_kv \<Rightarrow> catalog_id \<Rightarrow> bytes option \<Rightarrow> snapshot_row option catalog_result" where
  "fetch_snapshot_row kv catalog val =
     (case val of
        Some v \<Rightarrow> rbind (decode_latest_snapshot_value v) (\<lambda>r. Inr (Some r))
      | None \<Rightarrow>
          rbind (fake_scan_prefix kv (snapshot_prefix catalog) Reverse (Some 1)) (\<lambda>page.
            case page of
              [] \<Rightarrow> Inr None
            | i # _ \<Rightarrow> rbind (decode_snapshot_item catalog (ri_key i) (ri_value i)) (\<lambda>r. Inr (Some r))))"

definition fetch_latest_snapshot :: "fake_kv \<Rightarrow> catalog_id \<Rightarrow> snapshot_row option catalog_result" where
  "fetch_latest_snapshot kv catalog =
     fetch_snapshot_row kv catalog (fake_get kv (latest_snapshot_row_key catalog))"

definition latest_snapshot :: "fake_kv \<Rightarrow> catalog_id \<Rightarrow> snapshot_row option catalog_result" where
  "latest_snapshot kv catalog = fetch_latest_snapshot kv catalog"

definition initialize_empty_catalog :: "fake_kv \<Rightarrow> catalog_id \<Rightarrow> i64 \<Rightarrow> snapshot_row kv_op" where
  "initialize_empty_catalog kv catalog now =
     (let (ord, kv1) = fake_generated_order_id kv;
          r = snapshot_row_initial now ord;
          b = stage_snapshot batch_new catalog r;
          b1 = stage_conflict_watermarks_initialized b catalog
      in commit_then kv1 b1 r)"

definition initialize_catalog_if_absent :: "fake_kv \<Rightarrow> catalog_id \<Rightarrow> i64 \<Rightarrow> snapshot_row kv_op" where
  "initialize_catalog_if_absent kv catalog now =
     attempt kv (latest_snapshot kv catalog) (\<lambda>l.
       case l of Some r \<Rightarrow> (Inr r, kv) | None \<Rightarrow> initialize_empty_catalog kv catalog now)"

text \<open>\<open>sort_by_key\<close> is stable and compares the order bytes.\<close>

definition list_snapshots :: "fake_kv \<Rightarrow> catalog_id \<Rightarrow> snapshot_row list catalog_result" where
  "list_snapshots kv catalog =
     rbind (fake_scan_prefix kv (snapshot_timestamp_prefix catalog) Forward None) (\<lambda>page.
     rbind (rmap (decode_timestamp_snapshot catalog) page) (\<lambda>rows.
       Inr (sort_key (\<lambda>r. order_as_bytes (sn_order r)) rows)))"

definition list_all_snapshots :: "fake_kv \<Rightarrow> catalog_id \<Rightarrow> snapshot_row list catalog_result" where
  "list_all_snapshots kv catalog =
     rbind (fake_scan_prefix kv (snapshot_prefix catalog) Forward None) (\<lambda>page.
       rmap (\<lambda>i. decode_snapshot_item catalog (ri_key i) (ri_value i)) page)"

fun older_than_loop :: "catalog_id \<Rightarrow> i64 \<Rightarrow> range_item list \<Rightarrow> snapshot_row list catalog_result" where
  "older_than_loop catalog older_than [] = Inr []"
| "older_than_loop catalog older_than (i # is) =
     rbind (decode_snapshot_timestamp_key catalog (ri_key i)) (\<lambda>(created, _).
       if sint created \<ge> sint older_than then Inr []
       else rbind (decode_timestamp_snapshot catalog i) (\<lambda>r.
         rbind (older_than_loop catalog older_than is) (\<lambda>rs. Inr (r # rs))))"

definition list_snapshots_older_than ::
    "fake_kv \<Rightarrow> catalog_id \<Rightarrow> i64 \<Rightarrow> snapshot_row list catalog_result" where
  "list_snapshots_older_than kv catalog older_than =
     rbind (fake_scan_prefix kv (snapshot_timestamp_prefix catalog) Forward None)
       (older_than_loop catalog older_than)"

datatype snapshot_timestamp_bound = Lower | Upper

fun by_timestamp_loop ::
    "catalog_id \<Rightarrow> i64 \<Rightarrow> snapshot_timestamp_bound \<Rightarrow> range_item list \<Rightarrow> snapshot_row option \<Rightarrow>
     snapshot_row option catalog_result" where
  "by_timestamp_loop catalog t bound [] selected = Inr selected"
| "by_timestamp_loop catalog t bound (i # is) selected =
     rbind (decode_snapshot_timestamp_key catalog (ri_key i)) (\<lambda>(created, _).
       case bound of
         Lower \<Rightarrow>
           if sint created < sint t then by_timestamp_loop catalog t bound is selected
           else rbind (decode_timestamp_snapshot catalog i) (\<lambda>r. Inr (Some r))
       | Upper \<Rightarrow>
           if sint created > sint t then Inr selected
           else rbind (decode_timestamp_snapshot catalog i) (\<lambda>r.
             by_timestamp_loop catalog t bound is (Some r)))"

definition snapshot_by_timestamp ::
    "fake_kv \<Rightarrow> catalog_id \<Rightarrow> i64 \<Rightarrow> snapshot_timestamp_bound \<Rightarrow> snapshot_row option catalog_result" where
  "snapshot_by_timestamp kv catalog t bound =
     rbind (fake_scan_prefix kv (snapshot_timestamp_prefix catalog) Forward None) (\<lambda>page.
       by_timestamp_loop catalog t bound page None)"

definition snapshot_by_raw_sequence ::
    "fake_kv \<Rightarrow> catalog_id \<Rightarrow> raw_snapshot_sequence \<Rightarrow> snapshot_row option catalog_result" where
  "snapshot_by_raw_sequence kv catalog seq =
     rtranspose decode_latest_snapshot_value (fake_get kv (raw_snapshot_row_key catalog seq))"

definition stage_delete_snapshot :: "kv_batch \<Rightarrow> catalog_id \<Rightarrow> snapshot_row \<Rightarrow> kv_batch" where
  "stage_delete_snapshot b catalog r =
     batch_delete b (snapshot_timestamp_key catalog (sn_created_at_micros r) (sn_order r))"

text \<open>\<open>map.entry(sequence).or_default().push(snapshot)\<close>.\<close>

definition push_group :: "'k::linorder \<Rightarrow> 'a \<Rightarrow> ('k \<times> 'a list) list \<Rightarrow> ('k \<times> 'a list) list" where
  "push_group k x m = btree_insert k ((case map_of m k of None \<Rightarrow> [] | Some xs \<Rightarrow> xs) @ [x]) m"

fun expire_loop ::
    "catalog_id \<Rightarrow> raw_snapshot_sequence \<Rightarrow> (raw_snapshot_sequence \<times> snapshot_row list) list \<Rightarrow>
     raw_snapshot_sequence list \<Rightarrow> kv_batch \<times> snapshot_row list \<Rightarrow>
     (kv_batch \<times> snapshot_row list) catalog_result" where
  "expire_loop catalog latest groups [] acc = Inr acc"
| "expire_loop catalog latest groups (s # ss) (b, expired) =
     (if s = latest then Inl (InvalidMutation ''cannot expire latest snapshot'')
      else case map_of groups s of
        None \<Rightarrow> expire_loop catalog latest groups ss (b, expired)
      | Some rows \<Rightarrow>
          expire_loop catalog latest groups ss
            (fold (\<lambda>r b. stage_delete_snapshot b catalog r) rows b, expired @ rows))"

definition expire_snapshots ::
    "fake_kv \<Rightarrow> catalog_id \<Rightarrow> raw_snapshot_sequence list \<Rightarrow> snapshot_row list kv_op" where
  "expire_snapshots kv catalog seqs =
     (if seqs = [] then (Inr [], kv)
      else attempt kv (latest_snapshot kv catalog) (\<lambda>l.
        case l of
          None \<Rightarrow> (Inl (NotFound ''snapshot''), kv)
        | Some latest \<Rightarrow>
            attempt kv (list_snapshots kv catalog) (\<lambda>snapshots.
            attempt kv (expire_loop catalog (sn_sequence latest)
                (fold (\<lambda>r. push_group (sn_sequence r) r) snapshots []) seqs (batch_new, []))
              (\<lambda>(b, expired). commit_then kv b expired))))"

definition snapshot_row_for_next_sequence ::
    "i64 \<Rightarrow> snapshot_row option \<Rightarrow> catalog_order_id \<Rightarrow> snapshot_row" where
  "snapshot_row_for_next_sequence now latest ord =
     snapshot_row_new now ord
       (case latest of None \<Rightarrow> raw_sequence_initial | Some r \<Rightarrow> raw_sequence_next (sn_sequence r))"

section \<open>Decoding what was stored\<close>

definition stored_snapshot_ok :: "snapshot_row \<Rightarrow> bool" where
  "stored_snapshot_ok r \<longleftrightarrow> snapshot_row_ok r \<and> order_kind (sn_order r) = UuidV7"

lemma stored_snapshot_decode:
  "stored_snapshot_ok r \<Longrightarrow> snapshot_row_decode (snapshot_row_encode r) = Inr r"
  by (cases "sn_order r")
     (auto simp: stored_snapshot_ok_def snapshot_row_roundtrip uuid_v7_def)

lemma decode_latest_snapshot_value_value:
  "snapshot_row_ok r \<Longrightarrow> decode_latest_snapshot_value (latest_snapshot_value r) = Inr r"
  by (cases "order_kind (sn_order r)"; cases "sn_order r")
     (simp_all add: decode_latest_snapshot_value_def latest_snapshot_value_def byte_at_def
       slice_from_def slice_def snapshot_row_roundtrip order_as_bytes_def order_from_bytes_def uuid_v7_def)

lemma decode_snapshot_item_stored:
  "stored_snapshot_ok r \<Longrightarrow>
   decode_snapshot_item c (snapshot_key c (sn_order r)) (snapshot_row_encode r) = Inr r"
  by (simp add: decode_snapshot_item_def stored_snapshot_decode snapshot_order_from_key_def
      snapshot_key_def snapshot_prefix_def)

lemma snapshot_key_order_arr: "snapshot_key c (uuid_v7 (order_arr ord)) = snapshot_key c ord"
  by (simp add: snapshot_key_def order_as_bytes_def uuid_v7_def)

lemma decode_timestamp_snapshot_stored:
  "stored_snapshot_ok r \<Longrightarrow>
   decode_timestamp_snapshot c (to_item
     (snapshot_timestamp_key c (sn_created_at_micros r) (sn_order r), snapshot_row_encode r)) = Inr r"
  by (simp add: decode_timestamp_snapshot_def to_item_def decode_snapshot_timestamp_key_key
      snapshot_key_order_arr decode_snapshot_item_stored)


section \<open>The abstract snapshot history\<close>

abbreviation snapshot_entry :: "catalog_id \<Rightarrow> snapshot_row \<Rightarrow> bytes \<times> bytes" where
  "snapshot_entry c r \<equiv> (snapshot_key c (sn_order r), snapshot_row_encode r)"

abbreviation time_entry :: "catalog_id \<Rightarrow> snapshot_row \<Rightarrow> bytes \<times> bytes" where
  "time_entry c r \<equiv>
     (snapshot_timestamp_key c (sn_created_at_micros r) (sn_order r), snapshot_row_encode r)"

definition snapshot_before :: "snapshot_row \<Rightarrow> snapshot_row \<Rightarrow> bool" where
  "snapshot_before a b \<longleftrightarrow> sn_order a < sn_order b \<and> sn_sequence a < sn_sequence b"

definition snapshots_are ::
    "(bytes \<rightharpoonup> bytes) \<Rightarrow> catalog_id \<Rightarrow> snapshot_row list \<Rightarrow> snapshot_row list \<Rightarrow> bool" where
  "snapshots_are m c H L \<longleftrightarrow>
     sorted_wrt snapshot_before H \<and> filter (\<lambda>r. r \<in> set L) H = L \<and> (\<forall>r \<in> set H. stored_snapshot_ok r) \<and>
     (\<forall>k v. prefix (snapshot_prefix c) k \<longrightarrow> (m k = Some v \<longleftrightarrow> (k, v) \<in> snapshot_entry c ` set H)) \<and>
     (\<forall>k v. prefix (snapshot_timestamp_prefix c) k \<longrightarrow> (m k = Some v \<longleftrightarrow> (k, v) \<in> time_entry c ` set L)) \<and>
     m (latest_snapshot_row_key c) = (if H = [] then None else Some (latest_snapshot_value (last H))) \<and>
     (\<forall>s. m (raw_snapshot_row_key c s) = map_option latest_snapshot_value (find (\<lambda>r. sn_sequence r = s) H))"

lemma snapshots_areD:
  assumes "snapshots_are m c H L"
  shows "sorted_wrt snapshot_before H" "filter (\<lambda>r. r \<in> set L) H = L" "set L \<subseteq> set H"
    "\<And>r. r \<in> set H \<Longrightarrow> stored_snapshot_ok r" "\<And>r. r \<in> set L \<Longrightarrow> stored_snapshot_ok r"
    "\<And>k v. prefix (snapshot_prefix c) k \<Longrightarrow> m k = Some v \<longleftrightarrow> (k, v) \<in> snapshot_entry c ` set H"
    "\<And>k v. prefix (snapshot_timestamp_prefix c) k \<Longrightarrow> m k = Some v \<longleftrightarrow> (k, v) \<in> time_entry c ` set L"
    "m (latest_snapshot_row_key c) = (if H = [] then None else Some (latest_snapshot_value (last H)))"
    "\<And>s. m (raw_snapshot_row_key c s) = map_option latest_snapshot_value (find (\<lambda>r. sn_sequence r = s) H)"
proof -
  show "set L \<subseteq> set H" using assms unfolding snapshots_are_def by (metis filter_is_subset)
  then show "\<And>r. r \<in> set L \<Longrightarrow> stored_snapshot_ok r" using assms by (auto simp: snapshots_are_def)
qed (use assms in \<open>auto simp: snapshots_are_def\<close>)

text \<open>The representation only depends on the snapshot keys of the catalog.\<close>

definition snapshot_space :: "catalog_id \<Rightarrow> bytes set" where
  "snapshot_space c = {k. prefix (snapshot_prefix c) k} \<union> {k. prefix (snapshot_timestamp_prefix c) k} \<union>
     {latest_snapshot_row_key c} \<union> range (raw_snapshot_row_key c)"

lemma snapshots_are_local:
  "snapshots_are m c H L \<Longrightarrow> (\<And>k. k \<in> snapshot_space c \<Longrightarrow> m' k = m k) \<Longrightarrow> snapshots_are m' c H L"
  unfolding snapshots_are_def snapshot_space_def by simp

lemma snapshots_are_empty: "snapshots_are Map.empty c [] []"
  by (simp add: snapshots_are_def)

lemma snapshot_before_trans: "transp snapshot_before"
  by (auto simp: transp_def snapshot_before_def order_less_iff)

lemma snapshot_before_irrefl: "\<not> snapshot_before r r"
  by (simp add: snapshot_before_def)

lemma history_distinct:
  assumes "sorted_wrt snapshot_before H"
  shows "distinct H" "inj_on sn_order (set H)" "inj_on sn_sequence (set H)"
    "inj_on (\<lambda>r. order_as_bytes (sn_order r)) (set H)"
proof -
  have *: "sn_order a \<noteq> sn_order b \<and> sn_sequence a \<noteq> sn_sequence b \<and>
      order_as_bytes (sn_order a) \<noteq> order_as_bytes (sn_order b)" if "snapshot_before a b" for a b
    using that by (auto simp: snapshot_before_def order_less_bytes)
  from assms have "sorted_wrt (\<noteq>) (map f H) \<and> distinct (map f H)"
    if "\<And>a b. snapshot_before a b \<Longrightarrow> f a \<noteq> f b" for f :: "snapshot_row \<Rightarrow> 'z"
    using that by (induction H) auto
  note this [of sn_order] this [of sn_sequence] this [of "\<lambda>r. order_as_bytes (sn_order r)"]
  with * show "distinct H" "inj_on sn_order (set H)" "inj_on sn_sequence (set H)"
    "inj_on (\<lambda>r. order_as_bytes (sn_order r)) (set H)"
    by (simp_all add: distinct_map)
qed

lemma snapshot_entries_wf:
  "sorted_wrt snapshot_before H \<Longrightarrow> btree_wf (map (snapshot_entry c) H)"
  by (simp add: btree_wf_def sorted_wrt_map comp_def)
     (erule sorted_wrt_mono_rel [rotated],
      simp add: snapshot_before_def snapshot_key_def order_less_bytes)

lemma scan_snapshots:
  assumes "fake_wf kv" "snapshots_are (fake_get kv) c H L"
  shows "fake_scan_prefix kv (snapshot_prefix c) d lim =
    Inr (limit_take lim (directed d (map (\<lambda>r. to_item (snapshot_entry c r)) H)))"
proof -
  note D = snapshots_areD [OF assms(2)]
  have "fake_scan_prefix kv (snapshot_prefix c) d lim =
      Inr (limit_take lim (directed d (map to_item (map (snapshot_entry c) H))))"
    by (rule fake_scan_prefix_described [OF assms(1), of _ "catalog_prefix c @ [family_code Snapshot]" slash])
       (use D(6) snapshot_entries_wf [OF D(1)] in \<open>simp_all add: snapshot_prefix_def family_prefix_def snapshot_key_def\<close>)
  then show ?thesis by (simp add: comp_def)
qed

text \<open>The timestamp index lists the live snapshots by creation time and then by order.\<close>

definition time_key :: "snapshot_row \<Rightarrow> bytes" where
  "time_key r = sortable_i64 (sn_created_at_micros r) @ [slash] @ order_as_bytes (sn_order r)"

definition by_time :: "snapshot_row list \<Rightarrow> snapshot_row list" where
  "by_time L = sort_key time_key L"

lemma set_by_time [simp]: "set (by_time L) = set L"
  by (simp add: by_time_def)

lemma snapshot_timestamp_key_time_key:
  "snapshot_timestamp_key c (sn_created_at_micros r) (sn_order r) = snapshot_timestamp_prefix c @ time_key r"
  by (simp add: snapshot_timestamp_key_def snapshot_timestamp_prefix_def time_key_def)

lemma time_key_inj: "inj_on (\<lambda>r. order_as_bytes (sn_order r)) A \<Longrightarrow> inj_on time_key A"
  by (auto simp: inj_on_def time_key_def)

lemma by_time_sorted: "sorted_wrt (\<lambda>a b. sint (sn_created_at_micros a) \<le> sint (sn_created_at_micros b)) (by_time L)"
proof -
  have *: "sint (sn_created_at_micros a) \<le> sint (sn_created_at_micros b)" if "time_key a \<le> time_key b" for a b
  proof (rule ccontr)
    assume "\<not> ?thesis"
    then have "sortable_i64 (sn_created_at_micros b) < sortable_i64 (sn_created_at_micros a)"
      by (simp add: sortable_i64_less_iff)
    with that show False by (auto simp: time_key_def less_append_eq_length linorder_not_less [symmetric])
  qed
  have "sorted (map time_key (by_time L))" by (simp add: by_time_def)
  then show ?thesis by (auto simp: sorted_map intro: sorted_wrt_mono_rel [rotated] *)
qed

lemma scan_timestamps:
  assumes "fake_wf kv" "snapshots_are (fake_get kv) c H L"
  shows "fake_scan_prefix kv (snapshot_timestamp_prefix c) Forward None =
    Inr (map (\<lambda>r. to_item (time_entry c r)) (by_time L))"
proof -
  note D = snapshots_areD [OF assms(2)]
  have dist: "distinct L" "inj_on time_key (set L)"
    using history_distinct [OF D(1)] D(2,3) distinct_filter [of H]
    by (metis, metis inj_on_subset time_key_inj)
  have "btree_wf (map (time_entry c) (by_time L))"
    using btree_wf_sorted_map [OF dist(2,1), of snapshot_row_encode]
    by (simp add: btree_wf_def by_time_def sorted_wrt_map comp_def snapshot_timestamp_key_time_key)
  then have "fake_scan_prefix kv (snapshot_timestamp_prefix c) Forward None =
      Inr (limit_take None (directed Forward (map to_item (map (time_entry c) (by_time L)))))"
    by (intro fake_scan_prefix_described [OF assms(1), of _ "catalog_prefix c @ [family_code SnapshotByTimestamp]" slash])
       (use D(7) in \<open>auto simp: snapshot_timestamp_prefix_def family_prefix_def snapshot_timestamp_key_def\<close>)
  then show ?thesis by (simp add: limit_take_def directed_def comp_def)
qed


section \<open>Reads\<close>

lemma latest_snapshot_reads:
  assumes "fake_wf kv" "snapshots_are (fake_get kv) c H L"
  shows "latest_snapshot kv c = Inr (if H = [] then None else Some (last H))"
proof (cases "H = []")
  case True
  with scan_snapshots [OF assms, of Reverse "Some 1"] snapshots_areD(8) [OF assms(2)] show ?thesis
    by (simp add: latest_snapshot_def fetch_latest_snapshot_def fetch_snapshot_row_def limit_take_def directed_def)
next
  case False
  then have "snapshot_row_ok (last H)"
    using snapshots_areD(4) [OF assms(2)] by (simp add: stored_snapshot_ok_def)
  with False snapshots_areD(8) [OF assms(2)] show ?thesis
    by (simp add: latest_snapshot_def fetch_latest_snapshot_def fetch_snapshot_row_def
        decode_latest_snapshot_value_value)
qed

lemma list_all_snapshots_reads:
  assumes "fake_wf kv" "snapshots_are (fake_get kv) c H L"
  shows "list_all_snapshots kv c = Inr H"
proof -
  have "rmap (\<lambda>i. decode_snapshot_item c (ri_key i) (ri_value i)) (map (\<lambda>r. to_item (snapshot_entry c r)) H) = Inr H"
    using snapshots_areD(4) [OF assms(2)]
    by (induction H) (simp_all add: to_item_def decode_snapshot_item_stored)
  with scan_snapshots [OF assms, of Forward None] show ?thesis
    by (simp add: list_all_snapshots_def limit_take_def directed_def)
qed

lemma rmap_decode_timestamps:
  "(\<And>r. r \<in> set xs \<Longrightarrow> stored_snapshot_ok r) \<Longrightarrow>
   rmap (decode_timestamp_snapshot c) (map (\<lambda>r. to_item (time_entry c r)) xs) = Inr xs"
  by (induction xs) (simp_all add: decode_timestamp_snapshot_stored)

lemma sort_by_order_history:
  assumes "sorted_wrt snapshot_before H" "filter (\<lambda>r. r \<in> set L) H = L" "set xs = set L" "distinct xs"
  shows "sort_key (\<lambda>r. order_as_bytes (sn_order r)) xs = L"
proof (rule map_sorted_distinct_set_unique)
  have L: "sorted_wrt snapshot_before L" by (subst assms(2) [symmetric]) (rule sorted_wrt_filter [OF assms(1)])
  then show "distinct (map (\<lambda>r. order_as_bytes (sn_order r)) L)"
    by (simp add: distinct_map history_distinct)
  have inj: "inj_on (\<lambda>r. order_as_bytes (sn_order r)) (set L)" using L by (rule history_distinct)
  then show "inj_on (\<lambda>r. order_as_bytes (sn_order r)) (set (sort_key (\<lambda>r. order_as_bytes (sn_order r)) xs) \<union> set L)"
    by (simp add: assms(3))
  show "distinct (map (\<lambda>r. order_as_bytes (sn_order r)) (sort_key (\<lambda>r. order_as_bytes (sn_order r)) xs))"
    using inj assms(3,4) by (simp add: distinct_map)
  show "sorted (map (\<lambda>r. order_as_bytes (sn_order r)) L)"
    using L unfolding sorted_map
    by (rule sorted_wrt_mono_rel [rotated]) (simp add: snapshot_before_def order_less_bytes less_imp_le)
qed (simp_all add: assms(3))

lemma list_snapshots_reads:
  assumes "fake_wf kv" "snapshots_are (fake_get kv) c H L"
  shows "list_snapshots kv c = Inr L"
proof -
  note D = snapshots_areD [OF assms(2)]
  have "distinct (by_time L)"
    using history_distinct(1) [OF D(1)] D(2) distinct_filter [of H] by (metis by_time_def distinct_sort)
  with D rmap_decode_timestamps [of "by_time L" c] scan_timestamps [OF assms] show ?thesis
    by (simp add: list_snapshots_def sort_by_order_history [OF D(1,2)])
qed

lemma decode_time_key: "decode_snapshot_timestamp_key c (ri_key (to_item (time_entry c r))) =
    Inr (sn_created_at_micros r, uuid_v7 (order_arr (sn_order r)))"
  by (simp add: to_item_def decode_snapshot_timestamp_key_key)

abbreviation created_at :: "snapshot_row \<Rightarrow> int" where
  "created_at r \<equiv> sint (sn_created_at_micros r)"

lemma older_than_loop_stored:
  assumes "\<And>r. r \<in> set xs \<Longrightarrow> stored_snapshot_ok r" "sorted_wrt (\<lambda>a b. created_at a \<le> created_at b) xs"
  shows "older_than_loop c t (map (\<lambda>r. to_item (time_entry c r)) xs) =
    Inr (filter (\<lambda>r. created_at r < sint t) xs)"
  using assms
proof (induction xs)
  case (Cons r xs)
  have "filter (\<lambda>r. created_at r < sint t) xs = []" if "sint t \<le> created_at r"
    using Cons.prems(2) that by (auto simp: filter_empty_conv)
  with Cons show ?case
    by (auto simp: decode_time_key decode_timestamp_snapshot_stored simp del: decode_snapshot_timestamp_key_def)
qed simp

lemma list_snapshots_older_than_reads:
  assumes "fake_wf kv" "snapshots_are (fake_get kv) c H L"
  shows "list_snapshots_older_than kv c t = Inr (filter (\<lambda>r. created_at r < sint t) (by_time L))"
  using older_than_loop_stored [OF _ by_time_sorted, of L c t] snapshots_areD(5) [OF assms(2)]
  by (simp add: list_snapshots_older_than_def scan_timestamps [OF assms])

lemma by_timestamp_lower_stored:
  "(\<And>r. r \<in> set xs \<Longrightarrow> stored_snapshot_ok r) \<Longrightarrow>
   by_timestamp_loop c t Lower (map (\<lambda>r. to_item (time_entry c r)) xs) None =
     Inr (find (\<lambda>r. sint t \<le> created_at r) xs)"
  by (induction xs) (auto simp: decode_time_key decode_timestamp_snapshot_stored)

lemma by_timestamp_upper_stored:
  assumes "\<And>r. r \<in> set xs \<Longrightarrow> stored_snapshot_ok r" "sorted_wrt (\<lambda>a b. created_at a \<le> created_at b) xs"
  shows "by_timestamp_loop c t Upper (map (\<lambda>r. to_item (time_entry c r)) xs) sel =
    Inr (let ys = filter (\<lambda>r. created_at r \<le> sint t) xs in if ys = [] then sel else Some (last ys))"
  using assms
proof (induction xs arbitrary: sel)
  case (Cons r xs)
  have "filter (\<lambda>r. created_at r \<le> sint t) xs = []" if "sint t < created_at r"
    using Cons.prems(2) that by (auto simp: filter_empty_conv)
  with Cons show ?case
    by (auto simp: decode_time_key decode_timestamp_snapshot_stored Let_def)
qed simp

lemma snapshot_by_timestamp_reads:
  assumes "fake_wf kv" "snapshots_are (fake_get kv) c H L"
  shows "snapshot_by_timestamp kv c t Lower = Inr (find (\<lambda>r. sint t \<le> created_at r) (by_time L))"
    and "snapshot_by_timestamp kv c t Upper =
      Inr (let ys = filter (\<lambda>r. created_at r \<le> sint t) (by_time L) in if ys = [] then None else Some (last ys))"
  using by_timestamp_lower_stored [of "by_time L" c t] by_timestamp_upper_stored [OF _ by_time_sorted, of L c t]
    snapshots_areD(5) [OF assms(2)]
  by (simp_all add: snapshot_by_timestamp_def scan_timestamps [OF assms])

lemma snapshot_by_raw_sequence_reads:
  assumes "snapshots_are (fake_get kv) c H L"
  shows "snapshot_by_raw_sequence kv c s = Inr (find (\<lambda>r. sn_sequence r = s) H)"
proof (cases "find (\<lambda>r. sn_sequence r = s) H")
  case (Some r)
  then have "snapshot_row_ok r"
    using snapshots_areD(4) [OF assms] by (auto simp: find_Some_iff stored_snapshot_ok_def)
  with Some snapshots_areD(9) [OF assms] show ?thesis
    by (simp add: snapshot_by_raw_sequence_def decode_latest_snapshot_value_value)
qed (use snapshots_areD(9) [OF assms] in \<open>simp add: snapshot_by_raw_sequence_def\<close>)

section \<open>Writes\<close>

text \<open>Staging a snapshot newer than all others appends it to the history and to the live list.\<close>

definition put_snapshot :: "catalog_id \<Rightarrow> snapshot_row \<Rightarrow> (bytes \<rightharpoonup> bytes) \<Rightarrow> (bytes \<rightharpoonup> bytes)" where
  "put_snapshot c r m =
     m(snapshot_key c (sn_order r) \<mapsto> snapshot_row_encode r,
       snapshot_timestamp_key c (sn_created_at_micros r) (sn_order r) \<mapsto> snapshot_row_encode r,
       latest_snapshot_row_key c \<mapsto> latest_snapshot_value r,
       raw_snapshot_row_key c (sn_sequence r) \<mapsto> latest_snapshot_value r)"

lemma apply_stage_snapshot: "apply_batch (stage_snapshot b c r) m = put_snapshot c r (apply_batch b m)"
  by (simp add: stage_snapshot_def put_snapshot_def Let_def)

lemma ascii_latest_raw: "ascii ''latest-snapshot-row'' \<noteq> ascii ''raw-snapshot-row/'' @ xs"
  by (simp add: ascii_def)

lemma put_snapshot_get:
  "prefix (snapshot_prefix c) k \<Longrightarrow> put_snapshot c r m k =
     (if k = snapshot_key c (sn_order r) then Some (snapshot_row_encode r) else m k)"
  "prefix (snapshot_timestamp_prefix c) k \<Longrightarrow> put_snapshot c r m k =
     (if k = snapshot_timestamp_key c (sn_created_at_micros r) (sn_order r)
      then Some (snapshot_row_encode r) else m k)"
  "put_snapshot c r m (latest_snapshot_row_key c) = Some (latest_snapshot_value r)"
  "put_snapshot c r m (raw_snapshot_row_key c s) =
     (if s = sn_sequence r then Some (latest_snapshot_value r) else m (raw_snapshot_row_key c s))"
  using ascii_latest_raw ascii_latest_raw [symmetric]
  by (auto simp: put_snapshot_def key_defs raw_sequence_to_be_bytes_def elim!: prefixE)

lemma described_put:
  assumes "m k = Some v \<longleftrightarrow> (k, v) \<in> (\<lambda>x. (f x, g x)) ` A" "\<And>x. x \<in> A \<Longrightarrow> f x \<noteq> f r"
  shows "(if k = f r then Some (g r) else m k) = Some v \<longleftrightarrow> (k, v) \<in> (\<lambda>x. (f x, g x)) ` insert r A"
  using assms by (cases "k = f r") auto

lemma snapshots_are_put:
  assumes "snapshots_are m c H L" "stored_snapshot_ok r" "\<And>x. x \<in> set H \<Longrightarrow> snapshot_before x r"
  shows "snapshots_are (put_snapshot c r m) c (H @ [r]) (L @ [r])"
proof -
  note D = snapshots_areD [OF assms(1)]
  have new: "r \<notin> set H" using assms(3) snapshot_before_irrefl by blast
  have fresh: "snapshot_key c (sn_order x) \<noteq> snapshot_key c (sn_order r)"
    "snapshot_timestamp_key c (sn_created_at_micros x) (sn_order x) \<noteq>
       snapshot_timestamp_key c (sn_created_at_micros r) (sn_order r)" if "x \<in> set H" for x
    using assms(3) [OF that]
    by (auto simp: snapshot_before_def snapshot_key_def snapshot_timestamp_key_def order_less_bytes)
  have seq: "find (\<lambda>x. sn_sequence x = sn_sequence r) H = None"
    using assms(3) by (auto simp: find_None_iff snapshot_before_def dest!: assms(3))
  have "find (\<lambda>x. sn_sequence x = s) (H @ [r]) =
      (if s = sn_sequence r then Some r else find (\<lambda>x. sn_sequence x = s) H)" for s
    using seq by (induction H) auto
  moreover have "filter (\<lambda>x. x \<in> set (L @ [r])) (H @ [r]) = L @ [r]"
    using D(2) new by (simp cong: filter_cong) (metis (mono_tags, lifting) filter_cong)
  moreover have "(put_snapshot c r m k = Some v) \<longleftrightarrow> (k, v) \<in> snapshot_entry c ` set (H @ [r])"
    if "prefix (snapshot_prefix c) k" for k v
    using that fresh(1) described_put [where m = m and f = "\<lambda>x. snapshot_key c (sn_order x)"
        and g = snapshot_row_encode and r = r, OF D(6) [OF that]]
    by (simp add: put_snapshot_get(1))
  moreover have "(put_snapshot c r m k = Some v) \<longleftrightarrow> (k, v) \<in> time_entry c ` set (L @ [r])"
    if "prefix (snapshot_timestamp_prefix c) k" for k v
    using that fresh(2) D(3) described_put [where m = m and g = snapshot_row_encode and r = r
        and f = "\<lambda>x. snapshot_timestamp_key c (sn_created_at_micros x) (sn_order x)", OF D(7) [OF that]]
    by (simp add: put_snapshot_get(2) subset_iff)
  ultimately show ?thesis
    using D(1,4,9) assms(2,3) unfolding snapshots_are_def by (auto simp: put_snapshot_get sorted_wrt_append)
qed


lemma snapshot_row_new_ok: "stored_snapshot_ok (snapshot_row_new now (uuid_v7 n) s)"
proof -
  have "string_ok aux_ducklake" by (simp add: string_ok_def aux_ducklake_def ascii_def utf8_valid.simps)
  then show ?thesis
    by (simp add: stored_snapshot_ok_def snapshot_row_ok_def snapshot_row_new_def
        snapshot_row_with_created_at_micros_def uuid_v7_def)
qed

text \<open>Watermark cells lie outside the snapshot key space.\<close>

lemma watermark_not_snapshot [simp]:
  "conflict_watermarks_initialized_key c \<notin> snapshot_space c'"
  "conflict_max_catalog_id_key c \<notin> snapshot_space c'"
  "conflict_max_file_id_key c \<notin> snapshot_space c'"
  "table_next_row_id_key c t \<notin> snapshot_space c'"
  by (auto simp: snapshot_space_def key_defs) (auto simp: ascii_def)

lemma initialize_empty_catalog_refines:
  fixes now :: i64
  assumes "fake_wf kv" "snapshots_are (fake_get kv) c [] []"
  defines "r \<equiv> snapshot_row_initial now (uuid_v7 (saturating_add (next_order kv) 1))"
  obtains kv' where "initialize_empty_catalog kv c now = (Inr r, kv')" "fake_wf kv'"
    "snapshots_are (fake_get kv') c [r] [r]"
    "fake_get kv' (conflict_watermarks_initialized_key c) = Some [1]"
    "fake_get kv' (conflict_max_catalog_id_key c) = Some (u64_to_be_bytes 0)"
proof -
  let ?kv = "snd (fake_generated_order_id kv)"
  let ?b = "stage_conflict_watermarks_initialized (stage_snapshot batch_new c r) c"
  have init: "initialize_empty_catalog kv c now = commit_then ?kv ?b r"
    by (simp add: initialize_empty_catalog_def r_def case_prod_beta Let_def)
  have "checks ?b = []"
    by (simp add: stage_conflict_watermarks_initialized_def stage_snapshot_def Let_def)
  then obtain kv' where kv': "commit_then ?kv ?b r = (Inr r, kv')" "fake_get kv' = apply_batch ?b (fake_get ?kv)"
    "fake_wf ?kv \<Longrightarrow> fake_wf kv'" using commit_then_unchecked [of ?b ?kv r] by blast
  have get: "fake_get kv' = (put_snapshot c r (fake_get kv))
    (conflict_watermarks_initialized_key c \<mapsto> [1], conflict_max_catalog_id_key c \<mapsto> u64_to_be_bytes 0)"
    by (simp add: kv'(2) stage_conflict_watermarks_initialized_def apply_stage_snapshot)
  have "snapshots_are (put_snapshot c r (fake_get kv)) c [r] [r]"
    using snapshots_are_put [OF assms(2), of r] by (simp add: r_def snapshot_row_initial_def snapshot_row_new_ok)
  then have "snapshots_are (fake_get kv') c [r] [r]"
    by (rule snapshots_are_local) (auto simp: get)
  moreover have "conflict_watermarks_initialized_key c \<noteq> conflict_max_catalog_id_key c"
    by (simp add: key_defs ascii_def)
  ultimately show thesis
    using that [of kv'] kv' assms(1) by (simp add: init get)
qed

lemma map_of_groups:
  "map_of (fold (\<lambda>r. push_group (f r) r) xs m) s =
     (let ys = filter (\<lambda>r. f r = s) xs
      in case map_of m s of None \<Rightarrow> if ys = [] then None else Some ys | Some zs \<Rightarrow> Some (zs @ ys))"
  by (induction xs arbitrary: m) (auto simp: push_group_def Let_def split: option.splits)

text \<open>The loop stages a delete for every live snapshot of every requested sequence.\<close>

abbreviation time_keys :: "catalog_id \<Rightarrow> snapshot_row list \<Rightarrow> bytes list" where
  "time_keys c \<equiv> map (\<lambda>r. snapshot_timestamp_key c (sn_created_at_micros r) (sn_order r))"

lemma fold_stage_delete_snapshot:
  "fold (\<lambda>r b. stage_delete_snapshot b c r) rs b = b\<lparr>deletes := deletes b @ time_keys c rs\<rparr>"
  by (induction rs arbitrary: b) (simp_all add: stage_delete_snapshot_def batch_delete_def)

lemma expire_loop_result:
  assumes "\<And>s. map_of groups s = (let ys = filter (\<lambda>r. sn_sequence r = s) L in if ys = [] then None else Some ys)"
  defines "out ss \<equiv> concat (map (\<lambda>s. filter (\<lambda>r. sn_sequence r = s) L) ss)"
  shows "expire_loop c latest groups ss (b, ex) =
    (if latest \<in> set ss then Inl (InvalidMutation ''cannot expire latest snapshot'')
     else Inr (b\<lparr>deletes := deletes b @ time_keys c (out ss)\<rparr>, ex @ out ss))"
proof (induction ss arbitrary: b ex)
  case Nil
  then show ?case by (simp add: out_def)
next
  case (Cons s ss)
  then show ?case by (auto simp: assms(1) Let_def fold_stage_delete_snapshot out_def)
qed

lemma snapshots_are_expire:
  assumes "snapshots_are m c H L" "L' = filter (\<lambda>r. \<not> P r) L"
    and del: "set ks = {snapshot_timestamp_key c (sn_created_at_micros r) (sn_order r) | r. r \<in> set L \<and> P r}"
  shows "snapshots_are (m |` (- set ks)) c H L'"
proof -
  note D = snapshots_areD [OF assms(1)]
  have inj: "inj_on (\<lambda>r. order_as_bytes (sn_order r)) (set L)"
    using history_distinct(4) [OF D(1)] D(3) by (rule inj_on_subset)
  have outside: "k \<notin> set ks" if "\<not> prefix (snapshot_timestamp_prefix c) k" for k
    using that by (auto simp: del snapshot_timestamp_key_def snapshot_timestamp_prefix_def)
  have same: "(m |` (- set ks)) k = m k" if "\<not> prefix (snapshot_timestamp_prefix c) k" for k
    using outside [OF that] by (simp add: restrict_map_def)
  have other: "\<not> prefix (snapshot_timestamp_prefix c) k" if "prefix (snapshot_prefix c) k" for k
    using that by (auto simp: snapshot_prefix_def snapshot_timestamp_prefix_def elim!: prefixE)
  have meta: "\<not> prefix (snapshot_timestamp_prefix c) (latest_snapshot_row_key c)"
    "\<not> prefix (snapshot_timestamp_prefix c) (raw_snapshot_row_key c s)" for s
    by (simp_all add: key_defs)
  have "(m |` (- set ks)) k = Some v \<longleftrightarrow> (k, v) \<in> time_entry c ` set L'"
    if "prefix (snapshot_timestamp_prefix c) k" for k v
  proof -
    have key: "r = r'" if "r \<in> set L" "r' \<in> set L" "snapshot_timestamp_key c (sn_created_at_micros r) (sn_order r) =
        snapshot_timestamp_key c (sn_created_at_micros r') (sn_order r')" for r r'
      using that inj by (auto simp: snapshot_timestamp_key_def inj_on_def)
    have "k \<in> set ks \<longleftrightarrow> (\<exists>r \<in> set L. P r \<and> k = snapshot_timestamp_key c (sn_created_at_micros r) (sn_order r))"
      by (auto simp: del)
    with D(7) [OF that, of v] key show ?thesis
      by (auto simp: restrict_map_def assms(2))
  qed
  moreover have "filter (\<lambda>r. r \<in> set L') H = L'"
  proof -
    have "filter (\<lambda>r. r \<in> set L') H = filter (\<lambda>r. \<not> P r) (filter (\<lambda>r. r \<in> set L) H)"
      by (auto simp: assms(2) intro: filter_cong)
    with D(2) show ?thesis by (simp add: assms(2))
  qed
  ultimately show ?thesis
    using D(1,4,6,8,9) unfolding snapshots_are_def by (simp add: same other meta)
qed

lemma expire_snapshots_refines:
  assumes "fake_wf kv" "snapshots_are (fake_get kv) c H L" "H \<noteq> []" "sn_sequence (last H) \<notin> set seqs"
  obtains kv' where
    "expire_snapshots kv c seqs = (Inr (concat (map (\<lambda>s. filter (\<lambda>r. sn_sequence r = s) L) seqs)), kv')"
    "fake_wf kv'" "snapshots_are (fake_get kv') c H (filter (\<lambda>r. sn_sequence r \<notin> set seqs) L)"
proof (cases "seqs = []")
  case True
  then show ?thesis using that [of kv] assms by (simp add: expire_snapshots_def)
next
  case False
  define out where "out = concat (map (\<lambda>s. filter (\<lambda>r. sn_sequence r = s) L) seqs)"
  let ?b = "batch_new\<lparr>deletes := time_keys c out\<rparr>"
  have op: "expire_snapshots kv c seqs = commit_then kv ?b out"
    using False assms(3,4)
    by (simp add: expire_snapshots_def latest_snapshot_reads [OF assms(1,2)] list_snapshots_reads [OF assms(1,2)]
        expire_loop_result [where L = L] map_of_groups out_def)
  have "checks ?b = []" by simp
  then obtain kv' where kv': "commit_then kv ?b out = (Inr out, kv')" "fake_get kv' = apply_batch ?b (fake_get kv)"
    "fake_wf kv \<Longrightarrow> fake_wf kv'" using commit_then_unchecked [of ?b kv out] by blast
  have "apply_batch ?b (fake_get kv) = fake_get kv |` (- set (time_keys c out))"
    by (simp add: apply_batch_def)
  moreover have "snapshots_are (fake_get kv |` (- set (time_keys c out))) c H (filter (\<lambda>r. sn_sequence r \<notin> set seqs) L)"
    by (rule snapshots_are_expire [OF assms(2), where P = "\<lambda>r. sn_sequence r \<in> set seqs"]) (auto simp: out_def)
  ultimately show ?thesis
    using that [of kv'] kv' assms(1) by (simp add: op out_def)
qed

text \<open>The first at or above a bound in a sorted list is least, the last at or below it greatest.\<close>

lemma find_first_least:
  fixes f :: "'a \<Rightarrow> int"
  assumes "sorted_wrt (\<lambda>a b. f a \<le> f b) xs"
  shows "case find (\<lambda>r. t \<le> f r) xs of
      None \<Rightarrow> \<forall>r \<in> set xs. f r < t
    | Some x \<Rightarrow> x \<in> set xs \<and> t \<le> f x \<and> (\<forall>r \<in> set xs. t \<le> f r \<longrightarrow> f x \<le> f r)"
  using assms by (induction xs) (auto split: option.splits)

lemma last_filter_greatest:
  fixes f :: "'a \<Rightarrow> int" and t :: int
  assumes "sorted_wrt (\<lambda>a b. f a \<le> f b) xs"
  defines "ys \<equiv> filter (\<lambda>r. f r \<le> t) xs"
  shows "case (if ys = [] then None else Some (last ys)) of
      None \<Rightarrow> \<forall>r \<in> set xs. t < f r
    | Some x \<Rightarrow> x \<in> set xs \<and> f x \<le> t \<and> (\<forall>r \<in> set xs. f r \<le> t \<longrightarrow> f r \<le> f x)"
proof (cases "ys = []")
  case True
  then show ?thesis by (auto simp: ys_def filter_empty_conv not_le)
next
  case False
  have "sorted_wrt (\<lambda>a b. f a \<le> f b) (butlast ys @ [last ys])"
    using assms(1) False by (simp add: ys_def sorted_wrt_filter)
  then have "\<forall>r \<in> set (butlast ys). f r \<le> f (last ys)" by (simp add: sorted_wrt_append)
  then have le: "\<forall>r \<in> set ys. f r \<le> f (last ys)"
    using False by (metis append_butlast_last_id in_set_butlastD order_refl set_ConsD set_append Un_iff empty_iff empty_set)
  have "last ys \<in> set ys" using False by simp
  then have "last ys \<in> set xs \<and> f (last ys) \<le> t" by (simp add: ys_def)
  moreover have "\<forall>r \<in> set xs. f r \<le> t \<longrightarrow> f r \<le> f (last ys)" using le by (auto simp: ys_def)
  ultimately show ?thesis using False by simp
qed

section \<open>Properties\<close>

text \<open>C19: All the snapshot reads agree on one history. In a store that represents the history \<open>H\<close> with live
  snapshots \<open>L\<close>, the latest snapshot is the last of \<open>H\<close>, listing all snapshots gives \<open>H\<close>, listing gives
  \<open>L\<close>, and a lookup by raw sequence finds the snapshot of \<open>H\<close> with that sequence, expired or not.\<close>
theorem snapshot_reads_agree:
  assumes "fake_wf kv" "snapshots_are (fake_get kv) c H L"
  shows "latest_snapshot kv c = Inr (if H = [] then None else Some (last H)) \<and>
    list_all_snapshots kv c = Inr H \<and> list_snapshots kv c = Inr L \<and>
    (\<forall>s. snapshot_by_raw_sequence kv c s = Inr (find (\<lambda>r. sn_sequence r = s) H))"
  using assms
  by (simp add: latest_snapshot_reads list_all_snapshots_reads list_snapshots_reads snapshot_by_raw_sequence_reads)

lemma fake_new_snapshots: "fake_wf fake_new" "snapshots_are (fake_get fake_new) c [] []"
  by (simp_all add: fake_wf_def fake_new_def fake_get_def [abs_def] snapshots_are_empty)

theorem snapshot_reads_agree_witness:
  "\<exists>r kv. latest_snapshot kv 7 = Inr (Some r) \<and> list_snapshots kv 7 = Inr [r]"
proof -
  obtain kv r where "fake_wf kv" "snapshots_are (fake_get kv) 7 [r] [r]"
    by (rule initialize_empty_catalog_refines [OF fake_new_snapshots, where now = 0])
  from snapshot_reads_agree [OF this] show ?thesis by auto
qed

text \<open>C21: Time travel by timestamp is exact. The lower bound lookup returns a live snapshot created at or after the
  time with no live one created earlier in between, the upper bound lookup a live snapshot created at or before
  it with none created later in between, and each returns nothing only when no such live snapshot exists; times
  are signed.\<close>
theorem snapshot_by_timestamp_exact:
  assumes "fake_wf kv" "snapshots_are (fake_get kv) c H L"
  shows "(\<exists>res. snapshot_by_timestamp kv c t Lower = Inr res \<and>
      (case res of None \<Rightarrow> \<forall>r \<in> set L. created_at r < sint t
       | Some x \<Rightarrow> x \<in> set L \<and> sint t \<le> created_at x \<and>
           (\<forall>r \<in> set L. sint t \<le> created_at r \<longrightarrow> created_at x \<le> created_at r))) \<and>
    (\<exists>res. snapshot_by_timestamp kv c t Upper = Inr res \<and>
      (case res of None \<Rightarrow> \<forall>r \<in> set L. sint t < created_at r
       | Some x \<Rightarrow> x \<in> set L \<and> created_at x \<le> sint t \<and>
           (\<forall>r \<in> set L. created_at r \<le> sint t \<longrightarrow> created_at r \<le> created_at x)))"
proof (intro conjI)
  let ?f = "find (\<lambda>r. sint t \<le> created_at r) (by_time L)"
  have "case ?f of None \<Rightarrow> \<forall>r \<in> set L. created_at r < sint t
       | Some x \<Rightarrow> x \<in> set L \<and> sint t \<le> created_at x \<and>
           (\<forall>r \<in> set L. sint t \<le> created_at r \<longrightarrow> created_at x \<le> created_at r)"
    using find_first_least [where t = "sint t", OF by_time_sorted [of L]] unfolding set_by_time .
  then show "\<exists>res. snapshot_by_timestamp kv c t Lower = Inr res \<and>
      (case res of None \<Rightarrow> \<forall>r \<in> set L. created_at r < sint t
       | Some x \<Rightarrow> x \<in> set L \<and> sint t \<le> created_at x \<and>
           (\<forall>r \<in> set L. sint t \<le> created_at r \<longrightarrow> created_at x \<le> created_at r))"
    by (simp add: snapshot_by_timestamp_reads(1) [OF assms])
next
  show "\<exists>res. snapshot_by_timestamp kv c t Upper = Inr res \<and>
      (case res of None \<Rightarrow> \<forall>r \<in> set L. sint t < created_at r
       | Some x \<Rightarrow> x \<in> set L \<and> created_at x \<le> sint t \<and>
           (\<forall>r \<in> set L. created_at r \<le> sint t \<longrightarrow> created_at r \<le> created_at x))"
    using last_filter_greatest [where t = "sint t", OF by_time_sorted [of L], unfolded set_by_time]
    by (simp add: snapshot_by_timestamp_reads(2) [OF assms] Let_def)
qed

theorem snapshot_by_timestamp_exact_witness:
  "\<exists>kv r. snapshot_by_timestamp kv 7 5 Upper = Inr (Some r) \<and> created_at r \<le> 5"
proof -
  obtain kv where kv: "fake_wf kv"
    "snapshots_are (fake_get kv) 7 [snapshot_row_initial 0 (uuid_v7 (saturating_add (next_order fake_new) 1))]
       [snapshot_row_initial 0 (uuid_v7 (saturating_add (next_order fake_new) 1))]"
    by (rule initialize_empty_catalog_refines [OF fake_new_snapshots, where now = 0])
  from snapshot_by_timestamp_exact [OF kv, of 5] obtain res where
    "snapshot_by_timestamp kv 7 5 Upper = Inr res" "case res of None \<Rightarrow> False | Some x \<Rightarrow> created_at x \<le> 5"
    by (auto simp: snapshot_row_initial_def snapshot_row_new_def snapshot_row_with_created_at_micros_def
        split: option.splits)
  then show ?thesis by (auto split: option.splits)
qed

text \<open>Listing the snapshots older than a time returns exactly the live snapshots created before it, oldest
  first: the early exit of the scan loses none.\<close>
theorem list_snapshots_older_than_exact:
  assumes "fake_wf kv" "snapshots_are (fake_get kv) c H L"
  shows "\<exists>rows. list_snapshots_older_than kv c t = Inr rows \<and>
    set rows = {r \<in> set L. created_at r < sint t} \<and> sorted_wrt (\<lambda>a b. created_at a \<le> created_at b) rows"
  using by_time_sorted [of L] by (simp add: list_snapshots_older_than_reads [OF assms] sorted_wrt_filter)

theorem list_snapshots_older_than_exact_witness:
  "\<exists>rows. list_snapshots_older_than fake_new 7 5 = Inr rows \<and> set rows = {}"
  using list_snapshots_older_than_exact [OF fake_new_snapshots, of 7 5] by simp

text \<open>Initialising is idempotent. On an empty catalog it creates snapshot 0 with a fresh order, makes it the
  latest and only one, and marks the conflict watermarks initialised; on any other catalog it returns the latest
  snapshot and changes nothing.\<close>
theorem initialize_catalog_if_absent_idempotent:
  assumes "fake_wf kv" "snapshots_are (fake_get kv) c H L"
  shows "\<exists>r kv'. initialize_catalog_if_absent kv c now = (Inr r, kv') \<and> fake_wf kv' \<and>
    (if H = [] then sn_sequence r = 0 \<and> snapshots_are (fake_get kv') c [r] [r] \<and>
       validate_initialized_marker (fake_get kv' (conflict_watermarks_initialized_key c)) = Inr () \<and>
       load_max_catalog_id_watermark kv' c = Inr (Some 0)
     else r = last H \<and> kv' = kv)"
proof (cases "H = []")
  case True
  with snapshots_areD(2) [OF assms(2)] have e: "snapshots_are (fake_get kv) c [] []"
    using assms(2) by simp
  from initialize_empty_catalog_refines [OF assms(1) this, of now] obtain r kv' where
    "initialize_empty_catalog kv c now = (Inr r, kv')" "fake_wf kv'" "snapshots_are (fake_get kv') c [r] [r]"
    "fake_get kv' (conflict_watermarks_initialized_key c) = Some [1]"
    "fake_get kv' (conflict_max_catalog_id_key c) = Some (u64_to_be_bytes 0)"
    "r = snapshot_row_initial now (uuid_v7 (saturating_add (next_order kv) 1))"
    by metis
  with True show ?thesis
    by (intro exI [of _ r] exI [of _ kv'])
       (simp add: initialize_catalog_if_absent_def latest_snapshot_reads [OF assms]
         validate_initialized_marker_def load_max_catalog_id_watermark_def load_u64_ok cell_ok_def cell_value_def
         snapshot_row_initial_def snapshot_row_new_def snapshot_row_with_created_at_micros_def
         raw_sequence_initial_def)
next
  case False
  then show ?thesis
    by (simp add: initialize_catalog_if_absent_def latest_snapshot_reads [OF assms] assms(1))
qed

theorem initialize_catalog_if_absent_idempotent_witness:
  "\<exists>r kv'. initialize_catalog_if_absent fake_new 7 0 = (Inr r, kv') \<and> sn_sequence r = 0"
  using initialize_catalog_if_absent_idempotent [OF fake_new_snapshots, of 7 0] by auto

text \<open>C20: Expiring snapshots never removes the latest one. If the request names the latest sequence the whole
  request is refused and the store is unchanged; otherwise it returns the live snapshots with the named sequences
  and removes exactly those from the live list, while the history, the latest snapshot and lookups by raw
  sequence stay as they were.\<close>
theorem expire_snapshots_keeps_latest:
  assumes "fake_wf kv" "snapshots_are (fake_get kv) c H L" "H \<noteq> []" "seqs \<noteq> []"
  shows "if sn_sequence (last H) \<in> set seqs
    then expire_snapshots kv c seqs = (Inl (InvalidMutation ''cannot expire latest snapshot''), kv)
    else \<exists>kv'. expire_snapshots kv c seqs =
        (Inr (concat (map (\<lambda>s. filter (\<lambda>r. sn_sequence r = s) L) seqs)), kv') \<and>
      fake_wf kv' \<and> snapshots_are (fake_get kv') c H (filter (\<lambda>r. sn_sequence r \<notin> set seqs) L)"
proof (cases "sn_sequence (last H) \<in> set seqs")
  case True
  with assms(3,4) show ?thesis
    by (simp add: expire_snapshots_def latest_snapshot_reads [OF assms(1,2)] list_snapshots_reads [OF assms(1,2)]
        expire_loop_result [where L = L] map_of_groups)
next
  case False
  with expire_snapshots_refines [OF assms(1,2,3) this] show ?thesis by metis
qed

theorem expire_snapshots_keeps_latest_witness:
  "\<exists>kv. expire_snapshots kv 7 [3, 0] = (Inl (InvalidMutation ''cannot expire latest snapshot''), kv)"
proof -
  obtain kv where kv: "fake_wf kv"
    "snapshots_are (fake_get kv) 7 [snapshot_row_initial 0 (uuid_v7 (saturating_add (next_order fake_new) 1))]
       [snapshot_row_initial 0 (uuid_v7 (saturating_add (next_order fake_new) 1))]"
    by (rule initialize_empty_catalog_refines [OF fake_new_snapshots, where now = 0])
  from expire_snapshots_keeps_latest [OF kv, of "[3, 0]"] show ?thesis
    by (auto simp: snapshot_row_initial_def snapshot_row_new_def snapshot_row_with_created_at_micros_def
        raw_sequence_initial_def)
qed

end
