(* ===== verification/Cat_Index.thy ===== *)
theory Cat_Index
  imports Cat_Store
begin

text \<open>
  Indexes of the key space. A component stores each of its rows under a key of one family, with a value that
  decodes back to the row; several indexes over the same rows are kept in step by the component. The locale
  states what such an index relies on (its keys lie in its space and a stored value decodes to its row) and
  proves once what point reads, prefix scans, range scans, writes and deletes do to the set of rows it holds.
\<close>

lemma option_eqI: "(\<And>v. a = Some v \<longleftrightarrow> b = Some v) \<Longrightarrow> a = b"
  by (cases a; cases b) auto

locale stored_index =
  fixes space :: bytes
    and key :: "'a \<Rightarrow> bytes"
    and enc :: "'a \<Rightarrow> bytes"
    and ok :: "'a \<Rightarrow> bool"
    and dec :: "bytes \<Rightarrow> bytes \<Rightarrow> 'a catalog_result"
  assumes in_space: "prefix space (key x)"
    and dec_law: "ok x \<Longrightarrow> dec (key x) (enc x) = Inr x"
begin

text \<open>The entries under the space are those of the rows of \<open>S\<close>, one for each.\<close>

definition holds :: "(bytes \<rightharpoonup> bytes) \<Rightarrow> 'a set \<Rightarrow> bool" where
  "holds m S \<longleftrightarrow> (\<forall>x \<in> S. ok x) \<and> inj_on key S \<and>
     (\<forall>k v. prefix space k \<longrightarrow> (m k = Some v \<longleftrightarrow> (\<exists>x \<in> S. k = key x \<and> v = enc x)))"

lemma holds_empty: "holds Map.empty {}"
  by (simp add: holds_def)

lemma holds_local: "holds m S \<Longrightarrow> (\<And>k. prefix space k \<Longrightarrow> m' k = m k) \<Longrightarrow> holds m' S"
  by (simp add: holds_def)

lemma holds_other [simp]: "\<not> prefix space k \<Longrightarrow> holds (m(k := v)) S \<longleftrightarrow> holds m S"
  by (auto simp: holds_def)

lemma holds_put: "holds m S \<Longrightarrow> ok x \<Longrightarrow> holds (m(key x \<mapsto> enc x)) (insert x {y \<in> S. key y \<noteq> key x})"
  using in_space [of x] by (auto simp: holds_def inj_on_def)

lemma holds_delete: "holds m S \<Longrightarrow> prefix space k \<Longrightarrow> holds (m(k := None)) {y \<in> S. key y \<noteq> k}"
  by (auto simp: holds_def inj_on_def)

lemma holds_get: "holds m S \<Longrightarrow> x \<in> S \<Longrightarrow> m (key x) = Some (enc x)"
  using in_space [of x] by (auto simp: holds_def)

lemma holds_get_iff:
  "holds m S \<Longrightarrow> prefix space k \<Longrightarrow> m k = Some v \<longleftrightarrow> (\<exists>x \<in> S. k = key x \<and> v = enc x)"
  by (simp add: holds_def)

lemma holds_get_None: "holds m S \<Longrightarrow> prefix space k \<Longrightarrow> m k = None \<longleftrightarrow> (\<forall>x \<in> S. key x \<noteq> k)"
  by (metis holds_get_iff option.distinct(1) not_None_eq)

lemma holds_ok: "holds m S \<Longrightarrow> x \<in> S \<Longrightarrow> ok x"
  by (simp add: holds_def)

lemma holds_unique: "holds m S \<Longrightarrow> x \<in> S \<Longrightarrow> y \<in> S \<Longrightarrow> key x = key y \<Longrightarrow> x = y"
  by (auto simp: holds_def dest: inj_onD)

lemma holds_finite: "holds (fake_get kv) S \<Longrightarrow> finite S"
proof -
  assume S: "holds (fake_get kv) S"
  have "key ` S \<subseteq> fst ` set (items kv)"
    using holds_get [OF S] by (force simp: fake_get_def dest: map_of_SomeD)
  then have "finite (key ` S)" by (rule finite_subset) simp
  with S show "finite S" by (auto simp: holds_def dest: finite_imageD)
qed

text \<open>The rows of a part of the space, in key order.\<close>

definition rows_in :: "(bytes \<Rightarrow> bool) \<Rightarrow> 'a set \<Rightarrow> 'a list" where
  "rows_in P S = map (\<lambda>k. the_inv_into S key k) (sorted_list_of_set (key ` {x \<in> S. P (key x)}))"

lemma rows_in_spec:
  assumes "holds m S" "finite S"
  shows "set (rows_in P S) = {x \<in> S. P (key x)}" and "distinct (rows_in P S)"
    and "sorted_wrt (\<lambda>a b. key a < key b) (rows_in P S)"
proof -
  let ?K = "key ` {x \<in> S. P (key x)}"
  have inj: "inj_on key S" using assms(1) by (simp add: holds_def)
  have fin: "finite ?K" using assms(2) by simp
  have keys: "map key (rows_in P S) = sorted_list_of_set ?K"
    using fin by (auto simp: rows_in_def comp_def intro!: map_idI f_the_inv_into_f [OF inj])
  show "set (rows_in P S) = {x \<in> S. P (key x)}"
    using fin inj by (force simp: rows_in_def the_inv_into_f_f)
  show "distinct (rows_in P S)" using fin keys by (metis distinct_map distinct_sorted_list_of_set)
  show "sorted_wrt (\<lambda>a b. key a < key b) (rows_in P S)"
    using strict_sorted_list_of_set [of ?K] unfolding keys [symmetric] by (simp add: sorted_wrt_map)
qed

lemma rows_in_unique:
  assumes "holds m S" "finite S" "set xs = {x \<in> S. P (key x)}" "sorted_wrt (\<lambda>a b. key a < key b) xs"
  shows "xs = rows_in P S"
proof -
  have "map key xs = map key (rows_in P S)"
    using rows_in_spec(1,3) [OF assms(1,2), of P] assms(3,4)
    by (intro strict_sorted_equal) (simp_all add: sorted_wrt_map image_set [symmetric])
  moreover have "inj_on key (set xs \<union> set (rows_in P S))"
    using assms(1,3) rows_in_spec(1) [OF assms(1,2), of P] by (auto simp: holds_def inj_on_def)
  ultimately show ?thesis by (rule map_inj_on)
qed

text \<open>A filter of the stored entries reads the rows of that part.\<close>

lemma stored_rows:
  assumes "fake_wf kv" "holds (fake_get kv) S" and P: "\<And>k. P k \<Longrightarrow> prefix space k"
  shows "filter (\<lambda>e. P (fst e)) (items kv) = map (\<lambda>x. (key x, enc x)) (rows_in P S)"
proof (rule btree_ext)
  have wf: "btree_wf (items kv)" using assms(1) by (simp add: fake_wf_def)
  note spec = rows_in_spec [OF assms(2) holds_finite [OF assms(2)], of P]
  show "btree_wf (filter (\<lambda>e. P (fst e)) (items kv))" using wf by blast
  show wf': "btree_wf (map (\<lambda>x. (key x, enc x)) (rows_in P S))"
    using spec(3) by (simp add: btree_wf_def sorted_wrt_map)
  show "map_of (filter (\<lambda>e. P (fst e)) (items kv)) = map_of (map (\<lambda>x. (key x, enc x)) (rows_in P S))"
  proof
    fix k
    show "map_of (filter (\<lambda>e. P (fst e)) (items kv)) k = map_of (map (\<lambda>x. (key x, enc x)) (rows_in P S)) k"
    proof (cases "P k")
      case True
      have "map_of (items kv) k = Some v \<longleftrightarrow> map_of (map (\<lambda>x. (key x, enc x)) (rows_in P S)) k = Some v" for v
        using holds_get_iff [OF assms(2) P [OF True], of v] spec(1) True
        unfolding btree_mem_iff [OF wf', symmetric] fake_get_def by auto
      then have "map_of (items kv) k = map_of (map (\<lambda>x. (key x, enc x)) (rows_in P S)) k"
        by (rule option_eqI)
      with True show ?thesis by (simp add: map_of_filter_fst [of P])
    next
      case False
      then have "k \<notin> key ` set (rows_in P S)" using spec(1) by auto
      then have "map_of (map (\<lambda>x. (key x, enc x)) (rows_in P S)) k = None"
        by (simp add: map_of_eq_None_iff image_image)
      with False show ?thesis by (simp add: map_of_filter_fst [of P])
    qed
  qed
qed

lemma scan_range_rows:
  assumes "fake_wf kv" "holds (fake_get kv) S" "lo \<le> hi" "\<And>k. lo \<le> k \<Longrightarrow> k < hi \<Longrightarrow> prefix space k"
  shows "fake_scan_range kv lo hi d lim = Inr (limit_take lim (directed d
    (map (\<lambda>x. to_item (key x, enc x)) (rows_in (\<lambda>k. lo \<le> k \<and> k < hi) S))))"
  using fake.scan_law [OF assms(1,3)] stored_rows [OF assms(1,2), of "\<lambda>k. lo \<le> k \<and> k < hi"] assms(4)
  by (simp add: btree_range_def comp_def)

lemma scan_prefix_rows:
  assumes "fake_wf kv" "holds (fake_get kv) S" "p = q @ [b]" "b < 0xff" "prefix space p"
  shows "fake_scan_prefix kv p d lim = Inr (limit_take lim (directed d
    (map (\<lambda>x. to_item (key x, enc x)) (rows_in (prefix p) S))))"
proof -
  have "prefix space k" if "prefix p k" for k using assms(5) that by (rule prefix_order.trans)
  from stored_rows [OF assms(1,2) this] fake.prefix_scan [OF assms(1,4), of q d lim] show ?thesis
    by (simp add: fake_scan_prefix_def comp_def assms(3))
qed

text \<open>Decoding the items of a scan.\<close>

lemma decode_rows:
  "(\<And>x. x \<in> set xs \<Longrightarrow> ok x) \<Longrightarrow>
   rmap (\<lambda>i. dec (ri_key i) (ri_value i)) (map (\<lambda>x. to_item (key x, enc x)) xs) = Inr xs"
  using rmap_Inr [of xs "\<lambda>x. dec (key x) (enc x)" "\<lambda>x. x"] dec_law by (simp add: rmap_map to_item_def)

lemma rows_in_ok: "holds m S \<Longrightarrow> finite S \<Longrightarrow> x \<in> set (rows_in P S) \<Longrightarrow> ok x"
  using rows_in_spec(1) [of m S P] by (auto simp: holds_def)

lemma decode_stored: "holds m S \<Longrightarrow> finite S \<Longrightarrow>
   rmap (\<lambda>i. dec (ri_key i) (ri_value i)) (map (\<lambda>x. to_item (key x, enc x)) (rows_in P S)) = Inr (rows_in P S)"
  by (rule decode_rows) (rule rows_in_ok)

end

lemma limit_directed_all [simp]: "limit_take None xs = xs" "directed Forward xs = xs" "directed Reverse xs = rev xs"
  by (simp_all add: limit_take_def directed_def)

text \<open>A store with given contents.\<close>

definition store_with :: "(bytes \<times> bytes) list \<Rightarrow> fake_kv" where
  "store_with es = fake_new\<lparr>items := fold (\<lambda>(k, v). btree_insert k v) es []\<rparr>"

lemma store_with_simps [simp]:
  "fake_wf (store_with es)" "next_order (store_with es) = 0" "fake_get (store_with es) = map_of (rev es)"
proof -
  have "btree_wf m \<Longrightarrow> btree_wf (fold (\<lambda>(k, v). btree_insert k v) es m)" for m :: "(bytes \<times> bytes) list"
    by (induction es arbitrary: m) (auto simp: btree_wf_insert)
  then show "fake_wf (store_with es)" by (simp add: fake_wf_def store_with_def btree_wf_def)
  have "map_of (fold (\<lambda>(k, v). btree_insert k v) es []) = map_of (rev es)"
    by (induction es rule: rev_induct) auto
  then show "fake_get (store_with es) = map_of (rev es)"
    by (simp add: store_with_def fake_get_def [abs_def] fake_new_def)
qed (simp add: store_with_def fake_new_def)

end
