(* ===== verification/Cat_Lru.thy ===== *)
theory Cat_Lru
  imports Cat_Ids
begin

text \<open>
  The least-recently-used cache (\<open>lru_cache.rs\<close>) behind the bounded process caches: entries by key with
  a recency sequence, and the keys by that sequence. Its abstract state is the list of cached pairs, most
  recently used first. The recency counter is a wrapping \<open>u64\<close>; the lemmas ask that it has not wrapped.
  The eviction loop aborts if the recency index runs dry, which is \<open>Panic\<close> here.
\<close>

section \<open>Operations\<close>

record 'v lru_cache_entry =
  le_value :: 'v
  le_sequence :: u64

record ('k, 'v) lru_cache =
  lru_capacity :: nat
  lru_entries :: "('k \<times> 'v lru_cache_entry) list"
  lru_recency :: "(u64 \<times> 'k) list"
  lru_next_sequence :: u64

definition lru_new :: "nat \<Rightarrow> ('k, 'v) lru_cache" where
  "lru_new cap = \<lparr>lru_capacity = cap, lru_entries = [], lru_recency = [], lru_next_sequence = 0\<rparr>"

definition next_recency_sequence :: "('k, 'v) lru_cache \<Rightarrow> u64 \<times> ('k, 'v) lru_cache" where
  "next_recency_sequence c = (lru_next_sequence c, c\<lparr>lru_next_sequence := lru_next_sequence c + 1\<rparr>)"

definition touch :: "'k::linorder \<Rightarrow> ('k, 'v) lru_cache \<Rightarrow> ('k, 'v) lru_cache" where
  "touch key c =
     (let (seq, c1) = next_recency_sequence c
      in case map_of (lru_entries c1) key of
           None \<Rightarrow> c1
         | Some e \<Rightarrow>
             c1\<lparr>lru_recency := btree_insert seq key (btree_remove (le_sequence e) (lru_recency c1)),
                lru_entries := btree_insert key (e\<lparr>le_sequence := seq\<rparr>) (lru_entries c1)\<rparr>)"

definition lru_get :: "'k::linorder \<Rightarrow> ('k, 'v) lru_cache \<Rightarrow> 'v option \<times> ('k, 'v) lru_cache" where
  "lru_get key c =
     (case map_of (lru_entries c) key of
        None \<Rightarrow> (None, c)
      | Some e \<Rightarrow>
          (Some (le_value e),
           if (if lru_recency c = [] then None else Some (fst (last (lru_recency c)))) \<noteq> Some (le_sequence e)
           then touch key c else c))"

fun evict_loop ::
    "nat \<Rightarrow> ('k::linorder \<times> 'e) list \<Rightarrow> (u64 \<times> 'k) list \<Rightarrow> (('k \<times> 'e) list \<times> (u64 \<times> 'k) list) catalog_result" where
  "evict_loop cap es [] =
     (if length es > cap then Inl (Panic ''each entry has a recency key'') else Inr (es, []))"
| "evict_loop cap es ((s, oldest) # rs) =
     (if length es > cap then evict_loop cap (btree_remove oldest es) rs else Inr (es, (s, oldest) # rs))"

definition lru_insert :: "'k::linorder \<Rightarrow> 'v \<Rightarrow> ('k, 'v) lru_cache \<Rightarrow> ('k, 'v) lru_cache catalog_result" where
  "lru_insert key val c =
     (if lru_capacity c = 0 then Inr c
      else let (seq, c1) = next_recency_sequence c;
               previous = map_of (lru_entries c1) key;
               entries1 = btree_insert key \<lparr>le_value = val, le_sequence = seq\<rparr> (lru_entries c1);
               recency1 = (case previous of
                   Some p \<Rightarrow> btree_remove (le_sequence p) (lru_recency c1)
                 | None \<Rightarrow> lru_recency c1);
               recency2 = btree_insert seq key recency1
           in rbind (evict_loop (lru_capacity c) entries1 recency2) (\<lambda>(es, rs).
                Inr (c1\<lparr>lru_entries := es, lru_recency := rs\<rparr>)))"

definition lru_remove :: "'k::linorder \<Rightarrow> ('k, 'v) lru_cache \<Rightarrow> ('k, 'v) lru_cache" where
  "lru_remove key c =
     (case map_of (lru_entries c) key of
        None \<Rightarrow> c
      | Some e \<Rightarrow>
          c\<lparr>lru_entries := btree_remove key (lru_entries c),
            lru_recency := btree_remove (le_sequence e) (lru_recency c)\<rparr>)"

definition lru_retain :: "('k \<Rightarrow> 'v \<Rightarrow> bool) \<Rightarrow> ('k::linorder, 'v) lru_cache \<Rightarrow> ('k, 'v) lru_cache" where
  "lru_retain keep c =
     (let es = filter (\<lambda>(k, e). keep k (le_value e)) (lru_entries c)
      in c\<lparr>lru_entries := es, lru_recency := filter (\<lambda>(s, k). map_of es k \<noteq> None) (lru_recency c)\<rparr>)"

section \<open>Invariant and abstraction\<close>

definition lru_linked :: "('k::linorder \<times> 'v lru_cache_entry) list \<Rightarrow> (u64 \<times> 'k) list \<Rightarrow> bool" where
  "lru_linked es rs \<longleftrightarrow> btree_wf es \<and> btree_wf rs \<and>
     (\<forall>s k. map_of rs s = Some k \<longleftrightarrow> (\<exists>e. map_of es k = Some e \<and> le_sequence e = s))"

definition lru_wf :: "('k::linorder, 'v) lru_cache \<Rightarrow> bool" where
  "lru_wf c \<longleftrightarrow> lru_linked (lru_entries c) (lru_recency c) \<and>
     length (lru_entries c) \<le> lru_capacity c \<and> (\<forall>x \<in> set (lru_recency c). fst x < lru_next_sequence c)"

text \<open>The cached pairs, most recently used first.\<close>

definition lru_view :: "('k::linorder \<times> 'v lru_cache_entry) list \<Rightarrow> (u64 \<times> 'k) list \<Rightarrow> ('k \<times> 'v) list" where
  "lru_view es rs = map (\<lambda>(s, k). (k, le_value (the (map_of es k)))) (rev rs)"

definition lru_abs :: "('k::linorder, 'v) lru_cache \<Rightarrow> ('k \<times> 'v) list" where
  "lru_abs c = lru_view (lru_entries c) (lru_recency c)"

lemma lru_linkedD:
  assumes "lru_linked es rs"
  shows "btree_wf es" "btree_wf rs"
    "\<And>s k. map_of rs s = Some k \<longleftrightarrow> (\<exists>e. map_of es k = Some e \<and> le_sequence e = s)"
  using assms by (auto simp: lru_linked_def)

lemma lru_linked_mem:
  "lru_linked es rs \<Longrightarrow> (s, k) \<in> set rs \<longleftrightarrow> (\<exists>e. map_of es k = Some e \<and> le_sequence e = s)"
  by (simp add: lru_linked_def btree_mem_iff)

lemma lru_linked_keys:
  assumes "lru_linked es rs"
  shows "distinct (map snd rs)" "snd ` set rs = fst ` set es" "length rs = length es"
proof -
  note D = lru_linkedD [OF assms]
  have "inj_on snd (set rs)"
    by (auto simp: inj_on_def lru_linked_mem [OF assms])
  moreover have "distinct rs" using btree_wf_distinct [OF D(2)] by (simp add: distinct_map)
  ultimately show d: "distinct (map snd rs)" by (simp add: distinct_map)
  have "k \<in> snd ` set rs \<longleftrightarrow> map_of es k \<noteq> None" for k
    using lru_linked_mem [OF assms, of _ k] by force
  then show eq: "snd ` set rs = fst ` set es" by (auto simp: dom_map_of_conv_image_fst [symmetric])
  have "length (map snd rs) = length (map fst es)"
    using d btree_wf_distinct [OF D(1)] eq by (metis distinct_card set_map)
  then show "length rs = length es" by simp
qed

lemma lru_view_keys: "map fst (lru_view es rs) = map snd (rev rs)"
  by (simp add: lru_view_def case_prod_unfold)

lemma lru_view_key_set: "fst ` set (lru_view es rs) = snd ` set rs"
  using arg_cong [OF lru_view_keys [of es rs], of set] by simp

lemma filter_other_key: "k \<notin> fst ` set m \<Longrightarrow> filter (\<lambda>p. fst p \<noteq> k) m = m"
  by (force simp: filter_id_conv)

lemma btree_remove_keys: "btree_wf m \<Longrightarrow> map_of m k = Some v \<Longrightarrow> length (btree_remove k m) = length m - 1"
proof (induction m)
  case (Cons e m)
  show ?case
  proof (cases "fst e = k")
    case True
    with Cons.prems have "k \<notin> fst ` set m" by (auto simp: btree_wf_Cons)
    then have "btree_remove k m = m" by (auto simp: btree_remove_def filter_id_conv)
    with True show ?thesis by (simp add: btree_remove_def)
  next
    case False
    with Cons.prems have k: "map_of m k = Some v" by (cases e) simp
    then have "m \<noteq> []" by auto
    with False k Cons show ?thesis by (simp add: btree_remove_def btree_wf_Cons Suc_pred)
  qed
qed simp


text \<open>Dropping a cached key, and adding a key as the most recent one.\<close>

lemma lru_drop:
  assumes "lru_linked es rs" "map_of es k = Some e"
  shows "lru_linked (btree_remove k es) (btree_remove (le_sequence e) rs)"
    and "lru_view (btree_remove k es) (btree_remove (le_sequence e) rs) = filter (\<lambda>p. fst p \<noteq> k) (lru_view es rs)"
proof -
  note D = lru_linkedD [OF assms(1)]
  show "lru_linked (btree_remove k es) (btree_remove (le_sequence e) rs)"
    unfolding lru_linked_def using D assms(2) by (auto; metis option.inject)
  have "s \<noteq> le_sequence e \<longleftrightarrow> k' \<noteq> k" if "(s, k') \<in> set rs" for s k'
    using that D(3) [of s] assms(2) by (auto simp: lru_linked_mem [OF assms(1)]) (metis option.inject)
  then have rs: "btree_remove (le_sequence e) rs = filter (\<lambda>x. snd x \<noteq> k) rs"
    by (auto simp: btree_remove_def intro!: filter_cong)
  show "lru_view (btree_remove k es) (btree_remove (le_sequence e) rs) = filter (\<lambda>p. fst p \<noteq> k) (lru_view es rs)"
    by (simp add: lru_view_def rs rev_filter filter_map comp_def case_prod_unfold)
qed

lemma btree_insert_above: "(\<forall>x \<in> set m. fst x < k) \<Longrightarrow> btree_insert k v m = m @ [(k, v)]"
  by (induction m) auto

lemma lru_add:
  fixes v :: 'v
  assumes "lru_linked es rs" "map_of es k = None" "\<forall>x \<in> set rs. fst x < s"
  defines "e \<equiv> \<lparr>le_value = v, le_sequence = s\<rparr>"
  shows "lru_linked (btree_insert k e es) (btree_insert s k rs)"
    and "lru_view (btree_insert k e es) (btree_insert s k rs) = (k, v) # lru_view es rs"
proof -
  note D = lru_linkedD [OF assms(1)]
  have fresh: "map_of rs s = None"
    using assms(3) by (auto simp: map_of_eq_None_iff)
  then show "lru_linked (btree_insert k e es) (btree_insert s k rs)"
    unfolding lru_linked_def using D assms(2) by (auto simp: e_def; force)
  have "snd x \<noteq> k" if "x \<in> set rs" for x
    using that assms(2) lru_linked_keys(2) [OF assms(1)] by (auto simp: map_of_eq_None_iff)
  then show "lru_view (btree_insert k e es) (btree_insert s k rs) = (k, v) # lru_view es rs"
    by (auto simp: lru_view_def btree_insert_above [OF assms(3)] e_def)
qed

text \<open>Eviction keeps the most recent pairs and never finds the recency index empty.\<close>

lemma lru_view_snoc:
  assumes "lru_linked es ((s, k) # rs)"
  obtains e where "map_of es k = Some e" "lru_linked (btree_remove k es) rs"
    "lru_view es ((s, k) # rs) = lru_view (btree_remove k es) rs @ [(k, le_value e)]"
proof -
  from lru_linked_mem [OF assms, of s k] obtain e where e: "map_of es k = Some e" "le_sequence e = s" by auto
  have "\<forall>x \<in> set rs. fst x \<noteq> s" using lru_linkedD(2) [OF assms] by (auto simp: btree_wf_Cons)
  then have rs: "btree_remove s ((s, k) # rs) = rs"
    by (auto simp: btree_remove_def filter_id_conv)
  have ne: "\<forall>x \<in> set rs. snd x \<noteq> k" using lru_linked_keys(1) [OF assms] by auto
  have "lru_view es ((s, k) # rs) = lru_view (btree_remove k es) rs @ [(k, le_value e)]"
    using ne e by (auto simp: lru_view_def)
  then show thesis using that e lru_drop(1) [OF assms e(1)] rs by simp
qed

lemma evict_loop_keeps_recent:
  assumes "lru_linked es rs"
  shows "\<exists>es' rs'. evict_loop cap es rs = Inr (es', rs') \<and> lru_linked es' rs' \<and> length es' \<le> cap \<and>
    lru_view es' rs' = take cap (lru_view es rs) \<and> set rs' \<subseteq> set rs"
  using assms
proof (induction rs arbitrary: es)
  case Nil
  then have "es = []" using lru_linked_keys(3) by fastforce
  with Nil show ?case by (auto simp: lru_view_def)
next
  case (Cons x rs)
  obtain s k where x: "x = (s, k)" by (cases x)
  note linked = Cons.prems [unfolded x]
  show ?case
  proof (cases "length es > cap")
    case True
    obtain e where e: "map_of es k = Some e" "lru_linked (btree_remove k es) rs"
      "lru_view es ((s, k) # rs) = lru_view (btree_remove k es) rs @ [(k, le_value e)]"
      by (rule lru_view_snoc [OF linked])
    have "cap \<le> length (lru_view (btree_remove k es) rs)"
      using True lru_linked_keys(3) [OF linked] by (simp add: lru_view_def)
    with Cons.IH [OF e(2)] True show ?thesis by (auto simp: x e(3))
  next
    case False
    then have "length (lru_view es (x # rs)) \<le> cap"
      using lru_linked_keys(3) [OF Cons.prems] by (simp add: lru_view_def)
    with False Cons.prems show ?thesis by (auto simp: x)
  qed
qed


section \<open>The operations on the abstract list\<close>

lemma replace_entry: "btree_wf m \<Longrightarrow> btree_insert k v m = btree_insert k v (btree_remove k m)"
  by (rule btree_ext) (auto simp: fun_eq_iff)

lemma lru_refresh:
  fixes v :: 'v
  assumes "lru_linked es rs" "map_of es k = Some e" "\<forall>x \<in> set rs. fst x < s"
  defines "n \<equiv> \<lparr>le_value = v, le_sequence = s\<rparr>"
  shows "lru_linked (btree_insert k n es) (btree_insert s k (btree_remove (le_sequence e) rs))"
    and "lru_view (btree_insert k n es) (btree_insert s k (btree_remove (le_sequence e) rs)) =
      (k, v) # filter (\<lambda>p. fst p \<noteq> k) (lru_view es rs)"
proof -
  note drop = lru_drop [OF assms(1,2)]
  have above: "\<forall>x \<in> set (btree_remove (le_sequence e) rs). fst x < s"
    using assms(3) by (auto simp: btree_remove_def)
  have gone: "map_of (btree_remove k es) k = None" by simp
  show "lru_linked (btree_insert k n es) (btree_insert s k (btree_remove (le_sequence e) rs))"
    using lru_add(1) [OF drop(1) gone above, of v] replace_entry [OF lru_linkedD(1) [OF assms(1)], of k n]
    by (simp add: n_def)
  show "lru_view (btree_insert k n es) (btree_insert s k (btree_remove (le_sequence e) rs)) =
      (k, v) # filter (\<lambda>p. fst p \<noteq> k) (lru_view es rs)"
    using lru_add(2) [OF drop(1) gone above, of v] replace_entry [OF lru_linkedD(1) [OF assms(1)], of k n]
    by (simp add: n_def drop(2))
qed

lemma lru_view_absent: "lru_linked es rs \<Longrightarrow> map_of es k = None \<Longrightarrow> filter (\<lambda>p. fst p \<noteq> k) (lru_view es rs) = lru_view es rs"
  using lru_linked_keys(2) [of es rs]
  by (simp add: filter_other_key lru_view_key_set map_of_eq_None_iff)

lemma lru_view_lookup: "lru_linked es rs \<Longrightarrow> map_of (lru_view es rs) k = map_option le_value (map_of es k)"
proof -
  assume linked: "lru_linked es rs"
  have d: "distinct (map fst (lru_view es rs))"
    using lru_linked_keys(1) [OF linked] by (simp add: lru_view_keys rev_map [symmetric])
  show ?thesis
  proof (cases "map_of es k")
    case None
    with lru_linked_keys(2) [OF linked] have "k \<notin> fst ` set (lru_view es rs)"
      by (simp add: lru_view_key_set map_of_eq_None_iff)
    then have "map_of (lru_view es rs) k = None" by (simp add: map_of_eq_None_iff)
    with None show ?thesis by simp
  next
    case (Some e)
    then have "(le_sequence e, k) \<in> set rs" by (simp add: lru_linked_mem [OF linked])
    then have "(k, le_value e) \<in> set (lru_view es rs)"
      using Some by (force simp: lru_view_def)
    with d Some show ?thesis by simp
  qed
qed

lemma u64_Suc: "(n :: u64) < - 1 \<Longrightarrow> n < n + 1"
proof -
  assume "n < - 1"
  then have "unat n < 2 ^ 64 - 1" by (simp add: word_less_nat_alt unat_minus_one_word)
  then show ?thesis by (simp add: word_less_nat_alt unat_word_ariths)
qed

lemma lru_recency_bound:
  assumes "lru_next_sequence c < - 1" "\<forall>x \<in> set rs. fst x < lru_next_sequence c"
  shows "\<forall>x \<in> set (btree_insert (lru_next_sequence c) k (btree_remove s rs)). fst x < lru_next_sequence c + 1"
    "\<forall>x \<in> set (btree_insert (lru_next_sequence c) k rs). fst x < lru_next_sequence c + 1"
  using assms u64_Suc [OF assms(1)]
  by (auto simp: btree_insert_above btree_remove_def dest: less_trans)

lemma lru_touch:
  assumes "lru_wf c" "lru_next_sequence c < - 1" "map_of (lru_entries c) k = Some e"
  shows "lru_wf (touch k c)" "lru_abs (touch k c) = (k, le_value e) # filter (\<lambda>p. fst p \<noteq> k) (lru_abs c)"
proof -
  have linked: "lru_linked (lru_entries c) (lru_recency c)"
    and above: "\<forall>x \<in> set (lru_recency c). fst x < lru_next_sequence c"
    and cap: "length (lru_entries c) \<le> lru_capacity c" using assms(1) by (auto simp: lru_wf_def)
  note r = lru_refresh [OF linked assms(3) above, of "le_value e"]
  have e: "e\<lparr>le_sequence := s\<rparr> = \<lparr>le_value = le_value e, le_sequence = s\<rparr>" for s by (cases e) simp
  have len: "length (btree_insert k x (lru_entries c)) = length (lru_entries c)" for x
  proof -
    have "fst ` set (btree_insert k x (lru_entries c)) = fst ` set (lru_entries c)"
      using assms(3) by (simp add: fst_btree_insert insert_absorb dom_map_of_conv_image_fst [symmetric] domI)
    moreover have "btree_wf (btree_insert k x (lru_entries c))" using lru_linkedD(1) [OF linked] by blast
    ultimately show ?thesis
      using btree_wf_distinct lru_linkedD(1) [OF linked] by (metis distinct_card length_map set_map)
  qed
  show "lru_wf (touch k c)"
    using r(1) cap lru_recency_bound(1) [OF assms(2) above]
    by (simp add: touch_def next_recency_sequence_def assms(3) e lru_wf_def len)
  show "lru_abs (touch k c) = (k, le_value e) # filter (\<lambda>p. fst p \<noteq> k) (lru_abs c)"
    using r(2) by (simp add: touch_def next_recency_sequence_def assms(3) e lru_abs_def)
qed

lemma lru_last_abs:
  assumes "lru_wf c" "lru_recency c \<noteq> []" "map_of (lru_entries c) k = Some e"
    "fst (last (lru_recency c)) = le_sequence e"
  shows "lru_abs c = (k, le_value e) # filter (\<lambda>p. fst p \<noteq> k) (lru_abs c)"
proof -
  have linked: "lru_linked (lru_entries c) (lru_recency c)" using assms(1) by (simp add: lru_wf_def)
  obtain s k' where l: "last (lru_recency c) = (s, k')" by (cases "last (lru_recency c)")
  with assms(2) have "(s, k') \<in> set (lru_recency c)" by (metis last_in_set)
  moreover have "(s, k) \<in> set (lru_recency c)"
    using assms(3,4) l by (simp add: lru_linked_mem [OF linked])
  ultimately have "k' = k" using lru_linkedD(2) [OF linked] by (simp add: btree_mem_iff)
  then have rs: "lru_recency c = butlast (lru_recency c) @ [(s, k)]"
    using l assms(2) by (metis append_butlast_last_id)
  have "k \<notin> set (map snd (butlast (lru_recency c)))"
    using lru_linked_keys(1) [OF linked] by (subst (asm) rs) simp
  then have "filter (\<lambda>p. fst p \<noteq> k) (lru_view (lru_entries c) (butlast (lru_recency c))) =
      lru_view (lru_entries c) (butlast (lru_recency c))"
    by (simp add: filter_other_key lru_view_key_set)
  moreover have "lru_abs c = (k, le_value e) # lru_view (lru_entries c) (butlast (lru_recency c))"
    unfolding lru_abs_def by (subst rs) (simp add: lru_view_def assms(3))
  ultimately show ?thesis by simp
qed


lemma lru_get_view:
  assumes "lru_wf c" "lru_next_sequence c < - 1"
  shows "fst (lru_get k c) = map_of (lru_abs c) k \<and> lru_wf (snd (lru_get k c)) \<and>
    lru_abs (snd (lru_get k c)) =
      (case map_of (lru_abs c) k of None \<Rightarrow> lru_abs c | Some v \<Rightarrow> (k, v) # filter (\<lambda>p. fst p \<noteq> k) (lru_abs c))"
proof -
  have look: "map_of (lru_abs c) k = map_option le_value (map_of (lru_entries c) k)"
    using assms(1) by (simp add: lru_wf_def lru_abs_def lru_view_lookup)
  show ?thesis
  proof (cases "map_of (lru_entries c) k")
    case None
    with look assms(1) show ?thesis by (simp add: lru_get_def)
  next
    case (Some e)
    have ne: "lru_recency c \<noteq> []"
      using Some lru_linked_mem [of "lru_entries c" "lru_recency c" "le_sequence e" k] assms(1)
      by (auto simp: lru_wf_def)
    with Some look lru_touch [OF assms Some] lru_last_abs [OF assms(1) ne Some] assms(1) show ?thesis
      by (cases "fst (last (lru_recency c)) = le_sequence e") (simp_all add: lru_get_def)
  qed
qed

lemma lru_insert_view:
  assumes "lru_wf c" "lru_next_sequence c < - 1"
  shows "\<exists>c'. lru_insert k v c = Inr c' \<and> lru_wf c' \<and>
    lru_abs c' = take (lru_capacity c) ((k, v) # filter (\<lambda>p. fst p \<noteq> k) (lru_abs c))"
proof (cases "lru_capacity c = 0")
  case True
  then have "lru_abs c = []"
    using assms(1) lru_linked_keys(3) [of "lru_entries c" "lru_recency c"]
    by (auto simp: lru_wf_def lru_abs_def lru_view_def)
  with True assms(1) show ?thesis by (simp add: lru_insert_def)
next
  case False
  have linked: "lru_linked (lru_entries c) (lru_recency c)"
    and above: "\<forall>x \<in> set (lru_recency c). fst x < lru_next_sequence c" using assms(1) by (auto simp: lru_wf_def)
  define n where "n = \<lparr>le_value = v, le_sequence = lru_next_sequence c\<rparr>"
  define rs where "rs = btree_insert (lru_next_sequence c) k (case map_of (lru_entries c) k of
      Some p \<Rightarrow> btree_remove (le_sequence p) (lru_recency c) | None \<Rightarrow> lru_recency c)"
  have new: "lru_linked (btree_insert k n (lru_entries c)) rs \<and>
      lru_view (btree_insert k n (lru_entries c)) rs = (k, v) # filter (\<lambda>p. fst p \<noteq> k) (lru_abs c)"
  proof (cases "map_of (lru_entries c) k")
    case None
    with lru_add [OF linked None above, of v] lru_view_absent [OF linked None] show ?thesis
      by (simp add: n_def rs_def lru_abs_def)
  next
    case (Some e)
    with lru_refresh [OF linked Some above, of v] show ?thesis by (simp add: n_def rs_def lru_abs_def)
  qed
  have bound: "\<forall>x \<in> set rs. fst x < lru_next_sequence c + 1"
    using lru_recency_bound [OF assms(2) above] by (simp add: rs_def split: option.split)
  from evict_loop_keeps_recent [OF conjunct1 [OF new], of "lru_capacity c"] obtain es' rs' where
    ev: "evict_loop (lru_capacity c) (btree_insert k n (lru_entries c)) rs = Inr (es', rs')" "lru_linked es' rs'"
      "length es' \<le> lru_capacity c" "lru_view es' rs' = take (lru_capacity c) (lru_view (btree_insert k n (lru_entries c)) rs)"
      "set rs' \<subseteq> set rs" by blast
  let ?c = "c\<lparr>lru_next_sequence := lru_next_sequence c + 1, lru_entries := es', lru_recency := rs'\<rparr>"
  have "lru_insert k v c = Inr ?c"
    using False ev(1)
    by (cases "map_of (lru_entries c) k")
       (simp_all add: lru_insert_def next_recency_sequence_def Let_def n_def rs_def)
  moreover have "lru_wf ?c" using ev(2,3,5) bound by (auto simp: lru_wf_def)
  moreover have "lru_abs ?c = take (lru_capacity c) ((k, v) # filter (\<lambda>p. fst p \<noteq> k) (lru_abs c))"
    using ev(4) new by (simp add: lru_abs_def)
  ultimately show ?thesis by blast
qed

lemma btree_remove_length: "length (btree_remove k m) \<le> length m"
  by (simp add: btree_remove_def)

lemma lru_remove_view:
  assumes "lru_wf c"
  shows "lru_wf (lru_remove k c) \<and> lru_abs (lru_remove k c) = filter (\<lambda>p. fst p \<noteq> k) (lru_abs c)"
proof (cases "map_of (lru_entries c) k")
  case None
  with assms show ?thesis by (simp add: lru_remove_def lru_abs_def lru_view_absent lru_wf_def)
next
  case (Some e)
  have linked: "lru_linked (lru_entries c) (lru_recency c)" using assms by (simp add: lru_wf_def)
  have "length (btree_remove k (lru_entries c)) \<le> lru_capacity c"
    using assms btree_remove_length [of k "lru_entries c"] by (simp add: lru_wf_def)
  with Some lru_drop [OF linked Some] assms show ?thesis
    by (simp add: lru_remove_def lru_abs_def lru_wf_def) (simp add: btree_remove_def)
qed

lemma lru_retain_view:
  assumes "lru_wf c"
  shows "lru_wf (lru_retain keep c) \<and> lru_abs (lru_retain keep c) = filter (\<lambda>(k, v). keep k v) (lru_abs c)"
proof -
  have linked: "lru_linked (lru_entries c) (lru_recency c)"
    and cap: "length (lru_entries c) \<le> lru_capacity c"
    and above: "\<forall>x \<in> set (lru_recency c). fst x < lru_next_sequence c" using assms by (auto simp: lru_wf_def)
  let ?es = "filter (\<lambda>(k, e). keep k (le_value e)) (lru_entries c)"
  let ?rs = "filter (\<lambda>(s, k). map_of ?es k \<noteq> None) (lru_recency c)"
  note D = lru_linkedD [OF linked]
  have wf: "btree_wf ?es" "btree_wf ?rs" using D(1,2) by auto
  have es: "map_of ?es k = Some e \<longleftrightarrow> map_of (lru_entries c) k = Some e \<and> keep k (le_value e)" for k e
    using btree_mem_iff [OF wf(1), of k e] btree_mem_iff [OF D(1), of k e] by auto
  have "map_of ?rs s = Some k \<longleftrightarrow> (\<exists>e. map_of ?es k = Some e \<and> le_sequence e = s)" for s k
    using btree_mem_iff [OF wf(2), of s k] lru_linked_mem [OF linked, of s k] by (auto simp: es)
  with wf have l: "lru_linked ?es ?rs" by (simp add: lru_linked_def)
  have "map_of ?es k \<noteq> None \<longleftrightarrow> keep k (le_value (the (map_of (lru_entries c) k)))"
    "map_of ?es k \<noteq> None \<Longrightarrow> map_of ?es k = map_of (lru_entries c) k"
    if "(s, k) \<in> set (lru_recency c)" for s k
    using that lru_linked_mem [OF linked, of s k] by (auto simp: es)
  then have "lru_view ?es ?rs = filter (\<lambda>(k, v). keep k v) (lru_view (lru_entries c) (lru_recency c))"
    by (force simp: lru_view_def rev_filter filter_map comp_def case_prod_unfold intro!: map_cong filter_cong)
  moreover have "length ?es \<le> lru_capacity c" using cap by (meson le_trans length_filter_le)
  ultimately show ?thesis
    using l above by (auto simp: lru_retain_def Let_def lru_abs_def lru_wf_def)
qed


section \<open>What the users of a cache rely on\<close>

text \<open>A cache may forget but never invents: a hit is a value that was inserted for the key. A user that
  only inserts the value of a fixed function keeps the cache coherent with it, and then a hit is that value.\<close>

locale lossy_cache =
  fixes invar :: "'c \<Rightarrow> bool"
    and ready :: "'c \<Rightarrow> bool"
    and lookup :: "'c \<Rightarrow> 'k \<rightharpoonup> 'v"
    and get :: "'k \<Rightarrow> 'c \<Rightarrow> 'v option \<times> 'c"
    and ins :: "'k \<Rightarrow> 'v \<Rightarrow> 'c \<Rightarrow> 'c catalog_result"
    and remove :: "'k \<Rightarrow> 'c \<Rightarrow> 'c"
  assumes get_law: "invar c \<Longrightarrow> ready c \<Longrightarrow> get k c = (r, c') \<Longrightarrow>
      r = lookup c k \<and> lookup c' = lookup c \<and> invar c'"
    and ins_law: "invar c \<Longrightarrow> ready c \<Longrightarrow>
      \<exists>c'. ins k v c = Inr c' \<and> invar c' \<and> lookup c' \<subseteq>\<^sub>m (lookup c)(k \<mapsto> v)"
    and remove_law: "invar c \<Longrightarrow> invar (remove k c) \<and> lookup (remove k c) = (lookup c)(k := None)"
begin

definition coherent :: "('k \<rightharpoonup> 'v) \<Rightarrow> 'c \<Rightarrow> bool" where
  "coherent f c \<longleftrightarrow> lookup c \<subseteq>\<^sub>m f"

lemma coherent_get:
  "invar c \<Longrightarrow> ready c \<Longrightarrow> coherent f c \<Longrightarrow> get k c = (Some v, c') \<Longrightarrow> f k = Some v \<and> coherent f c'"
  using get_law [of c k "Some v" c'] by (metis coherent_def domI map_le_def)

lemma coherent_insert:
  assumes "invar c" "ready c" "coherent f c" "f k = Some v"
  shows "\<exists>c'. ins k v c = Inr c' \<and> invar c' \<and> coherent f c'"
proof -
  from ins_law [OF assms(1,2), of k v] obtain c' where c': "ins k v c = Inr c'" "invar c'"
    "lookup c' \<subseteq>\<^sub>m (lookup c)(k \<mapsto> v)" by blast
  have "(lookup c)(k \<mapsto> v) \<subseteq>\<^sub>m f" using assms(3,4) by (auto simp: coherent_def map_le_def)
  with c' show ?thesis by (auto simp: coherent_def intro: map_le_trans)
qed

text \<open>When the function changes at one key, removing that key restores coherence.\<close>

lemma coherent_remove:
  "invar c \<Longrightarrow> coherent f c \<Longrightarrow> coherent (f(k := w)) (remove k c)"
  by (auto simp: coherent_def remove_law map_le_def)

end

definition lru_ready :: "('k::linorder, 'v) lru_cache \<Rightarrow> bool" where
  "lru_ready c \<longleftrightarrow> lru_next_sequence c < - 1"

definition lru_lookup :: "('k::linorder, 'v) lru_cache \<Rightarrow> 'k \<rightharpoonup> 'v" where
  "lru_lookup c = map_of (lru_abs c)"

lemma map_of_front: "map_of m k = Some v \<Longrightarrow> map_of ((k, v) # filter (\<lambda>p. fst p \<noteq> k) m) = map_of m"
  using map_of_filter_fst [of "\<lambda>x. x \<noteq> k" m] by (auto simp: fun_eq_iff)

lemma map_of_take_le: "distinct (map fst m) \<Longrightarrow> map_of (take n m) \<subseteq>\<^sub>m map_of m"
  by (auto simp: map_le_def dom_map_of_conv_image_fst)
     (metis distinct_map in_set_takeD map_of_eq_Some_iff distinct_take take_map)

lemma lru_abs_distinct: "lru_wf c \<Longrightarrow> distinct (map fst (lru_abs c))"
  using lru_linked_keys(1) [of "lru_entries c" "lru_recency c"]
  by (simp add: lru_wf_def lru_abs_def lru_view_keys rev_map [symmetric])

interpretation lru: lossy_cache lru_wf lru_ready lru_lookup lru_get lru_insert lru_remove
proof
  fix c :: "('a::linorder, 'b) lru_cache" and k r c'
  assume "lru_wf c" "lru_ready c" "lru_get k c = (r, c')"
  with lru_get_view [of c k] show "r = lru_lookup c k \<and> lru_lookup c' = lru_lookup c \<and> lru_wf c'"
    by (auto simp: lru_ready_def lru_lookup_def map_of_front [simplified] split: option.splits)
next
  fix c :: "('a::linorder, 'b) lru_cache" and k v
  assume c: "lru_wf c" "lru_ready c"
  let ?m = "(k, v) # filter (\<lambda>p. fst p \<noteq> k) (lru_abs c)"
  have "distinct (map fst ?m)" using lru_abs_distinct [OF c(1)] by (auto simp: distinct_map_filter)
  then have "map_of (take (lru_capacity c) ?m) \<subseteq>\<^sub>m map_of ?m" by (rule map_of_take_le)
  moreover have "map_of ?m = (lru_lookup c)(k \<mapsto> v)"
    using map_of_filter_fst [of "\<lambda>x. x \<noteq> k" "lru_abs c"] by (auto simp: lru_lookup_def fun_eq_iff)
  ultimately show "\<exists>c'. lru_insert k v c = Inr c' \<and> lru_wf c' \<and> lru_lookup c' \<subseteq>\<^sub>m (lru_lookup c)(k \<mapsto> v)"
    using lru_insert_view [of c k v] c by (auto simp: lru_ready_def lru_lookup_def)
next
  fix c :: "('a::linorder, 'b) lru_cache" and k
  assume "lru_wf c"
  then show "lru_wf (lru_remove k c) \<and> lru_lookup (lru_remove k c) = (lru_lookup c)(k := None)"
    using lru_remove_view [of c k] map_of_filter_fst [of "\<lambda>x. x \<noteq> k" "lru_abs c"]
    by (auto simp: lru_lookup_def fun_eq_iff)
qed

section \<open>Properties\<close>



end
