(* ===== verification/Cat_Partitions.thy ===== *)
theory Cat_Partitions
  imports Cat_Store Cat_Lru "HOL-Library.Product_Lexorder"
begin

text \<open>
  Partition values of data files (\<open>file_partitions.rs\<close>): the row and its encoding, the lookup index with
  the embedded data file row, registration and removal, and the loader that chooses between one dense range
  scan and one prefix scan per file. The scans that combine partitions with file listings are in
  \<open>Cat_File_Listing\<close>. A \<open>BTreeSet\<close> argument is its sorted list of elements.
\<close>

section \<open>Rows\<close>

record file_partition_value_row =
  pv_data_file_id :: data_file_id
  pv_table_id :: table_id
  pv_partition_key_index :: partition_key_index
  pv_partition_value :: rust_string

definition partition_decode_u64 :: "bytes \<Rightarrow> u64 catalog_result" where
  "partition_decode_u64 bs = be_u64 (Decode ''field is truncated'') bs"

definition partition_decode_u32 :: "bytes \<Rightarrow> u32 catalog_result" where
  "partition_decode_u32 bs = be_u32 (Decode ''field is truncated'') bs"

definition partition_row_encode :: "file_partition_value_row \<Rightarrow> bytes" where
  "partition_row_encode r =
     [1] @ u64_to_be_bytes (pv_data_file_id r) @ u64_to_be_bytes (pv_table_id r) @
     u32_to_be_bytes (pv_partition_key_index r) @ len_u32 (pv_partition_value r) @ pv_partition_value r"

definition partition_row_decode :: "bytes \<Rightarrow> file_partition_value_row catalog_result" where
  "partition_row_decode bs =
     (if length bs < 1 + 8 + 8 + 4 + 4 then Inl (Decode ''file partition value row is too short'')
      else rbind (byte_at bs 0) (\<lambda>version.
        if version \<noteq> 1 then Inl (Decode ''unsupported file partition value row version'')
        else rbind (slice bs 1 9) (\<lambda>fb. rbind (partition_decode_u64 fb) (\<lambda>data_file_id.
          rbind (slice bs 9 17) (\<lambda>tb. rbind (partition_decode_u64 tb) (\<lambda>table_id.
          rbind (slice bs 17 21) (\<lambda>ib. rbind (partition_decode_u32 ib) (\<lambda>index.
          rbind (slice bs 21 25) (\<lambda>lb. rbind (partition_decode_u32 lb) (\<lambda>n.
            let value_end = 25 + unat n in
            if length bs \<noteq> value_end then Inl (Decode ''file partition value row has wrong length'')
            else rbind (slice bs 25 value_end) (\<lambda>vb.
              rbind (str_from_utf8 (Decode ''partition value is not utf8'') vb) (\<lambda>v.
                Inr \<lparr>pv_data_file_id = data_file_id, pv_table_id = table_id,
                     pv_partition_key_index = index, pv_partition_value = v\<rparr>))))))))))))"

text \<open>\<open>compare_partition_values\<close>: the tuple the rows are sorted by.\<close>

definition partition_sort_key :: "file_partition_value_row \<Rightarrow> u64 \<times> u64 \<times> u32 \<times> bytes" where
  "partition_sort_key r =
     (pv_table_id r, pv_data_file_id r, pv_partition_key_index r, pv_partition_value r)"

section \<open>The lookup index\<close>

definition partition_lookup_key :: "catalog_id \<Rightarrow> file_partition_value_row \<Rightarrow> bytes" where
  "partition_lookup_key catalog r =
     partition_value_lookup_key catalog (pv_table_id r) (pv_partition_key_index r)
       (pv_partition_value r) (pv_data_file_id r)"

definition partition_key_lookup_prefix :: "catalog_id \<Rightarrow> table_id \<Rightarrow> partition_key_index \<Rightarrow> bytes" where
  "partition_key_lookup_prefix catalog table_id index =
     family_prefix catalog PartitionValueLookup @ u64_to_be_bytes table_id @ [slash] @
     u32_to_be_bytes index @ [slash]"

definition encode_partition_lookup_value :: "file_partition_value_row \<Rightarrow> data_file_row \<Rightarrow> bytes" where
  "encode_partition_lookup_value r d =
     (let p = partition_row_encode r; f = data_file_row_encode d
      in [2] @ len_u32 p @ p @ len_u32 f @ f)"

definition take_len_prefixed :: "bytes \<Rightarrow> (bytes \<times> bytes) catalog_result" where
  "take_len_prefixed bs =
     (if length bs < 4 then Inl (Decode ''length is truncated'')
      else rbind (partition_decode_u32 (take 4 bs)) (\<lambda>n.
        let value_end = 4 + unat n in
        if length bs < value_end then Inl (Decode ''value is truncated'')
        else Inr (take (value_end - 4) (drop 4 bs), drop value_end bs)))"

definition decode_partition_lookup_value :: "bytes \<Rightarrow> data_file_row catalog_result" where
  "decode_partition_lookup_value bs =
     (case bs of
        [] \<Rightarrow> Inl (Decode ''partition lookup value is empty'')
      | version # tail \<Rightarrow>
          if version \<noteq> 2 then Inl (Decode ''unsupported partition lookup value version'')
          else rbind (take_len_prefixed tail) (\<lambda>(p, tail1).
            rbind (partition_row_decode p) (\<lambda>_.
            rbind (take_len_prefixed tail1) (\<lambda>(f, tail2).
              if tail2 \<noteq> [] then Inl (Decode ''partition lookup value has trailing bytes'')
              else data_file_row_decode f))))"

definition partition_decode_data_file_id :: "bytes \<Rightarrow> data_file_id catalog_result" where
  "partition_decode_data_file_id bs =
     (if length bs \<noteq> 8 then Inl (Decode ''data file id pointer must be 8 bytes'')
      else be_u64 (Decode ''data file id pointer is truncated'') bs)"

datatype partition_lookup_value =
    WithDataFile data_file_row
  | PartitionOnly file_partition_value_row
  | LookupPointer data_file_id

definition partition_lookup_value_decode :: "bytes \<Rightarrow> partition_lookup_value catalog_result" where
  "partition_lookup_value_decode bs =
     (if bs \<noteq> [] \<and> hd bs = 2
      then rbind (decode_partition_lookup_value bs) (\<lambda>d. Inr (WithDataFile d))
      else case partition_row_decode bs of
        Inr r \<Rightarrow> Inr (PartitionOnly r)
      | Inl _ \<Rightarrow> rbind (partition_decode_data_file_id bs) (\<lambda>i. Inr (LookupPointer i)))"

datatype partition_lookup_data_file = InlineRow data_file_row | PointerTo data_file_id

definition decode_partition_lookup_data_file :: "bytes \<Rightarrow> partition_lookup_data_file catalog_result" where
  "decode_partition_lookup_data_file v =
     rbind (partition_lookup_value_decode v) (\<lambda>x.
       Inr (case x of
              WithDataFile d \<Rightarrow> InlineRow d
            | PartitionOnly r \<Rightarrow> PointerTo (pv_data_file_id r)
            | LookupPointer i \<Rightarrow> PointerTo i))"

definition partition_lookup_data_file_id :: "bytes \<Rightarrow> data_file_id catalog_result" where
  "partition_lookup_data_file_id v =
     rbind (decode_partition_lookup_data_file v) (\<lambda>x.
       Inr (case x of InlineRow d \<Rightarrow> df_data_file_id d | PointerTo i \<Rightarrow> i))"

section \<open>Registration and removal\<close>

definition stage_file_partition_value ::
    "kv_batch \<Rightarrow> catalog_id \<Rightarrow> file_partition_value_row \<Rightarrow> data_file_row \<Rightarrow> kv_batch" where
  "stage_file_partition_value b catalog r d =
     (let b1 = batch_put b (file_partition_value_key catalog (pv_data_file_id r) (pv_partition_key_index r))
                 (partition_row_encode r)
      in batch_put b1 (partition_lookup_key catalog r) (encode_partition_lookup_value r d))"

definition register_file_partition_value ::
    "fake_kv \<Rightarrow> catalog_id \<Rightarrow> file_partition_value_row \<Rightarrow> file_partition_value_row kv_op" where
  "register_file_partition_value kv catalog r =
     (case fake_get kv (data_file_key catalog (pv_data_file_id r)) of
        None \<Rightarrow> (Inl (NotFound ''data file''), kv)
      | Some v \<Rightarrow>
          attempt kv (data_file_row_decode v) (\<lambda>d.
            if df_table_id d \<noteq> pv_table_id r
            then (Inl (InvalidMutation ''partition table does not match data file table''), kv)
            else attempt kv
              (case fake_get kv (file_partition_value_key catalog (pv_data_file_id r) (pv_partition_key_index r)) of
                 None \<Rightarrow> Inr batch_new
               | Some old \<Rightarrow> rbind (partition_row_decode old) (\<lambda>e.
                   Inr (batch_delete batch_new (partition_lookup_key catalog e))))
              (\<lambda>b. commit_then kv (stage_file_partition_value b catalog r d) r)))"

definition list_file_partition_values ::
    "fake_kv \<Rightarrow> catalog_id \<Rightarrow> file_partition_value_row list catalog_result" where
  "list_file_partition_values kv catalog =
     rbind (fake_scan_prefix kv (family_prefix catalog FilePartitionValue) Forward None) (\<lambda>page.
     rbind (rmap (\<lambda>i. partition_row_decode (ri_value i)) page) (\<lambda>rows.
       Inr (sort_key partition_sort_key rows)))"

definition delete_partition_values_for_data_file ::
    "fake_kv \<Rightarrow> kv_batch \<Rightarrow> catalog_id \<Rightarrow> data_file_id \<Rightarrow> kv_batch catalog_result" where
  "delete_partition_values_for_data_file kv b catalog data_file_id =
     rbind (fake_scan_prefix kv (file_partition_value_prefix catalog data_file_id) Forward None) (\<lambda>page.
       rfold (\<lambda>i b. rbind (partition_row_decode (ri_value i)) (\<lambda>r.
         Inr (batch_delete (batch_delete b (ri_key i)) (partition_lookup_key catalog r)))) page b)"

definition delete_partition_lookups_for_data_file ::
    "fake_kv \<Rightarrow> kv_batch \<Rightarrow> catalog_id \<Rightarrow> data_file_id \<Rightarrow> kv_batch catalog_result" where
  "delete_partition_lookups_for_data_file kv b catalog data_file_id =
     rbind (fake_scan_prefix kv (file_partition_value_prefix catalog data_file_id) Forward None) (\<lambda>page.
       rfold (\<lambda>i b. rbind (partition_row_decode (ri_value i)) (\<lambda>r.
         Inr (batch_delete b (partition_lookup_key catalog r)))) page b)"

section \<open>Loading the values of a set of files\<close>

definition decode_file_partition_values ::
    "range_item list \<Rightarrow> data_file_id \<Rightarrow> file_partition_value_row list catalog_result" where
  "decode_file_partition_values page data_file_id =
     rbind (rmap (\<lambda>i. rbind (partition_row_decode (ri_value i)) (\<lambda>r.
         if pv_data_file_id r \<noteq> data_file_id
         then Inl (Decode ''file partition value prefix decoded another data file'') else Inr r)) page)
       (\<lambda>rows. Inr (sort_key partition_sort_key rows))"

definition u64_saturating_sub :: "u64 \<Rightarrow> u64 \<Rightarrow> u64" where
  "u64_saturating_sub a b = (if b \<le> a then a - b else 0)"

definition u64_saturating_mul :: "u64 \<Rightarrow> u64 \<Rightarrow> u64" where
  "u64_saturating_mul a b = (if unat a * unat b < 2 ^ 64 then a * b else - 1)"

definition dense_partition_value_scan_is_worthwhile :: "data_file_id list \<Rightarrow> bool" where
  "dense_partition_value_scan_is_worthwhile ids \<longleftrightarrow>
     (if length ids < 2 then False
      else saturating_add (u64_saturating_sub (last ids) (hd ids)) 1 \<le>
           u64_saturating_mul (word_of_nat (length ids)) 8)"

definition load_dense_file_partition_values ::
    "fake_kv \<Rightarrow> catalog_id \<Rightarrow> data_file_id list \<Rightarrow> file_partition_value_row list catalog_result" where
  "load_dense_file_partition_values kv catalog ids =
     (if ids = [] then Inr []
      else rbind (fake_scan_range kv (file_partition_value_prefix catalog (hd ids))
                    (prefix_end (file_partition_value_prefix catalog (last ids))) Forward None) (\<lambda>page.
        rbind (rmap (\<lambda>i. partition_row_decode (ri_value i)) page) (\<lambda>rows.
          Inr (concat (map (\<lambda>f. sort_key partition_sort_key (filter (\<lambda>r. pv_data_file_id r = f) rows)) ids)))))"

definition load_sparse_file_partition_values ::
    "fake_kv \<Rightarrow> catalog_id \<Rightarrow> data_file_id list \<Rightarrow> file_partition_value_row list catalog_result" where
  "load_sparse_file_partition_values kv catalog ids =
     rbind (kv_scan_prefixes (fake_scan_prefix kv) (map (file_partition_value_prefix catalog) ids) Forward None)
       (\<lambda>pages. rbind (rmap (\<lambda>(f, page). decode_file_partition_values page f) (zip ids pages)) (\<lambda>rows.
         Inr (concat rows)))"

definition load_missing_file_partition_values ::
    "fake_kv \<Rightarrow> catalog_id \<Rightarrow> data_file_id list \<Rightarrow> file_partition_value_row list catalog_result" where
  "load_missing_file_partition_values kv catalog missing =
     (if missing = [] then Inr []
      else let ids = sort missing in
        if dense_partition_value_scan_is_worthwhile ids then load_dense_file_partition_values kv catalog ids
        else load_sparse_file_partition_values kv catalog ids)"

definition list_file_partition_values_for_data_files ::
    "fake_kv \<Rightarrow> catalog_id \<Rightarrow> data_file_id list \<Rightarrow> file_partition_value_row list catalog_result" where
  "list_file_partition_values_for_data_files kv catalog ids =
     rbind (load_missing_file_partition_values kv catalog ids) (\<lambda>rows.
       Inr (sort_key partition_sort_key rows))"

definition list_file_partition_values_for_data_files_and_keys ::
    "fake_kv \<Rightarrow> catalog_id \<Rightarrow> data_file_id list \<Rightarrow> partition_key_index list \<Rightarrow>
     file_partition_value_row list catalog_result" where
  "list_file_partition_values_for_data_files_and_keys kv catalog ids indices =
     (let requested = concat (map (\<lambda>f. map (\<lambda>i. (f, i)) indices) ids) in
      rbind (kv_batch_get (\<lambda>k. Inr (fake_get kv k)) (map (\<lambda>(f, i). file_partition_value_key catalog f i) requested))
        (\<lambda>vals. rbind (rfold (\<lambda>((f, i), v) rows.
            case v of
              None \<Rightarrow> Inr rows
            | Some bs \<Rightarrow> rbind (partition_row_decode bs) (\<lambda>r.
                if pv_data_file_id r \<noteq> f \<or> pv_partition_key_index r \<noteq> i
                then Inl (Decode ''file partition value key decoded another row'')
                else Inr (rows @ [r]))) (zip requested vals) [])
          (\<lambda>rows. Inr (sort_key partition_sort_key rows))))"


section \<open>Round trips\<close>

definition partition_row_ok :: "file_partition_value_row \<Rightarrow> bool" where
  "partition_row_ok r \<longleftrightarrow> string_ok (pv_partition_value r)"

lemma partition_row_roundtrip:
  "partition_row_ok r \<Longrightarrow> partition_row_decode (partition_row_encode r) = Inr r"
  by (simp add: partition_row_decode_def partition_row_encode_def partition_row_ok_def string_ok_def row_read
      partition_decode_u64_def partition_decode_u32_def be_u64_def be_u32_def slice_def byte_at_def nth_append
      len_u32_def unat_len_word str_from_utf8_def)

lemma take_len_prefixed_field:
  "length v < 2 ^ 32 \<Longrightarrow> take_len_prefixed (len_u32 v @ v @ rest) = Inr (v, rest)"
  by (simp add: take_len_prefixed_def partition_decode_u32_def be_u32_def len_u32_def unat_len_word)

lemma partition_lookup_value_roundtrip:
  assumes "partition_row_ok r" "data_file_row_ok d" "length (partition_row_encode r) < 2 ^ 32"
    "length (data_file_row_encode d) < 2 ^ 32"
  shows "partition_lookup_value_decode (encode_partition_lookup_value r d) = Inr (WithDataFile d)"
proof -
  have "take_len_prefixed (len_u32 (data_file_row_encode d) @ data_file_row_encode d) =
      Inr (data_file_row_encode d, [])"
    using take_len_prefixed_field [OF assms(4), of "[]"] by simp
  then have "decode_partition_lookup_value (encode_partition_lookup_value r d) = Inr d"
    by (simp add: decode_partition_lookup_value_def encode_partition_lookup_value_def Let_def
        take_len_prefixed_field [OF assms(3)] partition_row_roundtrip [OF assms(1)]
        data_file_row_roundtrip [OF assms(2)])
  then show ?thesis
    by (simp add: partition_lookup_value_decode_def) (simp add: encode_partition_lookup_value_def Let_def)
qed

section \<open>A well-formed partition index\<close>

definition partition_values_wf :: "(bytes \<rightharpoonup> bytes) \<Rightarrow> catalog_id \<Rightarrow> bool" where
  "partition_values_wf m c \<longleftrightarrow>
     (\<forall>k v. prefix (family_prefix c FilePartitionValue) k \<longrightarrow> m k = Some v \<longrightarrow>
        (\<exists>r. k = file_partition_value_key c (pv_data_file_id r) (pv_partition_key_index r) \<and>
             v = partition_row_encode r \<and> partition_row_ok r))"

definition entry_row :: "bytes \<times> bytes \<Rightarrow> file_partition_value_row" where
  "entry_row e = projr (partition_row_decode (snd e))"

lemma partition_entry:
  assumes "fake_wf kv" "partition_values_wf (fake_get kv) c" "e \<in> set (items kv)"
    "prefix (family_prefix c FilePartitionValue) (fst e)"
  shows "partition_row_decode (snd e) = Inr (entry_row e)"
    "fst e = file_partition_value_key c (pv_data_file_id (entry_row e)) (pv_partition_key_index (entry_row e))"
proof -
  have "fake_get kv (fst e) = Some (snd e)"
    using assms(1,3) by (simp add: fake_wf_def fake_get_def btree_mem_iff [symmetric])
  with assms(2,4) obtain r where
    "fst e = file_partition_value_key c (pv_data_file_id r) (pv_partition_key_index r)"
    "snd e = partition_row_encode r" "partition_row_ok r"
    unfolding partition_values_wf_def by blast
  then show "partition_row_decode (snd e) = Inr (entry_row e)"
    "fst e = file_partition_value_key c (pv_data_file_id (entry_row e)) (pv_partition_key_index (entry_row e))"
    by (simp_all add: entry_row_def partition_row_roundtrip)
qed

lemma prefix_end_partition:
  "prefix_end (file_partition_value_prefix c f) =
     family_prefix c FilePartitionValue @ u64_to_be_bytes f @ [slash + 1]"
  using prefix_end_snoc [of slash "family_prefix c FilePartitionValue @ u64_to_be_bytes f"]
  by (simp add: file_partition_value_prefix_def)

lemma partition_range_family:
  "file_partition_value_prefix c lo \<le> k \<Longrightarrow> k < prefix_end (file_partition_value_prefix c hi) \<Longrightarrow>
   prefix (family_prefix c FilePartitionValue) k"
  unfolding prefix_end_partition unfolding file_partition_value_prefix_def by (rule common_prefix_range)

lemma sorted_between: "sorted xs \<Longrightarrow> x \<in> set xs \<Longrightarrow> hd xs \<le> x \<and> x \<le> last xs"
  by (induction xs) auto

text \<open>The entries of one file: the values a prefix scan finds.\<close>

definition file_rows :: "fake_kv \<Rightarrow> catalog_id \<Rightarrow> data_file_id \<Rightarrow> file_partition_value_row list" where
  "file_rows kv c f =
     map entry_row (filter (\<lambda>e. prefix (file_partition_value_prefix c f) (fst e)) (items kv))"

lemma scan_file_partitions:
  assumes "fake_wf kv"
  shows "fake_scan_prefix kv (file_partition_value_prefix c f) Forward None =
    Inr (map to_item (filter (\<lambda>e. prefix (file_partition_value_prefix c f) (fst e)) (items kv)))"
  using fake.prefix_scan [OF assms, of slash "family_prefix c FilePartitionValue @ u64_to_be_bytes f" Forward None]
  by (simp add: fake_scan_prefix_def file_partition_value_prefix_def limit_take_def directed_def)

lemma file_prefix_family:
  "prefix (file_partition_value_prefix c f) k \<Longrightarrow> prefix (family_prefix c FilePartitionValue) k"
  by (auto simp: file_partition_value_prefix_def elim!: prefixE)

lemma entry_row_file:
  assumes "fake_wf kv" "partition_values_wf (fake_get kv) c" "e \<in> set (items kv)"
    "prefix (file_partition_value_prefix c f) (fst e)"
  shows "pv_data_file_id (entry_row e) = f"
  using partition_entry(2) [OF assms(1-3) file_prefix_family [OF assms(4)]] assms(4)
  by (auto simp: key_defs prefix_def)

lemma decode_file_partition_values_rows:
  assumes "fake_wf kv" "partition_values_wf (fake_get kv) c"
  shows "decode_file_partition_values
      (map to_item (filter (\<lambda>e. prefix (file_partition_value_prefix c f) (fst e)) (items kv))) f =
    Inr (sort_key partition_sort_key (file_rows kv c f))"
proof -
  have "rmap (\<lambda>e. rbind (partition_row_decode (snd e)) (\<lambda>r. if pv_data_file_id r \<noteq> f
          then Inl (Decode ''file partition value prefix decoded another data file'') else Inr r))
        (filter (\<lambda>e. prefix (file_partition_value_prefix c f) (fst e)) (items kv)) =
      Inr (file_rows kv c f)"
    unfolding file_rows_def
  proof (rule rmap_Inr)
    fix e
    assume "e \<in> set (filter (\<lambda>e. prefix (file_partition_value_prefix c f) (fst e)) (items kv))"
    then have e: "e \<in> set (items kv)" "prefix (file_partition_value_prefix c f) (fst e)" by simp_all
    show "rbind (partition_row_decode (snd e)) (\<lambda>r. if pv_data_file_id r \<noteq> f
        then Inl (Decode ''file partition value prefix decoded another data file'') else Inr r) = Inr (entry_row e)"
      by (simp add: partition_entry(1) [OF assms e(1) file_prefix_family [OF e(2)]] entry_row_file [OF assms e])
  qed
  then show ?thesis by (simp add: decode_file_partition_values_def rmap_map to_item_def)
qed

lemma load_sparse_rows:
  assumes "fake_wf kv" "partition_values_wf (fake_get kv) c"
  shows "load_sparse_file_partition_values kv c ids =
    Inr (concat (map (\<lambda>f. sort_key partition_sort_key (file_rows kv c f)) ids))"
proof -
  let ?page = "\<lambda>f. map to_item (filter (\<lambda>e. prefix (file_partition_value_prefix c f) (fst e)) (items kv))"
  have "kv_scan_prefixes (fake_scan_prefix kv) (map (file_partition_value_prefix c) ids) Forward None =
      Inr (map ?page ids)"
    unfolding kv_scan_prefixes_def rmap_map by (rule rmap_Inr) (rule scan_file_partitions [OF assms(1)])
  moreover have "rmap (\<lambda>(f, page). decode_file_partition_values page f) (zip ids (map ?page ids)) =
      Inr (map (\<lambda>f. sort_key partition_sort_key (file_rows kv c f)) ids)"
    by (induction ids) (simp_all add: decode_file_partition_values_rows [OF assms])
  ultimately show ?thesis by (simp add: load_sparse_file_partition_values_def)
qed

lemma dense_entry_iff:
  assumes "fake_wf kv" "partition_values_wf (fake_get kv) c" "e \<in> set (items kv)" "lo \<le> f" "f \<le> hi"
  shows "(file_partition_value_prefix c lo \<le> fst e \<and> fst e < prefix_end (file_partition_value_prefix c hi)) \<and>
      pv_data_file_id (entry_row e) = f \<longleftrightarrow> prefix (file_partition_value_prefix c f) (fst e)" (is "?L \<longleftrightarrow> ?R")
proof
  assume L: ?L
  then have "prefix (family_prefix c FilePartitionValue) (fst e)" by (blast intro: partition_range_family)
  from partition_entry(2) [OF assms(1-3) this] L show ?R by (simp add: key_defs)
next
  assume R: ?R
  have f: "pv_data_file_id (entry_row e) = f" by (rule entry_row_file [OF assms(1-3) R])
  have k: "fst e = file_partition_value_key c f (pv_partition_key_index (entry_row e))"
    using partition_entry(2) [OF assms(1-3) file_prefix_family [OF R]] f by simp
  have "u64_to_be_bytes lo @ [slash] \<le> u64_to_be_bytes f @ slash # xs" for xs
    using assms(4) less_append_eq_length [of "u64_to_be_bytes f" "u64_to_be_bytes lo" "slash # xs" "[slash]"]
    by (auto simp: linorder_not_less [symmetric])
  moreover have "u64_to_be_bytes f @ slash # xs < u64_to_be_bytes hi @ [slash + 1]" for xs
    using assms(5) by (auto simp: less_append_eq_length order_le_less)
  ultimately show ?L
    using f unfolding k prefix_end_partition
    by (simp add: file_partition_value_key_def file_partition_value_prefix_def)
qed

lemma load_dense_rows:
  assumes "fake_wf kv" "partition_values_wf (fake_get kv) c" "sorted ids"
  shows "load_dense_file_partition_values kv c ids =
    Inr (concat (map (\<lambda>f. sort_key partition_sort_key (file_rows kv c f)) ids))"
proof (cases "ids = []")
  case False
  let ?lo = "file_partition_value_prefix c (hd ids)" and ?hi = "prefix_end (file_partition_value_prefix c (last ids))"
  let ?es = "btree_range ?lo ?hi (items kv)"
  have between: "hd ids \<le> f \<and> f \<le> last ids" if "f \<in> set ids" for f
    using sorted_between [OF assms(3) that] .
  have "?lo \<le> ?hi"
    using between [of "hd ids"] False unfolding prefix_end_partition
    by (auto simp: file_partition_value_prefix_def less_append_eq_length order_le_less)
  then have scan: "fake_scan_range kv ?lo ?hi Forward None = Inr (map to_item ?es)"
    by (simp add: fake.scan_law [OF assms(1)] limit_take_def directed_def)
  have "rmap (\<lambda>e. partition_row_decode (snd e)) ?es = Inr (map entry_row ?es)"
  proof (rule rmap_Inr)
    fix e assume e: "e \<in> set ?es"
    then have "prefix (family_prefix c FilePartitionValue) (fst e)"
      by (auto simp: btree_range_def intro: partition_range_family)
    with e show "partition_row_decode (snd e) = Inr (entry_row e)"
      using partition_entry(1) [OF assms(1,2)] by (simp add: btree_range_def)
  qed
  moreover have "filter (\<lambda>r. pv_data_file_id r = f) (map entry_row ?es) = file_rows kv c f" if "f \<in> set ids" for f
    using dense_entry_iff [OF assms(1,2) _ conjunct1 [OF between [OF that]] conjunct2 [OF between [OF that]]]
    by (auto simp: file_rows_def filter_map comp_def btree_range_def intro!: arg_cong [of _ _ "map entry_row"] filter_cong)
  ultimately show ?thesis
    using False scan
    by (simp add: load_dense_file_partition_values_def rmap_map to_item_def cong: map_cong)
qed (simp add: load_dense_file_partition_values_def)


section \<open>Effect of the staged deletes\<close>

lemma rfold_deletes:
  assumes "\<And>x b. x \<in> set xs \<Longrightarrow> f x b = Inr (b\<lparr>deletes := deletes b @ g x\<rparr>)"
  shows "rfold f xs b = Inr (b\<lparr>deletes := deletes b @ concat (map g xs)\<rparr>)"
  using assms by (induction xs arbitrary: b) simp_all

lemma delete_partition_values_effect:
  assumes "fake_wf kv" "partition_values_wf (fake_get kv) c"
  shows "delete_partition_values_for_data_file kv b c f =
    Inr (b\<lparr>deletes := deletes b @ concat (map (\<lambda>e. [fst e, partition_lookup_key c (entry_row e)])
      (filter (\<lambda>e. prefix (file_partition_value_prefix c f) (fst e)) (items kv)))\<rparr>)"
proof -
  let ?es = "filter (\<lambda>e. prefix (file_partition_value_prefix c f) (fst e)) (items kv)"
  have "rfold (\<lambda>i b. rbind (partition_row_decode (ri_value i)) (\<lambda>r.
         Inr (batch_delete (batch_delete b (ri_key i)) (partition_lookup_key c r)))) (map to_item ?es) b =
      Inr (b\<lparr>deletes := deletes b @ concat (map (\<lambda>i. [ri_key i, partition_lookup_key c (entry_row (ri_key i, ri_value i))])
        (map to_item ?es))\<rparr>)"
  proof (rule rfold_deletes)
    fix i b
    assume "i \<in> set (map to_item ?es)"
    then obtain e where e: "e \<in> set (items kv)" "prefix (file_partition_value_prefix c f) (fst e)" "i = to_item e"
      by auto
    show "rbind (partition_row_decode (ri_value i)) (\<lambda>r.
         Inr (batch_delete (batch_delete b (ri_key i)) (partition_lookup_key c r))) =
      Inr (b\<lparr>deletes := deletes b @ [ri_key i, partition_lookup_key c (entry_row (ri_key i, ri_value i))]\<rparr>)"
      using partition_entry(1) [OF assms e(1) file_prefix_family [OF e(2)]]
      by (simp add: e(3) to_item_def batch_delete_def)
  qed
  then show ?thesis
    by (simp add: delete_partition_values_for_data_file_def scan_file_partitions [OF assms(1)] comp_def to_item_def)
qed

lemma delete_partition_lookups_effect:
  assumes "fake_wf kv" "partition_values_wf (fake_get kv) c"
  shows "delete_partition_lookups_for_data_file kv b c f =
    Inr (b\<lparr>deletes := deletes b @ map (\<lambda>e. partition_lookup_key c (entry_row e))
      (filter (\<lambda>e. prefix (file_partition_value_prefix c f) (fst e)) (items kv))\<rparr>)"
proof -
  let ?es = "filter (\<lambda>e. prefix (file_partition_value_prefix c f) (fst e)) (items kv)"
  have "rfold (\<lambda>i b. rbind (partition_row_decode (ri_value i)) (\<lambda>r.
         Inr (batch_delete b (partition_lookup_key c r)))) (map to_item ?es) b =
      Inr (b\<lparr>deletes := deletes b @ concat (map (\<lambda>i. [partition_lookup_key c (entry_row (ri_key i, ri_value i))])
        (map to_item ?es))\<rparr>)"
  proof (rule rfold_deletes)
    fix i b
    assume "i \<in> set (map to_item ?es)"
    then obtain e where e: "e \<in> set (items kv)" "prefix (file_partition_value_prefix c f) (fst e)" "i = to_item e"
      by auto
    show "rbind (partition_row_decode (ri_value i)) (\<lambda>r. Inr (batch_delete b (partition_lookup_key c r))) =
      Inr (b\<lparr>deletes := deletes b @ [partition_lookup_key c (entry_row (ri_key i, ri_value i))]\<rparr>)"
      using partition_entry(1) [OF assms e(1) file_prefix_family [OF e(2)]]
      by (simp add: e(3) to_item_def batch_delete_def)
  qed
  moreover have "concat (map (\<lambda>x. [h x]) xs) = map h xs" for h :: "range_item \<Rightarrow> bytes" and xs by (induction xs) simp_all
  ultimately show ?thesis
    by (simp add: delete_partition_lookups_for_data_file_def scan_file_partitions [OF assms(1)] comp_def to_item_def)
qed

section \<open>Properties\<close>



text \<open>A lookup entry written with its data file row reads back as that row, so a partition scan needs no second
  read of the file.\<close>
theorem partition_lookup_embeds_data_file:
  assumes "partition_row_ok r" "data_file_row_ok d" "length (partition_row_encode r) < 2 ^ 32"
    "length (data_file_row_encode d) < 2 ^ 32"
  shows "decode_partition_lookup_data_file (encode_partition_lookup_value r d) = Inr (InlineRow d) \<and>
    partition_lookup_data_file_id (encode_partition_lookup_value r d) = Inr (df_data_file_id d)"
  using partition_lookup_value_roundtrip [OF assms]
  by (simp add: decode_partition_lookup_data_file_def partition_lookup_data_file_id_def)

theorem partition_lookup_embeds_data_file_witness:
  "partition_lookup_data_file_id (encode_partition_lookup_value
     \<lparr>pv_data_file_id = 1, pv_table_id = 2, pv_partition_key_index = 0, pv_partition_value = ascii ''x''\<rparr>
     (data_file_row_new 1 2 (ascii ''a'') 10 99 (uuid_v7 5))) = Inr 1"
proof -
  let ?r = "\<lparr>pv_data_file_id = 1, pv_table_id = 2, pv_partition_key_index = 0, pv_partition_value = ascii ''x''\<rparr>"
  let ?d = "data_file_row_new 1 2 (ascii ''a'') 10 99 (uuid_v7 5)"
  have "partition_row_ok ?r" "data_file_row_ok ?d"
    by (simp_all add: partition_row_ok_def data_file_row_ok_def data_file_row_new_def string_ok_def ascii_def
        utf8_valid.simps)
  moreover have "length (partition_row_encode ?r) < 2 ^ 32" "length (data_file_row_encode ?d) < 2 ^ 32"
    by (simp_all add: partition_row_encode_def data_file_row_encode_def data_file_row_new_def len_simps)
  ultimately show ?thesis
    using partition_lookup_embeds_data_file [of ?r ?d] by (simp add: data_file_row_new_def)
qed

end
