(* ===== verification/Cat_Changes.thy ===== *)
theory Cat_Changes
  imports Cat_Store
begin

text \<open>
  The data-file change log (\<open>data_file_changes.rs\<close>, and the log part of \<open>conflict.rs\<close>): every added or
  removed data file writes one empty-valued key under its table and one under the catalog, both carrying
  the commit order; the change feed and the conflict check read ranges of them back. The value read carries
  the order kind of the request, because a key stores the bytes of the order alone.
\<close>

section \<open>Operations\<close>

definition write_data_file_change ::
    "kv_batch \<Rightarrow> catalog_id \<Rightarrow> table_id \<Rightarrow> catalog_order_id \<Rightarrow> data_file_change_kind \<Rightarrow> data_file_id \<Rightarrow> kv_batch" where
  "write_data_file_change b catalog table_id ord kind data_file_id =
     batch_put (batch_put b (table_data_file_change_key catalog table_id ord kind data_file_id) [])
       (snapshot_data_file_change_key catalog table_id ord kind data_file_id) []"

definition scan_order_kind :: "catalog_order_id \<Rightarrow> catalog_order_id \<Rightarrow> catalog_order_kind" where
  "scan_order_kind start_order stop_order =
     (if order_kind start_order = order_kind stop_order then order_kind stop_order else UuidV7)"

definition decode_data_file_change_key ::
    "table_id \<Rightarrow> bytes \<Rightarrow> bytes \<Rightarrow> catalog_order_kind \<Rightarrow> data_file_change catalog_result" where
  "decode_data_file_change_key table_id p key kind =
     (case strip_prefix p key of
        None \<Rightarrow> Inl (InvalidKey ''table data-file change key has wrong prefix'')
      | Some tail \<Rightarrow>
          if length tail \<noteq> 16 + 1 + 1 + 1 + 8
          then Inl (InvalidKey ''table data-file change key tail must be 27 bytes'')
          else rbind (byte_at tail 16) (\<lambda>s1. rbind (byte_at tail 18) (\<lambda>s2.
            if s1 \<noteq> slash \<or> s2 \<noteq> slash
            then Inl (InvalidKey ''table data-file change key separators are invalid'')
            else rbind (slice tail 0 16) (\<lambda>ob.
              rbind (byte_at tail 17) (\<lambda>kb.
              rbind (change_kind_from_code kb) (\<lambda>ck.
              rbind (slice_from tail 19) (\<lambda>fb.
              rbind (be_u64 (InvalidKey ''data file id is truncated'') fb) (\<lambda>f.
                Inr \<lparr>dfc_table_id = table_id, dfc_order = order_from_bytes kind ob, dfc_kind = ck,
                     dfc_data_file_id = f\<rparr>))))))))"

definition list_data_file_changes ::
    "fake_kv \<Rightarrow> catalog_id \<Rightarrow> table_id \<Rightarrow> catalog_order_id \<Rightarrow> catalog_order_id \<Rightarrow>
     data_file_change list catalog_result" where
  "list_data_file_changes kv catalog table_id start_order stop_order =
     (if stop_order < start_order
      then Inl (InvalidMutation ''change-feed end order cannot precede start order'')
      else rbind (fake_scan_range kv (table_data_file_change_scan_start catalog table_id start_order)
                    (table_data_file_change_scan_end catalog table_id stop_order) Forward None)
        (rmap (\<lambda>i. decode_data_file_change_key table_id (table_data_file_change_prefix catalog table_id) (ri_key i)
           (scan_order_kind start_order stop_order))))"

definition snapshot_change_scan_start_after :: "catalog_id \<Rightarrow> catalog_order_id \<Rightarrow> bytes" where [key_defs]:
  "snapshot_change_scan_start_after catalog base_order =
     snapshot_data_file_change_prefix catalog @ order_as_bytes base_order @ [0xff]"

definition snapshot_change_scan_end :: "catalog_id \<Rightarrow> catalog_order_id \<Rightarrow> bytes" where [key_defs]:
  "snapshot_change_scan_end catalog through_order =
     snapshot_data_file_change_prefix catalog @ order_as_bytes through_order @ [0xff]"

definition decode_snapshot_data_file_change_key ::
    "bytes \<Rightarrow> bytes \<Rightarrow> catalog_order_kind \<Rightarrow> data_file_change catalog_result" where
  "decode_snapshot_data_file_change_key p key kind =
     (case strip_prefix p key of
        None \<Rightarrow> Inl (InvalidKey ''snapshot data-file change key has wrong prefix'')
      | Some tail \<Rightarrow>
          if length tail \<noteq> 16 + 1 + 8 + 1 + 1 + 1 + 8
          then Inl (InvalidKey ''snapshot data-file change key tail must be 36 bytes'')
          else rbind (byte_at tail 16) (\<lambda>s1. rbind (byte_at tail 25) (\<lambda>s2. rbind (byte_at tail 27) (\<lambda>s3.
            if s1 \<noteq> slash \<or> s2 \<noteq> slash \<or> s3 \<noteq> slash
            then Inl (InvalidKey ''snapshot data-file change key separators are invalid'')
            else rbind (slice tail 0 16) (\<lambda>ob.
              rbind (slice tail 17 25) (\<lambda>tb.
              rbind (be_u64 (InvalidKey ''table id is truncated'') tb) (\<lambda>t.
              rbind (byte_at tail 26) (\<lambda>kb.
              rbind (change_kind_from_code kb) (\<lambda>ck.
              rbind (slice_from tail 28) (\<lambda>fb.
              rbind (be_u64 (InvalidKey ''data file id is truncated'') fb) (\<lambda>f.
                Inr \<lparr>dfc_table_id = t, dfc_order = order_from_bytes kind ob, dfc_kind = ck,
                     dfc_data_file_id = f\<rparr>)))))))))))"

definition list_data_file_changes_since_base ::
    "fake_kv \<Rightarrow> catalog_id \<Rightarrow> catalog_order_id \<Rightarrow> catalog_order_id \<Rightarrow> data_file_change list catalog_result" where
  "list_data_file_changes_since_base kv catalog base_order through_order =
     (if through_order < base_order
      then Inl (InvalidMutation ''logical conflict end order cannot precede base order'')
      else rbind (fake_scan_range kv (snapshot_change_scan_start_after catalog base_order)
                    (snapshot_change_scan_end catalog through_order) Forward None)
        (rmap (\<lambda>i. decode_snapshot_data_file_change_key (snapshot_data_file_change_prefix catalog) (ri_key i)
           (scan_order_kind base_order through_order))))"

datatype data_commit_intent = AppendFiles | RewriteOrDeleteFiles

fun conflicts_with :: "data_commit_intent \<Rightarrow> data_file_change_kind \<Rightarrow> bool" where
  "conflicts_with AppendFiles kind = (kind = Removed)"
| "conflicts_with RewriteOrDeleteFiles kind = True"

definition list_data_conflicts_since_base ::
    "fake_kv \<Rightarrow> catalog_id \<Rightarrow> table_id \<Rightarrow> catalog_order_id \<Rightarrow> catalog_order_id \<Rightarrow> data_commit_intent \<Rightarrow>
     data_file_change list catalog_result" where
  "list_data_conflicts_since_base kv catalog table_id base_order through_order intent =
     rbind (list_data_file_changes kv catalog table_id base_order through_order) (\<lambda>changes.
       Inr (filter (\<lambda>ch. dfc_order ch > base_order \<and> conflicts_with intent (dfc_kind ch)) changes))"

section \<open>Keys and changes\<close>

definition table_change_key :: "catalog_id \<Rightarrow> data_file_change \<Rightarrow> bytes" where
  "table_change_key c ch =
     table_data_file_change_key c (dfc_table_id ch) (dfc_order ch) (dfc_kind ch) (dfc_data_file_id ch)"

definition snapshot_change_key :: "catalog_id \<Rightarrow> data_file_change \<Rightarrow> bytes" where
  "snapshot_change_key c ch =
     snapshot_data_file_change_key c (dfc_table_id ch) (dfc_order ch) (dfc_kind ch) (dfc_data_file_id ch)"

lemma decode_table_change_key:
  "decode_data_file_change_key (dfc_table_id ch) (table_data_file_change_prefix c (dfc_table_id ch))
     (table_change_key c ch) kind = Inr (ch\<lparr>dfc_order := order_from_bytes kind (order_as_bytes (dfc_order ch))\<rparr>)"
  by (simp add: decode_data_file_change_key_def table_change_key_def table_data_file_change_key_def byte_at_def
      nth_append slice_def slice_from_def be_u64_def)

lemma decode_snapshot_change_key:
  "decode_snapshot_data_file_change_key (snapshot_data_file_change_prefix c) (snapshot_change_key c ch) kind =
     Inr (ch\<lparr>dfc_order := order_from_bytes kind (order_as_bytes (dfc_order ch))\<rparr>)"
  by (simp add: decode_snapshot_data_file_change_key_def snapshot_change_key_def snapshot_data_file_change_key_def
      byte_at_def nth_append slice_def slice_from_def be_u64_def)

lemma same_kind: "order_kind (dfc_order ch) = kind \<Longrightarrow>
   ch\<lparr>dfc_order := order_from_bytes kind (order_as_bytes (dfc_order ch))\<rparr> = ch"
  by (cases ch) auto

section \<open>The log as a set of changes\<close>

definition changes_are :: "(bytes \<rightharpoonup> bytes) \<Rightarrow> catalog_id \<Rightarrow> data_file_change set \<Rightarrow> bool" where
  "changes_are m c C \<longleftrightarrow> (\<forall>ch \<in> C. order_kind (dfc_order ch) = UuidV7) \<and>
     (\<forall>k. prefix (family_prefix c TableChanges) k \<longrightarrow> (m k \<noteq> None \<longleftrightarrow> k \<in> table_change_key c ` C)) \<and>
     (\<forall>k. prefix (family_prefix c SnapshotChanges) k \<longrightarrow> (m k \<noteq> None \<longleftrightarrow> k \<in> snapshot_change_key c ` C))"

lemma changes_are_empty: "changes_are Map.empty c {}"
  by (simp add: changes_are_def)

definition change_space :: "catalog_id \<Rightarrow> bytes set" where
  "change_space c = {k. prefix (family_prefix c TableChanges) k} \<union> {k. prefix (family_prefix c SnapshotChanges) k}"

lemma changes_are_local:
  "changes_are m c C \<Longrightarrow> (\<And>k. k \<in> change_space c \<Longrightarrow> m' k = m k) \<Longrightarrow> changes_are m' c C"
  by (simp add: changes_are_def change_space_def)

lemma table_change_key_prefix [simp]:
  "prefix (family_prefix c TableChanges) (table_change_key c' ch) \<longleftrightarrow> c = c'"
  "\<not> prefix (family_prefix c SnapshotChanges) (table_change_key c' ch)"
  "\<not> prefix (family_prefix c TableChanges) (snapshot_change_key c' ch)"
  "prefix (family_prefix c SnapshotChanges) (snapshot_change_key c' ch) \<longleftrightarrow> c = c'"
  by (simp_all add: table_change_key_def snapshot_change_key_def key_defs)

definition put_change :: "catalog_id \<Rightarrow> data_file_change \<Rightarrow> (bytes \<rightharpoonup> bytes) \<Rightarrow> (bytes \<rightharpoonup> bytes)" where
  "put_change c ch m = m(table_change_key c ch \<mapsto> [], snapshot_change_key c ch \<mapsto> [])"

lemma apply_write_data_file_change:
  "apply_batch (write_data_file_change b c t ord kind f) m =
     put_change c \<lparr>dfc_table_id = t, dfc_order = ord, dfc_kind = kind, dfc_data_file_id = f\<rparr> (apply_batch b m)"
  by (simp add: write_data_file_change_def put_change_def table_change_key_def snapshot_change_key_def)

lemma changes_are_put:
  "changes_are m c C \<Longrightarrow> order_kind (dfc_order ch) = UuidV7 \<Longrightarrow> changes_are (put_change c ch m) c (insert ch C)"
  unfolding changes_are_def put_change_def by auto

section \<open>Range reads\<close>

text \<open>A scan of log keys between two bounds, decoded.\<close>

lemma scan_changes:
  assumes "fake_wf kv" "start \<le> stop"
    and entry: "\<And>e. e \<in> set (items kv) \<Longrightarrow> start \<le> fst e \<Longrightarrow> fst e < stop \<Longrightarrow>
      \<exists>ch \<in> C. fst e = key ch \<and> dec (fst e) = Inr ch"
    and stored: "\<And>ch. ch \<in> C \<Longrightarrow> P ch \<longleftrightarrow> start \<le> key ch \<and> key ch < stop" "\<And>ch. ch \<in> C \<Longrightarrow> fake_get kv (key ch) \<noteq> None"
    and inj: "inj_on key C"
    and mono: "\<And>a b. a \<in> C \<Longrightarrow> b \<in> C \<Longrightarrow> key a < key b \<Longrightarrow> P a \<Longrightarrow> P b \<Longrightarrow> dfc_order a \<le> dfc_order b"
  shows "\<exists>chs. rbind (fake_scan_range kv start stop Forward None) (rmap (\<lambda>i. dec (ri_key i))) = Inr chs \<and>
    set chs = {ch \<in> C. P ch} \<and> distinct chs \<and> sorted_wrt (\<lambda>a b. dfc_order a \<le> dfc_order b) chs"
proof -
  let ?es = "btree_range start stop (items kv)"
  define d where "d e = projr (dec (fst e))" for e :: "bytes \<times> bytes"
  have wf: "btree_wf ?es" using assms(1) by (auto simp: fake_wf_def)
  have scan: "fake_scan_range kv start stop Forward None = Inr (map to_item ?es)"
    using fake.scan_law [OF assms(1,2)] by (simp add: limit_take_def directed_def)
  have e: "d e \<in> C" "fst e = key (d e)" "dec (fst e) = Inr (d e)" "P (d e)" if "e \<in> set ?es" for e
  proof -
    from that have "e \<in> set (items kv)" "start \<le> fst e" "fst e < stop" by (auto simp: btree_range_def)
    with entry [OF this] obtain ch where "ch \<in> C" "fst e = key ch" "dec (fst e) = Inr ch" by blast
    with \<open>start \<le> fst e\<close> \<open>fst e < stop\<close> show "d e \<in> C" "fst e = key (d e)" "dec (fst e) = Inr (d e)" "P (d e)"
      by (auto simp: d_def stored(1))
  qed
  have "rmap (\<lambda>e. dec (fst e)) ?es = Inr (map d ?es)" by (rule rmap_Inr) (rule e)
  then have res: "rbind (fake_scan_range kv start stop Forward None) (rmap (\<lambda>i. dec (ri_key i))) = Inr (map d ?es)"
    by (simp add: scan to_item_def rmap_map)
  have "ch \<in> d ` set ?es" if "ch \<in> C" "P ch" for ch
  proof -
    from stored that obtain v where v: "fake_get kv (key ch) = Some v" "start \<le> key ch" "key ch < stop" by auto
    then have "(key ch, v) \<in> set (items kv)"
      using assms(1) by (simp add: fake_get_def fake_wf_def btree_mem_iff)
    with v have "(key ch, v) \<in> set ?es" by (simp add: btree_range_def)
    moreover from e [OF this] have "d (key ch, v) = ch" using inj that(1) by (auto dest: inj_onD)
    ultimately show ?thesis by force
  qed
  with e have "set (map d ?es) = {ch \<in> C. P ch}" by auto
  moreover have "sorted_wrt (\<lambda>a b. dfc_order a \<le> dfc_order b) (map d ?es)"
  proof -
    have "sorted_wrt (\<lambda>a b. fst a < fst b) ?es" using wf by (simp add: btree_wf_def sorted_wrt_map)
    then have "sorted_wrt (\<lambda>a b. dfc_order (d a) \<le> dfc_order (d b)) ?es"
      by (rule sorted_wrt_mono_rel [rotated]) (use e mono in \<open>metis (no_types, lifting)\<close>)
    then show ?thesis by (simp add: sorted_wrt_map)
  qed
  moreover have "distinct (map d ?es)"
  proof -
    have "map fst ?es = map key (map d ?es)" using e(2) by simp
    with btree_wf_distinct [OF wf] show ?thesis by (metis distinct_map)
  qed
  ultimately show ?thesis using res by auto
qed


lemma table_change_key_inj: "inj_on (table_change_key c) {ch. order_kind (dfc_order ch) = UuidV7}"
  by (rule inj_onI) (auto simp: table_change_key_def key_defs data_file_change.splits intro!: order_eqI
      data_file_change.equality)

lemma snapshot_change_key_inj: "inj_on (snapshot_change_key c) {ch. order_kind (dfc_order ch) = UuidV7}"
  by (rule inj_onI) (auto simp: snapshot_change_key_def key_defs intro!: order_eqI data_file_change.equality)

lemma list_data_file_changes_reads:
  assumes "fake_wf kv" "changes_are (fake_get kv) c C" "lo \<le> hi" "order_kind lo = UuidV7" "order_kind hi = UuidV7"
  shows "\<exists>chs. list_data_file_changes kv c t lo hi = Inr chs \<and>
    set chs = {ch \<in> C. dfc_table_id ch = t \<and> lo \<le> dfc_order ch \<and> dfc_order ch \<le> hi} \<and>
    distinct chs \<and> sorted_wrt (\<lambda>a b. dfc_order a \<le> dfc_order b) chs"
proof -
  let ?start = "table_data_file_change_scan_start c t lo" and ?stop = "table_data_file_change_scan_end c t hi"
  let ?C = "{ch \<in> C. dfc_table_id ch = t}"
  let ?P = "\<lambda>ch. lo \<le> dfc_order ch \<and> dfc_order ch \<le> hi"
  let ?dec = "\<lambda>k. decode_data_file_change_key t (table_data_file_change_prefix c t) k UuidV7"
  have uuid: "order_kind (dfc_order ch) = UuidV7" if "ch \<in> C" for ch using assms(2) that by (simp add: changes_are_def)
  have bounds: "?P ch \<longleftrightarrow> ?start \<le> table_change_key c ch \<and> table_change_key c ch < ?stop" if "dfc_table_id ch = t" for ch
    using that by (simp add: table_change_key_def table_data_file_change_scan_start_def table_data_file_change_key_def
        table_data_file_change_scan_end_def order_above_scan_start order_below_scan_end
        del: append_le_append append_less_append)
  have "\<exists>chs. rbind (fake_scan_range kv ?start ?stop Forward None) (rmap (\<lambda>i. ?dec (ri_key i))) = Inr chs \<and>
    set chs = {ch \<in> ?C. ?P ch} \<and> distinct chs \<and> sorted_wrt (\<lambda>a b. dfc_order a \<le> dfc_order b) chs"
  proof (rule scan_changes [OF assms(1), where key = "table_change_key c"])
    show "?start \<le> ?stop"
      using assms(3) by (simp add: table_data_file_change_scan_start_def table_data_file_change_scan_end_def
          order_above_scan_start del: append_le_append)
  next
    fix e assume e: "e \<in> set (items kv)" "?start \<le> fst e" "fst e < ?stop"
    then have p: "prefix (table_data_file_change_prefix c t) (fst e)"
      unfolding table_data_file_change_scan_start_def table_data_file_change_scan_end_def by (rule_tac common_prefix_range)
    then have "prefix (family_prefix c TableChanges) (fst e)"
      by (auto simp: table_data_file_change_prefix_def elim!: prefixE)
    moreover have "fake_get kv (fst e) \<noteq> None"
      using e(1) by (auto simp: fake_get_def map_of_eq_None_iff)
    ultimately obtain ch where ch: "ch \<in> C" "fst e = table_change_key c ch" using assms(2) by (auto simp: changes_are_def)
    with p have "dfc_table_id ch = t" by (auto simp: table_change_key_def key_defs)
    with ch show "\<exists>ch \<in> ?C. fst e = table_change_key c ch \<and> ?dec (fst e) = Inr ch"
      using decode_table_change_key [of ch c UuidV7] same_kind [OF uuid [OF ch(1)]] by auto
  next
    show "inj_on (table_change_key c) ?C"
      by (rule inj_on_subset [OF table_change_key_inj]) (auto simp: uuid)
    show "ch \<in> ?C \<Longrightarrow> fake_get kv (table_change_key c ch) \<noteq> None" for ch
      using assms(2) by (auto simp: changes_are_def)
    show "a \<in> ?C \<Longrightarrow> b \<in> ?C \<Longrightarrow> table_change_key c a < table_change_key c b \<Longrightarrow> dfc_order a \<le> dfc_order b" for a b
      by (auto simp: table_change_key_def key_defs less_append_eq_length order_le_bytes)
  qed (use bounds in blast)
  then show ?thesis
    using assms(3-5) by (auto simp: list_data_file_changes_def scan_order_kind_def order_less_bytes
        order_le_bytes)
qed

lemma list_data_file_changes_since_base_reads:
  assumes "fake_wf kv" "changes_are (fake_get kv) c C" "base \<le> hi" "order_kind base = UuidV7" "order_kind hi = UuidV7"
  shows "\<exists>chs. list_data_file_changes_since_base kv c base hi = Inr chs \<and>
    set chs = {ch \<in> C. base < dfc_order ch \<and> dfc_order ch \<le> hi} \<and>
    distinct chs \<and> sorted_wrt (\<lambda>a b. dfc_order a \<le> dfc_order b) chs"
proof -
  let ?start = "snapshot_change_scan_start_after c base" and ?stop = "snapshot_change_scan_end c hi"
  let ?P = "\<lambda>ch. base < dfc_order ch \<and> dfc_order ch \<le> hi"
  let ?dec = "\<lambda>k. decode_snapshot_data_file_change_key (snapshot_data_file_change_prefix c) k UuidV7"
  have uuid: "order_kind (dfc_order ch) = UuidV7" if "ch \<in> C" for ch using assms(2) that by (simp add: changes_are_def)
  have bounds: "?P ch \<longleftrightarrow> ?start \<le> snapshot_change_key c ch \<and> snapshot_change_key c ch < ?stop" for ch
    by (simp add: snapshot_change_key_def snapshot_change_scan_start_after_def snapshot_data_file_change_key_def
        snapshot_change_scan_end_def order_after_scan_start order_below_scan_end
        del: append_le_append append_less_append)
  have "\<exists>chs. rbind (fake_scan_range kv ?start ?stop Forward None) (rmap (\<lambda>i. ?dec (ri_key i))) = Inr chs \<and>
    set chs = {ch \<in> C. ?P ch} \<and> distinct chs \<and> sorted_wrt (\<lambda>a b. dfc_order a \<le> dfc_order b) chs"
  proof (rule scan_changes [OF assms(1), where key = "snapshot_change_key c"])
    show "?start \<le> ?stop"
      using assms(3) by (auto simp: snapshot_change_scan_start_after_def snapshot_change_scan_end_def
          order_le_bytes less_append_eq_length le_less)
  next
    fix e assume e: "e \<in> set (items kv)" "?start \<le> fst e" "fst e < ?stop"
    then have "prefix (family_prefix c SnapshotChanges) (fst e)"
      unfolding snapshot_change_scan_start_after_def snapshot_change_scan_end_def snapshot_data_file_change_prefix_def
      by (rule_tac common_prefix_range)
    moreover have "fake_get kv (fst e) \<noteq> None"
      using e(1) by (auto simp: fake_get_def map_of_eq_None_iff)
    ultimately obtain ch where ch: "ch \<in> C" "fst e = snapshot_change_key c ch" using assms(2) by (auto simp: changes_are_def)
    then show "\<exists>ch \<in> C. fst e = snapshot_change_key c ch \<and> ?dec (fst e) = Inr ch"
      using decode_snapshot_change_key [of c ch UuidV7] same_kind [OF uuid [OF ch(1)]] by auto
  next
    show "inj_on (snapshot_change_key c) C"
      by (rule inj_on_subset [OF snapshot_change_key_inj]) (auto simp: uuid)
    show "ch \<in> C \<Longrightarrow> fake_get kv (snapshot_change_key c ch) \<noteq> None" for ch
      using assms(2) by (auto simp: changes_are_def)
    show "snapshot_change_key c a < snapshot_change_key c b \<Longrightarrow> dfc_order a \<le> dfc_order b" for a b
      by (auto simp: snapshot_change_key_def key_defs less_append_eq_length order_le_bytes)
  qed (use bounds in blast)
  then show ?thesis
    using assms(3-5) by (auto simp: list_data_file_changes_since_base_def scan_order_kind_def order_less_bytes
        order_le_bytes)
qed


section \<open>Properties\<close>

text \<open>C32: The table change feed is exact. Between two orders, both inclusive, it returns every logged change of the
  table and no other, each once and in commit order; a range whose end precedes its start is refused.\<close>
theorem change_feed_exact:
  assumes "fake_wf kv" "changes_are (fake_get kv) c C" "order_kind lo = UuidV7" "order_kind hi = UuidV7"
  shows "if hi < lo
    then list_data_file_changes kv c t lo hi = Inl (InvalidMutation ''change-feed end order cannot precede start order'')
    else \<exists>chs. list_data_file_changes kv c t lo hi = Inr chs \<and> distinct chs \<and>
      set chs = {ch \<in> C. dfc_table_id ch = t \<and> lo \<le> dfc_order ch \<and> dfc_order ch \<le> hi} \<and>
      sorted_wrt (\<lambda>a b. dfc_order a \<le> dfc_order b) chs"
proof (cases "hi < lo")
  case False
  then have "lo \<le> hi" by simp
  from list_data_file_changes_reads [OF assms(1,2) this assms(3,4), of t] show ?thesis
    unfolding if_not_P [OF False] by blast
qed (simp add: list_data_file_changes_def)

lemma fake_new_changes: "changes_are (fake_get fake_new) c {}"
  by (simp add: fake_new_def fake_get_def [abs_def] changes_are_empty)

text \<open>A store with one logged removal, used by the examples.\<close>

definition one_removal :: "data_file_change" where
  "one_removal = \<lparr>dfc_table_id = 2, dfc_order = uuid_v7 5, dfc_kind = Removed, dfc_data_file_id = 9\<rparr>"

lemma one_removal_simps [simp]:
  "dfc_table_id one_removal = 2" "dfc_order one_removal = uuid_v7 5" "dfc_kind one_removal = Removed"
  by (simp_all add: one_removal_def)

lemma one_removal_store:
  obtains kv where "fake_wf kv" "changes_are (fake_get kv) 7 {one_removal}"
proof -
  let ?b = "write_data_file_change batch_new 7 2 (uuid_v7 5) Removed 9"
  have "checks ?b = []" by (simp add: write_data_file_change_def)
  then obtain kv where kv: "fake_get kv = apply_batch ?b (fake_get fake_new)" "fake_wf kv"
    using commit_then_unchecked [of ?b fake_new "()"] fake_new_snapshots(1) by blast
  have "changes_are (fake_get kv) 7 {one_removal}"
    using changes_are_put [OF fake_new_changes [of 7], of one_removal]
    by (simp add: kv(1) apply_write_data_file_change one_removal_def uuid_v7_def)
  with kv(2) show thesis by (rule that)
qed

theorem change_feed_exact_witness:
  "\<exists>kv. list_data_file_changes kv 7 2 (uuid_v7 1) (uuid_v7 5) = Inr [one_removal]"
proof -
  obtain kv where kv: "fake_wf kv" "changes_are (fake_get kv) 7 {one_removal}" by (rule one_removal_store)
  from change_feed_exact [OF kv, of "uuid_v7 1" "uuid_v7 5" 2] obtain chs where
    "list_data_file_changes kv 7 2 (uuid_v7 1) (uuid_v7 5) = Inr chs" "distinct chs" "set chs = {one_removal}"
    by (auto simp: Collect_conv_if)
  moreover from this have "chs = [one_removal]"
    by (metis distinct_card card.empty card_insert_disjoint empty_iff finite.emptyI length_0_conv length_Suc_conv
        list.set_intros(1) singletonD)
  ultimately show ?thesis by blast
qed

text \<open>The conflict check sees exactly what happened in between. For a commit based on one order and checked through
  another, the reported conflicts are the changes of the table committed after the base and up to the end that the
  intent conflicts with: removals for an append, every change for a rewrite. The catalog-wide list has every
  change of every table in that half-open range.\<close>
theorem conflicts_since_base_exact:
  assumes "fake_wf kv" "changes_are (fake_get kv) c C" "base \<le> hi" "order_kind base = UuidV7" "order_kind hi = UuidV7"
  shows "(\<exists>chs. list_data_conflicts_since_base kv c t base hi intent = Inr chs \<and>
      set chs = {ch \<in> C. dfc_table_id ch = t \<and> base < dfc_order ch \<and> dfc_order ch \<le> hi \<and>
        conflicts_with intent (dfc_kind ch)}) \<and>
    (\<exists>chs. list_data_file_changes_since_base kv c base hi = Inr chs \<and>
      set chs = {ch \<in> C. base < dfc_order ch \<and> dfc_order ch \<le> hi})"
  using list_data_file_changes_reads [OF assms, of t] list_data_file_changes_since_base_reads [OF assms]
  by (auto simp: list_data_conflicts_since_base_def order_less_iff order_le_iff)

theorem conflicts_since_base_exact_witness:
  "\<exists>kv chs. list_data_conflicts_since_base kv 7 2 (uuid_v7 4) (uuid_v7 5) AppendFiles = Inr chs \<and>
     set chs = {one_removal}"
proof -
  obtain kv where kv: "fake_wf kv" "changes_are (fake_get kv) 7 {one_removal}" by (rule one_removal_store)
  from conflicts_since_base_exact [OF kv, of "uuid_v7 4" "uuid_v7 5" 2 AppendFiles] show ?thesis
    by (auto simp: Collect_conv_if)
qed

end
