(* ===== verification/Cat_Staging.thy ===== *)
theory Cat_Staging
  imports Cat_Index Cat_Partitions Cat_Changes
begin

text \<open>
  What a staging step does to the map the batch will commit. The key space of a catalog is split into the
  partition keys, the watermark cells and the rest: a staging step may drop partition keys, only raises cells,
  and on the rest has an exact effect, given as a function on maps. The relation composes, so the effect of an
  operation that stages many rows is the composition of the effects of its steps, and a commit turns the
  composed effect into the new contents of the store.
\<close>

section \<open>Parts of the key space\<close>

definition cell_keys :: "catalog_id \<Rightarrow> bytes set" where
  "cell_keys c = {conflict_max_catalog_id_key c, conflict_max_file_id_key c} \<union> range (table_next_row_id_key c)"

definition partition_space :: "catalog_id \<Rightarrow> bytes set" where
  "partition_space c = {k. prefix (family_prefix c FilePartitionValue) k} \<union>
     {k. prefix (family_prefix c PartitionValueLookup) k}"

definition main_space :: "catalog_id \<Rightarrow> bytes set" where
  "main_space c = - cell_keys c - partition_space c"

lemma cell_keys_iff [simp]:
  "conflict_max_catalog_id_key c \<in> cell_keys c" "conflict_max_file_id_key c \<in> cell_keys c"
  "table_next_row_id_key c t \<in> cell_keys c"
  by (simp_all add: cell_keys_def)

lemma cell_not_partition [simp]: "k \<in> cell_keys c \<Longrightarrow> k \<notin> partition_space c'"
  by (auto simp: cell_keys_def partition_space_def key_defs)

lemma cell_family: "k \<in> cell_keys c \<Longrightarrow> prefix (family_prefix c MetadataVersion) k"
  by (auto simp: cell_keys_def key_defs)

lemma main_space_family:
  "f \<notin> {MetadataVersion, FilePartitionValue, PartitionValueLookup} \<Longrightarrow> prefix (family_prefix c f) k \<Longrightarrow>
   k \<in> main_space c"
proof -
  assume f: "f \<notin> {MetadataVersion, FilePartitionValue, PartitionValueLookup}" "prefix (family_prefix c f) k"
  have "\<not> prefix (family_prefix c g) k" if "g \<noteq> f" for g
    using f(2) that by (auto elim!: prefixE)
  with f show ?thesis using cell_family [of k c] by (auto simp: main_space_def partition_space_def)
qed

section \<open>Cells\<close>

definition cell_ge :: "u64 \<Rightarrow> bytes option \<Rightarrow> bool" where
  "cell_ge n cell \<longleftrightarrow> (\<exists>x. cell_value cell = Some x \<and> n \<le> x)"

lemma cell_ge_mono: "cell_ge n cell \<Longrightarrow> n' \<le> n \<Longrightarrow> cell_ge n' cell"
  by (auto simp: cell_ge_def)

lemma cell_ge_bytes [simp]: "cell_ge n (Some (u64_to_be_bytes x)) \<longleftrightarrow> n \<le> x"
  by (simp add: cell_ge_def cell_value_def)

section \<open>Staging steps\<close>

definition staging_ready :: "fake_kv \<Rightarrow> catalog_id \<Rightarrow> bool" where
  "staging_ready kv c \<longleftrightarrow> fake_wf kv \<and> partition_values_wf (fake_get kv) c \<and>
     (\<forall>k \<in> cell_keys c. cell_ok (fake_get kv k))"

definition batch_ready :: "catalog_id \<Rightarrow> kv_batch \<Rightarrow> bool" where
  "batch_ready c b \<longleftrightarrow> checks b = [] \<and> set (deletes b) \<inter> cell_keys c = {} \<and> (\<forall>k \<in> cell_keys c. staged_once b k)"

definition main_local :: "catalog_id \<Rightarrow> ((bytes \<rightharpoonup> bytes) \<Rightarrow> (bytes \<rightharpoonup> bytes)) \<Rightarrow> bool" where
  "main_local c f \<longleftrightarrow>
     (\<forall>m m'. (\<forall>k \<in> main_space c. m k = m' k) \<longrightarrow> (\<forall>k \<in> main_space c. f m k = f m' k))"

abbreviation pending :: "fake_kv \<Rightarrow> kv_batch \<Rightarrow> (bytes \<rightharpoonup> bytes)" where
  "pending kv b \<equiv> apply_batch b (fake_get kv)"

definition stages ::
    "fake_kv \<Rightarrow> catalog_id \<Rightarrow> kv_batch \<Rightarrow> kv_batch \<Rightarrow> ((bytes \<rightharpoonup> bytes) \<Rightarrow> (bytes \<rightharpoonup> bytes)) \<Rightarrow>
     (bytes \<times> u64) set \<Rightarrow> data_file_id set \<Rightarrow> bool" where
  "stages kv c b b' f W D \<longleftrightarrow> batch_ready c b' \<and> main_local c f \<and>
     (\<forall>k \<in> main_space c. pending kv b' k = f (pending kv b) k) \<and>
     (\<forall>k \<in> partition_space c. pending kv b' k \<in> {None, pending kv b k}) \<and>
     (\<forall>k f. f \<notin> D \<longrightarrow> prefix (file_partition_value_prefix c f) k \<longrightarrow> pending kv b' k = pending kv b k) \<and>
     (\<forall>k \<in> cell_keys c. \<forall>n. cell_ge n (pending kv b k) \<longrightarrow> cell_ge n (pending kv b' k)) \<and>
     (\<forall>(k, n) \<in> W. k \<in> cell_keys c \<and> cell_ge n (pending kv b' k))"

lemma main_local_id [simp]: "main_local c (\<lambda>m. m)" "main_local c id"
  by (simp_all add: main_local_def)

lemma main_local_upd: "main_local c f \<Longrightarrow> main_local c (\<lambda>m. (f m)(k := v))"
  by (simp add: main_local_def)

lemma main_local_comp: "main_local c f \<Longrightarrow> main_local c g \<Longrightarrow> main_local c (g \<circ> f)"
  unfolding main_local_def comp_def by blast

lemma batch_ready_new [simp]: "batch_ready c batch_new"
  by (simp add: batch_ready_def)

lemma stages_refl: "batch_ready c b \<Longrightarrow> stages kv c b b id {} {}"
  by (simp add: stages_def)

lemma stages_trans:
  assumes "stages kv c b1 b2 f V D" "stages kv c b2 b3 g W E"
  shows "stages kv c b1 b3 (g \<circ> f) (V \<union> W) (D \<union> E)"
proof -
  have "\<forall>k \<in> main_space c. g (pending kv b2) k = g (f (pending kv b1)) k"
    using assms unfolding stages_def main_local_def by blast
  moreover have "\<forall>k \<in> partition_space c. pending kv b3 k \<in> {None, pending kv b1 k}"
  proof
    fix k assume k: "k \<in> partition_space c"
    then have "pending kv b3 k \<in> {None, pending kv b2 k}" "pending kv b2 k \<in> {None, pending kv b1 k}"
      using assms unfolding stages_def by blast+
    then show "pending kv b3 k \<in> {None, pending kv b1 k}" by auto
  qed
  ultimately show ?thesis
    using assms main_local_comp [of c f g] unfolding stages_def by (auto split: prod.splits)
qed

lemma stages_ready: "stages kv c b b' f W D \<Longrightarrow> batch_ready c b'"
  by (simp add: stages_def)

lemma main_not_cell: "k \<in> main_space c \<Longrightarrow> k' \<in> cell_keys c \<Longrightarrow> k \<noteq> k'"
  by (auto simp: main_space_def)

lemma main_not_partition: "k \<in> main_space c \<Longrightarrow> \<not> prefix (file_partition_value_prefix c f) k"
  by (auto simp: main_space_def partition_space_def dest: file_prefix_family)

lemma cell_not_file_partition: "k \<in> cell_keys c \<Longrightarrow> \<not> prefix (file_partition_value_prefix c f) k"
  using cell_not_partition [of k c c] by (auto simp: partition_space_def dest: file_prefix_family)

lemma stages_put:
  assumes "batch_ready c b" "k \<in> main_space c"
  shows "stages kv c b (batch_put b k v) (\<lambda>m. m(k \<mapsto> v)) {} {}"
proof -
  have "batch_ready c (batch_put b k v)"
    using assms main_not_cell [OF assms(2)] by (auto simp: batch_ready_def batch_put_def staged_once_def)
  with assms show ?thesis
    using main_local_upd [OF main_local_id(1), of c k "Some v"] main_not_cell [OF assms(2)] main_not_partition [OF assms(2)]
    by (auto simp: stages_def main_space_def)
qed

lemma stages_delete:
  assumes "batch_ready c b" "k \<in> main_space c" "k \<notin> fst ` set (writes b)"
  shows "stages kv c b (batch_delete b k) (\<lambda>m. m(k := None)) {} {}"
proof -
  have eff: "pending kv (batch_delete b k) = (pending kv b)(k := None)"
    using assms(3) map_of_eq_None_iff [of "rev (writes b)" k]
    by (auto simp: apply_batch_apply batch_delete_def fun_eq_iff split: option.splits)
  have "batch_ready c (batch_delete b k)"
    using assms main_not_cell [OF assms(2)] by (auto simp: batch_ready_def batch_delete_def staged_once_def)
  with assms show ?thesis
    using main_local_upd [OF main_local_id(1), of c k None] main_not_cell [OF assms(2)] main_not_partition [OF assms(2)] eff
    by (auto simp: stages_def main_space_def)
qed

lemma stages_partition_deletes:
  assumes "batch_ready c b" "set ks \<subseteq> partition_space c"
    and "\<And>k f. k \<in> set ks \<Longrightarrow> prefix (file_partition_value_prefix c f) k \<Longrightarrow> f \<in> D"
  shows "stages kv c b (b\<lparr>deletes := deletes b @ ks\<rparr>) id {} D"
proof -
  have eff: "pending kv (b\<lparr>deletes := deletes b @ ks\<rparr>) k =
    (if k \<in> set ks \<and> map_of (rev (writes b)) k = None then None else pending kv b k)" for k
    by (auto simp: apply_batch_apply split: option.splits)
  have "batch_ready c (b\<lparr>deletes := deletes b @ ks\<rparr>)" using assms by (auto simp: batch_ready_def)
  with assms eff show ?thesis by (auto simp: stages_def main_space_def)
qed

lemma stages_max:
  assumes "batch_ready c b" "staging_ready kv c" "k \<in> cell_keys c"
  shows "\<exists>b'. stage_max_u64 kv b k v = Inr b' \<and> stages kv c b b' id {(k, v)} {}"
proof -
  let ?w = "raised b k (cell_max (fake_get kv k) v)"
  have "cell_ok (fake_get kv k)" "staged_once b k" using assms by (simp_all add: staging_ready_def batch_ready_def)
  from stage_max_u64_staged [OF this, of v] obtain b' where b': "stage_max_u64 kv b k v = Inr b'"
    "\<forall>k. staged_once b k \<longrightarrow> staged_once b' k" "deletes b' = deletes b" "checks b' = checks b"
    "pending kv b' = (pending kv b)(k \<mapsto> u64_to_be_bytes ?w)" by blast
  have ready: "batch_ready c b'" using assms(1) b'(2-4) by (simp add: batch_ready_def)
  have "v \<le> ?w" using cell_max_ge(1) [of v "fake_get kv k"] raised_ge(1) by (rule order_trans)
  moreover have "n \<le> ?w" if "cell_ge n (pending kv b k)" for n
  proof (cases "map_of (rev (writes b)) k")
    case None
    then have "pending kv b k = fake_get kv k"
      using assms(1,3) by (auto simp: apply_batch_apply batch_ready_def)
    with that cell_max_ge(2) [of "fake_get kv k"] have "n \<le> cell_max (fake_get kv k) v"
      by (auto simp: cell_ge_def intro: order_trans)
    then show ?thesis using raised_ge(1) by (rule order_trans)
  next
    case (Some x)
    then have "n \<le> u64_from_be_bytes x" using that by (auto simp: apply_batch_apply cell_ge_def cell_value_def)
    also have "\<dots> \<le> ?w" using Some by (rule raised_ge(2))
    finally show ?thesis .
  qed
  moreover have "k \<notin> main_space c" using assms(3) by (simp add: main_space_def)
  ultimately have "stages kv c b b' id {(k, v)} {}"
    using ready assms(3) b'(5) cell_not_file_partition [OF assms(3)] by (auto simp: stages_def)
  with b'(1) show ?thesis by blast
qed

text \<open>The same steps appended to a staged batch.\<close>

lemma then_put:
  "stages kv c b b' f W D \<Longrightarrow> k \<in> main_space c \<Longrightarrow> stages kv c b (batch_put b' k v) (\<lambda>m. (f m)(k \<mapsto> v)) W D"
  using stages_trans [of kv c b b' f W D "batch_put b' k v" "\<lambda>m. m(k \<mapsto> v)" "{}" "{}"] stages_put [of c b' k kv v]
  by (auto simp: comp_def dest: stages_ready)

lemma then_delete:
  "stages kv c b b' f W D \<Longrightarrow> k \<in> main_space c \<Longrightarrow> k \<notin> fst ` set (writes b') \<Longrightarrow>
   stages kv c b (batch_delete b' k) (\<lambda>m. (f m)(k := None)) W D"
  using stages_trans [of kv c b b' f W D "batch_delete b' k" "\<lambda>m. m(k := None)" "{}" "{}"] stages_delete [of c b' k kv]
  by (auto simp: comp_def dest: stages_ready)

lemma then_max:
  "stages kv c b b' f W D \<Longrightarrow> staging_ready kv c \<Longrightarrow> k \<in> cell_keys c \<Longrightarrow>
   \<exists>b''. stage_max_u64 kv b' k v = Inr b'' \<and> stages kv c b b'' f (insert (k, v) W) D"
  using stages_max [of c b' kv k v] stages_trans [of kv c b b' f W D _ id "{(k, v)}" "{}"]
  by (fastforce dest: stages_ready)

lemma then_partition_deletes:
  "stages kv c b b' f W D \<Longrightarrow> set ks \<subseteq> partition_space c \<Longrightarrow>
   (\<And>k f. k \<in> set ks \<Longrightarrow> prefix (file_partition_value_prefix c f) k \<Longrightarrow> f \<in> E) \<Longrightarrow>
   stages kv c b (b'\<lparr>deletes := deletes b' @ ks\<rparr>) f W (D \<union> E)"
  using stages_trans [of kv c b b' f W D "b'\<lparr>deletes := deletes b' @ ks\<rparr>" id "{}" E]
    stages_partition_deletes [of c b' ks E kv]
  by (auto dest: stages_ready)

text \<open>Staging a list of rows composes the effects of its steps.\<close>

lemma stages_rfold:
  assumes "batch_ready c b"
    and step: "\<And>x b. x \<in> set xs \<Longrightarrow> batch_ready c b \<Longrightarrow> \<exists>b'. g x b = Inr b' \<and> stages kv c b b' (f x) (W x) (D x)"
  shows "\<exists>b'. rfold g xs b = Inr b' \<and> stages kv c b b' (fold f xs) (\<Union>x \<in> set xs. W x) (\<Union>x \<in> set xs. D x)"
  using assms
proof (induction xs arbitrary: b)
  case Nil
  then show ?case using stages_refl [of c b kv] by (simp add: id_def [symmetric])
next
  case (Cons x xs)
  from Cons.prems obtain b1 where b1: "g x b = Inr b1" "stages kv c b b1 (f x) (W x) (D x)" by fastforce
  from Cons.IH [OF stages_ready [OF b1(2)]] Cons.prems(2) obtain b2 where
    "rfold g xs b1 = Inr b2" "stages kv c b1 b2 (fold f xs) (\<Union>x \<in> set xs. W x) (\<Union>x \<in> set xs. D x)" by auto
  with b1(1) stages_trans [OF b1(2), of b2 "fold f xs"] show ?case by (auto simp: comp_def)
qed

section \<open>Committing\<close>

lemma partition_values_wf_shrink:
  assumes "partition_values_wf m c" "\<And>k. k \<in> partition_space c \<Longrightarrow> m' k \<in> {None, m k}"
  shows "partition_values_wf m' c"
  unfolding partition_values_wf_def
proof (intro allI impI)
  fix k v
  assume k: "prefix (family_prefix c FilePartitionValue) k" "m' k = Some v"
  then have "m k = Some v" using assms(2) [of k] by (auto simp: partition_space_def)
  with assms(1) k(1) show "\<exists>r. k = file_partition_value_key c (pv_data_file_id r) (pv_partition_key_index r) \<and>
      v = partition_row_encode r \<and> partition_row_ok r" by (simp add: partition_values_wf_def)
qed

lemma file_rows_local:
  assumes "fake_wf kv" "fake_wf kv'" "\<And>k. prefix (file_partition_value_prefix c f) k \<Longrightarrow> fake_get kv' k = fake_get kv k"
  shows "file_rows kv' c f = file_rows kv c f"
proof -
  have "filter (\<lambda>e. prefix (file_partition_value_prefix c f) (fst e)) (items kv') =
      filter (\<lambda>e. prefix (file_partition_value_prefix c f) (fst e)) (items kv)"
    using assms by (intro btree_ext) (auto simp: fake_wf_def fake_get_def fun_eq_iff map_of_filter_fst [of "prefix _"])
  then show ?thesis by (simp add: file_rows_def)
qed

lemma commit_staged:
  assumes "staging_ready kv c" "stages kv c batch_new b f W D"
  shows "\<exists>kv'. commit_then kv b x = (Inr x, kv') \<and> staging_ready kv' c \<and> next_order kv' = next_order kv \<and>
    (\<forall>k \<in> main_space c. fake_get kv' k = f (fake_get kv) k) \<and>
    (\<forall>k \<in> cell_keys c. \<forall>n. cell_ge n (fake_get kv k) \<longrightarrow> cell_ge n (fake_get kv' k)) \<and>
    (\<forall>(k, n) \<in> W. cell_ge n (fake_get kv' k)) \<and> (\<forall>f. f \<notin> D \<longrightarrow> file_rows kv' c f = file_rows kv c f)"
proof -
  from assms(2) have b: "batch_ready c b" by (rule stages_ready)
  then obtain kv' where kv': "commit_then kv b x = (Inr x, kv')" "fake_get kv' = pending kv b"
    "fake_wf kv \<longrightarrow> fake_wf kv'" "next_order kv' = next_order kv"
    using commit_then_unchecked [of b kv x] by (auto simp: batch_ready_def)
  have cell: "cell_ok (pending kv b k)" if "k \<in> cell_keys c" for k
  proof -
    have "staged_once b k" "k \<notin> set (deletes b)" using b that by (auto simp: batch_ready_def)
    moreover have "cell_ok (fake_get kv k)" using assms(1) that by (simp add: staging_ready_def)
    ultimately show ?thesis
    proof (cases "map_of (rev (writes b)) k")
      case (Some v)
      then have "(k, v) \<in> set (writes b)" using map_of_SomeD [OF Some] by simp
      with \<open>staged_once b k\<close> have "length v = 8" by (auto simp: staged_once_def)
      with Some show ?thesis by (simp add: apply_batch_apply cell_ok_def)
    qed (simp add: apply_batch_apply)
  qed
  have "partition_values_wf (fake_get kv') c"
  proof (rule partition_values_wf_shrink [of "fake_get kv"])
    show "partition_values_wf (fake_get kv) c" using assms(1) by (simp add: staging_ready_def)
    show "fake_get kv' k \<in> {None, fake_get kv k}" if "k \<in> partition_space c" for k
      using assms(2) that unfolding stages_def kv'(2) apply_batch_new by blast
  qed
  with cell kv' assms(1) have "staging_ready kv' c" by (simp add: staging_ready_def)
  moreover have "file_rows kv' c f = file_rows kv c f" if "f \<notin> D" for f
    using assms kv'(2,3) that unfolding stages_def staging_ready_def apply_batch_new
    by (intro file_rows_local) auto
  ultimately show ?thesis
    using assms(2) kv' unfolding stages_def apply_batch_new by auto
qed

end
