(* ===== verification/Cat_Files.thy ===== *)
theory Cat_Files
  imports Cat_Partitions Cat_Changes
begin

text \<open>
  The data file store (\<open>data_file_store.rs\<close> with \<open>storage_rows.rs\<close>, \<open>current_files.rs\<close>,
  \<open>delete_attachment.rs\<close> and \<open>duplicate_suppression.rs\<close>, and \<open>file_visibility.rs\<close>). A data file is stored
  under its id, in the begin index of its table and, while it is current, in the current index of its table;
  a delete file is stored under its id, as the current delete file of its data file and on the delete timeline
  of its data file. This theory has the operations; their theorems are in the theories that follow.
\<close>

section \<open>Stored rows\<close>

definition decode_data_file_id :: "bytes \<Rightarrow> data_file_id catalog_result" where
  "decode_data_file_id bs =
     (if length bs \<noteq> 8 then Inl (Decode ''data file id pointer must be 8 bytes'')
      else be_u64 (Decode ''data file id pointer is truncated'') bs)"

definition decode_delete_file_id :: "bytes \<Rightarrow> delete_file_id catalog_result" where
  "decode_delete_file_id bs =
     (if length bs \<noteq> 8 then Inl (Decode ''delete file id pointer must be 8 bytes'')
      else be_u64 (Decode ''delete file id pointer is truncated'') bs)"

definition load_data_file :: "fake_kv \<Rightarrow> catalog_id \<Rightarrow> data_file_id \<Rightarrow> data_file_row catalog_result" where
  "load_data_file kv catalog data_file_id =
     (case fake_get kv (data_file_key catalog data_file_id) of
        None \<Rightarrow> Inl (NotFound ''data file'')
      | Some v \<Rightarrow> data_file_row_decode v)"

definition load_delete_file :: "fake_kv \<Rightarrow> catalog_id \<Rightarrow> delete_file_id \<Rightarrow> delete_file_row catalog_result" where
  "load_delete_file kv catalog delete_file_id =
     (case fake_get kv (delete_file_key catalog delete_file_id) of
        None \<Rightarrow> Inl (NotFound ''delete file'')
      | Some v \<Rightarrow> delete_file_row_decode v)"

definition data_file_from_current_index_value ::
    "fake_kv \<Rightarrow> catalog_id \<Rightarrow> bytes \<Rightarrow> data_file_row catalog_result" where
  "data_file_from_current_index_value kv catalog v =
     (case data_file_row_decode v of
        Inr r \<Rightarrow> Inr r
      | Inl _ \<Rightarrow> rbind (decode_data_file_id v) (load_data_file kv catalog))"

definition data_file_begin_order_from_key ::
    "catalog_id \<Rightarrow> table_id \<Rightarrow> bytes \<Rightarrow> catalog_order_kind \<Rightarrow> catalog_order_id catalog_result" where
  "data_file_begin_order_from_key catalog table_id key kind =
     (case strip_prefix (data_file_begin_prefix catalog table_id) key of
        None \<Rightarrow> Inl (InvalidKey ''data file begin key has wrong prefix'')
      | Some tail \<Rightarrow>
          if length tail \<noteq> 16 + 1 + 8 \<or> tail ! 16 \<noteq> slash
          then Inl (InvalidKey ''data file begin key tail must be 25 bytes with separator'')
          else rbind (slice tail 0 16) (\<lambda>bs. Inr (order_from_bytes kind bs)))"

definition data_file_from_begin_index_item ::
    "fake_kv \<Rightarrow> catalog_id \<Rightarrow> bytes \<Rightarrow> bytes \<Rightarrow> data_file_row catalog_result" where
  "data_file_from_begin_index_item kv catalog key v =
     (case data_file_row_decode v of
        Inr r \<Rightarrow>
          rbind (data_file_begin_order_from_key catalog (df_table_id r) key
                   (order_kind (begin_order (df_validity r)))) (\<lambda>ord.
            Inr (df_with_begin_order r ord))
      | Inl _ \<Rightarrow> rbind (decode_data_file_id v) (load_data_file kv catalog))"

definition current_delete_file_from_index_value ::
    "fake_kv \<Rightarrow> catalog_id \<Rightarrow> bytes \<Rightarrow> delete_file_row catalog_result" where
  "current_delete_file_from_index_value kv catalog v =
     (case delete_file_row_decode v of
        Inr r \<Rightarrow> Inr r
      | Inl _ \<Rightarrow> rbind (decode_delete_file_id v) (load_delete_file kv catalog))"

definition delete_file_from_timeline_item ::
    "fake_kv \<Rightarrow> catalog_id \<Rightarrow> data_file_id \<Rightarrow> range_item \<Rightarrow> delete_file_row catalog_result" where
  "delete_file_from_timeline_item kv catalog data_file_id i =
     (case delete_file_row_decode (ri_value i) of
        Inr r \<Rightarrow>
          rbind (delete_file_timeline_order_from_key catalog data_file_id (ri_key i)
                   (order_kind (begin_order (xf_validity r)))) (\<lambda>timeline_order.
            let r1 = (if begin_order (xf_validity r) = incomplete_fdb_order
                      then r\<lparr>xf_validity := (xf_validity r)\<lparr>begin_order := timeline_order\<rparr>\<rparr> else r);
                r2 = (if xf_max_partial_order r1 = Some incomplete_fdb_order
                      then r1\<lparr>xf_max_partial_order := Some timeline_order\<rparr> else r1)
            in Inr r2)
      | Inl _ \<Rightarrow> rbind (decode_delete_file_id (ri_value i)) (load_delete_file kv catalog))"

definition delete_file_can_answer_snapshot ::
    "delete_file_row \<Rightarrow> catalog_order_id \<Rightarrow> catalog_order_id \<Rightarrow> bool" where
  "delete_file_can_answer_snapshot r timeline_order snapshot_order \<longleftrightarrow>
     is_visible_at (xf_validity r) snapshot_order \<and> timeline_order \<le> snapshot_order"

definition load_delete_file_at ::
    "fake_kv \<Rightarrow> catalog_id \<Rightarrow> data_file_id \<Rightarrow> catalog_order_id \<Rightarrow> delete_file_row option catalog_result" where
  "load_delete_file_at kv catalog data_file_id snapshot_order =
     rbind (fake_scan_range kv (delete_file_timeline_prefix catalog data_file_id)
              (delete_file_timeline_scan_end catalog data_file_id snapshot_order) Reverse (Some 1)) (\<lambda>page.
       case page of
         [] \<Rightarrow> Inr None
       | i # _ \<Rightarrow>
           rbind (delete_file_from_timeline_item kv catalog data_file_id i) (\<lambda>r.
           rbind (delete_file_timeline_order_from_key catalog data_file_id (ri_key i)
                    (order_kind (begin_order (xf_validity r)))) (\<lambda>timeline_order.
             Inr (if delete_file_can_answer_snapshot r timeline_order snapshot_order then Some r else None))))"

fun timeline_key_loop :: "delete_file_id \<Rightarrow> range_item list \<Rightarrow> bytes option catalog_result" where
  "timeline_key_loop delete_file_id [] = Inr None"
| "timeline_key_loop delete_file_id (i # is) =
     rbind (case delete_file_row_decode (ri_value i) of
              Inr existing \<Rightarrow> Inr (xf_delete_file_id existing)
            | Inl _ \<Rightarrow> decode_delete_file_id (ri_value i)) (\<lambda>x.
       if x = delete_file_id then Inr (Some (ri_key i)) else timeline_key_loop delete_file_id is)"

definition delete_file_timeline_key_for_row ::
    "fake_kv \<Rightarrow> catalog_id \<Rightarrow> delete_file_row \<Rightarrow> bytes option catalog_result" where
  "delete_file_timeline_key_for_row kv catalog r =
     rbind (fake_scan_prefix kv (delete_file_timeline_prefix catalog (xf_data_file_id r)) Forward None)
       (timeline_key_loop (xf_delete_file_id r))"

definition stage_close_current_delete_file ::
    "fake_kv \<Rightarrow> kv_batch \<Rightarrow> catalog_id \<Rightarrow> data_file_row \<Rightarrow> delete_file_row \<Rightarrow> catalog_order_id \<Rightarrow>
     kv_batch catalog_result" where
  "stage_close_current_delete_file kv b catalog data_file nxt close_order =
     (case fake_get kv (current_delete_file_key catalog (xf_data_file_id nxt)) of
        None \<Rightarrow> Inr b
      | Some v \<Rightarrow>
          rbind (current_delete_file_from_index_value kv catalog v) (\<lambda>r.
            if xf_delete_file_id r = xf_delete_file_id nxt
            then Inl (InvalidMutation ''delete file is already current'')
            else if close_order \<le> begin_order (xf_validity r)
            then Inl (InvalidMutation ''delete file cannot close newer delete file'')
            else if begin_order (xf_validity nxt) < begin_order (xf_validity r)
            then Inl (InvalidMutation ''delete file cannot replace newer delete file'')
            else let r1 = r\<lparr>xf_validity := (xf_validity r)\<lparr>end_order := Some close_order\<rparr>\<rparr>;
                     b1 = batch_put b (delete_file_key catalog (xf_delete_file_id r1)) (delete_file_row_encode r1)
                 in rbind (delete_file_timeline_key_for_row kv catalog r1) (\<lambda>k.
                   let b2 = (case k of None \<Rightarrow> b1 | Some key \<Rightarrow> batch_put b1 key (delete_file_row_encode r1))
                   in Inr (batch_put b2
                        (delete_file_end_key catalog (df_table_id data_file) close_order (xf_delete_file_id r1))
                        (u64_to_be_bytes (xf_delete_file_id r1))))))"

definition inherit_current_delete_begin_order ::
    "fake_kv \<Rightarrow> catalog_id \<Rightarrow> delete_file_row \<Rightarrow> delete_file_row catalog_result" where
  "inherit_current_delete_begin_order kv catalog nxt =
     (case fake_get kv (current_delete_file_key catalog (xf_data_file_id nxt)) of
        None \<Rightarrow> Inr nxt
      | Some v \<Rightarrow>
          rbind (current_delete_file_from_index_value kv catalog v) (\<lambda>cur.
            if xf_delete_file_id cur = xf_delete_file_id nxt then Inr nxt
            else Inr (nxt\<lparr>xf_validity := (xf_validity nxt)\<lparr>begin_order := begin_order (xf_validity cur)\<rparr>\<rparr>)))"

section \<open>Row id ranges\<close>

definition row_id_overlap_check_needed :: "data_file_row \<Rightarrow> bool" where
  "row_id_overlap_check_needed r \<longleftrightarrow> df_row_id_start_known r \<and> df_record_count r > 0"

definition data_file_next_row_id :: "data_file_row \<Rightarrow> u64 option" where
  "data_file_next_row_id r =
     (if row_id_overlap_check_needed r then Some (saturating_add (df_row_id_start r) (df_record_count r)) else None)"

definition reject_row_id_overlap :: "data_file_row \<Rightarrow> data_file_row \<Rightarrow> unit catalog_result" where
  "reject_row_id_overlap l r =
     (if df_table_id l \<noteq> df_table_id r \<or> \<not> df_row_id_start_known l \<or> \<not> df_row_id_start_known r \<or>
         df_record_count l = 0 \<or> df_record_count r = 0
      then Inr ()
      else let left_end = saturating_add (df_row_id_start l) (df_record_count l);
               right_end = saturating_add (df_row_id_start r) (df_record_count r)
           in if df_row_id_start l < right_end \<and> df_row_id_start r < left_end
              then Inl (InvalidMutation ''conflict committing data mutation: data file row ids overlap'')
              else Inr ())"

fun reject_proposed_data_file_row_id_overlaps :: "data_file_row list \<Rightarrow> unit catalog_result" where
  "reject_proposed_data_file_row_id_overlaps [] = Inr ()"
| "reject_proposed_data_file_row_id_overlaps (r # rs) =
     rbind (rfold (\<lambda>other _. reject_row_id_overlap r other) rs ()) (\<lambda>_.
       reject_proposed_data_file_row_id_overlaps rs)"

text \<open>Groups in the order of the first row of each table; \<open>table_indexes\<close> finds the group of a table.\<close>

fun group_push :: "'k \<Rightarrow> 'a \<Rightarrow> ('k \<times> 'a list) list \<Rightarrow> ('k \<times> 'a list) list" where
  "group_push k x [] = [(k, [x])]"
| "group_push k x ((k', xs) # gs) = (if k = k' then (k', xs @ [x]) # gs else (k', xs) # group_push k x gs)"

definition data_files_by_table :: "data_file_row list \<Rightarrow> (table_id \<times> data_file_row list) list" where
  "data_files_by_table rows = fold (\<lambda>r. group_push (df_table_id r) r) rows []"

definition reject_allocated_table_row_id_reuse ::
    "fake_kv \<Rightarrow> catalog_id \<Rightarrow> data_file_row list \<Rightarrow> unit catalog_result" where
  "reject_allocated_table_row_id_reuse kv catalog rows =
     rfold (\<lambda>(table_id, table_rows) _.
       rbind (load_table_next_row_id kv catalog table_id) (\<lambda>next_row_id.
         rfold (\<lambda>r _.
           if df_row_id_start r < next_row_id
           then Inl (InvalidMutation ''conflict committing data mutation: data file row ids reuse allocated row ids'')
           else Inr ()) (filter row_id_overlap_check_needed table_rows) ())) (data_files_by_table rows) ()"

section \<open>Listing current files\<close>

definition scan_current_data_files :: "fake_kv \<Rightarrow> catalog_id \<Rightarrow> table_id \<Rightarrow> data_file_row list catalog_result" where
  "scan_current_data_files kv catalog table_id =
     rbind (fake_scan_prefix kv (current_data_file_prefix catalog table_id) Forward None) (\<lambda>page.
     rbind (rmap (\<lambda>i. data_file_from_current_index_value kv catalog (ri_value i)) page) (\<lambda>rows.
       Inr (filter (\<lambda>r. end_order (df_validity r) = None) rows)))"

definition list_current_data_files :: "fake_kv \<Rightarrow> catalog_id \<Rightarrow> table_id \<Rightarrow> data_file_row list catalog_result" where
  "list_current_data_files kv catalog table_id = scan_current_data_files kv catalog table_id"

definition list_current_data_files_for_mutation_validation ::
    "fake_kv \<Rightarrow> catalog_id \<Rightarrow> table_id \<Rightarrow> catalog_order_id option \<Rightarrow> data_file_row list catalog_result" where
  "list_current_data_files_for_mutation_validation kv catalog table_id latest_order =
     scan_current_data_files kv catalog table_id"

definition list_all_current_data_files :: "fake_kv \<Rightarrow> catalog_id \<Rightarrow> data_file_row list catalog_result" where
  "list_all_current_data_files kv catalog =
     rbind (fake_scan_prefix kv (family_prefix catalog CurrentDataFile) Forward None) (\<lambda>page.
     rbind (rmap (\<lambda>i. data_file_from_current_index_value kv catalog (ri_value i)) page) (\<lambda>rows.
       Inr (sort_key (\<lambda>r. (df_table_id r, df_data_file_id r))
              (filter (\<lambda>r. end_order (df_validity r) = None) rows))))"

definition list_data_files :: "fake_kv \<Rightarrow> catalog_id \<Rightarrow> data_file_row list catalog_result" where
  "list_data_files kv catalog =
     rbind (fake_scan_prefix kv (family_prefix catalog DataFile) Forward None) (\<lambda>page.
     rbind (rmap (\<lambda>i. data_file_row_decode (ri_value i)) page) (\<lambda>rows.
       Inr (sort_key df_data_file_id rows)))"

definition reject_current_data_file_row_id_overlaps_for_replacement ::
    "fake_kv \<Rightarrow> catalog_id \<Rightarrow> data_file_row list \<Rightarrow> data_file_id set \<Rightarrow> catalog_order_id option \<Rightarrow>
     unit catalog_result" where
  "reject_current_data_file_row_id_overlaps_for_replacement kv catalog rows allowed latest_order =
     rfold (\<lambda>(table_id, table_rows) _.
       let candidates = filter row_id_overlap_check_needed table_rows in
       if candidates = [] then Inr ()
       else rbind (list_current_data_files_for_mutation_validation kv catalog table_id latest_order) (\<lambda>current.
         rfold (\<lambda>existing _.
           if df_data_file_id existing \<in> allowed then Inr ()
           else rfold (\<lambda>r _. reject_row_id_overlap r existing) candidates ()) current ()))
       (data_files_by_table rows) ()"

definition reject_current_data_file_row_id_overlaps_except_with_latest_order ::
    "fake_kv \<Rightarrow> catalog_id \<Rightarrow> data_file_row list \<Rightarrow> data_file_id set \<Rightarrow> catalog_order_id option \<Rightarrow>
     unit catalog_result" where
  "reject_current_data_file_row_id_overlaps_except_with_latest_order kv catalog rows allowed latest_order =
     rbind (reject_proposed_data_file_row_id_overlaps rows) (\<lambda>_.
       if allowed = {} then reject_allocated_table_row_id_reuse kv catalog rows
       else reject_current_data_file_row_id_overlaps_for_replacement kv catalog rows allowed latest_order)"

definition reject_current_data_file_row_id_overlaps_except ::
    "fake_kv \<Rightarrow> catalog_id \<Rightarrow> data_file_row list \<Rightarrow> data_file_id set \<Rightarrow> unit catalog_result" where
  "reject_current_data_file_row_id_overlaps_except kv catalog rows allowed =
     reject_current_data_file_row_id_overlaps_except_with_latest_order kv catalog rows allowed None"

definition reject_current_data_file_row_id_overlaps ::
    "fake_kv \<Rightarrow> catalog_id \<Rightarrow> data_file_row list \<Rightarrow> unit catalog_result" where
  "reject_current_data_file_row_id_overlaps kv catalog rows =
     reject_current_data_file_row_id_overlaps_except kv catalog rows {}"


section \<open>Mutations\<close>

definition stage_append_data_file_without_change ::
    "fake_kv \<Rightarrow> kv_batch \<Rightarrow> catalog_id \<Rightarrow> data_file_row \<Rightarrow> kv_batch catalog_result" where
  "stage_append_data_file_without_change kv b catalog r =
     (let b1 = batch_put b (data_file_key catalog (df_data_file_id r)) (data_file_row_encode r);
          b2 = batch_put b1 (current_data_file_key catalog (df_table_id r) (df_data_file_id r)) (data_file_row_encode r);
          b3 = batch_put b2 (data_file_begin_key catalog (df_table_id r) (begin_order (df_validity r)) (df_data_file_id r))
                 (data_file_row_encode r)
      in rbind (stage_max_file_id_watermark kv b3 catalog (df_data_file_id r)) (\<lambda>b4.
         rbind (case data_file_next_row_id r of
                  Some next_row_id \<Rightarrow> stage_table_next_row_id kv b4 catalog (df_table_id r) next_row_id
                | None \<Rightarrow> Inr b4) (\<lambda>b5.
           delete_partition_values_for_data_file kv b5 catalog (df_data_file_id r))))"

definition stage_append_data_file ::
    "fake_kv \<Rightarrow> kv_batch \<Rightarrow> catalog_id \<Rightarrow> data_file_row \<Rightarrow> kv_batch catalog_result" where
  "stage_append_data_file kv b catalog r =
     rbind (stage_append_data_file_without_change kv b catalog r) (\<lambda>b1.
       Inr (write_data_file_change b1 catalog (df_table_id r) (begin_order (df_validity r)) Added (df_data_file_id r)))"

definition append_data_file :: "fake_kv \<Rightarrow> catalog_id \<Rightarrow> data_file_row \<Rightarrow> data_file_row kv_op" where
  "append_data_file kv catalog r =
     attempt kv (stage_append_data_file kv batch_new catalog r) (\<lambda>b. commit_then kv b r)"

text \<open>\<open>commit_append_data_files\<close>, that is \<open>commit_append_data_files_with_inline_flushes\<close> with no flushes.\<close>

definition commit_append_data_files ::
    "fake_kv \<Rightarrow> catalog_id \<Rightarrow> i64 \<Rightarrow> data_file_row list \<Rightarrow> data_file_row list kv_op" where
  "commit_append_data_files kv catalog now rows =
     (if rows = [] then (Inr rows, kv)
      else attempt kv (latest_snapshot kv catalog) (\<lambda>latest.
        let (ord, kv1) = fake_generated_order_id kv;
            snapshot = snapshot_row_for_next_sequence now latest ord;
            b = stage_snapshot batch_new catalog snapshot;
            rows1 = map (\<lambda>r. r\<lparr>df_validity := validity_new ord None\<rparr>) rows
        in attempt kv1 (reject_current_data_file_row_id_overlaps kv1 catalog rows1) (\<lambda>_.
           attempt kv1 (rfold (\<lambda>r b. stage_append_data_file kv1 b catalog r) rows1 b) (\<lambda>b1.
             commit_then kv1 b1 rows1))))"

definition stage_expire_data_file ::
    "fake_kv \<Rightarrow> kv_batch \<Rightarrow> catalog_id \<Rightarrow> data_file_row \<Rightarrow> catalog_order_id \<Rightarrow> kv_batch catalog_result" where
  "stage_expire_data_file kv b catalog r ord =
     (let b1 = batch_put b (data_file_key catalog (df_data_file_id r)) (data_file_row_encode r);
          b2 = batch_put b1 (data_file_begin_key catalog (df_table_id r) (begin_order (df_validity r)) (df_data_file_id r))
                 (data_file_row_encode r);
          b3 = batch_delete b2 (current_data_file_key catalog (df_table_id r) (df_data_file_id r));
          b4 = batch_put b3 (data_file_end_key catalog (df_table_id r) ord (df_data_file_id r))
                 (u64_to_be_bytes (df_data_file_id r));
          b5 = write_data_file_change b4 catalog (df_table_id r) ord Removed (df_data_file_id r)
      in delete_partition_lookups_for_data_file kv b5 catalog (df_data_file_id r))"

definition expire_data_file ::
    "fake_kv \<Rightarrow> catalog_id \<Rightarrow> data_file_id \<Rightarrow> catalog_order_id \<Rightarrow> data_file_row kv_op" where
  "expire_data_file kv catalog data_file_id ord =
     (case fake_get kv (data_file_key catalog data_file_id) of
        None \<Rightarrow> (Inl (NotFound ''data file''), kv)
      | Some v \<Rightarrow>
          attempt kv (data_file_row_decode v) (\<lambda>r.
            if ord \<le> begin_order (df_validity r)
            then (Inl (InvalidMutation ''data file cannot end at or before its begin order''), kv)
            else let r1 = r\<lparr>df_validity := (df_validity r)\<lparr>end_order := Some ord\<rparr>\<rparr>
                 in attempt kv (stage_expire_data_file kv batch_new catalog r1 ord) (\<lambda>b. commit_then kv b r1)))"

definition stage_register_delete_file_for_data_file ::
    "fake_kv \<Rightarrow> kv_batch \<Rightarrow> catalog_id \<Rightarrow> data_file_row \<Rightarrow> delete_file_row \<Rightarrow> catalog_order_id \<Rightarrow>
     (kv_batch \<times> delete_file_row) catalog_result" where
  "stage_register_delete_file_for_data_file kv b catalog data_file x close_order =
     rbind (inherit_current_delete_begin_order kv catalog x) (\<lambda>x1.
     rbind (stage_close_current_delete_file kv b catalog data_file x1 close_order) (\<lambda>b1.
       let b2 = batch_put b1 (delete_file_key catalog (xf_delete_file_id x1)) (delete_file_row_encode x1);
           b3 = batch_put b2 (current_delete_file_key catalog (xf_data_file_id x1)) (delete_file_row_encode x1);
           b4 = batch_put b3 (delete_file_timeline_key catalog (xf_data_file_id x1) close_order (xf_delete_file_id x1))
                  (delete_file_row_encode x1);
           b5 = batch_put b4 (table_delete_file_change_key catalog (df_table_id data_file) close_order (xf_delete_file_id x1)) [];
           b6 = batch_put b5 (order_delete_file_change_key catalog close_order (df_table_id data_file) (xf_delete_file_id x1)) []
       in rbind (stage_max_file_id_watermark kv b6 catalog (xf_delete_file_id x1)) (\<lambda>b7. Inr (b7, x1))))"

definition stage_register_delete_file ::
    "fake_kv \<Rightarrow> kv_batch \<Rightarrow> catalog_id \<Rightarrow> delete_file_row \<Rightarrow> catalog_order_id \<Rightarrow>
     (kv_batch \<times> delete_file_row) catalog_result" where
  "stage_register_delete_file kv b catalog x close_order =
     rbind (load_data_file kv catalog (xf_data_file_id x)) (\<lambda>data_file.
       stage_register_delete_file_for_data_file kv b catalog data_file x close_order)"

definition register_delete_file :: "fake_kv \<Rightarrow> catalog_id \<Rightarrow> delete_file_row \<Rightarrow> delete_file_row kv_op" where
  "register_delete_file kv catalog x =
     attempt kv (stage_register_delete_file kv batch_new catalog x (begin_order (xf_validity x))) (\<lambda>(b, x1).
       commit_then kv b x1)"

definition commit_register_delete_files ::
    "fake_kv \<Rightarrow> catalog_id \<Rightarrow> i64 \<Rightarrow> delete_file_row list \<Rightarrow> delete_file_row list kv_op" where
  "commit_register_delete_files kv catalog now rows =
     (if rows = [] then (Inr rows, kv)
      else attempt kv (latest_snapshot kv catalog) (\<lambda>latest.
        let (ord, kv1) = fake_generated_order_id kv;
            snapshot = snapshot_row_for_next_sequence now latest ord;
            b = stage_snapshot batch_new catalog snapshot
        in attempt kv1 (rfold (\<lambda>x (b, out).
               rbind (stage_register_delete_file kv1 b catalog (x\<lparr>xf_validity := validity_new ord None\<rparr>) ord)
                 (\<lambda>(b1, x1). Inr (b1, out @ [x1]))) rows (b, [])) (\<lambda>(b1, out).
             commit_then kv1 b1 out)))"

section \<open>Expiring current files\<close>

definition stage_expire_current_data_file ::
    "fake_kv \<Rightarrow> kv_batch \<Rightarrow> catalog_id \<Rightarrow> data_file_id \<Rightarrow> catalog_order_id \<Rightarrow>
     (kv_batch \<times> data_file_row) catalog_result" where
  "stage_expire_current_data_file kv b catalog data_file_id ord =
     rbind (load_data_file kv catalog data_file_id) (\<lambda>r.
       if ord \<le> begin_order (df_validity r)
       then Inl (InvalidMutation ''data file cannot end at or before its begin order'')
       else if end_order (df_validity r) \<noteq> None
       then Inl (InvalidMutation ''data file is already expired'')
       else let r1 = r\<lparr>df_validity := (df_validity r)\<lparr>end_order := Some ord\<rparr>\<rparr>;
                b1 = batch_put b (data_file_key catalog (df_data_file_id r1)) (data_file_row_encode r1);
                b2 = batch_put b1 (data_file_begin_key catalog (df_table_id r1) (begin_order (df_validity r1))
                       (df_data_file_id r1)) (data_file_row_encode r1);
                b3 = batch_delete b2 (current_data_file_key catalog (df_table_id r1) (df_data_file_id r1));
                b4 = batch_put b3 (data_file_end_key catalog (df_table_id r1) ord (df_data_file_id r1))
                       (u64_to_be_bytes (df_data_file_id r1));
                b5 = write_data_file_change b4 catalog (df_table_id r1) ord Removed (df_data_file_id r1)
            in rbind (delete_partition_lookups_for_data_file kv b5 catalog data_file_id) (\<lambda>b6. Inr (b6, r1)))"

definition stage_expire_current_delete_file ::
    "fake_kv \<Rightarrow> kv_batch \<Rightarrow> catalog_id \<Rightarrow> data_file_row \<Rightarrow> delete_file_id \<Rightarrow> catalog_order_id \<Rightarrow>
     (kv_batch \<times> delete_file_row) catalog_result" where
  "stage_expire_current_delete_file kv b catalog data_file delete_file_id ord =
     rbind (load_delete_file kv catalog delete_file_id) (\<lambda>r.
       if xf_data_file_id r \<noteq> df_data_file_id data_file
       then Inl (InvalidMutation ''delete file belongs to another data file'')
       else if ord \<le> begin_order (xf_validity r)
       then Inl (InvalidMutation ''delete file cannot end at or before its begin order'')
       else if end_order (xf_validity r) \<noteq> None
       then Inl (InvalidMutation ''delete file is already expired'')
       else let r1 = r\<lparr>xf_validity := (xf_validity r)\<lparr>end_order := Some ord\<rparr>\<rparr>;
                b1 = batch_put b (delete_file_key catalog delete_file_id) (delete_file_row_encode r1)
            in rbind (delete_file_timeline_key_for_row kv catalog r1) (\<lambda>k.
              let b2 = (case k of None \<Rightarrow> b1 | Some key \<Rightarrow> batch_put b1 key (delete_file_row_encode r1));
                  b3 = batch_delete b2 (current_delete_file_key catalog (df_data_file_id data_file));
                  b4 = batch_put b3 (delete_file_end_key catalog (df_table_id data_file) ord delete_file_id)
                         (u64_to_be_bytes delete_file_id)
              in Inr (b4, r1)))"

definition decode_current_delete_file_id :: "bytes \<Rightarrow> delete_file_id catalog_result" where
  "decode_current_delete_file_id v =
     (case delete_file_row_decode v of
        Inr r \<Rightarrow> Inr (xf_delete_file_id r)
      | Inl _ \<Rightarrow> be_u64 (Decode ''delete file id pointer must be 8 bytes'') v)"

definition current_delete_file_id ::
    "fake_kv \<Rightarrow> catalog_id \<Rightarrow> data_file_id \<Rightarrow> delete_file_id option catalog_result" where
  "current_delete_file_id kv catalog data_file_id =
     rtranspose decode_current_delete_file_id (fake_get kv (current_delete_file_key catalog data_file_id))"

definition current_delete_file_ids ::
    "fake_kv \<Rightarrow> catalog_id \<Rightarrow> data_file_id list \<Rightarrow> (data_file_id \<times> delete_file_id) list catalog_result" where
  "current_delete_file_ids kv catalog ids =
     (if ids = [] then Inr []
      else rbind (kv_batch_get (\<lambda>k. Inr (fake_get kv k)) (map (current_delete_file_key catalog) ids)) (\<lambda>vals.
        rfold (\<lambda>(f, v) m.
          case v of
            None \<Rightarrow> Inr m
          | Some bs \<Rightarrow> rbind (decode_current_delete_file_id bs) (\<lambda>x. Inr (btree_insert f x m))) (zip ids vals) []))"

end
