(* ===== verification/Cat_File_Listing.thy ===== *)
theory Cat_File_Listing
  imports Cat_Files "HOL-Library.Multiset"
begin

text \<open>
  Listing data files at a snapshot and attaching delete files: \<open>duplicate_suppression.rs\<close>, the rest of
  \<open>current_files.rs\<close>, \<open>delete_attachment.rs\<close>, \<open>file_listing.rs\<close> and the partition scans of
  \<open>file_partitions.rs\<close>. Lists are computed from the store, as in the configuration without read contexts.
  Partition values are read from the store; the process-wide cache in front of them is a cache of immutable
  values (\<open>Cat_Lru\<close>).
\<close>

section \<open>Duplicate suppression\<close>

definition data_file_visible_at :: "data_file_row \<Rightarrow> catalog_order_id \<Rightarrow> bool" where
  "data_file_visible_at r snapshot_order \<longleftrightarrow> is_visible_at (df_validity r) snapshot_order"

definition is_backfilled_replacement_file :: "data_file_row \<Rightarrow> bool" where
  "is_backfilled_replacement_file r \<longleftrightarrow>
     (case df_max_partial_order r of None \<Rightarrow> False | Some m \<Rightarrow> m \<noteq> begin_order (df_validity r))"

record data_file_coverage =
  cv_data_file_id :: data_file_id
  cv_table_id :: table_id
  cv_path :: rust_string
  cv_begin_order :: catalog_order_id
  cv_row_id_start :: u64
  cv_row_id_end :: u64
  cv_row_id_start_known :: bool
  cv_record_count :: u64
  cv_max_partial_order :: catalog_order_id

definition coverage_from :: "data_file_row \<Rightarrow> data_file_coverage" where
  "coverage_from r =
     \<lparr>cv_data_file_id = df_data_file_id r, cv_table_id = df_table_id r, cv_path = df_path r,
      cv_begin_order = begin_order (df_validity r), cv_row_id_start = df_row_id_start r,
      cv_row_id_end = saturating_add (df_row_id_start r) (df_record_count r),
      cv_row_id_start_known = df_row_id_start_known r, cv_record_count = df_record_count r,
      cv_max_partial_order =
        (case df_max_partial_order r of Some m \<Rightarrow> m | None \<Rightarrow> begin_order (df_validity r))\<rparr>"

text \<open>\<open>path.split('/')\<close> and \<open>component.split_once('=')\<close>.\<close>

fun split_on :: "byte \<Rightarrow> bytes \<Rightarrow> bytes list" where
  "split_on sep [] = [[]]"
| "split_on sep (b # bs) =
     (if b = sep then [] # split_on sep bs
      else case split_on sep bs of w # ws \<Rightarrow> (b # w) # ws | [] \<Rightarrow> [[b]])"

definition split_once :: "byte \<Rightarrow> bytes \<Rightarrow> (bytes \<times> bytes) option" where
  "split_once sep bs =
     (case dropWhile (\<lambda>b. b \<noteq> sep) bs of
        [] \<Rightarrow> None
      | _ # rest \<Rightarrow> Some (takeWhile (\<lambda>b. b \<noteq> sep) bs, rest))"

definition hive_partition_path_key :: "rust_string \<Rightarrow> bytes list" where
  "hive_partition_path_key path =
     filter (\<lambda>component. case split_once 61 component of
         None \<Rightarrow> False | Some (key, val) \<Rightarrow> key \<noteq> [] \<and> val \<noteq> []) (split_on slash path)"

definition partition_paths_are_known_and_different :: "rust_string \<Rightarrow> rust_string \<Rightarrow> bool" where
  "partition_paths_are_known_and_different l r \<longleftrightarrow>
     (let lk = hive_partition_path_key l; rk = hive_partition_path_key r
      in lk \<noteq> [] \<and> rk \<noteq> [] \<and> lk \<noteq> rk)"

definition partition_key_from_rows :: "file_partition_value_row list \<Rightarrow> data_file_id \<Rightarrow> (u32 \<times> rust_string) list" where
  "partition_key_from_rows rows f =
     sort (map (\<lambda>r. (pv_partition_key_index r, pv_partition_value r)) (filter (\<lambda>r. pv_data_file_id r = f) rows))"

datatype partition_key_lookup =
    LookupEmpty
  | LookupLinear "file_partition_value_row list"
  | LookupIndexed "(data_file_id \<times> (u32 \<times> rust_string) list) list"

definition usize_saturating_mul :: "nat \<Rightarrow> nat \<Rightarrow> nat" where
  "usize_saturating_mul a b = min (a * b) usize_max"

definition partition_key_lookup_new :: "file_partition_value_row list \<Rightarrow> nat \<Rightarrow> partition_key_lookup" where
  "partition_key_lookup_new vals comparison_count =
     (if vals = [] then LookupEmpty
      else if usize_saturating_mul (length vals) comparison_count \<le> 256 then LookupLinear vals
      else LookupIndexed (map (\<lambda>(f, ks). (f, sort ks))
             (fold (\<lambda>r. push_group (pv_data_file_id r) (pv_partition_key_index r, pv_partition_value r)) vals [])))"

fun same_non_empty_key :: "partition_key_lookup \<Rightarrow> data_file_id \<Rightarrow> data_file_id \<Rightarrow> bool" where
  "same_non_empty_key LookupEmpty l r = False"
| "same_non_empty_key (LookupLinear vals) l r =
     (let left_key = partition_key_from_rows vals l
      in left_key \<noteq> [] \<and> left_key = partition_key_from_rows vals r)"
| "same_non_empty_key (LookupIndexed keys) l r =
     (case map_of keys l of
        None \<Rightarrow> False
      | Some left_key \<Rightarrow> left_key \<noteq> [] \<and> Some left_key = map_of keys r)"

definition covers_row_id_range :: "data_file_coverage \<Rightarrow> data_file_row \<Rightarrow> bool" where
  "covers_row_id_range cv r \<longleftrightarrow>
     (if \<not> cv_row_id_start_known cv \<or> \<not> df_row_id_start_known r then False
      else let row_end = saturating_add (df_row_id_start r) (df_record_count r)
           in cv_row_id_start cv \<le> df_row_id_start r \<and> row_end \<le> cv_row_id_end cv)"

definition covers :: "data_file_coverage \<Rightarrow> data_file_row \<Rightarrow> partition_key_lookup \<Rightarrow> bool" where
  "covers cv r keys \<longleftrightarrow>
     (if df_table_id r \<noteq> cv_table_id cv \<or> df_record_count r = 0 then False
      else if begin_order (df_validity r) > cv_max_partial_order cv then False
      else if covers_row_id_range cv r then \<not> partition_paths_are_known_and_different (cv_path cv) (df_path r)
      else if cv_row_id_start_known cv \<and> df_row_id_start_known r then False
      else if cv_record_count cv \<le> df_record_count r then False
      else if begin_order (df_validity r) < cv_begin_order cv then False
      else same_non_empty_key keys (cv_data_file_id cv) (df_data_file_id r))"

definition might_cover_by_partition :: "data_file_coverage \<Rightarrow> data_file_row \<Rightarrow> bool" where
  "might_cover_by_partition cv r \<longleftrightarrow>
     df_table_id r = cv_table_id cv \<and> df_record_count r \<noteq> 0 \<and>
     begin_order (df_validity r) \<le> cv_max_partial_order cv \<and>
     begin_order (df_validity r) \<ge> cv_begin_order cv \<and>
     \<not> covers_row_id_range cv r \<and> (\<not> cv_row_id_start_known cv \<or> \<not> df_row_id_start_known r) \<and>
     cv_record_count cv > df_record_count r"

definition replacements_need_partition_values :: "data_file_coverage list \<Rightarrow> data_file_row list \<Rightarrow> bool" where
  "replacements_need_partition_values replacements rows \<longleftrightarrow>
     (\<exists>cv \<in> set replacements. \<exists>r \<in> set rows.
        df_data_file_id r \<noteq> cv_data_file_id cv \<and> might_cover_by_partition cv r)"

definition keep_uncovered :: "data_file_coverage list \<Rightarrow> partition_key_lookup \<Rightarrow> data_file_row list \<Rightarrow> data_file_row list" where
  "keep_uncovered replacements keys rows =
     filter (\<lambda>r. \<forall>cv \<in> set replacements. df_data_file_id r = cv_data_file_id cv \<or> \<not> covers cv r keys) rows"

definition without_backfilled_source_duplicates ::
    "fake_kv \<Rightarrow> catalog_id \<Rightarrow> data_file_row list \<Rightarrow> data_file_row list catalog_result" where
  "without_backfilled_source_duplicates kv catalog rows =
     (let replacements = map coverage_from (filter is_backfilled_replacement_file rows) in
      if replacements = [] then Inr rows
      else rbind
        (if replacements_need_partition_values replacements rows
         then rbind (list_file_partition_values_for_data_files kv catalog (sort (remdups (map df_data_file_id rows))))
                (\<lambda>partitions. Inr (partition_key_lookup_new partitions
                   (usize_saturating_mul (length replacements) (length rows))))
         else Inr LookupEmpty)
        (\<lambda>keys. Inr (keep_uncovered replacements keys rows)))"

section \<open>Listing at a snapshot\<close>

fun push_unseen :: "catalog_order_id \<Rightarrow> data_file_id list \<Rightarrow> data_file_row list \<Rightarrow> data_file_row list \<Rightarrow> data_file_row list" where
  "push_unseen snapshot_order seen [] rows = rows"
| "push_unseen snapshot_order seen (r # rs) rows =
     push_unseen snapshot_order seen rs
       (if df_data_file_id r \<notin> set seen \<and> data_file_visible_at r snapshot_order then rows @ [r] else rows)"

definition data_files_at_context_load ::
    "fake_kv \<Rightarrow> catalog_id \<Rightarrow> table_id \<Rightarrow> catalog_order_id \<Rightarrow> data_file_row list catalog_result" where
  "data_files_at_context_load kv catalog table_id snapshot_order =
     rbind (fake_scan_range kv (data_file_begin_prefix catalog table_id)
              (data_file_begin_scan_end catalog table_id snapshot_order) Forward None) (\<lambda>page.
     rbind (rmap (\<lambda>i. data_file_from_begin_index_item kv catalog (ri_key i) (ri_value i)) page) (\<lambda>begun.
       let rows = filter (\<lambda>r. data_file_visible_at r snapshot_order) begun in
     rbind (list_current_data_files kv catalog table_id) (\<lambda>current_rows.
       without_backfilled_source_duplicates kv catalog
         (push_unseen snapshot_order (map df_data_file_id rows) current_rows rows))))"

definition list_data_files_at ::
    "fake_kv \<Rightarrow> catalog_id \<Rightarrow> table_id \<Rightarrow> catalog_order_id \<Rightarrow> data_file_row list catalog_result" where
  "list_data_files_at kv catalog table_id snapshot_order =
     data_files_at_context_load kv catalog table_id snapshot_order"

section \<open>Attaching delete files\<close>

record attached_data_file =
  ad_data_file :: data_file_row
  ad_delete_file :: "delete_file_row option"

definition attach_data_files_without_deletes :: "data_file_row list \<Rightarrow> attached_data_file list" where
  "attach_data_files_without_deletes rows = map (\<lambda>r. \<lparr>ad_data_file = r, ad_delete_file = None\<rparr>) rows"

definition delete_file_changed_tables_at ::
    "fake_kv \<Rightarrow> catalog_id \<Rightarrow> catalog_order_id \<Rightarrow> table_id set catalog_result" where
  "delete_file_changed_tables_at kv catalog snapshot_order =
     rbind (fake_scan_range kv (order_delete_file_change_prefix catalog)
              (order_delete_file_change_scan_end catalog snapshot_order) Forward None) (\<lambda>page.
     rbind (rmap (\<lambda>i. decode_order_delete_file_change_table_id (order_delete_file_change_prefix catalog) (ri_key i)) page)
       (\<lambda>ts. Inr (set ts)))"

definition table_delete_file_changes_exist_at ::
    "fake_kv \<Rightarrow> catalog_id \<Rightarrow> table_id \<Rightarrow> catalog_order_id \<Rightarrow> bool catalog_result" where
  "table_delete_file_changes_exist_at kv catalog table_id snapshot_order =
     rbind (delete_file_changed_tables_at kv catalog snapshot_order) (\<lambda>ts. Inr (table_id \<in> ts))"

fun any_table_changed :: "fake_kv \<Rightarrow> catalog_id \<Rightarrow> catalog_order_id \<Rightarrow> table_id list \<Rightarrow> bool catalog_result" where
  "any_table_changed kv catalog snapshot_order [] = Inr False"
| "any_table_changed kv catalog snapshot_order (t # ts) =
     rbind (table_delete_file_changes_exist_at kv catalog t snapshot_order) (\<lambda>changed.
       if changed then Inr True else any_table_changed kv catalog snapshot_order ts)"

definition delete_file_changes_exist_for_files_at ::
    "fake_kv \<Rightarrow> catalog_id \<Rightarrow> data_file_row list \<Rightarrow> catalog_order_id \<Rightarrow> bool catalog_result" where
  "delete_file_changes_exist_for_files_at kv catalog rows snapshot_order =
     any_table_changed kv catalog snapshot_order (remdups_adj (sort (map df_table_id rows)))"

definition attach_current_delete_files ::
    "fake_kv \<Rightarrow> catalog_id \<Rightarrow> data_file_row list \<Rightarrow> attached_data_file list catalog_result" where
  "attach_current_delete_files kv catalog rows =
     (if rows = [] then Inr []
      else rbind (latest_snapshot kv catalog) (\<lambda>latest.
        rbind (case latest of
                 None \<Rightarrow> Inr True
               | Some s \<Rightarrow> delete_file_changes_exist_for_files_at kv catalog rows (sn_order s)) (\<lambda>go.
          if \<not> go then Inr (attach_data_files_without_deletes rows)
          else rbind (kv_batch_get (\<lambda>k. Inr (fake_get kv k))
                   (map (\<lambda>r. current_delete_file_key catalog (df_data_file_id r)) rows)) (\<lambda>pointers.
            rmap (\<lambda>(r, pointer).
              rbind (rtranspose (current_delete_file_from_index_value kv catalog) pointer) (\<lambda>x.
                Inr \<lparr>ad_data_file = r,
                     ad_delete_file = (case x of
                         Some d \<Rightarrow> if end_order (xf_validity d) = None then Some d else None
                       | None \<Rightarrow> None)\<rparr>)) (zip rows pointers)))))"

definition list_current_data_files_with_deletes ::
    "fake_kv \<Rightarrow> catalog_id \<Rightarrow> table_id \<Rightarrow> attached_data_file list catalog_result" where
  "list_current_data_files_with_deletes kv catalog table_id =
     rbind (list_current_data_files kv catalog table_id) (attach_current_delete_files kv catalog)"

definition attach_delete_files_at ::
    "fake_kv \<Rightarrow> catalog_id \<Rightarrow> data_file_row list \<Rightarrow> catalog_order_id \<Rightarrow> attached_data_file list catalog_result" where
  "attach_delete_files_at kv catalog rows snapshot_order =
     rbind (delete_file_changes_exist_for_files_at kv catalog rows snapshot_order) (\<lambda>go.
       if \<not> go then Inr (attach_data_files_without_deletes rows)
       else rmap (\<lambda>r. rbind (load_delete_file_at kv catalog (df_data_file_id r) snapshot_order) (\<lambda>x.
              Inr \<lparr>ad_data_file = r, ad_delete_file = x\<rparr>)) rows)"

definition list_data_files_with_deletes_at ::
    "fake_kv \<Rightarrow> catalog_id \<Rightarrow> table_id \<Rightarrow> catalog_order_id \<Rightarrow> attached_data_file list catalog_result" where
  "list_data_files_with_deletes_at kv catalog table_id snapshot_order =
     rbind (list_data_files_at kv catalog table_id snapshot_order) (\<lambda>rows.
       attach_delete_files_at kv catalog rows snapshot_order)"

section \<open>Partition scans\<close>

definition partition_value_lookup_current_data_files ::
    "fake_kv \<Rightarrow> catalog_id \<Rightarrow> table_id \<Rightarrow> partition_key_index \<Rightarrow> rust_string \<Rightarrow> data_file_row list catalog_result" where
  "partition_value_lookup_current_data_files kv catalog table_id index v =
     rbind (fake_scan_prefix kv (partition_value_lookup_prefix catalog table_id index v) Forward None) (\<lambda>page.
       rfold (\<lambda>i rows.
         rbind (decode_partition_lookup_data_file (ri_value i)) (\<lambda>x.
           case x of
             InlineRow r \<Rightarrow> Inr (if end_order (df_validity r) = None then rows @ [r] else rows)
           | PointerTo f \<Rightarrow>
               (case fake_get kv (current_data_file_key catalog table_id f) of
                  None \<Rightarrow> Inr rows
                | Some bs \<Rightarrow> rbind (data_file_row_decode bs) (\<lambda>r.
                    Inr (if end_order (df_validity r) = None then rows @ [r] else rows))))) page [])"

definition list_current_data_files_by_partition_value ::
    "fake_kv \<Rightarrow> catalog_id \<Rightarrow> table_id \<Rightarrow> partition_key_index \<Rightarrow> rust_string \<Rightarrow> data_file_row list catalog_result" where
  "list_current_data_files_by_partition_value kv catalog table_id index v =
     partition_value_lookup_current_data_files kv catalog table_id index v"

definition list_current_data_files_by_partition_value_with_deletes ::
    "fake_kv \<Rightarrow> catalog_id \<Rightarrow> table_id \<Rightarrow> partition_key_index \<Rightarrow> rust_string \<Rightarrow> attached_data_file list catalog_result" where
  "list_current_data_files_by_partition_value_with_deletes kv catalog table_id index v =
     rbind (list_current_data_files_by_partition_value kv catalog table_id index v)
       (attach_current_delete_files kv catalog)"

definition partition_value_lookup_current_data_file_ids ::
    "fake_kv \<Rightarrow> catalog_id \<Rightarrow> table_id \<Rightarrow> partition_key_index \<Rightarrow> rust_string \<Rightarrow> data_file_id set catalog_result" where
  "partition_value_lookup_current_data_file_ids kv catalog table_id index v =
     rbind (partition_value_lookup_current_data_files kv catalog table_id index v) (\<lambda>rows.
       Inr (df_data_file_id ` set rows))"

definition partitioned_data_file_ids ::
    "fake_kv \<Rightarrow> catalog_id \<Rightarrow> table_id \<Rightarrow> partition_key_index \<Rightarrow> data_file_id set catalog_result" where
  "partitioned_data_file_ids kv catalog table_id index =
     rbind (fake_scan_prefix kv (partition_key_lookup_prefix catalog table_id index) Forward None) (\<lambda>page.
     rbind (rmap (\<lambda>i. partition_lookup_data_file_id (ri_value i)) page) (\<lambda>fs. Inr (set fs)))"

definition partition_value_lookup_ids ::
    "fake_kv \<Rightarrow> catalog_id \<Rightarrow> table_id \<Rightarrow> partition_key_index \<Rightarrow> rust_string \<Rightarrow> data_file_id set catalog_result" where
  "partition_value_lookup_ids kv catalog table_id index v =
     rbind (fake_scan_prefix kv (partition_value_lookup_prefix catalog table_id index v) Forward None) (\<lambda>page.
     rbind (rmap (\<lambda>i. partition_lookup_data_file_id (ri_value i)) page) (\<lambda>fs. Inr (set fs)))"

definition current_data_files_by_id ::
    "fake_kv \<Rightarrow> catalog_id \<Rightarrow> table_id \<Rightarrow> (data_file_id \<times> data_file_row) list catalog_result" where
  "current_data_files_by_id kv catalog table_id =
     rbind (list_current_data_files kv catalog table_id) (\<lambda>rows.
       Inr (fold (\<lambda>r. btree_insert (df_data_file_id r) r) rows []))"

definition list_current_data_files_for_partition_scan ::
    "fake_kv \<Rightarrow> catalog_id \<Rightarrow> table_id \<Rightarrow> partition_key_index \<Rightarrow> rust_string \<Rightarrow> data_file_row list catalog_result" where
  "list_current_data_files_for_partition_scan kv catalog table_id index v =
     rbind (partition_value_lookup_current_data_file_ids kv catalog table_id index v) (\<lambda>matched.
     rbind (partitioned_data_file_ids kv catalog table_id index) (\<lambda>partitioned.
     rbind (current_data_files_by_id kv catalog table_id) (\<lambda>by_id.
       Inr (filter (\<lambda>r. df_data_file_id r \<in> matched \<or> df_data_file_id r \<notin> partitioned) (map snd by_id)))))"

definition list_current_data_files_for_partition_scan_with_deletes ::
    "fake_kv \<Rightarrow> catalog_id \<Rightarrow> table_id \<Rightarrow> partition_key_index \<Rightarrow> rust_string \<Rightarrow> attached_data_file list catalog_result" where
  "list_current_data_files_for_partition_scan_with_deletes kv catalog table_id index v =
     rbind (list_current_data_files_for_partition_scan kv catalog table_id index v)
       (attach_current_delete_files kv catalog)"

record partition_scan_filter =
  psf_matched :: "data_file_id set"
  psf_partitioned :: "data_file_id set"

definition partition_scan_filter_load ::
    "fake_kv \<Rightarrow> catalog_id \<Rightarrow> table_id \<Rightarrow> partition_key_index \<Rightarrow> rust_string \<Rightarrow> partition_scan_filter catalog_result" where
  "partition_scan_filter_load kv catalog table_id index v =
     rbind (partition_value_lookup_ids kv catalog table_id index v) (\<lambda>m.
     rbind (partitioned_data_file_ids kv catalog table_id index) (\<lambda>p.
       Inr \<lparr>psf_matched = m, psf_partitioned = p\<rparr>))"

definition partition_scan_filter_includes :: "partition_scan_filter \<Rightarrow> data_file_id \<Rightarrow> bool" where
  "partition_scan_filter_includes flt f \<longleftrightarrow> f \<in> psf_matched flt \<or> f \<notin> psf_partitioned flt"

definition list_data_files_for_partition_scan_at_with_deletes ::
    "fake_kv \<Rightarrow> catalog_id \<Rightarrow> table_id \<Rightarrow> partition_key_index \<Rightarrow> rust_string \<Rightarrow> catalog_order_id \<Rightarrow>
     attached_data_file list catalog_result" where
  "list_data_files_for_partition_scan_at_with_deletes kv catalog table_id index v snapshot_order =
     rbind (partition_scan_filter_load kv catalog table_id index v) (\<lambda>flt.
     rbind (list_data_files_at kv catalog table_id snapshot_order) (\<lambda>rows.
       attach_delete_files_at kv catalog
         (filter (\<lambda>r. partition_scan_filter_includes flt (df_data_file_id r)) rows) snapshot_order))"

section \<open>The shortcuts of duplicate suppression\<close>

text \<open>A row is covered by partition alone only if the cheap test says it might be.\<close>

lemma covers_without_partitions:
  "\<not> might_cover_by_partition cv r \<Longrightarrow> covers cv r keys = covers cv r LookupEmpty"
  by (simp add: covers_def might_cover_by_partition_def order_less_iff order_le_iff not_less split: if_split) auto

lemma keep_uncovered_without_partitions:
  assumes "\<not> replacements_need_partition_values replacements rows"
  shows "keep_uncovered replacements keys rows = keep_uncovered replacements LookupEmpty rows"
  unfolding keep_uncovered_def
proof (rule filter_cong [OF refl])
  fix r
  assume "r \<in> set rows"
  with assms have "df_data_file_id r = cv_data_file_id cv \<or> covers cv r keys = covers cv r LookupEmpty"
    if "cv \<in> set replacements" for cv
    using that covers_without_partitions unfolding replacements_need_partition_values_def by blast
  then show "(\<forall>cv \<in> set replacements. df_data_file_id r = cv_data_file_id cv \<or> \<not> covers cv r keys) =
      (\<forall>cv \<in> set replacements. df_data_file_id r = cv_data_file_id cv \<or> \<not> covers cv r LookupEmpty)"
    by blast
qed

text \<open>The three lookups answer alike.\<close>

lemma map_of_map_snd: "map_of (map (\<lambda>(k, v). (k, f v)) m) k = map_option f (map_of m k)"
  by (induction m) auto

lemma indexed_lookup:
  fixes vals :: "file_partition_value_row list"
  shows "same_non_empty_key (LookupIndexed (map (\<lambda>(f, ks). (f, sort ks))
      (fold (\<lambda>r. push_group (pv_data_file_id r) (pv_partition_key_index r, pv_partition_value r)) vals []))) l r =
    same_non_empty_key (LookupLinear vals) l r"
proof -
  have "map_of (fold (\<lambda>r. push_group (pv_data_file_id r) (pv_partition_key_index r, pv_partition_value r)) xs m) f =
      (let ys = map (\<lambda>r. (pv_partition_key_index r, pv_partition_value r)) (filter (\<lambda>r. pv_data_file_id r = f) xs)
       in case map_of m f of None \<Rightarrow> if ys = [] then None else Some ys | Some zs \<Rightarrow> Some (zs @ ys))"
    for f and m :: "(data_file_id \<times> (u32 \<times> rust_string) list) list" and xs :: "file_partition_value_row list"
    by (induction xs arbitrary: m) (auto simp: push_group_def Let_def split: option.splits)
  then show ?thesis
    by (auto simp: map_of_map_snd partition_key_from_rows_def Let_def filter_empty_conv)
qed

lemma partition_key_lookup_new_linear:
  "same_non_empty_key (partition_key_lookup_new vals n) l r = same_non_empty_key (LookupLinear vals) l r"
  by (simp add: partition_key_lookup_new_def indexed_lookup [simplified]) (simp add: partition_key_from_rows_def)

lemma covers_lookup_new:
  "covers cv r (partition_key_lookup_new vals n) = covers cv r (LookupLinear vals)"
  unfolding covers_def partition_key_lookup_new_linear ..

section \<open>What duplicate suppression computes\<close>

text \<open>A backfilled file supersedes another row of the list when it covers it, where only the stored partition
  values of the two files matter.\<close>

definition supersedes :: "fake_kv \<Rightarrow> catalog_id \<Rightarrow> data_file_row \<Rightarrow> data_file_row \<Rightarrow> bool" where
  "supersedes kv c x r \<longleftrightarrow> is_backfilled_replacement_file x \<and> df_data_file_id r \<noteq> df_data_file_id x \<and>
     covers (coverage_from x) r (LookupLinear (file_rows kv c (df_data_file_id x) @ file_rows kv c (df_data_file_id r)))"

lemma file_rows_file:
  assumes "fake_wf kv" "partition_values_wf (fake_get kv) c" "p \<in> set (file_rows kv c f)"
  shows "pv_data_file_id p = f"
  using assms(3) entry_row_file [OF assms(1,2)] by (auto simp: file_rows_def)

lemma filter_file_rows:
  assumes "fake_wf kv" "partition_values_wf (fake_get kv) c"
  shows "filter (\<lambda>p. pv_data_file_id p = f) (file_rows kv c g) = (if f = g then file_rows kv c f else [])"
  using file_rows_file [OF assms] by (auto simp: filter_id_conv filter_empty_conv)

lemma sort_mset_eq: "mset xs = mset ys \<Longrightarrow> sort xs = sort ys"
  by (metis sorted_list_of_multiset_mset)

lemma loaded_partition_key:
  assumes "fake_wf kv" "partition_values_wf (fake_get kv) c" "distinct ids" "f \<in> set ids"
    and rows: "mset rows = mset (concat (map (file_rows kv c) ids))"
  shows "partition_key_from_rows rows f = partition_key_from_rows (file_rows kv c f) f"
proof -
  have "filter (\<lambda>p. pv_data_file_id p = f) (concat (map (file_rows kv c) ids)) = file_rows kv c f"
    using assms(3,4)
  proof (induction ids)
    case (Cons g ids)
    have "concat (map (\<lambda>g. filter (\<lambda>p. pv_data_file_id p = f) (file_rows kv c g)) ids) = []" if "f \<notin> set ids"
      using that by (auto simp: filter_file_rows [OF assms(1,2)])
    with Cons show ?case by (auto simp: filter_file_rows [OF assms(1,2)] filter_concat comp_def)
  qed simp
  then have "mset (filter (\<lambda>p. pv_data_file_id p = f) rows) = mset (file_rows kv c f)"
    by (metis mset_filter rows)
  then show ?thesis
    unfolding partition_key_from_rows_def using file_rows_file [OF assms(1,2)]
    by (intro sort_mset_eq) (simp add: filter_file_rows [OF assms(1,2)])
qed

lemma list_file_partition_values_for_data_files_rows:
  assumes "fake_wf kv" "partition_values_wf (fake_get kv) c"
  shows "\<exists>rows. list_file_partition_values_for_data_files kv c ids = Inr rows \<and>
    mset rows = mset (concat (map (file_rows kv c) ids))"
proof -
  have loaded: "load_missing_file_partition_values kv c ids =
      Inr (concat (map (\<lambda>f. sort_key partition_sort_key (file_rows kv c f)) (sort ids)))"
    by (simp add: load_missing_file_partition_values_def load_dense_rows [OF assms] load_sparse_rows [OF assms] Let_def)
  have "mset (concat (map (\<lambda>f. sort_key partition_sort_key (file_rows kv c f)) ids')) = mset (concat (map (file_rows kv c) ids'))" for ids'
    by (induction ids') simp_all
  moreover have "mset (concat (map (file_rows kv c) (sort ids))) = mset (concat (map (file_rows kv c) ids))"
    unfolding mset_concat map_map by (metis mset_map mset_sort sum_mset_sum_list)
  ultimately show ?thesis
    by (simp add: list_file_partition_values_for_data_files_def loaded)
qed

lemma without_backfilled_source_duplicates_exact:
  assumes "fake_wf kv" "partition_values_wf (fake_get kv) c"
  shows "without_backfilled_source_duplicates kv c rows =
    Inr (filter (\<lambda>r. \<not> (\<exists>x \<in> set rows. supersedes kv c x r)) rows)"
proof -
  let ?reps = "map coverage_from (filter is_backfilled_replacement_file rows)"
  let ?ids = "sort (remdups (map df_data_file_id rows))"
  obtain ps where ps: "list_file_partition_values_for_data_files kv c ?ids = Inr ps"
    "mset ps = mset (concat (map (file_rows kv c) ?ids))"
    using list_file_partition_values_for_data_files_rows [OF assms] by blast
  have id: "cv_data_file_id (coverage_from x) = df_data_file_id x" for x by (simp add: coverage_from_def)
  have key: "partition_key_from_rows ps (df_data_file_id r) =
      partition_key_from_rows (file_rows kv c (df_data_file_id r)) (df_data_file_id r)" if "r \<in> set rows" for r
    using that by (intro loaded_partition_key [OF assms _ _ ps(2)]) auto
  have same: "same_non_empty_key (LookupLinear ps) (df_data_file_id x) (df_data_file_id r) =
      same_non_empty_key (LookupLinear (file_rows kv c (df_data_file_id x) @ file_rows kv c (df_data_file_id r)))
        (df_data_file_id x) (df_data_file_id r)"
    if "x \<in> set rows" "r \<in> set rows" "df_data_file_id r \<noteq> df_data_file_id x" for x r
    using key [OF that(1)] key [OF that(2)] that(3)
    by (simp add: partition_key_from_rows_def filter_file_rows [OF assms])
  have kept: "keep_uncovered ?reps (LookupLinear ps) rows = filter (\<lambda>r. \<not> (\<exists>x \<in> set rows. supersedes kv c x r)) rows"
    unfolding keep_uncovered_def
  proof (rule filter_cong [OF refl])
    fix r assume r: "r \<in> set rows"
    have "covers (coverage_from x) r (LookupLinear ps) = covers (coverage_from x) r
        (LookupLinear (file_rows kv c (df_data_file_id x) @ file_rows kv c (df_data_file_id r)))"
      if "x \<in> set rows" "df_data_file_id r \<noteq> df_data_file_id x" for x
      by (simp only: covers_def id same [OF that(1) r that(2)])
    then show "(\<forall>cv \<in> set ?reps. df_data_file_id r = cv_data_file_id cv \<or> \<not> covers cv r (LookupLinear ps)) =
        (\<not> (\<exists>x \<in> set rows. supersedes kv c x r))"
      by (auto simp: supersedes_def id)
  qed
  have lookup: "keep_uncovered reps (partition_key_lookup_new ps n) rows = keep_uncovered reps (LookupLinear ps) rows" for reps n
    by (simp add: keep_uncovered_def covers_lookup_new)
  have "filter (\<lambda>r. \<not> (\<exists>x \<in> set rows. supersedes kv c x r)) rows = rows" if "?reps = []"
    using that by (auto simp: filter_id_conv supersedes_def filter_empty_conv)
  then show ?thesis
    using ps(1) kept lookup keep_uncovered_without_partitions [of ?reps rows "LookupLinear ps"]
    by (auto simp: without_backfilled_source_duplicates_def Let_def)
qed

end
