(* ===== verification/Cat_File_Spec.thy ===== *)
theory Cat_File_Spec
  imports Cat_Staging Cat_File_Listing
begin

text \<open>
  The data file store against its specification. The abstract state is a set of data file rows with distinct
  ids; the store keeps it in three indexes (by id, by table and begin order, and the current rows by table).
  The lemmas show what every mutation of \<open>data_file_store.rs\<close> and \<open>file_visibility.rs\<close> does to that set and
  what the listings of \<open>current_files.rs\<close> read from it.
\<close>

section \<open>The three indexes\<close>

interpretation by_id: stored_index "family_prefix c DataFile" "\<lambda>r. data_file_key c (df_data_file_id r)"
  data_file_row_encode data_file_row_ok "\<lambda>k. data_file_row_decode" for c
  by unfold_locales (simp_all add: data_file_key_def data_file_row_roundtrip)

lemma data_file_begin_order_from_key_key [simp]:
  "data_file_begin_order_from_key c t (data_file_begin_key c t ord f) kind =
     Inr (order_from_bytes kind (order_as_bytes ord))"
  by (simp add: data_file_begin_order_from_key_def data_file_begin_key_def data_file_begin_prefix_def nth_append
      slice_def strip_prefix_append [where p = "family_prefix c DataFileBegin @ u64_to_be_bytes t @ [slash]", simplified])

lemma data_file_from_begin_index_item_stored:
  "data_file_row_ok r \<Longrightarrow>
   data_file_from_begin_index_item kv c (data_file_begin_key c (df_table_id r) (begin_order (df_validity r)) (df_data_file_id r))
     (data_file_row_encode r) = Inr r"
  by (simp add: data_file_from_begin_index_item_def data_file_row_roundtrip df_with_begin_order_def)

interpretation by_begin: stored_index "family_prefix c DataFileBegin"
  "\<lambda>r. data_file_begin_key c (df_table_id r) (begin_order (df_validity r)) (df_data_file_id r)"
  data_file_row_encode data_file_row_ok "data_file_from_begin_index_item kv c" for c kv
  by unfold_locales (simp add: data_file_begin_key_def, erule data_file_from_begin_index_item_stored)

interpretation current: stored_index "family_prefix c CurrentDataFile"
  "\<lambda>r. current_data_file_key c (df_table_id r) (df_data_file_id r)"
  data_file_row_encode data_file_row_ok "\<lambda>k. data_file_from_current_index_value kv c" for c kv
  by unfold_locales (simp_all add: key_defs data_file_from_current_index_value_def data_file_row_roundtrip)

section \<open>The store as a set of rows\<close>

abbreviation is_current :: "data_file_row \<Rightarrow> bool" where
  "is_current r \<equiv> end_order (df_validity r) = None"

definition files_are :: "(bytes \<rightharpoonup> bytes) \<Rightarrow> catalog_id \<Rightarrow> data_file_row set \<Rightarrow> bool" where
  "files_are m c S \<longleftrightarrow> by_id.holds c m S \<and> by_begin.holds c m S \<and> current.holds c m {r \<in> S. is_current r}"

definition file_space :: "catalog_id \<Rightarrow> bytes set" where
  "file_space c = {k. prefix (family_prefix c DataFile) k} \<union> {k. prefix (family_prefix c DataFileBegin) k} \<union>
     {k. prefix (family_prefix c CurrentDataFile) k}"

lemma files_are_local: "files_are m c S \<Longrightarrow> (\<And>k. k \<in> file_space c \<Longrightarrow> m' k = m k) \<Longrightarrow> files_are m' c S"
  unfolding files_are_def file_space_def
  by (auto intro: by_id.holds_local by_begin.holds_local current.holds_local)

lemma file_space_main: "file_space c \<subseteq> main_space c"
  by (auto simp: file_space_def intro: main_space_family [rotated])

lemma files_are_empty: "files_are Map.empty c {}"
  by (simp add: files_are_def by_id.holds_empty by_begin.holds_empty current.holds_empty)

lemma files_are_ids: "files_are m c S \<Longrightarrow> inj_on df_data_file_id S"
  by (auto simp: files_are_def by_id.holds_def inj_on_def)

lemma files_are_ok: "files_are m c S \<Longrightarrow> r \<in> S \<Longrightarrow> data_file_row_ok r"
  by (auto simp: files_are_def by_id.holds_ok)

lemma files_are_finite: "files_are (fake_get kv) c S \<Longrightarrow> finite S"
  by (auto simp: files_are_def intro: by_id.holds_finite)

lemma files_are_upd_other: "k \<notin> file_space c \<Longrightarrow> files_are (m(k := v)) c S = files_are m c S"
  by (simp add: files_are_def file_space_def)

section \<open>Effects of the mutations\<close>

definition put_file :: "catalog_id \<Rightarrow> data_file_row \<Rightarrow> (bytes \<rightharpoonup> bytes) \<Rightarrow> (bytes \<rightharpoonup> bytes)" where
  "put_file c r m =
     m(data_file_key c (df_data_file_id r) \<mapsto> data_file_row_encode r,
       current_data_file_key c (df_table_id r) (df_data_file_id r) \<mapsto> data_file_row_encode r,
       data_file_begin_key c (df_table_id r) (begin_order (df_validity r)) (df_data_file_id r) \<mapsto> data_file_row_encode r)"

definition put_expired_file :: "catalog_id \<Rightarrow> data_file_row \<Rightarrow> catalog_order_id \<Rightarrow> (bytes \<rightharpoonup> bytes) \<Rightarrow> (bytes \<rightharpoonup> bytes)" where
  "put_expired_file c r ord m =
     m(data_file_key c (df_data_file_id r) \<mapsto> data_file_row_encode r,
       data_file_begin_key c (df_table_id r) (begin_order (df_validity r)) (df_data_file_id r) \<mapsto> data_file_row_encode r,
       current_data_file_key c (df_table_id r) (df_data_file_id r) := None,
       data_file_end_key c (df_table_id r) ord (df_data_file_id r) \<mapsto> u64_to_be_bytes (df_data_file_id r))"

lemma put_file_at:
  "prefix (family_prefix c DataFile) k \<Longrightarrow>
     put_file c r m k = (m(data_file_key c (df_data_file_id r) \<mapsto> data_file_row_encode r)) k"
  "prefix (family_prefix c DataFileBegin) k \<Longrightarrow> put_file c r m k = (m(data_file_begin_key c (df_table_id r)
     (begin_order (df_validity r)) (df_data_file_id r) \<mapsto> data_file_row_encode r)) k"
  "prefix (family_prefix c CurrentDataFile) k \<Longrightarrow>
     put_file c r m k = (m(current_data_file_key c (df_table_id r) (df_data_file_id r) \<mapsto> data_file_row_encode r)) k"
  by (auto simp: put_file_def key_defs elim!: prefixE)

lemma put_expired_file_at:
  "prefix (family_prefix c DataFile) k \<Longrightarrow>
     put_expired_file c r ord m k = (m(data_file_key c (df_data_file_id r) \<mapsto> data_file_row_encode r)) k"
  "prefix (family_prefix c DataFileBegin) k \<Longrightarrow> put_expired_file c r ord m k = (m(data_file_begin_key c (df_table_id r)
     (begin_order (df_validity r)) (df_data_file_id r) \<mapsto> data_file_row_encode r)) k"
  "prefix (family_prefix c CurrentDataFile) k \<Longrightarrow>
     put_expired_file c r ord m k = (m(current_data_file_key c (df_table_id r) (df_data_file_id r) := None)) k"
  by (auto simp: put_expired_file_def key_defs elim!: prefixE)

lemma files_areI:
  assumes "by_id.holds c m1 S" "by_begin.holds c m2 S" "current.holds c m3 {r \<in> S. is_current r}"
    and "\<And>k. prefix (family_prefix c DataFile) k \<Longrightarrow> m k = m1 k"
    and "\<And>k. prefix (family_prefix c DataFileBegin) k \<Longrightarrow> m k = m2 k"
    and "\<And>k. prefix (family_prefix c CurrentDataFile) k \<Longrightarrow> m k = m3 k"
  shows "files_are m c S"
  unfolding files_are_def
  by (intro conjI by_id.holds_local [OF assms(1)] by_begin.holds_local [OF assms(2)] current.holds_local [OF assms(3)]
      assms(4-6))

lemma files_are_put:
  assumes "files_are m c S" "data_file_row_ok r" "is_current r" "df_data_file_id r \<notin> df_data_file_id ` S"
  shows "files_are (put_file c r m) c (insert r S)"
proof -
  have id: "df_data_file_id x \<noteq> df_data_file_id r" if "x \<in> S" for x using assms(4) that by (metis imageI)
  have "{y \<in> S. data_file_key c (df_data_file_id y) \<noteq> data_file_key c (df_data_file_id r)} = S"
    "{y \<in> S. data_file_begin_key c (df_table_id y) (begin_order (df_validity y)) (df_data_file_id y) \<noteq>
       data_file_begin_key c (df_table_id r) (begin_order (df_validity r)) (df_data_file_id r)} = S"
    "{y \<in> {r \<in> S. is_current r}. current_data_file_key c (df_table_id y) (df_data_file_id y) \<noteq>
       current_data_file_key c (df_table_id r) (df_data_file_id r)} = {r \<in> S. is_current r}"
    using id by (auto simp: key_defs)
  moreover have "{x \<in> insert r S. is_current x} = insert r {x \<in> S. is_current x}" using assms(3) by auto
  ultimately show ?thesis
    using assms(1,2) by_id.holds_put [of c m S r] by_begin.holds_put [of c m S r]
      current.holds_put [of c m "{r \<in> S. is_current r}" r]
    by (intro files_areI [where m = "put_file c r m", OF _ _ _ put_file_at]) (simp_all add: files_are_def del: fun_upd_apply)
qed

lemma files_are_expire:
  assumes "files_are m c S" "r \<in> S"
    and r': "r' = r\<lparr>df_validity := (df_validity r)\<lparr>end_order := Some ord\<rparr>\<rparr>"
  shows "files_are (put_expired_file c r' ord m) c (insert r' (S - {r}))"
proof -
  have same: "df_data_file_id r' = df_data_file_id r" "df_table_id r' = df_table_id r"
    "begin_order (df_validity r') = begin_order (df_validity r)" "\<not> is_current r'" by (simp_all add: r')
  have ok: "data_file_row_ok r'" using files_are_ok [OF assms(1,2)] by (simp add: data_file_row_ok_def r')
  have id: "df_data_file_id x = df_data_file_id r \<longleftrightarrow> x = r" if "x \<in> S" for x
    using files_are_ids [OF assms(1)] assms(2) that by (auto dest: inj_onD)
  have "{y \<in> S. data_file_key c (df_data_file_id y) \<noteq> data_file_key c (df_data_file_id r')} = S - {r}"
    "{y \<in> S. data_file_begin_key c (df_table_id y) (begin_order (df_validity y)) (df_data_file_id y) \<noteq>
       data_file_begin_key c (df_table_id r') (begin_order (df_validity r')) (df_data_file_id r')} = S - {r}"
    "{y \<in> {r \<in> S. is_current r}. current_data_file_key c (df_table_id y) (df_data_file_id y) \<noteq>
       current_data_file_key c (df_table_id r') (df_data_file_id r')} = {x \<in> insert r' (S - {r}). is_current x}"
    using id assms(2) by (auto simp: key_defs same)
  then show ?thesis
    using assms(1) ok by_id.holds_put [of c m S r'] by_begin.holds_put [of c m S r']
      current.holds_delete [of c m "{r \<in> S. is_current r}" "current_data_file_key c (df_table_id r') (df_data_file_id r')"]
    by (intro files_areI [where m = "put_expired_file c r' ord m", OF _ _ _ put_expired_file_at])
       (simp_all add: files_are_def current.in_space [of c r'] del: fun_upd_apply)
qed

section \<open>Staging\<close>

lemma file_keys_main [simp]:
  "data_file_key c f \<in> main_space c" "current_data_file_key c t f \<in> main_space c"
  "data_file_begin_key c t ord f \<in> main_space c" "data_file_end_key c t ord f \<in> main_space c"
  "table_data_file_change_key c t ord kind f \<in> main_space c"
  "snapshot_data_file_change_key c t ord kind f \<in> main_space c"
  by (rule main_space_family [rotated], simp add: key_defs, simp add: key_defs)+

abbreviation change_of :: "data_file_row \<Rightarrow> catalog_order_id \<Rightarrow> data_file_change_kind \<Rightarrow> data_file_change" where
  "change_of r ord kind \<equiv>
     \<lparr>dfc_table_id = df_table_id r, dfc_order = ord, dfc_kind = kind, dfc_data_file_id = df_data_file_id r\<rparr>"

lemma then_change:
  "stages kv c b b' f W D \<Longrightarrow> stages kv c b (write_data_file_change b' c (df_table_id r) ord kind (df_data_file_id r))
     (\<lambda>m. put_change c (change_of r ord kind) (f m)) W D"
  unfolding write_data_file_change_def put_change_def table_change_key_def snapshot_change_key_def
  by (simp add: then_put)

text \<open>The partition keys an append and an expiry drop.\<close>

lemma then_drop_values:
  assumes "stages kv c b b' g W D" "staging_ready kv c"
  shows "\<exists>b''. delete_partition_values_for_data_file kv b' c f = Inr b'' \<and> stages kv c b b'' g W (insert f D)"
proof -
  let ?ks = "concat (map (\<lambda>e. [fst e, partition_lookup_key c (entry_row e)])
      (filter (\<lambda>e. prefix (file_partition_value_prefix c f) (fst e)) (items kv)))"
  have "set ?ks \<subseteq> partition_space c"
    by (auto simp: partition_space_def partition_lookup_key_def key_defs dest: append_prefixD)
  moreover have "g \<in> {f}" if "k \<in> set ?ks" "prefix (file_partition_value_prefix c g) k" for k g
    using that by (auto simp: partition_lookup_key_def key_defs elim!: prefixE)
  ultimately have "stages kv c b (b'\<lparr>deletes := deletes b' @ ?ks\<rparr>) g W (D \<union> {f})"
    by (rule then_partition_deletes [OF assms(1)])
  with assms(2) show ?thesis by (simp add: delete_partition_values_effect staging_ready_def)
qed

lemma then_drop_lookups:
  assumes "stages kv c b b' g W D" "staging_ready kv c"
  shows "\<exists>b''. delete_partition_lookups_for_data_file kv b' c f = Inr b'' \<and> stages kv c b b'' g W D"
proof -
  let ?ks = "map (\<lambda>e. partition_lookup_key c (entry_row e))
      (filter (\<lambda>e. prefix (file_partition_value_prefix c f) (fst e)) (items kv))"
  have "set ?ks \<subseteq> partition_space c" by (auto simp: partition_space_def partition_lookup_key_def key_defs)
  moreover have "g \<in> {}" if "k \<in> set ?ks" "prefix (file_partition_value_prefix c g) k" for k g
    using that by (auto simp: partition_lookup_key_def key_defs elim!: prefixE)
  ultimately have "stages kv c b (b'\<lparr>deletes := deletes b' @ ?ks\<rparr>) g W (D \<union> {})"
    by (rule then_partition_deletes [OF assms(1)])
  with assms(2) show ?thesis by (simp add: delete_partition_lookups_effect staging_ready_def)
qed

text \<open>What an append and an expiry stage.\<close>

definition append_floors :: "catalog_id \<Rightarrow> data_file_row \<Rightarrow> (bytes \<times> u64) set" where
  "append_floors c r = insert (conflict_max_file_id_key c, df_data_file_id r)
     (case data_file_next_row_id r of None \<Rightarrow> {} | Some n \<Rightarrow> {(table_next_row_id_key c (df_table_id r), n)})"

lemma stages_append:
  assumes "staging_ready kv c" "batch_ready c b"
  shows "\<exists>b'. stage_append_data_file kv b c r = Inr b' \<and> stages kv c b b'
    (\<lambda>m. put_change c (change_of r (begin_order (df_validity r)) Added) (put_file c r m)) (append_floors c r) {df_data_file_id r}"
proof -
  let ?b = "batch_put (batch_put (batch_put b (data_file_key c (df_data_file_id r)) (data_file_row_encode r))
      (current_data_file_key c (df_table_id r) (df_data_file_id r)) (data_file_row_encode r))
      (data_file_begin_key c (df_table_id r) (begin_order (df_validity r)) (df_data_file_id r)) (data_file_row_encode r)"
  have "stages kv c b ?b (put_file c r) {} {}"
    using then_put [OF then_put [OF stages_put [OF assms(2)]]] by (simp add: put_file_def [abs_def])
  from then_max [OF this assms(1) cell_keys_iff(2), of "df_data_file_id r"] obtain b1 where b1: "stage_max_file_id_watermark kv ?b c (df_data_file_id r) = Inr b1"
    "stages kv c b b1 (put_file c r) {(conflict_max_file_id_key c, df_data_file_id r)} {}"
    by (auto simp: stage_max_file_id_watermark_def)
  have "\<exists>b2. (case data_file_next_row_id r of Some n \<Rightarrow> stage_table_next_row_id kv b1 c (df_table_id r) n | None \<Rightarrow> Inr b1) = Inr b2 \<and>
      stages kv c b b2 (put_file c r) (append_floors c r) {}"
    using b1(2) then_max [OF b1(2) assms(1) cell_keys_iff(3) [of c "df_table_id r"]]
    by (simp add: append_floors_def stage_table_next_row_id_def insert_commute split: option.split)
  then obtain b2 where b2:
    "(case data_file_next_row_id r of Some n \<Rightarrow> stage_table_next_row_id kv b1 c (df_table_id r) n | None \<Rightarrow> Inr b1) = Inr b2"
    "stages kv c b b2 (put_file c r) (append_floors c r) {}" by blast
  from then_drop_values [OF b2(2) assms(1), of "df_data_file_id r"] obtain b3 where
    b3: "delete_partition_values_for_data_file kv b2 c (df_data_file_id r) = Inr b3"
    "stages kv c b b3 (put_file c r) (append_floors c r) {df_data_file_id r}" by blast
  from then_change [OF b3(2), of r] show ?thesis
    by (simp add: stage_append_data_file_def stage_append_data_file_without_change_def Let_def b1(1) b2(1) b3(1))
qed

definition expire_file :: "catalog_id \<Rightarrow> data_file_row \<Rightarrow> catalog_order_id \<Rightarrow> (bytes \<rightharpoonup> bytes) \<Rightarrow> (bytes \<rightharpoonup> bytes)" where
  "expire_file c r ord m = put_change c (change_of r ord Removed) (put_expired_file c r ord m)"

lemma stages_expire:
  assumes "staging_ready kv c" "batch_ready c b"
    "current_data_file_key c (df_table_id r) (df_data_file_id r) \<notin> fst ` set (writes b)"
  shows "\<exists>b'. stage_expire_data_file kv b c r ord = Inr b' \<and> stages kv c b b' (expire_file c r ord) {} {}"
proof -
  let ?b = "batch_put (batch_put b (data_file_key c (df_data_file_id r)) (data_file_row_encode r))
      (data_file_begin_key c (df_table_id r) (begin_order (df_validity r)) (df_data_file_id r)) (data_file_row_encode r)"
  have new: "current_data_file_key c (df_table_id r) (df_data_file_id r) \<notin> fst ` set (writes ?b)"
    using assms(3) by (auto simp: batch_put_def key_defs)
  have "stages kv c b (batch_put (batch_delete ?b (current_data_file_key c (df_table_id r) (df_data_file_id r)))
      (data_file_end_key c (df_table_id r) ord (df_data_file_id r)) (u64_to_be_bytes (df_data_file_id r)))
      (put_expired_file c r ord) {} {}"
    using then_put [OF then_delete [OF then_put [OF stages_put [OF assms(2)]] _ new]]
    by (simp add: put_expired_file_def [abs_def])
  from then_drop_lookups [OF then_change [OF this, of r ord Removed] assms(1), of "df_data_file_id r"] show ?thesis
    by (simp add: stage_expire_data_file_def Let_def expire_file_def [abs_def])
qed

section \<open>Reading the files\<close>

lemma current_rows_of_table:
  "prefix (current_data_file_prefix c t) (current_data_file_key c t' f) \<longleftrightarrow> t' = t"
  by (auto simp: key_defs)

lemma begin_range_iff:
  "data_file_begin_prefix c t \<le> k \<Longrightarrow> k < data_file_begin_scan_end c t ord \<Longrightarrow> prefix (family_prefix c DataFileBegin) k"
  using common_prefix_range [of "data_file_begin_prefix c t" "[]" k] unfolding data_file_begin_scan_end_def
  by (auto simp: data_file_begin_prefix_def dest: append_prefixD)

lemma begin_range_key:
  "data_file_begin_prefix c t \<le> data_file_begin_key c t' ord' f \<and>
   data_file_begin_key c t' ord' f < data_file_begin_scan_end c t ord \<longleftrightarrow> t' = t \<and> ord' \<le> ord"
proof (cases "t' = t")
  case True
  then have "data_file_begin_key c t' ord' f = data_file_begin_prefix c t @ order_as_bytes ord' @ slash # u64_to_be_bytes f"
    by (simp add: data_file_begin_key_def data_file_begin_prefix_def)
  with True show ?thesis
    using order_below_scan_end [of slash "data_file_begin_prefix c t" ord' "u64_to_be_bytes f" ord]
    by (simp add: data_file_begin_scan_end_def prefix_imp_le del: append_le_append append_less_append)
next
  case False
  then show ?thesis
    using common_prefix_range [of "data_file_begin_prefix c t" "[]" "data_file_begin_key c t' ord' f" "order_as_bytes ord @ [0xff]"]
    by (auto simp: data_file_begin_scan_end_def data_file_begin_key_def data_file_begin_prefix_def)
qed

text \<open>The current rows of a table, by id, and the rows begun by an order, by begin order and id.\<close>

abbreviation current_rows :: "catalog_id \<Rightarrow> table_id \<Rightarrow> data_file_row set \<Rightarrow> data_file_row list" where
  "current_rows c t S \<equiv> current.rows_in c (prefix (current_data_file_prefix c t)) {r \<in> S. is_current r}"

abbreviation begun_rows :: "catalog_id \<Rightarrow> table_id \<Rightarrow> catalog_order_id \<Rightarrow> data_file_row set \<Rightarrow> data_file_row list" where
  "begun_rows c t ord S \<equiv>
     by_begin.rows_in c (\<lambda>k. data_file_begin_prefix c t \<le> k \<and> k < data_file_begin_scan_end c t ord) S"

lemma current_rows_spec:
  assumes "files_are (fake_get kv) c S"
  shows "set (current_rows c t S) = {r \<in> S. is_current r \<and> df_table_id r = t}" "distinct (current_rows c t S)"
    "sorted_wrt (\<lambda>a b. df_data_file_id a < df_data_file_id b) (current_rows c t S)"
proof -
  have "current.holds c (fake_get kv) {r \<in> S. is_current r}" "finite {r \<in> S. is_current r}"
    using assms files_are_finite by (auto simp: files_are_def)
  note spec = current.rows_in_spec [OF this, of "prefix (current_data_file_prefix c t)"]
  from spec(1) show rows: "set (current_rows c t S) = {r \<in> S. is_current r \<and> df_table_id r = t}"
    by (auto simp: current_rows_of_table)
  from spec(2) show "distinct (current_rows c t S)" .
  from spec(3) show "sorted_wrt (\<lambda>a b. df_data_file_id a < df_data_file_id b) (current_rows c t S)"
    by (rule sorted_wrt_mono_rel [rotated]) (use rows in \<open>auto simp: key_defs\<close>)
qed

lemma begun_rows_spec:
  assumes "files_are (fake_get kv) c S"
  shows "set (begun_rows c t ord S) = {r \<in> S. df_table_id r = t \<and> begin_order (df_validity r) \<le> ord}"
    "distinct (begun_rows c t ord S)"
  using by_begin.rows_in_spec [of c "fake_get kv" S] assms files_are_finite [OF assms]
  by (auto simp: files_are_def begin_range_key)

lemma scan_current_data_files_reads:
  assumes "fake_wf kv" "files_are (fake_get kv) c S"
  shows "scan_current_data_files kv c t = Inr (current_rows c t S)"
proof -
  have h: "current.holds c (fake_get kv) {r \<in> S. is_current r}" "finite {r \<in> S. is_current r}"
    using assms files_are_finite by (auto simp: files_are_def)
  have p: "current_data_file_prefix c t = (family_prefix c CurrentDataFile @ u64_to_be_bytes t) @ [slash]"
    by (simp add: current_data_file_prefix_def)
  have "filter is_current (current_rows c t S) = current_rows c t S"
    using current_rows_spec(1) [OF assms(2)] by (simp add: filter_id_conv)
  then show ?thesis
    using current.scan_prefix_rows [OF assms(1) h(1) p] current.decode_stored [OF h, of kv]
    by (simp add: scan_current_data_files_def p)
qed

text \<open>Every current row that is visible at an order has begun by it, so the second pass over the current rows of
  the table finds nothing new.\<close>

lemma push_unseen_seen:
  "(\<And>r. r \<in> set rs \<Longrightarrow> data_file_visible_at r ord \<Longrightarrow> df_data_file_id r \<in> set seen) \<Longrightarrow> push_unseen ord seen rs rows = rows"
  by (induction rs arbitrary: rows) auto

lemma data_files_at_context_load_reads:
  fixes t ord
  assumes "fake_wf kv" "partition_values_wf (fake_get kv) c" "files_are (fake_get kv) c S"
  defines "visible \<equiv> filter (\<lambda>r. data_file_visible_at r ord) (begun_rows c t ord S)"
  shows "list_data_files_at kv c t ord =
    Inr (filter (\<lambda>r. \<not> (\<exists>x \<in> set visible. supersedes kv c x r)) visible)"
proof -
  have h: "by_begin.holds c (fake_get kv) S" "finite S"
    using assms(3) files_are_finite by (auto simp: files_are_def)
  have le: "data_file_begin_prefix c t \<le> data_file_begin_scan_end c t ord"
    by (simp add: data_file_begin_scan_end_def prefix_imp_le)
  have "fake_scan_range kv (data_file_begin_prefix c t) (data_file_begin_scan_end c t ord) Forward None =
      Inr (map (\<lambda>r. to_item (data_file_begin_key c (df_table_id r) (begin_order (df_validity r)) (df_data_file_id r),
        data_file_row_encode r)) (begun_rows c t ord S))"
    using by_begin.scan_range_rows [OF assms(1) h(1) le begin_range_iff, where d = Forward and lim = None] by simp
  moreover have "push_unseen ord (map df_data_file_id visible) (current_rows c t S) visible = visible"
    using begun_rows_spec(1) [OF assms(3), of t ord] current_rows_spec(1) [OF assms(3), of t]
    by (intro push_unseen_seen) (auto simp: visible_def data_file_visible_at_def is_visible_at_def)
  ultimately show ?thesis
    using by_begin.decode_stored [OF h, of kv]
    by (simp add: list_data_files_at_def data_files_at_context_load_def list_current_data_files_def
        scan_current_data_files_reads [OF assms(1,3)] visible_def [symmetric]
        without_backfilled_source_duplicates_exact [OF assms(1,2)])
qed

lemma visible_files_spec:
  assumes "files_are (fake_get kv) c S"
  shows "set (filter (\<lambda>r. data_file_visible_at r ord) (begun_rows c t ord S)) =
    {r \<in> S. df_table_id r = t \<and> is_visible_at (df_validity r) ord}"
  using begun_rows_spec(1) [OF assms, of t ord] by (auto simp: data_file_visible_at_def is_visible_at_def)

lemma data_file_get:
  assumes "files_are m c S"
  shows "r \<in> S \<Longrightarrow> m (data_file_key c (df_data_file_id r)) = Some (data_file_row_encode r)"
    and "f \<notin> df_data_file_id ` S \<Longrightarrow> m (data_file_key c f) = None"
proof -
  have h: "by_id.holds c m S" using assms by (simp add: files_are_def)
  from by_id.holds_get [OF h] show "r \<in> S \<Longrightarrow> m (data_file_key c (df_data_file_id r)) = Some (data_file_row_encode r)" .
  have "prefix (family_prefix c DataFile) (data_file_key c f)" by (simp add: data_file_key_def)
  from by_id.holds_get_None [OF h this] show "f \<notin> df_data_file_id ` S \<Longrightarrow> m (data_file_key c f) = None"
    by (auto simp: key_defs)
qed

lemma load_data_file_reads:
  assumes "files_are (fake_get kv) c S"
  shows "r \<in> S \<Longrightarrow> load_data_file kv c (df_data_file_id r) = Inr r"
    and "f \<notin> df_data_file_id ` S \<Longrightarrow> load_data_file kv c f = Inl (NotFound ''data file'')"
  using data_file_get [OF assms] files_are_ok [OF assms] by (simp_all add: load_data_file_def data_file_row_roundtrip)

end
