(* ===== verification/Cat_File_Commits.thy ===== *)
theory Cat_File_Commits
  imports Cat_File_Spec
begin

text \<open>
  Data file commits against the state of the whole catalog: the snapshot history, the set of data files and the
  change log move together. \<open>catalog_is\<close> relates a store to that state; the lemmas show that
  \<open>commit_append_data_files\<close> and \<open>expire_data_file\<close> of \<open>data_file_store.rs\<close> move it to the intended next state
  on every branch.
\<close>

section \<open>The state of a catalog\<close>

definition catalog_is ::
    "fake_kv \<Rightarrow> catalog_id \<Rightarrow> snapshot_row list \<Rightarrow> snapshot_row list \<Rightarrow> data_file_row set \<Rightarrow> data_file_change set \<Rightarrow> bool" where
  "catalog_is kv c H L S C \<longleftrightarrow> staging_ready kv c \<and> snapshots_are (fake_get kv) c H L \<and>
     files_are (fake_get kv) c S \<and> changes_are (fake_get kv) c C"

text \<open>The order generator is ahead of every snapshot and has not run out.\<close>

definition clock_ahead :: "fake_kv \<Rightarrow> snapshot_row list \<Rightarrow> bool" where
  "clock_ahead kv H \<longleftrightarrow> next_order kv < - 1 \<and> (\<forall>s \<in> set H. sn_order s \<le> uuid_v7 (next_order kv)) \<and>
     (H \<noteq> [] \<longrightarrow> sn_sequence (last H) < - 1)"

abbreviation next_commit_order :: "fake_kv \<Rightarrow> catalog_order_id" where
  "next_commit_order kv \<equiv> uuid_v7 (next_order kv + 1)"

abbreviation next_snapshot :: "i64 \<Rightarrow> fake_kv \<Rightarrow> snapshot_row list \<Rightarrow> snapshot_row" where
  "next_snapshot now kv H \<equiv>
     snapshot_row_for_next_sequence now (if H = [] then None else Some (last H)) (next_commit_order kv)"

lemma saturating_Suc:
  "(a :: u64) < - 1 \<Longrightarrow> saturating_add a 1 = a + 1" "(a :: u64) < - 1 \<Longrightarrow> a < a + 1"
  "(n :: u128) < - 1 \<Longrightarrow> saturating_add n 1 = n + 1" "(n :: u128) < - 1 \<Longrightarrow> n < n + 1"
  by (simp_all add: saturating_add_def word_less_nat_alt unat_minus_one_word unat_word_ariths)

lemma next_snapshot_follows:
  assumes "snapshots_are m c H L" "clock_ahead kv H"
  shows "stored_snapshot_ok (next_snapshot now kv H)" "\<And>x. x \<in> set H \<Longrightarrow> snapshot_before x (next_snapshot now kv H)"
    "sn_order (next_snapshot now kv H) = next_commit_order kv"
proof -
  show "stored_snapshot_ok (next_snapshot now kv H)"
    by (simp add: snapshot_row_for_next_sequence_def snapshot_row_new_ok)
  show ord: "sn_order (next_snapshot now kv H) = next_commit_order kv"
    by (simp add: snapshot_row_for_next_sequence_def snapshot_row_new_def snapshot_row_with_created_at_micros_def)
  fix x
  assume x: "x \<in> set H"
  then have H: "H \<noteq> []" by auto
  have "sn_order x < next_commit_order kv"
    using assms(2) x saturating_Suc(4) [of "next_order kv"] by (auto simp: clock_ahead_def order_le_iff order_less_iff)
  moreover have "sn_sequence x \<le> sn_sequence (last H)"
    using snapshots_areD(1) [OF assms(1)] x
    by (induction H) (auto simp: snapshot_before_def order_less_imp_le)
  then have "sn_sequence x < raw_sequence_next (sn_sequence (last H))"
    using assms(2) H saturating_Suc(1,2) [of "sn_sequence (last H)"] by (simp add: raw_sequence_next_def clock_ahead_def)
  ultimately show "snapshot_before x (next_snapshot now kv H)"
    using H by (simp add: snapshot_before_def ord)
       (simp add: snapshot_row_for_next_sequence_def snapshot_row_new_def snapshot_row_with_created_at_micros_def)
qed

section \<open>Staging a snapshot\<close>

lemma snapshot_space_main: "snapshot_space c \<subseteq> main_space c"
proof
  fix k assume k: "k \<in> snapshot_space c"
  then have "k \<notin> cell_keys c" by (auto simp: cell_keys_def)
  moreover have "k \<notin> partition_space c"
    using k by (auto simp: snapshot_space_def partition_space_def key_defs elim!: prefixE)
  ultimately show "k \<in> main_space c" by (simp add: main_space_def)
qed

lemma change_space_main: "change_space c \<subseteq> main_space c"
  by (auto simp: change_space_def intro: main_space_family [rotated])

lemma stages_snapshot:
  assumes "batch_ready c b"
  shows "stages kv c b (stage_snapshot b c r) (put_snapshot c r) {} {}"
proof -
  have "snapshot_key c (sn_order r) \<in> snapshot_space c"
    "snapshot_timestamp_key c (sn_created_at_micros r) (sn_order r) \<in> snapshot_space c"
    "latest_snapshot_row_key c \<in> snapshot_space c" "raw_snapshot_row_key c (sn_sequence r) \<in> snapshot_space c"
    by (simp_all add: snapshot_space_def key_defs)
  with snapshot_space_main [of c] show ?thesis
    unfolding stage_snapshot_def put_snapshot_def [abs_def] Let_def
    by (intro then_put stages_put [OF assms]) auto
qed

lemma catalog_is_transfer:
  assumes "staging_ready kv c" "snapshots_are m c H L" "files_are m c S" "changes_are m c C"
    "\<And>k. k \<in> main_space c \<Longrightarrow> fake_get kv k = m k"
  shows "catalog_is kv c H L S C"
  unfolding catalog_is_def
proof (intro conjI)
  show "snapshots_are (fake_get kv) c H L"
    using assms(2) by (rule snapshots_are_local) (use snapshot_space_main [of c] assms(5) in auto)
  show "files_are (fake_get kv) c S"
    using assms(3) by (rule files_are_local) (use file_space_main [of c] assms(5) in auto)
  show "changes_are (fake_get kv) c C"
    using assms(4) by (rule changes_are_local) (use change_space_main [of c] assms(5) in auto)
qed (rule assms(1))

text \<open>The three parts of the state live in different key spaces.\<close>

lemma spaces_disjoint:
  "k \<in> snapshot_space c \<Longrightarrow> put_file c r m k = m k" "k \<in> snapshot_space c \<Longrightarrow> put_change c ch m k = m k"
  "k \<in> snapshot_space c \<Longrightarrow> put_expired_file c r ord m k = m k"
  "k \<in> change_space c \<Longrightarrow> put_file c r m k = m k" "k \<in> change_space c \<Longrightarrow> put_snapshot c s m k = m k"
  "k \<in> change_space c \<Longrightarrow> put_expired_file c r ord m k = m k"
  "k \<in> file_space c \<Longrightarrow> put_change c ch m k = m k" "k \<in> file_space c \<Longrightarrow> put_snapshot c s m k = m k"
  by (auto simp: snapshot_space_def change_space_def file_space_def put_file_def put_change_def put_expired_file_def
      put_snapshot_def table_change_key_def snapshot_change_key_def key_defs elim!: prefixE)

lemma fold_other:
  "(\<And>r m. r \<in> set rows \<Longrightarrow> f r m k = m k) \<Longrightarrow> fold f rows m k = m k"
  by (induction rows arbitrary: m) auto

section \<open>Appending files\<close>

abbreviation put_append :: "catalog_id \<Rightarrow> data_file_row \<Rightarrow> (bytes \<rightharpoonup> bytes) \<Rightarrow> (bytes \<rightharpoonup> bytes)" where
  "put_append c r m \<equiv> put_change c (change_of r (begin_order (df_validity r)) Added) (put_file c r m)"

abbreviation added_changes :: "data_file_row set \<Rightarrow> data_file_change set" where
  "added_changes R \<equiv> (\<lambda>r. change_of r (begin_order (df_validity r)) Added) ` R"

definition appendable :: "data_file_row set \<Rightarrow> data_file_row list \<Rightarrow> bool" where
  "appendable S rows \<longleftrightarrow> distinct (map df_data_file_id rows) \<and>
     (\<forall>r \<in> set rows. data_file_row_ok r \<and> df_data_file_id r \<notin> df_data_file_id ` S)"

lemma fold_put_append:
  assumes "files_are m c S" "changes_are m c C" "appendable S rows"
    and "\<forall>r \<in> set rows. is_current r \<and> order_kind (begin_order (df_validity r)) = UuidV7"
  shows "files_are (fold (put_append c) rows m) c (S \<union> set rows) \<and>
    changes_are (fold (put_append c) rows m) c (C \<union> added_changes (set rows))"
  using assms
proof (induction rows arbitrary: m S C)
  case (Cons r rows)
  have "files_are (put_file c r m) c (insert r S)"
    using Cons.prems by (intro files_are_put) (auto simp: appendable_def)
  then have f: "files_are (put_append c r m) c (insert r S)"
    by (rule files_are_local) (simp add: spaces_disjoint)
  have "changes_are (put_file c r m) c C"
    using Cons.prems(2) by (rule changes_are_local) (simp add: spaces_disjoint)
  then have ch: "changes_are (put_append c r m) c (insert (change_of r (begin_order (df_validity r)) Added) C)"
    using Cons.prems(4) by (intro changes_are_put) auto
  have "appendable (insert r S) rows" using Cons.prems(3) unfolding appendable_def by (auto intro: imageI) (metis imageI)
  from Cons.IH [OF f ch this] Cons.prems(4) show ?case by (simp add: insert_commute Un_left_commute)
qed simp

text \<open>The rows as they are stored: begun at the commit order, without an end.\<close>

abbreviation begun_at :: "catalog_order_id \<Rightarrow> data_file_row \<Rightarrow> data_file_row" where
  "begun_at ord r \<equiv> r\<lparr>df_validity := validity_new ord None\<rparr>"

lemma appendable_begun: "appendable S rows \<Longrightarrow> appendable S (map (begun_at ord) rows)"
  by (auto simp: appendable_def comp_def data_file_row_ok_def)

lemma stages_appends:
  assumes "staging_ready kv c" "batch_ready c b"
  shows "\<exists>b'. rfold (\<lambda>r b. stage_append_data_file kv b c r) rows b = Inr b' \<and>
    stages kv c b b' (fold (put_append c) rows) (\<Union>r \<in> set rows. append_floors c r) (df_data_file_id ` set rows)"
  using stages_rfold [OF assms(2), where g = "\<lambda>r b. stage_append_data_file kv b c r", OF stages_append [OF assms(1)]]
  by (simp add: UNION_singleton_eq_range)

lemma clock_ahead_next: "clock_ahead kv H \<Longrightarrow> snapshots_are m c H L \<Longrightarrow> next_order kv' = next_order kv + 1 \<Longrightarrow>
   next_order kv' < - 1 \<Longrightarrow> sn_sequence (next_snapshot now kv H) < - 1 \<Longrightarrow> clock_ahead kv' (H @ [next_snapshot now kv H])"
  using next_snapshot_follows(2) [of m c H L kv _ now] next_snapshot_follows(3) [of m c H L kv now]
  by (auto simp: clock_ahead_def order_less_imp_le snapshot_before_def)

lemma commit_append_data_files_outcome:
  assumes "catalog_is kv c H L S C" "clock_ahead kv H" "appendable S rows" "rows \<noteq> []"
  defines "new \<equiv> map (begun_at (next_commit_order kv)) rows"
  shows "case reject_current_data_file_row_id_overlaps kv c new of
      Inl e \<Rightarrow> \<exists>kv'. commit_append_data_files kv c now rows = (Inl e, kv') \<and> fake_get kv' = fake_get kv \<and> fake_wf kv' \<and>
        next_order kv' = next_order kv + 1
    | Inr _ \<Rightarrow> \<exists>kv'. commit_append_data_files kv c now rows = (Inr new, kv') \<and>
        catalog_is kv' c (H @ [next_snapshot now kv H]) (L @ [next_snapshot now kv H]) (S \<union> set new)
          (C \<union> added_changes (set new)) \<and> next_order kv' = next_order kv + 1 \<and>
        (\<forall>(k, n) \<in> (\<Union>r \<in> set new. append_floors c r). cell_ge n (fake_get kv' k)) \<and>
        (\<forall>k \<in> cell_keys c. \<forall>n. cell_ge n (fake_get kv k) \<longrightarrow> cell_ge n (fake_get kv' k)) \<and>
        (\<forall>f. f \<notin> df_data_file_id ` set rows \<longrightarrow> file_rows kv' c f = file_rows kv c f)"
proof -
  let ?kv = "snd (fake_generated_order_id kv)"
  let ?s = "next_snapshot now kv H"
  let ?b = "stage_snapshot batch_new c ?s"
  from assms(1) have A: "staging_ready kv c" "snapshots_are (fake_get kv) c H L" "files_are (fake_get kv) c S"
    "changes_are (fake_get kv) c C" by (simp_all add: catalog_is_def)
  have sat: "saturating_add (next_order kv) 1 = next_order kv + 1"
    using assms(2) saturating_Suc(3) [of "next_order kv"] by (simp add: clock_ahead_def)
  have ready: "staging_ready ?kv c" using A(1) by (simp add: staging_ready_def)
  have latest: "latest_snapshot kv c = Inr (if H = [] then None else Some (last H))"
    using A(1) by (intro latest_snapshot_reads [OF _ A(2)]) (simp add: staging_ready_def)
  have overlaps: "reject_current_data_file_row_id_overlaps ?kv c new = reject_current_data_file_row_id_overlaps kv c new"
    by (simp add: reject_current_data_file_row_id_overlaps_def reject_current_data_file_row_id_overlaps_except_def
        reject_current_data_file_row_id_overlaps_except_with_latest_order_def reject_allocated_table_row_id_reuse_def
        load_table_next_row_id_def load_u64_def)
  have op: "commit_append_data_files kv c now rows =
      attempt ?kv (reject_current_data_file_row_id_overlaps kv c new) (\<lambda>_.
        attempt ?kv (rfold (\<lambda>r b. stage_append_data_file ?kv b c r) new ?b) (\<lambda>b. commit_then ?kv b new))"
    using assms(4) by (simp add: commit_append_data_files_def latest case_prod_beta Let_def sat overlaps [unfolded new_def] new_def)
  show ?thesis
  proof (cases "reject_current_data_file_row_id_overlaps kv c new")
    case (Inl e)
    then show ?thesis using ready by (simp add: op sat staging_ready_def)
  next
    case (Inr u)
    have first: "stages ?kv c batch_new ?b (put_snapshot c ?s) {} {}" by (simp add: stages_snapshot)
    from stages_appends [OF ready stages_ready [OF first], of new] obtain b' where
      b': "rfold (\<lambda>r b. stage_append_data_file ?kv b c r) new ?b = Inr b'"
      "stages ?kv c ?b b' (fold (put_append c) new) (\<Union>r \<in> set new. append_floors c r) (df_data_file_id ` set new)"
      by blast
    let ?m1 = "put_snapshot c ?s (fake_get kv)"
    let ?m2 = "fold (put_append c) new ?m1"
    from commit_staged [OF ready stages_trans [OF first b'(2)], of new] obtain kv' where
      kv': "commit_then ?kv b' new = (Inr new, kv')" "staging_ready kv' c" "next_order kv' = next_order kv + 1"
      "\<And>k. k \<in> main_space c \<Longrightarrow> fake_get kv' k = ?m2 k"
      "\<forall>k \<in> cell_keys c. \<forall>n. cell_ge n (fake_get kv k) \<longrightarrow> cell_ge n (fake_get kv' k)"
      "\<forall>(k, n) \<in> (\<Union>r \<in> set new. append_floors c r). cell_ge n (fake_get kv' k)"
      "\<And>f. f \<notin> df_data_file_id ` set new \<Longrightarrow> file_rows kv' c f = file_rows ?kv c f"
      by (auto simp: sat)
    have "files_are ?m1 c S" using A(3) by (rule files_are_local) (simp add: spaces_disjoint)
    moreover have "changes_are ?m1 c C" using A(4) by (rule changes_are_local) (simp add: spaces_disjoint)
    moreover have "appendable S new" unfolding new_def using assms(3) by (rule appendable_begun)
    moreover have "\<forall>r \<in> set new. is_current r \<and> order_kind (begin_order (df_validity r)) = UuidV7"
      by (simp add: new_def validity_new_def)
    ultimately have fc: "files_are ?m2 c (S \<union> set new)" "changes_are ?m2 c (C \<union> added_changes (set new))"
      using fold_put_append [of ?m1 c S C new] by blast+
    have "snapshots_are ?m1 c (H @ [?s]) (L @ [?s])"
      using next_snapshot_follows [OF A(2) assms(2)] by (intro snapshots_are_put [OF A(2)]) auto
    then have "snapshots_are ?m2 c (H @ [?s]) (L @ [?s])"
      by (rule snapshots_are_local) (simp add: fold_other spaces_disjoint)
    from catalog_is_transfer [OF kv'(2) this fc kv'(4)]
    have "catalog_is kv' c (H @ [?s]) (L @ [?s]) (S \<union> set new) (C \<union> added_changes (set new))" .
    moreover have "df_data_file_id ` set new = df_data_file_id ` set rows" by (simp add: new_def image_image)
    moreover have "file_rows ?kv c = file_rows kv c" by (simp add: file_rows_def [abs_def])
    moreover have "commit_append_data_files kv c now rows = (Inr new, kv')"
      by (simp only: op Inr b'(1) kv'(1) attempt_simps)
    ultimately show ?thesis using kv'(3,5,6,7) unfolding Inr by auto
  qed
qed

section \<open>Expiring a file\<close>

abbreviation ended_at :: "catalog_order_id \<Rightarrow> data_file_row \<Rightarrow> data_file_row" where
  "ended_at ord r \<equiv> r\<lparr>df_validity := (df_validity r)\<lparr>end_order := Some ord\<rparr>\<rparr>"

lemma expire_data_file_absent:
  assumes "files_are (fake_get kv) c S" "f \<notin> df_data_file_id ` S"
  shows "expire_data_file kv c f ord = (Inl (NotFound ''data file''), kv)"
  using data_file_get(2) [OF assms] by (simp add: expire_data_file_def)

lemma expire_data_file_early:
  assumes "files_are (fake_get kv) c S" "r \<in> S" "ord \<le> begin_order (df_validity r)"
  shows "expire_data_file kv c (df_data_file_id r) ord =
    (Inl (InvalidMutation ''data file cannot end at or before its begin order''), kv)"
  using data_file_get(1) [OF assms(1,2)] files_are_ok [OF assms(1,2)] assms(3)
  by (simp add: expire_data_file_def data_file_row_roundtrip)

lemma catalog_is_expire:
  assumes "catalog_is kv c H L S C" "r \<in> S" "order_kind ord = UuidV7"
    and "stages kv c batch_new b (expire_file c (ended_at ord r) ord) W D"
  shows "\<exists>kv'. commit_then kv b x = (Inr x, kv') \<and> next_order kv' = next_order kv \<and>
    catalog_is kv' c H L (insert (ended_at ord r) (S - {r})) (insert (change_of r ord Removed) C) \<and>
    (\<forall>k \<in> cell_keys c. \<forall>n. cell_ge n (fake_get kv k) \<longrightarrow> cell_ge n (fake_get kv' k)) \<and>
    (\<forall>f. f \<notin> D \<longrightarrow> file_rows kv' c f = file_rows kv c f)"
proof -
  from assms(1) have A: "staging_ready kv c" "snapshots_are (fake_get kv) c H L" "files_are (fake_get kv) c S"
    "changes_are (fake_get kv) c C" by (simp_all add: catalog_is_def)
  let ?r = "ended_at ord r"
  let ?m = "expire_file c ?r ord (fake_get kv)"
  from commit_staged [OF A(1) assms(4), of x] obtain kv' where
    kv': "commit_then kv b x = (Inr x, kv')" "staging_ready kv' c" "next_order kv' = next_order kv"
    "\<And>k. k \<in> main_space c \<Longrightarrow> fake_get kv' k = ?m k"
    "\<forall>k \<in> cell_keys c. \<forall>n. cell_ge n (fake_get kv k) \<longrightarrow> cell_ge n (fake_get kv' k)"
    "\<forall>f. f \<notin> D \<longrightarrow> file_rows kv' c f = file_rows kv c f" by blast
  have "files_are (put_expired_file c ?r ord (fake_get kv)) c (insert ?r (S - {r}))"
    using A(3) assms(2) by (rule files_are_expire) simp
  then have "files_are ?m c (insert ?r (S - {r}))"
    by (rule files_are_local) (simp add: expire_file_def spaces_disjoint)
  moreover have "changes_are (put_expired_file c ?r ord (fake_get kv)) c C"
    using A(4) by (rule changes_are_local) (simp add: spaces_disjoint)
  then have "changes_are ?m c (insert (change_of r ord Removed) C)"
    using assms(3) changes_are_put [of _ c C "change_of r ord Removed"] by (simp add: expire_file_def)
  moreover have "snapshots_are ?m c H L"
    using A(2) by (rule snapshots_are_local) (simp add: expire_file_def spaces_disjoint)
  ultimately have "catalog_is kv' c H L (insert ?r (S - {r})) (insert (change_of r ord Removed) C)"
    using kv'(2,4) by (intro catalog_is_transfer [where m = ?m])
  with kv' show ?thesis by blast
qed

lemma expire_data_file_stored:
  assumes "catalog_is kv c H L S C" "r \<in> S" "begin_order (df_validity r) < ord" "order_kind ord = UuidV7"
  shows "\<exists>kv'. expire_data_file kv c (df_data_file_id r) ord = (Inr (ended_at ord r), kv') \<and>
    next_order kv' = next_order kv \<and>
    catalog_is kv' c H L (insert (ended_at ord r) (S - {r})) (insert (change_of r ord Removed) C) \<and>
    (\<forall>k \<in> cell_keys c. \<forall>n. cell_ge n (fake_get kv k) \<longrightarrow> cell_ge n (fake_get kv' k)) \<and>
    (\<forall>f. file_rows kv' c f = file_rows kv c f)"
proof -
  from assms(1) have A: "staging_ready kv c" "files_are (fake_get kv) c S" by (simp_all add: catalog_is_def)
  have "current_data_file_key c (df_table_id (ended_at ord r)) (df_data_file_id (ended_at ord r)) \<notin> fst ` set (writes batch_new)"
    by simp
  from stages_expire [OF A(1) batch_ready_new this, of ord] obtain b where
    b: "stage_expire_data_file kv batch_new c (ended_at ord r) ord = Inr b"
    "stages kv c batch_new b (expire_file c (ended_at ord r) ord) {} {}" by blast
  have op: "expire_data_file kv c (df_data_file_id r) ord = commit_then kv b (ended_at ord r)"
    using data_file_get(1) [OF A(2) assms(2)] files_are_ok [OF A(2) assms(2)] assms(3) [folded order_not_le] b(1)
    by (simp add: expire_data_file_def data_file_row_roundtrip del: order_not_le)
  from catalog_is_expire [OF assms(1,2,4) b(2), of "ended_at ord r"] show ?thesis unfolding op by simp
qed

text \<open>\<open>stage_expire_current_data_file\<close> stages the same effect, for a file that is still current.\<close>

lemma stage_expire_current_stored:
  assumes "files_are (fake_get kv) c S" "r \<in> S"
  shows "stage_expire_current_data_file kv b c (df_data_file_id r) ord =
    (if ord \<le> begin_order (df_validity r) then Inl (InvalidMutation ''data file cannot end at or before its begin order'')
     else if \<not> is_current r then Inl (InvalidMutation ''data file is already expired'')
     else rbind (stage_expire_data_file kv b c (ended_at ord r) ord) (\<lambda>b'. Inr (b', ended_at ord r)))"
  by (simp add: stage_expire_current_data_file_def load_data_file_reads(1) [OF assms] stage_expire_data_file_def Let_def
      del: order_not_le)

end
