(* ===== verification/Cat_File_History.thy ===== *)
theory Cat_File_History
  imports Cat_File_Commits
begin

text \<open>
  What readers of old snapshots see while files are appended and expired: the commits of the data file store as a
  step relation, the invariants of every reachable store, snapshot isolation of \<open>list_data_files_at\<close>, and the
  allocation of row ids.
\<close>

section \<open>Listings at an old order\<close>

definition without_end :: "data_file_row \<Rightarrow> data_file_row" where
  "without_end r = r\<lparr>df_validity := (df_validity r)\<lparr>end_order := None\<rparr>\<rparr>"

lemma without_end_fields:
  "without_end a = without_end b \<Longrightarrow> df_data_file_id a = df_data_file_id b \<and> df_table_id a = df_table_id b \<and>
     begin_order (df_validity a) = begin_order (df_validity b) \<and> df_max_partial_order a = df_max_partial_order b \<and>
     coverage_from a = coverage_from b \<and> df_record_count a = df_record_count b \<and> df_path a = df_path b \<and>
     df_row_id_start a = df_row_id_start b \<and> df_row_id_start_known a = df_row_id_start_known b"
  by (cases a; cases b; cases "df_validity a"; cases "df_validity b") (simp add: without_end_def coverage_from_def split: option.split)

lemma covers_without_end:
  "without_end a = without_end b \<Longrightarrow> covers cv a keys = covers cv b keys"
  using without_end_fields [of a b] by (simp only: covers_def covers_row_id_range_def)

lemma supersedes_without_end:
  assumes "without_end x' = without_end x" "without_end r' = without_end r"
    "file_rows kv' c (df_data_file_id x) = file_rows kv c (df_data_file_id x)"
    "file_rows kv' c (df_data_file_id r) = file_rows kv c (df_data_file_id r)"
  shows "supersedes kv' c x' r' = supersedes kv c x r"
  using without_end_fields [OF assms(1)] without_end_fields [OF assms(2)] covers_without_end [OF assms(2)] assms(3,4)
  by (simp add: supersedes_def is_backfilled_replacement_file_def cong: option.case_cong)

abbreviation begin_key :: "catalog_id \<Rightarrow> data_file_row \<Rightarrow> bytes" where
  "begin_key c r \<equiv> data_file_begin_key c (df_table_id r) (begin_order (df_validity r)) (df_data_file_id r)"

abbreviation visible_files :: "catalog_id \<Rightarrow> table_id \<Rightarrow> catalog_order_id \<Rightarrow> data_file_row set \<Rightarrow> data_file_row list" where
  "visible_files c t ord S \<equiv> filter (\<lambda>r. data_file_visible_at r ord) (begun_rows c t ord S)"

lemma visible_files_sorted:
  assumes "files_are (fake_get kv) c S"
  shows "sorted_wrt (\<lambda>a b. begin_key c a < begin_key c b) (visible_files c t ord S)"
  using assms files_are_finite [OF assms] by_begin.rows_in_spec(3) [of c "fake_get kv" S]
  by (intro sorted_wrt_filter) (auto simp: files_are_def)

lemma filter_unrelated_map:
  assumes "\<And>x r. x \<in> set V \<Longrightarrow> r \<in> set V \<Longrightarrow> P' (g x) (g r) = P x r"
  shows "filter (\<lambda>r. \<not> (\<exists>x \<in> set (map g V). P' x r)) (map g V) = map g (filter (\<lambda>r. \<not> (\<exists>x \<in> set V. P x r)) V)"
  using assms by (auto simp: filter_map comp_def intro!: arg_cong [of _ _ "map g"] filter_cong)

text \<open>If the visible files of two stores correspond, so do the listings.\<close>

lemma listing_corresponds:
  assumes kv: "staging_ready kv c" "files_are (fake_get kv) c S"
    and kv': "staging_ready kv' c" "files_are (fake_get kv') c S'"
    and vis: "{r \<in> S'. df_table_id r = t \<and> is_visible_at (df_validity r) ord} =
      g ` {r \<in> S. df_table_id r = t \<and> is_visible_at (df_validity r) ord}"
    and g: "\<And>r. without_end (g r) = without_end r"
    and rows: "\<And>r. r \<in> S \<Longrightarrow> file_rows kv' c (df_data_file_id r) = file_rows kv c (df_data_file_id r)"
  shows "list_data_files_at kv' c t ord = rbind (list_data_files_at kv c t ord) (\<lambda>rs. Inr (map g rs))"
proof -
  let ?V = "visible_files c t ord S" and ?V' = "visible_files c t ord S'"
  have key: "begin_key c (g r) = begin_key c r" for r using without_end_fields [OF g [of r]] by simp
  have set: "set ?V = {r \<in> S. df_table_id r = t \<and> is_visible_at (df_validity r) ord}"
    "set ?V' = {r \<in> S'. df_table_id r = t \<and> is_visible_at (df_validity r) ord}"
    using visible_files_spec [OF kv(2)] visible_files_spec [OF kv'(2)] by simp_all
  have "map (begin_key c) ?V' = map (begin_key c) (map g ?V)"
  proof (rule strict_sorted_equal)
    show "sorted_wrt (<) (map (begin_key c) ?V')" using visible_files_sorted [OF kv'(2)] by (simp add: sorted_wrt_map)
    show "sorted_wrt (<) (map (begin_key c) (map g ?V))"
      using visible_files_sorted [OF kv(2)] by (simp add: sorted_wrt_map key)
    show "set (map (begin_key c) ?V') = set (map (begin_key c) (map g ?V))"
      using set vis by (metis (no_types, lifting) set_map)
  qed
  moreover have "set ?V' \<union> set (map g ?V) \<subseteq> S'" using set vis by auto
  then have "inj_on (begin_key c) (set ?V' \<union> set (map g ?V))"
    using kv'(2) by (auto simp: files_are_def by_begin.holds_def intro: inj_on_subset)
  ultimately have V': "?V' = map g ?V" by (rule map_inj_on)
  have "supersedes kv' c (g x) (g r) = supersedes kv c x r" if "x \<in> set ?V" "r \<in> set ?V" for x r
    using that set(1) by (intro supersedes_without_end g rows) auto
  then have "filter (\<lambda>r. \<not> (\<exists>x \<in> set ?V'. supersedes kv' c x r)) ?V' =
      map g (filter (\<lambda>r. \<not> (\<exists>x \<in> set ?V. supersedes kv c x r)) ?V)"
    unfolding V' by (rule filter_unrelated_map)
  then show ?thesis
    using kv kv' by (simp add: staging_ready_def data_files_at_context_load_reads [where S = S] 
        data_files_at_context_load_reads [where S = S'])
qed

section \<open>Row ids\<close>

definition row_ids :: "data_file_row \<Rightarrow> nat set" where
  "row_ids r = (if row_id_overlap_check_needed r
     then {unat (df_row_id_start r) ..< unat (df_row_id_start r) + unat (df_record_count r)} else {})"

definition row_range_ok :: "data_file_row \<Rightarrow> bool" where
  "row_range_ok r \<longleftrightarrow> unat (df_row_id_start r) + unat (df_record_count r) < 2 ^ 64"

definition row_ids_disjoint :: "data_file_row set \<Rightarrow> bool" where
  "row_ids_disjoint S \<longleftrightarrow>
     (\<forall>a \<in> S. \<forall>b \<in> S. a \<noteq> b \<longrightarrow> df_table_id a = df_table_id b \<longrightarrow> row_ids a \<inter> row_ids b = {})"

text \<open>Every allocated row id lies below the watermark of its table.\<close>

definition row_ids_below :: "(bytes \<rightharpoonup> bytes) \<Rightarrow> catalog_id \<Rightarrow> data_file_row set \<Rightarrow> bool" where
  "row_ids_below m c S \<longleftrightarrow> (\<forall>r \<in> S. \<forall>n. data_file_next_row_id r = Some n \<longrightarrow>
     row_range_ok r \<and> cell_ge n (m (table_next_row_id_key c (df_table_id r))))"

lemma row_end: "row_range_ok r \<Longrightarrow>
   unat (saturating_add (df_row_id_start r) (df_record_count r)) = unat (df_row_id_start r) + unat (df_record_count r)"
  by (simp add: row_range_ok_def unat_saturating_add)

lemma reject_row_id_overlap_iff:
  assumes "row_range_ok l" "row_range_ok r"
  shows "reject_row_id_overlap l r = Inr () \<longleftrightarrow> df_table_id l \<noteq> df_table_id r \<or> row_ids l \<inter> row_ids r = {}"
proof -
  let ?l = "unat (df_row_id_start l)" and ?n = "unat (df_record_count l)"
    and ?r = "unat (df_row_id_start r)" and ?k = "unat (df_record_count r)"
  have pos: "0 < ?n \<longleftrightarrow> df_record_count l \<noteq> 0" "0 < ?k \<longleftrightarrow> df_record_count r \<noteq> 0"
    by (simp_all add: unat_gt_0)
  have "{?l ..< ?l + ?n} \<inter> {?r ..< ?r + ?k} = {} \<longleftrightarrow> \<not> (?l < ?r + ?k \<and> ?r < ?l + ?n)"
    if "0 < ?n" "0 < ?k"
  proof
    assume e: "{?l ..< ?l + ?n} \<inter> {?r ..< ?r + ?k} = {}"
    show "\<not> (?l < ?r + ?k \<and> ?r < ?l + ?n)"
    proof
      assume "?l < ?r + ?k \<and> ?r < ?l + ?n"
      with that have "max ?l ?r \<in> {?l ..< ?l + ?n} \<inter> {?r ..< ?r + ?k}" by (auto simp: max_def)
      with e show False by blast
    qed
  qed auto
  with pos show ?thesis
    by (auto simp: reject_row_id_overlap_def row_ids_def row_id_overlap_check_needed_def Let_def word_less_nat_alt
        row_end [OF assms(1)] row_end [OF assms(2)] word_gt_0)
qed

lemma rfold_all: "rfold (\<lambda>x _. f x) xs () = Inr () \<longleftrightarrow> (\<forall>x \<in> set xs. f x = Inr ())"
  by (induction xs) (auto simp: rbind_Inr_iff)

lemma reject_proposed_iff:
  "reject_proposed_data_file_row_id_overlaps rows = Inr () \<longleftrightarrow>
     sorted_wrt (\<lambda>a b. reject_row_id_overlap a b = Inr ()) rows"
  by (induction rows) (auto simp: rbind_Inr_iff rfold_all)

lemma group_push_member:
  "(\<exists>g \<in> set (group_push k x gs). fst g = k \<and> x \<in> set (snd g)) \<and>
   (\<forall>g \<in> set gs. \<exists>g' \<in> set (group_push k x gs). fst g' = fst g \<and> set (snd g) \<subseteq> set (snd g'))"
  by (induction k x gs rule: group_push.induct) auto

lemma data_files_by_table_member:
  assumes "r \<in> set rows"
  shows "\<exists>g \<in> set (data_files_by_table rows). fst g = df_table_id r \<and> r \<in> set (snd g)"
proof -
  have "r \<in> set rows \<or> (\<exists>g \<in> set gs. fst g = df_table_id r \<and> r \<in> set (snd g)) \<Longrightarrow>
      \<exists>g \<in> set (fold (\<lambda>r. group_push (df_table_id r) r) rows gs). fst g = df_table_id r \<and> r \<in> set (snd g)" for gs
  proof (induction rows arbitrary: gs)
    case (Cons x xs)
    have "r = x \<or> r \<in> set xs \<or> (\<exists>g \<in> set gs. fst g = df_table_id r \<and> r \<in> set (snd g))" using Cons.prems by auto
    then have "r \<in> set xs \<or> (\<exists>g \<in> set (group_push (df_table_id x) x gs). fst g = df_table_id r \<and> r \<in> set (snd g))"
    proof (elim disjE bexE conjE)
      fix g assume g: "g \<in> set gs" "fst g = df_table_id r" "r \<in> set (snd g)"
      from bspec [OF conjunct2 [OF group_push_member] g(1), of "df_table_id x" x] obtain g' where
        "g' \<in> set (group_push (df_table_id x) x gs)" "fst g' = fst g" "set (snd g) \<subseteq> set (snd g')" by blast
      with g(2,3) show ?thesis by (intro disjI2 bexI [of _ g']) auto
    qed (use group_push_member [of "df_table_id x" x gs] in auto)
    from Cons.IH [OF this] show ?case by simp
  qed simp
  with assms show ?thesis by (simp add: data_files_by_table_def)
qed

lemma reject_allocated_accepts:
  assumes "reject_allocated_table_row_id_reuse kv c rows = Inr ()" "r \<in> set rows" "row_id_overlap_check_needed r"
  shows "\<exists>n. load_table_next_row_id kv c (df_table_id r) = Inr n \<and> n \<le> df_row_id_start r"
proof -
  from data_files_by_table_member [OF assms(2)] obtain rs where
    g: "(df_table_id r, rs) \<in> set (data_files_by_table rows)" "r \<in> set rs" by (metis prod.collapse)
  have "rfold (\<lambda>g _. rbind (load_table_next_row_id kv c (fst g)) (\<lambda>n. rfold (\<lambda>r _. if df_row_id_start r < n
           then Inl (InvalidMutation ''conflict committing data mutation: data file row ids reuse allocated row ids'')
           else Inr ()) (filter row_id_overlap_check_needed (snd g)) ())) (data_files_by_table rows) () = Inr ()"
    using assms(1) by (simp add: reject_allocated_table_row_id_reuse_def case_prod_beta')
  then have "rbind (load_table_next_row_id kv c (df_table_id r)) (\<lambda>n. rfold (\<lambda>r _. if df_row_id_start r < n
           then Inl (InvalidMutation ''conflict committing data mutation: data file row ids reuse allocated row ids'')
           else Inr ()) (filter row_id_overlap_check_needed rs) ()) = Inr ()"
    unfolding rfold_all using g(1) by force
  with g(2) assms(3) show ?thesis
    by (auto simp: rbind_Inr_iff rfold_all not_less split: if_splits)
qed

lemma accepted_append_keeps_row_ids:
  assumes "row_ids_disjoint S" "row_ids_below (fake_get kv) c S" "\<forall>r \<in> set new. row_range_ok r"
    and acc: "reject_current_data_file_row_id_overlaps kv c new = Inr ()"
    and cells: "\<forall>k \<in> cell_keys c. cell_ok (fake_get kv k)"
  shows "row_ids_disjoint (S \<union> set new)"
proof -
  have acc': "sorted_wrt (\<lambda>a b. reject_row_id_overlap a b = Inr ()) new"
    "reject_allocated_table_row_id_reuse kv c new = Inr ()"
    using acc by (auto simp: reject_current_data_file_row_id_overlaps_def rbind_Inr_iff reject_proposed_iff
        reject_current_data_file_row_id_overlaps_except_def
        reject_current_data_file_row_id_overlaps_except_with_latest_order_def)
  have "row_ids a \<inter> row_ids b = {}" if "a \<in> set new" "b \<in> set new" "a \<noteq> b" "df_table_id a = df_table_id b" for a b
  proof -
    from that obtain i j where ij: "i < length new" "j < length new" "a = new ! i" "b = new ! j" "i \<noteq> j"
      by (metis in_set_conv_nth)
    then have "reject_row_id_overlap a b = Inr () \<or> reject_row_id_overlap b a = Inr ()"
      using sorted_wrt_nth_less [OF acc'(1)] by (cases "i < j") auto
    with that assms(3) show ?thesis using reject_row_id_overlap_iff [of a b] reject_row_id_overlap_iff [of b a] by auto
  qed
  moreover have "row_ids a \<inter> row_ids b = {}" if "a \<in> S" "b \<in> set new" "df_table_id a = df_table_id b" for a b
  proof (cases "row_id_overlap_check_needed a \<and> row_id_overlap_check_needed b")
    case True
    from reject_allocated_accepts [OF acc'(2) that(2)] True obtain n where
      n: "load_table_next_row_id kv c (df_table_id b) = Inr n" "n \<le> df_row_id_start b" by blast
    from True have nxt: "data_file_next_row_id a = Some (saturating_add (df_row_id_start a) (df_record_count a))"
      by (simp add: data_file_next_row_id_def)
    with assms(2) that(1,3) have a: "row_range_ok a"
      "cell_ge (saturating_add (df_row_id_start a) (df_record_count a)) (fake_get kv (table_next_row_id_key c (df_table_id b)))"
      by (auto simp: row_ids_below_def)
    moreover have "cell_value (fake_get kv (table_next_row_id_key c (df_table_id b))) = Some n"
      using n(1) a(2) cells by (auto simp: load_table_next_row_id_def load_u64_ok cell_ge_def)
    ultimately have "saturating_add (df_row_id_start a) (df_record_count a) \<le> df_row_id_start b"
      using n(2) by (auto simp: cell_ge_def)
    then show ?thesis using row_end [OF a(1)] by (auto simp: row_ids_def word_le_nat_alt)
  qed (auto simp: row_ids_def)
  ultimately show ?thesis
    using assms(1) unfolding row_ids_disjoint_def by (metis Int_commute Un_iff)
qed

section \<open>Commits as steps\<close>

text \<open>The commits of the data file store. The guards are what the callers provide: new files have fresh ids and
  valid strings, an expired file is still current, and the two counters have not run out.\<close>

definition new_files_ok :: "fake_kv \<Rightarrow> catalog_id \<Rightarrow> data_file_row list \<Rightarrow> bool" where
  "new_files_ok kv c rows \<longleftrightarrow> distinct (map df_data_file_id rows) \<and>
     (\<forall>r \<in> set rows. data_file_row_ok r \<and> row_range_ok r \<and> fake_get kv (data_file_key c (df_data_file_id r)) = None)"

definition counters_ok :: "fake_kv \<Rightarrow> catalog_id \<Rightarrow> bool" where
  "counters_ok kv c \<longleftrightarrow> next_order kv < - 1 \<and> (\<forall>s. latest_snapshot kv c = Inr (Some s) \<longrightarrow> sn_sequence s < - 1)"

inductive file_step :: "catalog_id \<Rightarrow> catalog_order_id \<Rightarrow> fake_kv \<Rightarrow> fake_kv \<Rightarrow> bool" for c where
  append: "commit_append_data_files kv c now rows = (res, kv') \<Longrightarrow> new_files_ok kv c rows \<Longrightarrow> counters_ok kv' c \<Longrightarrow>
     file_step c (next_commit_order kv) kv kv'"
| expire: "expire_data_file kv c f ord = (res, kv') \<Longrightarrow> order_kind ord = UuidV7 \<Longrightarrow>
     (\<And>r. load_data_file kv c f = Inr r \<Longrightarrow> is_current r) \<Longrightarrow> file_step c ord kv kv'"

definition file_inv :: "fake_kv \<Rightarrow> catalog_id \<Rightarrow> snapshot_row list \<Rightarrow> snapshot_row list \<Rightarrow> data_file_row set \<Rightarrow> data_file_change set \<Rightarrow> bool" where
  "file_inv kv c H L S C \<longleftrightarrow> catalog_is kv c H L S C \<and> clock_ahead kv H \<and> row_ids_disjoint S \<and>
     row_ids_below (fake_get kv) c S"

lemma file_inv_new: "file_inv fake_new c [] [] {} {}"
proof -
  have "fake_get fake_new = Map.empty" by (simp add: fake_new_def fake_get_def [abs_def])
  then show ?thesis
    by (simp add: file_inv_def catalog_is_def staging_ready_def fake_new_snapshots(1) snapshots_are_empty changes_are_empty
        files_are_empty partition_values_wf_def cell_ok_def clock_ahead_def row_ids_disjoint_def row_ids_below_def)
       (simp add: fake_new_def word_less_nat_alt unat_minus_one_word)
qed

lemma catalog_is_files: "catalog_is kv c H L S C \<Longrightarrow> staging_ready kv c \<and> files_are (fake_get kv) c S"
  by (simp add: catalog_is_def)

text \<open>What a step leaves of an older listing.\<close>

definition listing_kept :: "catalog_id \<Rightarrow> catalog_order_id \<Rightarrow> fake_kv \<Rightarrow> fake_kv \<Rightarrow> bool" where
  "listing_kept c o1 kv kv' \<longleftrightarrow> (\<forall>t. \<exists>rs rs'. list_data_files_at kv c t o1 = Inr rs \<and>
     list_data_files_at kv' c t o1 = Inr rs' \<and> map without_end rs' = map without_end rs)"

lemma listing_keptI:
  assumes "catalog_is kv c H L S C" "catalog_is kv' c H' L' S' C'"
    and "\<And>t. {r \<in> S'. df_table_id r = t \<and> is_visible_at (df_validity r) o1} =
      g ` {r \<in> S. df_table_id r = t \<and> is_visible_at (df_validity r) o1}"
    and "\<And>r. without_end (g r) = without_end r"
    and "\<And>r. r \<in> S \<Longrightarrow> file_rows kv' c (df_data_file_id r) = file_rows kv c (df_data_file_id r)"
  shows "listing_kept c o1 kv kv'"
  unfolding listing_kept_def
proof
  fix t
  from assms(1) have kv: "staging_ready kv c" "files_are (fake_get kv) c S" by (simp_all add: catalog_is_def)
  from assms(2) have kv': "staging_ready kv' c" "files_are (fake_get kv') c S'" by (simp_all add: catalog_is_def)
  obtain rs where rs: "list_data_files_at kv c t o1 = Inr rs"
    using kv data_files_at_context_load_reads [of kv c S] by (auto simp: staging_ready_def)
  have "list_data_files_at kv' c t o1 = Inr (map g rs)"
    using listing_corresponds [OF kv kv' assms(3-5)] rs by simp
  moreover have "map without_end (map g rs) = map without_end rs" using assms(4) by simp
  ultimately show "\<exists>rs rs'. list_data_files_at kv c t o1 = Inr rs \<and>
      list_data_files_at kv' c t o1 = Inr rs' \<and> map without_end rs' = map without_end rs" using rs by blast
qed

lemma listing_kept_refl: "catalog_is kv c H L S C \<Longrightarrow> listing_kept c o1 kv kv"
  by (rule listing_keptI [where g = id]) simp_all

lemma listing_kept_trans: "listing_kept c o1 kv1 kv2 \<Longrightarrow> listing_kept c o1 kv2 kv3 \<Longrightarrow> listing_kept c o1 kv1 kv3"
  unfolding listing_kept_def by (metis sum.inject(2))

lemma unchanged_store:
  assumes "file_inv kv c H L S C" "fake_get kv' = fake_get kv" "fake_wf kv'" "counters_ok kv' c"
    "next_order kv \<le> next_order kv'"
  shows "file_inv kv' c H L S C"
proof -
  from assms(1) have A: "catalog_is kv c H L S C" "clock_ahead kv H" by (simp_all add: file_inv_def)
  from A(1) assms(2,3) have "catalog_is kv' c H L S C" by (simp add: catalog_is_def staging_ready_def)
  moreover have "clock_ahead kv' H"
    using A(2) assms(4,5) by (auto simp: clock_ahead_def counters_ok_def order_le_iff intro: order_trans)
  ultimately show ?thesis using assms(1,2) by (simp add: file_inv_def)
qed

lemma appendable_new_files:
  "catalog_is kv c H L S C \<Longrightarrow> new_files_ok kv c rows \<Longrightarrow> appendable S rows"
  using data_file_get(1) [of "fake_get kv" c S] by (fastforce simp: new_files_ok_def appendable_def catalog_is_def)

lemma rejected_append_step:
  assumes inv: "file_inv kv c H L S C"
    and same: "fake_get kv' = fake_get kv" "fake_wf kv'" "next_order kv' = next_order kv + 1" and "counters_ok kv' c"
  shows "file_inv kv' c H L S C \<and> listing_kept c o1 kv kv'"
proof -
  from inv have A: "catalog_is kv c H L S C" "clock_ahead kv H" by (simp_all add: file_inv_def)
  have "next_order kv \<le> next_order kv'"
    using A(2) saturating_Suc(4) [of "next_order kv"] by (simp add: same(3) clock_ahead_def)
  from unchanged_store [OF inv same(1,2) assms(5) this] have inv': "file_inv kv' c H L S C" .
  have "file_rows kv' c f = file_rows kv c f" for f
    using A(1) same by (intro file_rows_local) (auto simp: catalog_is_def staging_ready_def)
  then have "listing_kept c o1 kv kv'"
    using inv' by (intro listing_keptI [OF A(1), where g = id]) (auto simp: file_inv_def)
  with inv' show ?thesis by blast
qed

lemma row_ids_below_append:
  assumes "row_ids_below m c S" "\<forall>r \<in> set new. row_range_ok r"
    "\<forall>(k, n) \<in> (\<Union>r \<in> set new. append_floors c r). cell_ge n (m' k)"
    "\<forall>k \<in> cell_keys c. \<forall>n. cell_ge n (m k) \<longrightarrow> cell_ge n (m' k)"
  shows "row_ids_below m' c (S \<union> set new)"
  unfolding row_ids_below_def
proof (intro ballI allI impI)
  fix r n assume r: "r \<in> S \<union> set new" "data_file_next_row_id r = Some n"
  show "row_range_ok r \<and> cell_ge n (m' (table_next_row_id_key c (df_table_id r)))"
  proof (cases "r \<in> S")
    case True
    with assms(1,4) r(2) show ?thesis by (auto simp: row_ids_below_def)
  next
    case False
    with r(1) have "r \<in> set new" by blast
    with r(2) assms(2,3) show ?thesis by (fastforce simp: append_floors_def)
  qed
qed

lemma append_step:
  assumes inv: "file_inv kv c H L S C" and op: "commit_append_data_files kv c now rows = (res, kv')"
    and ok: "new_files_ok kv c rows" "counters_ok kv' c"
  shows "\<exists>H' L' S' C'. file_inv kv' c H' L' S' C' \<and> (\<forall>o1. o1 < next_commit_order kv \<longrightarrow> listing_kept c o1 kv kv')"
proof (cases "rows = []")
  case True
  with op have "kv' = kv" by (simp add: commit_append_data_files_def)
  with inv show ?thesis using listing_kept_refl [of kv c H L S C] by (auto simp: file_inv_def)
next
  case False
  from inv have A: "catalog_is kv c H L S C" "clock_ahead kv H" "row_ids_disjoint S" "row_ids_below (fake_get kv) c S"
    by (simp_all add: file_inv_def)
  have app: "appendable S rows" using A(1) ok(1) by (rule appendable_new_files)
  let ?new = "map (begun_at (next_commit_order kv)) rows"
  note outcome = commit_append_data_files_outcome [OF A(1,2) app False, of now]
  show ?thesis
  proof (cases "reject_current_data_file_row_id_overlaps kv c ?new")
    case (Inl e)
    with outcome op have "fake_get kv' = fake_get kv" "fake_wf kv'" "next_order kv' = next_order kv + 1" by auto
    from rejected_append_step [OF inv this ok(2)] show ?thesis by blast
  next
    case (Inr u)
    let ?s = "next_snapshot now kv H"
    from outcome op Inr have B: "catalog_is kv' c (H @ [?s]) (L @ [?s]) (S \<union> set ?new) (C \<union> added_changes (set ?new))"
      "next_order kv' = next_order kv + 1" "\<forall>(k, n) \<in> (\<Union>r \<in> set ?new. append_floors c r). cell_ge n (fake_get kv' k)"
      "\<forall>k \<in> cell_keys c. \<forall>n. cell_ge n (fake_get kv k) \<longrightarrow> cell_ge n (fake_get kv' k)"
      "\<forall>f. f \<notin> df_data_file_id ` set rows \<longrightarrow> file_rows kv' c f = file_rows kv c f" by auto
    have "latest_snapshot kv' c = Inr (Some ?s)"
      using latest_snapshot_reads [of kv' c "H @ [?s]" "L @ [?s]"] B(1) by (simp add: catalog_is_def staging_ready_def)
    then have clock: "clock_ahead kv' (H @ [?s])"
      using ok(2) A(1,2) B(2) by (intro clock_ahead_next [where m = "fake_get kv" and L = L])
         (auto simp: counters_ok_def catalog_is_def)
    have ranges: "\<forall>r \<in> set ?new. row_range_ok r" using ok(1) by (auto simp: new_files_ok_def row_range_ok_def)
    have "row_ids_disjoint (S \<union> set ?new)"
      using A Inr ranges by (intro accepted_append_keeps_row_ids) (auto simp: catalog_is_def staging_ready_def)
    with row_ids_below_append [OF A(4) ranges B(3,4)] B(1) clock
    have inv': "file_inv kv' c (H @ [?s]) (L @ [?s]) (S \<union> set ?new) (C \<union> added_changes (set ?new))"
      by (simp add: file_inv_def)
    have "listing_kept c o1 kv kv'" if "o1 < next_commit_order kv" for o1
    proof (rule listing_keptI [OF A(1) B(1), where g = id])
      show "{r \<in> S \<union> set ?new. df_table_id r = t \<and> is_visible_at (df_validity r) o1} =
          id ` {r \<in> S. df_table_id r = t \<and> is_visible_at (df_validity r) o1}" for t
        using that by (auto simp: is_visible_at_def validity_new_def order_le_iff order_less_iff)
      show "file_rows kv' c (df_data_file_id r) = file_rows kv c (df_data_file_id r)" if "r \<in> S" for r
        using app B(5) that unfolding appendable_def by (metis imageE imageI)
    qed simp
    with inv' show ?thesis by blast
  qed
qed

lemma ended_at_keeps:
  "row_ids (ended_at ord r) = row_ids r" "row_range_ok (ended_at ord r) = row_range_ok r"
  "data_file_next_row_id (ended_at ord r) = data_file_next_row_id r" "without_end (ended_at ord r) = without_end r"
  by (auto simp: row_ids_def row_id_overlap_check_needed_def row_range_ok_def data_file_next_row_id_def without_end_def)

lemma expire_stored_step:
  assumes inv: "file_inv kv c H L S C" and r: "r \<in> S" "is_current r" "begin_order (df_validity r) < ord"
    and op: "expire_data_file kv c (df_data_file_id r) ord = (res, kv')" and kind: "order_kind ord = UuidV7"
  shows "\<exists>S' C'. file_inv kv' c H L S' C' \<and> (\<forall>o1. o1 < ord \<longrightarrow> listing_kept c o1 kv kv')"
proof -
  from inv have A: "catalog_is kv c H L S C" by (simp add: file_inv_def)
  define g where "g x = (if x = r then ended_at ord r else x)" for x
  from expire_data_file_stored [OF A r(1,3) kind] op have
    B: "catalog_is kv' c H L (insert (ended_at ord r) (S - {r})) (insert (change_of r ord Removed) C)"
    "next_order kv' = next_order kv" "\<forall>k \<in> cell_keys c. \<forall>n. cell_ge n (fake_get kv k) \<longrightarrow> cell_ge n (fake_get kv' k)"
    "\<forall>f. file_rows kv' c f = file_rows kv c f" by auto
  have img: "insert (ended_at ord r) (S - {r}) = g ` S" using r(1) by (auto simp: g_def)
  have keep: "row_ids (g x) = row_ids x" "df_table_id (g x) = df_table_id x" "row_range_ok (g x) = row_range_ok x"
    "data_file_next_row_id (g x) = data_file_next_row_id x" "without_end (g x) = without_end x" for x
    by (simp_all add: g_def ended_at_keeps)
  have "row_ids_disjoint (g ` S)" using inv unfolding file_inv_def row_ids_disjoint_def by (fastforce simp: keep disjoint_iff)
  moreover have "row_ids_below (fake_get kv') c (g ` S)"
    using inv B(3) unfolding file_inv_def row_ids_below_def ball_simps keep by (meson cell_keys_iff(3))
  ultimately have inv': "file_inv kv' c H L (g ` S) (insert (change_of r ord Removed) C)"
    using inv B(1,2) unfolding img by (simp add: file_inv_def clock_ahead_def)
  have "listing_kept c o1 kv kv'" if "o1 < ord" for o1
  proof (rule listing_keptI [OF A B(1) [unfolded img], where g = g])
    have vis: "is_visible_at (df_validity (g x)) o1 = is_visible_at (df_validity x) o1" for x
      using that r(2) by (auto simp: is_visible_at_def g_def)
    show "{r \<in> g ` S. df_table_id r = t \<and> is_visible_at (df_validity r) o1} =
        g ` {r \<in> S. df_table_id r = t \<and> is_visible_at (df_validity r) o1}" for t
      by (auto simp: vis keep)
  qed (simp_all add: keep B(4))
  with inv' show ?thesis by blast
qed

lemma expire_step:
  assumes inv: "file_inv kv c H L S C" and op: "expire_data_file kv c f ord = (res, kv')" and kind: "order_kind ord = UuidV7"
    and cur: "\<And>r. load_data_file kv c f = Inr r \<Longrightarrow> is_current r"
  shows "\<exists>S' C'. file_inv kv' c H L S' C' \<and> (\<forall>o1. o1 < ord \<longrightarrow> listing_kept c o1 kv kv')"
proof -
  from inv have A: "catalog_is kv c H L S C" "files_are (fake_get kv) c S" by (simp_all add: file_inv_def catalog_is_def)
  have same: ?thesis if "kv' = kv" using that inv listing_kept_refl [OF A(1)] by blast
  show ?thesis
  proof (cases "f \<in> df_data_file_id ` S")
    case False
    with expire_data_file_absent [OF A(2)] op show ?thesis by (intro same) simp
  next
    case True
    then obtain r where r: "r \<in> S" "f = df_data_file_id r" by blast
    have "is_current r" using cur [of r] load_data_file_reads(1) [OF A(2) r(1)] r(2) by simp
    moreover have ?thesis if "ord \<le> begin_order (df_validity r)"
      using expire_data_file_early [OF A(2) r(1) that] op r(2) by (intro same) simp
    ultimately show ?thesis
      using expire_stored_step [OF inv r(1) _ _ op [unfolded r(2)] kind] order_not_le by blast
  qed
qed

text \<open>Sequences of commits, all with orders after a given one.\<close>

inductive later_steps :: "catalog_id \<Rightarrow> catalog_order_id \<Rightarrow> fake_kv \<Rightarrow> fake_kv \<Rightarrow> bool" for c o1 where
  none: "later_steps c o1 kv kv"
| step: "later_steps c o1 kv kv1 \<Longrightarrow> file_step c ord kv1 kv2 \<Longrightarrow> o1 < ord \<Longrightarrow> later_steps c o1 kv kv2"

lemma file_step_keeps:
  assumes "file_step c ord kv kv'" "file_inv kv c H L S C"
  shows "\<exists>H' L' S' C'. file_inv kv' c H' L' S' C' \<and> (\<forall>o1. o1 < ord \<longrightarrow> listing_kept c o1 kv kv')"
  using assms(1)
proof cases
  case append
  then show ?thesis using append_step [OF assms(2)] by blast
next
  case expire
  then show ?thesis using expire_step [OF assms(2)] by blast
qed

lemma later_steps_keep:
  assumes "later_steps c o1 kv kv'" "file_inv kv c H L S C"
  shows "(\<exists>H' L' S' C'. file_inv kv' c H' L' S' C') \<and> listing_kept c o1 kv kv'"
  using assms
proof (induction rule: later_steps.induct)
  case (none kv)
  then show ?case using listing_kept_refl [of kv c H L S C] by (auto simp: file_inv_def)
next
  case (step kv kv1 ord kv2)
  then obtain H1 L1 S1 C1 where "file_inv kv1 c H1 L1 S1 C1" "listing_kept c o1 kv kv1" by blast
  with file_step_keeps [OF step.hyps(2)] step.hyps(3) show ?case by (blast intro: listing_kept_trans)
qed

text \<open>All files of a catalog, by id.\<close>

lemma list_data_files_reads:
  assumes "fake_wf kv" "files_are (fake_get kv) c S"
  shows "\<exists>rs. list_data_files kv c = Inr rs \<and> set rs = S \<and> distinct rs \<and>
    sorted_wrt (\<lambda>a b. df_data_file_id a < df_data_file_id b) rs"
proof -
  have h: "by_id.holds c (fake_get kv) S" "finite S"
    using assms files_are_finite by (auto simp: files_are_def)
  let ?rs = "by_id.rows_in c (prefix (family_prefix c DataFile)) S"
  have p: "family_prefix c DataFile = (catalog_prefix c @ [family_code DataFile]) @ [slash]" by (simp add: family_prefix_def)
  note spec = by_id.rows_in_spec [OF h, of "prefix (family_prefix c DataFile)"]
  have set: "set ?rs = S" using spec(1) by_id.in_space by blast
  from spec(3) have sorted: "sorted_wrt (\<lambda>a b. df_data_file_id a < df_data_file_id b) ?rs"
    by (rule sorted_wrt_mono_rel [rotated]) (simp add: key_defs)
  then have "sorted (map df_data_file_id ?rs)"
    unfolding sorted_map by (rule sorted_wrt_mono_rel [rotated]) auto
  then have "sort_key df_data_file_id ?rs = ?rs" by (simp add: sort_key_id_if_sorted)
  then have "list_data_files kv c = Inr ?rs"
    using by_id.scan_prefix_rows [OF assms(1) h(1) p] by_id.decode_stored [OF h] by (simp add: list_data_files_def)
  with set sorted spec(2) show ?thesis by blast
qed

section \<open>Reachable stores\<close>

inductive file_reachable :: "catalog_id \<Rightarrow> fake_kv \<Rightarrow> bool" for c where
  start: "file_reachable c fake_new"
| commit: "file_reachable c kv \<Longrightarrow> file_step c ord kv kv' \<Longrightarrow> file_reachable c kv'"

lemma reachable_inv: "file_reachable c kv \<Longrightarrow> \<exists>H L S C. file_inv kv c H L S C"
proof (induction rule: file_reachable.induct)
  case start
  show ?case using file_inv_new by blast
next
  case (commit kv ord kv')
  then show ?case using file_step_keeps by blast
qed

lemma reachable_files:
  assumes "file_reachable c kv"
  obtains H L S C rs where "file_inv kv c H L S C" "fake_wf kv" "partition_values_wf (fake_get kv) c"
    "files_are (fake_get kv) c S" "list_data_files kv c = Inr rs" "set rs = S" "distinct (map df_data_file_id rs)"
proof -
  from reachable_inv [OF assms] obtain H L S C where inv: "file_inv kv c H L S C" by blast
  then have A: "fake_wf kv" "partition_values_wf (fake_get kv) c" "files_are (fake_get kv) c S"
    by (simp_all add: file_inv_def catalog_is_def staging_ready_def)
  from list_data_files_reads [OF A(1,3)] obtain rs where rs: "list_data_files kv c = Inr rs" "set rs = S" "distinct rs"
    by blast
  moreover have "distinct (map df_data_file_id rs)"
    using rs files_are_ids [OF A(3)] by (simp add: distinct_map)
  ultimately show thesis using that inv A by blast
qed

text \<open>An example: one file appended to a new store.\<close>

definition example_file :: data_file_row where
  "example_file = data_file_row_new 1 2 (ascii ''a'') 10 99 (uuid_v7 0)"

lemma example_accepted:
  "reject_current_data_file_row_id_overlaps fake_new 7 [begun_at (uuid_v7 1) example_file] = Inr ()"
  by (simp add: reject_current_data_file_row_id_overlaps_def reject_current_data_file_row_id_overlaps_except_def
      reject_current_data_file_row_id_overlaps_except_with_latest_order_def reject_allocated_table_row_id_reuse_def
      data_files_by_table_def load_table_next_row_id_def load_u64_def fake_get_def fake_new_def example_file_def
      data_file_row_new_def row_id_overlap_check_needed_def)

lemma example_append:
  obtains kv where "file_step 7 (uuid_v7 1) fake_new kv"
    "catalog_is kv 7 [next_snapshot 0 fake_new []] [next_snapshot 0 fake_new []] {begun_at (uuid_v7 1) example_file}
       {change_of example_file (uuid_v7 1) Added}" "next_order kv = 1"
proof -
  have new: "new_files_ok fake_new 7 [example_file]"
    by (simp add: new_files_ok_def example_file_def data_file_row_new_def data_file_row_ok_def row_range_ok_def
        string_ok_def utf8_valid.simps ascii_def fake_get_def fake_new_def)
  have inv: "catalog_is fake_new 7 [] [] {} {}" "clock_ahead fake_new []"
    using file_inv_new [of 7] by (simp_all add: file_inv_def)
  have zero: "next_order fake_new = 0" by (simp add: fake_new_def)
  have app: "appendable {} [example_file]" using inv(1) new by (rule appendable_new_files)
  from commit_append_data_files_outcome [OF inv app, of 0] example_accepted obtain kv where
    kv: "commit_append_data_files fake_new 7 0 [example_file] = (Inr [begun_at (uuid_v7 1) example_file], kv)"
    "catalog_is kv 7 [next_snapshot 0 fake_new []] [next_snapshot 0 fake_new []] {begun_at (uuid_v7 1) example_file}
       {change_of example_file (uuid_v7 1) Added}" "next_order kv = 1"
    by (auto simp: zero validity_new_def)
  have "latest_snapshot kv 7 = Inr (Some (next_snapshot 0 fake_new []))"
    using latest_snapshot_reads [of kv 7 "[next_snapshot 0 fake_new []]" "[next_snapshot 0 fake_new []]"] kv(2)
    by (simp add: catalog_is_def staging_ready_def)
  then have "counters_ok kv 7"
    by (simp add: counters_ok_def kv(3) snapshot_row_for_next_sequence_def snapshot_row_new_def
        snapshot_row_with_created_at_micros_def raw_sequence_initial_def word_less_nat_alt unat_minus_one_word)
  with kv(1) new have "file_step 7 (uuid_v7 (next_order fake_new + 1)) fake_new kv" by (rule file_step.append)
  with kv that show thesis by (simp add: zero)
qed

lemma singleton_list: "set xs = {x} \<Longrightarrow> distinct xs \<Longrightarrow> xs = [x]"
proof (cases xs)
  case (Cons y ys)
  assume xs: "set xs = {x}" "distinct xs"
  then have "y = x" "set ys \<subseteq> {x}" "x \<notin> set ys" using Cons by auto
  then have "ys = []" by (cases ys) auto
  with Cons \<open>y = x\<close> show ?thesis by simp
qed simp

lemma example_listing:
  assumes "catalog_is kv c H L {r} C"
  shows "list_data_files kv c = Inr [r]"
proof -
  from assms have "fake_wf kv" "files_are (fake_get kv) c {r}" by (simp_all add: catalog_is_def staging_ready_def)
  from list_data_files_reads [OF this] obtain rs where "list_data_files kv c = Inr rs" "set rs = {r}" "distinct rs" by blast
  with singleton_list [of rs r] show ?thesis by simp
qed

section \<open>Properties\<close>



text \<open>C10: A listing at an order is exact. In every reachable store the listing of a table at an order has, once each,
  exactly the stored files of the table that have begun and not ended by that order and that no visible
  backfilled file supersedes; the listing of current files has exactly the files without an end.\<close>
theorem data_files_at_exact:
  assumes "file_reachable c kv"
  shows "\<exists>all rs cur. list_data_files kv c = Inr all \<and> distinct (map df_data_file_id all) \<and>
    list_data_files_at kv c t o1 = Inr rs \<and> distinct rs \<and>
    set rs = {r \<in> set all. df_table_id r = t \<and> is_visible_at (df_validity r) o1 \<and>
      \<not> (\<exists>x \<in> set all. df_table_id x = t \<and> is_visible_at (df_validity x) o1 \<and> supersedes kv c x r)} \<and>
    list_current_data_files kv c t = Inr cur \<and> distinct cur \<and>
    set cur = {r \<in> set all. df_table_id r = t \<and> end_order (df_validity r) = None}"
proof -
  from assms obtain H L S C all where A: "fake_wf kv" "partition_values_wf (fake_get kv) c" "files_are (fake_get kv) c S"
    "list_data_files kv c = Inr all" "set all = S" "distinct (map df_data_file_id all)" by (rule reachable_files)
  define V where "V = visible_files c t o1 S"
  have V: "set V = {r \<in> S. df_table_id r = t \<and> is_visible_at (df_validity r) o1}"
    unfolding V_def by (rule visible_files_spec [OF A(3)])
  let ?rs = "filter (\<lambda>r. \<not> (\<exists>x \<in> set V. supersedes kv c x r)) V"
  have rs: "list_data_files_at kv c t o1 = Inr ?rs"
    unfolding V_def using A(1-3) by (rule data_files_at_context_load_reads)
  have "distinct V" unfolding V_def using begun_rows_spec(2) [OF A(3)] by simp
  then have "distinct ?rs" by simp
  moreover have "set ?rs = {r \<in> set all. df_table_id r = t \<and> is_visible_at (df_validity r) o1 \<and>
      \<not> (\<exists>x \<in> set all. df_table_id x = t \<and> is_visible_at (df_validity x) o1 \<and> supersedes kv c x r)}"
    unfolding set_filter V A(5) by blast
  moreover have "list_current_data_files kv c t = Inr (current_rows c t S)"
    by (simp add: list_current_data_files_def scan_current_data_files_reads [OF A(1,3)])
  moreover have "set (current_rows c t S) = {r \<in> set all. df_table_id r = t \<and> end_order (df_validity r) = None}"
    unfolding current_rows_spec(1) [OF A(3)] A(5) by blast
  ultimately show ?thesis using A(4,6) rs current_rows_spec(2) [OF A(3), of t] by blast
qed

theorem data_files_at_exact_witness:
  "\<exists>kv rs. file_reachable 7 kv \<and> list_data_files_at kv 7 2 (uuid_v7 1) = Inr rs \<and>
     rs = [begun_at (uuid_v7 1) example_file]"
proof -
  obtain kv where kv: "file_step 7 (uuid_v7 1) fake_new kv"
    "catalog_is kv 7 [next_snapshot 0 fake_new []] [next_snapshot 0 fake_new []] {begun_at (uuid_v7 1) example_file}
       {change_of example_file (uuid_v7 1) Added}" by (rule example_append)
  have reach: "file_reachable 7 kv" by (rule file_reachable.commit [OF file_reachable.start kv(1)])
  define f where "f = begun_at (uuid_v7 1) example_file"
  have f: "df_table_id f = 2" "is_visible_at (df_validity f) (uuid_v7 1)" "\<not> supersedes kv 7 f f"
    by (simp_all add: f_def is_visible_at_def validity_new_def example_file_def data_file_row_new_def supersedes_def)
  from data_files_at_exact [OF reach, of 2 "uuid_v7 1"] obtain all rs where
    rs: "list_data_files kv 7 = Inr all" "list_data_files_at kv 7 2 (uuid_v7 1) = Inr rs" "distinct rs"
    "set rs = {r \<in> set all. df_table_id r = 2 \<and> is_visible_at (df_validity r) (uuid_v7 1) \<and>
      \<not> (\<exists>x \<in> set all. df_table_id x = 2 \<and> is_visible_at (df_validity x) (uuid_v7 1) \<and> supersedes kv 7 x r)}"
    by (elim exE conjE) (rule that; assumption)
  from rs(1) example_listing [OF kv(2)] have "all = [f]" by (simp add: f_def)
  with f have "set rs = {f}" unfolding rs(4) by auto
  from singleton_list [OF this rs(3)] rs(2) reach show ?thesis unfolding f_def by blast
qed



text \<open>C9: An append commit does all or nothing. With a catalog in a known state and new files that are well formed and
  fresh, the outcome is decided by the row id check alone: if it rejects, the error is returned and nothing
  stored changes; otherwise the commit succeeds, the history gains the next snapshot, the files are stored as
  begun at its order, and the log gains an addition for each.\<close>
theorem commit_append_data_files_refines:
  assumes "catalog_is kv c H L S C" "clock_ahead kv H" "appendable S rows" "rows \<noteq> []"
  shows "case reject_current_data_file_row_id_overlaps kv c (map (begun_at (next_commit_order kv)) rows) of
      Inl e \<Rightarrow> \<exists>kv'. commit_append_data_files kv c now rows = (Inl e, kv') \<and> fake_get kv' = fake_get kv
    | Inr _ \<Rightarrow> \<exists>kv'. commit_append_data_files kv c now rows = (Inr (map (begun_at (next_commit_order kv)) rows), kv') \<and>
        catalog_is kv' c (H @ [next_snapshot now kv H]) (L @ [next_snapshot now kv H])
          (S \<union> begun_at (next_commit_order kv) ` set rows)
          (C \<union> (\<lambda>r. change_of r (next_commit_order kv) Added) ` set rows)"
  using commit_append_data_files_outcome [OF assms, of now]
  by (auto simp: validity_new_def image_image split: sum.splits)

theorem commit_append_data_files_refines_witness:
  "\<exists>kv'. commit_append_data_files fake_new 7 0 [example_file] = (Inr [begun_at (uuid_v7 1) example_file], kv')"
proof -
  have inv: "catalog_is fake_new 7 [] [] {} {}" "clock_ahead fake_new []"
    using file_inv_new [of 7] by (simp_all add: file_inv_def)
  have zero: "next_order fake_new = 0" by (simp add: fake_new_def)
  have "appendable {} [example_file]"
    by (simp add: appendable_def example_file_def data_file_row_new_def data_file_row_ok_def string_ok_def
        utf8_valid.simps ascii_def)
  from commit_append_data_files_refines [OF inv this, of 0] example_accepted show ?thesis by (auto simp: zero)
qed

text \<open>C11: Expiring a file ends it exactly once its order is later than its begin. An unknown file and an order at or
  before the begin are refused and leave the store as it was; otherwise the row gets the order as its end, only
  that row changes, and the log gains a removal.\<close>
theorem expire_data_file_outcomes:
  assumes "catalog_is kv c H L S C" "order_kind ord = UuidV7"
  shows "(f \<notin> df_data_file_id ` S \<longrightarrow> expire_data_file kv c f ord = (Inl (NotFound ''data file''), kv)) \<and>
    (\<forall>r \<in> S. df_data_file_id r = f \<and> ord \<le> begin_order (df_validity r) \<longrightarrow> expire_data_file kv c f ord =
      (Inl (InvalidMutation ''data file cannot end at or before its begin order''), kv)) \<and>
    (\<forall>r \<in> S. df_data_file_id r = f \<and> begin_order (df_validity r) < ord \<longrightarrow>
      (\<exists>kv'. expire_data_file kv c f ord = (Inr (ended_at ord r), kv') \<and>
        catalog_is kv' c H L (insert (ended_at ord r) (S - {r})) (insert (change_of r ord Removed) C)))"
  using expire_data_file_absent [of kv c S f ord] expire_data_file_early [of kv c S _ ord]
    expire_data_file_stored [OF assms(1) _ _ assms(2)] assms(1)
  by (auto simp: catalog_is_def) blast

theorem expire_data_file_outcomes_witness:
  "expire_data_file fake_new 7 1 (uuid_v7 5) = (Inl (NotFound ''data file''), fake_new) \<and>
   (\<exists>kv kv'. expire_data_file kv 7 1 (uuid_v7 5) = (Inr (ended_at (uuid_v7 5) (begun_at (uuid_v7 1) example_file)), kv'))"
proof
  have "catalog_is fake_new 7 [] [] {} {}" using file_inv_new [of 7] by (simp add: file_inv_def)
  from expire_data_file_outcomes [OF this, of "uuid_v7 5" 1]
  show "expire_data_file fake_new 7 1 (uuid_v7 5) = (Inl (NotFound ''data file''), fake_new)" by simp
next
  obtain kv where kv: "catalog_is kv 7 [next_snapshot 0 fake_new []] [next_snapshot 0 fake_new []]
    {begun_at (uuid_v7 1) example_file} {change_of example_file (uuid_v7 1) Added}" by (rule example_append)
  have "df_data_file_id (begun_at (uuid_v7 1) example_file) = 1"
    "begin_order (df_validity (begun_at (uuid_v7 1) example_file)) < uuid_v7 5"
    by (simp_all add: example_file_def data_file_row_new_def validity_new_def order_less_iff)
  with expire_data_file_outcomes [OF kv, of "uuid_v7 5" 1]
  show "\<exists>kv kv'. expire_data_file kv 7 1 (uuid_v7 5) = (Inr (ended_at (uuid_v7 5) (begun_at (uuid_v7 1) example_file)), kv')"
    by auto
qed

end
