(* ===== verification/Cat_Versioned.thy ===== *)
theory Cat_Versioned
  imports Cat_Staging
begin

text \<open>
  Versioned catalog objects. Schemas, tables, views and macros are stored in the same way: every version of an object
  lies under the family of its kind, then the object id, then the order at which the version begins; a version
  ends where its successor begins or the object is dropped. The locale states this layout once; the lemmas say
  what the shared access paths of the stores read: the scan of all versions, and the reverse scan below a key that
  finds the version of an object at an order.
\<close>

section \<open>The end of a scan below a key\<close>

lemma prefix_end_loop_Some: "\<exists>b \<in> set bs. b < 0xff \<Longrightarrow> \<exists>r. prefix_end_loop bs = Some r"
  by (induction bs) auto

lemma prefix_end_max: "\<exists>b \<in> set p. b < 0xff \<Longrightarrow> prefix_end (p @ [0xff]) = prefix_end p @ [0]"
  using prefix_end_loop_Some [of "rev p"] by (auto simp: prefix_end_def)

lemma byte_le_max [simp]: "b \<le> (0xff :: byte)"
  using unat_lt2p [of b] by (simp add: word_le_nat_alt)

text \<open>The carry of \<open>prefix_end\<close> stops at a byte below 0xff, and a key of the same length lies below the end
  exactly when it is not above the key.\<close>

lemma prefix_end_carry:
  assumes "b < 0xff"
  shows "\<exists>r. prefix_end (p @ b # q) = p @ r \<and> length r = Suc (length q) \<and>
    (\<forall>k. length k = Suc (length q) \<longrightarrow> (k < r \<longleftrightarrow> k \<le> b # q))"
proof (induction q rule: rev_induct)
  case Nil
  have "k < [b + 1] \<longleftrightarrow> k \<le> [b]" if "length k = 1" for k :: bytes
    using assms that byte_less_Suc [OF assms] by (cases k) (auto simp: le_less)
  then show ?case using prefix_end_snoc [OF assms, of p] by auto
next
  case (snoc x q)
  have cmp: "k @ [y] < u @ [z] \<longleftrightarrow> k < u \<or> k = u \<and> y < z" "k @ [y] \<le> u @ [z] \<longleftrightarrow> k < u \<or> k = u \<and> y \<le> z"
    if "length k = length u" for k u :: bytes and y z
    using less_append_eq_length [OF that, of "[y]" "[z]"] by (auto simp: le_less)
  have split: "(\<forall>k. length k = Suc (length (q @ [x])) \<longrightarrow> P k) \<longleftrightarrow> (\<forall>k y. length k = Suc (length q) \<longrightarrow> P (k @ [y]))"
    for P :: "bytes \<Rightarrow> bool"
    by (auto simp: length_Suc_conv_rev)
  show ?case
  proof (cases "x < 0xff")
    case True
    have "k @ [y] < (b # q) @ [x + 1] \<longleftrightarrow> k @ [y] \<le> (b # q) @ [x]" if "length k = Suc (length q)" for k y
      using that byte_less_Suc [OF True] by (simp only: cmp length_Cons)
    then show ?thesis
      using prefix_end_snoc [OF True, of "p @ b # q"] unfolding split by (intro exI [of _ "b # q @ [x + 1]"]) auto
  next
    case False
    then have x: "x = 0xff" using byte_le_max [of x] by (auto simp: le_less)
    from snoc obtain r where r: "prefix_end (p @ b # q) = p @ r" "length r = Suc (length q)"
      "\<And>k. length k = Suc (length q) \<Longrightarrow> k < r \<longleftrightarrow> k \<le> b # q" by blast
    have "k @ [y] < r @ [0] \<longleftrightarrow> k @ [y] \<le> (b # q) @ [x]" if "length k = Suc (length q)" for k y
      using that r(2) r(3) [OF that] by (simp only: cmp length_Cons) (use byte_le_max [of y] in \<open>auto simp: x le_less\<close>)
    moreover have "prefix_end (p @ b # q @ [x]) = p @ r @ [0]"
      using prefix_end_max [of "p @ b # q"] assms r(1) by (auto simp: x)
    ultimately show ?thesis using r(2) unfolding split by (intro exI [of _ "r @ [0]"]) auto
  qed
qed

section \<open>Versions\<close>

text \<open>The versions of one object follow each other: each lives for a while, and ends before the next begins.\<close>

definition versions_wf :: "('a \<Rightarrow> u64) \<Rightarrow> ('a \<Rightarrow> validity_window) \<Rightarrow> 'a set \<Rightarrow> bool" where
  "versions_wf oid win S \<longleftrightarrow>
     (\<forall>x \<in> S. \<forall>e. end_order (win x) = Some e \<longrightarrow> begin_order (win x) < e) \<and>
     (\<forall>x \<in> S. \<forall>y \<in> S. oid x = oid y \<longrightarrow> begin_order (win x) < begin_order (win y) \<longrightarrow>
        (\<exists>e. end_order (win x) = Some e \<and> e \<le> begin_order (win y)))"

lemma versions_wf_next:
  "versions_wf oid win S \<Longrightarrow> x \<in> S \<Longrightarrow> y \<in> S \<Longrightarrow> oid x = oid y \<Longrightarrow> begin_order (win x) < begin_order (win y) \<Longrightarrow>
   begin_order (win y) \<le> ord \<Longrightarrow> \<not> is_visible_at (win x) ord"
proof -
  assume "versions_wf oid win S" "x \<in> S" "y \<in> S" "oid x = oid y" "begin_order (win x) < begin_order (win y)"
    and ord: "begin_order (win y) \<le> ord"
  then obtain e where e: "end_order (win x) = Some e" "e \<le> begin_order (win y)" unfolding versions_wf_def by blast
  have "e \<le> ord" using e(2) ord by (rule order_trans)
  with e(1) show ?thesis by (simp add: is_visible_at_def)
qed

locale versioned_objects = stored_index space "\<lambda>x. ver (oid x) (begin_order (win x))" enc ok dec
  for space :: bytes and obj :: "u64 \<Rightarrow> bytes" and ver :: "u64 \<Rightarrow> catalog_order_id \<Rightarrow> bytes"
    and oid :: "'a \<Rightarrow> u64" and win :: "'a \<Rightarrow> validity_window" and enc :: "'a \<Rightarrow> bytes" and ok :: "'a \<Rightarrow> bool"
    and dec :: "bytes \<Rightarrow> bytes \<Rightarrow> 'a catalog_result" +
  assumes space_end: "\<exists>p. space = p @ [slash]"
    and obj_law: "obj i = space @ u64_to_be_bytes i @ [slash]"
    and ver_law: "ver i ord = obj i @ order_as_bytes ord"
begin

lemma version_key_less: "ver i a < ver j b \<longleftrightarrow> i < j \<or> i = j \<and> a < b"
  by (auto simp: obj_law ver_law less_append_eq_length order_less_bytes)

text \<open>All versions, by object and begin order.\<close>

abbreviation all_versions :: "'a set \<Rightarrow> 'a list" where
  "all_versions S \<equiv> rows_in (prefix space) S"

lemma scan_all:
  assumes "fake_wf kv" "holds (fake_get kv) S"
  shows "rbind (fake_scan_prefix kv space Forward None) (rmap (\<lambda>i. dec (ri_key i) (ri_value i))) = Inr (all_versions S)"
proof -
  from space_end obtain p where "space = p @ [slash]" by blast
  from scan_prefix_rows [OF assms this, where d = Forward and lim = None] show ?thesis
    using decode_stored [OF assms(2) holds_finite [OF assms(2)]] by simp
qed

lemma all_versions_spec:
  assumes "holds (fake_get kv) S"
  shows "set (all_versions S) = S" "distinct (all_versions S)"
    "sorted_wrt (\<lambda>x y. oid x < oid y \<or> oid x = oid y \<and> begin_order (win x) < begin_order (win y)) (all_versions S)"
proof -
  note spec = rows_in_spec [OF assms holds_finite [OF assms], of "prefix space"]
  show "set (all_versions S) = S" using spec(1) in_space by blast
  show "distinct (all_versions S)" by (rule spec(2))
  show "sorted_wrt (\<lambda>x y. oid x < oid y \<or> oid x = oid y \<and> begin_order (win x) < begin_order (win y)) (all_versions S)"
    using spec(3) by (simp only: version_key_less)
qed

text \<open>The versions of an object begun by an order, oldest first.\<close>

abbreviation begun :: "u64 \<Rightarrow> catalog_order_id \<Rightarrow> 'a set \<Rightarrow> 'a list" where
  "begun i ord S \<equiv> rows_in (\<lambda>k. obj i \<le> k \<and> k < prefix_end (ver i ord)) S"

lemma below_end:
  obtains r where "prefix_end (ver i ord) = (space @ u64_to_be_bytes i) @ r"
    "\<And>k. length k = 17 \<Longrightarrow> k < r \<longleftrightarrow> k \<le> slash # order_as_bytes ord"
  using prefix_end_carry [of slash "space @ u64_to_be_bytes i" "order_as_bytes ord"]
  by (auto simp: ver_law obj_law)

lemma begun_keys: "obj i \<le> ver j b \<and> ver j b < prefix_end (ver i ord) \<longleftrightarrow> j = i \<and> b \<le> ord"
proof -
  from below_end [of i ord] obtain r where r: "prefix_end (ver i ord) = (space @ u64_to_be_bytes i) @ r"
    "\<And>k. length k = 17 \<Longrightarrow> k < r \<longleftrightarrow> k \<le> slash # order_as_bytes ord" by blast
  show ?thesis
  proof (cases "j = i")
    case True
    have "slash # order_as_bytes b < r \<longleftrightarrow> b \<le> ord" using r(2) [of "slash # order_as_bytes b"]
      by (simp add: order_le_bytes)
    with True show ?thesis unfolding r(1) by (simp add: ver_law obj_law prefix_imp_le)
  next
    case False
    then have "\<not> prefix (space @ u64_to_be_bytes i) (ver j b)" by (auto simp: ver_law obj_law elim!: prefixE)
    with common_prefix_range [of "space @ u64_to_be_bytes i" "[slash]" "ver j b" r] False
    show ?thesis unfolding r(1) by (auto simp: obj_law)
  qed
qed

lemma begun_spec:
  assumes "holds (fake_get kv) S"
  shows "set (begun i ord S) = {x \<in> S. oid x = i \<and> begin_order (win x) \<le> ord}"
    "sorted_wrt (\<lambda>x y. begin_order (win x) < begin_order (win y)) (begun i ord S)"
proof -
  note spec = rows_in_spec [OF assms holds_finite [OF assms]]
  show set: "set (begun i ord S) = {x \<in> S. oid x = i \<and> begin_order (win x) \<le> ord}"
    unfolding spec(1) begun_keys ..
  show "sorted_wrt (\<lambda>x y. begin_order (win x) < begin_order (win y)) (begun i ord S)"
    by (rule sorted_wrt_mono_rel [OF _ spec(3)]) (use set in \<open>auto simp: version_key_less\<close>)
qed

lemma scan_begun:
  assumes "fake_wf kv" "holds (fake_get kv) S"
  shows "fake_scan_range kv (obj i) (prefix_end (ver i ord)) Reverse (Some 1) =
    Inr (case rev (begun i ord S) of [] \<Rightarrow> [] | x # _ \<Rightarrow> [to_item (ver (oid x) (begin_order (win x)), enc x)])"
proof -
  from below_end [of i ord] obtain r where r: "prefix_end (ver i ord) = (space @ u64_to_be_bytes i) @ r"
    "\<And>k. length k = 17 \<Longrightarrow> k < r \<longleftrightarrow> k \<le> slash # order_as_bytes ord" by blast
  have "[slash] \<le> slash # order_as_bytes ord" using prefix_imp_le [of "[slash]" "slash # order_as_bytes ord"] by simp
  also have "slash # order_as_bytes ord < r" using r(2) by simp
  finally have le: "obj i \<le> prefix_end (ver i ord)" unfolding r(1) by (simp add: obj_law)
  have "prefix space k" if "obj i \<le> k" "k < prefix_end (ver i ord)" for k
    using common_prefix_range [of "space @ u64_to_be_bytes i" "[slash]" k r] that unfolding r(1)
    by (auto simp: obj_law dest: append_prefixD)
  from scan_range_rows [OF assms le this, where d = Reverse and lim = "Some 1"] show ?thesis
    by (cases "begun i ord S" rule: rev_cases) (simp_all add: limit_take_def)
qed

text \<open>The version of an object at an order, when it has one.\<close>

lemma last_begun:
  assumes "holds (fake_get kv) S" "versions_wf oid win S"
  shows "(case rev (begun i ord S) of [] \<Rightarrow> None | x # _ \<Rightarrow> if is_visible_at (win x) ord then Some x else None) = Some y \<longleftrightarrow>
    y \<in> S \<and> oid y = i \<and> is_visible_at (win y) ord"
proof -
  note spec = begun_spec [OF assms(1), of i ord]
  have iff: "x \<in> set (begun i ord S) \<longleftrightarrow> x \<in> S \<and> oid x = i \<and> begin_order (win x) \<le> ord" for x using spec(1) by auto
  show ?thesis
  proof (cases "begun i ord S" rule: rev_cases)
    case Nil
    then have "\<not> (y \<in> S \<and> oid y = i \<and> begin_order (win y) \<le> ord)" using iff [of y] by simp
    with Nil show ?thesis by (auto simp: is_visible_at_def)
  next
    case (snoc xs x)
    have x: "x \<in> S" "oid x = i" "begin_order (win x) \<le> ord" using iff [of x] snoc by simp_all
    have "y = x" if y: "y \<in> S" "oid y = i" "is_visible_at (win y) ord"
    proof (rule ccontr)
      assume "y \<noteq> x"
      moreover have "y \<in> set (begun i ord S)" using y by (auto simp: iff is_visible_at_def)
      ultimately have "begin_order (win y) < begin_order (win x)"
        using spec(2) by (auto simp: snoc sorted_wrt_append)
      from versions_wf_next [OF assms(2) y(1) x(1) _ this x(3)] x(2) y(2,3) show False by simp
    qed
    with x snoc show ?thesis by auto
  qed
qed

end

end
