(* ===== verification/Cat_Cursor.thy ===== *)
theory Cat_Cursor
  imports Cat_Rows
begin

text \<open>
  The cursor decoders shared by the row formats of schemas, tables, views and macros (\<open>decode_u32\<close>,
  \<open>decode_u64\<close>, \<open>decode_bool\<close>, \<open>decode_string\<close>, \<open>decode_optional_string\<close> of \<open>table_rows.rs\<close>, \<open>view_rows.rs\<close> and
  \<open>macro_rows.rs\<close>, and the variants of \<open>schema_rows.rs\<close>). A decoder of the code takes the bytes and a mutable
  offset; here the pair is the unread rest \<open>bytes[offset..]\<close>, and a decoder returns the rest it leaves. Offsets stay
  below the length of a slice, so the saturating and checked additions of the code are exact.
\<close>

type_synonym 'a reader = "bytes \<Rightarrow> ('a \<times> bytes) catalog_result"

definition read_raw :: "catalog_error \<Rightarrow> nat \<Rightarrow> bytes reader" where
  "read_raw err n bs = (if n > length bs then Inl err else Inr (take n bs, drop n bs))"

definition truncated :: "string \<Rightarrow> catalog_error" where
  "truncated field = Decode (field @ '' is truncated'')"

definition read_u32 :: "string \<Rightarrow> u32 reader" where
  "read_u32 field bs =
     rbind (read_raw (truncated field) 4 bs) (\<lambda>(raw, rest).
       rbind (be_u32 (truncated field) raw) (\<lambda>v. Inr (v, rest)))"

definition read_u64 :: "string \<Rightarrow> u64 reader" where
  "read_u64 field bs =
     rbind (read_raw (truncated field) 8 bs) (\<lambda>(raw, rest).
       rbind (be_u64 (truncated field) raw) (\<lambda>v. Inr (v, rest)))"

definition read_bool :: "string \<Rightarrow> bool reader" where
  "read_bool field bs =
     (case bs of
        [] \<Rightarrow> Inl (truncated field)
      | b # rest \<Rightarrow> if b = 0 then Inr (False, rest) else if b = 1 then Inr (True, rest)
          else Inl (Decode (field @ '' has invalid bool marker'')))"

definition read_string :: "string \<Rightarrow> rust_string reader" where
  "read_string field bs =
     rbind (read_u32 field bs) (\<lambda>(len, rest).
     rbind (read_raw (truncated field) (unat len) rest) (\<lambda>(raw, rest').
     rbind (str_from_utf8 (Decode (field @ '' is not utf8'')) raw) (\<lambda>s. Inr (s, rest'))))"

definition read_optional_string :: "string \<Rightarrow> rust_string option reader" where
  "read_optional_string field bs =
     rbind (read_bool field bs) (\<lambda>(present, rest).
       if present then rbind (read_string field rest) (\<lambda>(s, rest'). Inr (Some s, rest')) else Inr (None, rest))"

text \<open>\<open>for _ in 0..count { out.push(read(...)?) }\<close>.\<close>

fun read_many :: "nat \<Rightarrow> 'a reader \<Rightarrow> 'a list reader" where
  "read_many 0 rd bs = Inr ([], bs)"
| "read_many (Suc n) rd bs =
     rbind (rd bs) (\<lambda>(v, rest). rbind (read_many n rd rest) (\<lambda>(vs, rest'). Inr (v # vs, rest')))"

definition encode_string :: "rust_string \<Rightarrow> bytes" where
  "encode_string s = len_u32 s @ s"

definition encode_optional_string :: "rust_string option \<Rightarrow> bytes" where
  "encode_optional_string v = (case v of Some s \<Rightarrow> [1] @ encode_string s | None \<Rightarrow> [0])"

definition encode_bool :: "bool \<Rightarrow> bytes" where
  "encode_bool b = [if b then 1 else 0]"

definition encode_count :: "'a list \<Rightarrow> bytes" where
  "encode_count xs = u32_to_be_bytes (word_of_nat (length xs))"

section \<open>Codecs\<close>

text \<open>A codec: reading an encoded value gives the value back and leaves what follows it.\<close>

locale codec =
  fixes enc :: "'a \<Rightarrow> bytes" and ok :: "'a \<Rightarrow> bool" and rd :: "'a reader"
  assumes read_enc: "ok v \<Longrightarrow> rd (enc v @ rest) = Inr (v, rest)"
begin

lemma read_list:
  "list_all ok vs \<Longrightarrow> read_many (length vs) rd (concat (map enc vs) @ rest) = Inr (vs, rest)"
  by (induction vs) (simp_all add: read_enc)

lemma read_list_end: "list_all ok vs \<Longrightarrow> read_many (length vs) rd (concat (map enc vs)) = Inr (vs, [])"
  using read_list [of vs "[]"] by simp

lemma read_enc_end: "ok v \<Longrightarrow> rd (enc v) = Inr (v, [])"
  using read_enc [of v "[]"] by simp

end

lemma read_raw_append: "length xs = n \<Longrightarrow> read_raw err n (xs @ rest) = Inr (xs, rest)"
  by (simp add: read_raw_def)

lemma read_u32_enc [simp]: "read_u32 field (u32_to_be_bytes n @ rest) = Inr (n, rest)"
  by (simp add: read_u32_def read_raw_append be_u32_def)

lemma read_u64_enc [simp]: "read_u64 field (u64_to_be_bytes n @ rest) = Inr (n, rest)"
  by (simp add: read_u64_def read_raw_append be_u64_def)

lemma read_bool_enc [simp]: "read_bool field (encode_bool b @ rest) = Inr (b, rest)"
  by (simp add: read_bool_def encode_bool_def)

lemma read_count_enc [simp]:
  "length xs < 2 ^ 32 \<Longrightarrow> read_u32 field (encode_count xs @ rest) = Inr (word_of_nat (length xs), rest)"
  by (simp add: encode_count_def)

lemma unat_count: "length xs < 2 ^ 32 \<Longrightarrow> unat (word_of_nat (length xs) :: u32) = length xs"
  by (simp add: unat_of_nat take_bit_nat_eq_self)

interpretation str: codec encode_string string_ok "read_string field" for field
  by unfold_locales
     (simp add: read_string_def encode_string_def len_u32_def string_ok_def unat_count read_raw_append str_from_utf8_def)

interpretation opt_str: codec encode_optional_string "pred_option string_ok" "read_optional_string field" for field
proof
  fix v :: "rust_string option" and rest
  assume "pred_option string_ok v"
  then show "read_optional_string field (encode_optional_string v @ rest) = Inr (v, rest)"
    using str.read_enc [of _ field]
    by (cases v) (simp_all add: read_optional_string_def encode_optional_string_def read_bool_def)
qed

text \<open>Reading never runs out of bounds.\<close>

lemma readers_no_panic [simp]:
  "\<not> is_panic (read_raw (Decode m) n bs)" "\<not> is_panic (read_raw (truncated field) n bs)"
  "\<not> is_panic (read_u32 field bs)" "\<not> is_panic (read_u64 field bs)" "\<not> is_panic (read_bool field bs)"
  by (auto simp: read_raw_def truncated_def read_u32_def read_u64_def read_bool_def be_u32_def be_u64_def is_panic_rbind
      split: list.splits)

lemma read_string_no_panic [simp]:
  "\<not> is_panic (read_string field bs)" "\<not> is_panic (read_optional_string field bs)"
  by (auto simp: read_string_def read_optional_string_def is_panic_rbind str_from_utf8_def split: prod.splits if_splits)

lemma read_many_no_panic: "(\<And>bs. \<not> is_panic (rd bs)) \<Longrightarrow> \<not> is_panic (read_many n rd bs)"
  by (induction n arbitrary: bs) (auto simp: is_panic_rbind split: prod.splits)

end
