(* ===== verification/Cat_Object_Rows.thy ===== *)
theory Cat_Object_Rows
  imports Cat_Cursor
begin

text \<open>
  The stored rows of catalog objects: schemas (\<open>schema_rows.rs\<close>), tables with their columns, partitioning and
  sort order (\<open>table_rows.rs\<close>, \<open>table_partition_rows.rs\<close>, \<open>table_sort_rows.rs\<close>), views (\<open>view_rows.rs\<close>) and macros
  (\<open>macro_rows.rs\<close>). Every encoder and decoder is modelled with all versions it accepts; the last section proves that
  each row survives storage.
\<close>

section \<open>Schemas\<close>

record schema_row =
  sr_schema_id :: schema_id
  sr_parent_schema_id :: "schema_id option"
  sr_uuid :: rust_string
  sr_name :: rust_string
  sr_path :: rust_string
  sr_validity :: validity_window

definition schema_row_new ::
    "schema_id \<Rightarrow> rust_string \<Rightarrow> rust_string \<Rightarrow> rust_string \<Rightarrow> catalog_order_id \<Rightarrow> schema_row" where
  "schema_row_new schema_id uuid name path ord =
     \<lparr>sr_schema_id = schema_id, sr_parent_schema_id = None, sr_uuid = uuid, sr_name = name, sr_path = path,
      sr_validity = validity_new ord None\<rparr>"

definition schema_row_encode :: "schema_row \<Rightarrow> bytes" where
  "schema_row_encode r =
     [2] @ u64_to_be_bytes (sr_schema_id r) @ encode_stored_order (begin_order (sr_validity r)) @
     encode_optional_order (end_order (sr_validity r)) @
     encode_string (sr_uuid r) @ encode_string (sr_name r) @ encode_string (sr_path r) @
     (case sr_parent_schema_id r of Some p \<Rightarrow> [1] @ u64_to_be_bytes p | None \<Rightarrow> [0])"

text \<open>\<open>read_bytes\<close> of \<open>schema_rows.rs\<close> reports one message for every field.\<close>

definition schema_read_bytes :: "nat \<Rightarrow> bytes reader" where
  "schema_read_bytes n bs = read_raw (Decode ''truncated schema row'') n bs"

definition schema_read_u64 :: "string \<Rightarrow> u64 reader" where
  "schema_read_u64 field bs =
     rbind (schema_read_bytes 8 bs) (\<lambda>(raw, rest).
       rbind (be_u64 (Decode (''invalid '' @ field @ '' length'')) raw) (\<lambda>v. Inr (v, rest)))"

definition schema_read_u32 :: "string \<Rightarrow> u32 reader" where
  "schema_read_u32 field bs =
     rbind (schema_read_bytes 4 bs) (\<lambda>(raw, rest).
       rbind (be_u32 (Decode (''invalid '' @ field @ '' length'')) raw) (\<lambda>v. Inr (v, rest)))"

definition schema_read_string :: "string \<Rightarrow> rust_string reader" where
  "schema_read_string field bs =
     rbind (schema_read_u32 field bs) (\<lambda>(len, rest).
     rbind (schema_read_bytes (unat len) rest) (\<lambda>(raw, rest').
     rbind (str_from_utf8 (Decode (''invalid utf-8 in '' @ field)) raw) (\<lambda>s. Inr (s, rest'))))"

definition decode_schema_validity :: "validity_window reader" where
  "decode_schema_validity bs =
     rbind (schema_read_bytes stored_order_len bs) (\<lambda>(begin_raw, r1).
     rbind (decode_stored_order begin_raw) (\<lambda>b.
     rbind (schema_read_bytes 1 r1) (\<lambda>(marker, r2).
     rbind (case marker of [] \<Rightarrow> Inl (Decode ''missing schema end marker'') | m # _ \<Rightarrow> Inr m) (\<lambda>has_end.
     rbind (schema_read_bytes stored_order_len r2) (\<lambda>(end_raw, r3).
     rbind (decode_stored_order end_raw) (\<lambda>e.
       if has_end = 0 then Inr (validity_new b None, r3)
       else if has_end = 1 then Inr (validity_new b (Some e), r3)
       else Inl (Decode ''invalid schema end marker'')))))))"

definition decode_parent_schema :: "byte \<Rightarrow> bytes \<Rightarrow> schema_id option catalog_result" where
  "decode_parent_schema version bs =
     rbind (if version = 1 then Inr (None, bs)
            else rbind (schema_read_bytes 1 bs) (\<lambda>(marker, rest).
              rbind (byte_at marker 0) (\<lambda>m.
                if m = 0 then Inr (None, rest)
                else if m = 1
                then rbind (schema_read_u64 ''parent schema id'' rest) (\<lambda>(p, rest'). Inr (Some p, rest'))
                else Inl (Decode ''invalid parent schema marker'')))) (\<lambda>(parent, rest).
       if rest \<noteq> [] \<and> \<not> (version = 1 \<and> rest = [10, 0, 0, 0])
       then Inl (Decode ''trailing schema row bytes'') else Inr parent)"

definition schema_row_decode :: "bytes \<Rightarrow> schema_row catalog_result" where
  "schema_row_decode bs =
     (case bs of
        [] \<Rightarrow> Inl (Decode ''empty schema row'')
      | version # body \<Rightarrow>
          if version \<noteq> 1 \<and> version \<noteq> 2 then Inl (Decode ''unsupported schema row version'')
          else
            rbind (schema_read_u64 ''schema_id'' body) (\<lambda>(schema_id, r1).
            rbind (decode_schema_validity r1) (\<lambda>(validity, r2).
            rbind (schema_read_string ''schema uuid'' r2) (\<lambda>(uuid, r3).
            rbind (schema_read_string ''schema name'' r3) (\<lambda>(name, r4).
            rbind (schema_read_string ''schema path'' r4) (\<lambda>(path, r5).
            rbind (decode_parent_schema version r5) (\<lambda>parent.
              Inr \<lparr>sr_schema_id = schema_id, sr_parent_schema_id = parent, sr_uuid = uuid, sr_name = name,
                   sr_path = path, sr_validity = validity\<rparr>)))))))"

section \<open>The common head of table, view and macro rows\<close>

text \<open>Version, object id, schema id, begin order, end marker and end order: 52 bytes, checked as a whole and then
  read at fixed offsets.\<close>

definition encode_object_head :: "byte \<Rightarrow> u64 \<Rightarrow> schema_id \<Rightarrow> validity_window \<Rightarrow> bytes" where
  "encode_object_head version oid schema_id w =
     [version] @ u64_to_be_bytes oid @ u64_to_be_bytes schema_id @ encode_stored_order (begin_order w) @
     encode_optional_order (end_order w)"

definition decode_object_head :: "string \<Rightarrow> byte \<Rightarrow> bytes \<Rightarrow> (u64 \<times> schema_id \<times> validity_window \<times> bytes) catalog_result" where
  "decode_object_head what version bs =
     (case bs of
        [] \<Rightarrow> Inl (Decode (what @ '' row is too short: 0 bytes''))
      | v # _ \<Rightarrow>
          if v \<noteq> version then Inl (Decode (''unsupported '' @ what @ '' row version''))
          else if length bs < 1 + 8 + 8 + stored_order_len + 1 + stored_order_len
          then Inl (Decode (what @ '' row is too short''))
          else
            rbind (decode_u64_at (Decode (what @ '' id is truncated'')) bs 1) (\<lambda>oid.
            rbind (decode_u64_at (Decode ''schema id is truncated'') bs 9) (\<lambda>schema_id.
            rbind (slice bs 17 34) (\<lambda>begin_raw.
            rbind (decode_stored_order begin_raw) (\<lambda>b.
            rbind (decode_optional_order (Decode (''invalid '' @ what @ '' end-order marker'')) bs 34) (\<lambda>e.
            rbind (slice_from bs 52) (\<lambda>rest.
              Inr (oid, schema_id, validity_new b e, rest))))))))"

section \<open>Tables\<close>

record table_column_row =
  tc_column_id :: column_id
  tc_name :: rust_string
  tc_column_type :: rust_string
  tc_nulls_allowed :: bool
  tc_parent_id :: "column_id option"
  tc_comment :: "rust_string option"
  tc_initial_default :: "rust_string option"
  tc_default_value :: "rust_string option"
  tc_default_value_type :: rust_string
  tc_created_with_table :: bool

definition table_column_row_new ::
    "column_id \<Rightarrow> rust_string \<Rightarrow> rust_string \<Rightarrow> bool \<Rightarrow> column_id option \<Rightarrow> table_column_row" where
  "table_column_row_new column_id name column_type nulls_allowed parent_id =
     \<lparr>tc_column_id = column_id, tc_name = name, tc_column_type = column_type, tc_nulls_allowed = nulls_allowed,
      tc_parent_id = parent_id, tc_comment = None, tc_initial_default = None, tc_default_value = None,
      tc_default_value_type = ascii ''literal'', tc_created_with_table = True\<rparr>"

definition tc_with_comment :: "table_column_row \<Rightarrow> rust_string option \<Rightarrow> table_column_row" where
  "tc_with_comment col comment = col\<lparr>tc_comment := comment\<rparr>"

definition tc_with_default_metadata ::
    "table_column_row \<Rightarrow> rust_string option \<Rightarrow> rust_string option \<Rightarrow> rust_string \<Rightarrow> table_column_row" where
  "tc_with_default_metadata col initial_default default_value default_value_type =
     col\<lparr>tc_initial_default := initial_default, tc_default_value := default_value,
         tc_default_value_type := default_value_type\<rparr>"

definition tc_with_created_with_table :: "table_column_row \<Rightarrow> bool \<Rightarrow> table_column_row" where
  "tc_with_created_with_table col created = col\<lparr>tc_created_with_table := created\<rparr>"

record inlined_table_row =
  it_table_name :: rust_string
  it_schema_version :: u64

record table_partition_field_row =
  pf_partition_key_index :: u64
  pf_column_id :: column_id
  pf_transform :: rust_string

record table_partition_row =
  tp_partition_id :: u64
  tp_fields :: "table_partition_field_row list"

record table_sort_field_row =
  sf_sort_key_index :: u64
  sf_expression :: rust_string
  sf_dialect :: rust_string
  sf_sort_direction :: rust_string
  sf_null_order :: rust_string

record table_sort_row =
  ts_sort_id :: u64
  ts_fields :: "table_sort_field_row list"

record table_row =
  tr_table_id :: table_id
  tr_schema_id :: schema_id
  tr_uuid :: rust_string
  tr_name :: rust_string
  tr_path :: rust_string
  tr_comment :: "rust_string option"
  tr_columns :: "table_column_row list"
  tr_inlined_data_tables :: "inlined_table_row list"
  tr_partition :: "table_partition_row option"
  tr_sort :: "table_sort_row option"
  tr_validity :: validity_window

definition table_row_new :: "table_id \<Rightarrow> rust_string \<Rightarrow> catalog_order_id \<Rightarrow> table_row" where
  "table_row_new table_id name ord =
     \<lparr>tr_table_id = table_id, tr_schema_id = 0, tr_uuid = [], tr_name = name, tr_path = [], tr_comment = None,
      tr_columns = [], tr_inlined_data_tables = [], tr_partition = None, tr_sort = None,
      tr_validity = validity_new ord None\<rparr>"

definition table_row_with_catalog_metadata ::
    "table_id \<Rightarrow> schema_id \<Rightarrow> rust_string \<Rightarrow> rust_string \<Rightarrow> rust_string \<Rightarrow> table_column_row list \<Rightarrow>
     catalog_order_id \<Rightarrow> table_row" where
  "table_row_with_catalog_metadata table_id schema_id uuid name path columns ord =
     \<lparr>tr_table_id = table_id, tr_schema_id = schema_id, tr_uuid = uuid, tr_name = name, tr_path = path,
      tr_comment = None, tr_columns = columns, tr_inlined_data_tables = [], tr_partition = None, tr_sort = None,
      tr_validity = validity_new ord None\<rparr>"

definition same_user_visible_schema_as :: "table_row \<Rightarrow> table_row \<Rightarrow> bool" where
  "same_user_visible_schema_as l r \<longleftrightarrow>
     l\<lparr>tr_validity := tr_validity r, tr_inlined_data_tables := []\<rparr> = r\<lparr>tr_inlined_data_tables := []\<rparr>"

definition encode_column :: "table_column_row \<Rightarrow> bytes" where
  "encode_column col =
     u64_to_be_bytes (tc_column_id col) @ encode_bool (tc_nulls_allowed col) @ encode_optional_u64 (tc_parent_id col) @
     encode_string (tc_name col) @ encode_string (tc_column_type col) @ encode_optional_string (tc_comment col) @
     encode_optional_string (tc_initial_default col) @ encode_optional_string (tc_default_value col) @
     encode_string (tc_default_value_type col) @ encode_bool (tc_created_with_table col)"

definition encode_inlined_table :: "inlined_table_row \<Rightarrow> bytes" where
  "encode_inlined_table t = encode_string (it_table_name t) @ u64_to_be_bytes (it_schema_version t)"

definition encode_partition_field :: "table_partition_field_row \<Rightarrow> bytes" where
  "encode_partition_field f =
     u64_to_be_bytes (pf_partition_key_index f) @ u64_to_be_bytes (pf_column_id f) @ encode_string (pf_transform f)"

definition encode_partition :: "table_partition_row option \<Rightarrow> bytes" where
  "encode_partition p =
     (case p of
        Some q \<Rightarrow> [1] @ u64_to_be_bytes (tp_partition_id q) @ encode_count (tp_fields q) @
          concat (map encode_partition_field (tp_fields q))
      | None \<Rightarrow> [0])"

definition encode_sort_field :: "table_sort_field_row \<Rightarrow> bytes" where
  "encode_sort_field f =
     u64_to_be_bytes (sf_sort_key_index f) @ encode_string (sf_expression f) @ encode_string (sf_dialect f) @
     encode_string (sf_sort_direction f) @ encode_string (sf_null_order f)"

definition encode_sort :: "table_sort_row option \<Rightarrow> bytes" where
  "encode_sort p =
     (case p of
        Some q \<Rightarrow> [1] @ u64_to_be_bytes (ts_sort_id q) @ encode_count (ts_fields q) @
          concat (map encode_sort_field (ts_fields q))
      | None \<Rightarrow> [0])"

definition table_row_encode :: "table_row \<Rightarrow> bytes" where
  "table_row_encode r =
     encode_object_head 8 (tr_table_id r) (tr_schema_id r) (tr_validity r) @
     encode_string (tr_uuid r) @ encode_string (tr_name r) @ encode_string (tr_path r) @
     encode_optional_string (tr_comment r) @
     encode_count (tr_columns r) @ concat (map encode_column (tr_columns r)) @
     encode_count (tr_inlined_data_tables r) @ concat (map encode_inlined_table (tr_inlined_data_tables r)) @
     encode_partition (tr_partition r) @ encode_sort (tr_sort r)"

definition read_column :: "table_column_row reader" where
  "read_column bs =
     rbind (read_u64 ''column id'' bs) (\<lambda>(column_id, r1).
     rbind (read_bool ''column nulls_allowed'' r1) (\<lambda>(nulls_allowed, r2).
     rbind (read_bool ''column parent marker'' r2) (\<lambda>(has_parent, r3).
     rbind (read_u64 ''column parent id'' r3) (\<lambda>(parent_value, r4).
     rbind (read_string ''column name'' r4) (\<lambda>(name, r5).
     rbind (read_string ''column type'' r5) (\<lambda>(column_type, r6).
     rbind (read_optional_string ''column comment'' r6) (\<lambda>(comment, r7).
     rbind (read_optional_string ''column initial default'' r7) (\<lambda>(initial_default, r8).
     rbind (read_optional_string ''column default value'' r8) (\<lambda>(default_value, r9).
     rbind (read_string ''column default value type'' r9) (\<lambda>(default_value_type, r10).
     rbind (read_bool ''column created with table'' r10) (\<lambda>(created, r11).
       Inr (tc_with_created_with_table
              (tc_with_comment
                (tc_with_default_metadata
                  (table_column_row_new column_id name column_type nulls_allowed
                    (if has_parent then Some parent_value else None))
                  initial_default default_value default_value_type) comment) created, r11))))))))))))"

definition read_inlined_table :: "inlined_table_row reader" where
  "read_inlined_table bs =
     rbind (read_string ''inlined table name'' bs) (\<lambda>(name, r1).
     rbind (read_u64 ''inlined table schema version'' r1) (\<lambda>(version, r2).
       Inr (\<lparr>it_table_name = name, it_schema_version = version\<rparr>, r2)))"

definition read_partition_field :: "table_partition_field_row reader" where
  "read_partition_field bs =
     rbind (read_u64 ''table partition key index'' bs) (\<lambda>(index, r1).
     rbind (read_u64 ''table partition column id'' r1) (\<lambda>(column_id, r2).
     rbind (read_string ''table partition transform'' r2) (\<lambda>(transform, r3).
       Inr (\<lparr>pf_partition_key_index = index, pf_column_id = column_id, pf_transform = transform\<rparr>, r3))))"

definition read_partition :: "table_partition_row option reader" where
  "read_partition bs =
     rbind (read_bool ''table partition marker'' bs) (\<lambda>(present, r1).
       if \<not> present then Inr (None, r1)
       else
         rbind (read_u64 ''table partition id'' r1) (\<lambda>(pid, r2).
         rbind (read_u32 ''table partition field count'' r2) (\<lambda>(count, r3).
         rbind (read_many (unat count) read_partition_field r3) (\<lambda>(fields, r4).
           Inr (Some \<lparr>tp_partition_id = pid, tp_fields = fields\<rparr>, r4)))))"

definition read_sort_field :: "table_sort_field_row reader" where
  "read_sort_field bs =
     rbind (read_u64 ''table sort key index'' bs) (\<lambda>(index, r1).
     rbind (read_string ''table sort expression'' r1) (\<lambda>(expression, r2).
     rbind (read_string ''table sort dialect'' r2) (\<lambda>(dialect, r3).
     rbind (read_string ''table sort direction'' r3) (\<lambda>(direction, r4).
     rbind (read_string ''table sort null order'' r4) (\<lambda>(null_order, r5).
       Inr (\<lparr>sf_sort_key_index = index, sf_expression = expression, sf_dialect = dialect,
            sf_sort_direction = direction, sf_null_order = null_order\<rparr>, r5))))))"

definition read_sort :: "table_sort_row option reader" where
  "read_sort bs =
     rbind (read_bool ''table sort marker'' bs) (\<lambda>(present, r1).
       if \<not> present then Inr (None, r1)
       else
         rbind (read_u64 ''table sort id'' r1) (\<lambda>(sid, r2).
         rbind (read_u32 ''table sort field count'' r2) (\<lambda>(count, r3).
         rbind (read_many (unat count) read_sort_field r3) (\<lambda>(fields, r4).
           Inr (Some \<lparr>ts_sort_id = sid, ts_fields = fields\<rparr>, r4)))))"

definition table_row_decode :: "bytes \<Rightarrow> table_row catalog_result" where
  "table_row_decode bs =
     rbind (decode_object_head ''table'' 8 bs) (\<lambda>(table_id, schema_id, validity, r0).
     rbind (read_string ''table uuid'' r0) (\<lambda>(uuid, r1).
     rbind (read_string ''table name'' r1) (\<lambda>(name, r2).
     rbind (read_string ''table path'' r2) (\<lambda>(path, r3).
     rbind (read_optional_string ''table comment'' r3) (\<lambda>(comment, r4).
     rbind (read_u32 ''column count'' r4) (\<lambda>(column_count, r5).
     rbind (read_many (unat column_count) read_column r5) (\<lambda>(columns, r6).
     rbind (read_u32 ''inlined table count'' r6) (\<lambda>(inlined_count, r7).
     rbind (read_many (unat inlined_count) read_inlined_table r7) (\<lambda>(inlined, r8).
     rbind (read_partition r8) (\<lambda>(partition, r9).
     rbind (read_sort r9) (\<lambda>(sort, r10).
       Inr \<lparr>tr_table_id = table_id, tr_schema_id = schema_id, tr_uuid = uuid, tr_name = name, tr_path = path,
            tr_comment = comment, tr_columns = columns, tr_inlined_data_tables = inlined, tr_partition = partition,
            tr_sort = sort, tr_validity = validity\<rparr>)))))))))))"

section \<open>Views\<close>

record view_row =
  vr_view_id :: table_id
  vr_schema_id :: schema_id
  vr_uuid :: rust_string
  vr_name :: rust_string
  vr_dialect :: rust_string
  vr_sql :: rust_string
  vr_column_aliases :: "rust_string list"
  vr_comment :: "rust_string option"
  vr_validity :: validity_window

record view_definition =
  vd_uuid :: rust_string
  vd_name :: rust_string
  vd_dialect :: rust_string
  vd_sql :: rust_string
  vd_column_aliases :: "rust_string list"

definition view_row_new :: "table_id \<Rightarrow> schema_id \<Rightarrow> view_definition \<Rightarrow> catalog_order_id \<Rightarrow> view_row" where
  "view_row_new view_id schema_id d ord =
     \<lparr>vr_view_id = view_id, vr_schema_id = schema_id, vr_uuid = vd_uuid d, vr_name = vd_name d,
      vr_dialect = vd_dialect d, vr_sql = vd_sql d, vr_column_aliases = vd_column_aliases d, vr_comment = None,
      vr_validity = validity_new ord None\<rparr>"

definition vr_with_comment :: "view_row \<Rightarrow> rust_string option \<Rightarrow> view_row" where
  "vr_with_comment r comment = r\<lparr>vr_comment := comment\<rparr>"

definition view_row_encode :: "view_row \<Rightarrow> bytes" where
  "view_row_encode r =
     encode_object_head 1 (vr_view_id r) (vr_schema_id r) (vr_validity r) @
     encode_string (vr_uuid r) @ encode_string (vr_name r) @ encode_string (vr_dialect r) @ encode_string (vr_sql r) @
     encode_optional_string (vr_comment r) @
     encode_count (vr_column_aliases r) @ concat (map encode_string (vr_column_aliases r))"

definition view_row_decode :: "bytes \<Rightarrow> view_row catalog_result" where
  "view_row_decode bs =
     rbind (decode_object_head ''view'' 1 bs) (\<lambda>(view_id, schema_id, validity, r0).
     rbind (read_string ''view uuid'' r0) (\<lambda>(uuid, r1).
     rbind (read_string ''view name'' r1) (\<lambda>(name, r2).
     rbind (read_string ''view dialect'' r2) (\<lambda>(dialect, r3).
     rbind (read_string ''view sql'' r3) (\<lambda>(sql, r4).
     rbind (read_optional_string ''view comment'' r4) (\<lambda>(comment, r5).
     rbind (read_u32 ''view alias count'' r5) (\<lambda>(alias_count, r6).
     rbind (read_many (unat alias_count) (read_string ''view alias'') r6) (\<lambda>(aliases, r7).
       Inr \<lparr>vr_view_id = view_id, vr_schema_id = schema_id, vr_uuid = uuid, vr_name = name, vr_dialect = dialect,
            vr_sql = sql, vr_column_aliases = aliases, vr_comment = comment, vr_validity = validity\<rparr>))))))))"

section \<open>Macros\<close>

record macro_parameter_row =
  mp_parameter_name :: rust_string
  mp_parameter_type :: rust_string
  mp_default_value :: rust_string
  mp_default_value_type :: rust_string

record macro_implementation_row =
  mi_dialect :: rust_string
  mi_sql :: rust_string
  mi_macro_type :: rust_string
  mi_parameters :: "macro_parameter_row list"

record macro_row =
  mr_macro_id :: macro_id
  mr_schema_id :: schema_id
  mr_name :: rust_string
  mr_implementations :: "macro_implementation_row list"
  mr_validity :: validity_window

definition macro_row_new ::
    "macro_id \<Rightarrow> schema_id \<Rightarrow> rust_string \<Rightarrow> macro_implementation_row list \<Rightarrow> catalog_order_id \<Rightarrow> macro_row" where
  "macro_row_new macro_id schema_id name implementations ord =
     \<lparr>mr_macro_id = macro_id, mr_schema_id = schema_id, mr_name = name, mr_implementations = implementations,
      mr_validity = validity_new ord None\<rparr>"

definition encode_macro_parameter :: "macro_parameter_row \<Rightarrow> bytes" where
  "encode_macro_parameter p =
     encode_string (mp_parameter_name p) @ encode_string (mp_parameter_type p) @
     encode_string (mp_default_value p) @ encode_string (mp_default_value_type p)"

definition encode_implementation :: "macro_implementation_row \<Rightarrow> bytes" where
  "encode_implementation i =
     encode_string (mi_dialect i) @ encode_string (mi_sql i) @ encode_string (mi_macro_type i) @
     encode_count (mi_parameters i) @ concat (map encode_macro_parameter (mi_parameters i))"

definition macro_row_encode :: "macro_row \<Rightarrow> bytes" where
  "macro_row_encode r =
     encode_object_head 1 (mr_macro_id r) (mr_schema_id r) (mr_validity r) @ encode_string (mr_name r) @
     encode_count (mr_implementations r) @ concat (map encode_implementation (mr_implementations r))"

definition read_macro_parameter :: "macro_parameter_row reader" where
  "read_macro_parameter bs =
     rbind (read_string ''macro parameter name'' bs) (\<lambda>(name, r1).
     rbind (read_string ''macro parameter type'' r1) (\<lambda>(type, r2).
     rbind (read_string ''macro parameter default value'' r2) (\<lambda>(default_value, r3).
     rbind (read_string ''macro parameter default type'' r3) (\<lambda>(default_type, r4).
       Inr (\<lparr>mp_parameter_name = name, mp_parameter_type = type, mp_default_value = default_value,
            mp_default_value_type = default_type\<rparr>, r4)))))"

definition decode_implementation :: "macro_implementation_row reader" where
  "decode_implementation bs =
     rbind (read_string ''macro dialect'' bs) (\<lambda>(dialect, r1).
     rbind (read_string ''macro sql'' r1) (\<lambda>(sql, r2).
     rbind (read_string ''macro type'' r2) (\<lambda>(macro_type, r3).
     rbind (read_u32 ''macro parameter count'' r3) (\<lambda>(count, r4).
     rbind (read_many (unat count) read_macro_parameter r4) (\<lambda>(parameters, r5).
       Inr (\<lparr>mi_dialect = dialect, mi_sql = sql, mi_macro_type = macro_type, mi_parameters = parameters\<rparr>, r5))))))"

definition macro_row_decode :: "bytes \<Rightarrow> macro_row catalog_result" where
  "macro_row_decode bs =
     rbind (decode_object_head ''macro'' 1 bs) (\<lambda>(macro_id, schema_id, validity, r0).
     rbind (read_string ''macro name'' r0) (\<lambda>(name, r1).
     rbind (read_u32 ''macro implementation count'' r1) (\<lambda>(count, r2).
     rbind (read_many (unat count) decode_implementation r2) (\<lambda>(implementations, r3).
       Inr \<lparr>mr_macro_id = macro_id, mr_schema_id = schema_id, mr_name = name, mr_implementations = implementations,
            mr_validity = validity\<rparr>))))"

section \<open>Rows survive storage\<close>

text \<open>What a row must satisfy to be stored without loss: strings are UTF-8 and, like lists, shorter than 2 ^ 32.\<close>

definition column_ok :: "table_column_row \<Rightarrow> bool" where
  "column_ok col \<longleftrightarrow> string_ok (tc_name col) \<and> string_ok (tc_column_type col) \<and> pred_option string_ok (tc_comment col) \<and>
     pred_option string_ok (tc_initial_default col) \<and> pred_option string_ok (tc_default_value col) \<and>
     string_ok (tc_default_value_type col)"

definition partition_ok :: "table_partition_row \<Rightarrow> bool" where
  "partition_ok p \<longleftrightarrow> length (tp_fields p) < 2 ^ 32 \<and> list_all (\<lambda>f. string_ok (pf_transform f)) (tp_fields p)"

definition sort_field_ok :: "table_sort_field_row \<Rightarrow> bool" where
  "sort_field_ok f \<longleftrightarrow> string_ok (sf_expression f) \<and> string_ok (sf_dialect f) \<and> string_ok (sf_sort_direction f) \<and>
     string_ok (sf_null_order f)"

definition sort_ok :: "table_sort_row \<Rightarrow> bool" where
  "sort_ok p \<longleftrightarrow> length (ts_fields p) < 2 ^ 32 \<and> list_all sort_field_ok (ts_fields p)"

definition schema_row_ok :: "schema_row \<Rightarrow> bool" where
  "schema_row_ok r \<longleftrightarrow> string_ok (sr_uuid r) \<and> string_ok (sr_name r) \<and> string_ok (sr_path r)"

definition table_row_ok :: "table_row \<Rightarrow> bool" where
  "table_row_ok r \<longleftrightarrow> string_ok (tr_uuid r) \<and> string_ok (tr_name r) \<and> string_ok (tr_path r) \<and>
     pred_option string_ok (tr_comment r) \<and>
     length (tr_columns r) < 2 ^ 32 \<and> list_all column_ok (tr_columns r) \<and>
     length (tr_inlined_data_tables r) < 2 ^ 32 \<and>
     list_all (\<lambda>t. string_ok (it_table_name t)) (tr_inlined_data_tables r) \<and>
     pred_option partition_ok (tr_partition r) \<and> pred_option sort_ok (tr_sort r)"

definition view_row_ok :: "view_row \<Rightarrow> bool" where
  "view_row_ok r \<longleftrightarrow> string_ok (vr_uuid r) \<and> string_ok (vr_name r) \<and> string_ok (vr_dialect r) \<and> string_ok (vr_sql r) \<and>
     pred_option string_ok (vr_comment r) \<and>
     length (vr_column_aliases r) < 2 ^ 32 \<and> list_all string_ok (vr_column_aliases r)"

definition macro_parameter_ok :: "macro_parameter_row \<Rightarrow> bool" where
  "macro_parameter_ok p \<longleftrightarrow> string_ok (mp_parameter_name p) \<and> string_ok (mp_parameter_type p) \<and>
     string_ok (mp_default_value p) \<and> string_ok (mp_default_value_type p)"

definition implementation_ok :: "macro_implementation_row \<Rightarrow> bool" where
  "implementation_ok i \<longleftrightarrow> string_ok (mi_dialect i) \<and> string_ok (mi_sql i) \<and> string_ok (mi_macro_type i) \<and>
     length (mi_parameters i) < 2 ^ 32 \<and> list_all macro_parameter_ok (mi_parameters i)"

definition macro_row_ok :: "macro_row \<Rightarrow> bool" where
  "macro_row_ok r \<longleftrightarrow> string_ok (mr_name r) \<and> length (mr_implementations r) < 2 ^ 32 \<and>
     list_all implementation_ok (mr_implementations r)"

lemmas string_reads = str.read_enc opt_str.read_enc str.read_enc_end opt_str.read_enc_end

lemma read_optional_u64_parts:
  "read_bool f (encode_optional_u64 v @ rest) = Inr (v \<noteq> None, u64_to_be_bytes ((case v of Some n \<Rightarrow> n | None \<Rightarrow> 0)) @ rest)"
  by (cases v) (simp_all add: encode_optional_u64_def read_bool_def)

interpretation column: codec encode_column column_ok read_column
  by unfold_locales
     (auto simp: read_column_def encode_column_def column_ok_def string_reads read_optional_u64_parts
       table_column_row_new_def tc_with_comment_def tc_with_default_metadata_def tc_with_created_with_table_def
       split: option.splits intro!: table_column_row.equality)

interpretation inlined_table: codec encode_inlined_table "\<lambda>t. string_ok (it_table_name t)" read_inlined_table
  by unfold_locales (simp add: read_inlined_table_def encode_inlined_table_def string_reads)

interpretation partition_field: codec encode_partition_field "\<lambda>f. string_ok (pf_transform f)" read_partition_field
  by unfold_locales (simp add: read_partition_field_def encode_partition_field_def string_reads)

interpretation sort_field: codec encode_sort_field sort_field_ok read_sort_field
  by unfold_locales (simp add: read_sort_field_def encode_sort_field_def sort_field_ok_def string_reads)

lemma read_marker [simp]:
  "read_bool f (1 # rest) = Inr (True, rest)" "read_bool f (0 # rest) = Inr (False, rest)"
  by (simp_all add: read_bool_def)

interpretation partition: codec encode_partition "pred_option partition_ok" read_partition
  by unfold_locales
     (auto simp: read_partition_def encode_partition_def partition_ok_def unat_count partition_field.read_list
       split: option.splits)

interpretation sort: codec encode_sort "pred_option sort_ok" read_sort
  by unfold_locales
     (auto simp: read_sort_def encode_sort_def sort_ok_def unat_count sort_field.read_list split: option.splits)

interpretation macro_parameter: codec encode_macro_parameter macro_parameter_ok read_macro_parameter
  by unfold_locales (simp add: read_macro_parameter_def encode_macro_parameter_def macro_parameter_ok_def string_reads)

interpretation implementation: codec encode_implementation implementation_ok decode_implementation
  by unfold_locales
     (simp add: decode_implementation_def encode_implementation_def implementation_ok_def string_reads unat_count
       macro_parameter.read_list)

lemma slice_from_0 [simp]: "slice_from bs 0 = Inr bs"
  using slice_from_field [of "[]" 0 bs] by simp

lemma decode_object_head_encode:
  "decode_object_head what v (encode_object_head v oid sid w @ rest) = Inr (oid, sid, w, rest)"
  by (cases w)
     (simp add: decode_object_head_def encode_object_head_def row_read validity_new_def)

lemma schema_read_string_encode:
  "string_ok s \<Longrightarrow> schema_read_string f (encode_string s @ rest) = Inr (s, rest)"
  by (simp add: schema_read_string_def schema_read_u32_def schema_read_bytes_def encode_string_def len_u32_def
      read_raw_append be_u32_def string_ok_def unat_count str_from_utf8_def)

lemma schema_read_u64_encode: "schema_read_u64 f (u64_to_be_bytes n @ rest) = Inr (n, rest)"
  by (simp add: schema_read_u64_def schema_read_bytes_def read_raw_append be_u64_def)

lemma decode_schema_validity_encode:
  "decode_schema_validity (encode_stored_order (begin_order w) @ encode_optional_order (end_order w) @ rest) =
     Inr (w, rest)"
  by (cases w)
     (simp add: decode_schema_validity_def schema_read_bytes_def read_raw_append stored_order_len_def validity_new_def
       encode_optional_order_def read_raw_def split: option.splits)

lemma schema_row_roundtrip: "schema_row_ok r \<Longrightarrow> schema_row_decode (schema_row_encode r) = Inr r"
  by (simp add: schema_row_decode_def schema_row_encode_def schema_row_ok_def schema_read_u64_encode
      schema_read_string_encode decode_schema_validity_encode)
     (simp add: decode_parent_schema_def schema_read_bytes_def read_raw_def byte_at_def schema_read_u64_encode [of _ _ "[]", simplified]
      split: option.splits)

lemma table_row_roundtrip: "table_row_ok r \<Longrightarrow> table_row_decode (table_row_encode r) = Inr r"
  by (simp add: table_row_decode_def table_row_encode_def table_row_ok_def decode_object_head_encode string_reads
      unat_count column.read_list inlined_table.read_list partition.read_enc sort.read_enc_end)

lemma view_row_roundtrip: "view_row_ok r \<Longrightarrow> view_row_decode (view_row_encode r) = Inr r"
  by (simp add: view_row_decode_def view_row_encode_def view_row_ok_def decode_object_head_encode string_reads
      unat_count str.read_list_end)

lemma macro_row_roundtrip: "macro_row_ok r \<Longrightarrow> macro_row_decode (macro_row_encode r) = Inr r"
  by (simp add: macro_row_decode_def macro_row_encode_def macro_row_ok_def decode_object_head_encode string_reads
      unat_count implementation.read_list_end)

text \<open>Corrupt or truncated bytes are an error, never an index out of bounds.\<close>

lemma is_panic_split_bind:
  "\<not> is_panic r \<Longrightarrow> (\<And>v rest. \<not> is_panic (f v rest)) \<Longrightarrow> \<not> is_panic (rbind r (\<lambda>(v, rest). f v rest))"
  by (auto simp: is_panic_rbind split: prod.splits)

lemma is_panic_if: "\<not> is_panic a \<Longrightarrow> \<not> is_panic b \<Longrightarrow> \<not> is_panic (if c then a else b)"
  by simp

lemma is_panic_case_prod: "(\<And>a b. \<not> is_panic (f a b)) \<Longrightarrow> \<not> is_panic (case p of (a, b) \<Rightarrow> f a b)"
  by (cases p) simp

lemmas reader_no_panic = is_panic_split_bind read_many_no_panic is_panic_if is_panic_case_prod

lemma object_part_readers_no_panic [simp]:
  "\<not> is_panic (read_column bs)" "\<not> is_panic (read_inlined_table bs)" "\<not> is_panic (read_partition_field bs)"
  "\<not> is_panic (read_sort_field bs)" "\<not> is_panic (read_macro_parameter bs)"
  unfolding read_column_def read_inlined_table_def read_partition_field_def read_sort_field_def read_macro_parameter_def
  by (intro reader_no_panic; simp)+

lemma object_group_readers_no_panic [simp]:
  "\<not> is_panic (read_partition bs)" "\<not> is_panic (read_sort bs)" "\<not> is_panic (decode_implementation bs)"
  unfolding read_partition_def read_sort_def decode_implementation_def
  by (intro reader_no_panic; simp)+

lemma decode_object_head_no_panic [simp]: "\<not> is_panic (decode_object_head what v bs)"
  by (auto simp: decode_object_head_def is_panic_rbind stored_order_len_def no_panic_fields split: list.splits)

lemma object_row_decoders_no_panic:
  "\<not> is_panic (table_row_decode bs)" "\<not> is_panic (view_row_decode bs)" "\<not> is_panic (macro_row_decode bs)"
  unfolding table_row_decode_def view_row_decode_def macro_row_decode_def
  by (intro reader_no_panic; simp)+

lemma schema_readers_no_panic [simp]:
  "\<not> is_panic (schema_read_bytes n bs)" "\<not> is_panic (schema_read_u64 f bs)" "\<not> is_panic (schema_read_u32 f bs)"
  "\<not> is_panic (schema_read_string f bs)"
  by (auto simp: schema_read_bytes_def schema_read_u64_def schema_read_u32_def schema_read_string_def is_panic_rbind
      split: prod.splits)

lemma schema_read_bytes_length: "schema_read_bytes n bs = Inr (raw, rest) \<Longrightarrow> length raw = n"
  by (auto simp: schema_read_bytes_def read_raw_def split: if_splits)

lemma schema_row_decode_no_panic: "\<not> is_panic (schema_row_decode bs)"
proof -
  have "\<not> is_panic (decode_schema_validity bs')" for bs'
    by (auto simp: decode_schema_validity_def is_panic_rbind split: prod.splits list.splits)
  moreover have "\<not> is_panic (decode_parent_schema v bs')" for v bs'
    by (auto simp: decode_parent_schema_def is_panic_rbind split: prod.splits dest!: schema_read_bytes_length)
  ultimately show ?thesis
    by (auto simp: schema_row_decode_def is_panic_rbind split: prod.splits list.splits)
qed

text \<open>C25: Object rows survive storage: a schema, table, view or macro row whose strings are UTF-8 and whose strings
  and lists are shorter than 2 ^ 32 is decoded from its encoding exactly, with all columns, inlined tables, partition
  and sort fields, macro implementations and parameters.\<close>
theorem object_rows_roundtrip:
  assumes "schema_row_ok s" "table_row_ok t" "view_row_ok v" "macro_row_ok m"
  shows "schema_row_decode (schema_row_encode s) = Inr s \<and> table_row_decode (table_row_encode t) = Inr t \<and>
    view_row_decode (view_row_encode v) = Inr v \<and> macro_row_decode (macro_row_encode m) = Inr m"
  using assms by (simp add: schema_row_roundtrip table_row_roundtrip view_row_roundtrip macro_row_roundtrip)

definition example_table :: table_row where
  "example_table =
     (table_row_with_catalog_metadata 4 1 (ascii ''u'') (ascii ''t'') (ascii ''t/'')
        [table_column_row_new 1 (ascii ''a'') (ascii ''int32'') True None,
         table_column_row_new 2 (ascii ''b'') (ascii ''varchar'') False (Some 1)] (uuid_v7 9))
     \<lparr>tr_partition := Some \<lparr>tp_partition_id = 3, tp_fields =
        [\<lparr>pf_partition_key_index = 0, pf_column_id = 1, pf_transform = ascii ''identity''\<rparr>]\<rparr>\<rparr>"

definition example_view :: view_row where
  "example_view =
     view_row_new 5 1 \<lparr>vd_uuid = ascii ''w'', vd_name = ascii ''v'', vd_dialect = ascii ''duckdb'',
       vd_sql = ascii ''select 1'', vd_column_aliases = [ascii ''x'']\<rparr> (uuid_v7 9)"

definition example_macro :: macro_row where
  "example_macro =
     macro_row_new 6 1 (ascii ''m'')
       [\<lparr>mi_dialect = ascii ''duckdb'', mi_sql = ascii ''x'', mi_macro_type = ascii ''scalar'', mi_parameters =
          [\<lparr>mp_parameter_name = ascii ''x'', mp_parameter_type = [], mp_default_value = [],
            mp_default_value_type = []\<rparr>]\<rparr>] (uuid_v7 9)"

theorem object_rows_roundtrip_witness:
  "schema_row_decode (schema_row_encode (schema_row_new 1 (ascii ''s'') (ascii ''main'') (ascii ''main/'') (uuid_v7 7))) =
     Inr (schema_row_new 1 (ascii ''s'') (ascii ''main'') (ascii ''main/'') (uuid_v7 7)) \<and>
   table_row_decode (table_row_encode example_table) = Inr example_table \<and>
   view_row_decode (view_row_encode example_view) = Inr example_view \<and>
   macro_row_decode (macro_row_encode example_macro) = Inr example_macro"
  by (rule object_rows_roundtrip)
     (simp_all add: schema_row_ok_def table_row_ok_def view_row_ok_def macro_row_ok_def schema_row_new_def
       example_table_def example_view_def example_macro_def table_row_with_catalog_metadata_def
       table_column_row_new_def view_row_new_def macro_row_new_def column_ok_def partition_ok_def implementation_ok_def
       macro_parameter_ok_def string_ok_def ascii_def utf8_valid.simps)


end
