(* ===== verification/Cat_Schema_Versions.thy ===== *)
theory Cat_Schema_Versions
  imports Cat_Staging
begin

text \<open>
  Schema versions (\<open>schema_version_state.rs\<close>): the counter of schema versions with its history by commit order, and
  the counter of catalog snapshots. The batched read of the version at many orders, which scans one interval of
  the history, is proved equal to one lookup per order.
\<close>

section \<open>The operations\<close>

definition decode_schema_version :: "bytes \<Rightarrow> bytes \<Rightarrow> u64 catalog_result" where
  "decode_schema_version key v = be_u64 (InvalidKey ''invalid current schema version value for key '') v"

definition load_schema_version :: "fake_kv \<Rightarrow> bytes \<Rightarrow> u64 option catalog_result" where
  "load_schema_version kv key =
     (case fake_get kv key of
        None \<Rightarrow> Inr None
      | Some v \<Rightarrow> rbind (decode_schema_version key v) (\<lambda>n. Inr (Some n)))"

definition load_catalog_snapshot_version :: "fake_kv \<Rightarrow> catalog_id \<Rightarrow> u64 option catalog_result" where
  "load_catalog_snapshot_version kv catalog =
     (let key = catalog_snapshot_version_key catalog
      in case fake_get kv key of
        None \<Rightarrow> Inr None
      | Some v \<Rightarrow> rbind (decode_schema_version key v) (\<lambda>n. Inr (Some n)))"

definition load_schema_version_begin_snapshot :: "fake_kv \<Rightarrow> catalog_id \<Rightarrow> u64 \<Rightarrow> ducklake_snapshot_id option catalog_result" where
  "load_schema_version_begin_snapshot kv catalog schema_version =
     (let key = schema_version_begin_snapshot_key catalog schema_version
      in case fake_get kv key of
        None \<Rightarrow> Inr None
      | Some v \<Rightarrow> rbind (decode_schema_version key v) (\<lambda>n. Inr (Some n)))"

definition load_schema_version_at :: "fake_kv \<Rightarrow> catalog_id \<Rightarrow> catalog_order_id \<Rightarrow> u64 catalog_result" where
  "load_schema_version_at kv catalog ord =
     rbind (fake_scan_range kv (schema_version_history_prefix catalog) (schema_version_history_scan_end catalog ord)
              Reverse (Some 1)) (\<lambda>rows.
       case rows of [] \<Rightarrow> Inr 0 | item # _ \<Rightarrow> decode_schema_version (ri_key item) (ri_value item))"

text \<open>The set of orders is the sorted list of its elements.\<close>

definition schema_version_read_ranges :: "catalog_id \<Rightarrow> catalog_order_id list \<Rightarrow> catalog_read_range list" where
  "schema_version_read_ranges catalog orders =
     (case orders of
        [] \<Rightarrow> []
      | fst_order # _ \<Rightarrow>
          let boundary = schema_version_history_scan_end catalog fst_order;
              ranges = [\<lparr>rr_start = schema_version_history_prefix catalog, rr_end = boundary,
                         rr_direction = Reverse, rr_limit = Some 1\<rparr>]
          in if last orders = fst_order then ranges
             else ranges @ [\<lparr>rr_start = boundary, rr_end = schema_version_history_scan_end catalog (last orders),
                             rr_direction = Forward, rr_limit = None\<rparr>])"

definition decode_schema_history_row ::
    "range_item \<Rightarrow> bytes \<Rightarrow> catalog_order_kind \<Rightarrow> (catalog_order_id \<times> u64) catalog_result" where
  "decode_schema_history_row item p kind =
     (case strip_prefix p (ri_key item) of
        None \<Rightarrow> Inl (InvalidKey ''schema version history key has wrong prefix'')
      | Some tail \<Rightarrow>
          if length tail \<noteq> 16 then Inl (InvalidKey ''schema version history order has wrong length'')
          else rbind (decode_schema_version (ri_key item) (ri_value item)) (\<lambda>v.
            Inr (order_from_bytes kind tail, v)))"

text \<open>\<open>partition_point\<close> of a slice whose elements satisfying the predicate come first.\<close>

definition partition_point :: "('a \<Rightarrow> bool) \<Rightarrow> 'a list \<Rightarrow> nat" where
  "partition_point P xs = length (takeWhile P xs)"

definition resolve_schema_version_reads ::
    "catalog_id \<Rightarrow> catalog_order_id list \<Rightarrow> range_item list list \<Rightarrow> (catalog_order_id \<times> u64) list catalog_result" where
  "resolve_schema_version_reads catalog orders ranges =
     (case orders of
        [] \<Rightarrow> Inr []
      | fst_order # _ \<Rightarrow>
          if length ranges \<noteq> (if length orders > 1 then 1 else 0) + 1
          then Inl (Backend ''schema version read set has wrong range count'')
          else
            rbind (case hd ranges of [] \<Rightarrow> Inr 0 | item # _ \<Rightarrow> decode_schema_version (ri_key item) (ri_value item))
              (\<lambda>current.
            let rows = (if length ranges > 1 then last ranges else [])
            in rbind (rmap (\<lambda>item. decode_schema_history_row item (schema_version_history_prefix catalog)
                              (order_kind fst_order)) rows) (\<lambda>history.
              Inr (map (\<lambda>ord.
                let end_index = partition_point (\<lambda>(change_order, _). change_order \<le> ord) history
                in (ord, if end_index = 0 then current else snd (history ! (end_index - 1)))) orders))))"

definition load_schema_versions_at ::
    "fake_kv \<Rightarrow> catalog_id \<Rightarrow> catalog_order_id list \<Rightarrow> (catalog_order_id \<times> u64) list catalog_result" where
  "load_schema_versions_at kv catalog orders =
     (case orders of
        [] \<Rightarrow> Inr []
      | [ord] \<Rightarrow> rbind (load_schema_version_at kv catalog ord) (\<lambda>v. Inr [(ord, v)])
      | _ \<Rightarrow>
          rbind (kv_read_set (\<lambda>k. Inr (fake_get kv k)) (fake_scan_range kv) []
                   (schema_version_read_ranges catalog orders)) (\<lambda>(_, rows).
            resolve_schema_version_reads catalog orders rows))"

definition stage_next_catalog_snapshot_version :: "fake_kv \<Rightarrow> kv_batch \<Rightarrow> catalog_id \<Rightarrow> kv_batch catalog_result" where
  "stage_next_catalog_snapshot_version kv b catalog =
     rbind (load_schema_version kv (catalog_snapshot_version_key catalog)) (\<lambda>current.
       Inr (batch_put b (catalog_snapshot_version_key catalog)
              (u64_to_be_bytes (saturating_add (case current of Some n \<Rightarrow> n | None \<Rightarrow> 0) 1))))"

definition stage_next_schema_version ::
    "fake_kv \<Rightarrow> kv_batch \<Rightarrow> catalog_id \<Rightarrow> snapshot_row \<Rightarrow> kv_batch catalog_result" where
  "stage_next_schema_version kv b catalog snapshot =
     rbind (load_schema_version kv (current_schema_version_key catalog)) (\<lambda>current.
       let nxt = saturating_add (case current of Some n \<Rightarrow> n | None \<Rightarrow> 0) 1;
           b1 = batch_put b (current_schema_version_key catalog) (u64_to_be_bytes nxt);
           b2 = batch_put b1 (schema_version_history_key catalog (sn_order snapshot)) (u64_to_be_bytes nxt);
           b3 = batch_put b2 (schema_version_begin_snapshot_key catalog nxt) (raw_sequence_to_be_bytes (sn_sequence snapshot))
       in stage_next_catalog_snapshot_version kv b3 catalog)"

section \<open>The history as a set of changes\<close>

text \<open>A change is the bytes of its commit order and the version it started.\<close>

interpretation version_history: stored_index "schema_version_history_prefix c"
  "\<lambda>x. schema_version_history_key c (uuid_v7 (fst x))" "\<lambda>x. u64_to_be_bytes (snd x)" "\<lambda>_. True"
  "\<lambda>k w. rbind (decode_schema_history_row \<lparr>ri_key = k, ri_value = w\<rparr> (schema_version_history_prefix c) UuidV7)
     (\<lambda>(ord, v). Inr (order_arr ord, v))" for c
  by unfold_locales
     (auto simp: schema_version_history_key_def decode_schema_history_row_def decode_schema_version_def be_u64_def
       order_from_bytes_def order_as_bytes_def)

abbreviation changes_in :: "catalog_id \<Rightarrow> (bytes \<Rightarrow> bool) \<Rightarrow> (u128 \<times> u64) set \<Rightarrow> (u128 \<times> u64) list" where
  "changes_in c P V \<equiv> version_history.rows_in c P V"

abbreviation history_end :: "catalog_id \<Rightarrow> catalog_order_id \<Rightarrow> bytes" where
  "history_end \<equiv> schema_version_history_scan_end"

lemma history_key_below:
  "schema_version_history_key c (uuid_v7 n) < history_end c ord \<longleftrightarrow> n \<le> order_arr ord"
proof -
  have "order_as_bytes (uuid_v7 n) < order_as_bytes ord @ [0xff] \<longleftrightarrow> order_as_bytes (uuid_v7 n) \<le> order_as_bytes ord"
    using less_append_eq_length [of "order_as_bytes (uuid_v7 n)" "order_as_bytes ord" "[]" "[0xff]"]
    by (auto simp: le_less)
  then show ?thesis
    by (simp add: schema_version_history_scan_end_def schema_version_history_key_def order_le_bytes [symmetric]
        order_le_iff)
qed

lemma history_key_less:
  "schema_version_history_key c (uuid_v7 n) < schema_version_history_key c (uuid_v7 n') \<longleftrightarrow> n < n'"
  by (simp add: schema_version_history_key_def order_less_bytes [symmetric])

lemma history_range: "lo = schema_version_history_prefix c @ xs \<Longrightarrow> lo \<le> k \<Longrightarrow> k < history_end c ord \<Longrightarrow>
   prefix (schema_version_history_prefix c) k"
  using common_prefix_range [of "schema_version_history_prefix c" xs k "order_as_bytes ord @ [0xff]"]
  by (simp add: schema_version_history_scan_end_def schema_version_history_key_def)

text \<open>The changes up to an order, and those after one order up to another, oldest first.\<close>

abbreviation changes_upto :: "catalog_id \<Rightarrow> catalog_order_id \<Rightarrow> (u128 \<times> u64) set \<Rightarrow> (u128 \<times> u64) list" where
  "changes_upto c ord V \<equiv> changes_in c (\<lambda>k. schema_version_history_prefix c \<le> k \<and> k < history_end c ord) V"

abbreviation changes_between :: "catalog_id \<Rightarrow> catalog_order_id \<Rightarrow> catalog_order_id \<Rightarrow> (u128 \<times> u64) set \<Rightarrow> (u128 \<times> u64) list" where
  "changes_between c a b V \<equiv> changes_in c (\<lambda>k. history_end c a \<le> k \<and> k < history_end c b) V"

lemma changes_spec:
  assumes "version_history.holds c (fake_get kv) V"
  shows "set (changes_upto c ord V) = {x \<in> V. fst x \<le> order_arr ord}"
    and "set (changes_between c a b V) = {x \<in> V. order_arr a < fst x \<and> fst x \<le> order_arr b}"
    and "sorted_wrt (\<lambda>x y. fst x < fst y) (changes_in c P V)"
proof -
  note spec = version_history.rows_in_spec [OF assms version_history.holds_finite [OF assms]]
  have "schema_version_history_prefix c \<le> schema_version_history_key c (uuid_v7 n)" for n
    by (simp add: schema_version_history_key_def prefix_imp_le)
  then show "set (changes_upto c ord V) = {x \<in> V. fst x \<le> order_arr ord}"
    by (auto simp: spec(1) history_key_below)
  have ge: "history_end c a \<le> schema_version_history_key c (uuid_v7 n) \<longleftrightarrow> order_arr a < n" for n
    by (metis history_key_below linorder_not_less)
  show "set (changes_between c a b V) = {x \<in> V. order_arr a < fst x \<and> fst x \<le> order_arr b}"
    by (simp add: spec(1) ge history_key_below)
  show "sorted_wrt (\<lambda>x y. fst x < fst y) (changes_in c P V)"
    by (rule sorted_wrt_mono_rel [OF _ spec(3)]) (auto simp: history_key_less)
qed

definition version_of :: "(u128 \<times> u64) list \<Rightarrow> u64" where
  "version_of xs = (if xs = [] then 0 else snd (last xs))"

lemma decode_change [simp]: "decode_schema_version k (u64_to_be_bytes v) = Inr v"
  by (simp add: decode_schema_version_def be_u64_def)

lemma latest_change_item:
  "(case limit_take (Some 1) (rev (map (\<lambda>x. to_item (key x, u64_to_be_bytes (snd x))) xs)) of
      [] \<Rightarrow> Inr 0 | item # _ \<Rightarrow> decode_schema_version (ri_key item) (ri_value item)) = Inr (version_of xs)"
  by (cases xs rule: rev_exhaust) (simp_all add: version_of_def limit_take_def to_item_def)

lemma scan_history:
  assumes "fake_wf kv" "version_history.holds c (fake_get kv) V" "lo = schema_version_history_prefix c @ xs"
    "lo \<le> history_end c b"
  shows "fake_scan_range kv lo (history_end c b) d lim = Inr (limit_take lim (directed d
     (map (\<lambda>x. to_item (schema_version_history_key c (uuid_v7 (fst x)), u64_to_be_bytes (snd x)))
       (changes_in c (\<lambda>k. lo \<le> k \<and> k < history_end c b) V))))"
  using version_history.scan_range_rows [OF assms(1,2,4) history_range [OF assms(3)], where d = d and lim = lim] .

lemma load_schema_version_at_reads:
  assumes "fake_wf kv" "version_history.holds c (fake_get kv) V"
  shows "load_schema_version_at kv c ord = Inr (version_of (changes_upto c ord V))"
proof -
  have "schema_version_history_prefix c \<le> history_end c ord"
    by (simp add: schema_version_history_scan_end_def schema_version_history_key_def prefix_imp_le)
  from scan_history [OF assms _ this, where d = Reverse and lim = "Some 1" and xs = "[]"] latest_change_item
  show ?thesis by (simp add: load_schema_version_at_def)
qed

text \<open>The changes up to an order are those up to an earlier one, followed by the ones of the interval it has passed.\<close>

lemma takeWhile_sorted_filter:
  "sorted_wrt (\<lambda>x y. fst x < fst y) xs \<Longrightarrow> takeWhile (\<lambda>x. fst x \<le> n) xs = filter (\<lambda>x. fst x \<le> n) xs"
  for xs :: "(u128 \<times> u64) list"
proof (induction xs)
  case (Cons x xs)
  then show ?case by (cases "fst x \<le> n") (auto intro!: filter_False [symmetric])
qed simp

lemma changes_split:
  assumes h: "version_history.holds c (fake_get kv) V" and "order_arr a \<le> order_arr b" "order_arr b \<le> order_arr z"
  shows "changes_upto c b V = changes_upto c a V @ takeWhile (\<lambda>x. fst x \<le> order_arr b) (changes_between c a z V)"
proof -
  note spec = changes_spec [OF h]
  note take = takeWhile_sorted_filter [OF spec(3)]
  show ?thesis
    unfolding take
  proof (rule version_history.rows_in_unique [OF h version_history.holds_finite [OF h], symmetric])
    have "schema_version_history_prefix c \<le> schema_version_history_key c (uuid_v7 n)" for n
      by (simp add: schema_version_history_key_def prefix_imp_le)
    then show "set (changes_upto c a V @ filter (\<lambda>x. fst x \<le> order_arr b) (changes_between c a z V)) =
        {x \<in> V. schema_version_history_prefix c \<le> schema_version_history_key c (uuid_v7 (fst x)) \<and>
           schema_version_history_key c (uuid_v7 (fst x)) < history_end c b}"
      using assms(2,3) by (auto simp: spec(1,2) history_key_below)
    have "sorted_wrt (\<lambda>x y. fst x < fst y) (changes_upto c a V @ filter (\<lambda>x. fst x \<le> order_arr b) (changes_between c a z V))"
      using spec(3) by (auto simp: sorted_wrt_append sorted_wrt_filter spec(1,2))
    then show "sorted_wrt (\<lambda>x y. schema_version_history_key c (uuid_v7 (fst x)) <
        schema_version_history_key c (uuid_v7 (fst y)))
        (changes_upto c a V @ filter (\<lambda>x. fst x \<le> order_arr b) (changes_between c a z V))"
      by (rule sorted_wrt_mono_rel [rotated]) (auto simp: history_key_less)
  qed
qed

lemma decode_history_rows:
  "rmap (\<lambda>i. decode_schema_history_row i (schema_version_history_prefix c) kind)
     (map (\<lambda>x. to_item (schema_version_history_key c (uuid_v7 (fst x)), u64_to_be_bytes (snd x))) xs) =
   Inr (map (\<lambda>x. (CatalogOrderId kind (fst x), snd x)) xs)"
  by (induction xs)
     (simp_all add: decode_schema_history_row_def to_item_def schema_version_history_key_def order_from_bytes_def
       order_as_bytes_def)

lemma version_at_partition_point:
  assumes "t = takeWhile (\<lambda>x. fst x \<le> order_arr ord) xs"
    "end_index = partition_point (\<lambda>(o', _). o' \<le> ord) (map (\<lambda>x. (CatalogOrderId kind (fst x), snd x)) xs)"
  shows "(if end_index = 0 then version_of ys
      else snd (map (\<lambda>x. (CatalogOrderId kind (fst x), snd x)) xs ! (end_index - 1))) = version_of (ys @ t)"
proof -
  have "end_index = length t"
    by (simp add: assms partition_point_def takeWhile_map comp_def order_le_iff case_prod_beta')
  moreover have "t = take (length t) xs" by (simp add: assms(1) takeWhile_eq_take [symmetric])
  then have "length t \<le> length xs" by (metis length_take min.cobounded1)
  moreover have "xs ! (length t - 1) = last t" if "t \<noteq> []"
    using that \<open>t = take (length t) xs\<close> by (metis last_conv_nth nth_take length_greater_0_conv diff_less zero_less_one)
  ultimately show ?thesis
    by (cases "t = []") (auto simp: version_of_def nth_map less_le_trans [OF diff_less [of "Suc 0"]])
qed

section \<open>The counters as a list of versions\<close>

text \<open>The history lists the commit orders that started a version, oldest first; the current counter is the last.\<close>

definition schema_versions_are :: "(bytes \<rightharpoonup> bytes) \<Rightarrow> catalog_id \<Rightarrow> (u128 \<times> u64) list \<Rightarrow> bool" where
  "schema_versions_are m c vs \<longleftrightarrow> version_history.holds c m (set vs) \<and> sorted_wrt (\<lambda>x y. fst x < fst y) vs \<and>
     cell_ok (m (current_schema_version_key c)) \<and> cell_ok (m (catalog_snapshot_version_key c)) \<and>
     (case cell_value (m (current_schema_version_key c)) of Some n \<Rightarrow> n | None \<Rightarrow> 0) = version_of vs"

definition version_space :: "catalog_id \<Rightarrow> bytes set" where
  "version_space c = {current_schema_version_key c, catalog_snapshot_version_key c} \<union>
     {k. prefix (schema_version_history_prefix c) k} \<union> range (schema_version_begin_snapshot_key c)"

lemma version_space_iff [simp]:
  "current_schema_version_key c \<in> version_space c" "catalog_snapshot_version_key c \<in> version_space c"
  "schema_version_history_key c ord \<in> version_space c" "schema_version_begin_snapshot_key c n \<in> version_space c"
  by (auto simp: version_space_def schema_version_history_key_def)

lemma schema_versions_are_local:
  "schema_versions_are m c vs \<Longrightarrow> (\<And>k. k \<in> version_space c \<Longrightarrow> m' k = m k) \<Longrightarrow> schema_versions_are m' c vs"
  unfolding schema_versions_are_def by (auto simp: version_space_def intro: version_history.holds_local)

lemma schema_versions_are_empty: "schema_versions_are Map.empty c []"
  by (simp add: schema_versions_are_def version_history.holds_empty cell_ok_def cell_value_def version_of_def)

lemma version_space_main: "version_space c \<subseteq> main_space c"
proof
  fix k assume k: "k \<in> version_space c"
  then have "k \<notin> cell_keys c" by (auto simp: version_space_def cell_keys_def key_defs ascii_def elim!: prefixE)
  moreover have "k \<notin> partition_space c"
    using k by (auto simp: version_space_def partition_space_def key_defs elim!: prefixE)
  ultimately show "k \<in> main_space c" by (simp add: main_space_def)
qed

definition put_schema_version :: "catalog_id \<Rightarrow> snapshot_row \<Rightarrow> u64 \<Rightarrow> u64 \<Rightarrow> (bytes \<rightharpoonup> bytes) \<Rightarrow> (bytes \<rightharpoonup> bytes)" where
  "put_schema_version c s nxt count m =
     m(current_schema_version_key c \<mapsto> u64_to_be_bytes nxt,
       schema_version_history_key c (sn_order s) \<mapsto> u64_to_be_bytes nxt,
       schema_version_begin_snapshot_key c nxt \<mapsto> raw_sequence_to_be_bytes (sn_sequence s),
       catalog_snapshot_version_key c \<mapsto> u64_to_be_bytes count)"

lemma version_keys_differ:
  "current_schema_version_key c \<noteq> schema_version_history_key c ord"
  "current_schema_version_key c \<noteq> schema_version_begin_snapshot_key c n"
  "current_schema_version_key c \<noteq> catalog_snapshot_version_key c"
  "catalog_snapshot_version_key c \<noteq> schema_version_history_key c ord"
  "schema_version_begin_snapshot_key c n \<noteq> schema_version_history_key c ord"
  "\<not> prefix (schema_version_history_prefix c) (current_schema_version_key c)"
  "\<not> prefix (schema_version_history_prefix c) (catalog_snapshot_version_key c)"
  "\<not> prefix (schema_version_history_prefix c) (schema_version_begin_snapshot_key c n)"
  by (auto simp: key_defs ascii_def elim!: prefixE)

lemma schema_versions_are_put:
  assumes "schema_versions_are m c vs" "order_kind (sn_order s) = UuidV7" "\<forall>x \<in> set vs. fst x < order_arr (sn_order s)"
  shows "schema_versions_are (put_schema_version c s nxt count m) c (vs @ [(order_arr (sn_order s), nxt)])"
proof -
  let ?x = "(order_arr (sn_order s), nxt)"
  have ord: "uuid_v7 (order_arr (sn_order s)) = sn_order s" using assms(2) by (cases "sn_order s") (simp add: uuid_v7_def)
  have "{y \<in> set vs. schema_version_history_key c (uuid_v7 (fst y)) \<noteq> schema_version_history_key c (uuid_v7 (fst ?x))} = set vs"
    using assms(3) by (auto simp: schema_version_history_key_def order_as_bytes_eq_iff)
  then have "version_history.holds c (m(schema_version_history_key c (sn_order s) \<mapsto> u64_to_be_bytes nxt)) (set (vs @ [?x]))"
    using version_history.holds_put [of c m "set vs" ?x] assms(1) by (simp add: schema_versions_are_def ord)
  then have "version_history.holds c (put_schema_version c s nxt count m) (set (vs @ [?x]))"
    by (rule version_history.holds_local) (auto simp: put_schema_version_def version_keys_differ)
  with assms show ?thesis
    by (auto simp: schema_versions_are_def sorted_wrt_append cell_ok_def put_schema_version_def version_keys_differ
        version_keys_differ(1-5) [symmetric] cell_value_def version_of_def)
qed

lemma load_schema_version_cell:
  "cell_ok (fake_get kv k) \<Longrightarrow> load_schema_version kv k = Inr (cell_value (fake_get kv k))"
  by (auto simp: load_schema_version_def decode_schema_version_def be_u64_def cell_ok_def cell_value_def split: option.splits)

lemma stages_next_schema_version:
  assumes "schema_versions_are (fake_get kv) c vs" "stages kv c b0 b f W D"
  shows "\<exists>b' count. stage_next_schema_version kv b c s = Inr b' \<and>
    stages kv c b0 b' (\<lambda>m. put_schema_version c s (saturating_add (version_of vs) 1) count (f m)) W D"
proof -
  have keys: "k \<in> version_space c \<Longrightarrow> k \<in> main_space c" for k using version_space_main by auto
  show ?thesis
    unfolding stage_next_schema_version_def stage_next_catalog_snapshot_version_def put_schema_version_def
    using assms(1) by (auto simp: load_schema_version_cell schema_versions_are_def Let_def
        intro!: exI then_put [OF then_put [OF then_put [OF then_put [OF assms(2)]]]] keys)
qed

lemma stages_next_catalog_snapshot_version:
  assumes "schema_versions_are (fake_get kv) c vs" "stages kv c b0 b f W D"
  shows "\<exists>b' count. stage_next_catalog_snapshot_version kv b c = Inr b' \<and>
    stages kv c b0 b' (\<lambda>m. (f m)(catalog_snapshot_version_key c \<mapsto> u64_to_be_bytes count)) W D"
proof -
  have "catalog_snapshot_version_key c \<in> main_space c" using version_space_main version_space_iff(2) by blast
  with assms(1) then_put [OF assms(2) this] show ?thesis
    by (auto simp: stage_next_catalog_snapshot_version_def load_schema_version_cell schema_versions_are_def)
qed

lemma schema_versions_are_count:
  "schema_versions_are m c vs \<Longrightarrow>
   schema_versions_are (m(catalog_snapshot_version_key c \<mapsto> u64_to_be_bytes count)) c vs"
  by (auto simp: schema_versions_are_def version_keys_differ version_keys_differ(1-5) [symmetric] cell_ok_def)

lemma load_schema_version_at_list:
  assumes "fake_wf kv" "schema_versions_are (fake_get kv) c vs"
  shows "load_schema_version_at kv c ord = Inr (version_of (filter (\<lambda>x. fst x \<le> order_arr ord) vs))"
proof -
  have h: "version_history.holds c (fake_get kv) (set vs)" "sorted_wrt (\<lambda>x y. fst x < fst y) vs"
    using assms(2) by (simp_all add: schema_versions_are_def)
  note spec = changes_spec(1) [OF h(1), of ord] changes_spec(3) [OF h(1)]
  have "changes_upto c ord (set vs) = filter (\<lambda>x. fst x \<le> order_arr ord) vs"
  proof (rule map_inj_on [where f = fst])
    show "map fst (changes_upto c ord (set vs)) = map fst (filter (\<lambda>x. fst x \<le> order_arr ord) vs)"
      using spec h(2) by (intro strict_sorted_equal) (simp_all add: sorted_wrt_map sorted_wrt_filter)
    have "distinct (map fst vs)" using h(2) by (simp add: strict_sorted_iff flip: sorted_wrt_map)
    then show "inj_on fst (set (changes_upto c ord (set vs)) \<union> set (filter (\<lambda>x. fst x \<le> order_arr ord) vs))"
      unfolding spec(1) distinct_map by (auto intro: inj_on_subset)
  qed
  with load_schema_version_at_reads [OF assms(1) h(1)] show ?thesis by simp
qed

section \<open>Properties\<close>

text \<open>C30: Reading the schema version at many orders by one interval scan gives, for every order, the version a lookup
  at that order alone gives.\<close>
theorem schema_versions_batch_equals_single:
  assumes "fake_wf kv" "version_history.holds c (fake_get kv) V" "sorted_wrt (<) orders"
  shows "load_schema_versions_at kv c orders =
    rmap (\<lambda>ord. rbind (load_schema_version_at kv c ord) (\<lambda>v. Inr (ord, v))) orders"
proof (cases orders rule: list.exhaust [case_names Nil Cons])
  case (Cons a rest)
  note single = load_schema_version_at_reads [OF assms(1,2)]
  show ?thesis
  proof (cases "rest = []")
    case False
    define z where "z = last rest"
    then have z: "last orders = z" "last rest = z" using Cons False by simp_all
    have le: "order_arr a \<le> order_arr ord \<and> order_arr ord \<le> order_arr z" if "ord \<in> set orders" for ord
    proof -
      have "ord = z \<or> ord < z"
        using that assms(3) unfolding z(1) [symmetric] by (cases orders rule: rev_exhaust) (auto simp: sorted_wrt_append)
      then show ?thesis using that assms(3) Cons by (auto simp: order_less_iff)
    qed
    have "a < z" using assms(3) False Cons by (simp add: z_def)
    then have ne: "z \<noteq> a" "history_end c a \<le> history_end c z" 
      by (auto simp: schema_version_history_scan_end_def schema_version_history_key_def less_append_eq_length
          order_less_bytes le_less)
    have start: "schema_version_history_prefix c \<le> history_end c a"
      by (simp add: schema_version_history_scan_end_def schema_version_history_key_def prefix_imp_le)
    have "history_end c a = schema_version_history_prefix c @ order_as_bytes a @ [0xff]"
      by (simp add: schema_version_history_scan_end_def schema_version_history_key_def)
    note second = scan_history [OF assms(1,2) this ne(2), where d = Forward and lim = None]
    note first = scan_history [OF assms(1,2) _ start, where d = Reverse and lim = "Some 1" and xs = "[]", simplified]
    define L1 L2 where "L1 = limit_take (Some 1) (rev (map (\<lambda>x. to_item (schema_version_history_key c (uuid_v7 (fst x)),
        u64_to_be_bytes (snd x))) (changes_upto c a V)))"
      and "L2 = map (\<lambda>x. to_item (schema_version_history_key c (uuid_v7 (fst x)), u64_to_be_bytes (snd x)))
        (changes_between c a z V)"
    have reads: "kv_read_set (\<lambda>k. Inr (fake_get kv k)) (fake_scan_range kv) [] (schema_version_read_ranges c orders) =
        Inr ([], [L1, L2])"
      using ne(1) Cons False
      by (simp add: schema_version_read_ranges_def Let_def kv_read_set_def kv_batch_get_def first second L1_def L2_def z)
    have point: "(if end_index = 0 then version_of (changes_upto c a V) else
          snd (map (\<lambda>x. (CatalogOrderId (order_kind a) (fst x), snd x)) (changes_between c a z V) ! (end_index - 1))) =
        version_of (changes_upto c ord V)"
      if "ord \<in> set orders" "end_index = partition_point (\<lambda>(o', _). o' \<le> ord)
         (map (\<lambda>x. (CatalogOrderId (order_kind a) (fst x), snd x)) (changes_between c a z V))" for ord end_index
      using version_at_partition_point [OF refl that(2), of "changes_upto c a V"]
        changes_split [OF assms(2), of a ord z] le [OF that(1)] by simp
    have "resolve_schema_version_reads c orders [L1, L2] =
        Inr (map (\<lambda>ord. (ord, version_of (changes_upto c ord V))) orders)"
      using Cons False latest_change_item
      by (simp add: resolve_schema_version_reads_def L1_def L2_def decode_history_rows point Let_def del: One_nat_def)
    then have "load_schema_versions_at kv c orders =
        Inr (map (\<lambda>ord. (ord, version_of (changes_upto c ord V))) orders)"
      using Cons False reads by (auto simp: load_schema_versions_at_def split: list.splits)
    then show ?thesis by (simp add: single rmap_Inr)
  qed (simp add: Cons load_schema_versions_at_def single)
qed (simp add: load_schema_versions_at_def)

theorem schema_versions_batch_equals_single_witness:
  "\<exists>kv. load_schema_versions_at kv 7 [uuid_v7 2, uuid_v7 9] =
     rmap (\<lambda>ord. rbind (load_schema_version_at kv 7 ord) (\<lambda>v. Inr (ord, v))) [uuid_v7 2, uuid_v7 9]"
proof -
  let ?kv = "store_with [(schema_version_history_key 7 (uuid_v7 1), u64_to_be_bytes 1),
    (schema_version_history_key 7 (uuid_v7 5), u64_to_be_bytes 2)]"
  have "version_history.holds 7 (Map.empty(schema_version_history_key 7 (uuid_v7 1) \<mapsto> u64_to_be_bytes 1)) {(1, 1)}"
    using version_history.holds_put [OF version_history.holds_empty, of 7 "(1, 1)"] by simp
  from version_history.holds_put [OF this, of "(5, 2)"] obtain V where "version_history.holds 7 (fake_get ?kv) V"
    by auto
  from schema_versions_batch_equals_single [OF store_with_simps(1) this, of "[uuid_v7 2, uuid_v7 9]"]
  show ?thesis by auto
qed

end
