(* ===== verification/Cat_Tables.thy ===== *)
theory Cat_Tables
  imports Cat_Versioned Cat_Object_Rows Cat_Schema_Versions
begin

text \<open>
  The table store (\<open>table_store.rs\<close>, \<open>table_version_commit.rs\<close>, \<open>commit_table_replacements\<close> of \<open>kv.rs\<close>, and the table
  conflict checks of \<open>conflict.rs\<close>): reading the tables of a snapshot by one of three indexes, creating tables,
  replacing versions, renaming and adding columns. The read caches of the process are not modelled: every read is
  the one the code makes on a miss.
\<close>

section \<open>Staging rows\<close>

definition stage_current_table_row :: "kv_batch \<Rightarrow> catalog_id \<Rightarrow> table_row \<Rightarrow> kv_batch" where
  "stage_current_table_row b catalog table =
     batch_put b (current_table_row_key catalog (tr_table_id table)) (table_row_encode table)"

definition stage_table_visibility_row :: "kv_batch \<Rightarrow> catalog_id \<Rightarrow> table_row \<Rightarrow> kv_batch" where
  "stage_table_visibility_row b catalog table =
     batch_put b (table_visibility_key catalog (begin_order (tr_validity table)) (tr_table_id table)) (table_row_encode table)"

definition stage_remove_current_table_row :: "kv_batch \<Rightarrow> catalog_id \<Rightarrow> table_id \<Rightarrow> kv_batch" where
  "stage_remove_current_table_row b catalog table_id = batch_delete b (current_table_row_key catalog table_id)"

section \<open>Decoding stored versions\<close>

definition table_order_from_key ::
    "catalog_id \<Rightarrow> table_id \<Rightarrow> bytes \<Rightarrow> catalog_order_id \<Rightarrow> catalog_order_id catalog_result" where
  "table_order_from_key catalog table_id key value_order =
     (case strip_prefix (table_object_prefix catalog table_id) key of
        None \<Rightarrow> Inl (InvalidKey ''table object key has wrong prefix'')
      | Some tail \<Rightarrow>
          if length tail \<noteq> 16 then Inl (InvalidKey ''table object key order must be 16 bytes'')
          else Inr (order_from_bytes
            (if order_as_bytes value_order = tail then order_kind value_order else FdbVersionstamp) tail))"

definition decode_table_item :: "catalog_id \<Rightarrow> bytes \<Rightarrow> bytes \<Rightarrow> table_row catalog_result" where
  "decode_table_item catalog key v =
     rbind (table_row_decode v) (\<lambda>row.
     rbind (table_order_from_key catalog (tr_table_id row) key (begin_order (tr_validity row))) (\<lambda>ord.
       Inr (row\<lparr>tr_validity := (tr_validity row)\<lparr>begin_order := ord\<rparr>\<rparr>)))"

definition decode_table_visibility_item :: "catalog_id \<Rightarrow> bytes \<Rightarrow> bytes \<Rightarrow> table_row catalog_result" where
  "decode_table_visibility_item catalog key v =
     rbind (table_row_decode v) (\<lambda>row.
       case strip_prefix (table_visibility_prefix catalog) key of
         None \<Rightarrow> Inl (InvalidKey ''table visibility key has wrong prefix'')
       | Some tail \<Rightarrow>
           if length tail \<noteq> 16 + 1 + 8 \<or> tail ! 16 \<noteq> slash
           then Inl (InvalidKey ''table visibility key tail must be 25 bytes with separator'')
           else
             rbind (be_u64 (InvalidKey ''table visibility table id is truncated'') (drop 17 tail)) (\<lambda>table_id.
               if tr_table_id row \<noteq> table_id
               then Inl (InvalidKey ''table visibility key table id does not match row'')
               else Inr (row\<lparr>tr_validity := (tr_validity row)
                 \<lparr>begin_order := order_from_bytes (order_kind (begin_order (tr_validity row))) (take 16 tail)\<rparr>\<rparr>)))"

definition decode_current_table_row :: "table_id \<Rightarrow> bytes \<Rightarrow> table_row catalog_result" where
  "decode_current_table_row table_id v =
     rbind (table_row_decode v) (\<lambda>row.
       if tr_table_id row \<noteq> table_id then Inl (Decode ''current table key decoded as another table'') else Inr row)"

text \<open>Rows are decoded one by one; absent keys are skipped.\<close>

definition decode_current_table_rows :: "table_id list \<Rightarrow> bytes option list \<Rightarrow> table_row list catalog_result" where
  "decode_current_table_rows table_ids vals =
     (if length vals \<noteq> length table_ids then Inl (Backend ''current table batch has wrong key count'')
      else rfold (\<lambda>(table_id, v) rows.
        case v of
          None \<Rightarrow> Inr rows
        | Some bs \<Rightarrow> rbind (decode_current_table_row table_id bs) (\<lambda>row. Inr (rows @ [row]))) (zip table_ids vals) [])"

section \<open>Reading tables\<close>

definition load_table_at :: "fake_kv \<Rightarrow> catalog_id \<Rightarrow> table_id \<Rightarrow> catalog_order_id \<Rightarrow> table_row option catalog_result" where
  "load_table_at kv catalog table_id snapshot_order =
     rbind (fake_scan_range kv (table_object_prefix catalog table_id)
              (prefix_end (table_object_key catalog table_id snapshot_order)) Reverse (Some 1)) (\<lambda>items.
       case items of
         [] \<Rightarrow> Inr None
       | item # _ \<Rightarrow>
           rbind (decode_table_item catalog (ri_key item) (ri_value item)) (\<lambda>row.
             if is_visible_at (tr_validity row) snapshot_order then Inr (Some row) else Inr None))"

definition load_current_table_row :: "fake_kv \<Rightarrow> catalog_id \<Rightarrow> table_id \<Rightarrow> table_row option catalog_result" where
  "load_current_table_row kv catalog table_id =
     (case fake_get kv (current_table_row_key catalog table_id) of
        None \<Rightarrow> Inr None
      | Some bs \<Rightarrow> rbind (table_row_decode bs) (\<lambda>row. Inr (Some row)))"

definition load_current_table :: "fake_kv \<Rightarrow> catalog_id \<Rightarrow> table_id \<Rightarrow> table_row catalog_result" where
  "load_current_table kv catalog table_id =
     rbind (latest_snapshot kv catalog) (\<lambda>latest.
       case latest of
         None \<Rightarrow> Inl (NotFound ''catalog snapshot'')
       | Some _ \<Rightarrow>
           rbind (load_current_table_row kv catalog table_id) (\<lambda>row.
             case row of None \<Rightarrow> Inl (NotFound ''table'') | Some r \<Rightarrow> Inr r))"

definition load_current_table_rows :: "fake_kv \<Rightarrow> catalog_id \<Rightarrow> table_id list \<Rightarrow> table_row list catalog_result" where
  "load_current_table_rows kv catalog table_ids =
     rbind (kv_batch_get (\<lambda>k. Inr (fake_get kv k)) (map (current_table_row_key catalog) table_ids)) (\<lambda>vals.
       decode_current_table_rows table_ids vals)"

text \<open>The map from table id to its visible version, in id order.\<close>

definition collect_visible :: "catalog_order_id \<Rightarrow> table_row list \<Rightarrow> table_row list" where
  "collect_visible snapshot_order rows =
     map snd (fold (\<lambda>row tables.
       if is_visible_at (tr_validity row) snapshot_order then btree_insert (tr_table_id row) row tables else tables) rows [])"

definition list_tables_at_from_visibility_index ::
    "fake_kv \<Rightarrow> catalog_id \<Rightarrow> catalog_order_id \<Rightarrow> table_row list catalog_result" where
  "list_tables_at_from_visibility_index kv catalog snapshot_order =
     rbind (fake_scan_range kv (table_visibility_prefix catalog) (table_visibility_scan_end catalog snapshot_order)
              Forward None) (\<lambda>items.
     rbind (rmap (\<lambda>i. decode_table_visibility_item catalog (ri_key i) (ri_value i)) items) (\<lambda>rows.
       Inr (collect_visible snapshot_order rows)))"

definition list_tables_at_from_history ::
    "fake_kv \<Rightarrow> catalog_id \<Rightarrow> catalog_order_id \<Rightarrow> table_row list catalog_result" where
  "list_tables_at_from_history kv catalog snapshot_order =
     rbind (fake_scan_prefix kv (table_object_scan_prefix catalog) Forward None) (\<lambda>items.
     rbind (rmap (\<lambda>i. decode_table_item catalog (ri_key i) (ri_value i)) items) (\<lambda>rows.
       Inr (collect_visible snapshot_order rows)))"

definition list_current_table_rows :: "fake_kv \<Rightarrow> catalog_id \<Rightarrow> table_row list catalog_result" where
  "list_current_table_rows kv catalog =
     rbind (fake_scan_prefix kv (current_table_row_prefix catalog) Forward None) (\<lambda>items.
     rbind (rmap (\<lambda>i. table_row_decode (ri_value i)) items) (\<lambda>rows.
       Inr (sort_key tr_table_id rows)))"

definition list_tables_at_with_latest ::
    "fake_kv \<Rightarrow> catalog_id \<Rightarrow> catalog_order_id \<Rightarrow> snapshot_row option \<Rightarrow> table_row list catalog_result" where
  "list_tables_at_with_latest kv catalog snapshot_order latest =
     (let from_history =
        rbind (list_tables_at_from_visibility_index kv catalog snapshot_order) (\<lambda>visible.
          if visible \<noteq> [] then Inr visible else list_tables_at_from_history kv catalog snapshot_order)
      in if (case latest of Some s \<Rightarrow> sn_order s = snapshot_order | None \<Rightarrow> False)
         then rbind (list_current_table_rows kv catalog) (\<lambda>current. if current \<noteq> [] then Inr current else from_history)
         else from_history)"

definition list_tables_at :: "fake_kv \<Rightarrow> catalog_id \<Rightarrow> catalog_order_id \<Rightarrow> table_row list catalog_result" where
  "list_tables_at kv catalog snapshot_order =
     rbind (latest_snapshot kv catalog) (list_tables_at_with_latest kv catalog snapshot_order)"

definition list_table_rows_uncached :: "fake_kv \<Rightarrow> catalog_id \<Rightarrow> table_row list catalog_result" where
  "list_table_rows_uncached kv catalog =
     rbind (fake_scan_prefix kv (table_object_scan_prefix catalog) Forward None) (\<lambda>items.
       rmap (\<lambda>i. decode_table_item catalog (ri_key i) (ri_value i)) items)"

definition list_table_rows :: "fake_kv \<Rightarrow> catalog_id \<Rightarrow> table_row list catalog_result" where
  "list_table_rows kv catalog = rbind (latest_snapshot kv catalog) (\<lambda>_. list_table_rows_uncached kv catalog)"

definition load_latest_table_version :: "fake_kv \<Rightarrow> catalog_id \<Rightarrow> table_id \<Rightarrow> table_row option catalog_result" where
  "load_latest_table_version kv catalog table_id =
     rbind (fake_scan_prefix kv (table_object_prefix catalog table_id) Reverse (Some 1)) (\<lambda>items.
       case items of
         [] \<Rightarrow> Inr None
       | item # _ \<Rightarrow> rbind (decode_table_item catalog (ri_key item) (ri_value item)) (\<lambda>row. Inr (Some row)))"

definition list_table_rows_for_table_uncached :: "fake_kv \<Rightarrow> catalog_id \<Rightarrow> table_id \<Rightarrow> table_row list catalog_result" where
  "list_table_rows_for_table_uncached kv catalog table_id =
     rbind (fake_scan_prefix kv (table_object_prefix catalog table_id) Forward None) (\<lambda>items.
       rmap (\<lambda>i. decode_table_item catalog (ri_key i) (ri_value i)) items)"

definition list_table_rows_for_table :: "fake_kv \<Rightarrow> catalog_id \<Rightarrow> table_id \<Rightarrow> table_row list catalog_result" where
  "list_table_rows_for_table kv catalog table_id =
     rbind (latest_snapshot kv catalog) (\<lambda>_. list_table_rows_for_table_uncached kv catalog table_id)"

section \<open>Conflicts with other commits\<close>

text \<open>The row at \<open>through_order\<close> is loaded at most once by the code; loading it again gives the same row, so the memo is
  left out.\<close>

definition table_drop_conflict_for_base_table ::
    "fake_kv \<Rightarrow> catalog_id \<Rightarrow> table_id \<Rightarrow> catalog_order_id \<Rightarrow> catalog_order_id \<Rightarrow> table_row option \<Rightarrow>
     catalog_order_id option catalog_result" where
  "table_drop_conflict_for_base_table kv catalog table_id base_order through_order table =
     (case table of
        None \<Rightarrow> Inr None
      | Some t \<Rightarrow>
          (case end_order (tr_validity t) of
             None \<Rightarrow> Inr None
           | Some drop_order \<Rightarrow>
               if \<not> (base_order < drop_order \<and> drop_order \<le> through_order) then Inr None
               else rbind (load_table_at kv catalog table_id through_order) (\<lambda>through_table.
                 Inr (if through_table = None then Some drop_order else None))))"

definition table_schema_conflict_for_base_table ::
    "fake_kv \<Rightarrow> catalog_id \<Rightarrow> table_id \<Rightarrow> catalog_order_id \<Rightarrow> catalog_order_id \<Rightarrow> table_row option \<Rightarrow>
     catalog_order_id option catalog_result" where
  "table_schema_conflict_for_base_table kv catalog table_id base_order through_order table =
     (case table of
        None \<Rightarrow> Inr None
      | Some t \<Rightarrow>
          (case end_order (tr_validity t) of
             None \<Rightarrow> Inr None
           | Some changed_at \<Rightarrow>
               if \<not> (base_order < changed_at \<and> changed_at \<le> through_order) then Inr None
               else rbind (load_table_at kv catalog table_id through_order) (\<lambda>through_table.
                 case through_table of
                   None \<Rightarrow> Inr None
                 | Some current_table \<Rightarrow>
                     Inr (if same_user_visible_schema_as current_table t then None else Some changed_at))))"

definition table_drop_conflict_since_base ::
    "fake_kv \<Rightarrow> catalog_id \<Rightarrow> table_id \<Rightarrow> catalog_order_id \<Rightarrow> catalog_order_id \<Rightarrow> catalog_order_id option catalog_result" where
  "table_drop_conflict_since_base kv catalog table_id base_order through_order =
     rbind (load_table_at kv catalog table_id base_order) (\<lambda>base_table.
       table_drop_conflict_for_base_table kv catalog table_id base_order through_order base_table)"

definition table_schema_conflict_since_base ::
    "fake_kv \<Rightarrow> catalog_id \<Rightarrow> table_id \<Rightarrow> catalog_order_id \<Rightarrow> catalog_order_id \<Rightarrow> catalog_order_id option catalog_result" where
  "table_schema_conflict_since_base kv catalog table_id base_order through_order =
     rbind (load_table_at kv catalog table_id base_order) (\<lambda>base_table.
       table_schema_conflict_for_base_table kv catalog table_id base_order through_order base_table)"

definition reject_table_metadata_conflicts_since_base ::
    "fake_kv \<Rightarrow> catalog_id \<Rightarrow> table_id \<Rightarrow> catalog_order_id \<Rightarrow> catalog_order_id \<Rightarrow> unit catalog_result" where
  "reject_table_metadata_conflicts_since_base kv catalog table_id base_order through_order =
     (if through_order < base_order
      then Inl (InvalidMutation ''table metadata conflict end order cannot precede base order'')
      else if through_order = base_order then Inr ()
      else
        rbind (load_table_at kv catalog table_id base_order) (\<lambda>base_table.
        rbind (table_drop_conflict_for_base_table kv catalog table_id base_order through_order base_table) (\<lambda>dropped.
          case dropped of
            Some dropped_at \<Rightarrow> Inl (TableLogicalConflict table_id dropped_at)
          | None \<Rightarrow>
              rbind (table_schema_conflict_for_base_table kv catalog table_id base_order through_order base_table)
                (\<lambda>changed. case changed of
                   Some changed_at \<Rightarrow> Inl (TableSchemaConflict table_id changed_at)
                 | None \<Rightarrow> Inr ()))))"

definition reject_table_conflicts_since_base ::
    "fake_kv \<Rightarrow> catalog_id \<Rightarrow> table_id \<Rightarrow> catalog_order_id \<Rightarrow> catalog_order_id \<Rightarrow> unit catalog_result" where
  "reject_table_conflicts_since_base kv catalog table_id base_order through_order =
     reject_table_metadata_conflicts_since_base kv catalog table_id base_order through_order"

section \<open>Committing versions\<close>

record table_version_replacement =
  rep_table_id :: table_id
  rep_previous :: table_row
  rep_next :: table_row

definition stage_table_replacement ::
    "fake_kv \<Rightarrow> catalog_id \<Rightarrow> catalog_order_id \<Rightarrow> table_version_replacement \<Rightarrow> kv_batch \<Rightarrow> kv_batch catalog_result" where
  "stage_table_replacement kv catalog ord rep b =
     (let previous = (rep_previous rep)\<lparr>tr_validity := (tr_validity (rep_previous rep))\<lparr>end_order := Some ord\<rparr>\<rparr>;
          nxt = (rep_next rep)\<lparr>tr_validity := validity_new ord None\<rparr>;
          prev_begin = begin_order (tr_validity previous);
          b1 = batch_put b (table_object_key catalog (rep_table_id rep) prev_begin) (table_row_encode previous);
          b2 = batch_put b1 (table_visibility_key catalog prev_begin (rep_table_id rep)) (table_row_encode previous);
          b3 = batch_put b2 (table_object_key catalog (rep_table_id rep) ord) (table_row_encode nxt);
          b4 = batch_put b3 (table_visibility_key catalog ord (rep_table_id rep)) (table_row_encode nxt);
          b5 = batch_put b4 (current_table_row_key catalog (rep_table_id rep)) (table_row_encode nxt)
      in stage_max_catalog_id_watermark kv b5 catalog (rep_table_id rep))"

definition commit_table_replacements ::
    "fake_kv \<Rightarrow> catalog_id \<Rightarrow> i64 \<Rightarrow> raw_snapshot_sequence \<Rightarrow> table_version_replacement list \<Rightarrow> unit kv_op" where
  "commit_table_replacements kv catalog now previous_sequence replacements =
     (if replacements = [] then (Inr (), kv)
      else
        let (ord, kv1) = fake_generated_order_id kv;
            snapshot = snapshot_row_new now ord (raw_sequence_next previous_sequence);
            b = stage_snapshot batch_new catalog snapshot
        in attempt kv1
             (if \<exists>rep \<in> set replacements. \<not> same_user_visible_schema_as (rep_previous rep) (rep_next rep)
              then stage_next_schema_version kv1 b catalog snapshot
              else stage_next_catalog_snapshot_version kv1 b catalog) (\<lambda>b1.
           attempt kv1 (rfold (stage_table_replacement kv1 catalog ord) replacements b1) (\<lambda>b2.
             commit_then kv1 b2 ())))"

definition commit_replaced_table_version ::
    "fake_kv \<Rightarrow> catalog_id \<Rightarrow> i64 \<Rightarrow> table_id \<Rightarrow> raw_snapshot_sequence \<Rightarrow> table_row \<Rightarrow> table_row \<Rightarrow> unit kv_op" where
  "commit_replaced_table_version kv catalog now table_id previous_sequence previous nxt =
     commit_table_replacements kv catalog now previous_sequence
       [\<lparr>rep_table_id = table_id, rep_previous = previous, rep_next = nxt\<rparr>]"

section \<open>Creating tables\<close>

definition create_table_version ::
    "fake_kv \<Rightarrow> catalog_id \<Rightarrow> table_id \<Rightarrow> rust_string \<Rightarrow> catalog_order_id \<Rightarrow> table_row kv_op" where
  "create_table_version kv catalog table_id name ord =
     (let row = table_row_new table_id name ord;
          b = stage_table_visibility_row
                (batch_put batch_new (table_object_key catalog table_id ord) (table_row_encode row)) catalog row
      in attempt kv (stage_max_catalog_id_watermark kv b catalog table_id) (\<lambda>b1. commit_then kv b1 row))"

definition eq_ignore_ascii_case :: "rust_string \<Rightarrow> rust_string \<Rightarrow> bool" where
  "eq_ignore_ascii_case a b \<longleftrightarrow> to_ascii_lowercase a = to_ascii_lowercase b"

definition reject_create_table_conflict ::
    "fake_kv \<Rightarrow> catalog_id \<Rightarrow> table_row \<Rightarrow> catalog_order_id \<Rightarrow> unit catalog_result" where
  "reject_create_table_conflict kv catalog table snapshot_order =
     rbind (list_tables_at kv catalog snapshot_order) (\<lambda>tables.
       rfold (\<lambda>current _.
         if tr_table_id current = tr_table_id table then Inl (InvalidMutation ''table id already exists'')
         else if tr_schema_id current = tr_schema_id table \<and> eq_ignore_ascii_case (tr_name current) (tr_name table)
         then Inl (InvalidMutation ''table name already exists in schema'')
         else Inr ()) tables ())"

definition commit_create_table_row :: "fake_kv \<Rightarrow> catalog_id \<Rightarrow> i64 \<Rightarrow> table_row \<Rightarrow> table_row kv_op" where
  "commit_create_table_row kv catalog now table =
     attempt kv (latest_snapshot kv catalog) (\<lambda>latest.
     attempt kv (case latest of
                   Some snapshot \<Rightarrow> reject_create_table_conflict kv catalog table (sn_order snapshot)
                 | None \<Rightarrow> Inr ()) (\<lambda>_.
       let (ord, kv1) = fake_generated_order_id kv;
           snapshot = snapshot_row_for_next_sequence now latest ord;
           table1 = table\<lparr>tr_validity := validity_new ord None\<rparr>;
           b = stage_snapshot batch_new catalog snapshot
       in attempt kv1 (stage_next_schema_version kv1 b catalog snapshot) (\<lambda>b1.
          let b2 = batch_put b1 (table_object_key catalog (tr_table_id table1) ord) (table_row_encode table1);
              b3 = stage_current_table_row b2 catalog table1;
              b4 = stage_table_visibility_row b3 catalog table1
          in attempt kv1 (stage_max_catalog_id_watermark kv1 b4 catalog (tr_table_id table1)) (\<lambda>b5.
               commit_then kv1 b5 table1))))"

definition commit_create_table :: "fake_kv \<Rightarrow> catalog_id \<Rightarrow> i64 \<Rightarrow> table_id \<Rightarrow> rust_string \<Rightarrow> table_row kv_op" where
  "commit_create_table kv catalog now table_id name =
     commit_create_table_row kv catalog now (table_row_new table_id name (uuid_v7 0))"

section \<open>Adding columns\<close>

definition reject_duplicate_columns :: "table_row \<Rightarrow> table_column_row list \<Rightarrow> unit catalog_result" where
  "reject_duplicate_columns table columns =
     rbind (rfold (\<lambda>column (column_ids, column_names).
       if tc_column_id column \<in> column_ids then Inl (InvalidMutation ''column id already exists on table'')
       else if (tc_parent_id column, to_ascii_lowercase (tc_name column)) \<in> column_names
       then Inl (InvalidMutation ''column already exists on table'')
       else Inr (insert (tc_column_id column) column_ids,
                 insert (tc_parent_id column, to_ascii_lowercase (tc_name column)) column_names))
       columns
       (set (map tc_column_id (tr_columns table)),
        set (map (\<lambda>column. (tc_parent_id column, to_ascii_lowercase (tc_name column))) (tr_columns table)))) (\<lambda>_. Inr ())"

definition commit_append_table_columns ::
    "fake_kv \<Rightarrow> catalog_id \<Rightarrow> i64 \<Rightarrow> table_id \<Rightarrow> table_column_row list \<Rightarrow> table_row kv_op" where
  "commit_append_table_columns kv catalog now table_id columns =
     (if columns = [] then (load_current_table kv catalog table_id, kv)
      else attempt kv (latest_snapshot kv catalog) (\<lambda>latest.
        case latest of
          None \<Rightarrow> (Inl (NotFound ''catalog snapshot''), kv)
        | Some snapshot \<Rightarrow>
            attempt kv (load_current_table_row kv catalog table_id) (\<lambda>row.
              case row of
                None \<Rightarrow> (Inl (NotFound ''table''), kv)
              | Some previous \<Rightarrow>
                  attempt kv (reject_duplicate_columns previous columns) (\<lambda>_.
                    let nxt = previous\<lparr>tr_columns := tr_columns previous @ columns\<rparr>;
                        (done, kv1) = commit_table_replacements kv catalog now (sn_sequence snapshot)
                          [\<lparr>rep_table_id = table_id, rep_previous = previous, rep_next = nxt\<rparr>]
                    in attempt kv1 done (\<lambda>_. (load_current_table kv1 catalog table_id, kv1))))))"

definition commit_append_table_columns_with_conflict_check ::
    "fake_kv \<Rightarrow> catalog_id \<Rightarrow> i64 \<Rightarrow> table_id \<Rightarrow> catalog_order_id \<Rightarrow> catalog_order_id \<Rightarrow> table_column_row list \<Rightarrow>
     table_row kv_op" where
  "commit_append_table_columns_with_conflict_check kv catalog now table_id base_order through_order columns =
     attempt kv (reject_table_conflicts_since_base kv catalog table_id base_order through_order) (\<lambda>_.
       commit_append_table_columns kv catalog now table_id columns)"

section \<open>Renaming tables\<close>

record table_rename =
  rename_table_id :: table_id
  rename_new_name :: rust_string

record renamed_table =
  rn_previous :: table_row
  rn_renamed :: table_row

text \<open>Inserting into a set of ids seen so far, as the checks for repeated ids do.\<close>

definition insert_unique :: "catalog_error \<Rightarrow> 'k \<Rightarrow> 'k set \<Rightarrow> 'k set catalog_result" where
  "insert_unique err k seen = (if k \<in> seen then Inl err else Inr (insert k seen))"

definition reject_duplicate_renames :: "table_rename list \<Rightarrow> unit catalog_result" where
  "reject_duplicate_renames renames =
     rbind (rfold (\<lambda>r. insert_unique (InvalidMutation ''table is listed more than once for rename'') (rename_table_id r))
       renames {}) (\<lambda>_. Inr ())"

definition reject_table_name_conflict ::
    "table_row list \<Rightarrow> table_rename list \<Rightarrow> renamed_table list \<Rightarrow> table_row \<Rightarrow> rust_string \<Rightarrow> unit catalog_result" where
  "reject_table_name_conflict current_tables renames renamed previous new_name =
     (let conflicts_with_current = (\<exists>table \<in> set current_tables.
            tr_schema_id table = tr_schema_id previous \<and> tr_table_id table \<noteq> tr_table_id previous \<and>
            \<not> (\<exists>r \<in> set renames. rename_table_id r = tr_table_id table) \<and> eq_ignore_ascii_case (tr_name table) new_name);
          conflicts_with_renamed = (\<exists>r \<in> set renamed.
            tr_schema_id (rn_renamed r) = tr_schema_id previous \<and> eq_ignore_ascii_case (tr_name (rn_renamed r)) new_name)
      in if conflicts_with_current \<or> conflicts_with_renamed
         then Inl (InvalidMutation ''table name already exists in schema'') else Inr ())"

definition rename_one_table ::
    "table_row list \<Rightarrow> table_rename list \<Rightarrow> table_rename \<Rightarrow> renamed_table list \<times> table_version_replacement list \<Rightarrow>
     (renamed_table list \<times> table_version_replacement list) catalog_result" where
  "rename_one_table current_tables renames rename acc =
     (case acc of (renamed, replacements) \<Rightarrow>
        case find (\<lambda>table. tr_table_id table = rename_table_id rename) current_tables of
          None \<Rightarrow> Inl (NotFound ''table'')
        | Some previous \<Rightarrow>
            rbind (reject_table_name_conflict current_tables renames renamed previous (rename_new_name rename)) (\<lambda>_.
              let nxt = previous\<lparr>tr_name := rename_new_name rename\<rparr>
              in Inr (renamed @ [\<lparr>rn_previous = previous, rn_renamed = nxt\<rparr>],
                      replacements @ [\<lparr>rep_table_id = tr_table_id previous, rep_previous = previous, rep_next = nxt\<rparr>])))"

definition commit_rename_tables :: "fake_kv \<Rightarrow> catalog_id \<Rightarrow> i64 \<Rightarrow> table_rename list \<Rightarrow> renamed_table list kv_op" where
  "commit_rename_tables kv catalog now renames =
     (if renames = [] then (Inr [], kv)
      else attempt kv (reject_duplicate_renames renames) (\<lambda>_.
        attempt kv (latest_snapshot kv catalog) (\<lambda>latest.
          case latest of
            None \<Rightarrow> (Inl (NotFound ''catalog snapshot''), kv)
          | Some snapshot \<Rightarrow>
              attempt kv (list_tables_at kv catalog (sn_order snapshot)) (\<lambda>current_tables.
              attempt kv (rfold (rename_one_table current_tables renames) renames ([], [])) (\<lambda>(renamed, replacements).
                let (done, kv1) = commit_table_replacements kv catalog now (sn_sequence snapshot) replacements
                in attempt kv1 done (\<lambda>_. (Inr renamed, kv1)))))))"

definition commit_rename_tables_with_conflict_check ::
    "fake_kv \<Rightarrow> catalog_id \<Rightarrow> i64 \<Rightarrow> catalog_order_id \<Rightarrow> catalog_order_id \<Rightarrow> table_rename list \<Rightarrow> renamed_table list kv_op" where
  "commit_rename_tables_with_conflict_check kv catalog now base_order through_order renames =
     attempt kv (rfold (\<lambda>r _. reject_table_conflicts_since_base kv catalog (rename_table_id r) base_order through_order)
       renames ()) (\<lambda>_. commit_rename_tables kv catalog now renames)"

end
