(* ===== verification/Cat_Objects.thy ===== *)
theory Cat_Objects
  imports Cat_Tables
begin

text \<open>
  The stores of schemas (\<open>schema_store.rs\<close>), views (\<open>view_store.rs\<close>) and macros (\<open>macro_store.rs\<close>). All three keep
  their objects as versions by id and begin order; they differ in the conflicts they refuse. The row caches of the
  process are not modelled: every read is the one the code makes on a miss.
\<close>

section \<open>Schemas\<close>

definition order_from_key_tail :: "bytes \<Rightarrow> catalog_order_id \<Rightarrow> catalog_order_id catalog_result" where
  "order_from_key_tail tail value_order =
     (if length tail \<noteq> 16 then Inl (InvalidKey ''schema object key order must be 16 bytes'')
      else Inr (order_from_bytes
        (if order_as_bytes value_order = tail then order_kind value_order else FdbVersionstamp) tail))"

definition decode_schema_item :: "catalog_id \<Rightarrow> bytes \<Rightarrow> bytes \<Rightarrow> schema_row catalog_result" where
  "decode_schema_item catalog key v =
     rbind (schema_row_decode v) (\<lambda>row.
       let expected_prefix = schema_object_prefix catalog (sr_schema_id row)
       in case strip_prefix expected_prefix key of
            None \<Rightarrow> Inl (InvalidKey ''schema key prefix does not match decoded row'')
          | Some tail \<Rightarrow>
              rbind (order_from_key_tail tail (begin_order (sr_validity row))) (\<lambda>ord.
                Inr (row\<lparr>sr_validity := (sr_validity row)\<lparr>begin_order := ord\<rparr>\<rparr>)))"

definition list_schema_rows_uncached :: "fake_kv \<Rightarrow> catalog_id \<Rightarrow> schema_row list catalog_result" where
  "list_schema_rows_uncached kv catalog =
     rbind (fake_scan_prefix kv (schema_object_scan_prefix catalog) Forward None)
       (rmap (\<lambda>item. decode_schema_item catalog (ri_key item) (ri_value item)))"

definition list_schema_rows :: "fake_kv \<Rightarrow> catalog_id \<Rightarrow> schema_row list catalog_result" where
  "list_schema_rows kv catalog = list_schema_rows_uncached kv catalog"

definition list_schemas_at :: "fake_kv \<Rightarrow> catalog_id \<Rightarrow> catalog_order_id \<Rightarrow> schema_row list catalog_result" where
  "list_schemas_at kv catalog snapshot_order =
     rbind (list_schema_rows_uncached kv catalog) (\<lambda>rows.
       Inr (filter (\<lambda>row. is_visible_at (sr_validity row) snapshot_order) rows))"

definition load_schema_at ::
    "fake_kv \<Rightarrow> catalog_id \<Rightarrow> schema_id \<Rightarrow> catalog_order_id \<Rightarrow> schema_row option catalog_result" where
  "load_schema_at kv catalog schema_id snapshot_order =
     rbind (fake_scan_range kv (schema_object_prefix catalog schema_id)
              (prefix_end (schema_object_key catalog schema_id snapshot_order)) Reverse (Some 1)) (\<lambda>items.
       case items of
         [] \<Rightarrow> Inr None
       | item # _ \<Rightarrow>
           rbind (decode_schema_item catalog (ri_key item) (ri_value item)) (\<lambda>row.
             if is_visible_at (sr_validity row) snapshot_order then Inr (Some row) else Inr None))"

definition commit_create_schema_rows :: "fake_kv \<Rightarrow> catalog_id \<Rightarrow> i64 \<Rightarrow> schema_row list \<Rightarrow> schema_row list kv_op" where
  "commit_create_schema_rows kv catalog now schemas =
     (if schemas = [] then (Inr [], kv)
      else attempt kv (latest_snapshot kv catalog) (\<lambda>latest.
        let (ord, kv1) = fake_generated_order_id kv;
            snapshot = snapshot_row_for_next_sequence now latest ord;
            b = stage_snapshot batch_new catalog snapshot;
            schemas1 = map (\<lambda>schema. schema\<lparr>sr_validity := validity_new ord None\<rparr>) schemas
        in attempt kv1 (stage_next_schema_version kv1 b catalog snapshot) (\<lambda>b1.
           let b2 = fold (\<lambda>schema b. batch_put b (schema_object_key catalog (sr_schema_id schema) ord)
                 (schema_row_encode schema)) schemas1 b1
           in attempt kv1 (stage_max_catalog_id_watermark kv1 b2 catalog (Max (sr_schema_id ` set schemas1))) (\<lambda>b3.
             commit_then kv1 b3 schemas1))))"

definition stage_drop_schema ::
    "fake_kv \<Rightarrow> catalog_id \<Rightarrow> catalog_order_id \<Rightarrow> catalog_order_id \<Rightarrow> schema_id \<Rightarrow> kv_batch \<times> schema_row list \<Rightarrow>
     (kv_batch \<times> schema_row list) catalog_result" where
  "stage_drop_schema kv catalog latest_order ord schema_id acc =
     (case acc of (b, dropped) \<Rightarrow>
        rbind (load_schema_at kv catalog schema_id latest_order) (\<lambda>found.
          case found of
            None \<Rightarrow> Inl (NotFound ''schema'')
          | Some row \<Rightarrow>
              let schema = row\<lparr>sr_validity := (sr_validity row)\<lparr>end_order := Some ord\<rparr>\<rparr>
              in Inr (batch_put b (schema_object_key catalog (sr_schema_id schema) (begin_order (sr_validity schema)))
                        (schema_row_encode schema), dropped @ [schema])))"

definition commit_drop_schema_rows :: "fake_kv \<Rightarrow> catalog_id \<Rightarrow> i64 \<Rightarrow> schema_id list \<Rightarrow> schema_row list kv_op" where
  "commit_drop_schema_rows kv catalog now schema_ids =
     (if schema_ids = [] then (Inr [], kv)
      else attempt kv (latest_snapshot kv catalog) (\<lambda>latest.
        case latest of
          None \<Rightarrow> (Inl (NotFound ''catalog snapshot''), kv)
        | Some last_row \<Rightarrow>
            let (ord, kv1) = fake_generated_order_id kv;
                snapshot = snapshot_row_for_next_sequence now (Some last_row) ord;
                b = stage_snapshot batch_new catalog snapshot
            in attempt kv1 (stage_next_schema_version kv1 b catalog snapshot) (\<lambda>b1.
               attempt kv1 (rfold (stage_drop_schema kv1 catalog (sn_order last_row) ord) schema_ids (b1, [])) (\<lambda>(b2, dropped).
                 commit_then kv1 b2 dropped))))"

section \<open>Views\<close>

record view_comment_change =
  vcc_view_id :: table_id
  vcc_comment :: "rust_string option"

record changed_view_comment =
  cvc_view_id :: table_id
  cvc_previous :: "rust_string option"
  cvc_changed :: "rust_string option"

record view_rename =
  vrn_view_id :: table_id
  vrn_new_name :: rust_string

record renamed_view =
  rv_previous :: view_row
  rv_renamed :: view_row

definition view_order_from_key ::
    "catalog_id \<Rightarrow> table_id \<Rightarrow> bytes \<Rightarrow> catalog_order_id \<Rightarrow> catalog_order_id catalog_result" where
  "view_order_from_key catalog view_id key value_order =
     (case strip_prefix (view_object_prefix catalog view_id) key of
        None \<Rightarrow> Inl (InvalidKey ''view object key has wrong prefix'')
      | Some tail \<Rightarrow>
          if length tail \<noteq> 16 then Inl (InvalidKey ''view object key order must be 16 bytes'')
          else Inr (order_from_bytes
            (if order_as_bytes value_order = tail then order_kind value_order else FdbVersionstamp) tail))"

definition decode_view_item :: "catalog_id \<Rightarrow> bytes \<Rightarrow> bytes \<Rightarrow> view_row catalog_result" where
  "decode_view_item catalog key v =
     rbind (view_row_decode v) (\<lambda>row.
     rbind (view_order_from_key catalog (vr_view_id row) key (begin_order (vr_validity row))) (\<lambda>ord.
       Inr (row\<lparr>vr_validity := (vr_validity row)\<lparr>begin_order := ord\<rparr>\<rparr>)))"

definition list_view_rows_uncached :: "fake_kv \<Rightarrow> catalog_id \<Rightarrow> view_row list catalog_result" where
  "list_view_rows_uncached kv catalog =
     rbind (fake_scan_prefix kv (view_object_scan_prefix catalog) Forward None)
       (rmap (\<lambda>item. decode_view_item catalog (ri_key item) (ri_value item)))"

definition list_view_rows :: "fake_kv \<Rightarrow> catalog_id \<Rightarrow> view_row list catalog_result" where
  "list_view_rows kv catalog = list_view_rows_uncached kv catalog"

definition list_views_at :: "fake_kv \<Rightarrow> catalog_id \<Rightarrow> catalog_order_id \<Rightarrow> view_row list catalog_result" where
  "list_views_at kv catalog snapshot_order =
     rbind (list_view_rows_uncached kv catalog) (\<lambda>rows.
       Inr (filter (\<lambda>row. is_visible_at (vr_validity row) snapshot_order) rows))"

definition load_view_at ::
    "fake_kv \<Rightarrow> catalog_id \<Rightarrow> table_id \<Rightarrow> catalog_order_id \<Rightarrow> view_row option catalog_result" where
  "load_view_at kv catalog view_id snapshot_order =
     rbind (fake_scan_range kv (view_object_prefix catalog view_id)
              (prefix_end (view_object_key catalog view_id snapshot_order)) Reverse (Some 1)) (\<lambda>items.
       case items of
         [] \<Rightarrow> Inr None
       | item # _ \<Rightarrow>
           rbind (decode_view_item catalog (ri_key item) (ri_value item)) (\<lambda>row.
             if is_visible_at (vr_validity row) snapshot_order then Inr (Some row) else Inr None))"

definition reject_create_view_conflict ::
    "fake_kv \<Rightarrow> catalog_id \<Rightarrow> view_row \<Rightarrow> catalog_order_id \<Rightarrow> unit catalog_result" where
  "reject_create_view_conflict kv catalog view snapshot_order =
     rbind (list_views_at kv catalog snapshot_order) (\<lambda>views.
       rfold (\<lambda>current _.
         if vr_view_id current = vr_view_id view then Inl (InvalidMutation ''view id already exists'')
         else if vr_schema_id current = vr_schema_id view \<and> eq_ignore_ascii_case (vr_name current) (vr_name view)
         then Inl (InvalidMutation ''view name already exists in schema'')
         else Inr ()) views ())"

definition commit_create_view_row :: "fake_kv \<Rightarrow> catalog_id \<Rightarrow> i64 \<Rightarrow> view_row \<Rightarrow> view_row kv_op" where
  "commit_create_view_row kv catalog now view =
     attempt kv (latest_snapshot kv catalog) (\<lambda>latest.
     attempt kv (case latest of
                   Some snapshot \<Rightarrow> reject_create_view_conflict kv catalog view (sn_order snapshot)
                 | None \<Rightarrow> Inr ()) (\<lambda>_.
       let (ord, kv1) = fake_generated_order_id kv;
           snapshot = snapshot_row_for_next_sequence now latest ord;
           view1 = view\<lparr>vr_validity := validity_new ord None\<rparr>;
           b = stage_snapshot batch_new catalog snapshot
       in attempt kv1 (stage_next_schema_version kv1 b catalog snapshot) (\<lambda>b1.
          let b2 = batch_put b1 (view_object_key catalog (vr_view_id view1) ord) (view_row_encode view1)
          in attempt kv1 (stage_max_catalog_id_watermark kv1 b2 catalog (vr_view_id view1)) (\<lambda>b3.
               commit_then kv1 b3 view1))))"

text \<open>Ending the version of a view and beginning its successor, as the comment change and the rename do.\<close>

definition stage_view_version ::
    "fake_kv \<Rightarrow> catalog_id \<Rightarrow> table_id \<Rightarrow> catalog_order_id \<Rightarrow> view_row \<Rightarrow> view_row \<Rightarrow> kv_batch \<Rightarrow> kv_batch catalog_result" where
  "stage_view_version kv catalog view_id ord previous nxt b =
     (let b1 = batch_put b (view_object_key catalog view_id (begin_order (vr_validity previous))) (view_row_encode previous);
          b2 = batch_put b1 (view_object_key catalog view_id ord) (view_row_encode nxt)
      in stage_max_catalog_id_watermark kv b2 catalog view_id)"

definition commit_change_view_comment ::
    "fake_kv \<Rightarrow> catalog_id \<Rightarrow> i64 \<Rightarrow> view_comment_change \<Rightarrow> changed_view_comment kv_op" where
  "commit_change_view_comment kv catalog now change =
     attempt kv (latest_snapshot kv catalog) (\<lambda>latest.
       case latest of
         None \<Rightarrow> (Inl (NotFound ''catalog snapshot''), kv)
       | Some last_row \<Rightarrow>
           attempt kv (load_view_at kv catalog (vcc_view_id change) (sn_order last_row)) (\<lambda>found.
             case found of
               None \<Rightarrow> (Inl (NotFound ''view''), kv)
             | Some row \<Rightarrow>
                 let (ord, kv1) = fake_generated_order_id kv;
                     snapshot = snapshot_row_new now ord (raw_sequence_next (sn_sequence last_row));
                     previous = row\<lparr>vr_validity := (vr_validity row)\<lparr>end_order := Some ord\<rparr>\<rparr>;
                     nxt = previous\<lparr>vr_comment := vcc_comment change, vr_validity := validity_new ord None\<rparr>;
                     b = stage_snapshot batch_new catalog snapshot
                 in attempt kv1 (stage_next_schema_version kv1 b catalog snapshot) (\<lambda>b1.
                    attempt kv1 (stage_view_version kv1 catalog (vcc_view_id change) ord previous nxt b1) (\<lambda>b2.
                      commit_then kv1 b2 \<lparr>cvc_view_id = vcc_view_id change, cvc_previous = vr_comment row,
                        cvc_changed = vcc_comment change\<rparr>))))"

definition reject_duplicate_view_renames :: "view_rename list \<Rightarrow> unit catalog_result" where
  "reject_duplicate_view_renames renames =
     rbind (rfold (\<lambda>r unique. insert_unique (InvalidMutation ''view is listed more than once for rename'') (vrn_view_id r) unique)
       renames {}) (\<lambda>_. Inr ())"

definition reject_duplicate_view_ids :: "table_id list \<Rightarrow> unit catalog_result" where
  "reject_duplicate_view_ids view_ids =
     rbind (rfold (insert_unique (InvalidMutation ''view is listed more than once for drop'')) view_ids {}) (\<lambda>_. Inr ())"

definition reject_view_name_conflict ::
    "view_row list \<Rightarrow> renamed_view list \<Rightarrow> view_row \<Rightarrow> rust_string \<Rightarrow> unit catalog_result" where
  "reject_view_name_conflict current_views renamed_views previous new_name =
     (if (\<exists>view \<in> set current_views. vr_schema_id view = vr_schema_id previous \<and> vr_view_id view \<noteq> vr_view_id previous \<and>
            eq_ignore_ascii_case (vr_name view) new_name) \<or>
         (\<exists>view \<in> set renamed_views. vr_schema_id (rv_renamed view) = vr_schema_id previous \<and>
            eq_ignore_ascii_case (vr_name (rv_renamed view)) new_name)
      then Inl (InvalidMutation ''view name already exists in schema'') else Inr ())"

definition stage_rename_view ::
    "fake_kv \<Rightarrow> catalog_id \<Rightarrow> view_row list \<Rightarrow> catalog_order_id \<Rightarrow> view_rename \<Rightarrow> kv_batch \<times> renamed_view list \<Rightarrow>
     (kv_batch \<times> renamed_view list) catalog_result" where
  "stage_rename_view kv catalog current_views ord rename acc =
     (case acc of (b, renamed) \<Rightarrow>
        case find (\<lambda>view. vr_view_id view = vrn_view_id rename) current_views of
          None \<Rightarrow> Inl (NotFound ''view'')
        | Some row \<Rightarrow>
            rbind (reject_view_name_conflict current_views renamed row (vrn_new_name rename)) (\<lambda>_.
              let previous = row\<lparr>vr_validity := (vr_validity row)\<lparr>end_order := Some ord\<rparr>\<rparr>;
                  nxt = previous\<lparr>vr_name := vrn_new_name rename, vr_validity := validity_new ord None\<rparr>
              in rbind (stage_view_version kv catalog (vr_view_id previous) ord previous nxt b) (\<lambda>b1.
                   Inr (b1, renamed @ [\<lparr>rv_previous = previous, rv_renamed = nxt\<rparr>]))))"

definition commit_rename_views :: "fake_kv \<Rightarrow> catalog_id \<Rightarrow> i64 \<Rightarrow> view_rename list \<Rightarrow> renamed_view list kv_op" where
  "commit_rename_views kv catalog now renames =
     (if renames = [] then (Inr [], kv)
      else attempt kv (reject_duplicate_view_renames renames) (\<lambda>_.
        attempt kv (latest_snapshot kv catalog) (\<lambda>latest.
          case latest of
            None \<Rightarrow> (Inl (NotFound ''catalog snapshot''), kv)
          | Some last_row \<Rightarrow>
              attempt kv (list_views_at kv catalog (sn_order last_row)) (\<lambda>current_views.
                let (ord, kv1) = fake_generated_order_id kv;
                    snapshot = snapshot_row_new now ord (raw_sequence_next (sn_sequence last_row));
                    b = stage_snapshot batch_new catalog snapshot
                in attempt kv1 (stage_next_schema_version kv1 b catalog snapshot) (\<lambda>b1.
                   attempt kv1 (rfold (stage_rename_view kv1 catalog current_views ord) renames (b1, [])) (\<lambda>(b2, renamed).
                     commit_then kv1 b2 renamed))))))"

definition stage_drop_view ::
    "fake_kv \<Rightarrow> catalog_id \<Rightarrow> catalog_order_id \<Rightarrow> catalog_order_id \<Rightarrow> table_id \<Rightarrow> kv_batch \<times> view_row list \<Rightarrow>
     (kv_batch \<times> view_row list) catalog_result" where
  "stage_drop_view kv catalog latest_order ord view_id acc =
     (case acc of (b, dropped) \<Rightarrow>
        rbind (load_view_at kv catalog view_id latest_order) (\<lambda>found.
          case found of
            None \<Rightarrow> Inl (NotFound ''view'')
          | Some row \<Rightarrow>
              let view = row\<lparr>vr_validity := (vr_validity row)\<lparr>end_order := Some ord\<rparr>\<rparr>
              in Inr (batch_put b (view_object_key catalog (vr_view_id view) (begin_order (vr_validity view)))
                        (view_row_encode view), dropped @ [view])))"

definition commit_drop_views :: "fake_kv \<Rightarrow> catalog_id \<Rightarrow> i64 \<Rightarrow> table_id list \<Rightarrow> view_row list kv_op" where
  "commit_drop_views kv catalog now view_ids =
     (if view_ids = [] then (Inr [], kv)
      else attempt kv (reject_duplicate_view_ids view_ids) (\<lambda>_.
        attempt kv (latest_snapshot kv catalog) (\<lambda>latest.
          case latest of
            None \<Rightarrow> (Inl (NotFound ''catalog snapshot''), kv)
          | Some last_row \<Rightarrow>
              let (ord, kv1) = fake_generated_order_id kv;
                  snapshot = snapshot_row_new now ord (raw_sequence_next (sn_sequence last_row));
                  b = stage_snapshot batch_new catalog snapshot
              in attempt kv1 (stage_next_schema_version kv1 b catalog snapshot) (\<lambda>b1.
                 attempt kv1 (rfold (stage_drop_view kv1 catalog (sn_order last_row) ord) view_ids (b1, [])) (\<lambda>(b2, dropped).
                   commit_then kv1 b2 dropped)))))"

section \<open>Macros\<close>

definition macro_types :: "macro_row \<Rightarrow> rust_string set" where
  "macro_types macro_row = mi_macro_type ` set (mr_implementations macro_row)"

definition macro_order_from_key ::
    "catalog_id \<Rightarrow> macro_id \<Rightarrow> bytes \<Rightarrow> catalog_order_id \<Rightarrow> catalog_order_id catalog_result" where
  "macro_order_from_key catalog macro_id key value_order =
     (case strip_prefix (macro_object_prefix catalog macro_id) key of
        None \<Rightarrow> Inl (InvalidKey ''macro object key has wrong prefix'')
      | Some tail \<Rightarrow>
          if length tail \<noteq> 16 then Inl (InvalidKey ''macro object key order must be 16 bytes'')
          else Inr (order_from_bytes
            (if order_as_bytes value_order = tail then order_kind value_order else FdbVersionstamp) tail))"

definition decode_macro_item :: "catalog_id \<Rightarrow> bytes \<Rightarrow> bytes \<Rightarrow> macro_row catalog_result" where
  "decode_macro_item catalog key v =
     rbind (macro_row_decode v) (\<lambda>row.
     rbind (macro_order_from_key catalog (mr_macro_id row) key (begin_order (mr_validity row))) (\<lambda>ord.
       Inr (row\<lparr>mr_validity := (mr_validity row)\<lparr>begin_order := ord\<rparr>\<rparr>)))"

definition list_macro_rows_uncached :: "fake_kv \<Rightarrow> catalog_id \<Rightarrow> macro_row list catalog_result" where
  "list_macro_rows_uncached kv catalog =
     rbind (fake_scan_prefix kv (macro_object_scan_prefix catalog) Forward None)
       (rmap (\<lambda>item. decode_macro_item catalog (ri_key item) (ri_value item)))"

definition list_macro_rows :: "fake_kv \<Rightarrow> catalog_id \<Rightarrow> macro_row list catalog_result" where
  "list_macro_rows kv catalog = list_macro_rows_uncached kv catalog"

definition list_macros_at :: "fake_kv \<Rightarrow> catalog_id \<Rightarrow> catalog_order_id \<Rightarrow> macro_row list catalog_result" where
  "list_macros_at kv catalog snapshot_order =
     rbind (list_macro_rows_uncached kv catalog) (\<lambda>rows.
       Inr (filter (\<lambda>row. is_visible_at (mr_validity row) snapshot_order) rows))"

definition load_macro_at ::
    "fake_kv \<Rightarrow> catalog_id \<Rightarrow> macro_id \<Rightarrow> catalog_order_id \<Rightarrow> macro_row option catalog_result" where
  "load_macro_at kv catalog macro_id snapshot_order =
     rbind (fake_scan_range kv (macro_object_prefix catalog macro_id)
              (prefix_end (macro_object_key catalog macro_id snapshot_order)) Reverse (Some 1)) (\<lambda>items.
       case items of
         [] \<Rightarrow> Inr None
       | item # _ \<Rightarrow>
           rbind (decode_macro_item catalog (ri_key item) (ri_value item)) (\<lambda>row.
             if is_visible_at (mr_validity row) snapshot_order then Inr (Some row) else Inr None))"

text \<open>The macro types of a row are visited in order; a batch refuses ids and identities it already used.\<close>

definition check_macro_type ::
    "macro_row list \<Rightarrow> macro_row \<Rightarrow> rust_string \<Rightarrow> (schema_id \<times> rust_string \<times> rust_string) set \<Rightarrow>
     (schema_id \<times> rust_string \<times> rust_string) set catalog_result" where
  "check_macro_type current_macros macro_row macro_type requested =
     rbind (insert_unique (InvalidMutation ''conflict creating macro: duplicate macro in schema'')
       (mr_schema_id macro_row, mr_name macro_row, macro_type) requested) (\<lambda>requested1.
     if \<exists>current \<in> set current_macros. mr_schema_id current = mr_schema_id macro_row \<and> mr_name current = mr_name macro_row \<and>
          macro_type \<in> macro_types current
     then Inl (InvalidMutation ''conflict creating macro: macro already exists in schema'')
     else Inr requested1)"

definition check_macro ::
    "macro_row list \<Rightarrow> macro_row \<Rightarrow> (schema_id \<times> rust_string \<times> rust_string) set \<times> macro_id set \<Rightarrow>
     ((schema_id \<times> rust_string \<times> rust_string) set \<times> macro_id set) catalog_result" where
  "check_macro current_macros macro_row acc =
     (case acc of (requested, requested_ids) \<Rightarrow>
        rbind (insert_unique (InvalidMutation ''conflict creating macro: macro id is used more than once'')
          (mr_macro_id macro_row) requested_ids) (\<lambda>requested_ids1.
        if \<exists>current \<in> set current_macros. mr_macro_id current = mr_macro_id macro_row
        then Inl (InvalidMutation ''conflict creating macro: macro id already exists'')
        else rbind (rfold (check_macro_type current_macros macro_row) (sorted_list_of_set (macro_types macro_row)) requested)
          (\<lambda>requested1. Inr (requested1, requested_ids1))))"

definition reject_macro_create_conflicts ::
    "fake_kv \<Rightarrow> catalog_id \<Rightarrow> catalog_order_id \<Rightarrow> macro_row list \<Rightarrow> unit catalog_result" where
  "reject_macro_create_conflicts kv catalog latest_order macros =
     rbind (list_macros_at kv catalog latest_order) (\<lambda>current_macros.
     rbind (rfold (check_macro current_macros) macros ({}, {})) (\<lambda>_. Inr ()))"

definition commit_create_macro_rows ::
    "fake_kv \<Rightarrow> catalog_id \<Rightarrow> i64 \<Rightarrow> macro_row list \<Rightarrow> raw_snapshot_sequence option \<Rightarrow> macro_row list kv_op" where
  "commit_create_macro_rows kv catalog now macros commit_raw_snapshot =
     (if macros = [] then (Inr [], kv)
      else attempt kv (latest_snapshot kv catalog) (\<lambda>latest.
        attempt kv (case latest of
                      Some last_row \<Rightarrow> reject_macro_create_conflicts kv catalog (sn_order last_row) macros
                    | None \<Rightarrow> Inr ()) (\<lambda>_.
          let (ord, kv1) = fake_generated_order_id kv;
              snapshot = (case commit_raw_snapshot of
                  None \<Rightarrow> snapshot_row_for_next_sequence now latest ord
                | Some sequence \<Rightarrow> snapshot_row_new now ord sequence);
              b = stage_snapshot batch_new catalog snapshot;
              macros1 = map (\<lambda>macro_row. macro_row\<lparr>mr_validity := validity_new ord None\<rparr>) macros
          in attempt kv1 (stage_next_schema_version kv1 b catalog snapshot) (\<lambda>b1.
             let b2 = fold (\<lambda>macro_row b. batch_put b (macro_object_key catalog (mr_macro_id macro_row) ord)
                   (macro_row_encode macro_row)) macros1 b1
             in attempt kv1 (stage_max_catalog_id_watermark kv1 b2 catalog (Max (mr_macro_id ` set macros1))) (\<lambda>b3.
               commit_then kv1 b3 macros1)))))"

definition reject_duplicate_macro_ids :: "macro_id list \<Rightarrow> unit catalog_result" where
  "reject_duplicate_macro_ids macro_ids =
     rbind (rfold (insert_unique (InvalidMutation ''macro is listed more than once for drop'')) macro_ids {}) (\<lambda>_. Inr ())"

definition stage_drop_macro ::
    "fake_kv \<Rightarrow> catalog_id \<Rightarrow> catalog_order_id \<Rightarrow> catalog_order_id \<Rightarrow> macro_id \<Rightarrow> kv_batch \<times> macro_row list \<Rightarrow>
     (kv_batch \<times> macro_row list) catalog_result" where
  "stage_drop_macro kv catalog latest_order ord macro_id acc =
     (case acc of (b, dropped) \<Rightarrow>
        rbind (load_macro_at kv catalog macro_id latest_order) (\<lambda>found.
          case found of
            None \<Rightarrow> Inl (InvalidMutation ''conflict dropping macro: macro no longer exists'')
          | Some row \<Rightarrow>
              let macro_row = row\<lparr>mr_validity := (mr_validity row)\<lparr>end_order := Some ord\<rparr>\<rparr>
              in Inr (batch_put b (macro_object_key catalog (mr_macro_id macro_row) (begin_order (mr_validity macro_row)))
                        (macro_row_encode macro_row), dropped @ [macro_row])))"

definition commit_drop_macros ::
    "fake_kv \<Rightarrow> catalog_id \<Rightarrow> i64 \<Rightarrow> macro_id list \<Rightarrow> raw_snapshot_sequence option \<Rightarrow> macro_row list kv_op" where
  "commit_drop_macros kv catalog now macro_ids commit_raw_snapshot =
     (if macro_ids = [] then (Inr [], kv)
      else attempt kv (reject_duplicate_macro_ids macro_ids) (\<lambda>_.
        attempt kv (latest_snapshot kv catalog) (\<lambda>latest.
          case latest of
            None \<Rightarrow> (Inl (NotFound ''catalog snapshot''), kv)
          | Some last_row \<Rightarrow>
              let (ord, kv1) = fake_generated_order_id kv;
                  snapshot = snapshot_row_new now ord
                    (case commit_raw_snapshot of Some sequence \<Rightarrow> sequence | None \<Rightarrow> raw_sequence_next (sn_sequence last_row));
                  b = stage_snapshot batch_new catalog snapshot
              in attempt kv1 (stage_next_schema_version kv1 b catalog snapshot) (\<lambda>b1.
                 attempt kv1 (rfold (stage_drop_macro kv1 catalog (sn_order last_row) ord) macro_ids (b1, [])) (\<lambda>(b2, dropped).
                   commit_then kv1 b2 dropped)))))"

end
