(* ===== verification/Cat_Table_Spec.thy ===== *)
theory Cat_Table_Spec
  imports Cat_Tables
begin

text \<open>
  The table store against its specification. The abstract state is a set of table versions; the store keeps it in
  three indexes: all versions by table and begin order, all versions by begin order and table, and the open
  versions by table. The lemmas show what the reads of \<open>table_store.rs\<close> return for such a store, whichever
  index they use, and what replacing, creating and dropping versions does to the set.
\<close>

section \<open>The three indexes\<close>

lemma decode_table_item_stored:
  "table_row_ok r \<Longrightarrow>
   decode_table_item c (table_object_key c (tr_table_id r) (begin_order (tr_validity r))) (table_row_encode r) = Inr r"
  by (simp add: decode_table_item_def table_row_roundtrip table_order_from_key_def table_object_key_def)

lemma decode_table_visibility_item_stored:
  "table_row_ok r \<Longrightarrow>
   decode_table_visibility_item c (table_visibility_key c (begin_order (tr_validity r)) (tr_table_id r)) (table_row_encode r) = Inr r"
  by (simp add: decode_table_visibility_item_def table_row_roundtrip table_visibility_key_def nth_append be_u64_def)

interpretation table_versions: versioned_objects "table_object_scan_prefix c" "table_object_prefix c" "table_object_key c"
  tr_table_id tr_validity table_row_encode table_row_ok "decode_table_item c" for c
proof
  show "\<exists>p. table_object_scan_prefix c = p @ [slash]" by (simp add: table_object_scan_prefix_def)
qed (simp_all add: decode_table_item_stored, simp_all add: table_object_key_def table_object_prefix_def)

interpretation table_visibility: stored_index "table_visibility_prefix c"
  "\<lambda>r. table_visibility_key c (begin_order (tr_validity r)) (tr_table_id r)" table_row_encode table_row_ok
  "decode_table_visibility_item c" for c
  by unfold_locales (simp add: table_visibility_key_def, erule decode_table_visibility_item_stored)

interpretation current_tables: stored_index "current_table_row_prefix c"
  "\<lambda>r. current_table_row_key c (tr_table_id r)" table_row_encode table_row_ok "\<lambda>k. table_row_decode" for c
  by unfold_locales (simp_all add: current_table_row_key_def table_row_roundtrip)

abbreviation is_open :: "table_row \<Rightarrow> bool" where
  "is_open r \<equiv> end_order (tr_validity r) = None"

definition tables_are :: "(bytes \<rightharpoonup> bytes) \<Rightarrow> catalog_id \<Rightarrow> table_row set \<Rightarrow> bool" where
  "tables_are m c T \<longleftrightarrow> table_versions.holds c m T \<and> table_visibility.holds c m T \<and>
     current_tables.holds c m {r \<in> T. is_open r}"

definition table_space :: "catalog_id \<Rightarrow> bytes set" where
  "table_space c = {k. prefix (table_object_scan_prefix c) k} \<union> {k. prefix (table_visibility_prefix c) k} \<union>
     {k. prefix (current_table_row_prefix c) k}"

lemma tables_are_local: "tables_are m c T \<Longrightarrow> (\<And>k. k \<in> table_space c \<Longrightarrow> m' k = m k) \<Longrightarrow> tables_are m' c T"
  unfolding tables_are_def table_space_def
  by (auto intro: table_versions.holds_local table_visibility.holds_local current_tables.holds_local)

lemma tables_are_finite: "tables_are (fake_get kv) c T \<Longrightarrow> finite T"
  by (auto simp: tables_are_def intro: table_versions.holds_finite)

lemma tables_are_ok: "tables_are m c T \<Longrightarrow> r \<in> T \<Longrightarrow> table_row_ok r"
  by (auto simp: tables_are_def table_versions.holds_ok)

lemma tables_are_empty: "tables_are Map.empty c {}"
  by (simp add: tables_are_def table_versions.holds_empty table_visibility.holds_empty current_tables.holds_empty)

abbreviation table_versions_wf :: "table_row set \<Rightarrow> bool" where
  "table_versions_wf \<equiv> versions_wf tr_table_id tr_validity"

section \<open>What the reads return\<close>

text \<open>The tables visible at an order, in id order.\<close>

lemma visible_unique:
  assumes "tables_are m c T" "table_versions_wf T" "x \<in> T" "y \<in> T" "tr_table_id x = tr_table_id y"
    "is_visible_at (tr_validity x) ord" "is_visible_at (tr_validity y) ord"
  shows "x = y"
proof -
  have "begin_order (tr_validity x) \<le> ord" "begin_order (tr_validity y) \<le> ord"
    using assms(6,7) by (auto simp: is_visible_at_def)
  with versions_wf_next [OF assms(2-5), of ord] versions_wf_next [OF assms(2,4,3) assms(5) [symmetric], of ord] assms(6,7)
  have "order_arr (begin_order (tr_validity x)) = order_arr (begin_order (tr_validity y))"
    by (metis linorder_less_linear order_less_iff)
  then have "table_object_key c (tr_table_id x) (begin_order (tr_validity x)) =
      table_object_key c (tr_table_id y) (begin_order (tr_validity y))"
    using assms(5) by (simp add: table_object_key_def order_as_bytes_eq_iff)
  with assms(1,3,4) show ?thesis by (auto simp: tables_are_def dest: table_versions.holds_unique)
qed

lemma collect_visible_map:
  "map_of (fold (\<lambda>row tables. if is_visible_at (tr_validity row) ord then btree_insert (tr_table_id row) row tables else tables) rows m) =
   map_of m ++ map_of (rev (map (\<lambda>r. (tr_table_id r, r)) (filter (\<lambda>r. is_visible_at (tr_validity r) ord) rows)))"
  by (induction rows arbitrary: m) auto

lemma collect_visible_wf:
  "btree_wf m \<Longrightarrow>
   btree_wf (fold (\<lambda>row tables. if is_visible_at (tr_validity row) ord then btree_insert (tr_table_id row) row tables else tables) rows m)"
  by (induction rows arbitrary: m) auto

lemma map_of_keyed:
  assumes "inj_on f (set xs)"
  shows "map_of (rev (map (\<lambda>r. (f r, r)) xs)) i = Some r \<longleftrightarrow> r \<in> set xs \<and> f r = i"
proof
  assume "map_of (rev (map (\<lambda>r. (f r, r)) xs)) i = Some r"
  then show "r \<in> set xs \<and> f r = i" by (auto dest!: map_of_SomeD)
next
  assume r: "r \<in> set xs \<and> f r = i"
  then have "(i, r) \<in> set (rev (map (\<lambda>r. (f r, r)) xs))" by auto
  from weak_map_of_SomeI [OF this] obtain r' where r': "map_of (rev (map (\<lambda>r. (f r, r)) xs)) i = Some r'" by blast
  then have "r' \<in> set xs \<and> f r' = i" by (auto dest!: map_of_SomeD)
  with r assms have "r' = r" by (auto dest: inj_onD)
  with r' show "map_of (rev (map (\<lambda>r. (f r, r)) xs)) i = Some r" by simp
qed

lemma collect_visible_exact:
  assumes "tables_are m c T" "table_versions_wf T" "{r \<in> set rows. is_visible_at (tr_validity r) ord} = {r \<in> T. is_visible_at (tr_validity r) ord}"
  shows "set (collect_visible ord rows) = {r \<in> T. is_visible_at (tr_validity r) ord}"
    "sorted_wrt (\<lambda>a b. tr_table_id a < tr_table_id b) (collect_visible ord rows)"
proof -
  define M where "M = fold (\<lambda>row tables. if is_visible_at (tr_validity row) ord then btree_insert (tr_table_id row) row tables else tables) rows []"
  define V where "V = {r \<in> T. is_visible_at (tr_validity r) ord}"
  have M: "collect_visible ord rows = map snd M" by (simp add: collect_visible_def M_def)
  have wf: "btree_wf M" unfolding M_def by (rule collect_visible_wf) (simp add: btree_wf_def)
  let ?F = "filter (\<lambda>r. is_visible_at (tr_validity r) ord) rows"
  have F: "set ?F = V" using assms(3) by (auto simp: V_def)
  have "inj_on tr_table_id (set ?F)"
    unfolding F V_def using visible_unique [OF assms(1,2)] by (auto simp: inj_on_def)
  note keyed = map_of_keyed [OF this, unfolded F]
  have "map_of M = map_of (rev (map (\<lambda>r. (tr_table_id r, r)) ?F))"
    unfolding M_def collect_visible_map by simp
  then have mem: "(i, r) \<in> set M \<longleftrightarrow> r \<in> V \<and> tr_table_id r = i" for i r
    using btree_mem_iff [OF wf, of i r] keyed by simp
  then show "set (collect_visible ord rows) = {r \<in> T. is_visible_at (tr_validity r) ord}"
    unfolding M V_def [symmetric] by force
  show "sorted_wrt (\<lambda>a b. tr_table_id a < tr_table_id b) (collect_visible ord rows)"
    unfolding M sorted_wrt_map
    by (rule sorted_wrt_mono_rel [where P = "\<lambda>a b. fst a < fst b"]) (use mem wf in \<open>force simp: btree_wf_def sorted_wrt_map\<close>)+
qed

end
