(* ===== verification/Cat_Table_Reads.thy ===== *)
theory Cat_Table_Reads
  imports Cat_Table_Spec
begin

text \<open>
  What the reads of the table store return. All three ways to list the tables of a snapshot (the open versions, the
  visibility index, the full history) give the versions visible at its order in id order; a point read gives the
  visible version of its table; the conflict check between two orders compares those versions.
\<close>

section \<open>Listing\<close>

definition lists_visible :: "table_row set \<Rightarrow> catalog_order_id \<Rightarrow> table_row list \<Rightarrow> bool" where
  "lists_visible T ord xs \<longleftrightarrow> set xs = {r \<in> T. is_visible_at (tr_validity r) ord} \<and>
     sorted_wrt (\<lambda>a b. tr_table_id a < tr_table_id b) xs"

lemma lists_visible_unique:
  assumes "lists_visible T ord xs" "lists_visible T ord ys"
  shows "xs = ys"
proof -
  have "map tr_table_id xs = map tr_table_id ys"
    using assms by (intro strict_sorted_equal) (simp_all add: lists_visible_def sorted_wrt_map)
  moreover have "distinct (map tr_table_id xs)"
    using assms(1) by (simp add: lists_visible_def strict_sorted_iff flip: sorted_wrt_map)
  then have "inj_on tr_table_id (set xs \<union> set ys)" using assms by (simp add: lists_visible_def distinct_map)
  ultimately show ?thesis by (rule map_inj_on)
qed

lemma history_lists_visible:
  assumes "fake_wf kv" "tables_are (fake_get kv) c T" "table_versions_wf T"
  shows "\<exists>xs. list_tables_at_from_history kv c ord = Inr xs \<and> lists_visible T ord xs"
proof -
  have h: "table_versions.holds c (fake_get kv) T" using assms(2) by (simp add: tables_are_def)
  have "list_tables_at_from_history kv c ord = Inr (collect_visible ord (table_versions.all_versions c T))"
    using table_versions.scan_all [OF assms(1) h] by (auto simp: list_tables_at_from_history_def rbind_Inr_iff)
  with collect_visible_exact [OF assms(2,3)] table_versions.all_versions_spec(1) [OF h] show ?thesis
    by (simp add: lists_visible_def)
qed

lemma visibility_range_key:
  "table_visibility_prefix c \<le> table_visibility_key c b t \<and>
   table_visibility_key c b t < table_visibility_scan_end c ord \<longleftrightarrow> b \<le> ord"
  using order_below_scan_end [of slash "table_visibility_prefix c" b "u64_to_be_bytes t" ord]
  by (simp add: table_visibility_key_def table_visibility_scan_end_def prefix_imp_le del: append_le_append append_less_append)

lemma visibility_lists_visible:
  assumes "fake_wf kv" "tables_are (fake_get kv) c T" "table_versions_wf T"
  shows "\<exists>xs. list_tables_at_from_visibility_index kv c ord = Inr xs \<and> lists_visible T ord xs"
proof -
  let ?P = "\<lambda>k. table_visibility_prefix c \<le> k \<and> k < table_visibility_scan_end c ord"
  have h: "table_visibility.holds c (fake_get kv) T" "finite T"
    using assms(2) tables_are_finite by (auto simp: tables_are_def)
  have le: "table_visibility_prefix c \<le> table_visibility_scan_end c ord"
    by (simp add: table_visibility_scan_end_def prefix_imp_le)
  have "prefix (table_visibility_prefix c) k" if "table_visibility_prefix c \<le> k" "k < table_visibility_scan_end c ord" for k
    using common_prefix_range [of "table_visibility_prefix c" "[]" k] that by (simp add: table_visibility_scan_end_def)
  from table_visibility.scan_range_rows [OF assms(1) h(1) le this, where d = Forward and lim = None]
    table_visibility.decode_stored [OF h, of ?P]
  have "list_tables_at_from_visibility_index kv c ord = Inr (collect_visible ord (table_visibility.rows_in c ?P T))"
    by (simp add: list_tables_at_from_visibility_index_def)
  moreover have "set (table_visibility.rows_in c ?P T) = {r \<in> T. begin_order (tr_validity r) \<le> ord}"
    unfolding table_visibility.rows_in_spec(1) [OF h] visibility_range_key ..
  then have "{r \<in> set (table_visibility.rows_in c ?P T). is_visible_at (tr_validity r) ord} =
      {r \<in> T. is_visible_at (tr_validity r) ord}" by (auto simp: is_visible_at_def)
  ultimately show ?thesis using collect_visible_exact [OF assms(2,3)] by (simp add: lists_visible_def)
qed

text \<open>The open versions, in id order.\<close>

lemma current_rows_listed:
  assumes "fake_wf kv" "tables_are (fake_get kv) c T"
  shows "\<exists>xs. list_current_table_rows kv c = Inr xs \<and> set xs = {r \<in> T. is_open r} \<and>
    sorted_wrt (\<lambda>a b. tr_table_id a < tr_table_id b) xs"
proof -
  let ?R = "current_tables.rows_in c (prefix (current_table_row_prefix c)) {r \<in> T. is_open r}"
  have h: "current_tables.holds c (fake_get kv) {r \<in> T. is_open r}" "finite {r \<in> T. is_open r}"
    using assms(2) tables_are_finite by (auto simp: tables_are_def)
  note spec = current_tables.rows_in_spec [OF h, of "prefix (current_table_row_prefix c)"]
  have "\<exists>p. current_table_row_prefix c = p @ [slash]" by (simp add: current_table_row_prefix_def family_prefix_def)
  then obtain p where p: "current_table_row_prefix c = p @ [slash]" by blast
  have sorted: "sorted_wrt (\<lambda>a b. tr_table_id a < tr_table_id b) ?R"
    using spec(3) by (simp add: current_table_row_key_def)
  then have "sort_key tr_table_id ?R = ?R"
    by (intro sort_key_id_if_sorted) (auto simp: sorted_map intro: sorted_wrt_mono_rel [rotated] less_imp_le)
  then have "list_current_table_rows kv c = Inr ?R"
    using current_tables.scan_prefix_rows [OF assms(1) h(1) p, where d = Forward and lim = None]
      current_tables.decode_stored [OF h] by (simp add: list_current_table_rows_def)
  moreover have "set ?R = {r \<in> T. is_open r}" using spec(1) by (simp add: current_table_row_key_def)
  ultimately show ?thesis using sorted by blast
qed

text \<open>All begin and end orders are at most some order, the latest snapshot.\<close>

definition orders_upto :: "catalog_order_id \<Rightarrow> table_row set \<Rightarrow> bool" where
  "orders_upto ord T \<longleftrightarrow>
     (\<forall>r \<in> T. begin_order (tr_validity r) \<le> ord \<and> (\<forall>e. end_order (tr_validity r) = Some e \<longrightarrow> e \<le> ord))"

lemma visible_at_latest: "orders_upto ord T \<Longrightarrow> r \<in> T \<Longrightarrow> is_visible_at (tr_validity r) ord \<longleftrightarrow> is_open r"
  by (cases "end_order (tr_validity r)") (auto simp: orders_upto_def is_visible_at_def)

lemma list_tables_at_lists_visible:
  assumes "fake_wf kv" "snapshots_are (fake_get kv) c H L" "tables_are (fake_get kv) c T" "table_versions_wf T"
    "H \<noteq> [] \<longrightarrow> orders_upto (sn_order (last H)) T"
  shows "\<exists>xs. list_tables_at kv c ord = Inr xs \<and> lists_visible T ord xs"
proof -
  obtain hs where hs: "list_tables_at_from_history kv c ord = Inr hs" "lists_visible T ord hs"
    using history_lists_visible [OF assms(1,3,4)] by blast
  obtain vs where vs: "list_tables_at_from_visibility_index kv c ord = Inr vs" "lists_visible T ord vs"
    using visibility_lists_visible [OF assms(1,3,4)] by blast
  obtain cs where cs: "list_current_table_rows kv c = Inr cs" "set cs = {r \<in> T. is_open r}"
    "sorted_wrt (\<lambda>a b. tr_table_id a < tr_table_id b) cs" using current_rows_listed [OF assms(1,3)] by blast
  have latest: "latest_snapshot kv c = Inr (if H = [] then None else Some (last H))"
    using assms(1,2) by (rule latest_snapshot_reads)
  have "vs = hs" using vs(2) hs(2) by (rule lists_visible_unique)
  have "lists_visible T ord cs" if "H \<noteq> []" "sn_order (last H) = ord"
    using cs(2,3) assms(5) visible_at_latest [of ord T] that by (auto simp: lists_visible_def)
  with vs(2) show ?thesis
    by (auto simp: list_tables_at_def latest list_tables_at_with_latest_def Let_def vs(1) hs(1) cs(1) \<open>vs = hs\<close>)
qed

section \<open>Point reads\<close>

lemma load_table_at_reads:
  assumes "fake_wf kv" "tables_are (fake_get kv) c T" "table_versions_wf T"
  obtains r where "load_table_at kv c t ord = Inr r"
    "\<And>x. r = Some x \<longleftrightarrow> x \<in> T \<and> tr_table_id x = t \<and> is_visible_at (tr_validity x) ord"
proof
  have h: "table_versions.holds c (fake_get kv) T" using assms(2) by (simp add: tables_are_def)
  let ?B = "table_versions.begun c t ord T"
  let ?r = "case rev ?B of [] \<Rightarrow> None | x # _ \<Rightarrow> if is_visible_at (tr_validity x) ord then Some x else None"
  have "x \<in> set ?B \<Longrightarrow> table_row_ok x" for x
    using table_versions.begun_spec(1) [OF h, of t ord] tables_are_ok [OF assms(2)] by auto
  then show "load_table_at kv c t ord = Inr ?r"
    unfolding load_table_at_def table_versions.scan_begun [OF assms(1) h]
    by (cases ?B rule: rev_cases) (simp_all add: to_item_def decode_table_item_stored)
  show "?r = Some x \<longleftrightarrow> x \<in> T \<and> tr_table_id x = t \<and> is_visible_at (tr_validity x) ord" for x
    by (rule table_versions.last_begun [OF h assms(3)])
qed

lemma find_visible:
  assumes "lists_visible T ord xs"
  shows "find (\<lambda>r. tr_table_id r = t) xs = Some x \<longleftrightarrow> x \<in> T \<and> tr_table_id x = t \<and> is_visible_at (tr_validity x) ord"
proof -
  have "distinct (map tr_table_id xs)"
    using assms by (simp add: lists_visible_def strict_sorted_iff flip: sorted_wrt_map)
  then have inj: "inj_on tr_table_id (set xs)" by (simp add: distinct_map)
  have "find (\<lambda>r. tr_table_id r = t) xs = Some x \<longleftrightarrow> x \<in> set xs \<and> tr_table_id x = t"
  proof
    assume "find (\<lambda>r. tr_table_id r = t) xs = Some x"
    then show "x \<in> set xs \<and> tr_table_id x = t" by (auto simp: find_Some_iff)
  next
    assume x: "x \<in> set xs \<and> tr_table_id x = t"
    then obtain y where y: "find (\<lambda>r. tr_table_id r = t) xs = Some y"
      by (cases "find (\<lambda>r. tr_table_id r = t) xs") (auto simp: find_None_iff)
    then have "y \<in> set xs \<and> tr_table_id y = t" by (auto simp: find_Some_iff)
    with x inj have "y = x" by (auto dest: inj_onD)
    with y show "find (\<lambda>r. tr_table_id r = t) xs = Some x" by simp
  qed
  with assms show ?thesis by (auto simp: lists_visible_def)
qed

lemma load_current_table_row_reads:
  assumes "tables_are (fake_get kv) c T"
  shows "x \<in> T \<Longrightarrow> is_open x \<Longrightarrow> load_current_table_row kv c (tr_table_id x) = Inr (Some x)"
    and "(\<And>x. x \<in> T \<Longrightarrow> is_open x \<Longrightarrow> tr_table_id x \<noteq> t) \<Longrightarrow> load_current_table_row kv c t = Inr None"
proof -
  have h: "current_tables.holds c (fake_get kv) {r \<in> T. is_open r}" using assms by (simp add: tables_are_def)
  show "load_current_table_row kv c (tr_table_id x) = Inr (Some x)" if "x \<in> T" "is_open x"
    using current_tables.holds_get [OF h, of x] tables_are_ok [OF assms that(1)] that
    by (simp add: load_current_table_row_def table_row_roundtrip)
  have sp: "prefix (current_table_row_prefix c) (current_table_row_key c t)" by (simp add: current_table_row_key_def)
  show "load_current_table_row kv c t = Inr None" if none: "\<And>x. x \<in> T \<Longrightarrow> is_open x \<Longrightarrow> tr_table_id x \<noteq> t"
  proof -
    have "fake_get kv (current_table_row_key c t) = None"
      unfolding current_tables.holds_get_None [OF h sp] using none by (simp add: current_table_row_key_def)
    then show ?thesis by (simp add: load_current_table_row_def)
  qed
qed

section \<open>The state of a catalog with tables\<close>

text \<open>Snapshot history, live snapshots, table versions and schema versions of a catalog.\<close>

definition table_catalog ::
    "fake_kv \<Rightarrow> catalog_id \<Rightarrow> snapshot_row list \<Rightarrow> snapshot_row list \<Rightarrow> table_row set \<Rightarrow> (u128 \<times> u64) list \<Rightarrow> bool" where
  "table_catalog kv c H L T vs \<longleftrightarrow> staging_ready kv c \<and> snapshots_are (fake_get kv) c H L \<and> tables_are (fake_get kv) c T \<and>
     schema_versions_are (fake_get kv) c vs \<and> table_versions_wf T \<and>
     (if H = [] then T = {} \<and> vs = []
      else orders_upto (sn_order (last H)) T \<and> (\<forall>x \<in> set vs. fst x \<le> order_arr (sn_order (last H))))"

lemma table_catalogD:
  assumes "table_catalog kv c H L T vs"
  shows "staging_ready kv c" "fake_wf kv" "snapshots_are (fake_get kv) c H L" "tables_are (fake_get kv) c T"
    "schema_versions_are (fake_get kv) c vs" "table_versions_wf T" "H \<noteq> [] \<longrightarrow> orders_upto (sn_order (last H)) T"
  using assms by (auto simp: table_catalog_def staging_ready_def split: if_splits)

end
