(* ===== verification/Cat_Table_Commits.thy ===== *)
theory Cat_Table_Commits
  imports Cat_Table_Reads Cat_File_Commits
begin

text \<open>
  Table commits against the state of the catalog: creating a table, replacing versions and dropping move the snapshot
  history, the set of table versions and the schema versions together.
\<close>

section \<open>Writing versions\<close>

abbreviation same_version :: "table_row \<Rightarrow> table_row \<Rightarrow> bool" where
  "same_version x y \<equiv> tr_table_id x = tr_table_id y \<and>
     order_arr (begin_order (tr_validity x)) = order_arr (begin_order (tr_validity y))"

definition put_version :: "catalog_id \<Rightarrow> table_row \<Rightarrow> (bytes \<rightharpoonup> bytes) \<Rightarrow> (bytes \<rightharpoonup> bytes)" where
  "put_version c r m =
     m(table_object_key c (tr_table_id r) (begin_order (tr_validity r)) \<mapsto> table_row_encode r,
       table_visibility_key c (begin_order (tr_validity r)) (tr_table_id r) \<mapsto> table_row_encode r)"

definition versions_are :: "(bytes \<rightharpoonup> bytes) \<Rightarrow> catalog_id \<Rightarrow> table_row set \<Rightarrow> bool" where
  "versions_are m c T \<longleftrightarrow> table_versions.holds c m T \<and> table_visibility.holds c m T"

lemma tables_are_parts:
  "tables_are m c T \<longleftrightarrow> versions_are m c T \<and> current_tables.holds c m {r \<in> T. is_open r}"
  by (auto simp: tables_are_def versions_are_def)

lemma table_keys_eq:
  "table_object_key c t a = table_object_key c t' a' \<longleftrightarrow> t = t' \<and> order_arr a = order_arr a'"
  "table_visibility_key c a t = table_visibility_key c a' t' \<longleftrightarrow> t = t' \<and> order_arr a = order_arr a'"
  "current_table_row_key c t = current_table_row_key c t' \<longleftrightarrow> t = t'"
  by (auto simp: table_object_key_def table_object_prefix_def table_visibility_key_def current_table_row_key_def
      order_as_bytes_eq_iff)

lemma table_spaces_differ:
  "\<not> prefix (table_object_scan_prefix c) (table_visibility_key c a t)"
  "\<not> prefix (table_object_scan_prefix c) (current_table_row_key c t)"
  "\<not> prefix (table_visibility_prefix c) (table_object_key c t a)"
  "\<not> prefix (table_visibility_prefix c) (current_table_row_key c t)"
  "\<not> prefix (current_table_row_prefix c) (table_object_key c t a)"
  "\<not> prefix (current_table_row_prefix c) (table_visibility_key c a t)"
  by (auto simp: key_defs elim!: prefixE)

lemma versions_are_put:
  assumes "versions_are m c T" "table_row_ok r"
  shows "versions_are (put_version c r m) c (insert r {x \<in> T. \<not> same_version x r})"
proof -
  have "table_versions.holds c (m(table_object_key c (tr_table_id r) (begin_order (tr_validity r)) \<mapsto> table_row_encode r))
      (insert r {x \<in> T. \<not> same_version x r})"
    using assms table_versions.holds_put [of c m T r] by (simp add: versions_are_def table_keys_eq)
  moreover have "table_visibility.holds c (m(table_visibility_key c (begin_order (tr_validity r)) (tr_table_id r) \<mapsto> table_row_encode r))
      (insert r {x \<in> T. \<not> same_version x r})"
    using assms table_visibility.holds_put [of c m T r] by (simp add: versions_are_def table_keys_eq)
  ultimately show ?thesis
    unfolding versions_are_def put_version_def
    by (auto simp: table_spaces_differ fun_upd_twist elim!: table_visibility.holds_local
        intro: table_versions.holds_local)
qed

lemma versions_are_current [simp]: "versions_are (m(current_table_row_key c t := v)) c T \<longleftrightarrow> versions_are m c T"
  by (simp add: versions_are_def table_spaces_differ)

lemma current_put_version [simp]: "current_tables.holds c (put_version c r m) O' \<longleftrightarrow> current_tables.holds c m O'"
  by (simp add: put_version_def table_spaces_differ)

text \<open>Opening a table, replacing an open version by its successor, ending an open version.\<close>

abbreviation ended :: "catalog_order_id \<Rightarrow> table_row \<Rightarrow> table_row" where
  "ended ord r \<equiv> r\<lparr>tr_validity := (tr_validity r)\<lparr>end_order := Some ord\<rparr>\<rparr>"

abbreviation opened :: "catalog_order_id \<Rightarrow> table_row \<Rightarrow> table_row" where
  "opened ord r \<equiv> r\<lparr>tr_validity := validity_new ord None\<rparr>"

definition put_open :: "catalog_id \<Rightarrow> table_row \<Rightarrow> (bytes \<rightharpoonup> bytes) \<Rightarrow> (bytes \<rightharpoonup> bytes)" where
  "put_open c r m = (put_version c r m)(current_table_row_key c (tr_table_id r) \<mapsto> table_row_encode r)"

lemma ok_window [simp]: "table_row_ok (r\<lparr>tr_validity := w\<rparr>) \<longleftrightarrow> table_row_ok r"
  by (simp add: table_row_ok_def)

lemma ended_neq: "is_open p \<Longrightarrow> ended ord p \<noteq> p"
  by (auto dest: arg_cong [where f = "\<lambda>r. end_order (tr_validity r)"])

lemma open_unique:
  "tables_are m c T \<Longrightarrow> x \<in> T \<Longrightarrow> y \<in> T \<Longrightarrow> is_open x \<Longrightarrow> is_open y \<Longrightarrow> tr_table_id x = tr_table_id y \<Longrightarrow> x = y"
  using current_tables.holds_unique [of c m "{r \<in> T. is_open r}" x y] by (simp add: tables_are_def)

lemma version_unique:
  "tables_are m c T \<Longrightarrow> x \<in> T \<Longrightarrow> y \<in> T \<Longrightarrow> same_version x y \<Longrightarrow> x = y"
  using table_versions.holds_unique [of c m T x y] by (simp add: tables_are_def table_keys_eq)

lemma tables_are_open:
  assumes "tables_are m c T" "table_row_ok r" "is_open r"
    and "\<forall>x \<in> T. tr_table_id x = tr_table_id r \<longrightarrow> \<not> is_open x \<and> \<not> same_version x r"
  shows "tables_are (put_open c r m) c (insert r T)"
proof -
  have "{x \<in> T. \<not> same_version x r} = T" using assms(4) by auto
  then have "versions_are (put_open c r m) c (insert r T)"
    using versions_are_put [of m c T r] assms(1,2) by (simp add: tables_are_parts put_open_def)
  moreover have "{y \<in> {x \<in> T. is_open x}. current_table_row_key c (tr_table_id y) \<noteq> current_table_row_key c (tr_table_id r)} =
      {x \<in> T. is_open x}" using assms(4) by (auto simp: table_keys_eq)
  then have "current_tables.holds c (put_open c r m) (insert r {x \<in> T. is_open x})"
    using current_tables.holds_put [of c "put_version c r m" "{x \<in> T. is_open x}" r] assms(1,2)
    by (simp add: tables_are_parts put_open_def)
  moreover have "{x \<in> insert r T. is_open x} = insert r {x \<in> T. is_open x}" using assms(3) by auto
  ultimately show ?thesis by (simp add: tables_are_parts)
qed

lemma tables_are_replace:
  assumes "tables_are m c T" "p \<in> T" "is_open p" "table_row_ok n" "tr_table_id n = tr_table_id p" "is_open n"
    and "\<forall>x \<in> T. \<not> same_version x n"
  shows "tables_are (put_open c n (put_version c (ended ord p) m)) c (insert n (insert (ended ord p) (T - {p})))"
proof -
  have "{x \<in> T. \<not> same_version x (ended ord p)} = T - {p}"
    using version_unique [OF assms(1) _ assms(2)] assms(2) by auto
  then have 1: "versions_are (put_version c (ended ord p) m) c (insert (ended ord p) (T - {p}))"
    using versions_are_put [of m c T "ended ord p"] assms(1) tables_are_ok [OF assms(1,2)] by (simp add: tables_are_parts)
  have "{x \<in> insert (ended ord p) (T - {p}). \<not> same_version x n} = insert (ended ord p) (T - {p})"
    using assms(2,5,7) by auto
  then have "versions_are (put_open c n (put_version c (ended ord p) m)) c (insert n (insert (ended ord p) (T - {p})))"
    using versions_are_put [OF 1 assms(4)] by (simp add: put_open_def)
  moreover have "{y \<in> {x \<in> T. is_open x}. current_table_row_key c (tr_table_id y) \<noteq> current_table_row_key c (tr_table_id n)} =
      {x \<in> T - {p}. is_open x}"
    using open_unique [OF assms(1) _ assms(2) _ assms(3)] assms(5) by (auto simp: table_keys_eq)
  then have "current_tables.holds c (put_open c n (put_version c (ended ord p) m)) (insert n {x \<in> T - {p}. is_open x})"
    using current_tables.holds_put [of c "put_version c n (put_version c (ended ord p) m)" "{x \<in> T. is_open x}" n] assms(1,4)
    by (simp add: tables_are_parts put_open_def)
  moreover have "{x \<in> insert n (insert (ended ord p) (T - {p})). is_open x} = insert n {x \<in> T - {p}. is_open x}"
    using assms(6) ended_neq [OF assms(3)] by auto
  ultimately show ?thesis by (simp add: tables_are_parts)
qed

lemma tables_are_end:
  assumes "tables_are m c T" "p \<in> T" "is_open p"
  shows "tables_are ((put_version c (ended ord p) m)(current_table_row_key c (tr_table_id p) := None)) c
    (insert (ended ord p) (T - {p}))"
proof -
  have "{x \<in> T. \<not> same_version x (ended ord p)} = T - {p}"
    using version_unique [OF assms(1) _ assms(2)] assms(2) by auto
  then have "versions_are (put_version c (ended ord p) m) c (insert (ended ord p) (T - {p}))"
    using versions_are_put [of m c T "ended ord p"] assms(1) tables_are_ok [OF assms(1,2)] by (simp add: tables_are_parts)
  moreover have "{y \<in> {x \<in> T. is_open x}. current_table_row_key c (tr_table_id y) \<noteq> current_table_row_key c (tr_table_id p)} =
      {x \<in> insert (ended ord p) (T - {p}). is_open x}"
    using open_unique [OF assms(1) _ assms(2) _ assms(3)] by (auto simp: table_keys_eq)
  then have "current_tables.holds c ((put_version c (ended ord p) m)(current_table_row_key c (tr_table_id p) := None))
      {x \<in> insert (ended ord p) (T - {p}). is_open x}"
    using current_tables.holds_delete [of c "put_version c (ended ord p) m" "{x \<in> T. is_open x}" "current_table_row_key c (tr_table_id p)"]
      assms(1) current_tables.in_space [of c p] by (simp add: tables_are_parts)
  ultimately show ?thesis by (simp add: tables_are_parts)
qed

section \<open>Versions stay in sequence\<close>

lemma wf_end:
  assumes "table_versions_wf T" "p \<in> T" "is_open p" "begin_order (tr_validity p) < ord"
  shows "table_versions_wf (insert (ended ord p) (T - {p}))"
proof -
  have last: "\<not> begin_order (tr_validity p) < begin_order (tr_validity y)" if "y \<in> T" "tr_table_id p = tr_table_id y" for y
    using assms(1,2,3) that unfolding versions_wf_def by fastforce
  show ?thesis
    unfolding versions_wf_def
  proof (intro conjI ballI allI impI)
    fix x e
    assume "x \<in> insert (ended ord p) (T - {p})" "end_order (tr_validity x) = Some e"
    with assms(1,4) show "begin_order (tr_validity x) < e" unfolding versions_wf_def by auto
  next
    fix x y
    assume xy: "x \<in> insert (ended ord p) (T - {p})" "y \<in> insert (ended ord p) (T - {p})"
      "tr_table_id x = tr_table_id y" "begin_order (tr_validity x) < begin_order (tr_validity y)"
    show "\<exists>e. end_order (tr_validity x) = Some e \<and> e \<le> begin_order (tr_validity y)"
    proof (cases "x = ended ord p")
      case True
      with xy last [of y] show ?thesis by (auto simp: order_less_iff)
    next
      case False
      then have x: "x \<in> T" using xy(1) by simp
      show ?thesis
      proof (cases "y = ended ord p")
        case True
        with xy x assms(1,2) show ?thesis unfolding versions_wf_def by auto
      next
        case False
        with xy x assms(1) show ?thesis unfolding versions_wf_def by auto
      qed
    qed
  qed
qed

lemma wf_open:
  assumes "table_versions_wf T" "is_open r" "\<forall>x \<in> T. tr_table_id x = tr_table_id r \<longrightarrow>
     begin_order (tr_validity x) < begin_order (tr_validity r) \<and>
     (\<exists>e. end_order (tr_validity x) = Some e \<and> e \<le> begin_order (tr_validity r))"
  shows "table_versions_wf (insert r T)"
proof -
  have later: "\<not> begin_order (tr_validity r) < begin_order (tr_validity x)" if "x \<in> T" "tr_table_id x = tr_table_id r" for x
    using assms(3) that by (auto simp: order_less_iff)
  show ?thesis
    unfolding versions_wf_def
  proof (intro conjI ballI allI impI)
    fix x e
    assume "x \<in> insert r T" "end_order (tr_validity x) = Some e"
    with assms(1,2) show "begin_order (tr_validity x) < e" unfolding versions_wf_def by auto
  next
    fix x y
    assume xy: "x \<in> insert r T" "y \<in> insert r T" "tr_table_id x = tr_table_id y"
      "begin_order (tr_validity x) < begin_order (tr_validity y)"
    show "\<exists>e. end_order (tr_validity x) = Some e \<and> e \<le> begin_order (tr_validity y)"
    proof (cases "x = r")
      case True
      with xy later [of y] show ?thesis by (auto simp: order_less_iff)
    next
      case False
      with xy assms(1,3) show ?thesis unfolding versions_wf_def by (cases "y = r") auto
    qed
  qed
qed

section \<open>Replacing versions\<close>

definition replace_in :: "catalog_order_id \<Rightarrow> table_version_replacement \<Rightarrow> table_row set \<Rightarrow> table_row set" where
  "replace_in ord rep T =
     insert (opened ord (rep_next rep)) (insert (ended ord (rep_previous rep)) (T - {rep_previous rep}))"

definition put_replacement ::
    "catalog_id \<Rightarrow> catalog_order_id \<Rightarrow> table_version_replacement \<Rightarrow> (bytes \<rightharpoonup> bytes) \<Rightarrow> (bytes \<rightharpoonup> bytes)" where
  "put_replacement c ord rep m = put_open c (opened ord (rep_next rep)) (put_version c (ended ord (rep_previous rep)) m)"

definition replaceable :: "table_row set \<Rightarrow> table_version_replacement list \<Rightarrow> bool" where
  "replaceable T reps \<longleftrightarrow> distinct (map rep_table_id reps) \<and>
     (\<forall>rep \<in> set reps. rep_previous rep \<in> T \<and> is_open (rep_previous rep) \<and> table_row_ok (rep_next rep) \<and>
        tr_table_id (rep_previous rep) = rep_table_id rep \<and> tr_table_id (rep_next rep) = rep_table_id rep)"

lemma replace_in_wf:
  assumes "tables_are m c T" "table_versions_wf T" "orders_upto ord T" "replaceable T (rep # reps)"
    and before: "\<forall>x \<in> T. tr_table_id x \<in> rep_table_id ` set (rep # reps) \<longrightarrow> begin_order (tr_validity x) < ord"
  shows "tables_are (put_replacement c ord rep m) c (replace_in ord rep T)" "table_versions_wf (replace_in ord rep T)"
    "orders_upto ord (replace_in ord rep T)" "replaceable (replace_in ord rep T) reps"
    "\<forall>x \<in> replace_in ord rep T. tr_table_id x \<in> rep_table_id ` set reps \<longrightarrow> begin_order (tr_validity x) < ord"
proof -
  let ?p = "rep_previous rep" and ?n = "opened ord (rep_next rep)"
  have r: "?p \<in> T" "is_open ?p" "table_row_ok ?n" "tr_table_id ?p = rep_table_id rep" "tr_table_id ?n = rep_table_id rep"
    "is_open ?n" "begin_order (tr_validity ?n) = ord"
    using assms(4) by (simp_all add: replaceable_def validity_new_def)
  have begins: "begin_order (tr_validity x) < ord" if "x \<in> T" "tr_table_id x = rep_table_id rep" for x
    using before that by simp
  have new: "rep_table_id rep \<notin> rep_table_id ` set reps" using assms(4) by (simp add: replaceable_def)
  have ids: "rep_table_id rep' \<noteq> rep_table_id rep" if "rep' \<in> set reps" for rep'
    using assms(4) imageI [OF that, of rep_table_id] by (auto simp: replaceable_def)
  have "\<not> same_version x ?n" if "x \<in> T" for x
  proof
    assume same: "same_version x ?n"
    then have "begin_order (tr_validity x) < ord" using begins [OF that] r(5) by simp
    with same show False by (simp add: order_less_iff validity_new_def)
  qed
  then show "tables_are (put_replacement c ord rep m) c (replace_in ord rep T)"
    using tables_are_replace [OF assms(1) r(1,2,3)] r by (simp add: put_replacement_def replace_in_def)
  have wf: "table_versions_wf (insert (ended ord ?p) (T - {?p}))"
    using wf_end [OF assms(2) r(1,2)] begins [OF r(1,4)] by simp
  have "begin_order (tr_validity x) < ord \<and> (\<exists>e. end_order (tr_validity x) = Some e \<and> e \<le> ord)"
    if "x \<in> insert (ended ord ?p) (T - {?p})" "tr_table_id x = tr_table_id ?n" for x
  proof (cases "x = ended ord ?p")
    case False
    then have x: "x \<in> T" "x \<noteq> ?p" "tr_table_id x = rep_table_id rep" using that r(5) by auto
    then have "\<not> is_open x" using open_unique [OF assms(1) x(1) r(1) _ r(2)] r(4) by auto
    then obtain e where "end_order (tr_validity x) = Some e" by auto
    with x(1) assms(3) begins [OF x(1,3)] show ?thesis by (auto simp: orders_upto_def)
  qed (use begins [OF r(1,4)] in simp)
  then show "table_versions_wf (replace_in ord rep T)"
    unfolding replace_in_def by (intro wf_open [OF wf]) (simp_all add: validity_new_def)
  show "orders_upto ord (replace_in ord rep T)"
    using assms(3) r(1) by (auto simp: orders_upto_def replace_in_def validity_new_def)
  show "replaceable (replace_in ord rep T) reps"
    using assms(4) ids r(4) by (auto simp: replaceable_def replace_in_def)
  show "\<forall>x \<in> replace_in ord rep T. tr_table_id x \<in> rep_table_id ` set reps \<longrightarrow> begin_order (tr_validity x) < ord"
    using before new r(4,5) by (auto simp: replace_in_def)
qed

lemma fold_replace:
  assumes "tables_are m c T" "table_versions_wf T" "orders_upto ord T" "replaceable T reps"
    and "\<forall>x \<in> T. tr_table_id x \<in> rep_table_id ` set reps \<longrightarrow> begin_order (tr_validity x) < ord"
  shows "tables_are (fold (put_replacement c ord) reps m) c (fold (replace_in ord) reps T) \<and>
    table_versions_wf (fold (replace_in ord) reps T) \<and> orders_upto ord (fold (replace_in ord) reps T)"
  using assms
proof (induction reps arbitrary: m T)
  case (Cons rep reps)
  from Cons.IH [OF replace_in_wf [OF Cons.prems]] show ?case by simp
qed simp

section \<open>Committing\<close>

lemma table_keys_main [simp]:
  "table_object_key c t ord \<in> main_space c" "table_visibility_key c ord t \<in> main_space c"
  "current_table_row_key c t \<in> main_space c"
  by (rule main_space_family [rotated], simp add: key_defs, simp add: key_defs)+

lemma table_spaces:
  "table_object_key c t ord \<in> table_space c" "table_visibility_key c ord t \<in> table_space c"
  "current_table_row_key c t \<in> table_space c"
  by (simp_all add: table_space_def table_object_key_def table_object_prefix_def table_visibility_key_def
      current_table_row_key_def)

lemma family_prefix_unique: "prefix (family_prefix c f) k \<Longrightarrow> prefix (family_prefix c g) k \<Longrightarrow> f = g"
  by (auto elim!: prefixE)

lemma table_space_family: "k \<in> table_space c \<Longrightarrow> prefix (family_prefix c Object) k"
  by (auto simp: table_space_def table_object_scan_prefix_def table_visibility_prefix_def current_table_row_prefix_def
      dest: append_prefixD)

lemma version_space_family: "k \<in> version_space c \<Longrightarrow> prefix (family_prefix c MetadataVersion) k"
  by (auto simp: version_space_def key_defs dest: append_prefixD)

lemma snapshot_space_family:
  "k \<in> snapshot_space c \<Longrightarrow> prefix (family_prefix c Snapshot) k \<or> prefix (family_prefix c SnapshotByTimestamp) k \<or>
     k = latest_snapshot_row_key c \<or> k \<in> range (raw_snapshot_row_key c)"
  by (auto simp: snapshot_space_def snapshot_prefix_def snapshot_timestamp_prefix_def)

lemma snapshot_cells_family: "k = latest_snapshot_row_key c \<or> k \<in> range (raw_snapshot_row_key c) \<Longrightarrow>
   prefix (family_prefix c MetadataVersion) k"
  by (auto simp: key_defs)

lemma snapshot_cells_tail:
  "k = latest_snapshot_row_key c \<or> k \<in> range (raw_snapshot_row_key c) \<Longrightarrow> \<exists>zs. k = family_prefix c MetadataVersion @ 108 # zs \<or>
     k = family_prefix c MetadataVersion @ 114 # zs"
  by (auto simp: key_defs ascii_def)

lemma version_tail: "k \<in> version_space c \<Longrightarrow> \<exists>zs. k = family_prefix c MetadataVersion @ 99 # zs \<or> k = family_prefix c MetadataVersion @ 115 # zs"
  by (auto simp: version_space_def key_defs ascii_def elim!: prefixE)

lemma spaces_apart:
  "k \<in> table_space c \<Longrightarrow> k \<notin> snapshot_space c" "k \<in> table_space c \<Longrightarrow> k \<notin> version_space c"
  "k \<in> version_space c \<Longrightarrow> k \<notin> snapshot_space c"
proof -
  have other: "prefix (family_prefix c f) k \<Longrightarrow> f \<noteq> g \<Longrightarrow> \<not> prefix (family_prefix c g) k" for f g
    using family_prefix_unique by blast
  show "k \<in> table_space c \<Longrightarrow> k \<notin> snapshot_space c"
    using other [OF table_space_family] snapshot_space_family [of k c] snapshot_cells_family [of k c] by auto
  show "k \<in> table_space c \<Longrightarrow> k \<notin> version_space c"
    using other [OF table_space_family] version_space_family [of k c] by auto
  show "k \<in> version_space c \<Longrightarrow> k \<notin> snapshot_space c"
    using other [OF version_space_family] snapshot_space_family [of k c] snapshot_cells_tail [of k c] version_tail [of k c]
    by auto
qed

lemma spaces_main: "k \<in> table_space c \<Longrightarrow> k \<in> main_space c"
  by (rule main_space_family [OF _ table_space_family]) simp_all

lemma effects_local:
  "k \<notin> snapshot_space c \<Longrightarrow> put_snapshot c s m k = m k"
  "k \<notin> version_space c \<Longrightarrow> put_schema_version c s nxt cnt m k = m k"
  "k \<notin> table_space c \<Longrightarrow> put_version c r m k = m k" "k \<notin> table_space c \<Longrightarrow> put_open c r m k = m k"
  "k \<notin> table_space c \<Longrightarrow> put_replacement c ord rep m k = m k"
proof -
  show "k \<notin> snapshot_space c \<Longrightarrow> put_snapshot c s m k = m k"
    by (auto simp: put_snapshot_def snapshot_space_def key_defs)
  show "k \<notin> version_space c \<Longrightarrow> put_schema_version c s nxt cnt m k = m k"
    by (auto simp: put_schema_version_def)
  show v: "k \<notin> table_space c \<Longrightarrow> put_version c r m k = m k" for r m
    by (auto simp: put_version_def table_spaces)
  then show o: "k \<notin> table_space c \<Longrightarrow> put_open c r m k = m k" for r m by (auto simp: put_open_def table_spaces)
  show "k \<notin> table_space c \<Longrightarrow> put_replacement c ord rep m k = m k" by (simp add: put_replacement_def v o)
qed

lemma stages_replacement:
  assumes "staging_ready kv c" "batch_ready c b"
    "tr_table_id (rep_previous rep) = rep_table_id rep" "tr_table_id (rep_next rep) = rep_table_id rep"
  shows "\<exists>b'. stage_table_replacement kv c ord rep b = Inr b' \<and>
    stages kv c b b' (put_replacement c ord rep) {(conflict_max_catalog_id_key c, rep_table_id rep)} {}"
proof -
  let ?p = "ended ord (rep_previous rep)" and ?n = "opened ord (rep_next rep)"
  let ?b = "batch_put (batch_put (batch_put (batch_put (batch_put b
      (table_object_key c (rep_table_id rep) (begin_order (tr_validity ?p))) (table_row_encode ?p))
      (table_visibility_key c (begin_order (tr_validity ?p)) (rep_table_id rep)) (table_row_encode ?p))
      (table_object_key c (rep_table_id rep) ord) (table_row_encode ?n))
      (table_visibility_key c ord (rep_table_id rep)) (table_row_encode ?n))
      (current_table_row_key c (rep_table_id rep)) (table_row_encode ?n)"
  have "stages kv c b ?b (put_replacement c ord rep) {} {}"
    using then_put [OF then_put [OF then_put [OF then_put [OF stages_put [OF assms(2)]]]]] assms(3,4)
    by (simp add: put_replacement_def [abs_def] put_open_def put_version_def validity_new_def)
  from then_max [OF this assms(1) cell_keys_iff(1)] show ?thesis
    by (simp add: stage_table_replacement_def Let_def stage_max_catalog_id_watermark_def validity_new_def)
qed

text \<open>A commit that writes a snapshot, a schema version step \<open>F\<close> and table rows \<open>G\<close>.\<close>

text \<open>A commit of the next snapshot, with its effect on the schema versions and on everything else.\<close>

lemma catalog_commit:
  fixes kv H now
  defines "kv1 \<equiv> snd (fake_generated_order_id kv)" and "s \<equiv> next_snapshot now kv H"
  assumes cat: "table_catalog kv c H L T vs" and clock: "clock_ahead kv H"
    and st: "stages kv1 c batch_new b (\<lambda>m. G (F (put_snapshot c s m))) W D"
    and F: "schema_versions_are (F (put_snapshot c s (fake_get kv))) c vs'" "\<And>m k. k \<notin> version_space c \<Longrightarrow> F m k = m k"
    and G: "tables_are (G (F (put_snapshot c s (fake_get kv)))) c T'"
      "\<And>m k. k \<in> version_space c \<or> k \<in> snapshot_space c \<Longrightarrow> G m k = m k"
    and T': "table_versions_wf T'" "orders_upto (next_commit_order kv) T'"
    and vs': "\<forall>x \<in> set vs'. fst x \<le> next_order kv + 1"
  shows "\<exists>kv'. commit_then kv1 b x = (Inr x, kv') \<and> next_order kv' = next_order kv + 1 \<and>
    table_catalog kv' c (H @ [s]) (L @ [s]) T' vs' \<and>
    (\<forall>k \<in> main_space c. fake_get kv' k = G (F (put_snapshot c s (fake_get kv))) k) \<and>
    (\<forall>(k, n) \<in> W. cell_ge n (fake_get kv' k)) \<and> (\<forall>f. f \<notin> D \<longrightarrow> file_rows kv' c f = file_rows kv c f)"
proof -
  note A = table_catalogD [OF cat]
  have sat: "saturating_add (next_order kv) 1 = next_order kv + 1"
    using clock saturating_Suc(3) [of "next_order kv"] by (simp add: clock_ahead_def)
  have ready: "staging_ready kv1 c" using A(1) by (simp add: staging_ready_def kv1_def)
  let ?m = "G (F (put_snapshot c s (fake_get kv)))"
  have same: "fake_get kv1 = fake_get kv" "file_rows kv1 c = file_rows kv c" "next_order kv1 = next_order kv + 1"
    by (simp_all add: kv1_def file_rows_def [abs_def] sat)
  from commit_staged [OF ready st, of x] obtain kv' where kv': "commit_then kv1 b x = (Inr x, kv')" "staging_ready kv' c"
    "next_order kv' = next_order kv + 1" "\<And>k. k \<in> main_space c \<Longrightarrow> fake_get kv' k = ?m k"
    "\<forall>(k, n) \<in> W. cell_ge n (fake_get kv' k)" "\<forall>f. f \<notin> D \<longrightarrow> file_rows kv' c f = file_rows kv c f"
    unfolding same by blast
  note follows = next_snapshot_follows [OF A(3) clock, where now = now, folded s_def]
  have main: "k \<in> main_space c" if "k \<in> table_space c \<or> k \<in> version_space c \<or> k \<in> snapshot_space c" for k
    using that spaces_main version_space_main snapshot_space_main by blast
  have "snapshots_are (put_snapshot c s (fake_get kv)) c (H @ [s]) (L @ [s])"
    using follows by (intro snapshots_are_put [OF A(3)]) auto
  then have snaps: "snapshots_are (fake_get kv') c (H @ [s]) (L @ [s])"
    by (rule snapshots_are_local) (use kv'(4) main spaces_apart F(2) G(2) in metis)
  have vers: "schema_versions_are (fake_get kv') c vs'"
    using F(1) by (rule schema_versions_are_local) (use kv'(4) main G(2) in metis)
  have tabs: "tables_are (fake_get kv') c T'"
    using G(1) by (rule tables_are_local) (use kv'(4) main in metis)
  have "table_catalog kv' c (H @ [s]) (L @ [s]) T' vs'"
    using kv'(2) snaps vers tabs T' vs' follows(3) by (simp add: table_catalog_def)
  with kv' show ?thesis by blast
qed

lemma table_commit:
  fixes kv H now
  defines "kv1 \<equiv> snd (fake_generated_order_id kv)" and "s \<equiv> next_snapshot now kv H"
  assumes cat: "table_catalog kv c H L T vs" and clock: "clock_ahead kv H"
    and st: "stages kv1 c batch_new b (\<lambda>m. G (F (put_snapshot c s m))) W D"
    and F: "schema_versions_are (F (put_snapshot c s (fake_get kv))) c vs'" "\<And>m k. k \<notin> version_space c \<Longrightarrow> F m k = m k"
    and G: "tables_are (G (F (put_snapshot c s (fake_get kv)))) c T'" "\<And>m k. k \<notin> table_space c \<Longrightarrow> G m k = m k"
    and T': "table_versions_wf T'" "orders_upto (next_commit_order kv) T'"
    and vs': "\<forall>x \<in> set vs'. fst x \<le> next_order kv + 1"
  shows "\<exists>kv'. commit_then kv1 b x = (Inr x, kv') \<and> next_order kv' = next_order kv + 1 \<and>
    table_catalog kv' c (H @ [s]) (L @ [s]) T' vs' \<and>
    (\<forall>k \<in> main_space c - table_space c - version_space c - snapshot_space c. fake_get kv' k = fake_get kv k) \<and>
    (\<forall>(k, n) \<in> W. cell_ge n (fake_get kv' k)) \<and> (\<forall>f. f \<notin> D \<longrightarrow> file_rows kv' c f = file_rows kv c f)"
proof -
  have G': "\<And>m k. k \<in> version_space c \<or> k \<in> snapshot_space c \<Longrightarrow> G m k = m k" using G(2) spaces_apart by blast
  from catalog_commit [OF cat clock st [unfolded kv1_def s_def] F(1) [unfolded s_def] F(2) G(1) [unfolded s_def] G' T' vs', of x]
  obtain kv' where kv': "commit_then kv1 b x = (Inr x, kv')" "next_order kv' = next_order kv + 1"
    "table_catalog kv' c (H @ [s]) (L @ [s]) T' vs'"
    "\<And>k. k \<in> main_space c \<Longrightarrow> fake_get kv' k = G (F (put_snapshot c s (fake_get kv))) k"
    "\<forall>(k, n) \<in> W. cell_ge n (fake_get kv' k)" "\<forall>f. f \<notin> D \<longrightarrow> file_rows kv' c f = file_rows kv c f"
    unfolding kv1_def s_def by blast
  have "fake_get kv' k = fake_get kv k" if "k \<in> main_space c - table_space c - version_space c - snapshot_space c" for k
    using that kv'(4) [of k] F(2) G(2) effects_local(1) [of k c s "fake_get kv"] by simp
  with kv' show ?thesis by blast
qed

text \<open>Everything committed so far lies before the next order.\<close>

lemma before_next:
  assumes "table_catalog kv c H L T vs" "clock_ahead kv H"
  shows "x \<in> T \<Longrightarrow> begin_order (tr_validity x) < next_commit_order kv" "orders_upto (next_commit_order kv) T"
    "x' \<in> set vs \<Longrightarrow> fst x' < next_order kv + 1"
proof -
  have next_gt: "sn_order (last H) < next_commit_order kv" if "H \<noteq> []"
    using assms(2) last_in_set [OF that] saturating_Suc(4) [of "next_order kv"]
    unfolding clock_ahead_def order_le_iff order_less_iff uuid_v7_simps by (metis order.strict_trans1)
  have H: "H \<noteq> []" "orders_upto (sn_order (last H)) T" if "T \<noteq> {}"
    using assms(1) that by (auto simp: table_catalog_def split: if_splits)
  have upto: "y \<le> sn_order (last H) \<Longrightarrow> H \<noteq> [] \<Longrightarrow> y < next_commit_order kv" for y :: catalog_order_id
    using next_gt by (meson le_less_trans)
  show "begin_order (tr_validity x) < next_commit_order kv" if "x \<in> T"
  proof -
    have "T \<noteq> {}" using that by auto
    with that show ?thesis using H by (intro upto) (auto simp: orders_upto_def)
  qed
  show "orders_upto (next_commit_order kv) T"
    unfolding orders_upto_def
  proof (intro ballI conjI allI impI)
    fix r e assume r: "r \<in> T"
    then have "T \<noteq> {}" by auto
    note H = H [OF this, unfolded orders_upto_def]
    show "begin_order (tr_validity r) \<le> next_commit_order kv" using upto H r by (auto intro: less_imp_le)
    show "e \<le> next_commit_order kv" if "end_order (tr_validity r) = Some e"
      using upto [of e] H r that by (auto intro: less_imp_le)
  qed
  show "fst x' < next_order kv + 1" if "x' \<in> set vs"
  proof -
    have "H \<noteq> []" "fst x' \<le> order_arr (sn_order (last H))" using assms(1) that by (auto simp: table_catalog_def split: if_splits)
    with next_gt show ?thesis by (simp add: order_less_iff)
  qed
qed

abbreviation next_version :: "fake_kv \<Rightarrow> (u128 \<times> u64) list \<Rightarrow> (u128 \<times> u64) list" where
  "next_version kv vs \<equiv> vs @ [(next_order kv + 1, saturating_add (version_of vs) 1)]"

lemma version_step:
  fixes now
  assumes "table_catalog kv c H L T vs" "clock_ahead kv H"
  defines "s \<equiv> next_snapshot now kv H"
  shows "schema_versions_are (put_schema_version c s (saturating_add (version_of vs) 1) cnt (put_snapshot c s (fake_get kv))) c
      (next_version kv vs)"
    and "schema_versions_are ((put_snapshot c s (fake_get kv))(catalog_snapshot_version_key c \<mapsto> u64_to_be_bytes cnt)) c vs"
    and "\<forall>x \<in> set (next_version kv vs). fst x \<le> next_order kv + 1" "\<forall>x \<in> set vs. fst x \<le> next_order kv + 1"
proof -
  note A = table_catalogD [OF assms(1)]
  note follows = next_snapshot_follows(3) [OF A(3) assms(2), where now = now, folded s_def]
  have v: "schema_versions_are (put_snapshot c s (fake_get kv)) c vs"
    using A(5) by (rule schema_versions_are_local) (auto simp: effects_local dest: spaces_apart)
  from schema_versions_are_put [OF v, of s "saturating_add (version_of vs) 1" cnt] follows before_next(3) [OF assms(1,2)]
  show "schema_versions_are (put_schema_version c s (saturating_add (version_of vs) 1) cnt (put_snapshot c s (fake_get kv))) c
      (next_version kv vs)" by simp
  from v show "schema_versions_are ((put_snapshot c s (fake_get kv))(catalog_snapshot_version_key c \<mapsto> u64_to_be_bytes cnt)) c vs"
    by (rule schema_versions_are_count)
  show old: "\<forall>x \<in> set vs. fst x \<le> next_order kv + 1" using before_next(3) [OF assms(1,2)] by (auto intro: less_imp_le)
  then show "\<forall>x \<in> set (next_version kv vs). fst x \<le> next_order kv + 1" by simp
qed

text \<open>The rows of other components are not touched.\<close>

abbreviation others_kept :: "catalog_id \<Rightarrow> fake_kv \<Rightarrow> fake_kv \<Rightarrow> bool" where
  "others_kept c kv kv' \<equiv>
     (\<forall>k \<in> main_space c - table_space c - version_space c - snapshot_space c. fake_get kv' k = fake_get kv k)"

definition changes_schema :: "table_version_replacement list \<Rightarrow> bool" where
  "changes_schema reps \<longleftrightarrow> (\<exists>rep \<in> set reps. \<not> same_user_visible_schema_as (rep_previous rep) (rep_next rep))"

lemma tables_after_snapshot:
  assumes "tables_are m c T" "\<And>m k. k \<notin> version_space c \<Longrightarrow> F m k = m k"
  shows "tables_are (F (put_snapshot c s m)) c T"
  using assms(1) by (rule tables_are_local) (simp add: assms(2) effects_local spaces_apart)

lemma commit_table_replacements_outcome:
  assumes "table_catalog kv c H L T vs" "clock_ahead kv H" "H \<noteq> []" "replaceable T reps" "reps \<noteq> []"
  shows "\<exists>kv'. commit_table_replacements kv c now (sn_sequence (last H)) reps = (Inr (), kv') \<and>
    next_order kv' = next_order kv + 1 \<and>
    table_catalog kv' c (H @ [next_snapshot now kv H]) (L @ [next_snapshot now kv H])
      (fold (replace_in (next_commit_order kv)) reps T) (if changes_schema reps then next_version kv vs else vs) \<and>
    others_kept c kv kv'"
proof -
  note A = table_catalogD [OF assms(1)]
  define s where "s = next_snapshot now kv H"
  let ?kv = "snd (fake_generated_order_id kv)" and ?ord = "next_commit_order kv"
  let ?b = "stage_snapshot batch_new c s"
  have sat: "saturating_add (next_order kv) 1 = next_order kv + 1"
    using assms(2) saturating_Suc(3) [of "next_order kv"] by (simp add: clock_ahead_def)
  have ready: "staging_ready ?kv c" using A(1) by (simp add: staging_ready_def)
  have first: "stages ?kv c batch_new ?b (put_snapshot c s) {} {}" by (simp add: stages_snapshot)
  have vers: "schema_versions_are (fake_get ?kv) c vs" using A(5) by simp
  let ?vstep = "if changes_schema reps then stage_next_schema_version ?kv ?b c s
      else stage_next_catalog_snapshot_version ?kv ?b c"
  let ?vs = "if changes_schema reps then next_version kv vs else vs"
  note step = version_step(1,2) [OF assms(1,2), where now = now, folded s_def] and old = version_step(3,4) [OF assms(1,2)]
  obtain b1 F where F: "?vstep = Inr b1" "stages ?kv c batch_new b1 (\<lambda>m. F (put_snapshot c s m)) {} {}"
    "schema_versions_are (F (put_snapshot c s (fake_get kv))) c ?vs" "\<And>m k. k \<notin> version_space c \<Longrightarrow> F m k = m k"
  proof (cases "changes_schema reps")
    case True
    from stages_next_schema_version [OF vers first, of s] obtain b1 cnt where
      "stage_next_schema_version ?kv ?b c s = Inr b1"
      "stages ?kv c batch_new b1 (\<lambda>m. put_schema_version c s (saturating_add (version_of vs) 1) cnt (put_snapshot c s m)) {} {}"
      by blast
    with True step(1) [of cnt] show thesis
      by (intro that [of b1 "put_schema_version c s (saturating_add (version_of vs) 1) cnt"]) (simp_all add: effects_local)
  next
    case False
    from stages_next_catalog_snapshot_version [OF vers first] obtain b1 cnt where
      "stage_next_catalog_snapshot_version ?kv ?b c = Inr b1"
      "stages ?kv c batch_new b1 (\<lambda>m. (put_snapshot c s m)(catalog_snapshot_version_key c \<mapsto> u64_to_be_bytes cnt)) {} {}"
      by blast
    with False step(2) [of cnt] show thesis
      by (intro that [of b1 "\<lambda>m. m(catalog_snapshot_version_key c \<mapsto> u64_to_be_bytes cnt)"]) auto
  qed
  have one: "\<exists>b'. stage_table_replacement ?kv c ?ord rep b = Inr b' \<and> stages ?kv c b b' (put_replacement c ?ord rep)
      {(conflict_max_catalog_id_key c, rep_table_id rep)} {}" if "rep \<in> set reps" "batch_ready c b" for rep b
    using stages_replacement [OF ready that(2)] assms(4) that(1) by (simp add: replaceable_def)
  from stages_rfold [OF stages_ready [OF F(2)], where g = "stage_table_replacement ?kv c ?ord", OF one] obtain b2 where b2:
    "rfold (stage_table_replacement ?kv c ?ord) reps b1 = Inr b2"
    "stages ?kv c b1 b2 (fold (put_replacement c ?ord) reps)
      (\<Union>rep \<in> set reps. {(conflict_max_catalog_id_key c, rep_table_id rep)}) (\<Union>rep \<in> set reps. {})"
    by blast
  have frame: "k \<notin> table_space c \<Longrightarrow> fold (put_replacement c ?ord) reps m k = m k" for m k
    by (rule fold_other) (simp add: effects_local)
  have tables: "tables_are (F (put_snapshot c s (fake_get kv))) c T"
    using A(4) F(4) by (rule tables_after_snapshot)
  have all: "tables_are (fold (put_replacement c ?ord) reps (F (put_snapshot c s (fake_get kv)))) c (fold (replace_in ?ord) reps T) \<and>
    table_versions_wf (fold (replace_in ?ord) reps T) \<and> orders_upto ?ord (fold (replace_in ?ord) reps T)"
    using before_next(1,2) [OF assms(1,2)] by (intro fold_replace [OF tables A(6) _ assms(4)]) auto
  have bound: "\<forall>x \<in> set ?vs. fst x \<le> next_order kv + 1" using old by simp
  from stages_trans [OF F(2) b2(2)] have st: "stages ?kv c batch_new b2
      (\<lambda>m. fold (put_replacement c ?ord) reps (F (put_snapshot c s m)))
      ({} \<union> (\<Union>rep \<in> set reps. {(conflict_max_catalog_id_key c, rep_table_id rep)})) ({} \<union> (\<Union>rep \<in> set reps. {}))"
    by (simp add: comp_def)
  from table_commit [OF assms(1,2) st [unfolded s_def] F(3) [unfolded s_def] F(4) _ frame _ _ bound, where x = "()" and T' = "fold (replace_in ?ord) reps T"] all [unfolded s_def]
  obtain kv' where kv': "commit_then ?kv b2 () = (Inr (), kv')" "next_order kv' = next_order kv + 1"
    "table_catalog kv' c (H @ [s]) (L @ [s]) (fold (replace_in ?ord) reps T) ?vs" "others_kept c kv kv'"
    unfolding s_def by blast
  have "snapshot_row_new now ?ord (raw_sequence_next (sn_sequence (last H))) = s"
    using assms(3) by (simp add: s_def snapshot_row_for_next_sequence_def)
  then have "commit_table_replacements kv c now (sn_sequence (last H)) reps =
      attempt ?kv ?vstep (\<lambda>b1. attempt ?kv (rfold (stage_table_replacement ?kv c ?ord) reps b1) (\<lambda>b2. commit_then ?kv b2 ()))"
    using assms(5) sat by (simp add: commit_table_replacements_def Let_def case_prod_beta changes_schema_def)
  with kv' F(1) b2(1) show ?thesis by (auto simp: s_def)
qed

end
