(* ===== verification/Cat_Table_Names.thy ===== *)
theory Cat_Table_Names
  imports Cat_Table_Commits
begin

text \<open>
  Creating and renaming tables: what the conflict checks of \<open>commit_create_table_row\<close> and \<open>commit_rename_tables\<close> accept,
  what the accepted commits do to the catalog, and that they keep table names unique in every schema.
\<close>

section \<open>Creating\<close>

definition create_conflict :: "table_row set \<Rightarrow> table_row \<Rightarrow> bool" where
  "create_conflict T table \<longleftrightarrow> (\<exists>x \<in> T. is_open x \<and> (tr_table_id x = tr_table_id table \<or>
     tr_schema_id x = tr_schema_id table \<and> eq_ignore_ascii_case (tr_name x) (tr_name table)))"

lemma validity_new_sel: "begin_order (validity_new a b) = a" "end_order (validity_new a b) = b"
  by (simp_all add: validity_new_def)

lemma rfold_unit_check:
  "rfold (\<lambda>x _. if P x then Inl (e x) else if Q x then Inl (e' x) else Inr ()) xs () = Inr () \<longleftrightarrow> (\<forall>x \<in> set xs. \<not> P x \<and> \<not> Q x)"
  "rfold (\<lambda>x _. if P x then Inl (InvalidMutation a) else if Q x then Inl (InvalidMutation b) else Inr ()) xs () =
     Inl err \<Longrightarrow> \<exists>m. err = InvalidMutation m"
  by (induction xs) (auto split: if_splits)

lemma reject_create_table_conflict_iff:
  assumes "table_catalog kv c H L T vs" "H \<noteq> []"
  shows "reject_create_table_conflict kv c table (sn_order (last H)) = Inr () \<longleftrightarrow> \<not> create_conflict T table"
    and "reject_create_table_conflict kv c table (sn_order (last H)) = Inl err \<Longrightarrow> \<exists>m. err = InvalidMutation m"
proof -
  note A = table_catalogD [OF assms(1)]
  obtain xs where xs: "list_tables_at kv c (sn_order (last H)) = Inr xs" "lists_visible T (sn_order (last H)) xs"
    using list_tables_at_lists_visible [OF A(2-4,6,7)] by blast
  have "is_visible_at (tr_validity x) (sn_order (last H)) \<longleftrightarrow> is_open x" if "x \<in> T" for x
    using visible_at_latest [OF _ that] A(7) assms(2) by simp
  then have "set xs = {x \<in> T. is_open x}" using xs(2) unfolding lists_visible_def by blast
  then show "reject_create_table_conflict kv c table (sn_order (last H)) = Inr () \<longleftrightarrow> \<not> create_conflict T table"
    by (auto simp: reject_create_table_conflict_def xs(1) rfold_unit_check(1) create_conflict_def)
  show "reject_create_table_conflict kv c table (sn_order (last H)) = Inl err \<Longrightarrow> \<exists>m. err = InvalidMutation m"
    by (simp add: reject_create_table_conflict_def xs(1)) (rule rfold_unit_check(2))
qed

lemma wf_create:
  assumes "table_catalog kv c H L T vs" "clock_ahead kv H" "\<not> create_conflict T table" "table_row_ok table"
  defines "n \<equiv> opened (next_commit_order kv) table"
  shows "table_versions_wf (insert n T)" "orders_upto (next_commit_order kv) (insert n T)"
    "tables_are m c T \<Longrightarrow> tables_are (put_open c n m) c (insert n T)"
proof -
  note A = table_catalogD [OF assms(1)] and B = before_next [OF assms(1,2)]
  have n: "is_open n" "begin_order (tr_validity n) = next_commit_order kv" "tr_table_id n = tr_table_id table"
    by (simp_all add: n_def validity_new_def)
  have closed: "\<exists>e. end_order (tr_validity x) = Some e \<and> e \<le> next_commit_order kv" if "x \<in> T" "tr_table_id x = tr_table_id n" for x
    using assms(3) that B(2) n(3) by (cases "end_order (tr_validity x)") (auto simp: create_conflict_def orders_upto_def)
  show "table_versions_wf (insert n T)"
    using closed B(1) by (intro wf_open [OF A(6) n(1)]) (simp add: n(2))
  show "orders_upto (next_commit_order kv) (insert n T)" using B(2) by (simp add: orders_upto_def n_def validity_new_def)
  have "\<not> same_version x n" if "x \<in> T" for x using B(1) [OF that] by (auto simp: order_less_iff n(2))
  then show "tables_are m c T \<Longrightarrow> tables_are (put_open c n m) c (insert n T)"
    using closed n(1) assms(4) by (intro tables_are_open) (auto simp: n_def)
qed

lemma commit_create_table_row_outcome:
  assumes "table_catalog kv c H L T vs" "clock_ahead kv H" "table_row_ok table"
  defines "n \<equiv> opened (next_commit_order kv) table"
  shows "create_conflict T table \<Longrightarrow> \<exists>m. commit_create_table_row kv c now table = (Inl (InvalidMutation m), kv)"
    and "\<not> create_conflict T table \<Longrightarrow> \<exists>kv'. commit_create_table_row kv c now table = (Inr n, kv') \<and>
      next_order kv' = next_order kv + 1 \<and>
      table_catalog kv' c (H @ [next_snapshot now kv H]) (L @ [next_snapshot now kv H]) (insert n T) (next_version kv vs) \<and>
      others_kept c kv kv'"
proof -
  note A = table_catalogD [OF assms(1)]
  have latest: "latest_snapshot kv c = Inr (if H = [] then None else Some (last H))"
    using A(2,3) by (rule latest_snapshot_reads)
  show "\<exists>m. commit_create_table_row kv c now table = (Inl (InvalidMutation m), kv)" if conflict: "create_conflict T table"
  proof -
    have "T \<noteq> {}" using conflict by (auto simp: create_conflict_def)
    then have H: "H \<noteq> []" using assms(1) by (auto simp: table_catalog_def)
    then obtain err where err: "reject_create_table_conflict kv c table (sn_order (last H)) = Inl err"
      using reject_create_table_conflict_iff(1) [OF assms(1), of table] conflict
      by (cases "reject_create_table_conflict kv c table (sn_order (last H))") auto
    with reject_create_table_conflict_iff(2) [OF assms(1) H this] latest H show ?thesis
      by (auto simp: commit_create_table_row_def)
  qed
  assume free: "\<not> create_conflict T table"
  define s where "s = next_snapshot now kv H"
  let ?kv = "snd (fake_generated_order_id kv)" and ?ord = "next_commit_order kv"
  let ?b = "stage_snapshot batch_new c s"
  have sat: "saturating_add (next_order kv) 1 = next_order kv + 1"
    using assms(2) saturating_Suc(3) [of "next_order kv"] by (simp add: clock_ahead_def)
  have ready: "staging_ready ?kv c" using A(1) by (simp add: staging_ready_def)
  have first: "stages ?kv c batch_new ?b (put_snapshot c s) {} {}" by (simp add: stages_snapshot)
  have "schema_versions_are (fake_get ?kv) c vs" using A(5) by simp
  from stages_next_schema_version [OF this first, of s] obtain b1 cnt where b1:
    "stage_next_schema_version ?kv ?b c s = Inr b1"
    "stages ?kv c batch_new b1 (\<lambda>m. put_schema_version c s (saturating_add (version_of vs) 1) cnt (put_snapshot c s m)) {} {}"
    by blast
  let ?F = "put_schema_version c s (saturating_add (version_of vs) 1) cnt"
  let ?b4 = "stage_table_visibility_row (stage_current_table_row
      (batch_put b1 (table_object_key c (tr_table_id n) ?ord) (table_row_encode n)) c n) c n"
  let ?b2 = "batch_put b1 (table_object_key c (tr_table_id n) ?ord) (table_row_encode n)"
  let ?b3 = "batch_put ?b2 (current_table_row_key c (tr_table_id n)) (table_row_encode n)"
  let ?b4 = "batch_put ?b3 (table_visibility_key c ?ord (tr_table_id n)) (table_row_encode n)"
  have n: "begin_order (tr_validity n) = ?ord" and id: "tr_table_id n = tr_table_id table"
    by (simp_all add: n_def validity_new_def)
  have "put_open c n = (\<lambda>m. m(table_object_key c (tr_table_id n) ?ord \<mapsto> table_row_encode n,
      current_table_row_key c (tr_table_id n) \<mapsto> table_row_encode n,
      table_visibility_key c ?ord (tr_table_id n) \<mapsto> table_row_encode n))"
    unfolding put_open_def [abs_def] put_version_def n by (intro ext) (simp add: key_defs)
  moreover have "stages ?kv c batch_new ?b4 (\<lambda>m. (?F (put_snapshot c s m))(table_object_key c (tr_table_id n) ?ord \<mapsto> table_row_encode n,
      current_table_row_key c (tr_table_id n) \<mapsto> table_row_encode n,
      table_visibility_key c ?ord (tr_table_id n) \<mapsto> table_row_encode n)) {} {}"
    by (intro then_put b1(2) table_keys_main)
  ultimately have "stages ?kv c batch_new ?b4 (\<lambda>m. put_open c n (?F (put_snapshot c s m))) {} {}" by simp
  from then_max [OF this ready cell_keys_iff(1), of "tr_table_id n"] obtain b5 where b5:
    "stage_max_catalog_id_watermark ?kv ?b4 c (tr_table_id n) = Inr b5"
    "stages ?kv c batch_new b5 (\<lambda>m. put_open c n (?F (put_snapshot c s m))) {(conflict_max_catalog_id_key c, tr_table_id n)} {}"
    by (auto simp: stage_max_catalog_id_watermark_def)
  note step = version_step(1) [OF assms(1,2), where now = now and cnt = cnt, folded s_def]
  have tables: "tables_are (?F (put_snapshot c s (fake_get kv))) c T"
    by (rule tables_after_snapshot [OF A(4)]) (simp add: effects_local)
  note wf = wf_create [OF assms(1,2) free assms(3), folded n_def]
  from table_commit [OF assms(1,2) b5(2) [unfolded s_def] step [unfolded s_def] _ wf(3) [OF tables [unfolded s_def]] _ wf(1,2)
      version_step(3) [OF assms(1,2)], where x = n]
  obtain kv' where kv': "commit_then ?kv b5 n = (Inr n, kv')" "next_order kv' = next_order kv + 1"
    "table_catalog kv' c (H @ [s]) (L @ [s]) (insert n T) (next_version kv vs)" "others_kept c kv kv'"
    unfolding s_def by (auto simp: effects_local)
  have "H \<noteq> [] \<Longrightarrow> reject_create_table_conflict kv c table (sn_order (last H)) = Inr ()"
    using reject_create_table_conflict_iff(1) [OF assms(1)] free by simp
  then have "commit_create_table_row kv c now table = commit_then ?kv b5 n"
    using latest b1(1) b5(1) [unfolded id]
    by (auto simp: commit_create_table_row_def Let_def case_prod_beta sat s_def [symmetric] n_def [symmetric] validity_new_sel
        id stage_current_table_row_def stage_table_visibility_row_def)
  with kv' show "\<exists>kv'. commit_create_table_row kv c now table = (Inr n, kv') \<and>
      next_order kv' = next_order kv + 1 \<and>
      table_catalog kv' c (H @ [next_snapshot now kv H]) (L @ [next_snapshot now kv H]) (insert n T) (next_version kv vs) \<and>
      others_kept c kv kv'" by (simp add: s_def)
qed

section \<open>Unique names\<close>

definition names_unique :: "table_row set \<Rightarrow> bool" where
  "names_unique T \<longleftrightarrow> (\<forall>x \<in> T. \<forall>y \<in> T. is_open x \<and> is_open y \<and> tr_schema_id x = tr_schema_id y \<and>
     eq_ignore_ascii_case (tr_name x) (tr_name y) \<longrightarrow> x = y)"

lemma eq_ignore_ascii_case_sym: "eq_ignore_ascii_case a b \<longleftrightarrow> eq_ignore_ascii_case b a"
  by (auto simp: eq_ignore_ascii_case_def)

lemma names_unique_create:
  "names_unique T \<Longrightarrow> \<not> create_conflict T table \<Longrightarrow> names_unique (insert (opened ord table) T)"
proof -
  assume T: "names_unique T" and free: "\<not> create_conflict T table"
  have clash: False if "x \<in> T" "is_open x" "tr_schema_id x = tr_schema_id table"
    "eq_ignore_ascii_case (tr_name x) (tr_name table)" for x
    using free that unfolding create_conflict_def by blast
  show ?thesis
    unfolding names_unique_def
  proof (intro ballI impI)
    fix x y
    assume x: "x \<in> insert (opened ord table) T" and y: "y \<in> insert (opened ord table) T"
      and same: "is_open x \<and> is_open y \<and> tr_schema_id x = tr_schema_id y \<and> eq_ignore_ascii_case (tr_name x) (tr_name y)"
    then have sym: "eq_ignore_ascii_case (tr_name y) (tr_name x)" by (simp add: eq_ignore_ascii_case_def)
    show "x = y"
    proof (cases "x = opened ord table")
      case True
      then show ?thesis using y same sym clash [of y] by auto
    next
      case False
      then show ?thesis using x y same clash [of x] T by (auto simp: names_unique_def)
    qed
  qed
qed

lemma open_replaced:
  assumes "replaceable T reps"
  shows "{x \<in> fold (replace_in ord) reps T. is_open x} =
    {x \<in> T. is_open x \<and> x \<notin> rep_previous ` set reps} \<union> (\<lambda>r. opened ord (rep_next r)) ` set reps"
  using assms
proof (induction reps arbitrary: T)
  case (Cons rep reps)
  let ?T = "replace_in ord rep T"
  have r: "rep_previous rep \<in> T" "is_open (rep_previous rep)" "tr_table_id (rep_previous rep) = rep_table_id rep"
    "tr_table_id (rep_next rep) = rep_table_id rep" "rep_table_id rep \<notin> rep_table_id ` set reps"
    using Cons.prems by (simp_all add: replaceable_def)
  have rest: "rep_previous x \<in> T" "is_open (rep_previous x)" "tr_table_id (rep_previous x) = rep_table_id x"
    if "x \<in> set reps" for x using Cons.prems that by (simp_all add: replaceable_def)
  have "tr_table_id ` rep_previous ` set reps \<subseteq> rep_table_id ` set reps" using rest(3) by auto
  then have other: "rep_previous rep \<notin> rep_previous ` set reps" "opened ord (rep_next rep) \<notin> rep_previous ` set reps"
    using r(3,4,5) imageI [of "rep_previous rep" "rep_previous ` set reps" tr_table_id]
      imageI [of "opened ord (rep_next rep)" "rep_previous ` set reps" tr_table_id] by auto
  have "replaceable ?T reps"
    using Cons.prems other(1) by (auto simp: replaceable_def replace_in_def)
  note Cons.IH [OF this]
  moreover have "{x \<in> ?T. is_open x \<and> x \<notin> rep_previous ` set reps} =
      insert (opened ord (rep_next rep)) {x \<in> T. is_open x \<and> x \<notin> rep_previous ` set (rep # reps)}"
    using other ended_neq [OF r(2)] by (auto simp: replace_in_def validity_new_sel)
  ultimately show ?case by auto
qed simp

section \<open>Renaming\<close>

abbreviation replacement_of :: "renamed_table \<Rightarrow> table_version_replacement" where
  "replacement_of r \<equiv> \<lparr>rep_table_id = tr_table_id (rn_previous r), rep_previous = rn_previous r, rep_next = rn_renamed r\<rparr>"

definition renamed_ok :: "table_row list \<Rightarrow> table_rename list \<Rightarrow> renamed_table list \<Rightarrow> bool" where
  "renamed_ok current renames ren \<longleftrightarrow>
     (\<forall>r \<in> set ren. rn_previous r \<in> set current \<and> rn_renamed r = (rn_previous r)\<lparr>tr_name := tr_name (rn_renamed r)\<rparr> \<and>
        tr_name (rn_renamed r) \<in> rename_new_name ` set renames \<and>
        (\<forall>t \<in> set current. tr_schema_id t = tr_schema_id (rn_previous r) \<and> tr_table_id t \<noteq> tr_table_id (rn_previous r) \<and>
           tr_table_id t \<notin> rename_table_id ` set renames \<longrightarrow> \<not> eq_ignore_ascii_case (tr_name t) (tr_name (rn_renamed r)))) \<and>
     sorted_wrt (\<lambda>q r. tr_schema_id (rn_renamed q) = tr_schema_id (rn_renamed r) \<longrightarrow>
        \<not> eq_ignore_ascii_case (tr_name (rn_renamed q)) (tr_name (rn_renamed r))) ren"

lemma bex_image: "(\<exists>r \<in> A. f r = x) \<longleftrightarrow> x \<in> f ` A"
  by auto

lemma rename_one_table_ok:
  assumes "rename_one_table current renames rename (ren, reps) = Inr (ren', reps')" "renamed_ok current renames ren"
    "rename \<in> set renames"
  shows "\<exists>r. ren' = ren @ [r] \<and> reps' = reps @ [replacement_of r] \<and> tr_table_id (rn_previous r) = rename_table_id rename \<and>
    renamed_ok current renames (ren @ [r])"
proof -
  from assms(1) obtain p where p: "find (\<lambda>t. tr_table_id t = rename_table_id rename) current = Some p"
    by (auto simp: rename_one_table_def split: option.splits)
  then have p': "p \<in> set current" "tr_table_id p = rename_table_id rename" by (auto simp: find_Some_iff)
  let ?r = "\<lparr>rn_previous = p, rn_renamed = p\<lparr>tr_name := rename_new_name rename\<rparr>\<rparr>"
  from assms(1) p have res: "ren' = ren @ [?r]" "reps' = reps @ [replacement_of ?r]"
    "reject_table_name_conflict current renames ren p (rename_new_name rename) = Inr ()"
    by (auto simp: rename_one_table_def Let_def rbind_Inr_iff)
  from res(3) have "renamed_ok current renames (ren @ [?r])"
    using assms(2,3) p' by (auto simp: renamed_ok_def reject_table_name_conflict_def Let_def sorted_wrt_append bex_image
      split: if_splits)
  with res p' show ?thesis by (intro exI [of _ ?r]) simp
qed

lemma rename_fold:
  assumes "rfold (rename_one_table current renames) rs (ren0, map replacement_of ren0) = Inr (ren, reps)"
    "renamed_ok current renames ren0" "set rs \<subseteq> set renames"
  shows "renamed_ok current renames ren \<and> reps = map replacement_of ren \<and>
    map (\<lambda>r. tr_table_id (rn_previous r)) ren = map (\<lambda>r. tr_table_id (rn_previous r)) ren0 @ map rename_table_id rs"
  using assms
proof (induction rs arbitrary: ren0)
  case (Cons rename rs)
  from Cons.prems(1) obtain acc where acc: "rename_one_table current renames rename (ren0, map replacement_of ren0) = Inr acc"
    "rfold (rename_one_table current renames) rs acc = Inr (ren, reps)" by (auto simp: rbind_Inr_iff)
  obtain ren' reps' where "acc = (ren', reps')" by (cases acc)
  with rename_one_table_ok [of current renames rename ren0 "map replacement_of ren0" ren' reps'] acc(1) Cons.prems(2,3)
  obtain r where r: "acc = (ren0 @ [r], map replacement_of (ren0 @ [r]))" "tr_table_id (rn_previous r) = rename_table_id rename"
    "renamed_ok current renames (ren0 @ [r])" by auto
  from Cons.IH [OF acc(2) [unfolded r(1)] r(3)] Cons.prems(3) r(2) show ?case by simp
qed simp

lemma insert_unique_distinct:
  "rfold (\<lambda>x. insert_unique err (f x)) xs seen = Inr seen' \<Longrightarrow> distinct (map f xs) \<and> f ` set xs \<inter> seen = {}"
  by (induction xs arbitrary: seen) (fastforce simp: insert_unique_def rbind_Inr_iff split: if_splits)+

lemma reject_duplicate_renames_distinct:
  "reject_duplicate_renames renames = Inr u \<Longrightarrow> distinct (map rename_table_id renames)"
  by (auto simp: reject_duplicate_renames_def rbind_Inr_iff dest: insert_unique_distinct)

lemma names_unique_rename:
  assumes "tables_are m c T" "names_unique T" "set current = {x \<in> T. is_open x}" "renamed_ok current renames ren"
    "map (\<lambda>r. tr_table_id (rn_previous r)) ren = map rename_table_id renames" "replaceable T (map replacement_of ren)"
  shows "names_unique (fold (replace_in ord) (map replacement_of ren) T)"
proof -
  let ?T = "fold (replace_in ord) (map replacement_of ren) T"
  have ids: "rename_table_id ` set renames = (\<lambda>r. tr_table_id (rn_previous r)) ` set ren"
    using assms(5) by (metis list.set_map)
  have open': "{x \<in> ?T. is_open x} = {x \<in> T. is_open x \<and> x \<notin> rn_previous ` set ren} \<union> (\<lambda>r. opened ord (rn_renamed r)) ` set ren"
    using open_replaced [OF assms(6), of ord] by (simp add: image_image)
  have new: "rn_previous r \<in> T" "is_open (rn_previous r)" "tr_schema_id (rn_renamed r) = tr_schema_id (rn_previous r)"
    if "r \<in> set ren" for r
  proof -
    have "rn_previous r \<in> set current" "rn_renamed r = (rn_previous r)\<lparr>tr_name := tr_name (rn_renamed r)\<rparr>"
      using assms(4) that by (simp_all add: renamed_ok_def)
    then show "rn_previous r \<in> T" "is_open (rn_previous r)" "tr_schema_id (rn_renamed r) = tr_schema_id (rn_previous r)"
      using assms(3) by (auto dest: arg_cong [where f = tr_schema_id])
  qed
  have old_new: False if "x \<in> T" "is_open x" "x \<notin> rn_previous ` set ren" "r \<in> set ren"
    "tr_schema_id x = tr_schema_id (rn_renamed r)" "eq_ignore_ascii_case (tr_name x) (tr_name (rn_renamed r))" for x r
  proof -
    have "tr_table_id x \<notin> rename_table_id ` set renames"
      unfolding ids using that(1-3) new(1,2) open_unique [OF assms(1) that(1)] by (auto simp: image_iff)
    moreover from this have "tr_table_id x \<noteq> tr_table_id (rn_previous r)" using that(4) unfolding ids by auto
    moreover have "x \<in> set current" using that(1,2) assms(3) by simp
    ultimately show False using assms(4) that(4-6) new(3) [OF that(4)] by (auto simp: renamed_ok_def)
  qed
  have new_new: "q = r" if "q \<in> set ren" "r \<in> set ren" "tr_schema_id (rn_renamed q) = tr_schema_id (rn_renamed r)"
    "eq_ignore_ascii_case (tr_name (rn_renamed q)) (tr_name (rn_renamed r))" for q r
  proof (rule ccontr)
    assume "q \<noteq> r"
    with that(1,2) obtain i j where ij: "i < length ren" "j < length ren" "ren ! i = q" "ren ! j = r" "i \<noteq> j"
      by (metis in_set_conv_nth)
    have apart: "a < b \<Longrightarrow> b < length ren \<Longrightarrow> tr_schema_id (rn_renamed (ren ! a)) = tr_schema_id (rn_renamed (ren ! b)) \<Longrightarrow>
        \<not> eq_ignore_ascii_case (tr_name (rn_renamed (ren ! a))) (tr_name (rn_renamed (ren ! b)))" for a b
      using assms(4) by (simp add: renamed_ok_def sorted_wrt_iff_nth_less)
    have "eq_ignore_ascii_case (tr_name (rn_renamed r)) (tr_name (rn_renamed q))"
      using that(4) by (simp add: eq_ignore_ascii_case_def)
    with apart [of i j] apart [of j i] ij that(3,4) show False by (cases "i < j") auto
  qed
  have "x = y" if xy: "x \<in> {x \<in> ?T. is_open x}" "y \<in> {x \<in> ?T. is_open x}" "tr_schema_id x = tr_schema_id y"
    "eq_ignore_ascii_case (tr_name x) (tr_name y)" for x y
    using xy(1,2) unfolding open'
  proof (elim UnE imageE; simp)
    assume "x \<in> T \<and> is_open x \<and> x \<notin> rn_previous ` set ren" "y \<in> T \<and> is_open y \<and> y \<notin> rn_previous ` set ren"
    with assms(2) xy(3,4) show "x = y" by (auto simp: names_unique_def)
  next
    fix r assume "x \<in> T \<and> is_open x \<and> x \<notin> rn_previous ` set ren" "y = opened ord (rn_renamed r)" "r \<in> set ren"
    with old_new [of x r] xy(3,4) show "x = opened ord (rn_renamed r)" by auto
  next
    fix r assume "y \<in> T \<and> is_open y \<and> y \<notin> rn_previous ` set ren" "x = opened ord (rn_renamed r)" "r \<in> set ren"
    with old_new [of y r] xy(3,4) eq_ignore_ascii_case_sym show "opened ord (rn_renamed r) = y" by auto
  next
    fix q r assume "x = opened ord (rn_renamed q)" "q \<in> set ren" "y = opened ord (rn_renamed r)" "r \<in> set ren"
    with new_new [of q r] xy(3,4) show "opened ord (rn_renamed q) = opened ord (rn_renamed r)" by auto
  qed
  then show ?thesis unfolding names_unique_def by auto
qed

lemma commit_rename_tables_outcome:
  assumes "table_catalog kv c H L T vs" "clock_ahead kv H" "\<forall>r \<in> set renames. string_ok (rename_new_name r)"
    and res: "commit_rename_tables kv c now renames = (res, kv')"
  shows "kv' = kv \<or> (\<exists>ren reps vs'. res = Inr ren \<and> reps = map replacement_of ren \<and>
    map (\<lambda>r. tr_table_id (rn_previous r)) ren = map rename_table_id renames \<and> replaceable T reps \<and>
    table_catalog kv' c (H @ [next_snapshot now kv H]) (L @ [next_snapshot now kv H])
      (fold (replace_in (next_commit_order kv)) reps T) vs' \<and> next_order kv' = next_order kv + 1 \<and> others_kept c kv kv' \<and>
    (names_unique T \<longrightarrow> names_unique (fold (replace_in (next_commit_order kv)) reps T)))"
proof (cases "kv' = kv")
  case changed: False
  note A = table_catalogD [OF assms(1)]
  have latest: "latest_snapshot kv c = Inr (if H = [] then None else Some (last H))"
    using A(2,3) by (rule latest_snapshot_reads)
  from res changed have ne: "renames \<noteq> []" "H \<noteq> []"
    by (auto simp: commit_rename_tables_def latest attempt_def split: sum.splits if_splits)
  obtain current where cur: "list_tables_at kv c (sn_order (last H)) = Inr current" "lists_visible T (sn_order (last H)) current"
    using list_tables_at_lists_visible [OF A(2-4,6,7)] by blast
  have "is_visible_at (tr_validity x) (sn_order (last H)) \<longleftrightarrow> is_open x" if "x \<in> T" for x
    using visible_at_latest [OF _ that] A(7) ne(2) by simp
  then have current: "set current = {x \<in> T. is_open x}" using cur(2) unfolding lists_visible_def by blast
  obtain u where dup: "reject_duplicate_renames renames = Inr u"
    using res changed ne by (auto simp: commit_rename_tables_def attempt_def split: sum.splits)
  obtain ren reps where fold: "rfold (rename_one_table current renames) renames ([], []) = Inr (ren, reps)"
    using res changed ne by (auto simp: commit_rename_tables_def attempt_def latest cur(1) dup split: sum.splits)
  have "renamed_ok current renames ren \<and> reps = map replacement_of ren \<and>
      map (\<lambda>r. tr_table_id (rn_previous r)) ren = map rename_table_id renames"
    using rename_fold [of current renames renames "[]" ren reps] fold by (simp add: renamed_ok_def)
  then have ren: "renamed_ok current renames ren" "reps = map replacement_of ren"
    "map (\<lambda>r. tr_table_id (rn_previous r)) ren = map rename_table_id renames" by blast+
  have "table_row_ok (rn_renamed r) \<and> tr_table_id (rn_renamed r) = tr_table_id (rn_previous r)" if "r \<in> set ren" for r
  proof -
    have eq: "rn_renamed r = (rn_previous r)\<lparr>tr_name := tr_name (rn_renamed r)\<rparr>" and r: "rn_previous r \<in> T"
      "tr_name (rn_renamed r) \<in> rename_new_name ` set renames"
      using ren(1) that current by (auto simp: renamed_ok_def)
    have "string_ok (tr_name (rn_renamed r))" "table_row_ok (rn_previous r)"
      using r assms(3) tables_are_ok [OF A(4)] by auto
    then have "table_row_ok ((rn_previous r)\<lparr>tr_name := tr_name (rn_renamed r)\<rparr>)" by (simp add: table_row_ok_def)
    then have "table_row_ok (rn_renamed r)" by (subst eq)
    moreover have "tr_table_id (rn_renamed r) = tr_table_id (rn_previous r)" using arg_cong [OF eq, of tr_table_id] by simp
    ultimately show ?thesis by blast
  qed
  moreover have "rn_previous r \<in> T \<and> is_open (rn_previous r)" if "r \<in> set ren" for r
    using ren(1) that current by (auto simp: renamed_ok_def)
  moreover have "distinct (map rep_table_id reps)"
    using reject_duplicate_renames_distinct [OF dup] ren(3) by (simp add: ren(2) comp_def)
  ultimately have rep: "replaceable T reps" by (auto simp: replaceable_def ren(2))
  have "reps \<noteq> []" using ren(2,3) ne(1) by auto
  from commit_table_replacements_outcome [OF assms(1,2) ne(2) rep this, of now] obtain kv2 where kv2:
    "commit_table_replacements kv c now (sn_sequence (last H)) reps = (Inr (), kv2)" "next_order kv2 = next_order kv + 1"
    "table_catalog kv2 c (H @ [next_snapshot now kv H]) (L @ [next_snapshot now kv H])
      (fold (replace_in (next_commit_order kv)) reps T) (if changes_schema reps then next_version kv vs else vs)"
    "others_kept c kv kv2" by blast
  have "res = Inr ren" "kv' = kv2"
    using res ne by (auto simp: commit_rename_tables_def latest cur(1) dup fold kv2(1) Let_def)
  moreover have "names_unique (fold (replace_in (next_commit_order kv)) reps T)" if "names_unique T"
    using names_unique_rename [OF A(4) that current ren(1,3)] rep by (simp add: ren(2))
  ultimately show ?thesis using kv2(2-4) ren(2,3) rep by blast
qed simp

end
