(* ===== verification/Cat_Object_Spec.thy ===== *)
theory Cat_Object_Spec
  imports Cat_Objects Cat_Table_Names
begin

text \<open>
  The stores of schemas, views and macros against their specification. One locale describes a kind of versioned
  object whose keys lie apart from those of snapshots, schema versions and tables: what listing and loading return,
  and what beginning and ending versions does to the stored set. It is interpreted for the three kinds.
\<close>

section \<open>A kind of object\<close>

locale object_kind = versioned_objects space obj ver oid win enc ok dec
  for space :: bytes and obj ver and oid :: "'a \<Rightarrow> u64" and win :: "'a \<Rightarrow> validity_window" and enc ok dec +
  fixes c :: catalog_id and set_win :: "validity_window \<Rightarrow> 'a \<Rightarrow> 'a"
  assumes main: "prefix space k \<Longrightarrow> k \<in> main_space c"
    and apart: "prefix space k \<Longrightarrow> k \<notin> version_space c \<and> k \<notin> snapshot_space c \<and> k \<notin> table_space c"
    and set_win: "win (set_win w x) = w" "oid (set_win w x) = oid x" "ok (set_win w x) = ok x"
      "set_win w (set_win v x) = set_win w x"
begin

definition row_begun :: "catalog_order_id \<Rightarrow> 'a \<Rightarrow> 'a" where
  "row_begun ord x = set_win (validity_new ord None) x"

definition row_ended :: "catalog_order_id \<Rightarrow> 'a \<Rightarrow> 'a" where
  "row_ended ord x = set_win ((win x)\<lparr>end_order := Some ord\<rparr>) x"

definition put_row :: "'a \<Rightarrow> (bytes \<rightharpoonup> bytes) \<Rightarrow> (bytes \<rightharpoonup> bytes)" where
  "put_row x m = m(ver (oid x) (begin_order (win x)) \<mapsto> enc x)"

definition rows_upto :: "catalog_order_id \<Rightarrow> 'a set \<Rightarrow> bool" where
  "rows_upto ord S \<longleftrightarrow> (\<forall>r \<in> S. begin_order (win r) \<le> ord \<and> (\<forall>e. end_order (win r) = Some e \<longrightarrow> e \<le> ord))"

definition closed_history :: "'a set \<Rightarrow> snapshot_row list \<Rightarrow> bool" where
  "closed_history S H \<longleftrightarrow> versions_wf oid win S \<and> (if H = [] then S = {} else rows_upto (sn_order (last H)) S)"

abbreviation visible_rows :: "catalog_order_id \<Rightarrow> 'a set \<Rightarrow> 'a list" where
  "visible_rows ord S \<equiv> filter (\<lambda>x. is_visible_at (win x) ord) (all_versions S)"

abbreviation is_open_row :: "'a \<Rightarrow> bool" where
  "is_open_row x \<equiv> end_order (win x) = None"

lemma rows_sel [simp]:
  "win (row_begun ord x) = validity_new ord None" "oid (row_begun ord x) = oid x" "ok (row_begun ord x) = ok x"
  "win (row_ended ord x) = (win x)\<lparr>end_order := Some ord\<rparr>" "oid (row_ended ord x) = oid x" "ok (row_ended ord x) = ok x"
  by (simp_all add: row_begun_def row_ended_def set_win)

lemma put_row_other: "\<not> prefix space k \<Longrightarrow> put_row x m k = m k"
  using in_space [of x] by (auto simp: put_row_def)

lemma fold_put_other: "\<not> prefix space k \<Longrightarrow> fold (\<lambda>x. put_row (f x)) xs m k = m k"
  by (induction xs arbitrary: m) (simp_all add: put_row_other)

lemma rows_upto_mono: "rows_upto a S \<Longrightarrow> a \<le> b \<Longrightarrow> rows_upto b S"
  unfolding rows_upto_def by (meson order_trans)

lemma visible_latest: "rows_upto ord S \<Longrightarrow> r \<in> S \<Longrightarrow> is_visible_at (win r) ord \<longleftrightarrow> is_open_row r"
  by (cases "end_order (win r)") (auto simp: rows_upto_def is_visible_at_def)

lemma same_key: "ver (oid x) (begin_order (win x)) = ver (oid y) (begin_order (win y)) \<longleftrightarrow>
    oid x = oid y \<and> order_arr (begin_order (win x)) = order_arr (begin_order (win y))"
  by (auto simp: ver_law obj_law order_as_bytes_eq_iff)

lemma visible_rows_spec:
  assumes "holds (fake_get kv) S"
  shows "set (visible_rows ord S) = {x \<in> S. is_visible_at (win x) ord}" "distinct (visible_rows ord S)"
  using all_versions_spec(1,2) [OF assms] by (auto simp: distinct_filter)

lemma visible_one:
  assumes "holds m S" "versions_wf oid win S" "x \<in> S" "y \<in> S" "oid x = oid y"
    "is_visible_at (win x) ord" "is_visible_at (win y) ord"
  shows "x = y"
proof -
  have le: "begin_order (win x) \<le> ord" "begin_order (win y) \<le> ord" using assms(6,7) by (simp_all add: is_visible_at_def)
  have "\<not> begin_order (win x) < begin_order (win y)" using versions_wf_next [OF assms(2-5) _ le(2)] assms(6) by blast
  moreover have "\<not> begin_order (win y) < begin_order (win x)"
    using versions_wf_next [OF assms(2,4,3) assms(5) [symmetric] _ le(1)] assms(7) by blast
  ultimately have "order_arr (begin_order (win x)) = order_arr (begin_order (win y))" by (simp add: order_less_iff)
  with assms(5) show ?thesis using holds_unique [OF assms(1,3,4)] same_key by blast
qed

lemma visible_rows_sorted:
  assumes "holds (fake_get kv) S" "versions_wf oid win S"
  shows "sorted_wrt (\<lambda>x y. oid x < oid y) (visible_rows ord S)"
proof -
  have "sorted_wrt (\<lambda>x y. oid x < oid y \<or> oid x = oid y \<and> begin_order (win x) < begin_order (win y)) (visible_rows ord S)"
    by (rule sorted_wrt_filter [OF all_versions_spec(3) [OF assms(1)]])
  then show ?thesis
  proof (rule sorted_wrt_mono_rel [rotated])
    fix x y
    assume x: "x \<in> set (visible_rows ord S)" and y: "y \<in> set (visible_rows ord S)"
      and "oid x < oid y \<or> oid x = oid y \<and> begin_order (win x) < begin_order (win y)"
    then show "oid x < oid y"
      using visible_one [OF assms, of x y ord] visible_rows_spec(1) [OF assms(1), of ord] by auto
  qed
qed

section \<open>Beginning and ending versions\<close>

abbreviation row_key :: "'a \<Rightarrow> bytes" where
  "row_key x \<equiv> ver (oid x) (begin_order (win x))"

abbreviation row_without_end :: "'a \<Rightarrow> 'a" where
  "row_without_end x \<equiv> set_win ((win x)\<lparr>end_order := None\<rparr>) x"

definition visible_set :: "'a set \<Rightarrow> catalog_order_id \<Rightarrow> 'a set" where
  "visible_set S ord = row_without_end ` {x \<in> S. is_visible_at (win x) ord}"

lemma holds_put_all:
  "holds m S \<Longrightarrow> \<forall>x \<in> set ys. ok x \<Longrightarrow> inj_on row_key (set ys) \<Longrightarrow>
   holds (fold put_row ys m) ({y \<in> S. row_key y \<notin> row_key ` set ys} \<union> set ys)"
proof (induction ys arbitrary: m S)
  case (Cons x ys)
  let ?S = "insert x {y \<in> S. row_key y \<noteq> row_key x}"
  have "holds (put_row x m) ?S" unfolding put_row_def using Cons.prems by (intro holds_put) simp_all
  from Cons.IH [OF this] Cons.prems
  have "holds (fold put_row (x # ys) m) ({y \<in> ?S. row_key y \<notin> row_key ` set ys} \<union> set ys)" by simp
  moreover have "{y \<in> ?S. row_key y \<notin> row_key ` set ys} \<union> set ys = {y \<in> S. row_key y \<notin> row_key ` set (x # ys)} \<union> set (x # ys)"
    using inj_onD [OF Cons.prems(3)] by (auto 4 4)
  ultimately show ?case by simp
qed simp

definition commits :: "catalog_order_id \<Rightarrow> 'a set \<Rightarrow> 'a set \<Rightarrow> 'a set \<Rightarrow> bool" where
  "commits ord S E N \<longleftrightarrow> E \<subseteq> S \<and> (\<forall>x \<in> E. is_open_row x) \<and> (\<forall>n \<in> N. win n = validity_new ord None \<and> ok n) \<and> inj_on oid N \<and>
     (\<forall>n \<in> N. \<forall>y \<in> S. oid y = oid n \<longrightarrow> \<not> is_open_row y \<or> y \<in> E)"

abbreviation committed :: "catalog_order_id \<Rightarrow> 'a set \<Rightarrow> 'a set \<Rightarrow> 'a set \<Rightarrow> 'a set" where
  "committed ord S E N \<equiv> (S - E) \<union> row_ended ord ` E \<union> N"

definition before :: "catalog_order_id \<Rightarrow> 'a set \<Rightarrow> bool" where
  "before ord S \<longleftrightarrow> (\<forall>x \<in> S. begin_order (win x) < ord \<and> (\<forall>e. end_order (win x) = Some e \<longrightarrow> e \<le> ord))"

lemma holds_committed:
  assumes "holds m S" "before ord S" "commits ord S E N" "set ys = row_ended ord ` E \<union> N" "inj_on row_key (set ys)"
  shows "holds (fold put_row ys m) (committed ord S E N)"
proof -
  have "\<forall>x \<in> set ys. ok x" using assms(1,3,4) holds_ok by (auto simp: commits_def)
  note put = holds_put_all [OF assms(1) this assms(5)]
  have N: "row_key y \<noteq> row_key n" if "y \<in> S" "n \<in> N" for y n
  proof -
    have "begin_order (win n) = ord" using that(2) assms(3) by (simp add: commits_def validity_new_sel)
    moreover have "begin_order (win y) < ord" using that(1) assms(2) by (simp add: before_def)
    ultimately show ?thesis unfolding same_key by (auto simp: order_less_iff)
  qed
  have E: "row_key y = row_key (row_ended ord x) \<longleftrightarrow> y = x" if "y \<in> S" "x \<in> E" for x y
    using that assms(1,3) holds_unique [of m S y x] by (auto simp: commits_def)
  have "{y \<in> S. row_key y \<notin> row_key ` set ys} = S - E"
  proof (rule set_eqI)
    fix y
    show "y \<in> {y \<in> S. row_key y \<notin> row_key ` set ys} \<longleftrightarrow> y \<in> S - E"
      using N E assms(3) unfolding assms(4) commits_def by blast
  qed
  with put show ?thesis by (simp add: assms(4) Un_assoc)
qed

lemma upto_committed:
  assumes "before ord S" "commits ord S E N"
  shows "rows_upto ord (committed ord S E N)"
proof -
  have "begin_order (win x) \<le> ord" if "x \<in> S" for x using assms(1) that by (auto simp: before_def intro: less_imp_le)
  with assms show ?thesis unfolding rows_upto_def before_def commits_def by (auto simp: validity_new_sel)
qed

lemma wf_committed:
  assumes "versions_wf oid win S" "before ord S" "commits ord S E N"
  shows "versions_wf oid win (committed ord S E N)"
proof -
  let ?S = "committed ord S E N"
  have old: "(\<exists>x0 \<in> S. oid x0 = oid x \<and> begin_order (win x0) = begin_order (win x) \<and> begin_order (win x) < ord \<and>
      (x = x0 \<and> x0 \<notin> E \<or> x0 \<in> E \<and> end_order (win x) = Some ord)) \<or> x \<in> N" if "x \<in> ?S" for x
    using that assms(2,3) unfolding before_def commits_def by fastforce
  have new: "begin_order (win n) = ord" "end_order (win n) = None" if "n \<in> N" for n
    using that assms(3) by (simp_all add: commits_def validity_new_sel)
  show ?thesis
    unfolding versions_wf_def
  proof (intro conjI ballI allI impI)
    fix x e
    assume "x \<in> ?S" "end_order (win x) = Some e"
    with old [of x] new [of x] assms(1) show "begin_order (win x) < e" unfolding versions_wf_def by auto
  next
    fix x y
    assume x: "x \<in> ?S" and y: "y \<in> ?S" and xy: "oid x = oid y" "begin_order (win x) < begin_order (win y)"
    have ylt: "begin_order (win y) \<le> ord" using old [OF y] new [of y] by (auto intro: less_imp_le)
    have "x \<notin> N" using xy(2) ylt new [of x] by (auto simp: order_less_iff order_le_iff)
    with old [OF x] obtain x0 where x0: "x0 \<in> S" "oid x0 = oid x" "begin_order (win x0) = begin_order (win x)"
      "x = x0 \<and> x0 \<notin> E \<or> x0 \<in> E \<and> end_order (win x) = Some ord" by blast
    show "\<exists>e. end_order (win x) = Some e \<and> e \<le> begin_order (win y)"
    proof (cases "y \<in> N")
      case True
      then have "\<not> is_open_row x0 \<or> x0 \<in> E" using x0(1,2) xy(1) assms(3) unfolding commits_def by metis
      then obtain e where "end_order (win x) = Some e" "e \<le> ord"
        using x0(1,4) assms(2) by (cases "end_order (win x)") (auto simp: before_def)
      with new(1) [OF True] show ?thesis by simp
    next
      case False
      with old [OF y] obtain y0 where y0: "y0 \<in> S" "oid y0 = oid y" "begin_order (win y0) = begin_order (win y)" by blast
      with x0 xy assms(1) have "\<exists>e. end_order (win x0) = Some e \<and> e \<le> begin_order (win y)" unfolding versions_wf_def by metis
      with x0 assms(3) show ?thesis unfolding commits_def by auto
    qed
  qed
qed

lemma visible_committed:
  assumes "commits ord S E N" "o1 < ord"
  shows "visible_set (committed ord S E N) o1 = visible_set S o1"
proof -
  let ?vis = "\<lambda>x. is_visible_at (win x) o1"
  have N: "{x \<in> N. ?vis x} = {}" using assms by (auto simp: commits_def is_visible_at_def validity_new_sel)
  have end_vis: "?vis (row_ended ord x) \<longleftrightarrow> ?vis x" if "x \<in> E" for x
    using that assms by (auto simp: commits_def is_visible_at_def)
  have strip: "row_without_end (row_ended ord x) = row_without_end x" for x by (simp add: row_ended_def set_win)
  have "{x \<in> committed ord S E N. ?vis x} = {x \<in> S - E. ?vis x} \<union> row_ended ord ` {x \<in> E. ?vis x}"
    using N end_vis by auto
  then have "visible_set (committed ord S E N) o1 = row_without_end ` {x \<in> S - E. ?vis x} \<union> row_without_end ` {x \<in> E. ?vis x}"
    unfolding visible_set_def by (simp only: image_Un image_image strip)
  also have "\<dots> = row_without_end ` ({x \<in> S - E. ?vis x} \<union> {x \<in> E. ?vis x})" by (rule image_Un [symmetric])
  also have "{x \<in> S - E. ?vis x} \<union> {x \<in> E. ?vis x} = {x \<in> S. ?vis x}" using assms(1) by (auto simp: commits_def)
  finally show ?thesis by (simp add: visible_set_def)
qed

lemma visible_rows_kept:
  assumes "holds (fake_get kv) S" "versions_wf oid win S" "holds (fake_get kv') S'" "versions_wf oid win S'"
    "visible_set S' o1 = visible_set S o1"
  shows "map row_without_end (visible_rows o1 S') = map row_without_end (visible_rows o1 S)"
proof -
  let ?ys = "map row_without_end (visible_rows o1 S')" and ?xs = "map row_without_end (visible_rows o1 S)"
  have sets: "set ?ys = set ?xs"
    using assms(5) visible_rows_spec(1) [OF assms(1)] visible_rows_spec(1) [OF assms(3)] by (simp add: visible_set_def)
  have sorted: "sorted_wrt (<) (map oid ?ys)" "sorted_wrt (<) (map oid ?xs)"
    using visible_rows_sorted [OF assms(1,2)] visible_rows_sorted [OF assms(3,4)]
    by (simp_all add: sorted_wrt_map comp_def set_win)
  have "set (map oid ?ys) = set (map oid ?xs)" using sets by (simp only: set_map)
  with sorted have "map oid ?ys = map oid ?xs" by (intro strict_sorted_equal) simp_all
  moreover have "inj_on oid (set ?ys \<union> set ?xs)"
    using sorted(2) strict_sorted_iff [of "map oid ?xs"] unfolding sets distinct_map [of _ ?xs] by simp
  ultimately show ?thesis by (rule inj_on_map_eq_map [THEN iffD1, rotated])
qed

end

section \<open>The three kinds\<close>

lemma object_tag_apart:
  assumes "prefix (family_prefix c Object @ [t] @ [slash]) k"
  shows "k \<in> main_space c" "k \<notin> version_space c" "k \<notin> snapshot_space c"
    "t \<notin> {116, 86, 84} \<Longrightarrow> k \<notin> table_space c"
    "t \<noteq> t' \<Longrightarrow> \<not> prefix (family_prefix c Object @ [t'] @ [slash]) k"
proof -
  have fam: "prefix (family_prefix c Object) k" using assms by (rule append_prefixD)
  have other: "f \<noteq> Object \<Longrightarrow> \<not> prefix (family_prefix c f) k" for f using family_prefix_unique [OF fam] by blast
  show "k \<in> main_space c" by (rule main_space_family [OF _ fam]) simp
  show "k \<notin> version_space c" using other [of MetadataVersion] version_space_family [of k c] by auto
  show "k \<notin> snapshot_space c" using other snapshot_space_family [of k c] snapshot_cells_family [of k c] by auto
  show tags: "t \<noteq> t' \<Longrightarrow> \<not> prefix (family_prefix c Object @ [t'] @ [slash]) k" for t'
    using assms by (auto elim!: prefixE)
  show "t \<notin> {116, 86, 84} \<Longrightarrow> k \<notin> table_space c"
    using tags [of 116] tags [of 86] tags [of 84]
    by (auto simp: table_space_def table_object_scan_prefix_def table_visibility_prefix_def current_table_row_prefix_def)
qed

lemma decode_schema_item_stored:
  "schema_row_ok r \<Longrightarrow>
   decode_schema_item c (schema_object_key c (sr_schema_id r) (begin_order (sr_validity r))) (schema_row_encode r) = Inr r"
  by (simp add: decode_schema_item_def schema_row_roundtrip order_from_key_tail_def schema_object_key_def)

lemma decode_view_item_stored:
  "view_row_ok r \<Longrightarrow>
   decode_view_item c (view_object_key c (vr_view_id r) (begin_order (vr_validity r))) (view_row_encode r) = Inr r"
  by (simp add: decode_view_item_def view_row_roundtrip view_order_from_key_def view_object_key_def)

lemma decode_macro_item_stored:
  "macro_row_ok r \<Longrightarrow>
   decode_macro_item c (macro_object_key c (mr_macro_id r) (begin_order (mr_validity r))) (macro_row_encode r) = Inr r"
  by (simp add: decode_macro_item_def macro_row_roundtrip macro_order_from_key_def macro_object_key_def)

interpretation schemas: object_kind "schema_object_scan_prefix c" "schema_object_prefix c" "schema_object_key c"
  sr_schema_id sr_validity schema_row_encode schema_row_ok "decode_schema_item c" c "\<lambda>w r. r\<lparr>sr_validity := w\<rparr>" for c
proof
  show "\<exists>p. schema_object_scan_prefix c = p @ [slash]" by (simp add: schema_object_scan_prefix_def)
qed (simp_all add: decode_schema_item_stored schema_object_scan_prefix_def schema_row_ok_def object_tag_apart,
  simp_all add: schema_object_key_def schema_object_prefix_def schema_object_scan_prefix_def)

interpretation views: object_kind "view_object_scan_prefix c" "view_object_prefix c" "view_object_key c"
  vr_view_id vr_validity view_row_encode view_row_ok "decode_view_item c" c "\<lambda>w r. r\<lparr>vr_validity := w\<rparr>" for c
proof
  show "\<exists>p. view_object_scan_prefix c = p @ [slash]" by (simp add: view_object_scan_prefix_def)
qed (simp_all add: decode_view_item_stored view_object_scan_prefix_def view_row_ok_def object_tag_apart,
  simp_all add: view_object_key_def view_object_prefix_def view_object_scan_prefix_def)

interpretation macros: object_kind "macro_object_scan_prefix c" "macro_object_prefix c" "macro_object_key c"
  mr_macro_id mr_validity macro_row_encode macro_row_ok "decode_macro_item c" c "\<lambda>w r. r\<lparr>mr_validity := w\<rparr>" for c
proof
  show "\<exists>p. macro_object_scan_prefix c = p @ [slash]" by (simp add: macro_object_scan_prefix_def)
qed (simp_all add: decode_macro_item_stored macro_object_scan_prefix_def macro_row_ok_def object_tag_apart,
  simp_all add: macro_object_key_def macro_object_prefix_def macro_object_scan_prefix_def)

end
