(* ===== verification/Cat_Object_Commits.thy ===== *)
theory Cat_Object_Commits
  imports Cat_Object_Spec
begin

text \<open>
  What the commits of the schema, view and macro stores do to a catalog. The state of a catalog is its history of
  snapshots, its schema versions and the stored versions of each kind of object; every commit adds the next
  snapshot, advances the schema version and changes one kind.
\<close>

section \<open>Reading\<close>

lemma list_schemas_at_reads:
  "fake_wf kv \<Longrightarrow> schemas.holds c (fake_get kv) S \<Longrightarrow> list_schemas_at kv c ord = Inr (schemas.visible_rows c ord S)"
  by (simp add: list_schemas_at_def list_schema_rows_uncached_def schemas.scan_all)

lemma list_views_at_reads:
  "fake_wf kv \<Longrightarrow> views.holds c (fake_get kv) S \<Longrightarrow> list_views_at kv c ord = Inr (views.visible_rows c ord S)"
  by (simp add: list_views_at_def list_view_rows_uncached_def views.scan_all)

lemma list_macros_at_reads:
  "fake_wf kv \<Longrightarrow> macros.holds c (fake_get kv) S \<Longrightarrow> list_macros_at kv c ord = Inr (macros.visible_rows c ord S)"
  by (simp add: list_macros_at_def list_macro_rows_uncached_def macros.scan_all)

context object_kind
begin

lemma load_reads:
  assumes "fake_wf kv" "holds (fake_get kv) S" "versions_wf oid win S"
  shows "\<exists>r. rbind (fake_scan_range kv (obj i) (prefix_end (ver i ord)) Reverse (Some 1)) (\<lambda>items.
       case items of
         [] \<Rightarrow> Inr None
       | item # _ \<Rightarrow>
           rbind (dec (ri_key item) (ri_value item)) (\<lambda>row.
             if is_visible_at (win row) ord then Inr (Some row) else Inr None)) = Inr r \<and>
    (\<forall>y. r = Some y \<longleftrightarrow> y \<in> S \<and> oid y = i \<and> is_visible_at (win y) ord)"
proof -
  have "x \<in> S" if "rev (begun i ord S) = x # xs" for x xs
    using arg_cong [OF that, of set] begun_spec(1) [OF assms(2), of i ord] by auto
  then have "rbind (fake_scan_range kv (obj i) (prefix_end (ver i ord)) Reverse (Some 1)) (\<lambda>items.
       case items of
         [] \<Rightarrow> Inr None
       | item # _ \<Rightarrow>
           rbind (dec (ri_key item) (ri_value item)) (\<lambda>row.
             if is_visible_at (win row) ord then Inr (Some row) else Inr None)) =
      Inr (case rev (begun i ord S) of [] \<Rightarrow> None | x # _ \<Rightarrow> if is_visible_at (win x) ord then Some x else None)"
    unfolding scan_begun [OF assms(1,2)] using dec_law [OF holds_ok [OF assms(2)]]
    by (cases "rev (begun i ord S)") (simp_all add: to_item_def)
  with last_begun [OF assms(2,3), where i = i and ord = ord] show ?thesis by blast
qed

end

lemma load_schema_at_reads:
  assumes "fake_wf kv" "schemas.holds c (fake_get kv) S" "versions_wf sr_schema_id sr_validity S"
  shows "\<exists>r. load_schema_at kv c i ord = Inr r \<and> (\<forall>y. r = Some y \<longleftrightarrow> y \<in> S \<and> sr_schema_id y = i \<and> is_visible_at (sr_validity y) ord)"
  unfolding load_schema_at_def by (rule schemas.load_reads [OF assms])

lemma load_view_at_reads:
  assumes "fake_wf kv" "views.holds c (fake_get kv) S" "versions_wf vr_view_id vr_validity S"
  shows "\<exists>r. load_view_at kv c i ord = Inr r \<and> (\<forall>y. r = Some y \<longleftrightarrow> y \<in> S \<and> vr_view_id y = i \<and> is_visible_at (vr_validity y) ord)"
  unfolding load_view_at_def by (rule views.load_reads [OF assms])

lemma load_macro_at_reads:
  assumes "fake_wf kv" "macros.holds c (fake_get kv) S" "versions_wf mr_macro_id mr_validity S"
  shows "\<exists>r. load_macro_at kv c i ord = Inr r \<and> (\<forall>y. r = Some y \<longleftrightarrow> y \<in> S \<and> mr_macro_id y = i \<and> is_visible_at (mr_validity y) ord)"
  unfolding load_macro_at_def by (rule macros.load_reads [OF assms])

section \<open>Committing rows of one kind\<close>

text \<open>Staging and committing a batch of rows of one kind.\<close>

context object_kind
begin

lemma key_main: "row_key x \<in> main_space c"
  using main in_space by blast

lemma stages_rows:
  "stages kv c b0 b f W D \<Longrightarrow>
   stages kv c b0 (fold (\<lambda>x b. batch_put b (row_key x) (enc x)) ys b) (\<lambda>m. fold put_row ys (f m)) W D"
proof (induction ys arbitrary: b f)
  case (Cons x ys)
  have "stages kv c b0 (batch_put b (row_key x) (enc x)) (\<lambda>m. put_row x (f m)) W D"
    unfolding put_row_def by (rule then_put [OF Cons.prems key_main])
  from Cons.IH [OF this] show ?case by simp
qed simp

lemma before_next_commit:
  assumes "clock_ahead kv H" "closed_history S H"
  shows "before (next_commit_order kv) S"
proof (cases "H = []")
  case True
  with assms(2) show ?thesis by (simp add: closed_history_def before_def)
next
  case False
  have next_gt: "sn_order (last H) < next_commit_order kv"
    using assms(1) last_in_set [OF False] saturating_Suc(4) [of "next_order kv"]
    unfolding clock_ahead_def order_le_iff order_less_iff uuid_v7_simps by (metis order.strict_trans1)
  from False assms(2) have up: "rows_upto (sn_order (last H)) S" by (simp add: closed_history_def)
  show ?thesis
    unfolding before_def
  proof (intro ballI conjI allI impI)
    fix x e
    assume x: "x \<in> S"
    show "begin_order (win x) < next_commit_order kv" using up x next_gt unfolding rows_upto_def by (meson le_less_trans)
    show "e \<le> next_commit_order kv" if "end_order (win x) = Some e"
      using up x next_gt that unfolding rows_upto_def by (meson less_imp_le le_less_trans)
  qed
qed

definition object_step ::
    "fake_kv \<Rightarrow> fake_kv \<Rightarrow> i64 \<Rightarrow> snapshot_row list \<Rightarrow> snapshot_row list \<Rightarrow> table_row set \<Rightarrow> (u128 \<times> u64) list \<Rightarrow>
     'a set \<Rightarrow> 'a set \<Rightarrow> 'a set \<Rightarrow> bool" where
  "object_step kv kv' now H L T vs S E N \<longleftrightarrow> commits (next_commit_order kv) S E N \<and> next_order kv' = next_order kv + 1 \<and>
     table_catalog kv' c (H @ [next_snapshot now kv H]) (L @ [next_snapshot now kv H]) T (next_version kv vs) \<and>
     holds (fake_get kv') (committed (next_commit_order kv) S E N) \<and>
     closed_history (committed (next_commit_order kv) S E N) (H @ [next_snapshot now kv H]) \<and>
     (\<forall>k \<in> main_space c - version_space c - snapshot_space c. \<not> prefix space k \<longrightarrow> fake_get kv' k = fake_get kv k)"

lemma object_commit:
  fixes kv H now
  defines "kv1 \<equiv> snd (fake_generated_order_id kv)" and "s \<equiv> next_snapshot now kv H" and "ord \<equiv> next_commit_order kv"
  assumes cat: "table_catalog kv c H L T vs" and clock: "clock_ahead kv H"
    and S: "holds (fake_get kv) S" "closed_history S H" "commits ord S E N"
    and ys: "set ys = row_ended ord ` E \<union> N" "inj_on row_key (set ys)"
    and st: "stages kv1 c batch_new b
      (\<lambda>m. fold put_row ys (put_schema_version c s (saturating_add (version_of vs) 1) cnt (put_snapshot c s m))) W D"
  shows "\<exists>kv'. commit_then kv1 b x = (Inr x, kv') \<and> object_step kv kv' now H L T vs S E N"
proof -
  note A = table_catalogD [OF cat] and B = before_next [OF cat clock]
  let ?F = "put_schema_version c s (saturating_add (version_of vs) 1) cnt" and ?G = "fold put_row ys"
  have other: "?G m k = m k" if "\<not> prefix space k" for m k using fold_put_other [OF that, of id ys m] by simp
  have F: "?F m k = m k" if "k \<notin> version_space c" for m k using that by (simp add: effects_local)
  have G: "?G m k = m k" if "k \<in> version_space c \<or> k \<in> snapshot_space c" for m k using other apart that by blast
  have "tables_are (?F (put_snapshot c s (fake_get kv))) c T" by (rule tables_after_snapshot [OF A(4)]) (simp add: effects_local)
  then have tabs: "tables_are (?G (?F (put_snapshot c s (fake_get kv)))) c T"
    by (rule tables_are_local) (use other apart in blast)
  have outside: "?F (put_snapshot c s (fake_get kv)) k = fake_get kv k" if "k \<notin> version_space c" "k \<notin> snapshot_space c" for k
    using that by (simp add: effects_local)
  from catalog_commit [OF cat clock st [unfolded kv1_def s_def] version_step(1) [OF cat clock] F [unfolded s_def]
      tabs [unfolded s_def] G A(6) B(2) version_step(3) [OF cat clock], of x]
  obtain kv' where kv': "commit_then kv1 b x = (Inr x, kv')" "next_order kv' = next_order kv + 1"
    "table_catalog kv' c (H @ [s]) (L @ [s]) T (next_version kv vs)"
    "\<And>k. k \<in> main_space c \<Longrightarrow> fake_get kv' k = ?G (?F (put_snapshot c s (fake_get kv))) k"
    unfolding kv1_def s_def by blast
  have bef: "before ord S" unfolding ord_def by (rule before_next_commit [OF clock S(2)])
  have "holds (?F (put_snapshot c s (fake_get kv))) S"
    using S(1) by (rule holds_local) (use outside apart in blast)
  from holds_committed [OF this bef S(3) ys] have "holds (fake_get kv') (committed ord S E N)"
    by (rule holds_local) (use kv'(4) main in blast)
  moreover have "closed_history (committed ord S E N) (H @ [s])"
    using wf_committed [OF _ bef S(3)] S(2) upto_committed [OF bef S(3)] next_snapshot_follows(3) [OF A(3) clock, of now]
    by (simp add: closed_history_def s_def ord_def)
  moreover have "fake_get kv' k = fake_get kv k"
    if "k \<in> main_space c - version_space c - snapshot_space c" "\<not> prefix space k" for k
    using that kv'(4) [of k] other [of k] outside [of k] by simp
  ultimately show ?thesis using kv'(1,2,3) S(3) unfolding object_step_def s_def ord_def by blast
qed

end

lemma staged_version:
  fixes kv
  defines "kv1 \<equiv> snd (fake_generated_order_id kv)"
  assumes "table_catalog kv c H L T vs"
  obtains b1 cnt where "stage_next_schema_version kv1 (stage_snapshot batch_new c s) c s = Inr b1"
    "stages kv1 c batch_new b1 (\<lambda>m. put_schema_version c s (saturating_add (version_of vs) 1) cnt (put_snapshot c s m)) {} {}"
proof -
  have "stages kv1 c batch_new (stage_snapshot batch_new c s) (put_snapshot c s) {} {}" by (simp add: stages_snapshot)
  moreover have "schema_versions_are (fake_get kv1) c vs" using table_catalogD(5) [OF assms(2)] by (simp add: kv1_def)
  ultimately show ?thesis using stages_next_schema_version [of kv1 c vs batch_new "stage_snapshot batch_new c s"] that by blast
qed

lemma generated_order:
  "clock_ahead kv H \<Longrightarrow> saturating_add (next_order kv) 1 = next_order kv + 1"
  using saturating_Suc(3) [of "next_order kv"] by (simp add: clock_ahead_def)

lemma staging_ready_generated: "staging_ready kv c \<Longrightarrow> staging_ready (snd (fake_generated_order_id kv)) c"
  by (simp add: staging_ready_def)

text \<open>Ending the versions of a list of objects, as every drop does.\<close>

context object_kind
begin

definition drop_step ::
    "(u64 \<Rightarrow> 'a option catalog_result) \<Rightarrow> catalog_error \<Rightarrow> catalog_order_id \<Rightarrow> u64 \<Rightarrow> kv_batch \<times> 'a list \<Rightarrow> (kv_batch \<times> 'a list) catalog_result" where
  "drop_step load err ord i acc =
     (case acc of (b, dropped) \<Rightarrow>
        rbind (load i) (\<lambda>found.
          case found of
            None \<Rightarrow> Inl err
          | Some row \<Rightarrow> Inr (batch_put b (row_key (row_ended ord row)) (enc (row_ended ord row)), dropped @ [row_ended ord row])))"

definition finds_open :: "(u64 \<Rightarrow> 'a option catalog_result) \<Rightarrow> 'a set \<Rightarrow> bool" where
  "finds_open load S \<longleftrightarrow> (\<forall>i. \<exists>r. load i = Inr r \<and> (\<forall>y. r = Some y \<longleftrightarrow> y \<in> S \<and> oid y = i \<and> is_open_row y))"

definition all_open :: "'a set \<Rightarrow> u64 list \<Rightarrow> bool" where
  "all_open S ids \<longleftrightarrow> (\<forall>i \<in> set ids. \<exists>y \<in> S. oid y = i \<and> is_open_row y)"

lemma drop_rows:
  assumes "finds_open load S"
  shows "all_open S ids \<Longrightarrow> \<exists>rows. map oid rows = ids \<and> set rows \<subseteq> {y \<in> S. is_open_row y} \<and>
      rfold (drop_step load err ord) ids (b, ds) =
        Inr (fold (\<lambda>x b. batch_put b (row_key x) (enc x)) (map (row_ended ord) rows) b, ds @ map (row_ended ord) rows)"
    and "\<not> all_open S ids \<Longrightarrow> rfold (drop_step load err ord) ids (b, ds) = Inl err"
proof -
  have found: "\<exists>y. load i = Inr (Some y) \<and> y \<in> S \<and> oid y = i \<and> is_open_row y" if "\<exists>y \<in> S. oid y = i \<and> is_open_row y" for i
    using assms that unfolding finds_open_def by metis
  have missing: "load i = Inr None" if "\<not> (\<exists>y \<in> S. oid y = i \<and> is_open_row y)" for i
    using assms that unfolding finds_open_def by (metis option.exhaust)
  show "\<exists>rows. map oid rows = ids \<and> set rows \<subseteq> {y \<in> S. is_open_row y} \<and>
      rfold (drop_step load err ord) ids (b, ds) =
        Inr (fold (\<lambda>x b. batch_put b (row_key x) (enc x)) (map (row_ended ord) rows) b, ds @ map (row_ended ord) rows)"
    if "all_open S ids"
    using that
  proof (induction ids arbitrary: b ds)
    case (Cons i ids)
    then obtain y where y: "load i = Inr (Some y)" "y \<in> S" "oid y = i" "is_open_row y" using found [of i] by (auto simp: all_open_def)
    let ?y = "row_ended ord y"
    from Cons.IH [of "batch_put b (row_key ?y) (enc ?y)" "ds @ [?y]"] Cons.prems obtain rows where
      "map oid rows = ids" "set rows \<subseteq> {y \<in> S. is_open_row y}"
      "rfold (drop_step load err ord) ids (batch_put b (row_key ?y) (enc ?y), ds @ [?y]) =
        Inr (fold (\<lambda>x b. batch_put b (row_key x) (enc x)) (map (row_ended ord) rows) (batch_put b (row_key ?y) (enc ?y)),
          (ds @ [?y]) @ map (row_ended ord) rows)" by (auto simp: all_open_def)
    moreover have "drop_step load err ord i (b, ds) = Inr (batch_put b (row_key ?y) (enc ?y), ds @ [?y])"
      by (simp add: drop_step_def y(1))
    ultimately show ?case using y(2-4) by (intro exI [of _ "y # rows"]) simp
  qed simp
  show "rfold (drop_step load err ord) ids (b, ds) = Inl err" if "\<not> all_open S ids"
    using that
  proof (induction ids arbitrary: b ds)
    case (Cons i ids)
    show ?case
    proof (cases "\<exists>y \<in> S. oid y = i \<and> is_open_row y")
      case True
      with Cons show ?thesis using found [OF True] by (auto simp: all_open_def drop_step_def)
    next
      case False
      with missing [OF False] show ?thesis by (simp add: drop_step_def)
    qed
  qed (simp add: all_open_def)
qed

lemma drop_commit:
  fixes kv H now ids err
  defines "kv1 \<equiv> snd (fake_generated_order_id kv)" and "s \<equiv> next_snapshot now kv H" and "ord \<equiv> next_commit_order kv"
  assumes cat: "table_catalog kv c H L T vs" and clock: "clock_ahead kv H"
    and S: "holds (fake_get kv) S" "closed_history S H" and load: "finds_open load S"
  defines "r \<equiv> attempt kv1 (stage_next_schema_version kv1 (stage_snapshot batch_new c s) c s) (\<lambda>b1.
    attempt kv1 (rfold (drop_step load err ord) ids (b1, [])) (\<lambda>(b2, dropped). commit_then kv1 b2 dropped))"
  shows "all_open S ids \<Longrightarrow> \<exists>rows kv'. r = (Inr (map (row_ended ord) rows), kv') \<and> map oid rows = ids \<and>
      object_step kv kv' now H L T vs S (set rows) {}"
    and "\<not> all_open S ids \<Longrightarrow> r = (Inl err, kv1)"
proof -
  obtain b1 cnt where b1: "stage_next_schema_version kv1 (stage_snapshot batch_new c s) c s = Inr b1"
    "stages kv1 c batch_new b1 (\<lambda>m. put_schema_version c s (saturating_add (version_of vs) 1) cnt (put_snapshot c s m)) {} {}"
    unfolding kv1_def by (rule staged_version [OF cat])
  show "r = (Inl err, kv1)" if "\<not> all_open S ids"
    using drop_rows(2) [OF load that] b1(1) by (simp add: r_def)
  assume "all_open S ids"
  from drop_rows(1) [OF load this, where b = b1 and ds = "[]" and err = err and ord = ord] obtain rows where rows: "map oid rows = ids"
    "set rows \<subseteq> {y \<in> S. is_open_row y}" "rfold (drop_step load err ord) ids (b1, []) =
        Inr (fold (\<lambda>x b. batch_put b (row_key x) (enc x)) (map (row_ended ord) rows) b1, map (row_ended ord) rows)" by auto
  have "commits ord S (set rows) {}" using rows(2) by (auto simp: commits_def)
  moreover have "inj_on row_key (set (map (row_ended ord) rows))"
    using rows(2) holds_unique [OF S(1)] by (auto simp: inj_on_def)
  ultimately obtain kv' where "commit_then kv1 (fold (\<lambda>x b. batch_put b (row_key x) (enc x)) (map (row_ended ord) rows) b1)
      (map (row_ended ord) rows) = (Inr (map (row_ended ord) rows), kv')" "object_step kv kv' now H L T vs S (set rows) {}"
    using object_commit [OF cat clock S, of "set rows" "{}" "map (row_ended ord) rows" _ now cnt "{}" "{}" "map (row_ended ord) rows"]
      stages_rows [OF b1(2), of "map (row_ended ord) rows"] unfolding ord_def kv1_def s_def by auto
  with rows(1,3) b1(1) show "\<exists>rows kv'. r = (Inr (map (row_ended ord) rows), kv') \<and> map oid rows = ids \<and>
      object_step kv kv' now H L T vs S (set rows) {}" unfolding r_def by auto
qed

end

context object_kind
begin

lemma rows_commit:
  fixes kv H now
  defines "kv1 \<equiv> snd (fake_generated_order_id kv)" and "s \<equiv> next_snapshot now kv H" and "ord \<equiv> next_commit_order kv"
  assumes cat: "table_catalog kv c H L T vs" and clock: "clock_ahead kv H"
    and S: "holds (fake_get kv) S" "closed_history S H" "commits ord S E N"
    and ys: "set ys = row_ended ord ` E \<union> N" "inj_on row_key (set ys)"
  shows "\<exists>kv'. attempt kv1 (stage_next_schema_version kv1 (stage_snapshot batch_new c s) c s) (\<lambda>b1.
      attempt kv1 (stage_max_catalog_id_watermark kv1 (fold (\<lambda>y b. batch_put b (row_key y) (enc y)) ys b1) c wm) (\<lambda>b2.
        commit_then kv1 b2 x)) = (Inr x, kv') \<and> object_step kv kv' now H L T vs S E N"
proof -
  obtain b1 cnt where b1: "stage_next_schema_version kv1 (stage_snapshot batch_new c s) c s = Inr b1"
    "stages kv1 c batch_new b1 (\<lambda>m. put_schema_version c s (saturating_add (version_of vs) 1) cnt (put_snapshot c s m)) {} {}"
    unfolding kv1_def by (rule staged_version [OF cat])
  have "staging_ready kv1 c" unfolding kv1_def by (rule staging_ready_generated [OF table_catalogD(1) [OF cat]])
  from then_max [OF stages_rows [OF b1(2), of ys] this cell_keys_iff(1), of wm]
  obtain b2 W where b2: "stage_max_catalog_id_watermark kv1 (fold (\<lambda>y b. batch_put b (row_key y) (enc y)) ys b1) c wm = Inr b2"
    "stages kv1 c batch_new b2 (\<lambda>m. fold put_row ys
       (put_schema_version c s (saturating_add (version_of vs) 1) cnt (put_snapshot c s m))) W {}"
    by (auto simp: stage_max_catalog_id_watermark_def)
  from object_commit [OF cat clock S(1,2), of E N ys b2 now cnt W "{}" x] S(3) ys b2(2)
  show ?thesis unfolding ord_def kv1_def [symmetric] s_def [symmetric] by (simp add: b1(1) b2(1))
qed

lemma row_begun_keys: "inj_on oid (set xs) \<Longrightarrow> inj_on row_key (row_begun ord ` set xs)"
  by (auto simp: inj_on_def same_key)

lemma commits_begin:
  assumes "distinct (map oid xs)" "\<forall>x \<in> set xs. ok x \<and> (\<forall>y \<in> S. is_open_row y \<longrightarrow> oid y \<noteq> oid x)"
  shows "commits ord S {} (row_begun ord ` set xs)" "inj_on row_key (row_begun ord ` set xs)"
proof -
  have inj: "inj_on oid (set xs)" using assms(1) by (simp add: distinct_map)
  then show "inj_on row_key (row_begun ord ` set xs)" by (rule row_begun_keys)
  have "inj_on oid (row_begun ord ` set xs)" using inj by (auto simp: inj_on_def)
  with assms(2) show "commits ord S {} (row_begun ord ` set xs)" unfolding commits_def by fastforce
qed

lemma finds_openI:
  assumes "closed_history S H" "H \<noteq> []"
    "\<And>i. \<exists>r. load i = Inr r \<and> (\<forall>y. r = Some y \<longleftrightarrow> y \<in> S \<and> oid y = i \<and> is_visible_at (win y) (sn_order (last H)))"
  shows "finds_open load S"
proof -
  have "rows_upto (sn_order (last H)) S" using assms(1,2) by (simp add: closed_history_def)
  then have "is_visible_at (win y) (sn_order (last H)) \<longleftrightarrow> is_open_row y" if "y \<in> S" for y using visible_latest that by blast
  with assms(3) show ?thesis unfolding finds_open_def by metis
qed

end

section \<open>Schemas\<close>

definition schemas_creatable :: "schema_row set \<Rightarrow> schema_row list \<Rightarrow> bool" where
  "schemas_creatable S rows \<longleftrightarrow> distinct (map sr_schema_id rows) \<and>
     (\<forall>r \<in> set rows. schema_row_ok r \<and> (\<forall>x \<in> S. end_order (sr_validity x) = None \<longrightarrow> sr_schema_id x \<noteq> sr_schema_id r))"

lemma latest_of_catalog:
  "table_catalog kv c H L T vs \<Longrightarrow> latest_snapshot kv c = Inr (if H = [] then None else Some (last H))"
  using latest_snapshot_reads table_catalogD(2,3) by blast

lemma commit_create_schema_rows_outcome:
  assumes cat: "table_catalog kv c H L T vs" and clock: "clock_ahead kv H"
    and S: "schemas.holds c (fake_get kv) S" "schemas.closed_history S H" and rows: "schemas_creatable S rows" "rows \<noteq> []"
  defines "new \<equiv> map (schemas.row_begun (next_commit_order kv)) rows"
  shows "\<exists>kv'. commit_create_schema_rows kv c now rows = (Inr new, kv') \<and>
    schemas.object_step c kv kv' now H L T vs S {} (set new)"
proof -
  define s where "s = next_snapshot now kv H"
  let ?kv = "snd (fake_generated_order_id kv)"
  have new: "set new = schemas.row_begun (next_commit_order kv) ` set rows" by (simp add: new_def)
  note com = schemas.commits_begin [where xs = rows and S = S and ord = "next_commit_order kv", folded new]
  from rows(1) schemas.rows_commit [OF cat clock S com(1), where ys = new and now = now and x = new and
      wm = "Max (sr_schema_id ` set new)"] com
  obtain kv' where kv': "attempt ?kv (stage_next_schema_version ?kv (stage_snapshot batch_new c s) c s) (\<lambda>b1.
      attempt ?kv (stage_max_catalog_id_watermark ?kv (fold (\<lambda>y b. batch_put b (schemas.row_key c y) (schema_row_encode y)) new b1)
        c (Max (sr_schema_id ` set new))) (\<lambda>b2. commit_then ?kv b2 new)) = (Inr new, kv')"
    "schemas.object_step c kv kv' now H L T vs S {} (set new)" by (auto simp: schemas_creatable_def s_def)
  have "fold (\<lambda>y b. batch_put b (schemas.row_key c y) (schema_row_encode y)) new b1 =
      fold (\<lambda>x b. batch_put b (schema_object_key c (sr_schema_id x) (next_commit_order kv)) (schema_row_encode x)) new b1" for b1
    by (rule fold_cong) (auto simp: new_def validity_new_sel)
  moreover have "map (\<lambda>schema. schema\<lparr>sr_validity := validity_new (next_commit_order kv) None\<rparr>) rows = new"
    "sr_validity_update (\<lambda>_. validity_new (next_commit_order kv) None) ` set rows = set new"
    by (simp_all add: new_def schemas.row_begun_def)
  ultimately have "commit_create_schema_rows kv c now rows = (Inr new, kv')"
    using rows(2) latest_of_catalog [OF cat] kv'(1)
    by (simp add: commit_create_schema_rows_def generated_order [OF clock] Let_def case_prod_beta s_def [symmetric])
  with kv'(2) show ?thesis by blast
qed

lemma insert_unique_all:
  "distinct xs \<Longrightarrow> set xs \<inter> seen = {} \<Longrightarrow> rfold (insert_unique err) xs seen = Inr (set xs \<union> seen)"
  by (induction xs arbitrary: seen) (simp_all add: insert_unique_def)

lemma next_of_last: "H \<noteq> [] \<Longrightarrow> snapshot_row_new now (next_commit_order kv) (raw_sequence_next (sn_sequence (last H))) = next_snapshot now kv H"
  by (simp add: snapshot_row_for_next_sequence_def)

lemma commit_drop_schema_rows_outcome:
  assumes cat: "table_catalog kv c H L T vs" and clock: "clock_ahead kv H" "H \<noteq> []"
    and S: "schemas.holds c (fake_get kv) S" "schemas.closed_history S H" and ids: "ids \<noteq> []"
  shows "schemas.all_open S ids \<Longrightarrow> \<exists>rows kv'. commit_drop_schema_rows kv c now ids =
      (Inr (map (schemas.row_ended (next_commit_order kv)) rows), kv') \<and> map sr_schema_id rows = ids \<and>
      schemas.object_step c kv kv' now H L T vs S (set rows) {}"
    and "\<not> schemas.all_open S ids \<Longrightarrow> commit_drop_schema_rows kv c now ids = (Inl (NotFound ''schema''), snd (fake_generated_order_id kv))"
proof -
  let ?kv = "snd (fake_generated_order_id kv)" and ?lo = "sn_order (last H)"
  have wf: "fake_wf ?kv" using table_catalogD(2) [OF cat] by simp
  have "schemas.finds_open (\<lambda>i. load_schema_at ?kv c i ?lo) S"
    by (rule schemas.finds_openI [OF S(2) clock(2) load_schema_at_reads [OF wf]])
       (use S in \<open>simp_all add: schemas.closed_history_def\<close>)
  note com = schemas.drop_commit [OF cat clock(1) S this, where now = now and err = "NotFound ''schema''" and ids = ids]
  have "stage_drop_schema ?kv c ?lo (next_commit_order kv) =
      schemas.drop_step c (\<lambda>i. load_schema_at ?kv c i ?lo) (NotFound ''schema'') (next_commit_order kv)"
    unfolding stage_drop_schema_def [abs_def] schemas.drop_step_def [abs_def] schemas.row_ended_def Let_def ..
  then have eq: "commit_drop_schema_rows kv c now ids = attempt ?kv
      (stage_next_schema_version ?kv (stage_snapshot batch_new c (next_snapshot now kv H)) c (next_snapshot now kv H)) (\<lambda>b1.
        attempt ?kv (rfold (schemas.drop_step c (\<lambda>i. load_schema_at ?kv c i ?lo) (NotFound ''schema'') (next_commit_order kv)) ids (b1, []))
          (\<lambda>(b2, dropped). commit_then ?kv b2 dropped))"
    using ids clock(2) latest_of_catalog [OF cat]
    by (simp add: commit_drop_schema_rows_def generated_order [OF clock(1)] Let_def case_prod_beta)
  show "schemas.all_open S ids \<Longrightarrow> \<exists>rows kv'. commit_drop_schema_rows kv c now ids =
      (Inr (map (schemas.row_ended (next_commit_order kv)) rows), kv') \<and> map sr_schema_id rows = ids \<and>
      schemas.object_step c kv kv' now H L T vs S (set rows) {}"
    unfolding eq by (rule com(1))
  show "\<not> schemas.all_open S ids \<Longrightarrow> commit_drop_schema_rows kv c now ids = (Inl (NotFound ''schema''), ?kv)"
    unfolding eq by (rule com(2))
qed

section \<open>Macros\<close>

lemma commit_drop_macros_outcome:
  assumes cat: "table_catalog kv c H L T vs" and clock: "clock_ahead kv H" "H \<noteq> []"
    and S: "macros.holds c (fake_get kv) S" "macros.closed_history S H" and ids: "ids \<noteq> []" "distinct ids"
  shows "macros.all_open S ids \<Longrightarrow> \<exists>rows kv'. commit_drop_macros kv c now ids None =
      (Inr (map (macros.row_ended (next_commit_order kv)) rows), kv') \<and> map mr_macro_id rows = ids \<and>
      macros.object_step c kv kv' now H L T vs S (set rows) {}"
    and "\<not> macros.all_open S ids \<Longrightarrow> \<exists>m. commit_drop_macros kv c now ids None =
      (Inl (InvalidMutation m), snd (fake_generated_order_id kv))"
proof -
  let ?kv = "snd (fake_generated_order_id kv)" and ?lo = "sn_order (last H)"
  let ?err = "InvalidMutation ''conflict dropping macro: macro no longer exists''"
  have wf: "fake_wf ?kv" using table_catalogD(2) [OF cat] by simp
  have "macros.finds_open (\<lambda>i. load_macro_at ?kv c i ?lo) S"
    by (rule macros.finds_openI [OF S(2) clock(2) load_macro_at_reads [OF wf]])
       (use S in \<open>simp_all add: macros.closed_history_def\<close>)
  note com = macros.drop_commit [OF cat clock(1) S this, where now = now and err = ?err and ids = ids]
  have "stage_drop_macro ?kv c ?lo (next_commit_order kv) =
      macros.drop_step c (\<lambda>i. load_macro_at ?kv c i ?lo) ?err (next_commit_order kv)"
    unfolding stage_drop_macro_def [abs_def] macros.drop_step_def [abs_def] macros.row_ended_def Let_def ..
  moreover have "reject_duplicate_macro_ids ids = Inr ()"
    using ids(2) by (simp add: reject_duplicate_macro_ids_def insert_unique_all)
  ultimately have eq: "commit_drop_macros kv c now ids None = attempt ?kv
      (stage_next_schema_version ?kv (stage_snapshot batch_new c (next_snapshot now kv H)) c (next_snapshot now kv H)) (\<lambda>b1.
        attempt ?kv (rfold (macros.drop_step c (\<lambda>i. load_macro_at ?kv c i ?lo) ?err (next_commit_order kv)) ids (b1, []))
          (\<lambda>(b2, dropped). commit_then ?kv b2 dropped))"
    using ids clock(2) latest_of_catalog [OF cat]
    by (simp add: commit_drop_macros_def generated_order [OF clock(1)] Let_def case_prod_beta next_of_last [OF clock(2)])
  show "macros.all_open S ids \<Longrightarrow> \<exists>rows kv'. commit_drop_macros kv c now ids None =
      (Inr (map (macros.row_ended (next_commit_order kv)) rows), kv') \<and> map mr_macro_id rows = ids \<and>
      macros.object_step c kv kv' now H L T vs S (set rows) {}"
    unfolding eq by (rule com(1))
  show "\<not> macros.all_open S ids \<Longrightarrow> \<exists>m. commit_drop_macros kv c now ids None = (Inl (InvalidMutation m), ?kv)"
    unfolding eq using com(2) by blast
qed

definition macro_identities :: "macro_row \<Rightarrow> (schema_id \<times> rust_string \<times> rust_string) set" where
  "macro_identities r = (\<lambda>t. (mr_schema_id r, mr_name r, t)) ` macro_types r"

definition macros_creatable :: "macro_row set \<Rightarrow> macro_row list \<Rightarrow> bool" where
  "macros_creatable C rows \<longleftrightarrow> distinct (map mr_macro_id rows) \<and> sorted_wrt (\<lambda>a b. macro_identities a \<inter> macro_identities b = {}) rows \<and>
     (\<forall>r \<in> set rows. \<forall>x \<in> C. mr_macro_id x \<noteq> mr_macro_id r \<and> macro_identities x \<inter> macro_identities r = {})"

lemma macro_identities_iff:
  "(a, b, t) \<in> macro_identities x \<longleftrightarrow> a = mr_schema_id x \<and> b = mr_name x \<and> t \<in> macro_types x"
  by (auto simp: macro_identities_def)

lemma check_macro_type_iff:
  "check_macro_type cur r t req = Inr req' \<longleftrightarrow> (mr_schema_id r, mr_name r, t) \<notin> req \<and>
     (\<forall>x \<in> set cur. (mr_schema_id r, mr_name r, t) \<notin> macro_identities x) \<and> req' = insert (mr_schema_id r, mr_name r, t) req"
  "check_macro_type cur r t req = Inl e \<Longrightarrow> \<exists>m. e = InvalidMutation m"
  by (auto simp: check_macro_type_def insert_unique_def macro_identities_iff split: if_splits)

lemma check_macro_types_iff:
  assumes "distinct ts"
  shows "rfold (check_macro_type cur r) ts req = Inr req' \<longleftrightarrow>
     (\<forall>t \<in> set ts. (mr_schema_id r, mr_name r, t) \<notin> req \<and> (\<forall>x \<in> set cur. (mr_schema_id r, mr_name r, t) \<notin> macro_identities x)) \<and>
     req' = (\<lambda>t. (mr_schema_id r, mr_name r, t)) ` set ts \<union> req"
  using assms
proof (induction ts arbitrary: req)
  case (Cons t ts)
  let ?i = "\<lambda>t. (mr_schema_id r, mr_name r, t)"
  have un: "rfold (check_macro_type cur r) (t # ts) req = Inr req' \<longleftrightarrow>
      ?i t \<notin> req \<and> (\<forall>x \<in> set cur. ?i t \<notin> macro_identities x) \<and> rfold (check_macro_type cur r) ts (insert (?i t) req) = Inr req'"
    by (auto simp: rbind_Inr_iff check_macro_type_iff(1))
  have IH: "rfold (check_macro_type cur r) ts (insert (?i t) req) = Inr req' \<longleftrightarrow>
     (\<forall>u \<in> set ts. ?i u \<notin> insert (?i t) req \<and> (\<forall>x \<in> set cur. ?i u \<notin> macro_identities x)) \<and> req' = ?i ` set ts \<union> insert (?i t) req"
    using Cons.prems by (intro Cons.IH) simp
  have "?i u \<noteq> ?i t" if "u \<in> set ts" for u using Cons.prems that by auto
  then show ?case unfolding un IH by auto
qed auto

lemma finite_macro_types: "finite (macro_types r)"
  by (simp add: macro_types_def)

lemma check_macro_iff:
  "check_macro cur r (req, ids) = Inr (req', ids') \<longleftrightarrow> mr_macro_id r \<notin> ids \<and> (\<forall>x \<in> set cur. mr_macro_id x \<noteq> mr_macro_id r) \<and>
     macro_identities r \<inter> req = {} \<and> (\<forall>x \<in> set cur. macro_identities r \<inter> macro_identities x = {}) \<and>
     req' = macro_identities r \<union> req \<and> ids' = insert (mr_macro_id r) ids"
proof -
  have "macro_identities r \<inter> A = {} \<longleftrightarrow> (\<forall>t \<in> macro_types r. (mr_schema_id r, mr_name r, t) \<notin> A)" for A
    by (auto simp: macro_identities_def)
  moreover have "(\<lambda>t. (mr_schema_id r, mr_name r, t)) ` macro_types r = macro_identities r" by (simp add: macro_identities_def)
  ultimately show ?thesis
    using check_macro_types_iff [of "sorted_list_of_set (macro_types r)" cur r req]
    by (auto simp: check_macro_def rbind_Inr_iff insert_unique_def finite_macro_types)
qed

lemma rfold_InvalidMutation:
  assumes "rfold f xs s = Inl e" "\<And>x s e. x \<in> set xs \<Longrightarrow> f x s = Inl e \<Longrightarrow> \<exists>m. e = InvalidMutation m"
  shows "\<exists>m. e = InvalidMutation m"
  using assms
proof (induction xs arbitrary: s)
  case (Cons x xs)
  from Cons.prems(1) consider "f x s = Inl e" | s' where "rfold f xs s' = Inl e" by (auto simp: rbind_Inl_iff)
  then show ?case
  proof cases
    case 1
    with Cons.prems(2) show ?thesis by (meson list.set_intros(1))
  next
    case 2
    with Cons.IH Cons.prems(2) show ?thesis by (meson list.set_intros(2))
  qed
qed simp

lemma check_macro_error: "check_macro cur r acc = Inl e \<Longrightarrow> \<exists>m. e = InvalidMutation m"
  by (auto simp: check_macro_def rbind_Inl_iff insert_unique_def split: prod.splits if_splits
      dest!: rfold_InvalidMutation check_macro_type_iff(2))

lemma check_macros_iff:
  "(\<exists>acc. rfold (check_macro cur) rows (req, ids) = Inr acc) \<longleftrightarrow> distinct (map mr_macro_id rows) \<and> mr_macro_id ` set rows \<inter> ids = {} \<and>
     sorted_wrt (\<lambda>a b. macro_identities a \<inter> macro_identities b = {}) rows \<and> (\<forall>r \<in> set rows. macro_identities r \<inter> req = {}) \<and>
     (\<forall>r \<in> set rows. \<forall>x \<in> set cur. mr_macro_id x \<noteq> mr_macro_id r \<and> macro_identities x \<inter> macro_identities r = {})"
proof (induction rows arbitrary: req ids)
  case (Cons r rows)
  have "(\<exists>acc. rfold (check_macro cur) (r # rows) (req, ids) = Inr acc) \<longleftrightarrow>
      (\<exists>req' ids'. check_macro cur r (req, ids) = Inr (req', ids') \<and> (\<exists>acc. rfold (check_macro cur) rows (req', ids') = Inr acc))"
    by (auto simp: rbind_Inr_iff)
  then show ?case unfolding check_macro_iff Cons.IH by auto
qed simp

lemma reject_macro_create_conflicts_iff:
  assumes "fake_wf kv" "macros.holds c (fake_get kv) S" "macros.rows_upto ord S"
  shows "reject_macro_create_conflicts kv c ord rows = Inr () \<longleftrightarrow> macros_creatable {x \<in> S. end_order (mr_validity x) = None} rows"
    and "reject_macro_create_conflicts kv c ord rows = Inl e \<Longrightarrow> \<exists>m. e = InvalidMutation m"
proof -
  have cur: "set (macros.visible_rows c ord S) = {x \<in> S. end_order (mr_validity x) = None}"
    using macros.visible_rows_spec(1) [OF assms(2), of ord] macros.visible_latest [OF assms(3)] by blast
  note list = list_macros_at_reads [OF assms(1,2), of ord]
  show "reject_macro_create_conflicts kv c ord rows = Inr () \<longleftrightarrow> macros_creatable {x \<in> S. end_order (mr_validity x) = None} rows"
    using check_macros_iff [of "macros.visible_rows c ord S" rows "{}" "{}"] unfolding cur
    by (simp add: reject_macro_create_conflicts_def list rbind_Inr_iff macros_creatable_def)
  show "reject_macro_create_conflicts kv c ord rows = Inl e \<Longrightarrow> \<exists>m. e = InvalidMutation m"
    by (auto simp: reject_macro_create_conflicts_def list rbind_Inl_iff dest!: rfold_InvalidMutation check_macro_error)
qed

end
