(* ===== verification/Cat_Object_Steps.thy ===== *)
theory Cat_Object_Steps
  imports Cat_Object_Commits
begin

text \<open>
  The outcomes of the remaining commits: creating macros, and creating, commenting, renaming and dropping views.
\<close>

section \<open>Creating macros\<close>

definition open_macros :: "macro_row set \<Rightarrow> macro_row set" where
  "open_macros S = {x \<in> S. end_order (mr_validity x) = None}"

lemma commit_create_macro_rows_outcome:
  assumes cat: "table_catalog kv c H L T vs" and clock: "clock_ahead kv H" "H \<noteq> []"
    and S: "macros.holds c (fake_get kv) S" "macros.closed_history S H"
    and rows: "\<forall>r \<in> set rows. macro_row_ok r" "rows \<noteq> []"
  defines "new \<equiv> map (macros.row_begun (next_commit_order kv)) rows"
  shows "macros_creatable (open_macros S) rows \<Longrightarrow> \<exists>kv'. commit_create_macro_rows kv c now rows None = (Inr new, kv') \<and>
      macros.object_step c kv kv' now H L T vs S {} (set new)"
    and "\<not> macros_creatable (open_macros S) rows \<Longrightarrow> \<exists>m. commit_create_macro_rows kv c now rows None = (Inl (InvalidMutation m), kv)"
proof -
  define s where "s = next_snapshot now kv H"
  let ?kv = "snd (fake_generated_order_id kv)"
  have up: "macros.rows_upto (sn_order (last H)) S" using S(2) clock(2) by (simp add: macros.closed_history_def)
  note check = reject_macro_create_conflicts_iff [OF table_catalogD(2) [OF cat] S(1) up, of rows, folded open_macros_def]
  have latest: "latest_snapshot kv c = Inr (Some (last H))" using latest_of_catalog [OF cat] clock(2) by simp
  show "\<exists>m. commit_create_macro_rows kv c now rows None = (Inl (InvalidMutation m), kv)"
    if "\<not> macros_creatable (open_macros S) rows"
  proof -
    from that check(1) obtain e where e: "reject_macro_create_conflicts kv c (sn_order (last H)) rows = Inl e"
      by (cases "reject_macro_create_conflicts kv c (sn_order (last H)) rows") auto
    with check(2) [OF e] rows(2) latest show ?thesis by (auto simp: commit_create_macro_rows_def)
  qed
  assume free: "macros_creatable (open_macros S) rows"
  have new: "set new = macros.row_begun (next_commit_order kv) ` set rows" by (simp add: new_def)
  have can: "distinct (map mr_macro_id rows)" "\<forall>x \<in> set rows. macro_row_ok x \<and>
      (\<forall>y \<in> S. end_order (mr_validity y) = None \<longrightarrow> mr_macro_id y \<noteq> mr_macro_id x)"
    using free rows(1) unfolding macros_creatable_def open_macros_def by blast+
  note com = macros.commits_begin [OF can, where ord = "next_commit_order kv", folded new]
  from macros.rows_commit [OF cat clock(1) S com(1), where ys = new and now = now and x = new and
      wm = "Max (mr_macro_id ` set new)"] com
  obtain kv' where kv': "attempt ?kv (stage_next_schema_version ?kv (stage_snapshot batch_new c s) c s) (\<lambda>b1.
      attempt ?kv (stage_max_catalog_id_watermark ?kv (fold (\<lambda>y b. batch_put b (macros.row_key c y) (macro_row_encode y)) new b1)
        c (Max (mr_macro_id ` set new))) (\<lambda>b2. commit_then ?kv b2 new)) = (Inr new, kv')"
    "macros.object_step c kv kv' now H L T vs S {} (set new)" by (auto simp: s_def)
  have "fold (\<lambda>y b. batch_put b (macros.row_key c y) (macro_row_encode y)) new b1 =
      fold (\<lambda>x b. batch_put b (macro_object_key c (mr_macro_id x) (next_commit_order kv)) (macro_row_encode x)) new b1" for b1
    by (rule fold_cong) (auto simp: new_def validity_new_sel)
  moreover have "map (\<lambda>r. r\<lparr>mr_validity := validity_new (next_commit_order kv) None\<rparr>) rows = new"
    "mr_validity_update (\<lambda>_. validity_new (next_commit_order kv) None) ` set rows = set new"
    by (simp_all add: new_def macros.row_begun_def)
  moreover have "reject_macro_create_conflicts kv c (sn_order (last H)) rows = Inr ()" using check(1) free by blast
  moreover have "s = snapshot_row_for_next_sequence now (Some (last H)) (next_commit_order kv)" using clock(2) by (simp add: s_def)
  ultimately have "commit_create_macro_rows kv c now rows None = (Inr new, kv')"
    using rows(2) latest kv'(1)
    by (simp add: commit_create_macro_rows_def generated_order [OF clock(1)] Let_def case_prod_beta)
  with kv'(2) show "\<exists>kv'. commit_create_macro_rows kv c now rows None = (Inr new, kv') \<and>
      macros.object_step c kv kv' now H L T vs S {} (set new)" by blast
qed

section \<open>Views\<close>

definition open_views :: "view_row set \<Rightarrow> view_row set" where
  "open_views S = {x \<in> S. end_order (vr_validity x) = None}"

definition view_conflict :: "view_row set \<Rightarrow> view_row \<Rightarrow> bool" where
  "view_conflict C view \<longleftrightarrow> (\<exists>x \<in> C. vr_view_id x = vr_view_id view \<or>
     vr_schema_id x = vr_schema_id view \<and> eq_ignore_ascii_case (vr_name x) (vr_name view))"

lemma current_views:
  assumes "table_catalog kv c H L T vs" "H \<noteq> []" "views.holds c (fake_get kv) S" "views.closed_history S H"
  shows "list_views_at kv c (sn_order (last H)) = Inr (views.visible_rows c (sn_order (last H)) S)"
    "set (views.visible_rows c (sn_order (last H)) S) = open_views S"
proof -
  have up: "views.rows_upto (sn_order (last H)) S" using assms(2,4) by (simp add: views.closed_history_def)
  show "list_views_at kv c (sn_order (last H)) = Inr (views.visible_rows c (sn_order (last H)) S)"
    by (rule list_views_at_reads [OF table_catalogD(2) [OF assms(1)] assms(3)])
  show "set (views.visible_rows c (sn_order (last H)) S) = open_views S"
    using views.visible_rows_spec(1) [OF assms(3)] views.visible_latest [OF up] unfolding open_views_def by blast
qed

lemma reject_create_view_conflict_iff:
  assumes "table_catalog kv c H L T vs" "H \<noteq> []" "views.holds c (fake_get kv) S" "views.closed_history S H"
  shows "reject_create_view_conflict kv c view (sn_order (last H)) = Inr () \<longleftrightarrow> \<not> view_conflict (open_views S) view"
    and "reject_create_view_conflict kv c view (sn_order (last H)) = Inl e \<Longrightarrow> \<exists>m. e = InvalidMutation m"
proof -
  define cur where "cur = views.visible_rows c (sn_order (last H)) S"
  note views = current_views [OF assms, folded cur_def]
  have check: "reject_create_view_conflict kv c view (sn_order (last H)) = rfold (\<lambda>current _.
      if vr_view_id current = vr_view_id view then Inl (InvalidMutation ''view id already exists'')
      else if vr_schema_id current = vr_schema_id view \<and> eq_ignore_ascii_case (vr_name current) (vr_name view)
      then Inl (InvalidMutation ''view name already exists in schema'') else Inr ()) cur ()"
    by (simp add: reject_create_view_conflict_def views(1))
  show "reject_create_view_conflict kv c view (sn_order (last H)) = Inr () \<longleftrightarrow> \<not> view_conflict (open_views S) view"
    unfolding check rfold_unit_check(1) views(2) view_conflict_def by blast
  show "reject_create_view_conflict kv c view (sn_order (last H)) = Inl e \<Longrightarrow> \<exists>m. e = InvalidMutation m"
    unfolding check by (rule rfold_unit_check(2))
qed

lemma commit_create_view_row_outcome:
  assumes cat: "table_catalog kv c H L T vs" and clock: "clock_ahead kv H"
    and S: "views.holds c (fake_get kv) S" "views.closed_history S H" and view: "view_row_ok view"
  defines "new \<equiv> views.row_begun (next_commit_order kv) view"
  shows "\<not> view_conflict (open_views S) view \<Longrightarrow> \<exists>kv'. commit_create_view_row kv c now view = (Inr new, kv') \<and>
      views.object_step c kv kv' now H L T vs S {} {new}"
    and "view_conflict (open_views S) view \<Longrightarrow> \<exists>m. commit_create_view_row kv c now view = (Inl (InvalidMutation m), kv)"
proof -
  define s where "s = next_snapshot now kv H"
  let ?kv = "snd (fake_generated_order_id kv)"
  note latest = latest_of_catalog [OF cat]
  note check = reject_create_view_conflict_iff [OF cat _ S, of view]
  show "\<exists>m. commit_create_view_row kv c now view = (Inl (InvalidMutation m), kv)" if conflict: "view_conflict (open_views S) view"
  proof -
    have H: "H \<noteq> []" using conflict S(2) by (auto simp: view_conflict_def open_views_def views.closed_history_def)
    then obtain e where e: "reject_create_view_conflict kv c view (sn_order (last H)) = Inl e"
      using check(1) conflict by (cases "reject_create_view_conflict kv c view (sn_order (last H))") auto
    with check(2) [OF H e] latest H show ?thesis by (auto simp: commit_create_view_row_def)
  qed
  assume free: "\<not> view_conflict (open_views S) view"
  have can: "distinct (map vr_view_id [view])" "\<forall>x \<in> set [view]. view_row_ok x \<and>
      (\<forall>y \<in> S. end_order (vr_validity y) = None \<longrightarrow> vr_view_id y \<noteq> vr_view_id x)"
    using free view unfolding view_conflict_def open_views_def by auto
  note com = views.commits_begin [OF can, where ord = "next_commit_order kv"]
  from views.rows_commit [OF cat clock S, where E = "{}" and N = "{new}" and ys = "[new]" and now = now and x = new and
      wm = "vr_view_id new"] com
  obtain kv' where kv': "attempt ?kv (stage_next_schema_version ?kv (stage_snapshot batch_new c s) c s) (\<lambda>b1.
      attempt ?kv (stage_max_catalog_id_watermark ?kv (batch_put b1 (views.row_key c new) (view_row_encode new)) c (vr_view_id new))
        (\<lambda>b2. commit_then ?kv b2 new)) = (Inr new, kv')"
    "views.object_step c kv kv' now H L T vs S {} {new}" by (auto simp: s_def new_def)
  have "H \<noteq> [] \<Longrightarrow> reject_create_view_conflict kv c view (sn_order (last H)) = Inr ()" using check(1) free by blast
  moreover have "view\<lparr>vr_validity := validity_new (next_commit_order kv) None\<rparr> = new" by (simp add: new_def views.row_begun_def)
  moreover have "begin_order (vr_validity new) = next_commit_order kv" "vr_view_id new = vr_view_id view"
    by (simp_all add: new_def validity_new_sel)
  ultimately have "commit_create_view_row kv c now view = (Inr new, kv')"
    using latest kv'(1) by (auto simp: commit_create_view_row_def generated_order [OF clock] Let_def case_prod_beta s_def)
  with kv'(2) show "\<exists>kv'. commit_create_view_row kv c now view = (Inr new, kv') \<and>
      views.object_step c kv kv' now H L T vs S {} {new}" by blast
qed

section \<open>Replacing versions\<close>

context object_kind
begin

lemma open_one:
  assumes "holds m S" "versions_wf oid win S" "x \<in> S" "y \<in> S" "is_open_row x" "is_open_row y" "oid x = oid y"
  shows "x = y"
proof -
  have "\<not> begin_order (win x) < begin_order (win y)" "\<not> begin_order (win y) < begin_order (win x)"
    using assms(2-7) unfolding versions_wf_def by fastforce+
  then have "row_key x = row_key y" using assms(7) unfolding same_key by (simp add: order_less_iff)
  with assms(1,3,4) show ?thesis by (rule holds_unique)
qed

lemma commits_replace:
  assumes "holds m S" "versions_wf oid win S" "before ord S" "set ps \<subseteq> {x \<in> S. is_open_row x}"
    "map oid ns = map oid ps" "distinct (map oid ps)" "\<forall>n \<in> set ns. win n = validity_new ord None \<and> ok n"
  shows "commits ord S (set ps) (set ns)" "inj_on row_key (row_ended ord ` set ps \<union> set ns)"
proof -
  have inj: "inj_on oid (set ps)" "inj_on oid (set ns)"
    using assms(6) assms(5) by (metis distinct_map)+
  have ids: "oid n \<in> oid ` set ps" if "n \<in> set ns" for n using that assms(5) by (metis image_eqI list.set_map)
  have "y \<in> set ps" if "n \<in> set ns" "y \<in> S" "oid y = oid n" "is_open_row y" for n y
  proof -
    note y = that
    obtain p where p: "p \<in> set ps" "oid p = oid n" using ids [OF y(1)] by auto
    with y assms(4) have "y = p" by (intro open_one [OF assms(1,2)]) auto
    with p show ?thesis by simp
  qed
  with assms(4,7) inj(2) show "commits ord S (set ps) (set ns)" unfolding commits_def by blast
  have p: "oid (row_ended ord p) = oid p" "begin_order (win (row_ended ord p)) = begin_order (win p)" "begin_order (win p) < ord"
    if "p \<in> set ps" for p using that assms(3,4) by (auto simp: before_def)
  have n: "begin_order (win n) = ord" if "n \<in> set ns" for n using that assms(7) by (simp add: validity_new_sel)
  have "\<not> (row_key (row_ended ord p) = row_key n)" if "p \<in> set ps" "n \<in> set ns" for p n
    unfolding same_key using p(2,3) [OF that(1)] n [OF that(2)] by (auto simp: order_less_iff)
  moreover have "inj_on row_key (row_ended ord ` set ps)"
    unfolding inj_on_def using inj_onD [OF inj(1)] by (auto simp: same_key)
  moreover have "inj_on row_key (set ns)" unfolding inj_on_def using inj_onD [OF inj(2)] by (auto simp: same_key)
  ultimately show "inj_on row_key (row_ended ord ` set ps \<union> set ns)" unfolding inj_on_Un by (auto simp: disjoint_iff)
qed

end

lemma commit_change_view_comment_outcome:
  assumes cat: "table_catalog kv c H L T vs" and clock: "clock_ahead kv H" "H \<noteq> []"
    and S: "views.holds c (fake_get kv) S" "views.closed_history S H" and ok: "pred_option string_ok (vcc_comment change)"
  defines "nxt \<equiv> \<lambda>row. views.row_begun (next_commit_order kv) (row\<lparr>vr_comment := vcc_comment change\<rparr>)"
  shows "row \<in> open_views S \<Longrightarrow> vr_view_id row = vcc_view_id change \<Longrightarrow>
      \<exists>kv'. commit_change_view_comment kv c now change = (Inr \<lparr>cvc_view_id = vcc_view_id change, cvc_previous = vr_comment row,
          cvc_changed = vcc_comment change\<rparr>, kv') \<and> views.object_step c kv kv' now H L T vs S {row} {nxt row}"
    and "(\<And>row. row \<in> open_views S \<Longrightarrow> vr_view_id row \<noteq> vcc_view_id change) \<Longrightarrow>
      commit_change_view_comment kv c now change = (Inl (NotFound ''view''), kv)"
proof -
  define s where "s = next_snapshot now kv H"
  let ?kv = "snd (fake_generated_order_id kv)"
  have latest: "latest_snapshot kv c = Inr (Some (last H))" using latest_of_catalog [OF cat] clock(2) by simp
  have wf: "versions_wf vr_view_id vr_validity S" and up: "views.rows_upto (sn_order (last H)) S"
    using S(2) clock(2) by (simp_all add: views.closed_history_def)
  obtain r where r: "load_view_at kv c (vcc_view_id change) (sn_order (last H)) = Inr r"
    "\<And>y. r = Some y \<longleftrightarrow> y \<in> S \<and> vr_view_id y = vcc_view_id change \<and> is_visible_at (vr_validity y) (sn_order (last H))"
    using load_view_at_reads [OF table_catalogD(2) [OF cat] S(1) wf] by blast
  have r': "r = Some y \<longleftrightarrow> y \<in> open_views S \<and> vr_view_id y = vcc_view_id change" for y
    using r(2) [of y] views.visible_latest [OF up, of y] by (auto simp: open_views_def)
  show "commit_change_view_comment kv c now change = (Inl (NotFound ''view''), kv)"
    if "\<And>row. row \<in> open_views S \<Longrightarrow> vr_view_id row \<noteq> vcc_view_id change"
  proof -
    have "r = None" using r' that by (cases r) auto
    with latest r(1) show ?thesis by (simp add: commit_change_view_comment_def)
  qed
  assume row: "row \<in> open_views S" "vr_view_id row = vcc_view_id change"
  have open_row: "set [row] \<subseteq> {x \<in> S. end_order (vr_validity x) = None}" using row(1) by (simp add: open_views_def)
  have "view_row_ok row" using open_row views.holds_ok [OF S(1)] by auto
  then have new_ok: "\<forall>n \<in> set [nxt row]. vr_validity n = validity_new (next_commit_order kv) None \<and> view_row_ok n"
    using ok by (simp add: nxt_def view_row_ok_def views.row_begun_def)
  have ids: "map vr_view_id [nxt row] = map vr_view_id [row]" "distinct (map vr_view_id [row])" by (simp_all add: nxt_def)
  note com = views.commits_replace [OF S(1) wf views.before_next_commit [OF clock(1) S(2)] open_row ids new_ok]
  define res where "res = \<lparr>cvc_view_id = vcc_view_id change, cvc_previous = vr_comment row, cvc_changed = vcc_comment change\<rparr>"
  let ?prev = "views.row_ended (next_commit_order kv) row"
  from views.rows_commit [OF cat clock(1) S com(1), where ys = "[?prev, nxt row]" and now = now and x = res and wm = "vcc_view_id change"] com(2)
  obtain kv' where kv': "attempt ?kv (stage_next_schema_version ?kv (stage_snapshot batch_new c s) c s) (\<lambda>b1.
      attempt ?kv (stage_max_catalog_id_watermark ?kv (batch_put (batch_put b1 (views.row_key c ?prev) (view_row_encode ?prev))
        (views.row_key c (nxt row)) (view_row_encode (nxt row))) c (vcc_view_id change)) (\<lambda>b2. commit_then ?kv b2 res)) = (Inr res, kv')"
    "views.object_step c kv kv' now H L T vs S {row} {nxt row}" by (auto simp: s_def)
  have "commit_change_view_comment kv c now change = (Inr res, kv')"
    using latest r(1) r' [of row] row kv'(1) next_of_last [OF clock(2), of now kv]
    by (simp add: commit_change_view_comment_def generated_order [OF clock(1)] Let_def case_prod_beta s_def stage_view_version_def
        views.row_ended_def views.row_begun_def nxt_def validity_new_sel res_def)
  with kv'(2) show "\<exists>kv'. commit_change_view_comment kv c now change = (Inr \<lparr>cvc_view_id = vcc_view_id change,
      cvc_previous = vr_comment row, cvc_changed = vcc_comment change\<rparr>, kv') \<and> views.object_step c kv kv' now H L T vs S {row} {nxt row}"
    unfolding res_def by blast
qed

lemma commit_drop_views_outcome:
  assumes cat: "table_catalog kv c H L T vs" and clock: "clock_ahead kv H" "H \<noteq> []"
    and S: "views.holds c (fake_get kv) S" "views.closed_history S H" and ids: "ids \<noteq> []" "distinct ids"
  shows "views.all_open S ids \<Longrightarrow> \<exists>rows kv'. commit_drop_views kv c now ids =
      (Inr (map (views.row_ended (next_commit_order kv)) rows), kv') \<and> map vr_view_id rows = ids \<and>
      views.object_step c kv kv' now H L T vs S (set rows) {}"
    and "\<not> views.all_open S ids \<Longrightarrow> commit_drop_views kv c now ids = (Inl (NotFound ''view''), snd (fake_generated_order_id kv))"
proof -
  let ?kv = "snd (fake_generated_order_id kv)" and ?lo = "sn_order (last H)"
  have wf: "fake_wf ?kv" using table_catalogD(2) [OF cat] by simp
  have "views.finds_open (\<lambda>i. load_view_at ?kv c i ?lo) S"
    by (rule views.finds_openI [OF S(2) clock(2) load_view_at_reads [OF wf]])
       (use S in \<open>simp_all add: views.closed_history_def\<close>)
  note com = views.drop_commit [OF cat clock(1) S this, where now = now and err = "NotFound ''view''" and ids = ids]
  have "stage_drop_view ?kv c ?lo (next_commit_order kv) =
      views.drop_step c (\<lambda>i. load_view_at ?kv c i ?lo) (NotFound ''view'') (next_commit_order kv)"
    unfolding stage_drop_view_def [abs_def] views.drop_step_def [abs_def] views.row_ended_def Let_def ..
  moreover have "reject_duplicate_view_ids ids = Inr ()"
    using ids(2) by (simp add: reject_duplicate_view_ids_def insert_unique_all)
  ultimately have eq: "commit_drop_views kv c now ids = attempt ?kv
      (stage_next_schema_version ?kv (stage_snapshot batch_new c (next_snapshot now kv H)) c (next_snapshot now kv H)) (\<lambda>b1.
        attempt ?kv (rfold (views.drop_step c (\<lambda>i. load_view_at ?kv c i ?lo) (NotFound ''view'') (next_commit_order kv)) ids (b1, []))
          (\<lambda>(b2, dropped). commit_then ?kv b2 dropped))"
    using ids clock(2) latest_of_catalog [OF cat]
    by (simp add: commit_drop_views_def generated_order [OF clock(1)] Let_def case_prod_beta next_of_last [OF clock(2)])
  show "views.all_open S ids \<Longrightarrow> \<exists>rows kv'. commit_drop_views kv c now ids =
      (Inr (map (views.row_ended (next_commit_order kv)) rows), kv') \<and> map vr_view_id rows = ids \<and>
      views.object_step c kv kv' now H L T vs S (set rows) {}"
    unfolding eq by (rule com(1))
  show "\<not> views.all_open S ids \<Longrightarrow> commit_drop_views kv c now ids = (Inl (NotFound ''view''), ?kv)"
    unfolding eq by (rule com(2))
qed

section \<open>Renaming views\<close>

text \<open>What a batch of renames stages: for each the ended version and its successor, whose name no other current view of
  the schema has and no earlier rename of the batch took.\<close>

definition rename_rows :: "catalog_order_id \<Rightarrow> (view_row \<times> rust_string) list \<Rightarrow> renamed_view list" where
  "rename_rows ord ps = map (\<lambda>(p, n). \<lparr>rv_previous = views.row_ended ord p, rv_renamed = views.row_begun ord (p\<lparr>vr_name := n\<rparr>)\<rparr>) ps"

definition rename_free :: "view_row set \<Rightarrow> (view_row \<times> rust_string) list \<Rightarrow> bool" where
  "rename_free C ps \<longleftrightarrow> (\<forall>(p, n) \<in> set ps. p \<in> C \<and>
      (\<forall>x \<in> C. vr_schema_id x = vr_schema_id p \<and> vr_view_id x \<noteq> vr_view_id p \<longrightarrow> \<not> eq_ignore_ascii_case (vr_name x) n)) \<and>
     sorted_wrt (\<lambda>(p, n) (q, m). vr_schema_id p = vr_schema_id q \<longrightarrow> \<not> eq_ignore_ascii_case n m) ps"

abbreviation rename_puts :: "catalog_order_id \<Rightarrow> (view_row \<times> rust_string) list \<Rightarrow> view_row list" where
  "rename_puts ord ps \<equiv> concat (map (\<lambda>r. [rv_previous r, rv_renamed r]) (rename_rows ord ps))"

lemma stage_rename_view_Inr:
  assumes res: "stage_rename_view kv c cur ord rename (b, rename_rows ord ps) = Inr (b', ren)"
    and ready: "staging_ready kv c" and st: "stages kv c b0 b f W D" and free: "rename_free (set cur) ps"
  shows "\<exists>p W'. ren = rename_rows ord (ps @ [(p, vrn_new_name rename)]) \<and> vr_view_id p = vrn_view_id rename \<and>
    rename_free (set cur) (ps @ [(p, vrn_new_name rename)]) \<and>
    stages kv c b0 b' (\<lambda>m. fold (views.put_row c) (rename_puts ord [(p, vrn_new_name rename)]) (f m)) W' D"
proof -
  from res obtain p where p: "find (\<lambda>view. vr_view_id view = vrn_view_id rename) cur = Some p"
    and ok: "reject_view_name_conflict cur (rename_rows ord ps) p (vrn_new_name rename) = Inr ()"
    by (auto simp: stage_rename_view_def rbind_Inr_iff split: option.splits)
  let ?n = "vrn_new_name rename"
  let ?prev = "views.row_ended ord p" and ?nxt = "views.row_begun ord (p\<lparr>vr_name := ?n\<rparr>)"
  have p': "p \<in> set cur" "vr_view_id p = vrn_view_id rename" using p by (auto simp: find_Some_iff)
  from then_max [OF views.stages_rows [OF st, of "[?prev, ?nxt]"] ready cell_keys_iff(1), of "vr_view_id p"] obtain b2 W' where
    b2: "stage_max_catalog_id_watermark kv (batch_put (batch_put b (views.row_key c ?prev) (view_row_encode ?prev))
        (views.row_key c ?nxt) (view_row_encode ?nxt)) c (vr_view_id p) = Inr b2"
    "stages kv c b0 b2 (\<lambda>m. fold (views.put_row c) [?prev, ?nxt] (f m)) W' D"
    by (auto simp: stage_max_catalog_id_watermark_def)
  have "stage_rename_view kv c cur ord rename (b, rename_rows ord ps) = Inr (b2, rename_rows ord (ps @ [(p, ?n)]))"
    using p ok b2(1) by (simp add: stage_rename_view_def stage_view_version_def Let_def rename_rows_def views.row_ended_def
        views.row_begun_def validity_new_sel)
  with res have "b' = b2" "ren = rename_rows ord (ps @ [(p, ?n)])" by simp_all
  moreover have "rename_free (set cur) (ps @ [(p, ?n)])"
    using ok free p'(1)
    by (auto simp: reject_view_name_conflict_def rename_free_def rename_rows_def sorted_wrt_append views.row_begun_def split: if_splits)
  ultimately show ?thesis using p'(2) b2(2) by (auto simp: rename_rows_def)
qed

lemma rename_views_fold:
  assumes "rfold (stage_rename_view kv c cur ord) rs (b, rename_rows ord ps) = Inr (b', ren)"
    and "staging_ready kv c" "stages kv c b0 b f W D" "rename_free (set cur) ps"
  shows "\<exists>qs W'. ren = rename_rows ord (ps @ qs) \<and> map (\<lambda>(p, n). (vr_view_id p, n)) qs = map (\<lambda>r. (vrn_view_id r, vrn_new_name r)) rs \<and>
    rename_free (set cur) (ps @ qs) \<and> stages kv c b0 b' (\<lambda>m. fold (views.put_row c) (rename_puts ord qs) (f m)) W' D"
  using assms
proof (induction rs arbitrary: b ps f W)
  case Nil
  then show ?case by (intro exI [of _ "[]"] exI [of _ W]) (simp add: rename_rows_def)
next
  case (Cons r rs)
  from Cons.prems(1) obtain b1 ren1 where one: "stage_rename_view kv c cur ord r (b, rename_rows ord ps) = Inr (b1, ren1)"
    and rest: "rfold (stage_rename_view kv c cur ord) rs (b1, ren1) = Inr (b', ren)" by (auto simp: rbind_Inr_iff)
  from stage_rename_view_Inr [OF one Cons.prems(2-4)] obtain p W1 where
    p: "ren1 = rename_rows ord (ps @ [(p, vrn_new_name r)])" "vr_view_id p = vrn_view_id r"
    "rename_free (set cur) (ps @ [(p, vrn_new_name r)])"
    "stages kv c b0 b1 (\<lambda>m. fold (views.put_row c) (rename_puts ord [(p, vrn_new_name r)]) (f m)) W1 D" by blast
  from Cons.IH [OF rest [unfolded p(1)] Cons.prems(2) p(4,3)] obtain qs W' where
    "ren = rename_rows ord ((ps @ [(p, vrn_new_name r)]) @ qs)"
    "map (\<lambda>(p, n). (vr_view_id p, n)) qs = map (\<lambda>r. (vrn_view_id r, vrn_new_name r)) rs"
    "rename_free (set cur) ((ps @ [(p, vrn_new_name r)]) @ qs)"
    "stages kv c b0 b' (\<lambda>m. fold (views.put_row c) (rename_puts ord qs)
       (fold (views.put_row c) (rename_puts ord [(p, vrn_new_name r)]) (f m))) W' D" by blast
  with p(2) show ?case by (intro exI [of _ "(p, vrn_new_name r) # qs"] exI [of _ W']) (simp add: rename_rows_def)
qed

lemma reject_duplicate_view_renames_distinct:
  "reject_duplicate_view_renames renames = Inr u \<Longrightarrow> distinct (map vrn_view_id renames)"
  by (auto simp: reject_duplicate_view_renames_def rbind_Inr_iff dest: insert_unique_distinct)

lemma commit_rename_views_outcome:
  assumes cat: "table_catalog kv c H L T vs" and clock: "clock_ahead kv H"
    and S: "views.holds c (fake_get kv) S" "views.closed_history S H"
    and ok: "\<forall>r \<in> set renames. string_ok (vrn_new_name r)" and res: "commit_rename_views kv c now renames = (res, kv')"
  defines "ord \<equiv> next_commit_order kv"
  shows "kv' = kv \<or> kv' = snd (fake_generated_order_id kv) \<or> (\<exists>qs. res = Inr (rename_rows ord qs) \<and>
    map (\<lambda>(p, n). (vr_view_id p, n)) qs = map (\<lambda>r. (vrn_view_id r, vrn_new_name r)) renames \<and> rename_free (open_views S) qs \<and>
    distinct (map (\<lambda>q. vr_view_id (fst q)) qs) \<and>
    views.object_step c kv kv' now H L T vs S (set (map fst qs)) (set (map rv_renamed (rename_rows ord qs))))"
proof (cases "kv' = kv \<or> kv' = snd (fake_generated_order_id kv)")
  case changed: False
  let ?kv = "snd (fake_generated_order_id kv)"
  note latest = latest_of_catalog [OF cat]
  from res changed have ne: "renames \<noteq> []" "H \<noteq> []"
    by (auto simp: commit_rename_views_def latest attempt_def split: sum.splits if_splits)
  define s where "s = next_snapshot now kv H"
  define cur where "cur = views.visible_rows c (sn_order (last H)) S"
  note cur = current_views [OF cat ne(2) S, folded cur_def]
  obtain u where dup: "reject_duplicate_view_renames renames = Inr u"
    using res changed ne by (auto simp: commit_rename_views_def attempt_def split: sum.splits)
  obtain b1 cnt where b1: "stage_next_schema_version ?kv (stage_snapshot batch_new c s) c s = Inr b1"
    "stages ?kv c batch_new b1 (\<lambda>m. put_schema_version c s (saturating_add (version_of vs) 1) cnt (put_snapshot c s m)) {} {}"
    by (rule staged_version [OF cat])
  have un: "commit_rename_views kv c now renames =
      attempt ?kv (rfold (stage_rename_view ?kv c cur ord) renames (b1, [])) (\<lambda>(b2, renamed). commit_then ?kv b2 renamed)"
    using ne latest dup cur(1) b1(1) next_of_last [OF ne(2), of now kv]
    by (simp add: commit_rename_views_def generated_order [OF clock] Let_def case_prod_beta s_def ord_def)
  then obtain b2 ren where fold: "rfold (stage_rename_view ?kv c cur ord) renames (b1, []) = Inr (b2, ren)"
    using res changed by (cases "rfold (stage_rename_view ?kv c cur ord) renames (b1, [])") auto
  from rename_views_fold [of ?kv c cur ord renames b1 "[]", unfolded rename_rows_def list.map, OF fold
      staging_ready_generated [OF table_catalogD(1) [OF cat]] b1(2)]
  obtain qs W where qs: "ren = rename_rows ord qs"
    "map (\<lambda>(p, n). (vr_view_id p, n)) qs = map (\<lambda>r. (vrn_view_id r, vrn_new_name r)) renames" "rename_free (set cur) qs"
    "stages ?kv c batch_new b2 (\<lambda>m. fold (views.put_row c) (rename_puts ord qs)
       (put_schema_version c s (saturating_add (version_of vs) 1) cnt (put_snapshot c s m))) W {}"
    by (auto simp: rename_free_def rename_rows_def)
  have ids: "map (\<lambda>q. vr_view_id (fst q)) qs = map vrn_view_id renames"
    using arg_cong [OF qs(2), of "map fst"] by (simp add: comp_def case_prod_beta)
  have new_names: "snd ` set qs \<subseteq> vrn_new_name ` set renames"
    using arg_cong [OF qs(2), of "\<lambda>xs. set (map snd xs)"] by (force simp: case_prod_beta image_image)
  have wf: "versions_wf vr_view_id vr_validity S" using S(2) by (simp add: views.closed_history_def)
  have old: "set (map fst qs) \<subseteq> {x \<in> S. end_order (vr_validity x) = None}"
    using qs(3) unfolding cur(2) rename_free_def open_views_def by force
  have same: "map vr_view_id (map rv_renamed (rename_rows ord qs)) = map vr_view_id (map fst qs)"
    "distinct (map vr_view_id (map fst qs))"
    using ids reject_duplicate_view_renames_distinct [OF dup]
    by (simp_all add: rename_rows_def case_prod_beta comp_def views.row_begun_def)
  have "view_row_ok p" if "p \<in> set (map fst qs)" for p using old that views.holds_ok [OF S(1)] by blast
  then have new: "\<forall>n \<in> set (map rv_renamed (rename_rows ord qs)). vr_validity n = validity_new ord None \<and> view_row_ok n"
    using ok new_names by (fastforce simp: rename_rows_def views.row_begun_def view_row_ok_def)
  note com = views.commits_replace [OF S(1) wf views.before_next_commit [OF clock S(2), folded ord_def] old same new]
  have ys: "set (rename_puts ord qs) = views.row_ended ord ` set (map fst qs) \<union> set (map rv_renamed (rename_rows ord qs))"
    by (force simp: rename_rows_def)
  from views.object_commit [OF cat clock S com(1) [unfolded ord_def] _ _ qs(4) [unfolded s_def ord_def], where x = ren] ys com(2)
  obtain kv2 where kv2: "commit_then ?kv b2 ren = (Inr ren, kv2)"
    "views.object_step c kv kv2 now H L T vs S (set (map fst qs)) (set (map rv_renamed (rename_rows ord qs)))"
    unfolding ord_def by auto
  have "res = Inr ren" "kv' = kv2" using res un fold kv2(1) by simp_all
  with kv2(2) qs ids same(2) show ?thesis
    by (intro disjI2 exI [of _ qs]) (simp add: cur(2) [symmetric] comp_def case_prod_beta)
qed blast

end
