(* ===== verification/Cat_Table_Edits.thy ===== *)
theory Cat_Table_Edits
  imports Cat_Tables Cat_Partitions
begin

text \<open>
  Edits of table metadata: renaming, dropping and retyping columns (\<open>table_columns.rs\<close>), column defaults
  (\<open>table_column_defaults.rs\<close>), comments (\<open>table_comments.rs\<close>), partitioning (\<open>table_partition.rs\<close>) and sort order
  (\<open>table_sort.rs\<close>). Each validates its batch, computes the next version of one table and commits it.
\<close>

section \<open>Shared steps\<close>

primrec position :: "('a \<Rightarrow> bool) \<Rightarrow> 'a list \<Rightarrow> nat option" where
  "position P [] = None"
| "position P (x # xs) = (if P x then Some 0 else map_option Suc (position P xs))"

text \<open>The check every batch starts with: one table, and no column twice.\<close>

definition reject_batch_shape ::
    "string \<Rightarrow> string \<Rightarrow> string \<Rightarrow> ('r \<Rightarrow> table_id) \<Rightarrow> ('r \<Rightarrow> column_id) \<Rightarrow> 'r list \<Rightarrow> table_id catalog_result" where
  "reject_batch_shape none_msg other_msg twice_msg table_of column_of rs =
     (case rs of
        [] \<Rightarrow> Inl (InvalidMutation none_msg)
      | first # _ \<Rightarrow>
          rbind (rfold (\<lambda>r unique.
            if table_of r \<noteq> table_of first then Inl (InvalidMutation other_msg)
            else insert_unique (InvalidMutation twice_msg) (column_of r) unique) rs {}) (\<lambda>_. Inr (table_of first)))"

definition latest_and_current_table ::
    "fake_kv \<Rightarrow> catalog_id \<Rightarrow> table_id \<Rightarrow> (snapshot_row \<times> table_row) catalog_result" where
  "latest_and_current_table kv catalog table_id =
     rbind (latest_snapshot kv catalog) (\<lambda>latest.
       case latest of
         None \<Rightarrow> Inl (NotFound ''catalog snapshot'')
       | Some snapshot \<Rightarrow>
           rbind (load_current_table_row kv catalog table_id) (\<lambda>row.
             case row of None \<Rightarrow> Inl (NotFound ''table'') | Some previous \<Rightarrow> Inr (snapshot, previous)))"

definition commit_column_version ::
    "fake_kv \<Rightarrow> catalog_id \<Rightarrow> i64 \<Rightarrow> table_id \<Rightarrow> raw_snapshot_sequence \<Rightarrow> table_row \<Rightarrow> table_column_row list \<Rightarrow> unit kv_op" where
  "commit_column_version kv catalog now table_id previous_sequence previous next_columns =
     commit_table_replacements kv catalog now previous_sequence
       [\<lparr>rep_table_id = table_id, rep_previous = previous, rep_next = previous\<lparr>tr_columns := next_columns\<rparr>\<rparr>]"

definition then_return :: "unit kv_op \<Rightarrow> 'a \<Rightarrow> 'a kv_op" where
  "then_return op x = (case op of (r, kv) \<Rightarrow> (rbind r (\<lambda>_. Inr x), kv))"

section \<open>Renaming columns\<close>

record column_rename =
  cr_table_id :: table_id
  cr_column :: table_column_row

record renamed_column =
  rc_table_id :: table_id
  rc_previous :: table_column_row
  rc_renamed :: table_column_row

definition reject_column_rename_batch_shape :: "column_rename list \<Rightarrow> table_id catalog_result" where
  "reject_column_rename_batch_shape renames =
     reject_batch_shape ''empty column rename batch'' ''column rename only supports one table per operation''
       ''column is listed more than once for rename'' cr_table_id (\<lambda>r. tc_column_id (cr_column r)) renames"

definition reject_non_rename_column_change :: "table_column_row \<Rightarrow> table_column_row \<Rightarrow> unit catalog_result" where
  "reject_non_rename_column_change existing replacement =
     (if eq_ignore_ascii_case (tc_name existing) (tc_name replacement) then Inl (InvalidMutation ''column is not renamed'')
      else if tc_column_type existing \<noteq> tc_column_type replacement \<or> tc_nulls_allowed existing \<noteq> tc_nulls_allowed replacement \<or>
              tc_parent_id existing \<noteq> tc_parent_id replacement
      then Inl (InvalidMutation ''column changes more than its name'')
      else Inr ())"

definition reject_column_name_conflict ::
    "table_column_row list \<Rightarrow> table_column_row \<Rightarrow> rust_string \<Rightarrow> unit catalog_result" where
  "reject_column_name_conflict columns existing new_name =
     (if \<exists>column \<in> set columns. tc_parent_id column = tc_parent_id existing \<and> tc_column_id column \<noteq> tc_column_id existing \<and>
           eq_ignore_ascii_case (tc_name column) new_name
      then Inl (InvalidMutation ''column name already exists on table'') else Inr ())"

definition rename_one_column ::
    "table_id \<Rightarrow> column_rename \<Rightarrow> table_column_row list \<times> renamed_column list \<Rightarrow>
     (table_column_row list \<times> renamed_column list) catalog_result" where
  "rename_one_column table_id rename acc =
     (case acc of (columns, renamed) \<Rightarrow>
        case position (\<lambda>column. tc_column_id column = tc_column_id (cr_column rename)) columns of
          None \<Rightarrow> Inl (NotFound ''column'')
        | Some i \<Rightarrow>
            let existing = columns ! i
            in rbind (reject_non_rename_column_change existing (cr_column rename)) (\<lambda>_.
               rbind (reject_column_name_conflict columns existing (tc_name (cr_column rename))) (\<lambda>_.
                 let changed = existing\<lparr>tc_name := tc_name (cr_column rename)\<rparr>
                 in Inr (columns[i := changed],
                      renamed @ [\<lparr>rc_table_id = table_id, rc_previous = existing, rc_renamed = changed\<rparr>]))))"

definition commit_rename_table_columns ::
    "fake_kv \<Rightarrow> catalog_id \<Rightarrow> i64 \<Rightarrow> column_rename list \<Rightarrow> renamed_column list kv_op" where
  "commit_rename_table_columns kv catalog now renames =
     (if renames = [] then (Inr [], kv)
      else attempt kv (reject_column_rename_batch_shape renames) (\<lambda>table_id.
        attempt kv (latest_and_current_table kv catalog table_id) (\<lambda>(latest, previous).
        attempt kv (rfold (rename_one_column table_id) renames (tr_columns previous, [])) (\<lambda>(next_columns, renamed).
          then_return (commit_column_version kv catalog now table_id (sn_sequence latest) previous next_columns) renamed))))"

definition commit_rename_table_columns_with_conflict_check ::
    "fake_kv \<Rightarrow> catalog_id \<Rightarrow> i64 \<Rightarrow> catalog_order_id \<Rightarrow> catalog_order_id \<Rightarrow> column_rename list \<Rightarrow> renamed_column list kv_op" where
  "commit_rename_table_columns_with_conflict_check kv catalog now base_order through_order renames =
     attempt kv (reject_column_rename_batch_shape renames) (\<lambda>table_id.
     attempt kv (reject_table_conflicts_since_base kv catalog table_id base_order through_order) (\<lambda>_.
       commit_rename_table_columns kv catalog now renames))"

definition normalize_column_renames_to_current_shape ::
    "fake_kv \<Rightarrow> catalog_id \<Rightarrow> column_rename list \<Rightarrow> column_rename list catalog_result" where
  "normalize_column_renames_to_current_shape kv catalog renames =
     rbind (reject_column_rename_batch_shape renames) (\<lambda>table_id.
     rbind (latest_and_current_table kv catalog table_id) (\<lambda>(_, table).
       rmap (\<lambda>rename.
         case find (\<lambda>column. tc_column_id column = tc_column_id (cr_column rename)) (tr_columns table) of
           None \<Rightarrow> Inl (NotFound ''column'')
         | Some current \<Rightarrow>
             Inr \<lparr>cr_table_id = table_id, cr_column = current\<lparr>tc_name := tc_name (cr_column rename)\<rparr>\<rparr>) renames))"

section \<open>Dropping columns\<close>

record column_drop =
  cd_table_id :: table_id
  cd_column_id :: column_id

record dropped_column =
  dc_table_id :: table_id
  dc_column :: table_column_row

definition reject_column_drop_batch_shape :: "column_drop list \<Rightarrow> table_id catalog_result" where
  "reject_column_drop_batch_shape drops =
     reject_batch_shape ''empty column drop batch'' ''column drop only supports one table per operation''
       ''column is listed more than once for drop'' cd_table_id cd_column_id drops"

text \<open>One pass over the columns adds the children of the columns found so far; passes repeat until one adds nothing.\<close>

definition descendant_pass :: "table_column_row list \<Rightarrow> column_id set \<Rightarrow> column_id set" where
  "descendant_pass columns ids =
     fold (\<lambda>column ids.
       case tc_parent_id column of
         Some parent \<Rightarrow> if parent \<in> ids then insert (tc_column_id column) ids else ids
       | None \<Rightarrow> ids) columns ids"

lemma descendant_pass_bounds: "ids \<subseteq> descendant_pass columns ids" "descendant_pass columns ids \<subseteq> ids \<union> tc_column_id ` set columns"
proof -
  show "ids \<subseteq> descendant_pass columns ids"
    unfolding descendant_pass_def
  proof (induction columns arbitrary: ids)
    case (Cons column columns)
    from Cons.IH [of "case tc_parent_id column of Some parent \<Rightarrow> if parent \<in> ids then insert (tc_column_id column) ids else ids | None \<Rightarrow> ids"]
    show ?case by (auto split: option.splits if_splits)
  qed simp
  show "descendant_pass columns ids \<subseteq> ids \<union> tc_column_id ` set columns"
    unfolding descendant_pass_def
  proof (induction columns arbitrary: ids)
    case (Cons column columns)
    from Cons.IH [of "case tc_parent_id column of Some parent \<Rightarrow> if parent \<in> ids then insert (tc_column_id column) ids else ids | None \<Rightarrow> ids"]
    show ?case by (auto split: option.splits if_splits)
  qed simp
qed

function descendant_loop :: "table_column_row list \<Rightarrow> column_id set \<Rightarrow> column_id set" where
  "descendant_loop columns ids =
     (let ids' = descendant_pass columns ids
      in if card ids' = card ids then ids' else descendant_loop columns ids')"
  by pat_completeness auto

termination
proof (relation "measure (\<lambda>(columns, ids). card (tc_column_id ` set columns - ids))")
  fix columns ids ids'
  assume ids': "ids' = descendant_pass columns ids" and "card ids' \<noteq> card ids"
  then have "ids \<noteq> ids'" by auto
  then have "tc_column_id ` set columns - ids' \<subset> tc_column_id ` set columns - ids"
    using descendant_pass_bounds [where ids = ids and columns = columns] ids' by blast
  then show "((columns, ids'), (columns, ids)) \<in> measure (\<lambda>(columns, ids). card (tc_column_id ` set columns - ids))"
    by (simp add: psubset_card_mono)
qed simp

declare descendant_loop.simps [simp del]

definition column_and_descendant_ids :: "table_column_row list \<Rightarrow> column_id \<Rightarrow> column_id set" where
  "column_and_descendant_ids columns root = descendant_loop columns {root}"

definition drop_one_column ::
    "table_id \<Rightarrow> column_drop \<Rightarrow> table_column_row list \<times> dropped_column list \<Rightarrow>
     (table_column_row list \<times> dropped_column list) catalog_result" where
  "drop_one_column table_id drp acc =
     (case acc of (columns, dropped) \<Rightarrow>
        if \<not> (\<exists>column \<in> set columns. tc_column_id column = cd_column_id drp) then Inl (NotFound ''column'')
        else
          let ids = column_and_descendant_ids columns (cd_column_id drp)
          in Inr (filter (\<lambda>column. tc_column_id column \<notin> ids) columns,
                  dropped @ map (\<lambda>column. \<lparr>dc_table_id = table_id, dc_column = column\<rparr>)
                    (filter (\<lambda>column. tc_column_id column \<in> ids) columns)))"

definition commit_drop_table_columns ::
    "fake_kv \<Rightarrow> catalog_id \<Rightarrow> i64 \<Rightarrow> column_drop list \<Rightarrow> dropped_column list kv_op" where
  "commit_drop_table_columns kv catalog now drops =
     (if drops = [] then (Inr [], kv)
      else attempt kv (reject_column_drop_batch_shape drops) (\<lambda>table_id.
        attempt kv (latest_and_current_table kv catalog table_id) (\<lambda>(latest, previous).
        attempt kv (rfold (drop_one_column table_id) drops (tr_columns previous, [])) (\<lambda>(next_columns, dropped).
          then_return (commit_column_version kv catalog now table_id (sn_sequence latest) previous next_columns) dropped))))"

definition commit_drop_table_columns_with_conflict_check ::
    "fake_kv \<Rightarrow> catalog_id \<Rightarrow> i64 \<Rightarrow> catalog_order_id \<Rightarrow> catalog_order_id \<Rightarrow> column_drop list \<Rightarrow> dropped_column list kv_op" where
  "commit_drop_table_columns_with_conflict_check kv catalog now base_order through_order drops =
     attempt kv (reject_column_drop_batch_shape drops) (\<lambda>table_id.
     attempt kv (reject_table_conflicts_since_base kv catalog table_id base_order through_order) (\<lambda>_.
       commit_drop_table_columns kv catalog now drops))"

section \<open>Changing column types\<close>

record column_type_change =
  ct_table_id :: table_id
  ct_column :: table_column_row

record changed_column_type =
  cct_table_id :: table_id
  cct_previous :: table_column_row
  cct_changed :: table_column_row

definition reject_column_type_change_batch_shape :: "column_type_change list \<Rightarrow> table_id catalog_result" where
  "reject_column_type_change_batch_shape changes =
     reject_batch_shape ''empty column type change batch'' ''column type change only supports one table per operation''
       ''column is listed more than once for type change'' ct_table_id (\<lambda>r. tc_column_id (ct_column r)) changes"

definition reject_parent_column_type_change :: "table_column_row list \<Rightarrow> table_column_row \<Rightarrow> unit catalog_result" where
  "reject_parent_column_type_change columns existing =
     (if \<exists>column \<in> set columns. tc_parent_id column = Some (tc_column_id existing)
      then Inl (InvalidMutation ''parent column type change is not implemented'') else Inr ())"

definition reject_non_type_column_identity_change :: "table_column_row \<Rightarrow> table_column_row \<Rightarrow> unit catalog_result" where
  "reject_non_type_column_identity_change existing replacement =
     (if \<not> eq_ignore_ascii_case (tc_name existing) (tc_name replacement) \<or> tc_parent_id existing \<noteq> tc_parent_id replacement
      then Inl (InvalidMutation ''column changes identity metadata during type change'')
      else if tc_parent_id existing = None \<and> tc_nulls_allowed existing \<noteq> tc_nulls_allowed replacement
      then Inl (InvalidMutation ''column changes top-level nullability during type change'')
      else if tc_column_type existing = tc_column_type replacement
      then Inl (InvalidMutation ''column type is unchanged'')
      else Inr ())"

definition same_default_metadata :: "table_column_row \<Rightarrow> table_column_row \<Rightarrow> bool" where
  "same_default_metadata existing replacement \<longleftrightarrow>
     tc_initial_default existing = tc_initial_default replacement \<and> tc_default_value existing = tc_default_value replacement \<and>
     tc_default_value_type existing = tc_default_value_type replacement"

definition type_change_replacement :: "table_column_row \<Rightarrow> table_column_row \<Rightarrow> table_column_row" where
  "type_change_replacement existing replacement =
     existing\<lparr>tc_column_type := tc_column_type replacement, tc_nulls_allowed := tc_nulls_allowed replacement,
       tc_initial_default := tc_initial_default replacement, tc_default_value := tc_default_value replacement,
       tc_default_value_type := tc_default_value_type replacement\<rparr>"

definition retype_one_column ::
    "table_id \<Rightarrow> column_type_change \<Rightarrow> table_column_row list \<times> changed_column_type list \<Rightarrow>
     (table_column_row list \<times> changed_column_type list) catalog_result" where
  "retype_one_column table_id change acc =
     (case acc of (columns, changed) \<Rightarrow>
        case position (\<lambda>column. tc_column_id column = tc_column_id (ct_column change)) columns of
          None \<Rightarrow> Inl (NotFound ''column'')
        | Some i \<Rightarrow>
            let existing = columns ! i
            in rbind (reject_parent_column_type_change columns existing) (\<lambda>_.
               rbind (reject_non_type_column_identity_change existing (ct_column change)) (\<lambda>_.
                 let new = type_change_replacement existing (ct_column change)
                 in Inr (columns[i := new],
                      changed @ [\<lparr>cct_table_id = table_id, cct_previous = existing, cct_changed = new\<rparr>]))))"

definition commit_change_table_column_types ::
    "fake_kv \<Rightarrow> catalog_id \<Rightarrow> i64 \<Rightarrow> column_type_change list \<Rightarrow> changed_column_type list kv_op" where
  "commit_change_table_column_types kv catalog now changes =
     (if changes = [] then (Inr [], kv)
      else attempt kv (reject_column_type_change_batch_shape changes) (\<lambda>table_id.
        attempt kv (latest_and_current_table kv catalog table_id) (\<lambda>(latest, previous).
        attempt kv (rfold (retype_one_column table_id) changes (tr_columns previous, [])) (\<lambda>(next_columns, changed).
          then_return (commit_column_version kv catalog now table_id (sn_sequence latest) previous next_columns) changed))))"

definition commit_change_table_column_types_with_conflict_check ::
    "fake_kv \<Rightarrow> catalog_id \<Rightarrow> i64 \<Rightarrow> catalog_order_id \<Rightarrow> catalog_order_id \<Rightarrow> column_type_change list \<Rightarrow>
     changed_column_type list kv_op" where
  "commit_change_table_column_types_with_conflict_check kv catalog now base_order through_order changes =
     attempt kv (reject_column_type_change_batch_shape changes) (\<lambda>table_id.
     attempt kv (reject_table_conflicts_since_base kv catalog table_id base_order through_order) (\<lambda>_.
       commit_change_table_column_types kv catalog now changes))"

section \<open>Column defaults\<close>

record column_default_change =
  cdf_table_id :: table_id
  cdf_column :: table_column_row

record changed_column_default =
  ccd_table_id :: table_id
  ccd_previous :: table_column_row
  ccd_changed :: table_column_row

definition reject_column_default_change_batch_shape :: "column_default_change list \<Rightarrow> table_id catalog_result" where
  "reject_column_default_change_batch_shape changes =
     reject_batch_shape ''empty column default change batch'' ''column default change only supports one table per operation''
       ''column is listed more than once for default change'' cdf_table_id (\<lambda>r. tc_column_id (cdf_column r)) changes"

definition reject_non_default_column_change :: "table_column_row \<Rightarrow> table_column_row \<Rightarrow> unit catalog_result" where
  "reject_non_default_column_change existing replacement =
     (if \<not> eq_ignore_ascii_case (tc_name existing) (tc_name replacement) \<or> tc_column_type existing \<noteq> tc_column_type replacement \<or>
         tc_nulls_allowed existing \<noteq> tc_nulls_allowed replacement \<or> tc_parent_id existing \<noteq> tc_parent_id replacement
      then Inl (InvalidMutation ''column changes more than its default'')
      else if same_default_metadata existing replacement then Inl (InvalidMutation ''column default is unchanged'')
      else Inr ())"

definition replace_default ::
    "table_column_row list \<Rightarrow> column_default_change \<Rightarrow> (table_column_row list \<times> table_column_row) catalog_result" where
  "replace_default columns change =
     (case position (\<lambda>column. tc_column_id column = tc_column_id (cdf_column change)) columns of
        None \<Rightarrow> Inl (NotFound ''column'')
      | Some i \<Rightarrow>
          let existing = columns ! i
          in rbind (reject_non_default_column_change existing (cdf_column change)) (\<lambda>_.
            Inr (columns[i := existing\<lparr>tc_initial_default := tc_initial_default (cdf_column change),
                   tc_default_value := tc_default_value (cdf_column change),
                   tc_default_value_type := tc_default_value_type (cdf_column change)\<rparr>], existing)))"

definition commit_change_table_column_defaults ::
    "fake_kv \<Rightarrow> catalog_id \<Rightarrow> i64 \<Rightarrow> column_default_change list \<Rightarrow> changed_column_default list kv_op" where
  "commit_change_table_column_defaults kv catalog now changes =
     (if changes = [] then (Inr [], kv)
      else attempt kv (reject_column_default_change_batch_shape changes) (\<lambda>table_id.
        attempt kv (latest_and_current_table kv catalog table_id) (\<lambda>(latest, previous).
        attempt kv (rfold (\<lambda>change (columns, changed).
            rbind (replace_default columns change) (\<lambda>(columns', existing).
              Inr (columns', changed @ [\<lparr>ccd_table_id = table_id, ccd_previous = existing, ccd_changed = cdf_column change\<rparr>])))
            changes (tr_columns previous, [])) (\<lambda>(next_columns, changed).
          then_return (commit_column_version kv catalog now table_id (sn_sequence latest) previous next_columns) changed))))"

definition commit_change_table_column_defaults_with_conflict_check ::
    "fake_kv \<Rightarrow> catalog_id \<Rightarrow> i64 \<Rightarrow> catalog_order_id \<Rightarrow> catalog_order_id \<Rightarrow> column_default_change list \<Rightarrow>
     changed_column_default list kv_op" where
  "commit_change_table_column_defaults_with_conflict_check kv catalog now base_order through_order changes =
     attempt kv (reject_column_default_change_batch_shape changes) (\<lambda>table_id.
     attempt kv (reject_table_conflicts_since_base kv catalog table_id base_order through_order) (\<lambda>_.
       commit_change_table_column_defaults kv catalog now changes))"

section \<open>Comments\<close>

record table_comment_change =
  tcc_table_id :: table_id
  tcc_comment :: "rust_string option"

record column_comment_change =
  ccc_table_id :: table_id
  ccc_column_id :: column_id
  ccc_comment :: "rust_string option"

record changed_table_comments =
  ctc_table_id :: table_id
  ctc_table_comment :: "table_comment_change option"
  ctc_column_comments :: "column_comment_change list"

definition reject_cross_table :: "table_id \<Rightarrow> table_id \<Rightarrow> unit catalog_result" where
  "reject_cross_table expected_table_id table_id =
     (if table_id = expected_table_id then Inr ()
      else Inl (InvalidMutation ''comment change only supports one table per operation''))"

definition validate_comment_batch ::
    "table_comment_change list \<Rightarrow> column_comment_change list \<Rightarrow> table_id option catalog_result" where
  "validate_comment_batch table_comments column_comments =
     (if 1 < length table_comments
      then Inl (InvalidMutation ''comment change supports at most one table comment per operation'')
      else
        let table_id = (case table_comments of change # _ \<Rightarrow> Some (tcc_table_id change)
              | [] \<Rightarrow> (case column_comments of change # _ \<Rightarrow> Some (ccc_table_id change) | [] \<Rightarrow> None))
        in case table_id of
             None \<Rightarrow> Inr None
           | Some expected \<Rightarrow>
               rbind (rfold (\<lambda>comment _. reject_cross_table expected (tcc_table_id comment)) table_comments ()) (\<lambda>_.
               rbind (rfold (\<lambda>comment unique.
                   rbind (reject_cross_table expected (ccc_table_id comment)) (\<lambda>_.
                     insert_unique (InvalidMutation ''column is listed more than once for comment change'')
                       (ccc_column_id comment) unique)) column_comments {}) (\<lambda>_.
                 Inr (Some expected))))"

definition apply_table_comments ::
    "table_row \<Rightarrow> table_comment_change list \<Rightarrow> table_row \<times> table_comment_change option" where
  "apply_table_comments table table_comments =
     (case table_comments of
        [] \<Rightarrow> (table, None)
      | comment # _ \<Rightarrow> (table\<lparr>tr_comment := tcc_comment comment\<rparr>, Some comment))"

definition apply_column_comments :: "table_row \<Rightarrow> column_comment_change list \<Rightarrow> table_row catalog_result" where
  "apply_column_comments table column_comments =
     rfold (\<lambda>change table.
       case position (\<lambda>column. tc_column_id column = ccc_column_id change) (tr_columns table) of
         None \<Rightarrow> Inl (NotFound ''column'')
       | Some i \<Rightarrow>
           Inr (table\<lparr>tr_columns := (tr_columns table)[i := (tr_columns table ! i)\<lparr>tc_comment := ccc_comment change\<rparr>]\<rparr>))
       column_comments table"

definition commit_change_table_comments ::
    "fake_kv \<Rightarrow> catalog_id \<Rightarrow> i64 \<Rightarrow> table_comment_change list \<Rightarrow> column_comment_change list \<Rightarrow>
     changed_table_comments option kv_op" where
  "commit_change_table_comments kv catalog now table_comments column_comments =
     attempt kv (validate_comment_batch table_comments column_comments) (\<lambda>batch.
       case batch of
         None \<Rightarrow> (Inr None, kv)
       | Some table_id \<Rightarrow>
           attempt kv (latest_and_current_table kv catalog table_id) (\<lambda>(latest, previous).
             let (nxt, table_comment) = apply_table_comments previous table_comments
             in attempt kv (apply_column_comments nxt column_comments) (\<lambda>nxt'.
               then_return
                 (commit_replaced_table_version kv catalog now table_id (sn_sequence latest) previous nxt')
                 (Some \<lparr>ctc_table_id = table_id, ctc_table_comment = table_comment,
                    ctc_column_comments = column_comments\<rparr>))))"

definition commit_change_table_comments_with_conflict_check ::
    "fake_kv \<Rightarrow> catalog_id \<Rightarrow> i64 \<Rightarrow> catalog_order_id \<Rightarrow> catalog_order_id \<Rightarrow> table_comment_change list \<Rightarrow>
     column_comment_change list \<Rightarrow> changed_table_comments option kv_op" where
  "commit_change_table_comments_with_conflict_check kv catalog now base_order through_order table_comments column_comments =
     attempt kv (validate_comment_batch table_comments column_comments) (\<lambda>batch.
     attempt kv (case batch of None \<Rightarrow> Inr ()
         | Some table_id \<Rightarrow> reject_table_conflicts_since_base kv catalog table_id base_order through_order) (\<lambda>_.
       commit_change_table_comments kv catalog now table_comments column_comments))"

section \<open>Partitioning and sort order\<close>

record table_partition_change =
  tpc_table_id :: table_id
  tpc_partition :: "table_partition_row option"

record changed_table_partition =
  ctp_table_id :: table_id
  ctp_previous :: "table_partition_row option"
  ctp_changed :: "table_partition_row option"

definition commit_change_table_partition ::
    "fake_kv \<Rightarrow> catalog_id \<Rightarrow> i64 \<Rightarrow> table_partition_change \<Rightarrow> raw_snapshot_sequence option \<Rightarrow>
     changed_table_partition option kv_op" where
  "commit_change_table_partition kv catalog now change commit_raw_snapshot =
     attempt kv (latest_and_current_table kv catalog (tpc_table_id change)) (\<lambda>(latest, previous).
       if tr_partition previous = tpc_partition change then (Inr None, kv)
       else then_return
         (commit_replaced_table_version kv catalog now (tpc_table_id change)
            (case commit_raw_snapshot of Some sequence \<Rightarrow> u64_saturating_sub sequence 1 | None \<Rightarrow> sn_sequence latest)
            previous (previous\<lparr>tr_partition := tpc_partition change\<rparr>))
         (Some \<lparr>ctp_table_id = tpc_table_id change, ctp_previous = tr_partition previous,
            ctp_changed = tpc_partition change\<rparr>))"

definition commit_change_table_partition_with_conflict_check ::
    "fake_kv \<Rightarrow> catalog_id \<Rightarrow> i64 \<Rightarrow> catalog_order_id \<Rightarrow> catalog_order_id \<Rightarrow> table_partition_change \<Rightarrow>
     raw_snapshot_sequence option \<Rightarrow> changed_table_partition option kv_op" where
  "commit_change_table_partition_with_conflict_check kv catalog now base_order through_order change commit_raw_snapshot =
     attempt kv (reject_table_conflicts_since_base kv catalog (tpc_table_id change) base_order through_order) (\<lambda>_.
       commit_change_table_partition kv catalog now change commit_raw_snapshot)"

record table_sort_change =
  tsc_table_id :: table_id
  tsc_sort :: "table_sort_row option"

record changed_table_sort =
  cts_table_id :: table_id
  cts_previous :: "table_sort_row option"
  cts_changed :: "table_sort_row option"

definition commit_change_table_sort ::
    "fake_kv \<Rightarrow> catalog_id \<Rightarrow> i64 \<Rightarrow> table_sort_change \<Rightarrow> changed_table_sort option kv_op" where
  "commit_change_table_sort kv catalog now change =
     attempt kv (latest_and_current_table kv catalog (tsc_table_id change)) (\<lambda>(latest, previous).
       if tr_sort previous = tsc_sort change then (Inr None, kv)
       else then_return
         (commit_replaced_table_version kv catalog now (tsc_table_id change) (sn_sequence latest)
            previous (previous\<lparr>tr_sort := tsc_sort change\<rparr>))
         (Some \<lparr>cts_table_id = tsc_table_id change, cts_previous = tr_sort previous, cts_changed = tsc_sort change\<rparr>))"

definition commit_change_table_sort_with_conflict_check ::
    "fake_kv \<Rightarrow> catalog_id \<Rightarrow> i64 \<Rightarrow> catalog_order_id \<Rightarrow> catalog_order_id \<Rightarrow> table_sort_change \<Rightarrow>
     changed_table_sort option kv_op" where
  "commit_change_table_sort_with_conflict_check kv catalog now base_order through_order change =
     attempt kv (reject_table_conflicts_since_base kv catalog (tsc_table_id change) base_order through_order) (\<lambda>_.
       commit_change_table_sort kv catalog now change)"

section \<open>What a column drop removes\<close>

definition parent_edges :: "table_column_row list \<Rightarrow> (column_id \<times> column_id) set" where
  "parent_edges columns = {(p, tc_column_id column) |p column. column \<in> set columns \<and> tc_parent_id column = Some p}"

lemma descendant_pass_sound: "descendant_pass columns ids \<subseteq> (parent_edges columns)\<^sup>* `` ids"
proof -
  have "fold (\<lambda>column ids. case tc_parent_id column of
          Some parent \<Rightarrow> if parent \<in> ids then insert (tc_column_id column) ids else ids | None \<Rightarrow> ids) cs X
        \<subseteq> (parent_edges columns)\<^sup>* `` ids"
    if "set cs \<subseteq> set columns" "X \<subseteq> (parent_edges columns)\<^sup>* `` ids" for cs X
    using that
  proof (induction cs arbitrary: X)
    case (Cons column cs)
    let ?X = "case tc_parent_id column of Some parent \<Rightarrow> if parent \<in> X then insert (tc_column_id column) X else X | None \<Rightarrow> X"
    have "?X \<subseteq> (parent_edges columns)\<^sup>* `` ids"
    proof -
      have "tc_column_id column \<in> (parent_edges columns)\<^sup>* `` ids" if "tc_parent_id column = Some p" "p \<in> X" for p
      proof -
        have "(p, tc_column_id column) \<in> parent_edges columns" using that(1) Cons.prems(1) by (auto simp: parent_edges_def)
        with that(2) Cons.prems(2) show ?thesis by (auto intro: rtrancl_into_rtrancl)
      qed
      then show ?thesis using Cons.prems(2) by (simp split: option.split)
    qed
    with Cons show ?case by simp
  qed simp
  from this [of columns ids] show ?thesis unfolding descendant_pass_def by blast
qed

lemma descendant_pass_step:
  assumes "(p, d) \<in> parent_edges columns" "p \<in> ids"
  shows "d \<in> descendant_pass columns ids"
proof -
  obtain column where "column \<in> set columns" and col: "tc_parent_id column = Some p" "d = tc_column_id column"
    using assms(1) by (auto simp: parent_edges_def)
  then obtain xs ys where cols: "columns = xs @ column # ys" by (auto dest: split_list)
  have "ids \<subseteq> descendant_pass xs ids" by (rule descendant_pass_bounds)
  with assms(2) col have "d \<in> descendant_pass [column] (descendant_pass xs ids)" by (auto simp: descendant_pass_def)
  moreover have "descendant_pass columns ids = descendant_pass ys (descendant_pass [column] (descendant_pass xs ids))"
    by (simp add: cols descendant_pass_def)
  ultimately show ?thesis
    using descendant_pass_bounds(1) [where ids = "descendant_pass [column] (descendant_pass xs ids)" and columns = ys] by auto
qed

lemma descendant_loop_exact: "finite ids \<Longrightarrow> descendant_loop columns ids = (parent_edges columns)\<^sup>* `` ids"
proof (induction columns ids rule: descendant_loop.induct)
  case (1 columns ids)
  let ?ids = "descendant_pass columns ids"
  note B = descendant_pass_bounds [where ids = ids and columns = columns]
  have fin: "finite ?ids" using B(2) by (rule finite_subset) (simp add: 1)
  have same: "(parent_edges columns)\<^sup>* `` ?ids = (parent_edges columns)\<^sup>* `` ids"
  proof (rule antisym)
    have "(parent_edges columns)\<^sup>* `` ?ids \<subseteq> (parent_edges columns)\<^sup>* `` ((parent_edges columns)\<^sup>* `` ids)"
      by (rule Image_mono [OF subset_refl descendant_pass_sound])
    also have "\<dots> = (parent_edges columns)\<^sup>* `` ids" by (auto intro: rtrancl_trans)
    finally show "(parent_edges columns)\<^sup>* `` ?ids \<subseteq> (parent_edges columns)\<^sup>* `` ids" .
  qed (use B(1) in blast)
  show ?case
  proof (cases "card ?ids = card ids")
    case True
    then have eq: "?ids = ids" using card_subset_eq [OF fin B(1)] by simp
    have "d \<in> ids" if "(r, d) \<in> (parent_edges columns)\<^sup>*" "r \<in> ids" for r d
      using that by (induction rule: rtrancl_induct) (use descendant_pass_step eq in blast)+
    then have "(parent_edges columns)\<^sup>* `` ids = ids" by auto
    with True eq show ?thesis by (simp add: descendant_loop.simps [of columns ids])
  next
    case False
    with 1(1) [OF refl False fin] same show ?thesis by (simp add: descendant_loop.simps [of columns ids])
  qed
qed

lemma position_Some: "position P xs = Some i \<Longrightarrow> i < length xs \<and> P (xs ! i)"
  by (induction xs arbitrary: i) (auto split: if_splits)

lemma position_None: "position P xs = None \<longleftrightarrow> (\<forall>x \<in> set xs. \<not> P x)"
  by (induction xs) (auto split: if_splits)

end
