(* ===== verification/Cat_Table_Steps.thy ===== *)
theory Cat_Table_Steps
  imports Cat_Table_Names Cat_Table_Edits Cat_File_History
begin

text \<open>
  The catalog of tables as a transition system. Every metadata edit is either without effect or one new version of the
  table it names, which keeps the id, the schema and the name of the table; creating and renaming tables are steps
  too. The lemmas carry the invariant of the catalog and the uniqueness of table names along every step.
\<close>

section \<open>Batches of column edits\<close>

lemma filter_closure:
  assumes "r \<notin> (parent_edges cols)\<^sup>* `` R" "d \<notin> (parent_edges cols)\<^sup>* `` R"
  shows "(r, d) \<in> (parent_edges (filter (\<lambda>column. tc_column_id column \<notin> (parent_edges cols)\<^sup>* `` R) cols))\<^sup>* \<longleftrightarrow>
    (r, d) \<in> (parent_edges cols)\<^sup>*" (is "?l \<longleftrightarrow> ?r")
proof
  have "parent_edges (filter (\<lambda>column. tc_column_id column \<notin> (parent_edges cols)\<^sup>* `` R) cols) \<subseteq> parent_edges cols"
    by (auto simp: parent_edges_def)
  then show "?l \<Longrightarrow> ?r" using rtrancl_mono by blast
next
  assume ?r
  then show ?l using assms(2)
  proof (induction rule: rtrancl_induct)
    case (step p q)
    have p: "p \<notin> (parent_edges cols)\<^sup>* `` R" using step.hyps(2) step.prems by (auto intro: rtrancl_into_rtrancl)
    have "(p, q) \<in> parent_edges (filter (\<lambda>column. tc_column_id column \<notin> (parent_edges cols)\<^sup>* `` R) cols)"
      using step.hyps(2) step.prems by (auto simp: parent_edges_def)
    with step.IH [OF p] show ?case by (rule rtrancl_into_rtrancl)
  qed simp
qed

definition dropped_ids :: "table_column_row list \<Rightarrow> column_id set \<Rightarrow> column_id set" where
  "dropped_ids cols R = (parent_edges cols)\<^sup>* `` R"

lemma dropped_ids_mono: "R \<subseteq> dropped_ids cols R"
  by (auto simp: dropped_ids_def)

lemma drop_roots:
  "rfold (drop_one_column t) drops (cols, dropped) = Inr res \<Longrightarrow> r \<in> cd_column_id ` set drops \<Longrightarrow> r \<in> tc_column_id ` set cols"
proof (induction drops arbitrary: cols dropped)
  case (Cons drp drops)
  from Cons.prems(1) obtain cols' dropped' where one: "drop_one_column t drp (cols, dropped) = Inr (cols', dropped')"
    "rfold (drop_one_column t) drops (cols', dropped') = Inr res" by (auto simp: rbind_Inr_iff)
  from one(1) have "set cols' \<subseteq> set cols" "cd_column_id drp \<in> tc_column_id ` set cols"
    by (auto simp: drop_one_column_def Let_def intro: rev_image_eqI split: if_splits)
  with Cons.IH [OF one(2)] Cons.prems(2) show ?case by auto
qed simp

text \<open>Dropping one column after another removes the subtrees of all of them.\<close>

lemma drop_fold:
  assumes "rfold (drop_one_column t) drops (cols, dropped) = Inr (rest, dropped')"
  shows "rest = filter (\<lambda>column. tc_column_id column \<notin> dropped_ids cols (cd_column_id ` set drops)) cols \<and>
    (\<exists>more. dropped' = dropped @ map (\<lambda>column. \<lparr>dc_table_id = t, dc_column = column\<rparr>) more \<and>
       mset more = mset (filter (\<lambda>column. tc_column_id column \<in> dropped_ids cols (cd_column_id ` set drops)) cols))"
  using assms
proof (induction drops arbitrary: cols dropped)
  case Nil
  then show ?case by (simp add: dropped_ids_def)
next
  case (Cons drp drops)
  let ?D = "dropped_ids cols {cd_column_id drp}" and ?R = "cd_column_id ` set drops"
  define cols' where "cols' = filter (\<lambda>column. tc_column_id column \<notin> ?D) cols"
  define gone where "gone = filter (\<lambda>column. tc_column_id column \<in> ?D) cols"
  have one: "drop_one_column t drp (cols, dropped) = Inr (cols', dropped @ map (\<lambda>column. \<lparr>dc_table_id = t, dc_column = column\<rparr>) gone)"
    using Cons.prems by (auto simp: drop_one_column_def rbind_Inr_iff Let_def column_and_descendant_ids_def
        descendant_loop_exact dropped_ids_def cols'_def gone_def split: if_splits)
  from Cons.prems one have rest: "rfold (drop_one_column t) drops
      (cols', dropped @ map (\<lambda>column. \<lparr>dc_table_id = t, dc_column = column\<rparr>) gone) = Inr (rest, dropped')" by simp
  have roots: "r \<notin> ?D" if "r \<in> ?R" for r
    using drop_roots [OF rest that] by (auto simp: cols'_def)
  have closed: "tc_column_id column \<in> dropped_ids cols (insert (cd_column_id drp) ?R) \<longleftrightarrow>
      tc_column_id column \<in> ?D \<or> tc_column_id column \<in> dropped_ids cols' ?R" if "column \<in> set cols" for column
  proof (cases "tc_column_id column \<in> ?D")
    case False
    then have "(r, tc_column_id column) \<in> (parent_edges cols')\<^sup>* \<longleftrightarrow> (r, tc_column_id column) \<in> (parent_edges cols)\<^sup>*"
      if "r \<in> ?R" for r
      using roots [OF that] filter_closure [of r cols "{cd_column_id drp}" "tc_column_id column"]
      by (simp add: cols'_def dropped_ids_def)
    with False show ?thesis by (auto simp: dropped_ids_def)
  qed (auto simp: dropped_ids_def)
  obtain more where IH: "rest = filter (\<lambda>column. tc_column_id column \<notin> dropped_ids cols' ?R) cols'"
    "dropped' = (dropped @ map (\<lambda>column. \<lparr>dc_table_id = t, dc_column = column\<rparr>) gone) @
       map (\<lambda>column. \<lparr>dc_table_id = t, dc_column = column\<rparr>) more"
    "mset more = mset (filter (\<lambda>column. tc_column_id column \<in> dropped_ids cols' ?R) cols')"
    using Cons.IH [OF rest] by blast
  have "rest = filter (\<lambda>column. tc_column_id column \<notin> dropped_ids cols (insert (cd_column_id drp) ?R)) cols"
  proof -
    define X where "X = dropped_ids cols' ?R"
    have "rest = filter (\<lambda>column. tc_column_id column \<notin> ?D \<and> tc_column_id column \<notin> X) cols"
      unfolding IH(1) X_def [symmetric] by (simp add: cols'_def)
    also have "\<dots> = filter (\<lambda>column. tc_column_id column \<notin> dropped_ids cols (insert (cd_column_id drp) ?R)) cols"
      by (rule filter_cong) (simp_all add: closed X_def)
    finally show ?thesis .
  qed
  moreover have "mset (gone @ more) =
      mset (filter (\<lambda>column. tc_column_id column \<in> dropped_ids cols (insert (cd_column_id drp) ?R)) cols)"
  proof -
    have "mset (filter (\<lambda>column. tc_column_id column \<in> dropped_ids cols (insert (cd_column_id drp) ?R)) cols) =
      filter_mset (\<lambda>column. tc_column_id column \<in> ?D \<or> tc_column_id column \<in> dropped_ids cols' ?R) (mset cols)"
      unfolding mset_filter by (rule filter_mset_cong) (simp_all add: closed)
    also have "\<dots> = mset gone + filter_mset (\<lambda>column. tc_column_id column \<in> dropped_ids cols' ?R) (mset cols')"
      unfolding gone_def cols'_def mset_filter by (rule multiset_eqI) auto
    finally show ?thesis by (simp add: IH(3))
  qed
  ultimately show ?case using IH(2) by (intro conjI exI [of _ "gone @ more"]) simp_all
qed

section \<open>Every edit is one new version of the table\<close>

text \<open>Column ids are unique in a table, and so are the names below each parent, compared without case.\<close>

definition column_key :: "table_column_row \<Rightarrow> column_id option \<times> rust_string" where
  "column_key column = (tc_parent_id column, to_ascii_lowercase (tc_name column))"

definition columns_wf :: "table_column_row list \<Rightarrow> bool" where
  "columns_wf cols \<longleftrightarrow> distinct (map tc_column_id cols) \<and> distinct (map column_key cols)"

lemma columns_wf_filter: "columns_wf cols \<Longrightarrow> columns_wf (filter P cols)"
  by (simp add: columns_wf_def distinct_map_filter)

lemma map_update_same: "f x = f (cs ! i) \<Longrightarrow> map f (cs[i := x]) = map f cs"
  by (metis list_update_id map_update)

lemma columns_wf_same_keys:
  "i < length cs \<Longrightarrow> tc_column_id x = tc_column_id (cs ! i) \<Longrightarrow> column_key x = column_key (cs ! i) \<Longrightarrow>
   columns_wf cs \<Longrightarrow> columns_wf (cs[i := x])"
  by (simp add: columns_wf_def map_update_same)

lemma columns_wf_new_key:
  assumes "i < length cs" "tc_column_id x = tc_column_id (cs ! i)" "columns_wf cs"
    and fresh: "\<And>y. y \<in> set cs \<Longrightarrow> tc_column_id y \<noteq> tc_column_id (cs ! i) \<Longrightarrow> column_key y \<noteq> column_key x"
  shows "columns_wf (cs[i := x])"
proof -
  have "distinct ((map column_key cs)[i := column_key x])"
  proof (rule distinct_list_update)
    show "distinct (map column_key cs)" using assms(3) by (simp add: columns_wf_def)
    show "column_key x \<notin> set (map column_key cs) - {map column_key cs ! i}"
    proof
      assume "column_key x \<in> set (map column_key cs) - {map column_key cs ! i}"
      then obtain y where y: "y \<in> set cs" "column_key y = column_key x" "column_key y \<noteq> column_key (cs ! i)"
        using assms(1) by auto
      then have "y \<noteq> cs ! i" by auto
      with y(1) assms(1,3) have "tc_column_id y \<noteq> tc_column_id (cs ! i)"
        by (auto simp: columns_wf_def distinct_map dest: inj_onD)
      from fresh [OF y(1) this] y(2) show False by simp
    qed
  qed
  with assms(2,3) show ?thesis by (simp add: columns_wf_def map_update_same) (simp add: map_update)
qed

definition edited :: "table_row \<Rightarrow> table_row \<Rightarrow> bool" where
  "edited p q \<longleftrightarrow> tr_table_id q = tr_table_id p \<and> tr_schema_id q = tr_schema_id p \<and> tr_name q = tr_name p \<and>
     tr_uuid q = tr_uuid p \<and> tr_path q = tr_path p \<and> (table_row_ok p \<longrightarrow> table_row_ok q) \<and>
     (columns_wf (tr_columns p) \<longrightarrow> columns_wf (tr_columns q))"

definition one_edit :: "fake_kv \<Rightarrow> catalog_id \<Rightarrow> i64 \<Rightarrow> fake_kv \<Rightarrow> bool" where
  "one_edit kv c now kv' \<longleftrightarrow> kv' = kv \<or> (\<exists>t latest p q. latest_and_current_table kv c t = Inr (latest, p) \<and> edited p q \<and>
     kv' = snd (commit_replaced_table_version kv c now t (sn_sequence latest) p q))"

lemma one_edit_skip [simp]: "one_edit kv c now kv"
  by (simp add: one_edit_def)

lemma one_edit_attempt [intro!]:
  "(\<And>x. r = Inr x \<Longrightarrow> one_edit kv c now (snd (f x))) \<Longrightarrow> one_edit kv c now (snd (attempt kv r f))"
  by (cases r) (auto simp: one_edit_def)

lemma one_edit_commit:
  assumes "latest_and_current_table kv c t = Inr (latest, p)" "edited p q"
  shows "one_edit kv c now (snd (then_return (commit_replaced_table_version kv c now t (sn_sequence latest) p q) x))"
proof -
  have "snd (then_return op x) = snd op" for op by (cases op) (simp add: then_return_def)
  then show ?thesis using assms unfolding one_edit_def by metis
qed

lemma commit_column_version_replaces:
  "commit_column_version kv c now t sq p cols = commit_replaced_table_version kv c now t sq p (p\<lparr>tr_columns := cols\<rparr>)"
  by (simp add: commit_column_version_def commit_replaced_table_version_def)

definition columns_kept_ok :: "table_column_row list \<Rightarrow> table_column_row list \<Rightarrow> bool" where
  "columns_kept_ok cols cols' \<longleftrightarrow> length cols' \<le> length cols \<and> (list_all column_ok cols \<longrightarrow> list_all column_ok cols') \<and>
     (columns_wf cols \<longrightarrow> columns_wf cols')"

lemma edited_columns: "columns_kept_ok (tr_columns p) cols \<Longrightarrow> edited p (p\<lparr>tr_columns := cols\<rparr>)"
  by (auto simp: edited_def columns_kept_ok_def table_row_ok_def)

lemma columns_kept_ok_refl: "columns_kept_ok cols cols"
  by (simp add: columns_kept_ok_def)

lemma columns_kept_ok_update:
  assumes "columns_kept_ok cols cs" "i < length cs" "column_ok (cs ! i) \<longrightarrow> column_ok x" "columns_wf cs \<longrightarrow> columns_wf (cs[i := x])"
  shows "columns_kept_ok cols (cs[i := x])"
  using assms set_update_subset_insert [of cs i x] nth_mem [OF assms(2)]
  by (fastforce simp: columns_kept_ok_def list_all_iff)

text \<open>A batch that succeeds keeps what the first component of its accumulator promises.\<close>

lemma rfold_fst_invariant:
  assumes "rfold f xs (a, b) = Inr (a', b')" "P a" and "\<And>x a b a' b'. x \<in> set xs \<Longrightarrow> P a \<Longrightarrow> f x (a, b) = Inr (a', b') \<Longrightarrow> P a'"
  shows "P a'"
  using rfold_invariant [OF assms(1), of "\<lambda>s. P (fst s)"] assms(2,3) by fastforce

lemma rename_columns_edit:
  assumes "\<forall>r \<in> set renames. string_ok (tc_name (cr_column r))"
  shows "one_edit kv c now (snd (commit_rename_table_columns kv c now renames))"
proof -
  have "columns_kept_ok cols cs'"
    if "r \<in> set renames" "columns_kept_ok cols cs" "rename_one_column t r (cs, b) = Inr (cs', b')" for t r cols cs cs' b b'
    using that assms
    by (auto simp: rename_one_column_def Let_def rbind_Inr_iff column_ok_def reject_column_name_conflict_def column_key_def
        eq_ignore_ascii_case_def dest: position_Some
        intro!: columns_kept_ok_update columns_wf_new_key split: option.splits if_splits)
  then have "columns_kept_ok cols cs'" if "rfold (rename_one_column t) renames (cols, []) = Inr (cs', b')" for t cols cs' b'
    using rfold_fst_invariant [where P = "columns_kept_ok cols", OF that columns_kept_ok_refl] by blast
  then show ?thesis
    by (auto simp: commit_rename_table_columns_def commit_column_version_replaces intro!: one_edit_commit edited_columns)
qed

lemma drop_columns_edit: "one_edit kv c now (snd (commit_drop_table_columns kv c now drops))"
proof -
  have "columns_kept_ok cols cs'" if "rfold (drop_one_column t) drops (cols, []) = Inr (cs', b')" for t cols cs' b'
    using drop_fold [OF that] by (auto simp: columns_kept_ok_def list_all_iff columns_wf_filter)
  then show ?thesis
    by (auto simp: commit_drop_table_columns_def commit_column_version_replaces intro!: one_edit_commit edited_columns)
qed

lemma column_types_edit:
  assumes "\<forall>r \<in> set changes. column_ok (ct_column r)"
  shows "one_edit kv c now (snd (commit_change_table_column_types kv c now changes))"
proof -
  have "columns_kept_ok cols cs'"
    if "r \<in> set changes" "columns_kept_ok cols cs" "retype_one_column t r (cs, b) = Inr (cs', b')" for t r cols cs cs' b b'
    using that assms by (auto simp: retype_one_column_def Let_def rbind_Inr_iff column_ok_def type_change_replacement_def column_key_def
        dest: position_Some intro!: columns_kept_ok_update columns_wf_same_keys split: option.splits)
  then have "columns_kept_ok cols cs'" if "rfold (retype_one_column t) changes (cols, []) = Inr (cs', b')" for t cols cs' b'
    using rfold_fst_invariant [where P = "columns_kept_ok cols", OF that columns_kept_ok_refl] by blast
  then show ?thesis
    by (auto simp: commit_change_table_column_types_def commit_column_version_replaces intro!: one_edit_commit edited_columns)
qed


lemma column_defaults_edit:
  assumes "\<forall>r \<in> set changes. column_ok (cdf_column r)"
  shows "one_edit kv c now (snd (commit_change_table_column_defaults kv c now changes))"
proof -
  let ?step = "\<lambda>t change (columns, changed). rbind (replace_default columns change) (\<lambda>(columns', existing).
    Inr (columns', changed @ [\<lparr>ccd_table_id = t, ccd_previous = existing, ccd_changed = cdf_column change\<rparr>]))"
  have "columns_kept_ok cols cs'"
    if "r \<in> set changes" "columns_kept_ok cols cs" "?step t r (cs, b) = Inr (cs', b')" for t r cols cs cs' b b'
    using that assms by (auto simp: replace_default_def column_key_def Let_def rbind_Inr_iff column_ok_def dest: position_Some
        intro!: columns_kept_ok_update columns_wf_same_keys split: option.splits)
  then have "columns_kept_ok cols cs'" if "rfold (?step t) changes (cols, []) = Inr (cs', b')" for t cols cs' b'
    using rfold_fst_invariant [where P = "columns_kept_ok cols", OF that columns_kept_ok_refl] by blast
  then show ?thesis
    by (auto simp: commit_change_table_column_defaults_def commit_column_version_replaces
        intro!: one_edit_commit edited_columns)
qed

lemma edited_trans: "edited p q \<Longrightarrow> edited q r \<Longrightarrow> edited p r"
  by (simp add: edited_def)

lemma comments_edit:
  assumes "\<forall>r \<in> set table_comments. pred_option string_ok (tcc_comment r)"
    "\<forall>r \<in> set column_comments. pred_option string_ok (ccc_comment r)"
  shows "one_edit kv c now (snd (commit_change_table_comments kv c now table_comments column_comments))"
proof -
  have tab: "edited p (fst (apply_table_comments p table_comments))" for p
    using assms(1) by (auto simp: apply_table_comments_def edited_def table_row_ok_def split: list.splits)
  have col: "edited p q" if "apply_column_comments p column_comments = Inr q" for p q
  proof (rule rfold_invariant [where P = "edited p", OF that [unfolded apply_column_comments_def]])
    show "edited p p" by (simp add: edited_def)
  next
    fix x s s'
    assume x: "x \<in> set column_comments" "edited p s"
      "(case position (\<lambda>column. tc_column_id column = ccc_column_id x) (tr_columns s) of
          None \<Rightarrow> Inl (NotFound ''column'')
        | Some i \<Rightarrow> Inr (s\<lparr>tr_columns := (tr_columns s)[i := (tr_columns s ! i)\<lparr>tc_comment := ccc_comment x\<rparr>]\<rparr>)) = Inr s'"
    then obtain i where i: "i < length (tr_columns s)"
      "s' = s\<lparr>tr_columns := (tr_columns s)[i := (tr_columns s ! i)\<lparr>tc_comment := ccc_comment x\<rparr>]\<rparr>"
      by (auto dest: position_Some split: option.splits)
    have "columns_kept_ok (tr_columns s) ((tr_columns s)[i := (tr_columns s ! i)\<lparr>tc_comment := ccc_comment x\<rparr>])"
      using assms(2) x(1) i(1) by (auto simp: column_ok_def column_key_def intro!: columns_kept_ok_update columns_kept_ok_refl columns_wf_same_keys)
    from edited_columns [OF this] x(2) i(2) show "edited p s'" by (auto intro: edited_trans)
  qed
  show ?thesis
    unfolding commit_change_table_comments_def
  proof (intro one_edit_attempt)
    fix batch
    show "one_edit kv c now (snd (case batch of None \<Rightarrow> (Inr None, kv) | Some table_id \<Rightarrow>
      attempt kv (latest_and_current_table kv c table_id) (\<lambda>(latest, previous).
             let (nxt, table_comment) = apply_table_comments previous table_comments
             in attempt kv (apply_column_comments nxt column_comments) (\<lambda>nxt'.
               then_return
                 (commit_replaced_table_version kv c now table_id (sn_sequence latest) previous nxt')
                 (Some \<lparr>ctc_table_id = table_id, ctc_table_comment = table_comment,
                    ctc_column_comments = column_comments\<rparr>)))))"
      using tab col by (auto simp: Let_def split: option.splits prod.splits intro!: one_edit_commit intro: edited_trans)
        (metis edited_trans fst_conv)
  qed
qed

lemma sort_edit:
  "pred_option sort_ok (tsc_sort change) \<Longrightarrow> one_edit kv c now (snd (commit_change_table_sort kv c now change))"
  by (auto simp: commit_change_table_sort_def edited_def table_row_ok_def intro!: one_edit_commit)

lemma partition_edit:
  "pred_option partition_ok (tpc_partition change) \<Longrightarrow>
   one_edit kv c now (snd (commit_change_table_partition kv c now change None))"
  by (auto simp: commit_change_table_partition_def edited_def table_row_ok_def intro!: one_edit_commit)

lemma reject_duplicate_columns_wf:
  assumes "reject_duplicate_columns p columns = Inr u" "columns_wf (tr_columns p)"
  shows "columns_wf (tr_columns p @ columns)"
proof -
  let ?f = "\<lambda>column (column_ids, column_names).
       if tc_column_id column \<in> column_ids then Inl (InvalidMutation ''column id already exists on table'')
       else if (tc_parent_id column, to_ascii_lowercase (tc_name column)) \<in> column_names
       then Inl (InvalidMutation ''column already exists on table'')
       else Inr (insert (tc_column_id column) column_ids,
                 insert (tc_parent_id column, to_ascii_lowercase (tc_name column)) column_names)"
  have "columns_wf (cs @ columns)"
    if "rfold ?f columns (set (map tc_column_id cs), set (map column_key cs)) = Inr x" "columns_wf cs" for cs x
    using that
  proof (induction columns arbitrary: cs)
    case (Cons column columns)
    from Cons.prems(1) have new: "tc_column_id column \<notin> tc_column_id ` set cs" "column_key column \<notin> column_key ` set cs"
      and rest: "rfold ?f columns (set (map tc_column_id (cs @ [column])), set (map column_key (cs @ [column]))) = Inr x"
      by (auto simp: column_key_def split: if_splits)
    from new Cons.prems(2) have "columns_wf (cs @ [column])" by (auto simp: columns_wf_def)
    from Cons.IH [OF rest this] show ?case by simp
  qed simp
  from this [of "tr_columns p"] assms show ?thesis
    by (auto simp: reject_duplicate_columns_def rbind_Inr_iff column_key_def [abs_def])
qed

lemma append_columns_edit:
  assumes "list_all column_ok columns"
    "\<And>p. load_current_table_row kv c t = Inr (Some p) \<Longrightarrow> length (tr_columns p) + length columns < 2 ^ 32"
  shows "one_edit kv c now (snd (commit_append_table_columns kv c now t columns))"
proof (cases "columns = [] \<or> (\<exists>e. latest_snapshot kv c = Inl e) \<or> latest_snapshot kv c = Inr None")
  case True
  then show ?thesis by (auto simp: commit_append_table_columns_def)
next
  case False
  then obtain s where s: "columns \<noteq> []" "latest_snapshot kv c = Inr (Some s)" by (metis not_Some_eq obj_sumE)
  show ?thesis
  proof (cases "load_current_table_row kv c t")
    case (Inr row)
    show ?thesis
    proof (cases row)
      case row: (Some p)
      let ?q = "p\<lparr>tr_columns := tr_columns p @ columns\<rparr>"
      have cur: "latest_and_current_table kv c t = Inr (s, p)"
        using s(2) Inr row by (simp add: latest_and_current_table_def)
      have "edited p ?q" if "reject_duplicate_columns p columns = Inr u" for u
        using assms Inr row reject_duplicate_columns_wf [OF that] by (auto simp: edited_def table_row_ok_def)
      moreover have "snd (let (d, kv1) = op in attempt kv1 d (\<lambda>_. (load_current_table kv1 c t, kv1))) = snd op" for op :: "unit kv_op"
        by (cases op; cases "fst op") auto
      ultimately have "one_edit kv c now (snd (let (done, kv1) = commit_table_replacements kv c now (sn_sequence s)
            [\<lparr>rep_table_id = t, rep_previous = p, rep_next = ?q\<rparr>]
          in attempt kv1 done (\<lambda>_. (load_current_table kv1 c t, kv1))))" if "reject_duplicate_columns p columns = Inr u" for u
        using cur that unfolding one_edit_def commit_replaced_table_version_def by metis
      then show ?thesis using s Inr row
        by (cases "reject_duplicate_columns p columns") (simp_all add: commit_append_table_columns_def Let_def)
    qed (use s Inr in \<open>simp add: commit_append_table_columns_def\<close>)
  qed (use s in \<open>simp add: commit_append_table_columns_def\<close>)
qed

section \<open>What a commit keeps of older snapshots\<close>

abbreviation table_without_end :: "table_row \<Rightarrow> table_row" where
  "table_without_end r \<equiv> r\<lparr>tr_validity := (tr_validity r)\<lparr>end_order := None\<rparr>\<rparr>"

definition visible_tables :: "table_row set \<Rightarrow> catalog_order_id \<Rightarrow> table_row set" where
  "visible_tables T ord = table_without_end ` {r \<in> T. is_visible_at (tr_validity r) ord}"

lemma Collect_insert2: "\<not> P a \<Longrightarrow> {r \<in> insert a (insert b A). P r} = {r \<in> A. P r} \<union> (if P b then {b} else {})"
  by auto

lemma visible_tables_replace:
  assumes "rep_previous rep \<in> T" "is_open (rep_previous rep)" "o1 < ord"
  shows "visible_tables (replace_in ord rep T) o1 = visible_tables T o1"
proof -
  let ?p = "rep_previous rep"
  have new: "\<not> is_visible_at (tr_validity (opened ord (rep_next rep))) o1"
    using assms(3) by (auto simp: is_visible_at_def validity_new_sel)
  have old: "is_visible_at (tr_validity (ended ord ?p)) o1 \<longleftrightarrow> is_visible_at (tr_validity ?p) o1"
    using assms(2,3) by (auto simp: is_visible_at_def)
  have same: "table_without_end (ended ord ?p) = table_without_end ?p" by simp
  have "{r \<in> replace_in ord rep T. is_visible_at (tr_validity r) o1} =
      {r \<in> T - {?p}. is_visible_at (tr_validity r) o1} \<union> (if is_visible_at (tr_validity ?p) o1 then {ended ord ?p} else {})"
    unfolding replace_in_def using Collect_insert2 [where P = "\<lambda>r. is_visible_at (tr_validity r) o1", OF new] by (simp only: old)
  moreover have "{r \<in> T. is_visible_at (tr_validity r) o1} =
      {r \<in> T - {?p}. is_visible_at (tr_validity r) o1} \<union> (if is_visible_at (tr_validity ?p) o1 then {?p} else {})"
    using assms(1) by auto
  ultimately show ?thesis using same by (simp add: visible_tables_def image_Un)
qed

lemma replaceable_rest:
  assumes "replaceable T (rep # reps)"
  shows "replaceable (replace_in ord rep T) reps"
proof -
  have "rep_previous rep \<noteq> rep_previous x" if "x \<in> set reps" for x
  proof
    assume "rep_previous rep = rep_previous x"
    then have "rep_table_id x = rep_table_id rep" using assms that by (auto simp: replaceable_def)
    then have "rep_table_id rep \<in> rep_table_id ` set reps" using that by (metis imageI)
    then show False using assms by (simp add: replaceable_def)
  qed
  with assms show ?thesis by (auto simp: replaceable_def replace_in_def)
qed

lemma visible_tables_replaced:
  "replaceable T reps \<Longrightarrow> o1 < ord \<Longrightarrow> visible_tables (fold (replace_in ord) reps T) o1 = visible_tables T o1"
proof (induction reps arbitrary: T)
  case (Cons rep reps)
  have "visible_tables (replace_in ord rep T) o1 = visible_tables T o1"
    using Cons.prems by (intro visible_tables_replace) (simp_all add: replaceable_def)
  with Cons.IH [OF replaceable_rest [OF Cons.prems(1)] Cons.prems(2)] show ?case by simp
qed simp

lemma visible_tables_create:
  "o1 < ord \<Longrightarrow> visible_tables (insert (opened ord table) T) o1 = visible_tables T o1"
proof -
  assume "o1 < ord"
  then have "\<not> is_visible_at (tr_validity (opened ord table)) o1" by (auto simp: is_visible_at_def validity_new_sel)
  then have "{r \<in> insert (opened ord table) T. is_visible_at (tr_validity r) o1} = {r \<in> T. is_visible_at (tr_validity r) o1}"
    by auto
  then show ?thesis by (simp add: visible_tables_def)
qed

lemma listing_from_visible_tables:
  assumes "lists_visible T o1 xs" "lists_visible T' o1 ys" "visible_tables T' o1 = visible_tables T o1"
  shows "map table_without_end ys = map table_without_end xs"
proof -
  let ?ys = "map table_without_end ys" and ?xs = "map table_without_end xs"
  have sets: "set ?ys = set ?xs" using assms by (simp add: lists_visible_def visible_tables_def)
  have sorted: "sorted_wrt (<) (map tr_table_id ?ys)" "sorted_wrt (<) (map tr_table_id ?xs)"
    using assms(1,2) by (simp_all add: lists_visible_def sorted_wrt_map)
  have "set (map tr_table_id ?ys) = set (map tr_table_id ?xs)" using sets by (simp only: set_map)
  with sorted have "map tr_table_id ?ys = map tr_table_id ?xs" by (intro strict_sorted_equal) simp_all
  moreover have "inj_on tr_table_id (set ?ys \<union> set ?xs)"
    using sorted(2) strict_sorted_iff [of "map tr_table_id ?xs"] unfolding sets distinct_map [of _ ?xs] by simp
  ultimately show ?thesis by (rule inj_on_map_eq_map [THEN iffD1, rotated])
qed

section \<open>The transition system\<close>

definition table_inv ::
    "fake_kv \<Rightarrow> catalog_id \<Rightarrow> snapshot_row list \<Rightarrow> snapshot_row list \<Rightarrow> table_row set \<Rightarrow> (u128 \<times> u64) list \<Rightarrow> bool" where
  "table_inv kv c H L T vs \<longleftrightarrow> table_catalog kv c H L T vs \<and> clock_ahead kv H \<and> names_unique T \<and>
     (\<forall>r \<in> T. columns_wf (tr_columns r))"

inductive table_step :: "catalog_id \<Rightarrow> fake_kv \<Rightarrow> fake_kv \<Rightarrow> bool" for c where
  create: "kv' = snd (commit_create_table_row kv c now table) \<Longrightarrow> table_row_ok table \<Longrightarrow> columns_wf (tr_columns table) \<Longrightarrow>
     counters_ok kv' c \<Longrightarrow> table_step c kv kv'"
| rename: "kv' = snd (commit_rename_tables kv c now renames) \<or>
     kv' = snd (commit_rename_tables_with_conflict_check kv c now b e renames) \<Longrightarrow>
     \<forall>r \<in> set renames. string_ok (rename_new_name r) \<Longrightarrow> counters_ok kv' c \<Longrightarrow> table_step c kv kv'"
| append_columns: "kv' = snd (commit_append_table_columns kv c now t columns) \<or>
     kv' = snd (commit_append_table_columns_with_conflict_check kv c now t b e columns) \<Longrightarrow> list_all column_ok columns \<Longrightarrow>
     \<forall>p. load_current_table_row kv c t = Inr (Some p) \<longrightarrow> length (tr_columns p) + length columns < 2 ^ 32 \<Longrightarrow>
     counters_ok kv' c \<Longrightarrow> table_step c kv kv'"
| rename_columns: "kv' = snd (commit_rename_table_columns kv c now column_renames) \<or>
     kv' = snd (commit_rename_table_columns_with_conflict_check kv c now b e column_renames) \<Longrightarrow>
     \<forall>r \<in> set column_renames. string_ok (tc_name (cr_column r)) \<Longrightarrow> counters_ok kv' c \<Longrightarrow> table_step c kv kv'"
| drop_columns: "kv' = snd (commit_drop_table_columns kv c now drops) \<or>
     kv' = snd (commit_drop_table_columns_with_conflict_check kv c now b e drops) \<Longrightarrow> counters_ok kv' c \<Longrightarrow>
     table_step c kv kv'"
| column_types: "kv' = snd (commit_change_table_column_types kv c now types) \<or>
     kv' = snd (commit_change_table_column_types_with_conflict_check kv c now b e types) \<Longrightarrow>
     \<forall>r \<in> set types. column_ok (ct_column r) \<Longrightarrow> counters_ok kv' c \<Longrightarrow> table_step c kv kv'"
| column_defaults: "kv' = snd (commit_change_table_column_defaults kv c now defaults) \<or>
     kv' = snd (commit_change_table_column_defaults_with_conflict_check kv c now b e defaults) \<Longrightarrow>
     \<forall>r \<in> set defaults. column_ok (cdf_column r) \<Longrightarrow> counters_ok kv' c \<Longrightarrow> table_step c kv kv'"
| comments: "kv' = snd (commit_change_table_comments kv c now table_comments column_comments) \<or>
     kv' = snd (commit_change_table_comments_with_conflict_check kv c now b e table_comments column_comments) \<Longrightarrow>
     \<forall>r \<in> set table_comments. pred_option string_ok (tcc_comment r) \<Longrightarrow>
     \<forall>r \<in> set column_comments. pred_option string_ok (ccc_comment r) \<Longrightarrow> counters_ok kv' c \<Longrightarrow> table_step c kv kv'"
| partitioning: "kv' = snd (commit_change_table_partition kv c now partition_change None) \<or>
     kv' = snd (commit_change_table_partition_with_conflict_check kv c now b e partition_change None) \<Longrightarrow>
     pred_option partition_ok (tpc_partition partition_change) \<Longrightarrow> counters_ok kv' c \<Longrightarrow> table_step c kv kv'"
| sort_order: "kv' = snd (commit_change_table_sort kv c now sort_change) \<or>
     kv' = snd (commit_change_table_sort_with_conflict_check kv c now b e sort_change) \<Longrightarrow>
     pred_option sort_ok (tsc_sort sort_change) \<Longrightarrow> counters_ok kv' c \<Longrightarrow> table_step c kv kv'"

text \<open>A step changes nothing, or commits the next snapshot and adds to the stored versions.\<close>

definition table_extends ::
    "fake_kv \<Rightarrow> catalog_id \<Rightarrow> snapshot_row list \<Rightarrow> snapshot_row list \<Rightarrow> table_row set \<Rightarrow> fake_kv \<Rightarrow> bool" where
  "table_extends kv c H L T kv' \<longleftrightarrow> kv' = kv \<or> (\<exists>now T' vs'.
     table_catalog kv' c (H @ [next_snapshot now kv H]) (L @ [next_snapshot now kv H]) T' vs' \<and>
     next_order kv' = next_order kv + 1 \<and> others_kept c kv kv' \<and> (names_unique T \<longrightarrow> names_unique T') \<and>
     ((\<forall>r \<in> T. columns_wf (tr_columns r)) \<longrightarrow> (\<forall>r \<in> T'. columns_wf (tr_columns r))) \<and>
     (\<forall>o1. o1 < next_commit_order kv \<longrightarrow> visible_tables T' o1 = visible_tables T o1))"

lemma table_extendsI:
  assumes "table_catalog kv' c (H @ [next_snapshot now kv H]) (L @ [next_snapshot now kv H]) T' vs'"
    "next_order kv' = next_order kv + 1" "others_kept c kv kv'" "names_unique T \<Longrightarrow> names_unique T'"
    "\<forall>r \<in> T. columns_wf (tr_columns r) \<Longrightarrow> \<forall>r \<in> T'. columns_wf (tr_columns r)"
    "\<And>o1. o1 < next_commit_order kv \<Longrightarrow> visible_tables T' o1 = visible_tables T o1"
  shows "table_extends kv c H L T kv'"
  unfolding table_extends_def using assms by blast

lemma create_extends:
  assumes "table_catalog kv c H L T vs" "clock_ahead kv H" "table_row_ok table" "columns_wf (tr_columns table)"
  shows "table_extends kv c H L T (snd (commit_create_table_row kv c now table))"
proof (cases "create_conflict T table")
  case True
  with commit_create_table_row_outcome(1) [OF assms(1-3) True, of now] show ?thesis by (auto simp: table_extends_def)
next
  case False
  with commit_create_table_row_outcome(2) [OF assms(1-3) False, of now] obtain kv' where
    "snd (commit_create_table_row kv c now table) = kv'" "next_order kv' = next_order kv + 1"
    "table_catalog kv' c (H @ [next_snapshot now kv H]) (L @ [next_snapshot now kv H])
       (insert (opened (next_commit_order kv) table) T) (next_version kv vs)" "others_kept c kv kv'" by auto
  then show ?thesis
    using names_unique_create [OF _ False] assms(4) visible_tables_create by (auto intro!: table_extendsI)
qed

lemma replaced_columns:
  assumes "\<forall>r \<in> T. columns_wf (tr_columns r)" "\<forall>rep \<in> set reps. columns_wf (tr_columns (rep_next rep))" "replaceable T reps"
  shows "\<forall>r \<in> fold (replace_in ord) reps T. columns_wf (tr_columns r)"
  using assms
proof (induction reps arbitrary: T)
  case (Cons rep reps)
  have "\<forall>r \<in> replace_in ord rep T. columns_wf (tr_columns r)"
    using Cons.prems by (auto simp: replace_in_def replaceable_def)
  with Cons.IH [OF this _ replaceable_rest [OF Cons.prems(3)]] Cons.prems(2) show ?case by simp
qed simp

lemma renamed_columns:
  assumes "commit_rename_tables kv c now renames = (Inr ren, kv')" "r \<in> set ren"
  shows "tr_columns (rn_renamed r) = tr_columns (rn_previous r)"
proof -
  have "\<forall>r \<in> set (fst acc'). tr_columns (rn_renamed r) = tr_columns (rn_previous r)"
    if "rfold (rename_one_table current renames) rs ([], []) = Inr acc'" for current rs acc'
    by (rule rfold_invariant [where P = "\<lambda>acc. \<forall>r \<in> set (fst acc). tr_columns (rn_renamed r) = tr_columns (rn_previous r)", OF that])
       (auto simp: rename_one_table_def rbind_Inr_iff Let_def split: option.splits)
  moreover from assms obtain current reps where "rfold (rename_one_table current renames) renames ([], []) = Inr (ren, reps)"
    by (auto simp: commit_rename_tables_def attempt_Inr_iff Let_def split: if_splits prod.splits option.splits)
       (metis surj_pair)
  ultimately show ?thesis using assms(2) by fastforce
qed

lemma rename_extends:
  assumes "table_catalog kv c H L T vs" "clock_ahead kv H" "\<forall>r \<in> set renames. string_ok (rename_new_name r)"
  shows "table_extends kv c H L T (snd (commit_rename_tables kv c now renames))"
proof -
  obtain res kv' where res: "commit_rename_tables kv c now renames = (res, kv')" by force
  show ?thesis
  proof (cases "kv' = kv")
    case False
    from commit_rename_tables_outcome [OF assms res] False obtain ren reps vs' where
      r: "res = Inr ren" "reps = map replacement_of ren" "replaceable T reps"
      "table_catalog kv' c (H @ [next_snapshot now kv H]) (L @ [next_snapshot now kv H])
         (fold (replace_in (next_commit_order kv)) reps T) vs'" "next_order kv' = next_order kv + 1"
      "others_kept c kv kv'" "names_unique T \<longrightarrow> names_unique (fold (replace_in (next_commit_order kv)) reps T)" by blast
    have "\<forall>rep \<in> set reps. columns_wf (tr_columns (rep_next rep))" if "\<forall>r \<in> T. columns_wf (tr_columns r)"
      using that r(3) renamed_columns [OF res [unfolded r(1)]] by (auto simp: r(2) replaceable_def)
    with replaced_columns [OF _ _ r(3)] have
      "\<forall>r \<in> fold (replace_in (next_commit_order kv)) reps T. columns_wf (tr_columns r)" if "\<forall>r \<in> T. columns_wf (tr_columns r)"
      using that by blast
    with table_extendsI [OF r(4-6)] r(7) visible_tables_replaced [OF r(3)] show ?thesis by (simp add: res)
  qed (simp add: res table_extends_def)
qed

lemma edit_extends:
  assumes "table_catalog kv c H L T vs" "clock_ahead kv H" "one_edit kv c now kv'"
  shows "table_extends kv c H L T kv'"
proof (cases "kv' = kv")
  case False
  with assms(3) obtain t s p q where e: "latest_and_current_table kv c t = Inr (s, p)" "edited p q"
    "kv' = snd (commit_replaced_table_version kv c now t (sn_sequence s) p q)" by (auto simp: one_edit_def)
  note A = table_catalogD [OF assms(1)]
  have latest: "latest_snapshot kv c = Inr (if H = [] then None else Some (last H))"
    using A(2,3) by (rule latest_snapshot_reads)
  from e(1) have s: "H \<noteq> []" "s = last H" "load_current_table_row kv c t = Inr (Some p)"
    by (auto simp: latest_and_current_table_def latest rbind_Inr_iff split: if_splits option.splits)
  have p: "p \<in> T \<and> is_open p \<and> tr_table_id p = t"
    using load_current_table_row_reads [OF A(4)] s(3) by (cases "\<exists>x \<in> T. is_open x \<and> tr_table_id x = t") force+
  have ok: "table_row_ok p" using p A(4) by (auto simp: tables_are_def table_versions.holds_def)
  let ?reps = "[\<lparr>rep_table_id = t, rep_previous = p, rep_next = q\<rparr>]"
  have rep: "replaceable T ?reps" using p ok e(2) by (simp add: replaceable_def edited_def)
  from commit_table_replacements_outcome [OF assms(1,2) s(1) rep, of now] e(3) s(2)
  have out: "next_order kv' = next_order kv + 1"
    "\<exists>vs'. table_catalog kv' c (H @ [next_snapshot now kv H]) (L @ [next_snapshot now kv H])
      (fold (replace_in (next_commit_order kv)) ?reps T) vs'" "others_kept c kv kv'"
    by (auto simp: commit_replaced_table_version_def)
  have "names_unique (fold (replace_in (next_commit_order kv)) ?reps T)" if "names_unique T"
    using that p e(2) by (auto simp: names_unique_def replace_in_def edited_def)
  moreover have "\<forall>r \<in> fold (replace_in (next_commit_order kv)) ?reps T. columns_wf (tr_columns r)"
    if "\<forall>r \<in> T. columns_wf (tr_columns r)"
    using replaced_columns [OF that _ rep] that p e(2) by (simp add: edited_def)
  ultimately show ?thesis using out visible_tables_replaced [OF rep] by (blast intro: table_extendsI)
qed (simp add: table_extends_def)

end
