(* ===== verification/Cat_Table_History.thy ===== *)
theory Cat_Table_History
  imports Cat_Table_Steps
begin

text \<open>
  What a catalog of tables guarantees over its whole life: the invariant holds in every reachable store, names and
  columns stay unique, listings at an order are exact and never change afterwards, the ways of listing agree, and the
  conflict check decides what it says.
\<close>

section \<open>Reachable catalogs\<close>

lemma step_extends:
  assumes "table_step c kv kv'" "table_catalog kv c H L T vs" "clock_ahead kv H"
  shows "table_extends kv c H L T kv' \<and> counters_ok kv' c"
  using assms(1)
proof cases
  case (create now table)
  with create_extends [OF assms(2,3)] show ?thesis by blast
next
  case (rename now renames b e)
  note ext = rename_extends [OF assms(2,3) rename(2), of now]
  moreover have "table_extends kv c H L T (snd (commit_rename_tables_with_conflict_check kv c now b e renames))"
    using ext unfolding commit_rename_tables_with_conflict_check_def
    by (cases "rfold (\<lambda>r _. reject_table_conflicts_since_base kv c (rename_table_id r) b e) renames ()")
       (simp_all add: table_extends_def)
  ultimately show ?thesis using rename(1,3) by blast
next
  case (append_columns now t columns b e)
  then have "one_edit kv c now kv'"
    using append_columns_edit [OF append_columns(2)]
    by (auto simp: commit_append_table_columns_with_conflict_check_def)
  with edit_extends [OF assms(2,3)] append_columns show ?thesis by blast
next
  case (rename_columns now column_renames b e)
  then have "one_edit kv c now kv'"
    using rename_columns_edit by (auto simp: commit_rename_table_columns_with_conflict_check_def)
  with edit_extends [OF assms(2,3)] rename_columns show ?thesis by blast
next
  case (drop_columns now drops b e)
  then have "one_edit kv c now kv'"
    using drop_columns_edit by (auto simp: commit_drop_table_columns_with_conflict_check_def)
  with edit_extends [OF assms(2,3)] drop_columns show ?thesis by blast
next
  case (column_types now types b e)
  then have "one_edit kv c now kv'"
    using column_types_edit by (auto simp: commit_change_table_column_types_with_conflict_check_def)
  with edit_extends [OF assms(2,3)] column_types show ?thesis by blast
next
  case (column_defaults now defaults b e)
  then have "one_edit kv c now kv'"
    using column_defaults_edit by (auto simp: commit_change_table_column_defaults_with_conflict_check_def)
  with edit_extends [OF assms(2,3)] column_defaults show ?thesis by blast
next
  case (comments now table_comments column_comments b e)
  then have "one_edit kv c now kv'"
    using comments_edit [OF comments(2,3)] by (auto simp: commit_change_table_comments_with_conflict_check_def)
  with edit_extends [OF assms(2,3)] comments show ?thesis by blast
next
  case (partitioning now change b e)
  then have "one_edit kv c now kv'"
    using partition_edit by (auto simp: commit_change_table_partition_with_conflict_check_def)
  with edit_extends [OF assms(2,3)] partitioning show ?thesis by blast
next
  case (sort_order now change b e)
  then have "one_edit kv c now kv'"
    using sort_edit by (auto simp: commit_change_table_sort_with_conflict_check_def)
  with edit_extends [OF assms(2,3)] sort_order show ?thesis by blast
qed

lemma clock_after_commit:
  assumes "table_catalog kv c H L T vs" "clock_ahead kv H" "next_order kv' = next_order kv + 1"
    "table_catalog kv' c (H @ [next_snapshot now kv H]) L' T' vs'" "counters_ok kv' c"
  shows "clock_ahead kv' (H @ [next_snapshot now kv H])"
proof -
  note A = table_catalogD [OF assms(1)] and B = table_catalogD [OF assms(4)]
  have latest: "latest_snapshot kv' c = Inr (Some (next_snapshot now kv H))"
    using latest_snapshot_reads [OF B(2,3)] by simp
  have up: "uuid_v7 (next_order kv) \<le> uuid_v7 (next_order kv + 1)"
    using assms(2) by (simp add: clock_ahead_def order_le_iff saturating_Suc less_imp_le)
  have "sn_order s \<le> uuid_v7 (next_order kv + 1)" if "s \<in> set H" for s
    using assms(2) that up by (meson clock_ahead_def order_trans)
  then show ?thesis
    using assms(5) latest next_snapshot_follows(3) [OF A(3) assms(2), of now]
    by (auto simp: clock_ahead_def counters_ok_def assms(3))
qed

inductive table_reachable :: "catalog_id \<Rightarrow> fake_kv \<Rightarrow> bool" for c where
  start: "table_reachable c fake_new"
| commit: "table_reachable c kv \<Longrightarrow> table_step c kv kv' \<Longrightarrow> table_reachable c kv'"

inductive table_history :: "catalog_id \<Rightarrow> catalog_order_id \<Rightarrow> fake_kv \<Rightarrow> fake_kv \<Rightarrow> bool" for c o1 kv where
  none: "table_history c o1 kv kv"
| step: "table_history c o1 kv kv1 \<Longrightarrow> table_step c kv1 kv2 \<Longrightarrow> o1 < next_commit_order kv1 \<Longrightarrow> table_history c o1 kv kv2"

lemma table_inv_new: "table_inv fake_new c [] [] {} []"
proof -
  have "fake_get fake_new = Map.empty" by (simp add: fake_new_def fake_get_def [abs_def])
  then show ?thesis
    using file_inv_new [of c]
    by (simp add: table_inv_def table_catalog_def file_inv_def catalog_is_def names_unique_def tables_are_empty
        schema_versions_are_empty versions_wf_def)
qed

lemma step_inv:
  assumes "table_step c kv kv'" "table_inv kv c H L T vs"
  shows "\<exists>H' L' T' vs'. table_inv kv' c H' L' T' vs' \<and> (kv' = kv \<and> T' = T \<or>
    (\<forall>o1. o1 < next_commit_order kv \<longrightarrow> visible_tables T' o1 = visible_tables T o1))"
proof (cases "kv' = kv")
  case False
  from assms(2) have I: "table_catalog kv c H L T vs" "clock_ahead kv H" by (simp_all add: table_inv_def)
  from step_extends [OF assms(1) I] False obtain now T' vs' where
    "table_catalog kv' c (H @ [next_snapshot now kv H]) (L @ [next_snapshot now kv H]) T' vs'"
    "next_order kv' = next_order kv + 1" "names_unique T \<longrightarrow> names_unique T'"
    "(\<forall>r \<in> T. columns_wf (tr_columns r)) \<longrightarrow> (\<forall>r \<in> T'. columns_wf (tr_columns r))" "counters_ok kv' c"
    "\<forall>o1. o1 < next_commit_order kv \<longrightarrow> visible_tables T' o1 = visible_tables T o1"
    unfolding table_extends_def by blast
  with assms(2) clock_after_commit [OF I] show ?thesis unfolding table_inv_def by blast
qed (use assms(2) in blast)

lemma table_reachable_inv: "table_reachable c kv \<Longrightarrow> \<exists>H L T vs. table_inv kv c H L T vs"
  by (induction rule: table_reachable.induct) (use table_inv_new step_inv in blast)+

lemma history_keeps:
  assumes "table_history c o1 kv kv'" "table_inv kv c H L T vs"
  shows "\<exists>H' L' T' vs'. table_inv kv' c H' L' T' vs' \<and> visible_tables T' o1 = visible_tables T o1"
  using assms(1)
proof (induction rule: table_history.induct)
  case (step kv1 kv2)
  then obtain H1 L1 T1 vs1 where 1: "table_inv kv1 c H1 L1 T1 vs1" "visible_tables T1 o1 = visible_tables T o1"
    using assms(2) by blast
  from step_inv [OF step.hyps(2) 1(1)] 1(2) step.hyps(3) show ?case by (metis (no_types, lifting))
qed (use assms(2) in blast)

section \<open>An example\<close>

abbreviation example_opened :: table_row where
  "example_opened \<equiv> opened (uuid_v7 1) example_table"

lemma example_table_ok: "table_row_ok example_table" "columns_wf (tr_columns example_table)"
  by (simp_all add: table_row_ok_def example_table_def table_row_with_catalog_metadata_def columns_wf_def column_key_def
      table_column_row_new_def column_ok_def partition_ok_def string_ok_def ascii_def utf8_valid.simps)

lemma example_created:
  obtains kv where "commit_create_table_row fake_new 7 0 example_table = (Inr example_opened, kv)" "table_step 7 fake_new kv"
    "table_inv kv 7 [next_snapshot 0 fake_new []] [next_snapshot 0 fake_new []] {example_opened} [(1, 1)]" "next_order kv = 1"
proof -
  have inv: "table_catalog fake_new 7 [] [] {} []" "clock_ahead fake_new []"
    using table_inv_new [of 7] by (simp_all add: table_inv_def)
  have zero: "next_order fake_new = 0" by (simp add: fake_new_def)
  have "\<not> create_conflict {} example_table" by (simp add: create_conflict_def)
  from commit_create_table_row_outcome(2) [OF inv example_table_ok(1) this, of 0] obtain kv where
    kv: "commit_create_table_row fake_new 7 0 example_table = (Inr example_opened, kv)" "next_order kv = 1"
    "table_catalog kv 7 [next_snapshot 0 fake_new []] [next_snapshot 0 fake_new []] {example_opened} [(1, 1)]"
    by (auto simp: zero version_of_def saturating_add_def)
  have "latest_snapshot kv 7 = Inr (Some (next_snapshot 0 fake_new []))"
    using latest_snapshot_reads [OF table_catalogD(2,3) [OF kv(3)]] by simp
  then have counters: "counters_ok kv 7"
    by (simp add: counters_ok_def kv(2) snapshot_row_for_next_sequence_def snapshot_row_new_def
        snapshot_row_with_created_at_micros_def raw_sequence_initial_def word_less_nat_alt unat_minus_one_word)
  have "table_step 7 fake_new kv"
    by (rule table_step.create [OF _ example_table_ok counters, of _ 0]) (simp add: kv(1))
  moreover have "table_inv kv 7 [next_snapshot 0 fake_new []] [next_snapshot 0 fake_new []] {example_opened} [(1, 1)]"
    using kv(3) clock_after_commit [OF inv, of kv 0] kv(2,3) counters example_table_ok(2)
    by (auto simp: table_inv_def zero names_unique_def)
  ultimately show thesis using that kv by blast
qed

section \<open>Properties\<close>

text \<open>Table metadata has snapshot isolation. Whatever creations, renames, column, comment, partition and sort
  edits are committed after an order, successfully or not, listing the tables at that order keeps returning the same
  versions, up to the end that a later commit may have recorded in them.\<close>
theorem table_snapshot_isolation:
  assumes "table_reachable c kv" "table_history c o1 kv kv'"
  shows "\<exists>xs ys. list_tables_at kv c o1 = Inr xs \<and> list_tables_at kv' c o1 = Inr ys \<and>
    map table_without_end ys = map table_without_end xs"
proof -
  obtain H L T vs where I: "table_inv kv c H L T vs" using table_reachable_inv [OF assms(1)] by blast
  obtain H' L' T' vs' where I': "table_inv kv' c H' L' T' vs'" "visible_tables T' o1 = visible_tables T o1"
    using history_keeps [OF assms(2) I] by blast
  have "\<exists>xs. list_tables_at kv c o1 = Inr xs \<and> lists_visible T o1 xs" if "table_inv kv c H L T vs" for kv H L T vs
    using that list_tables_at_lists_visible [OF table_catalogD(2-4,6,7)] by (auto simp: table_inv_def)
  from this [OF I] this [OF I'(1)] listing_from_visible_tables [OF _ _ I'(2)] show ?thesis by blast
qed

theorem table_snapshot_isolation_witness:
  "\<exists>kv xs ys. table_history 7 (uuid_v7 0) fake_new kv \<and> list_tables_at fake_new 7 (uuid_v7 0) = Inr xs \<and>
     list_tables_at kv 7 (uuid_v7 0) = Inr ys \<and> map table_without_end ys = map table_without_end xs"
proof -
  obtain kv where kv: "table_step 7 fake_new kv" by (rule example_created)
  have "table_history 7 (uuid_v7 0) fake_new kv"
    by (rule table_history.step [OF table_history.none kv]) (simp add: order_less_iff fake_new_def)
  with table_snapshot_isolation [OF table_reachable.start this] show ?thesis by blast
qed



text \<open>C15: Reading the tables of a snapshot. Listing the tables at any order returns, in id order, exactly the versions
  visible at that order, and reading one table at that order returns its row of the list or nothing.\<close>
theorem tables_at_exact:
  assumes "table_catalog kv c H L T vs"
  shows "\<exists>xs. list_tables_at kv c ord = Inr xs \<and> set xs = {r \<in> T. is_visible_at (tr_validity r) ord} \<and>
    sorted_wrt (\<lambda>a b. tr_table_id a < tr_table_id b) xs \<and>
    (\<forall>t. load_table_at kv c t ord = Inr (find (\<lambda>r. tr_table_id r = t) xs))"
proof -
  note A = table_catalogD [OF assms]
  obtain xs where xs: "list_tables_at kv c ord = Inr xs" "lists_visible T ord xs"
    using list_tables_at_lists_visible [OF A(2-4,6,7)] by blast
  have "load_table_at kv c t ord = Inr (find (\<lambda>r. tr_table_id r = t) xs)" for t
  proof -
    obtain r where r: "load_table_at kv c t ord = Inr r"
      "\<And>x. r = Some x \<longleftrightarrow> x \<in> T \<and> tr_table_id x = t \<and> is_visible_at (tr_validity x) ord"
      using load_table_at_reads [OF A(2,4,6)] by blast
    have "r = find (\<lambda>r. tr_table_id r = t) xs" by (rule option_eqI) (simp only: r(2) find_visible [OF xs(2)])
    with r(1) show ?thesis by simp
  qed
  with xs show ?thesis by (auto simp: lists_visible_def)
qed

theorem tables_at_exact_witness:
  "\<exists>kv. list_tables_at kv 7 (uuid_v7 1) = Inr [example_opened] \<and> load_table_at kv 7 4 (uuid_v7 1) = Inr (Some example_opened) \<and>
     list_tables_at kv 7 (uuid_v7 0) = Inr []"
proof -
  obtain kv where "table_inv kv 7 [next_snapshot 0 fake_new []] [next_snapshot 0 fake_new []] {example_opened} [(1, 1)]"
    by (rule example_created)
  then have cat: "table_catalog kv 7 [next_snapshot 0 fake_new []] [next_snapshot 0 fake_new []] {example_opened} [(1, 1)]"
    by (simp add: table_inv_def)
  have vis: "is_visible_at (tr_validity example_opened) (uuid_v7 1)" "\<not> is_visible_at (tr_validity example_opened) (uuid_v7 0)"
    by (simp_all add: is_visible_at_def validity_new_sel order_le_iff)
  obtain xs where xs: "list_tables_at kv 7 (uuid_v7 1) = Inr xs" "set xs = {r \<in> {example_opened}. is_visible_at (tr_validity r) (uuid_v7 1)}"
    "sorted_wrt (\<lambda>a b. tr_table_id a < tr_table_id b) xs"
    "\<forall>t. load_table_at kv 7 t (uuid_v7 1) = Inr (find (\<lambda>r. tr_table_id r = t) xs)"
    using tables_at_exact [OF cat, of "uuid_v7 1"] by (elim exE conjE) (rule that; assumption)
  have "distinct (map tr_table_id xs)" using xs(3) by (simp add: strict_sorted_iff flip: sorted_wrt_map)
  then have "distinct xs" by (simp add: distinct_map)
  moreover have "set xs = {example_opened}" using xs(2) vis(1) by blast
  ultimately have one: "xs = [example_opened]" by (intro singleton_list)
  obtain ys where ys: "list_tables_at kv 7 (uuid_v7 0) = Inr ys" "set ys = {r \<in> {example_opened}. is_visible_at (tr_validity r) (uuid_v7 0)}"
    using tables_at_exact [OF cat, of "uuid_v7 0"] by (elim exE conjE) (rule that; assumption)
  have "set ys = {}" unfolding ys(2) using vis(2) by (simp only: Collect_empty_eq singleton_iff) metis
  with ys(1) have "list_tables_at kv 7 (uuid_v7 0) = Inr []" by simp
  moreover have "tr_table_id example_opened = 4" by (simp add: example_table_def table_row_with_catalog_metadata_def)
  ultimately show ?thesis using xs(1,4) one by auto
qed

text \<open>C17: The three ways to list tables agree: the scan of the visibility index and the scan of the full history give
  the same list at every order, the open versions are that list at the latest snapshot, and \<open>list_tables_at\<close>,
  which picks among them, returns it as well.\<close>
theorem table_listings_agree:
  assumes "table_catalog kv c H L T vs"
  shows "list_tables_at_from_visibility_index kv c ord = list_tables_at_from_history kv c ord \<and>
    list_tables_at kv c ord = list_tables_at_from_history kv c ord \<and>
    (H \<noteq> [] \<longrightarrow> list_current_table_rows kv c = list_tables_at_from_history kv c (sn_order (last H)))"
proof -
  note A = table_catalogD [OF assms]
  note hist = history_lists_visible [OF A(2,4,6)]
  have "list_tables_at_from_visibility_index kv c ord = list_tables_at_from_history kv c ord"
    using visibility_lists_visible [OF A(2,4,6), of ord] hist [of ord] by (auto dest: lists_visible_unique)
  moreover have "list_tables_at kv c ord = list_tables_at_from_history kv c ord"
    using list_tables_at_lists_visible [OF A(2-4,6,7), of ord] hist [of ord] by (auto dest: lists_visible_unique)
  moreover have "list_current_table_rows kv c = list_tables_at_from_history kv c (sn_order (last H))" if "H \<noteq> []"
  proof -
    obtain cs where cs: "list_current_table_rows kv c = Inr cs" "set cs = {r \<in> T. is_open r}"
      "sorted_wrt (\<lambda>a b. tr_table_id a < tr_table_id b) cs" using current_rows_listed [OF A(2,4)] by blast
    have "lists_visible T (sn_order (last H)) cs"
      using cs(2,3) A(7) that visible_at_latest [of "sn_order (last H)" T] by (auto simp: lists_visible_def)
    with hist [of "sn_order (last H)"] cs(1) show ?thesis by (auto dest: lists_visible_unique)
  qed
  ultimately show ?thesis by blast
qed

theorem table_listings_agree_witness:
  "\<exists>kv. table_reachable 7 kv \<and> list_tables_at_from_visibility_index kv 7 (uuid_v7 1) = list_tables_at_from_history kv 7 (uuid_v7 1) \<and>
     list_tables_at kv 7 (uuid_v7 1) = list_tables_at_from_history kv 7 (uuid_v7 1)"
proof -
  obtain kv where kv: "table_step 7 fake_new kv"
    "table_inv kv 7 [next_snapshot 0 fake_new []] [next_snapshot 0 fake_new []] {example_opened} [(1, 1)]"
    by (rule example_created)
  then have "table_catalog kv 7 [next_snapshot 0 fake_new []] [next_snapshot 0 fake_new []] {example_opened} [(1, 1)]"
    by (simp add: table_inv_def)
  from table_listings_agree [OF this, of "uuid_v7 1"] table_reachable.commit [OF table_reachable.start kv(1)] show ?thesis by blast
qed



text \<open>C13: Creating a table does all or nothing. It is refused, with the store unchanged, exactly when a current table
  has its id or has its name, ignoring case, in its schema; otherwise it succeeds, the history gains the next
  snapshot, the table is stored as begun at the order of that snapshot and the schema version advances by one.\<close>
theorem commit_create_table_row_refines:
  assumes "table_catalog kv c H L T vs" "clock_ahead kv H" "table_row_ok table"
  shows "if create_conflict T table
    then \<exists>m. commit_create_table_row kv c now table = (Inl (InvalidMutation m), kv)
    else \<exists>kv'. commit_create_table_row kv c now table = (Inr (opened (next_commit_order kv) table), kv') \<and>
      table_catalog kv' c (H @ [next_snapshot now kv H]) (L @ [next_snapshot now kv H])
        (insert (opened (next_commit_order kv) table) T)
        (vs @ [(order_arr (next_commit_order kv), saturating_add (version_of vs) 1)])"
  using commit_create_table_row_outcome [OF assms, of now] by auto

theorem commit_create_table_row_refines_witness:
  "\<exists>kv m. commit_create_table_row kv 7 0 example_table = (Inl (InvalidMutation m), kv) \<and>
     list_current_table_rows kv 7 \<noteq> Inr []"
proof -
  obtain kv where "table_inv kv 7 [next_snapshot 0 fake_new []] [next_snapshot 0 fake_new []] {example_opened} [(1, 1)]"
    by (rule example_created)
  then have cat: "table_catalog kv 7 [next_snapshot 0 fake_new []] [next_snapshot 0 fake_new []] {example_opened} [(1, 1)]"
    and clock: "clock_ahead kv [next_snapshot 0 fake_new []]" by (simp_all add: table_inv_def)
  have "create_conflict {example_opened} example_table" by (simp add: create_conflict_def validity_new_sel)
  then have "\<exists>m. commit_create_table_row kv 7 0 example_table = (Inl (InvalidMutation m), kv)"
    using commit_create_table_row_refines [OF cat clock example_table_ok(1), of 0] by simp
  moreover have "list_current_table_rows kv 7 \<noteq> Inr []"
    using current_rows_listed [OF table_catalogD(2,4) [OF cat]] by (auto simp: validity_new_sel)
  ultimately show ?thesis by blast
qed

text \<open>C14: Replacing table versions. With replacements for distinct current tables the commit succeeds: the history
  gains the next snapshot, each replaced version is ended and each new one begun at its order, and the schema
  version advances exactly when some replacement changes the schema a user sees.\<close>
theorem commit_table_replacements_refines:
  assumes "table_catalog kv c H L T vs" "clock_ahead kv H" "H \<noteq> []" "replaceable T reps" "reps \<noteq> []"
  shows "\<exists>kv'. commit_table_replacements kv c now (sn_sequence (last H)) reps = (Inr (), kv') \<and>
    table_catalog kv' c (H @ [next_snapshot now kv H]) (L @ [next_snapshot now kv H])
      (fold (replace_in (next_commit_order kv)) reps T)
      (if \<exists>rep \<in> set reps. \<not> same_user_visible_schema_as (rep_previous rep) (rep_next rep)
       then vs @ [(order_arr (next_commit_order kv), saturating_add (version_of vs) 1)] else vs)"
  unfolding changes_schema_def [symmetric] using commit_table_replacements_outcome [OF assms, of now] by auto

theorem commit_table_replacements_refines_witness:
  "\<exists>kv kv'. commit_table_replacements kv 7 0 (sn_sequence (next_snapshot 0 fake_new []))
      [\<lparr>rep_table_id = 4, rep_previous = example_opened, rep_next = example_opened\<lparr>tr_columns := []\<rparr>\<rparr>] = (Inr (), kv') \<and>
    load_schema_version_at kv' 7 (uuid_v7 1) = Inr 1 \<and> load_schema_version_at kv' 7 (uuid_v7 2) = Inr 2"
proof -
  obtain kv where kv: "table_inv kv 7 [next_snapshot 0 fake_new []] [next_snapshot 0 fake_new []] {example_opened} [(1, 1)]"
    "next_order kv = 1" by (rule example_created)
  then have cat: "table_catalog kv 7 [next_snapshot 0 fake_new []] [next_snapshot 0 fake_new []] {example_opened} [(1, 1)]"
    and clock: "clock_ahead kv [next_snapshot 0 fake_new []]" by (simp_all add: table_inv_def)
  let ?reps = "[\<lparr>rep_table_id = 4, rep_previous = example_opened, rep_next = example_opened\<lparr>tr_columns := []\<rparr>\<rparr>]"
  have "replaceable {example_opened} ?reps"
    using example_table_ok(1) by (simp add: replaceable_def validity_new_sel table_row_ok_def)
      (simp add: example_table_def table_row_with_catalog_metadata_def)
  from commit_table_replacements_refines [OF cat clock _ this, of 0] obtain kv' T' where
    committed: "commit_table_replacements kv 7 0 (sn_sequence (next_snapshot 0 fake_new [])) ?reps = (Inr (), kv')"
    and cat': "table_catalog kv' 7 [next_snapshot 0 fake_new [], next_snapshot 0 kv [next_snapshot 0 fake_new []]]
      [next_snapshot 0 fake_new [], next_snapshot 0 kv [next_snapshot 0 fake_new []]] T' [(1, 1), (2, 2)]"
    by (auto simp: kv(2) version_of_def saturating_add_def same_user_visible_schema_as_def example_table_def
        table_row_with_catalog_metadata_def)
  have "load_schema_version_at kv' 7 (uuid_v7 1) = Inr 1" "load_schema_version_at kv' 7 (uuid_v7 2) = Inr 2"
    by (simp_all add: load_schema_version_at_list [OF table_catalogD(2,5) [OF cat']] version_of_def word_le_nat_alt)
  with committed show ?thesis by blast
qed

lemma then_return_Inr: "then_return op x = (Inr y, kv') \<longleftrightarrow> y = x \<and> op = (Inr (), kv')"
  by (cases op) (auto simp: then_return_def rbind_Inr_iff)

lemma drop_columns_outcome:
  assumes "table_catalog kv c H L T vs" "clock_ahead kv H" "drops \<noteq> []"
    "commit_drop_table_columns kv c now drops = (Inr dropped, kv')"
  shows "\<exists>p q. load_current_table_row kv c (cd_table_id (hd drops)) = Inr (Some p) \<and>
    load_current_table_row kv' c (cd_table_id (hd drops)) = Inr (Some q) \<and>
    rfold (drop_one_column (cd_table_id (hd drops))) drops (tr_columns p, []) = Inr (tr_columns q, dropped)"
proof -
  let ?t = "cd_table_id (hd drops)"
  from assms(3) have hd: "\<exists>d ds. drops = d # ds" by (cases drops) auto
  from assms(3,4) obtain t s p cols where t: "reject_column_drop_batch_shape drops = Inr t"
    and cur: "latest_and_current_table kv c t = Inr (s, p)"
    and cols: "rfold (drop_one_column t) drops (tr_columns p, []) = Inr (cols, dropped)"
    and com: "commit_column_version kv c now t (sn_sequence s) p cols = (Inr (), kv')"
    by (auto simp: commit_drop_table_columns_def attempt_Inr_iff then_return_Inr)
  have "t = ?t" using t hd by (auto simp: reject_column_drop_batch_shape_def reject_batch_shape_def rbind_Inr_iff)
  note A = table_catalogD [OF assms(1)]
  have latest: "latest_snapshot kv c = Inr (if H = [] then None else Some (last H))"
    using A(2,3) by (rule latest_snapshot_reads)
  from cur have s: "H \<noteq> []" "s = last H" "load_current_table_row kv c t = Inr (Some p)"
    by (auto simp: latest_and_current_table_def latest rbind_Inr_iff split: if_splits option.splits)
  have p: "p \<in> T \<and> is_open p \<and> tr_table_id p = t"
    using load_current_table_row_reads [OF A(4)] s(3) by (cases "\<exists>x \<in> T. is_open x \<and> tr_table_id x = t") force+
  have ok: "table_row_ok p" using p A(4) by (auto simp: tables_are_def table_versions.holds_def)
  let ?q = "p\<lparr>tr_columns := cols\<rparr>"
  let ?reps = "[\<lparr>rep_table_id = t, rep_previous = p, rep_next = ?q\<rparr>]"
  have "table_row_ok ?q"
    using ok drop_fold [OF cols] by (auto simp: table_row_ok_def list_all_iff intro: le_less_trans [OF length_filter_le])
  then have rep: "replaceable T ?reps" using p by (simp add: replaceable_def)
  from commit_table_replacements_outcome [OF assms(1,2) s(1) rep, of now] com s(2)
  obtain H' L' vs' where cat': "table_catalog kv' c H' L' (replace_in (next_commit_order kv) \<lparr>rep_table_id = t, rep_previous = p, rep_next = ?q\<rparr> T) vs'"
    by (auto simp: commit_column_version_def)
  let ?n = "opened (next_commit_order kv) ?q"
  have "load_current_table_row kv' c (tr_table_id ?n) = Inr (Some ?n)"
    by (rule load_current_table_row_reads(1) [OF table_catalogD(4) [OF cat']]) (simp_all add: replace_in_def validity_new_sel)
  with p \<open>t = ?t\<close> s(3) cols show ?thesis by (intro exI [of _ p] exI [of _ ?n]) simp
qed

text \<open>C16: What dropping columns removes. When a batch of column drops succeeds, the current version of the table is
  left with exactly the columns that are not below a dropped column, in their order, so no kept column lost its
  parent to the drop; the columns reported as dropped are exactly the removed ones.\<close>
theorem column_drop_removes_subtrees:
  assumes "table_catalog kv c H L T vs" "clock_ahead kv H" "drops \<noteq> []"
    "commit_drop_table_columns kv c now drops = (Inr dropped, kv')"
  shows "\<exists>p q D. load_current_table_row kv c (cd_table_id (hd drops)) = Inr (Some p) \<and>
    load_current_table_row kv' c (cd_table_id (hd drops)) = Inr (Some q) \<and>
    D = (parent_edges (tr_columns p))\<^sup>* `` (cd_column_id ` set drops) \<and>
    tr_columns q = filter (\<lambda>column. tc_column_id column \<notin> D) (tr_columns p) \<and>
    mset (map dc_column dropped) = mset (filter (\<lambda>column. tc_column_id column \<in> D) (tr_columns p)) \<and>
    (\<forall>column \<in> set (tr_columns q). \<forall>parent. tc_parent_id column = Some parent \<longrightarrow> parent \<notin> D)"
proof -
  obtain p q where pq: "load_current_table_row kv c (cd_table_id (hd drops)) = Inr (Some p)"
    "load_current_table_row kv' c (cd_table_id (hd drops)) = Inr (Some q)"
    "rfold (drop_one_column (cd_table_id (hd drops))) drops (tr_columns p, []) = Inr (tr_columns q, dropped)"
    using drop_columns_outcome [OF assms] by blast
  define D where "D = (parent_edges (tr_columns p))\<^sup>* `` (cd_column_id ` set drops)"
  obtain more where more: "dropped = map (\<lambda>column. \<lparr>dc_table_id = cd_table_id (hd drops), dc_column = column\<rparr>) more"
    "mset more = mset (filter (\<lambda>column. tc_column_id column \<in> D) (tr_columns p))"
    using drop_fold [OF pq(3)] by (auto simp: dropped_ids_def D_def)
  have "map dc_column dropped = more" by (simp add: more(1) comp_def)
  with more(2) drop_fold [OF pq(3)] have D: "tr_columns q = filter (\<lambda>column. tc_column_id column \<notin> D) (tr_columns p)"
    "mset (map dc_column dropped) = mset (filter (\<lambda>column. tc_column_id column \<in> D) (tr_columns p))"
    by (simp_all only: dropped_ids_def D_def)
  have kept: "parent \<notin> D" if "column \<in> set (tr_columns q)" "tc_parent_id column = Some parent" for column parent
  proof
    assume "parent \<in> D"
    moreover have "(parent, tc_column_id column) \<in> parent_edges (tr_columns p)"
      using that D(1) by (auto simp: parent_edges_def)
    ultimately have "tc_column_id column \<in> D" by (auto simp: D_def intro: rtrancl_into_rtrancl)
    with that(1) D(1) show False by simp
  qed
  show ?thesis
    by (intro exI [of _ p] exI [of _ q] exI [of _ D] conjI ballI allI impI) (fact pq(1) pq(2) D_def D(1) D(2) | erule (1) kept)+
qed

theorem column_drop_removes_subtrees_witness:
  "\<exists>kv kv' dropped q. commit_drop_table_columns kv 7 0 [\<lparr>cd_table_id = 4, cd_column_id = 1\<rparr>] = (Inr dropped, kv') \<and>
     load_current_table_row kv' 7 4 = Inr (Some q) \<and> tr_columns q = []"
proof -
  let ?H = "[next_snapshot 0 fake_new []]" and ?drops = "[\<lparr>cd_table_id = 4, cd_column_id = 1\<rparr>]"
  obtain kv where "table_inv kv 7 ?H ?H {example_opened} [(1, 1)]" by (rule example_created)
  then have cat: "table_catalog kv 7 ?H ?H {example_opened} [(1, 1)]" and clock: "clock_ahead kv ?H"
    by (simp_all add: table_inv_def)
  note A = table_catalogD [OF cat]
  have id: "tr_table_id example_opened = 4" by (simp add: example_table_def table_row_with_catalog_metadata_def)
  have cur: "load_current_table_row kv 7 4 = Inr (Some example_opened)"
    using load_current_table_row_reads(1) [OF A(4), of example_opened] id by (simp add: validity_new_sel)
  then have both: "latest_and_current_table kv 7 4 = Inr (last ?H, example_opened)"
    using latest_snapshot_reads [OF A(2,3)] by (simp add: latest_and_current_table_def)
  have cols: "tr_columns example_opened = [table_column_row_new 1 (ascii ''a'') (ascii ''int32'') True None,
         table_column_row_new 2 (ascii ''b'') (ascii ''varchar'') False (Some 1)]"
    by (simp add: example_table_def table_row_with_catalog_metadata_def)
  then obtain rest dropped where fold: "rfold (drop_one_column 4) ?drops (tr_columns example_opened, []) = Inr (rest, dropped)"
    by (auto simp: drop_one_column_def Let_def table_column_row_new_def)
  have "table_row_ok (example_opened\<lparr>tr_columns := rest\<rparr>)"
    using example_table_ok(1) drop_fold [OF fold]
    by (auto simp: table_row_ok_def list_all_iff intro: le_less_trans [OF length_filter_le])
  then have "replaceable {example_opened} [\<lparr>rep_table_id = 4, rep_previous = example_opened, rep_next = example_opened\<lparr>tr_columns := rest\<rparr>\<rparr>]"
    using id by (simp add: replaceable_def validity_new_sel)
  from commit_table_replacements_outcome [OF cat clock _ this, of 0] obtain kv' where
    "commit_column_version kv 7 0 4 (sn_sequence (last ?H)) example_opened rest = (Inr (), kv')"
    by (auto simp: commit_column_version_def)
  then have committed: "commit_drop_table_columns kv 7 0 ?drops = (Inr dropped, kv')"
    using both fold by (simp add: commit_drop_table_columns_def reject_column_drop_batch_shape_def reject_batch_shape_def
        insert_unique_def then_return_def)
  obtain q where q: "load_current_table_row kv' 7 4 = Inr (Some q)"
    "tr_columns q = filter (\<lambda>column. tc_column_id column \<notin> (parent_edges (tr_columns example_opened))\<^sup>* `` {1}) (tr_columns example_opened)"
    using column_drop_removes_subtrees [OF cat clock _ committed] cur by auto
  have "(1, 2) \<in> parent_edges (tr_columns example_opened)" 
    unfolding cols parent_edges_def
    by (rule CollectI, intro exI [of _ 1] exI [of _ "table_column_row_new 2 (ascii ''b'') (ascii ''varchar'') False (Some 1)"])
       (simp add: table_column_row_new_def)
  with q(2) have "tr_columns q = []" by (auto simp: cols table_column_row_new_def)
  with committed q(1) show ?thesis by blast
qed

end
