(* ===== verification/Cat_Object_History.thy ===== *)
theory Cat_Object_History
  imports Cat_Object_Steps Cat_Table_History
begin

text \<open>
  The whole catalog as a transition system: tables, schemas, views and macros share one history of snapshots. Every
  commit of one store keeps what the others hold, so the guarantees of the stores compose: listings at an order are
  exact and stable for all four kinds, and names stay unique.
\<close>

section \<open>The state of a catalog\<close>

record catalog_state =
  cs_snapshots :: "snapshot_row list"
  cs_versions :: "(u128 \<times> u64) list"
  cs_tables :: "table_row set"
  cs_schemas :: "schema_row set"
  cs_views :: "view_row set"
  cs_macros :: "macro_row set"

definition view_names_unique :: "view_row set \<Rightarrow> bool" where
  "view_names_unique C \<longleftrightarrow> (\<forall>x \<in> C. \<forall>y \<in> C. vr_schema_id x = vr_schema_id y \<and> eq_ignore_ascii_case (vr_name x) (vr_name y) \<longrightarrow> x = y)"

definition macro_identities_unique :: "macro_row set \<Rightarrow> bool" where
  "macro_identities_unique C \<longleftrightarrow> (\<forall>x \<in> C. \<forall>y \<in> C. macro_identities x \<inter> macro_identities y \<noteq> {} \<longrightarrow> x = y)"

definition objects_hold :: "fake_kv \<Rightarrow> catalog_id \<Rightarrow> catalog_state \<Rightarrow> bool" where
  "objects_hold kv c \<sigma> \<longleftrightarrow>
     schemas.holds c (fake_get kv) (cs_schemas \<sigma>) \<and> schemas.closed_history (cs_schemas \<sigma>) (cs_snapshots \<sigma>) \<and>
     views.holds c (fake_get kv) (cs_views \<sigma>) \<and> views.closed_history (cs_views \<sigma>) (cs_snapshots \<sigma>) \<and>
     macros.holds c (fake_get kv) (cs_macros \<sigma>) \<and> macros.closed_history (cs_macros \<sigma>) (cs_snapshots \<sigma>)"

definition catalog_inv :: "fake_kv \<Rightarrow> catalog_id \<Rightarrow> snapshot_row list \<Rightarrow> catalog_state \<Rightarrow> bool" where
  "catalog_inv kv c L \<sigma> \<longleftrightarrow> table_inv kv c (cs_snapshots \<sigma>) L (cs_tables \<sigma>) (cs_versions \<sigma>) \<and> objects_hold kv c \<sigma> \<and>
     view_names_unique (open_views (cs_views \<sigma>)) \<and> macro_identities_unique (open_macros (cs_macros \<sigma>))"

definition kept_at :: "catalog_order_id \<Rightarrow> catalog_state \<Rightarrow> catalog_state \<Rightarrow> bool" where
  "kept_at o1 \<sigma> \<sigma>' \<longleftrightarrow> visible_tables (cs_tables \<sigma>') o1 = visible_tables (cs_tables \<sigma>) o1 \<and>
     schemas.visible_set (cs_schemas \<sigma>') o1 = schemas.visible_set (cs_schemas \<sigma>) o1 \<and>
     views.visible_set (cs_views \<sigma>') o1 = views.visible_set (cs_views \<sigma>) o1 \<and>
     macros.visible_set (cs_macros \<sigma>') o1 = macros.visible_set (cs_macros \<sigma>) o1"

section \<open>One store at a time\<close>

context object_kind
begin

lemma closed_history_next:
  assumes "closed_history S H" "clock_ahead kv H" "snapshots_are m c H L"
  shows "closed_history S (H @ [next_snapshot now kv H])"
proof -
  have "before (next_commit_order kv) S" using assms(2,1) by (rule before_next_commit)
  then have "rows_upto (next_commit_order kv) S" unfolding before_def rows_upto_def by (blast intro: less_imp_le)
  with assms(1) next_snapshot_follows(3) [OF assms(3,2), of now] show ?thesis by (simp add: closed_history_def)
qed

lemma holds_elsewhere:
  assumes "holds (fake_get kv) S" "\<forall>k \<in> main_space c - version_space c - snapshot_space c. P k \<longrightarrow> fake_get kv' k = fake_get kv k"
    "\<And>k. prefix space k \<Longrightarrow> P k"
  shows "holds (fake_get kv') S"
  using assms(1) by (rule holds_local) (use assms(2,3) main apart in blast)

end

lemma tags_apart:
  "prefix (schema_object_scan_prefix c) k \<Longrightarrow> \<not> prefix (view_object_scan_prefix c) k \<and> \<not> prefix (macro_object_scan_prefix c) k"
  "prefix (view_object_scan_prefix c) k \<Longrightarrow> \<not> prefix (schema_object_scan_prefix c) k \<and> \<not> prefix (macro_object_scan_prefix c) k"
  "prefix (macro_object_scan_prefix c) k \<Longrightarrow> \<not> prefix (schema_object_scan_prefix c) k \<and> \<not> prefix (view_object_scan_prefix c) k"
  unfolding schema_object_scan_prefix_def view_object_scan_prefix_def macro_object_scan_prefix_def
  by (auto elim!: prefixE)

lemma catalog_invD:
  assumes "catalog_inv kv c L \<sigma>"
  shows "table_inv kv c (cs_snapshots \<sigma>) L (cs_tables \<sigma>) (cs_versions \<sigma>)"
    "table_catalog kv c (cs_snapshots \<sigma>) L (cs_tables \<sigma>) (cs_versions \<sigma>)" "clock_ahead kv (cs_snapshots \<sigma>)" "objects_hold kv c \<sigma>"
  using assms by (simp_all add: catalog_inv_def table_inv_def)

lemma schema_step:
  assumes "catalog_inv kv c L \<sigma>" "counters_ok kv' c"
    "schemas.object_step c kv kv' now (cs_snapshots \<sigma>) L (cs_tables \<sigma>) (cs_versions \<sigma>) (cs_schemas \<sigma>) E N"
  shows "\<exists>L' \<sigma>'. catalog_inv kv' c L' \<sigma>' \<and> (\<forall>o1. o1 < next_commit_order kv \<longrightarrow> kept_at o1 \<sigma> \<sigma>')"
proof -
  define s where "s = next_snapshot now kv (cs_snapshots \<sigma>)"
  let ?\<sigma> = "\<sigma>\<lparr>cs_snapshots := cs_snapshots \<sigma> @ [s], cs_versions := next_version kv (cs_versions \<sigma>),
    cs_schemas := schemas.committed (next_commit_order kv) (cs_schemas \<sigma>) E N\<rparr>"
  note inv = catalog_invD [OF assms(1)]
  note st = assms(3) [unfolded schemas.object_step_def, folded s_def]
  have "table_inv kv' c (cs_snapshots ?\<sigma>) (L @ [s]) (cs_tables ?\<sigma>) (cs_versions ?\<sigma>)"
  proof -
    have "clock_ahead kv' (cs_snapshots \<sigma> @ [s])"
      using st clock_after_commit [OF inv(2,3) _ _ assms(2), of now, folded s_def] by blast
    with inv(1) st show ?thesis by (simp add: table_inv_def)
  qed
  moreover have "objects_hold kv' c ?\<sigma>"
  proof -
    have keep: "\<forall>k \<in> main_space c - version_space c - snapshot_space c. \<not> prefix (schema_object_scan_prefix c) k \<longrightarrow> fake_get kv' k = fake_get kv k"
      using st by blast
    have "views.holds c (fake_get kv') (cs_views \<sigma>)"
      by (rule views.holds_elsewhere [where P = "\<lambda>k. \<not> prefix (schema_object_scan_prefix c) k", OF _ keep])
         (use inv(4) tags_apart in \<open>unfold objects_hold_def, blast+\<close>)
    moreover have "macros.holds c (fake_get kv') (cs_macros \<sigma>)"
      by (rule macros.holds_elsewhere [where P = "\<lambda>k. \<not> prefix (schema_object_scan_prefix c) k", OF _ keep])
         (use inv(4) tags_apart in \<open>unfold objects_hold_def, blast+\<close>)
    moreover have "views.closed_history (cs_views \<sigma>) (cs_snapshots \<sigma> @ [s])"
      unfolding s_def by (rule views.closed_history_next [OF _ inv(3) table_catalogD(3) [OF inv(2)]]) (use inv(4) in \<open>simp add: objects_hold_def\<close>)
    moreover have "macros.closed_history (cs_macros \<sigma>) (cs_snapshots \<sigma> @ [s])"
      unfolding s_def by (rule macros.closed_history_next [OF _ inv(3) table_catalogD(3) [OF inv(2)]]) (use inv(4) in \<open>simp add: objects_hold_def\<close>)
    ultimately show ?thesis using st by (simp add: objects_hold_def)
  qed
  ultimately have "catalog_inv kv' c (L @ [s]) ?\<sigma>" using assms by (simp add: catalog_inv_def)
  moreover have "kept_at o1 \<sigma> ?\<sigma>" if "o1 < next_commit_order kv" for o1
    using schemas.visible_committed [OF conjunct1 [OF st] that] by (simp add: kept_at_def)
  ultimately show ?thesis by blast
qed

lemma view_step:
  assumes "catalog_inv kv c L \<sigma>" "counters_ok kv' c"
    "views.object_step c kv kv' now (cs_snapshots \<sigma>) L (cs_tables \<sigma>) (cs_versions \<sigma>) (cs_views \<sigma>) E N"
    "view_names_unique (open_views (views.committed (next_commit_order kv) (cs_views \<sigma>) E N))"
  shows "\<exists>L' \<sigma>'. catalog_inv kv' c L' \<sigma>' \<and> (\<forall>o1. o1 < next_commit_order kv \<longrightarrow> kept_at o1 \<sigma> \<sigma>')"
proof -
  define s where "s = next_snapshot now kv (cs_snapshots \<sigma>)"
  let ?\<sigma> = "\<sigma>\<lparr>cs_snapshots := cs_snapshots \<sigma> @ [s], cs_versions := next_version kv (cs_versions \<sigma>),
    cs_views := views.committed (next_commit_order kv) (cs_views \<sigma>) E N\<rparr>"
  note inv = catalog_invD [OF assms(1)]
  note st = assms(3) [unfolded views.object_step_def, folded s_def]
  have "table_inv kv' c (cs_snapshots ?\<sigma>) (L @ [s]) (cs_tables ?\<sigma>) (cs_versions ?\<sigma>)"
  proof -
    have "clock_ahead kv' (cs_snapshots \<sigma> @ [s])"
      using st clock_after_commit [OF inv(2,3) _ _ assms(2), of now, folded s_def] by blast
    with inv(1) st show ?thesis by (simp add: table_inv_def)
  qed
  moreover have "objects_hold kv' c ?\<sigma>"
  proof -
    have keep: "\<forall>k \<in> main_space c - version_space c - snapshot_space c. \<not> prefix (view_object_scan_prefix c) k \<longrightarrow> fake_get kv' k = fake_get kv k"
      using st by blast
    have "schemas.holds c (fake_get kv') (cs_schemas \<sigma>)"
      by (rule schemas.holds_elsewhere [where P = "\<lambda>k. \<not> prefix (view_object_scan_prefix c) k", OF _ keep])
         (use inv(4) tags_apart in \<open>unfold objects_hold_def, blast+\<close>)
    moreover have "macros.holds c (fake_get kv') (cs_macros \<sigma>)"
      by (rule macros.holds_elsewhere [where P = "\<lambda>k. \<not> prefix (view_object_scan_prefix c) k", OF _ keep])
         (use inv(4) tags_apart in \<open>unfold objects_hold_def, blast+\<close>)
    moreover have "schemas.closed_history (cs_schemas \<sigma>) (cs_snapshots \<sigma> @ [s])"
      unfolding s_def by (rule schemas.closed_history_next [OF _ inv(3) table_catalogD(3) [OF inv(2)]]) (use inv(4) in \<open>simp add: objects_hold_def\<close>)
    moreover have "macros.closed_history (cs_macros \<sigma>) (cs_snapshots \<sigma> @ [s])"
      unfolding s_def by (rule macros.closed_history_next [OF _ inv(3) table_catalogD(3) [OF inv(2)]]) (use inv(4) in \<open>simp add: objects_hold_def\<close>)
    ultimately show ?thesis using st by (simp add: objects_hold_def)
  qed
  ultimately have "catalog_inv kv' c (L @ [s]) ?\<sigma>" using assms by (simp add: catalog_inv_def)
  moreover have "kept_at o1 \<sigma> ?\<sigma>" if "o1 < next_commit_order kv" for o1
    using views.visible_committed [OF conjunct1 [OF st] that] by (simp add: kept_at_def)
  ultimately show ?thesis by blast
qed

lemma macro_step:
  assumes "catalog_inv kv c L \<sigma>" "counters_ok kv' c"
    "macros.object_step c kv kv' now (cs_snapshots \<sigma>) L (cs_tables \<sigma>) (cs_versions \<sigma>) (cs_macros \<sigma>) E N"
    "macro_identities_unique (open_macros (macros.committed (next_commit_order kv) (cs_macros \<sigma>) E N))"
  shows "\<exists>L' \<sigma>'. catalog_inv kv' c L' \<sigma>' \<and> (\<forall>o1. o1 < next_commit_order kv \<longrightarrow> kept_at o1 \<sigma> \<sigma>')"
proof -
  define s where "s = next_snapshot now kv (cs_snapshots \<sigma>)"
  let ?\<sigma> = "\<sigma>\<lparr>cs_snapshots := cs_snapshots \<sigma> @ [s], cs_versions := next_version kv (cs_versions \<sigma>),
    cs_macros := macros.committed (next_commit_order kv) (cs_macros \<sigma>) E N\<rparr>"
  note inv = catalog_invD [OF assms(1)]
  note st = assms(3) [unfolded macros.object_step_def, folded s_def]
  have "table_inv kv' c (cs_snapshots ?\<sigma>) (L @ [s]) (cs_tables ?\<sigma>) (cs_versions ?\<sigma>)"
  proof -
    have "clock_ahead kv' (cs_snapshots \<sigma> @ [s])"
      using st clock_after_commit [OF inv(2,3) _ _ assms(2), of now, folded s_def] by blast
    with inv(1) st show ?thesis by (simp add: table_inv_def)
  qed
  moreover have "objects_hold kv' c ?\<sigma>"
  proof -
    have keep: "\<forall>k \<in> main_space c - version_space c - snapshot_space c. \<not> prefix (macro_object_scan_prefix c) k \<longrightarrow> fake_get kv' k = fake_get kv k"
      using st by blast
    have "schemas.holds c (fake_get kv') (cs_schemas \<sigma>)"
      by (rule schemas.holds_elsewhere [where P = "\<lambda>k. \<not> prefix (macro_object_scan_prefix c) k", OF _ keep])
         (use inv(4) tags_apart in \<open>unfold objects_hold_def, blast+\<close>)
    moreover have "views.holds c (fake_get kv') (cs_views \<sigma>)"
      by (rule views.holds_elsewhere [where P = "\<lambda>k. \<not> prefix (macro_object_scan_prefix c) k", OF _ keep])
         (use inv(4) tags_apart in \<open>unfold objects_hold_def, blast+\<close>)
    moreover have "schemas.closed_history (cs_schemas \<sigma>) (cs_snapshots \<sigma> @ [s])"
      unfolding s_def by (rule schemas.closed_history_next [OF _ inv(3) table_catalogD(3) [OF inv(2)]]) (use inv(4) in \<open>simp add: objects_hold_def\<close>)
    moreover have "views.closed_history (cs_views \<sigma>) (cs_snapshots \<sigma> @ [s])"
      unfolding s_def by (rule views.closed_history_next [OF _ inv(3) table_catalogD(3) [OF inv(2)]]) (use inv(4) in \<open>simp add: objects_hold_def\<close>)
    ultimately show ?thesis using st by (simp add: objects_hold_def)
  qed
  ultimately have "catalog_inv kv' c (L @ [s]) ?\<sigma>" using assms by (simp add: catalog_inv_def)
  moreover have "kept_at o1 \<sigma> ?\<sigma>" if "o1 < next_commit_order kv" for o1
    using macros.visible_committed [OF conjunct1 [OF st] that] by (simp add: kept_at_def)
  ultimately show ?thesis by blast
qed

section \<open>Unique names\<close>

lemma sorted_wrt_pair: "sorted_wrt P xs \<Longrightarrow> x \<in> set xs \<Longrightarrow> y \<in> set xs \<Longrightarrow> x \<noteq> y \<Longrightarrow> P x y \<or> P y x"
  by (induction xs) auto

lemma open_committed:
  "views.commits ord S E N \<Longrightarrow> open_views (views.committed ord S E N) = (open_views S - E) \<union> N"
  "macros.commits ord S' E' N' \<Longrightarrow> open_macros (macros.committed ord S' E' N') = (open_macros S' - E') \<union> N'"
  by (auto simp: open_views_def open_macros_def views.commits_def macros.commits_def validity_new_sel)

lemma view_names_add:
  assumes "view_names_unique C" "\<And>x. x \<in> C \<Longrightarrow> vr_schema_id x = vr_schema_id n \<Longrightarrow> \<not> eq_ignore_ascii_case (vr_name x) (vr_name n)"
  shows "view_names_unique (insert n C)"
  unfolding view_names_unique_def
proof (intro ballI impI)
  fix x y
  assume "x \<in> insert n C" "y \<in> insert n C" and same: "vr_schema_id x = vr_schema_id y \<and> eq_ignore_ascii_case (vr_name x) (vr_name y)"
  then consider "x = y" | "x \<in> C" "y \<in> C" | "x = n" "y \<in> C" | "x \<in> C" "y = n" by auto
  then show "x = y"
  proof cases
    case 2
    with assms(1) same show ?thesis unfolding view_names_unique_def by blast
  next
    case 3
    with assms(2) [of y] same show ?thesis by (simp add: eq_ignore_ascii_case_def)
  next
    case 4
    with assms(2) [of x] same show ?thesis by simp
  qed simp
qed

lemma view_names_subset: "view_names_unique C \<Longrightarrow> D \<subseteq> C \<Longrightarrow> view_names_unique D"
  unfolding view_names_unique_def by blast

lemma view_names_rename:
  assumes "view_names_unique C" "rename_free C qs" "distinct (map (\<lambda>q. vr_view_id (fst q)) qs)"
    and ids: "\<And>x y. x \<in> C \<Longrightarrow> y \<in> C \<Longrightarrow> vr_view_id x = vr_view_id y \<Longrightarrow> x = y"
  shows "view_names_unique ((C - fst ` set qs) \<union> rv_renamed ` set (rename_rows ord qs))"
proof -
  have old: "p \<in> C" "\<And>x. x \<in> C \<Longrightarrow> vr_schema_id x = vr_schema_id p \<Longrightarrow> vr_view_id x \<noteq> vr_view_id p \<Longrightarrow>
      \<not> eq_ignore_ascii_case (vr_name x) n" if "(p, n) \<in> set qs" for p n
    using assms(2) that unfolding rename_free_def by auto
  have pair: "\<not> eq_ignore_ascii_case n m" if "(p, n) \<in> set qs" "(q, m) \<in> set qs" "(p, n) \<noteq> (q, m)" "vr_schema_id p = vr_schema_id q" for p n q m
    using sorted_wrt_pair [OF conjunct2 [OF assms(2) [unfolded rename_free_def]] that(1-3)] that(4)
    by (auto simp: eq_ignore_ascii_case_def)
  have new: "\<exists>p n. (p, n) \<in> set qs \<and> x = views.row_begun ord (p\<lparr>vr_name := n\<rparr>)" if "x \<in> rv_renamed ` set (rename_rows ord qs)" for x
    using that by (auto simp: rename_rows_def) blast
  have sel: "vr_schema_id (views.row_begun ord (p\<lparr>vr_name := n\<rparr>)) = vr_schema_id p" "vr_name (views.row_begun ord (p\<lparr>vr_name := n\<rparr>)) = n" for p n
    by (simp_all add: views.row_begun_def)
  have mixed: False if "x \<in> C - fst ` set qs" "(p, n) \<in> set qs" "vr_schema_id x = vr_schema_id p" "eq_ignore_ascii_case (vr_name x) n" for x p n
  proof -
    have "x \<noteq> p" using that(1,2) by (metis DiffD2 fst_conv image_eqI)
    then have "vr_view_id x \<noteq> vr_view_id p" using ids that(1) old(1) [OF that(2)] by blast
    with old(2) [OF that(2)] that show False by blast
  qed
  show ?thesis
    unfolding view_names_unique_def
  proof (intro ballI impI)
    fix x y
    assume x: "x \<in> (C - fst ` set qs) \<union> rv_renamed ` set (rename_rows ord qs)"
      and y: "y \<in> (C - fst ` set qs) \<union> rv_renamed ` set (rename_rows ord qs)"
      and same: "vr_schema_id x = vr_schema_id y \<and> eq_ignore_ascii_case (vr_name x) (vr_name y)"
    have sym: "eq_ignore_ascii_case (vr_name y) (vr_name x)" using same by (simp add: eq_ignore_ascii_case_def)
    consider "x \<in> C" "y \<in> C" | "x \<in> C - fst ` set qs" "y \<in> rv_renamed ` set (rename_rows ord qs)"
      | "y \<in> C - fst ` set qs" "x \<in> rv_renamed ` set (rename_rows ord qs)"
      | "x \<in> rv_renamed ` set (rename_rows ord qs)" "y \<in> rv_renamed ` set (rename_rows ord qs)" using x y by blast
    then show "x = y"
    proof cases
      case 1
      with assms(1) same show ?thesis unfolding view_names_unique_def by blast
    next
      case 2
      with new [of y] mixed [of x] same show ?thesis by (metis sel)
    next
      case 3
      with new [of x] mixed [of y] same sym show ?thesis by (metis sel)
    next
      case 4
      from new [OF 4(1)] obtain p n where p: "(p, n) \<in> set qs" "x = views.row_begun ord (p\<lparr>vr_name := n\<rparr>)" by blast
      from new [OF 4(2)] obtain q m where q: "(q, m) \<in> set qs" "y = views.row_begun ord (q\<lparr>vr_name := m\<rparr>)" by blast
      have "vr_schema_id p = vr_schema_id q" "eq_ignore_ascii_case n m" using same by (simp_all only: p(2) q(2) sel)
      with pair [OF p(1) q(1)] have "(p, n) = (q, m)" by blast
      then show ?thesis using p(2) q(2) by simp
    qed
  qed
qed

lemma macro_identities_begun: "macro_identities (macros.row_begun ord r) = macro_identities r"
  by (simp add: macros.row_begun_def macro_identities_def macro_types_def)

lemma macro_identities_create:
  assumes "macro_identities_unique C" "macros_creatable C rows"
  shows "macro_identities_unique (C \<union> macros.row_begun ord ` set rows)"
proof -
  have old: "macro_identities x \<inter> macro_identities r = {}" if "r \<in> set rows" "x \<in> C" for x r
    using assms(2) that unfolding macros_creatable_def by blast
  have new: "macro_identities a \<inter> macro_identities b = {}" if "a \<in> set rows" "b \<in> set rows" "a \<noteq> b" for a b
    using sorted_wrt_pair [of "\<lambda>a b. macro_identities a \<inter> macro_identities b = {}" rows a b] assms(2) that
    unfolding macros_creatable_def by blast
  show ?thesis
    unfolding macro_identities_unique_def
  proof (intro ballI impI)
    fix x y
    assume x: "x \<in> C \<union> macros.row_begun ord ` set rows" and y: "y \<in> C \<union> macros.row_begun ord ` set rows"
      and common: "macro_identities x \<inter> macro_identities y \<noteq> {}"
    consider "x \<in> C" "y \<in> C" | r where "r \<in> set rows" "y = macros.row_begun ord r" "x \<in> C"
      | r where "r \<in> set rows" "x = macros.row_begun ord r" "y \<in> C"
      | a b where "a \<in> set rows" "b \<in> set rows" "x = macros.row_begun ord a" "y = macros.row_begun ord b" using x y by blast
    then show "x = y"
    proof cases
      case 1
      with assms(1) common show ?thesis unfolding macro_identities_unique_def by blast
    next
      case 2
      with old [of r x] common show ?thesis by (simp add: macro_identities_begun)
    next
      case 3
      with old [of r y] common show ?thesis by (simp add: macro_identities_begun Int_commute)
    next
      case 4
      with new [of a b] common show ?thesis by (cases "a = b") (simp_all add: macro_identities_begun)
    qed
  qed
qed

section \<open>The transition system\<close>

inductive catalog_step :: "catalog_id \<Rightarrow> fake_kv \<Rightarrow> fake_kv \<Rightarrow> bool" for c where
  tables: "table_step c kv kv' \<Longrightarrow> catalog_step c kv kv'"
| create_schemas: "kv' = snd (commit_create_schema_rows kv c now rows) \<Longrightarrow> counters_ok kv' c \<Longrightarrow>
     distinct (map sr_schema_id rows) \<Longrightarrow> \<forall>r \<in> set rows. schema_row_ok r \<Longrightarrow>
     (\<And>xs r x. list_schema_rows kv c = Inr xs \<Longrightarrow> r \<in> set rows \<Longrightarrow> x \<in> set xs \<Longrightarrow> end_order (sr_validity x) = None \<Longrightarrow>
        sr_schema_id x \<noteq> sr_schema_id r) \<Longrightarrow> catalog_step c kv kv'"
| drop_schemas: "kv' = snd (commit_drop_schema_rows kv c now schema_ids) \<Longrightarrow> counters_ok kv' c \<Longrightarrow> catalog_step c kv kv'"
| create_view: "kv' = snd (commit_create_view_row kv c now view) \<Longrightarrow> view_row_ok view \<Longrightarrow> counters_ok kv' c \<Longrightarrow>
     catalog_step c kv kv'"
| comment_view: "kv' = snd (commit_change_view_comment kv c now change) \<Longrightarrow> pred_option string_ok (vcc_comment change) \<Longrightarrow>
     counters_ok kv' c \<Longrightarrow> catalog_step c kv kv'"
| rename_views: "kv' = snd (commit_rename_views kv c now renames) \<Longrightarrow> \<forall>r \<in> set renames. string_ok (vrn_new_name r) \<Longrightarrow>
     counters_ok kv' c \<Longrightarrow> catalog_step c kv kv'"
| drop_views: "kv' = snd (commit_drop_views kv c now view_ids) \<Longrightarrow> counters_ok kv' c \<Longrightarrow> catalog_step c kv kv'"
| create_macros: "kv' = snd (commit_create_macro_rows kv c now macro_rows None) \<Longrightarrow> \<forall>r \<in> set macro_rows. macro_row_ok r \<Longrightarrow>
     latest_snapshot kv c \<noteq> Inr None \<Longrightarrow> counters_ok kv' c \<Longrightarrow> catalog_step c kv kv'"
| drop_macros: "kv' = snd (commit_drop_macros kv c now macro_ids None) \<Longrightarrow> counters_ok kv' c \<Longrightarrow> catalog_step c kv kv'"

abbreviation preserved :: "fake_kv \<Rightarrow> catalog_id \<Rightarrow> catalog_state \<Rightarrow> fake_kv \<Rightarrow> bool" where
  "preserved kv c \<sigma> kv' \<equiv> \<exists>L' \<sigma>'. catalog_inv kv' c L' \<sigma>' \<and> (\<forall>o1. o1 < next_commit_order kv \<longrightarrow> kept_at o1 \<sigma> \<sigma>')"

lemma preserved_same: "catalog_inv kv c L \<sigma> \<Longrightarrow> preserved kv c \<sigma> kv"
  by (auto simp: kept_at_def)

lemma preserved_generated:
  assumes "catalog_inv kv c L \<sigma>" "counters_ok (snd (fake_generated_order_id kv)) c"
  shows "preserved kv c \<sigma> (snd (fake_generated_order_id kv))"
proof -
  let ?kv = "snd (fake_generated_order_id kv)"
  note inv = catalog_invD [OF assms(1)]
  have nxt: "next_order ?kv = next_order kv + 1"
    using inv(3) saturating_Suc(3) [of "next_order kv"] by (simp add: clock_ahead_def)
  have "uuid_v7 (next_order kv) \<le> uuid_v7 (next_order kv + 1)"
    using inv(3) by (simp add: clock_ahead_def order_le_iff saturating_Suc less_imp_le)
  then have "clock_ahead ?kv (cs_snapshots \<sigma>)"
    using inv(3) assms(2) nxt by (auto simp: clock_ahead_def counters_ok_def intro: order_trans)
  moreover have "table_catalog ?kv c (cs_snapshots \<sigma>) L (cs_tables \<sigma>) (cs_versions \<sigma>)"
    using inv(2) by (simp add: table_catalog_def staging_ready_def)
  ultimately have "catalog_inv ?kv c L \<sigma>"
    using assms(1) inv(1) by (simp add: catalog_inv_def table_inv_def objects_hold_def)
  then show ?thesis by (auto simp: kept_at_def)
qed

lemma table_step_preserves:
  assumes "catalog_inv kv c L \<sigma>" "table_step c kv kv'"
  shows "preserved kv c \<sigma> kv'"
proof (cases "kv' = kv")
  case True
  then show ?thesis using preserved_same [OF assms(1)] by simp
next
  case False
  note inv = catalog_invD [OF assms(1)]
  from step_extends [OF assms(2) inv(2,3)] False obtain now T' vs' where
    st: "table_catalog kv' c (cs_snapshots \<sigma> @ [next_snapshot now kv (cs_snapshots \<sigma>)]) (L @ [next_snapshot now kv (cs_snapshots \<sigma>)]) T' vs'"
    "next_order kv' = next_order kv + 1" "others_kept c kv kv'" "names_unique (cs_tables \<sigma>) \<longrightarrow> names_unique T'"
    "(\<forall>r \<in> cs_tables \<sigma>. columns_wf (tr_columns r)) \<longrightarrow> (\<forall>r \<in> T'. columns_wf (tr_columns r))" "counters_ok kv' c"
    "\<forall>o1. o1 < next_commit_order kv \<longrightarrow> visible_tables T' o1 = visible_tables (cs_tables \<sigma>) o1"
    unfolding table_extends_def by blast
  define s where "s = next_snapshot now kv (cs_snapshots \<sigma>)"
  let ?\<sigma> = "\<sigma>\<lparr>cs_snapshots := cs_snapshots \<sigma> @ [s], cs_versions := vs', cs_tables := T'\<rparr>"
  have "clock_ahead kv' (cs_snapshots \<sigma> @ [s])"
    unfolding s_def by (rule clock_after_commit [OF inv(2,3) st(2,1,6)])
  then have "table_inv kv' c (cs_snapshots ?\<sigma>) (L @ [s]) (cs_tables ?\<sigma>) (cs_versions ?\<sigma>)"
    using inv(1) st(1,4,5) by (simp add: table_inv_def s_def)
  moreover have "objects_hold kv' c ?\<sigma>"
  proof -
    have keep: "\<forall>k \<in> main_space c - version_space c - snapshot_space c. k \<notin> table_space c \<longrightarrow> fake_get kv' k = fake_get kv k"
      using st(3) by blast
    note snaps = table_catalogD(3) [OF inv(2)]
    have "schemas.holds c (fake_get kv') (cs_schemas \<sigma>)"
      by (rule schemas.holds_elsewhere [where P = "\<lambda>k. k \<notin> table_space c", OF _ keep])
         (use inv(4) schemas.apart in \<open>unfold objects_hold_def, blast+\<close>)
    moreover have "views.holds c (fake_get kv') (cs_views \<sigma>)"
      by (rule views.holds_elsewhere [where P = "\<lambda>k. k \<notin> table_space c", OF _ keep])
         (use inv(4) views.apart in \<open>unfold objects_hold_def, blast+\<close>)
    moreover have "macros.holds c (fake_get kv') (cs_macros \<sigma>)"
      by (rule macros.holds_elsewhere [where P = "\<lambda>k. k \<notin> table_space c", OF _ keep])
         (use inv(4) macros.apart in \<open>unfold objects_hold_def, blast+\<close>)
    moreover have "schemas.closed_history (cs_schemas \<sigma>) (cs_snapshots \<sigma> @ [s])"
      unfolding s_def by (rule schemas.closed_history_next [OF _ inv(3) snaps]) (use inv(4) in \<open>simp add: objects_hold_def\<close>)
    moreover have "views.closed_history (cs_views \<sigma>) (cs_snapshots \<sigma> @ [s])"
      unfolding s_def by (rule views.closed_history_next [OF _ inv(3) snaps]) (use inv(4) in \<open>simp add: objects_hold_def\<close>)
    moreover have "macros.closed_history (cs_macros \<sigma>) (cs_snapshots \<sigma> @ [s])"
      unfolding s_def by (rule macros.closed_history_next [OF _ inv(3) snaps]) (use inv(4) in \<open>simp add: objects_hold_def\<close>)
    ultimately show ?thesis by (simp add: objects_hold_def)
  qed
  ultimately have "catalog_inv kv' c (L @ [s]) ?\<sigma>" using assms(1) by (simp add: catalog_inv_def)
  with st(7) show ?thesis by (intro exI [of _ "L @ [s]"] exI [of _ ?\<sigma>]) (simp add: kept_at_def)
qed

end
