(* ===== verification/Cat_Catalog_History.thy ===== *)
theory Cat_Catalog_History
  imports Cat_Object_History
begin

text \<open>
  The guarantees of the catalog over its whole life, for tables, schemas, views and macros together.
\<close>

section \<open>Every step keeps the invariant\<close>

lemma objects_holdD:
  assumes "catalog_inv kv c L \<sigma>"
  shows "schemas.holds c (fake_get kv) (cs_schemas \<sigma>)" "schemas.closed_history (cs_schemas \<sigma>) (cs_snapshots \<sigma>)"
    "views.holds c (fake_get kv) (cs_views \<sigma>)" "views.closed_history (cs_views \<sigma>) (cs_snapshots \<sigma>)"
    "macros.holds c (fake_get kv) (cs_macros \<sigma>)" "macros.closed_history (cs_macros \<sigma>) (cs_snapshots \<sigma>)"
    "view_names_unique (open_views (cs_views \<sigma>))" "macro_identities_unique (open_macros (cs_macros \<sigma>))" "fake_wf kv"
    "latest_snapshot kv c = Inr (if cs_snapshots \<sigma> = [] then None else Some (last (cs_snapshots \<sigma>)))"
  using assms latest_of_catalog [OF catalog_invD(2) [OF assms]] table_catalogD(2) [OF catalog_invD(2) [OF assms]]
  by (simp_all add: catalog_inv_def objects_hold_def)

lemma create_schemas_preserves:
  assumes inv: "catalog_inv kv c L \<sigma>" and count: "counters_ok (snd (commit_create_schema_rows kv c now rows)) c"
    and rows: "distinct (map sr_schema_id rows)" "\<forall>r \<in> set rows. schema_row_ok r"
    "\<And>xs r x. list_schema_rows kv c = Inr xs \<Longrightarrow> r \<in> set rows \<Longrightarrow> x \<in> set xs \<Longrightarrow> end_order (sr_validity x) = None \<Longrightarrow>
        sr_schema_id x \<noteq> sr_schema_id r"
  shows "preserved kv c \<sigma> (snd (commit_create_schema_rows kv c now rows))"
proof (cases "rows = []")
  case True
  then show ?thesis using preserved_same [OF inv] by (simp add: commit_create_schema_rows_def)
next
  case False
  note O = objects_holdD [OF inv]
  have "list_schema_rows kv c = Inr (schemas.all_versions c (cs_schemas \<sigma>))"
    using schemas.scan_all [OF O(9,1)] by (simp add: list_schema_rows_def list_schema_rows_uncached_def)
  then have "schemas_creatable (cs_schemas \<sigma>) rows"
    using rows schemas.all_versions_spec(1) [OF O(1)] by (auto simp: schemas_creatable_def)
  from commit_create_schema_rows_outcome [OF catalog_invD(2,3) [OF inv] O(1,2) this False, of now] obtain kv' N where
    "snd (commit_create_schema_rows kv c now rows) = kv'"
    "schemas.object_step c kv kv' now (cs_snapshots \<sigma>) L (cs_tables \<sigma>) (cs_versions \<sigma>) (cs_schemas \<sigma>) {} N" by auto
  with schema_step [OF inv] count show ?thesis by blast
qed

lemma drop_schemas_preserves:
  assumes inv: "catalog_inv kv c L \<sigma>" and count: "counters_ok (snd (commit_drop_schema_rows kv c now ids)) c"
  shows "preserved kv c \<sigma> (snd (commit_drop_schema_rows kv c now ids))"
proof (cases "ids = [] \<or> cs_snapshots \<sigma> = []")
  case True
  then show ?thesis using preserved_same [OF inv] objects_holdD(10) [OF inv] by (auto simp: commit_drop_schema_rows_def)
next
  case False
  then have ne: "cs_snapshots \<sigma> \<noteq> []" "ids \<noteq> []" by simp_all
  note out = commit_drop_schema_rows_outcome [OF catalog_invD(2,3) [OF inv] ne(1) objects_holdD(1,2) [OF inv] ne(2), of now]
  show ?thesis
  proof (cases "schemas.all_open (cs_schemas \<sigma>) ids")
    case True
    from out(1) [OF True] obtain kv' E where "snd (commit_drop_schema_rows kv c now ids) = kv'"
      "schemas.object_step c kv kv' now (cs_snapshots \<sigma>) L (cs_tables \<sigma>) (cs_versions \<sigma>) (cs_schemas \<sigma>) E {}" by auto
    with schema_step [OF inv] count show ?thesis by blast
  next
    case False
    with out(2) [OF False] preserved_generated [OF inv] count show ?thesis by simp
  qed
qed

lemma create_view_preserves:
  assumes inv: "catalog_inv kv c L \<sigma>" and count: "counters_ok (snd (commit_create_view_row kv c now view)) c" and ok: "view_row_ok view"
  shows "preserved kv c \<sigma> (snd (commit_create_view_row kv c now view))"
proof (cases "view_conflict (open_views (cs_views \<sigma>)) view")
  case True
  from commit_create_view_row_outcome(2) [OF catalog_invD(2,3) [OF inv] objects_holdD(3,4) [OF inv] ok True, of now]
  have "snd (commit_create_view_row kv c now view) = kv" by auto
  with preserved_same [OF inv] show ?thesis by simp
next
  case False
  let ?new = "views.row_begun (next_commit_order kv) view"
  from commit_create_view_row_outcome(1) [OF catalog_invD(2,3) [OF inv] objects_holdD(3,4) [OF inv] ok False, of now] obtain kv' where
    kv': "snd (commit_create_view_row kv c now view) = kv'"
    "views.object_step c kv kv' now (cs_snapshots \<sigma>) L (cs_tables \<sigma>) (cs_versions \<sigma>) (cs_views \<sigma>) {} {?new}" by auto
  have com: "views.commits (next_commit_order kv) (cs_views \<sigma>) {} {?new}" using kv'(2) by (simp add: views.object_step_def)
  have "view_names_unique (insert ?new (open_views (cs_views \<sigma>)))"
    using view_names_add [OF objects_holdD(7) [OF inv], of ?new] False by (auto simp: view_conflict_def views.row_begun_def)
  then have "view_names_unique (open_views (views.committed (next_commit_order kv) (cs_views \<sigma>) {} {?new}))"
    unfolding open_committed(1) [OF com] by simp
  with view_step [OF inv _ kv'(2)] count kv'(1) show ?thesis by simp
qed

lemma comment_view_preserves:
  assumes inv: "catalog_inv kv c L \<sigma>" and count: "counters_ok (snd (commit_change_view_comment kv c now change)) c"
    and ok: "pred_option string_ok (vcc_comment change)"
  shows "preserved kv c \<sigma> (snd (commit_change_view_comment kv c now change))"
proof (cases "cs_snapshots \<sigma> = []")
  case True
  then show ?thesis using preserved_same [OF inv] objects_holdD(10) [OF inv] by (simp add: commit_change_view_comment_def)
next
  case ne: False
  note out = commit_change_view_comment_outcome [OF catalog_invD(2,3) [OF inv] ne objects_holdD(3,4) [OF inv] ok, where now = now]
  show ?thesis
  proof (cases "\<exists>row \<in> open_views (cs_views \<sigma>). vr_view_id row = vcc_view_id change")
    case True
    then obtain row where row: "row \<in> open_views (cs_views \<sigma>)" "vr_view_id row = vcc_view_id change" by blast
    let ?new = "views.row_begun (next_commit_order kv) (row\<lparr>vr_comment := vcc_comment change\<rparr>)"
    from out(1) [OF row] obtain kv' where kv': "snd (commit_change_view_comment kv c now change) = kv'"
      "views.object_step c kv kv' now (cs_snapshots \<sigma>) L (cs_tables \<sigma>) (cs_versions \<sigma>) (cs_views \<sigma>) {row} {?new}" by auto
    have com: "views.commits (next_commit_order kv) (cs_views \<sigma>) {row} {?new}" using kv'(2) by (simp add: views.object_step_def)
    have sel: "vr_schema_id ?new = vr_schema_id row" "vr_name ?new = vr_name row" by (simp_all add: views.row_begun_def)
    have "view_names_unique (insert ?new (open_views (cs_views \<sigma>) - {row}))"
    proof (rule view_names_add)
      show "view_names_unique (open_views (cs_views \<sigma>) - {row})"
        by (rule view_names_subset [OF objects_holdD(7) [OF inv]]) blast
      show "\<not> eq_ignore_ascii_case (vr_name x) (vr_name ?new)" if "x \<in> open_views (cs_views \<sigma>) - {row}" "vr_schema_id x = vr_schema_id ?new" for x
        using objects_holdD(7) [OF inv] that row(1) unfolding view_names_unique_def sel by blast
    qed
    then have "view_names_unique (open_views (views.committed (next_commit_order kv) (cs_views \<sigma>) {row} {?new}))"
      unfolding open_committed(1) [OF com] by simp
    with view_step [OF inv _ kv'(2)] count kv'(1) show ?thesis by simp
  next
    case False
    then have "commit_change_view_comment kv c now change = (Inl (NotFound ''view''), kv)" by (intro out(2)) blast
    with preserved_same [OF inv] show ?thesis by simp
  qed
qed

lemma rename_views_preserves:
  assumes inv: "catalog_inv kv c L \<sigma>" and count: "counters_ok (snd (commit_rename_views kv c now renames)) c"
    and ok: "\<forall>r \<in> set renames. string_ok (vrn_new_name r)"
  shows "preserved kv c \<sigma> (snd (commit_rename_views kv c now renames))"
proof -
  obtain res kv' where res: "commit_rename_views kv c now renames = (res, kv')" by force
  note O = objects_holdD [OF inv]
  consider "kv' = kv" | "kv' = snd (fake_generated_order_id kv)" | qs where "rename_free (open_views (cs_views \<sigma>)) qs"
    "distinct (map (\<lambda>q. vr_view_id (fst q)) qs)"
    "views.object_step c kv kv' now (cs_snapshots \<sigma>) L (cs_tables \<sigma>) (cs_versions \<sigma>) (cs_views \<sigma>) (set (map fst qs))
       (set (map rv_renamed (rename_rows (next_commit_order kv) qs)))"
    using commit_rename_views_outcome [OF catalog_invD(2,3) [OF inv] O(3,4) ok res] by (elim disjE exE conjE)
  then show ?thesis
  proof cases
    case 1
    then show ?thesis using preserved_same [OF inv] by (simp add: res)
  next
    case 2
    then show ?thesis using preserved_generated [OF inv] count by (simp add: res)
  next
    case (3 qs)
    have com: "views.commits (next_commit_order kv) (cs_views \<sigma>) (set (map fst qs)) (set (map rv_renamed (rename_rows (next_commit_order kv) qs)))"
      using 3(3) unfolding views.object_step_def by blast
    have ids: "x = y" if "x \<in> open_views (cs_views \<sigma>)" "y \<in> open_views (cs_views \<sigma>)" "vr_view_id x = vr_view_id y" for x y
      using that views.open_one [OF O(3), of x y] O(4) by (auto simp: open_views_def views.closed_history_def)
    have "view_names_unique (open_views (views.committed (next_commit_order kv) (cs_views \<sigma>) (set (map fst qs))
        (set (map rv_renamed (rename_rows (next_commit_order kv) qs)))))"
      unfolding open_committed(1) [OF com] unfolding set_map by (rule view_names_rename [OF O(7) 3(1,2)]) (rule ids)
    from view_step [OF inv _ 3(3) this] count show ?thesis by (simp add: res)
  qed
qed

lemma drop_views_preserves:
  assumes inv: "catalog_inv kv c L \<sigma>" and count: "counters_ok (snd (commit_drop_views kv c now ids)) c"
  shows "preserved kv c \<sigma> (snd (commit_drop_views kv c now ids))"
proof (cases "ids = [] \<or> cs_snapshots \<sigma> = [] \<or> \<not> distinct ids")
  case True
  have "\<exists>e. reject_duplicate_view_ids ids = Inl e" if "\<not> distinct ids"
    using that insert_unique_distinct [of "InvalidMutation ''view is listed more than once for drop''" id ids "{}"]
    by (cases "reject_duplicate_view_ids ids") (auto simp: reject_duplicate_view_ids_def rbind_Inr_iff)
  with True have "snd (commit_drop_views kv c now ids) = kv"
    using objects_holdD(10) [OF inv] by (cases "reject_duplicate_view_ids ids") (auto simp: commit_drop_views_def)
  with preserved_same [OF inv] show ?thesis by simp
next
  case False
  then have ne: "cs_snapshots \<sigma> \<noteq> []" "ids \<noteq> []" "distinct ids" by simp_all
  note O = objects_holdD [OF inv]
  note out = commit_drop_views_outcome [OF catalog_invD(2,3) [OF inv] ne(1) O(3,4) ne(2,3), of now]
  show ?thesis
  proof (cases "views.all_open (cs_views \<sigma>) ids")
    case True
    from out(1) [OF True] obtain kv' E where kv': "snd (commit_drop_views kv c now ids) = kv'"
      "views.object_step c kv kv' now (cs_snapshots \<sigma>) L (cs_tables \<sigma>) (cs_versions \<sigma>) (cs_views \<sigma>) E {}" by auto
    have com: "views.commits (next_commit_order kv) (cs_views \<sigma>) E {}" using kv'(2) unfolding views.object_step_def by blast
    have "view_names_unique (open_views (views.committed (next_commit_order kv) (cs_views \<sigma>) E {}))"
      unfolding open_committed(1) [OF com] by (rule view_names_subset [OF O(7)]) blast
    from view_step [OF inv _ kv'(2) this] count kv'(1) show ?thesis by simp
  next
    case False
    with out(2) [OF False] preserved_generated [OF inv] count show ?thesis by simp
  qed
qed

lemma create_macros_preserves:
  assumes inv: "catalog_inv kv c L \<sigma>" and count: "counters_ok (snd (commit_create_macro_rows kv c now rows None)) c"
    and ok: "\<forall>r \<in> set rows. macro_row_ok r" "latest_snapshot kv c \<noteq> Inr None"
  shows "preserved kv c \<sigma> (snd (commit_create_macro_rows kv c now rows None))"
proof (cases "rows = []")
  case True
  then show ?thesis using preserved_same [OF inv] by (simp add: commit_create_macro_rows_def)
next
  case False
  note O = objects_holdD [OF inv]
  have ne: "cs_snapshots \<sigma> \<noteq> []" using ok(2) O(10) by auto
  note out = commit_create_macro_rows_outcome [OF catalog_invD(2,3) [OF inv] ne O(5,6) ok(1) False, where now = now]
  show ?thesis
  proof (cases "macros_creatable (open_macros (cs_macros \<sigma>)) rows")
    case True
    let ?new = "macros.row_begun (next_commit_order kv) ` set rows"
    from out(1) [OF True] obtain kv' where kv': "snd (commit_create_macro_rows kv c now rows None) = kv'"
      "macros.object_step c kv kv' now (cs_snapshots \<sigma>) L (cs_tables \<sigma>) (cs_versions \<sigma>) (cs_macros \<sigma>) {} ?new" by auto
    have com: "macros.commits (next_commit_order kv) (cs_macros \<sigma>) {} ?new" using kv'(2) unfolding macros.object_step_def by blast
    have "macro_identities_unique (open_macros (macros.committed (next_commit_order kv) (cs_macros \<sigma>) {} ?new))"
      unfolding open_committed(2) [OF com] using macro_identities_create [OF O(8) True] by simp
    from macro_step [OF inv _ kv'(2) this] count kv'(1) show ?thesis by simp
  next
    case False
    from out(2) [OF False] have "snd (commit_create_macro_rows kv c now rows None) = kv" by auto
    with preserved_same [OF inv] show ?thesis by simp
  qed
qed

lemma drop_macros_preserves:
  assumes inv: "catalog_inv kv c L \<sigma>" and count: "counters_ok (snd (commit_drop_macros kv c now ids None)) c"
  shows "preserved kv c \<sigma> (snd (commit_drop_macros kv c now ids None))"
proof (cases "ids = [] \<or> cs_snapshots \<sigma> = [] \<or> \<not> distinct ids")
  case True
  have "\<exists>e. reject_duplicate_macro_ids ids = Inl e" if "\<not> distinct ids"
    using that insert_unique_distinct [of "InvalidMutation ''macro is listed more than once for drop''" id ids "{}"]
    by (cases "reject_duplicate_macro_ids ids") (auto simp: reject_duplicate_macro_ids_def rbind_Inr_iff)
  with True have "snd (commit_drop_macros kv c now ids None) = kv"
    using objects_holdD(10) [OF inv] by (cases "reject_duplicate_macro_ids ids") (auto simp: commit_drop_macros_def)
  with preserved_same [OF inv] show ?thesis by simp
next
  case False
  then have ne: "cs_snapshots \<sigma> \<noteq> []" "ids \<noteq> []" "distinct ids" by simp_all
  note O = objects_holdD [OF inv]
  note out = commit_drop_macros_outcome [OF catalog_invD(2,3) [OF inv] ne(1) O(5,6) ne(2,3), of now]
  show ?thesis
  proof (cases "macros.all_open (cs_macros \<sigma>) ids")
    case True
    from out(1) [OF True] obtain kv' E where kv': "snd (commit_drop_macros kv c now ids None) = kv'"
      "macros.object_step c kv kv' now (cs_snapshots \<sigma>) L (cs_tables \<sigma>) (cs_versions \<sigma>) (cs_macros \<sigma>) E {}" by auto
    have com: "macros.commits (next_commit_order kv) (cs_macros \<sigma>) E {}" using kv'(2) unfolding macros.object_step_def by blast
    have "macro_identities_unique (open_macros (macros.committed (next_commit_order kv) (cs_macros \<sigma>) E {}))"
      unfolding open_committed(2) [OF com] using O(8) by (auto simp: macro_identities_unique_def)
    from macro_step [OF inv _ kv'(2) this] count kv'(1) show ?thesis by simp
  next
    case False
    from out(2) [OF False] have "snd (commit_drop_macros kv c now ids None) = snd (fake_generated_order_id kv)" by auto
    with preserved_generated [OF inv] count show ?thesis by simp
  qed
qed

lemma catalog_step_preserves:
  assumes "catalog_inv kv c L \<sigma>" "catalog_step c kv kv'"
  shows "preserved kv c \<sigma> kv'"
  using assms(2)
proof cases
  case tables
  then show ?thesis by (rule table_step_preserves [OF assms(1)])
next
  case (create_schemas now rows)
  then show ?thesis using create_schemas_preserves [OF assms(1)] by simp
next
  case (drop_schemas now ids)
  then show ?thesis using drop_schemas_preserves [OF assms(1)] by simp
next
  case (create_view now view)
  then show ?thesis using create_view_preserves [OF assms(1)] by simp
next
  case (comment_view now change)
  then show ?thesis using comment_view_preserves [OF assms(1)] by simp
next
  case (rename_views now renames)
  then show ?thesis using rename_views_preserves [OF assms(1)] by simp
next
  case (drop_views now ids)
  then show ?thesis using drop_views_preserves [OF assms(1)] by simp
next
  case (create_macros now rows)
  then show ?thesis using create_macros_preserves [OF assms(1)] by simp
next
  case (drop_macros now ids)
  then show ?thesis using drop_macros_preserves [OF assms(1)] by simp
qed

section \<open>Reachable catalogs\<close>

inductive catalog_reachable :: "catalog_id \<Rightarrow> fake_kv \<Rightarrow> bool" for c where
  start: "catalog_reachable c fake_new"
| commit: "catalog_reachable c kv \<Longrightarrow> catalog_step c kv kv' \<Longrightarrow> catalog_reachable c kv'"

inductive catalog_history :: "catalog_id \<Rightarrow> catalog_order_id \<Rightarrow> fake_kv \<Rightarrow> fake_kv \<Rightarrow> bool" for c o1 kv where
  none: "catalog_history c o1 kv kv"
| step: "catalog_history c o1 kv kv1 \<Longrightarrow> catalog_step c kv1 kv2 \<Longrightarrow> o1 < next_commit_order kv1 \<Longrightarrow> catalog_history c o1 kv kv2"

definition catalog_state_new :: catalog_state where
  "catalog_state_new = \<lparr>cs_snapshots = [], cs_versions = [], cs_tables = {}, cs_schemas = {}, cs_views = {}, cs_macros = {}\<rparr>"

context object_kind
begin

lemma no_rows: "holds Map.empty {}" "closed_history {} []"
  by (simp_all add: holds_def closed_history_def versions_wf_def)

lemma found_is_listed:
  assumes "holds (fake_get kv) S" "versions_wf oid win S"
    and r: "\<And>y. r = Some y \<longleftrightarrow> y \<in> S \<and> oid y = i \<and> is_visible_at (win y) ord"
  shows "r = find (\<lambda>x. oid x = i) (visible_rows ord S)"
proof (rule option_eqI)
  fix y
  define xs where "xs = visible_rows ord S"
  have listed: "x \<in> set xs \<longleftrightarrow> x \<in> S \<and> is_visible_at (win x) ord" for x
    using visible_rows_spec(1) [OF assms(1), of ord] unfolding xs_def by auto
  show "r = Some y \<longleftrightarrow> find (\<lambda>x. oid x = i) (visible_rows ord S) = Some y"
    unfolding xs_def [symmetric]
  proof
    assume "r = Some y"
    then have y: "y \<in> set xs" "oid y = i" by (simp_all add: r listed)
    then obtain z where z: "find (\<lambda>x. oid x = i) xs = Some z" by (cases "find (\<lambda>x. oid x = i) xs") (auto simp: find_None_iff)
    then have "z \<in> set xs" "oid z = i" by (auto simp: find_Some_iff)
    with y visible_one [OF assms(1,2), of z y ord] listed z show "find (\<lambda>x. oid x = i) xs = Some y" by simp
  next
    assume "find (\<lambda>x. oid x = i) xs = Some y"
    then have "y \<in> set xs" "oid y = i" by (auto simp: find_Some_iff)
    then show "r = Some y" by (simp add: r listed)
  qed
qed

end

lemma catalog_inv_new: "catalog_inv fake_new c [] catalog_state_new"
proof -
  have "fake_get fake_new = Map.empty" by (simp add: fake_new_def fake_get_def [abs_def])
  then show ?thesis
    using table_inv_new [of c] schemas.no_rows views.no_rows macros.no_rows
    by (simp add: catalog_inv_def objects_hold_def catalog_state_new_def open_views_def open_macros_def view_names_unique_def
        macro_identities_unique_def)
qed

lemma catalog_reachable_inv: "catalog_reachable c kv \<Longrightarrow> \<exists>L \<sigma>. catalog_inv kv c L \<sigma>"
  by (induction rule: catalog_reachable.induct) (use catalog_inv_new catalog_step_preserves in blast)+

lemma kept_at_trans: "kept_at o1 \<sigma> \<sigma>1 \<Longrightarrow> kept_at o1 \<sigma>1 \<sigma>2 \<Longrightarrow> kept_at o1 \<sigma> \<sigma>2"
  by (simp add: kept_at_def)

lemma catalog_history_keeps:
  assumes "catalog_history c o1 kv kv'" "catalog_inv kv c L \<sigma>"
  shows "\<exists>L' \<sigma>'. catalog_inv kv' c L' \<sigma>' \<and> kept_at o1 \<sigma> \<sigma>'"
  using assms(1)
proof (induction rule: catalog_history.induct)
  case none
  then show ?case using assms(2) by (auto simp: kept_at_def)
next
  case (step kv1 kv2)
  then obtain L1 \<sigma>1 where 1: "catalog_inv kv1 c L1 \<sigma>1" "kept_at o1 \<sigma> \<sigma>1" by blast
  from catalog_step_preserves [OF 1(1) step.hyps(2)] obtain L2 \<sigma>2 where
    "catalog_inv kv2 c L2 \<sigma>2" "\<forall>o1. o1 < next_commit_order kv1 \<longrightarrow> kept_at o1 \<sigma>1 \<sigma>2" by blast
  with step.hyps(3) 1(2) kept_at_trans show ?case by blast
qed

text \<open>What the listings of a catalog return.\<close>

lemma catalog_reads:
  assumes "catalog_inv kv c L \<sigma>"
  shows "list_schemas_at kv c ord = Inr (schemas.visible_rows c ord (cs_schemas \<sigma>))"
    "list_views_at kv c ord = Inr (views.visible_rows c ord (cs_views \<sigma>))"
    "list_macros_at kv c ord = Inr (macros.visible_rows c ord (cs_macros \<sigma>))"
    "\<exists>xs. list_tables_at kv c ord = Inr xs \<and> lists_visible (cs_tables \<sigma>) ord xs"
  using objects_holdD [OF assms] list_tables_at_lists_visible [OF table_catalogD(2-4,6,7) [OF catalog_invD(2) [OF assms]]]
  by (simp_all add: list_schemas_at_reads list_views_at_reads list_macros_at_reads)

lemma catalog_versions_wf:
  assumes "catalog_inv kv c L \<sigma>"
  shows "versions_wf sr_schema_id sr_validity (cs_schemas \<sigma>)" "versions_wf vr_view_id vr_validity (cs_views \<sigma>)"
    "versions_wf mr_macro_id mr_validity (cs_macros \<sigma>)"
  using objects_holdD [OF assms] by (simp_all add: schemas.closed_history_def views.closed_history_def macros.closed_history_def)

definition same_rows :: "('a \<Rightarrow> 'b) \<Rightarrow> 'a list catalog_result \<Rightarrow> 'a list catalog_result \<Rightarrow> bool" where
  "same_rows f l l' = (case l of Inl _ \<Rightarrow> False | Inr xs \<Rightarrow> (case l' of Inl _ \<Rightarrow> False | Inr ys \<Rightarrow> map f ys = map f xs))"

definition reads_agree ::
    "('a \<Rightarrow> u64) \<Rightarrow> ('a \<Rightarrow> validity_window) \<Rightarrow> catalog_order_id \<Rightarrow> 'a list catalog_result \<Rightarrow> 'a list catalog_result \<Rightarrow>
     (u64 \<Rightarrow> 'a option catalog_result) \<Rightarrow> bool" where
  "reads_agree oid win ord rows listed load \<longleftrightarrow> (\<exists>xs ys. rows = Inr xs \<and> listed = Inr ys \<and>
     ys = filter (\<lambda>x. is_visible_at (win x) ord) xs \<and> sorted_wrt (\<lambda>x y. oid x < oid y) ys \<and>
     (\<forall>i. load i = Inr (find (\<lambda>x. oid x = i) ys)))"

abbreviation open_window :: "validity_window \<Rightarrow> validity_window" where
  "open_window w \<equiv> w\<lparr>end_order := None\<rparr>"

section \<open>An example\<close>

abbreviation example_begun :: view_row where
  "example_begun \<equiv> views.row_begun (uuid_v7 1) example_view"

lemma example_view_ok: "view_row_ok example_view"
  by (simp add: view_row_ok_def example_view_def view_row_new_def string_ok_def ascii_def utf8_valid.simps)

lemma example_view_created:
  obtains kv where "commit_create_view_row fake_new 7 0 example_view = (Inr example_begun, kv)" "catalog_step 7 fake_new kv"
    "catalog_reachable 7 kv" "latest_snapshot kv 7 = Inr (Some (next_snapshot 0 fake_new []))"
    "\<And>ord. list_tables_at kv 7 ord = Inr []" "\<And>ord. list_macros_at kv 7 ord = Inr []"
proof -
  note inv = catalog_inv_new [of 7]
  note O = objects_holdD [OF inv] and C = catalog_invD [OF inv]
  have zero: "next_order fake_new = 0" by (simp add: fake_new_def)
  have "\<not> view_conflict (open_views (cs_views catalog_state_new)) example_view"
    by (simp add: catalog_state_new_def view_conflict_def open_views_def)
  from commit_create_view_row_outcome(1) [OF C(2,3) O(3,4) example_view_ok this, of 0] obtain kv where
    kv: "commit_create_view_row fake_new 7 0 example_view = (Inr example_begun, kv)"
    and st: "views.object_step 7 fake_new kv 0 [] [] {} [] {} {} {example_begun}"
    by (auto simp: zero catalog_state_new_def)
  have latest: "latest_snapshot kv 7 = Inr (Some (next_snapshot 0 fake_new []))"
    using latest_of_catalog [of kv 7] st by (auto simp: views.object_step_def)
  then have counters: "counters_ok kv 7"
    using st by (simp add: counters_ok_def views.object_step_def zero snapshot_row_for_next_sequence_def snapshot_row_new_def
        snapshot_row_with_created_at_micros_def raw_sequence_initial_def word_less_nat_alt unat_minus_one_word)
  have step: "catalog_step 7 fake_new kv"
    by (rule catalog_step.create_view [OF _ example_view_ok counters, of _ 0]) (simp add: kv)
  have cat: "table_catalog kv 7 [next_snapshot 0 fake_new []] [next_snapshot 0 fake_new []] {} (next_version fake_new [])"
    using st by (simp add: views.object_step_def)
  have tables: "list_tables_at kv 7 ord = Inr []" for ord
    using list_tables_at_lists_visible [OF table_catalogD(2-4,6,7) [OF cat], of ord] by (auto simp: lists_visible_def)
  have "macros.holds 7 (fake_get kv) {}"
    by (rule macros.holds_elsewhere [where kv = fake_new and P = "\<lambda>k. \<not> prefix (view_object_scan_prefix 7) k"])
       (use O(5) st tags_apart(3) in \<open>auto simp: views.object_step_def catalog_state_new_def\<close>)
  then have "list_macros_at kv 7 ord = Inr []" for ord
    using list_macros_at_reads [OF table_catalogD(2) [OF cat], where S = "{}" and ord = ord] macros.all_versions_spec(1) [where c = 7 and kv = kv and S = "{}"] by simp
  from that [OF kv step catalog_reachable.commit [OF catalog_reachable.start step] latest tables this] show thesis .
qed

section \<open>Properties\<close>



text \<open>C35: What the schema, view and macro stores return at an order. In every reachable catalog, listing at an order
  keeps exactly the stored versions visible there, no two of one object and by ascending id, and the point read of
  an object, which looks only at its newest version begun by then, finds the object's row of that list.\<close>
theorem objects_at_exact:
  assumes "catalog_reachable c kv"
  shows "reads_agree sr_schema_id sr_validity ord (list_schema_rows kv c) (list_schemas_at kv c ord) (\<lambda>i. load_schema_at kv c i ord) \<and>
    reads_agree vr_view_id vr_validity ord (list_view_rows kv c) (list_views_at kv c ord) (\<lambda>i. load_view_at kv c i ord) \<and>
    reads_agree mr_macro_id mr_validity ord (list_macro_rows kv c) (list_macros_at kv c ord) (\<lambda>i. load_macro_at kv c i ord)"
proof -
  obtain L \<sigma> where I: "catalog_inv kv c L \<sigma>" using catalog_reachable_inv [OF assms] by blast
  note O = objects_holdD [OF I] and W = catalog_versions_wf [OF I] and R = catalog_reads [OF I]
  have "load_schema_at kv c i ord = Inr (find (\<lambda>r. sr_schema_id r = i) (schemas.visible_rows c ord (cs_schemas \<sigma>)))" for i
    using load_schema_at_reads [OF O(9,1) W(1), of i ord] schemas.found_is_listed [OF O(1) W(1)] by blast
  then have 1: "reads_agree sr_schema_id sr_validity ord (list_schema_rows kv c) (list_schemas_at kv c ord) (\<lambda>i. load_schema_at kv c i ord)"
    using schemas.scan_all [OF O(9,1)] schemas.visible_rows_sorted [OF O(1) W(1), of ord] R(1)
    by (auto simp: reads_agree_def list_schema_rows_def list_schema_rows_uncached_def)
  have "load_view_at kv c i ord = Inr (find (\<lambda>r. vr_view_id r = i) (views.visible_rows c ord (cs_views \<sigma>)))" for i
    using load_view_at_reads [OF O(9,3) W(2), of i ord] views.found_is_listed [OF O(3) W(2)] by blast
  then have 2: "reads_agree vr_view_id vr_validity ord (list_view_rows kv c) (list_views_at kv c ord) (\<lambda>i. load_view_at kv c i ord)"
    using views.scan_all [OF O(9,3)] views.visible_rows_sorted [OF O(3) W(2), of ord] R(2)
    by (auto simp: reads_agree_def list_view_rows_def list_view_rows_uncached_def)
  have "load_macro_at kv c i ord = Inr (find (\<lambda>r. mr_macro_id r = i) (macros.visible_rows c ord (cs_macros \<sigma>)))" for i
    using load_macro_at_reads [OF O(9,5) W(3), of i ord] macros.found_is_listed [OF O(5) W(3)] by blast
  then have 3: "reads_agree mr_macro_id mr_validity ord (list_macro_rows kv c) (list_macros_at kv c ord) (\<lambda>i. load_macro_at kv c i ord)"
    using macros.scan_all [OF O(9,5)] macros.visible_rows_sorted [OF O(5) W(3), of ord] R(3)
    by (auto simp: reads_agree_def list_macro_rows_def list_macro_rows_uncached_def)
  from 1 2 3 show ?thesis by blast
qed

theorem objects_at_exact_witness:
  "\<exists>kv. catalog_reachable 7 kv \<and>
     reads_agree vr_view_id vr_validity (uuid_v7 1) (list_view_rows kv 7) (list_views_at kv 7 (uuid_v7 1)) (\<lambda>i. load_view_at kv 7 i (uuid_v7 1))"
proof -
  obtain kv where kv: "catalog_reachable 7 kv" by (rule example_view_created)
  with objects_at_exact [OF kv] show ?thesis by blast
qed

text \<open>C2: Names of views and macros stay unique. At the latest snapshot of every reachable catalog no two views of a
  schema have the same name when case is ignored, and no two macros share a schema, a name and a macro type.\<close>
theorem object_names_unique:
  assumes "catalog_reachable c kv" "latest_snapshot kv c = Inr (Some s)"
  shows "\<exists>vs ms. list_views_at kv c (sn_order s) = Inr vs \<and> list_macros_at kv c (sn_order s) = Inr ms \<and>
    distinct (map (\<lambda>v. (vr_schema_id v, to_ascii_lowercase (vr_name v))) vs) \<and>
    sorted_wrt (\<lambda>a b. \<forall>t \<in> macro_types a \<inter> macro_types b. (mr_schema_id a, mr_name a) \<noteq> (mr_schema_id b, mr_name b)) ms"
proof -
  obtain L \<sigma> where I: "catalog_inv kv c L \<sigma>" using catalog_reachable_inv [OF assms(1)] by blast
  note O = objects_holdD [OF I] and W = catalog_versions_wf [OF I] and R = catalog_reads [OF I]
  have H: "cs_snapshots \<sigma> \<noteq> []" "s = last (cs_snapshots \<sigma>)" using O(10) assms(2) by (auto split: if_splits)
  define vs where "vs = views.visible_rows c (sn_order s) (cs_views \<sigma>)"
  define ms where "ms = macros.visible_rows c (sn_order s) (cs_macros \<sigma>)"
  have "set vs = {x \<in> cs_views \<sigma>. is_visible_at (vr_validity x) (sn_order s)}" unfolding vs_def by (rule views.visible_rows_spec(1) [OF O(3)])
  also have "\<dots> = open_views (cs_views \<sigma>)"
    using views.visible_latest [of "sn_order s" "cs_views \<sigma>"] O(4) H unfolding open_views_def by (auto simp: views.closed_history_def)
  finally have "inj_on (\<lambda>v. (vr_schema_id v, to_ascii_lowercase (vr_name v))) (set vs)"
    using O(7) by (auto simp: inj_on_def view_names_unique_def eq_ignore_ascii_case_def)
  moreover have "distinct vs" unfolding vs_def by (rule views.visible_rows_spec(2) [OF O(3)])
  ultimately have vs: "distinct (map (\<lambda>v. (vr_schema_id v, to_ascii_lowercase (vr_name v))) vs)" by (simp add: distinct_map)
  have "set ms = {x \<in> cs_macros \<sigma>. is_visible_at (mr_validity x) (sn_order s)}" unfolding ms_def by (rule macros.visible_rows_spec(1) [OF O(5)])
  also have "\<dots> = open_macros (cs_macros \<sigma>)"
    using macros.visible_latest [of "sn_order s" "cs_macros \<sigma>"] O(6) H unfolding open_macros_def by (auto simp: macros.closed_history_def)
  finally have apart: "macro_identities a \<inter> macro_identities b = {}" if "a \<in> set ms" "b \<in> set ms" "mr_macro_id a < mr_macro_id b" for a b
    using O(8) that unfolding macro_identities_unique_def by blast
  have "sorted_wrt (\<lambda>a b. mr_macro_id a < mr_macro_id b) ms" unfolding ms_def by (rule macros.visible_rows_sorted [OF O(5) W(3)])
  then have "sorted_wrt (\<lambda>a b. \<forall>t \<in> macro_types a \<inter> macro_types b. (mr_schema_id a, mr_name a) \<noteq> (mr_schema_id b, mr_name b)) ms"
    by (rule sorted_wrt_mono_rel [rotated]) (drule (2) apart, auto simp: macro_identities_def)
  with vs R(2,3) show ?thesis unfolding vs_def ms_def by blast
qed

theorem object_names_unique_witness:
  "\<exists>kv s vs. catalog_reachable 7 kv \<and> latest_snapshot kv 7 = Inr (Some s) \<and> list_views_at kv 7 (sn_order s) = Inr vs \<and>
     distinct (map (\<lambda>v. (vr_schema_id v, to_ascii_lowercase (vr_name v))) vs)"
proof -
  obtain kv where kv: "catalog_reachable 7 kv" "latest_snapshot kv 7 = Inr (Some (next_snapshot 0 fake_new []))"
    by (rule example_view_created)
  with object_names_unique [OF kv] show ?thesis by blast
qed

end
