(* ===== verification/Cat_Catalog_Current.thy ===== *)
theory Cat_Catalog_Current
  imports Cat_Catalog_History
begin

text \<open>
  The current objects of a catalog, as an interactive user sees them: the views at the latest snapshot are a map from
  ids to rows, which creating, commenting and dropping views update like a map, and fresh objects can always be created.
\<close>

section \<open>The current views as a map\<close>

definition current_view :: "fake_kv \<Rightarrow> catalog_id \<Rightarrow> table_id \<Rightarrow> view_row option" where
  "current_view kv c i =
     (case latest_snapshot kv c of
        Inr (Some s) \<Rightarrow> (case load_view_at kv c i (sn_order s) of Inr r \<Rightarrow> r | Inl _ \<Rightarrow> None)
      | _ \<Rightarrow> None)"

lemma current_view_iff:
  assumes "table_catalog kv c H L T vs" "views.holds c (fake_get kv) S" "views.closed_history S H"
  shows "current_view kv c i = Some y \<longleftrightarrow> y \<in> open_views S \<and> vr_view_id y = i"
proof (cases "H = []")
  case True
  with assms(3) show ?thesis by (simp add: current_view_def latest_of_catalog [OF assms(1)] views.closed_history_def open_views_def)
next
  case False
  then have wf: "versions_wf vr_view_id vr_validity S" "views.rows_upto (sn_order (last H)) S"
    using assms(3) by (simp_all add: views.closed_history_def)
  from load_view_at_reads [OF table_catalogD(2) [OF assms(1)] assms(2) wf(1), of i "sn_order (last H)"] obtain r where
    r: "load_view_at kv c i (sn_order (last H)) = Inr r"
    "r = Some y \<longleftrightarrow> y \<in> S \<and> vr_view_id y = i \<and> is_visible_at (vr_validity y) (sn_order (last H))" by blast
  have "current_view kv c i = r" using False r(1) by (simp add: current_view_def latest_of_catalog [OF assms(1)])
  with r(2) views.visible_latest [OF wf(2), of y] show ?thesis unfolding open_views_def by blast
qed

lemma current_view_committed:
  assumes "catalog_inv kv c L \<sigma>"
    "views.object_step c kv kv' now (cs_snapshots \<sigma>) L (cs_tables \<sigma>) (cs_versions \<sigma>) (cs_views \<sigma>) E N"
  shows "current_view kv' c i = Some y \<longleftrightarrow> (current_view kv c i = Some y \<and> y \<notin> E) \<or> y \<in> N \<and> vr_view_id y = i"
proof -
  note O = objects_holdD [OF assms(1)]
  note st = assms(2) [unfolded views.object_step_def]
  have com: "views.commits (next_commit_order kv) (cs_views \<sigma>) E N" using st by blast
  have "current_view kv' c i = Some y \<longleftrightarrow> y \<in> open_views (views.committed (next_commit_order kv) (cs_views \<sigma>) E N) \<and> vr_view_id y = i"
    by (rule current_view_iff) (use st in blast)+
  then show ?thesis
    unfolding open_committed(1) [OF com] current_view_iff [OF catalog_invD(2) [OF assms(1)] O(3,4)] by blast
qed

lemma current_views_open:
  assumes "catalog_inv kv c L \<sigma>"
  shows "current_view kv c i = Some y \<longleftrightarrow> y \<in> open_views (cs_views \<sigma>) \<and> vr_view_id y = i"
    "ran (current_view kv c) = open_views (cs_views \<sigma>)"
proof -
  note O = objects_holdD [OF assms]
  show iff: "current_view kv c i = Some y \<longleftrightarrow> y \<in> open_views (cs_views \<sigma>) \<and> vr_view_id y = i" for i y
    by (rule current_view_iff [OF catalog_invD(2) [OF assms] O(3,4)])
  show "ran (current_view kv c) = open_views (cs_views \<sigma>)" by (auto simp: ran_def iff)
qed

lemma create_view_on_map:
  assumes inv: "catalog_inv kv c L \<sigma>" and ok: "view_row_ok view"
  defines "new \<equiv> view\<lparr>vr_validity := validity_new (next_commit_order kv) None\<rparr>"
  shows "case commit_create_view_row kv c now view of
      (Inr r, kv') \<Rightarrow> r = new \<and> \<not> view_conflict (ran (current_view kv c)) view \<and>
        current_view kv' c = (current_view kv c)(vr_view_id view \<mapsto> new)
    | (Inl e, kv') \<Rightarrow> view_conflict (ran (current_view kv c)) view \<and> kv' = kv"
proof -
  note O = objects_holdD [OF inv]
  note out = commit_create_view_row_outcome [OF catalog_invD(2,3) [OF inv] O(3,4) ok, of now]
  show ?thesis
  proof (cases "view_conflict (open_views (cs_views \<sigma>)) view")
    case True
    from out(2) [OF this] True show ?thesis by (auto simp: current_views_open(2) [OF inv])
  next
    case False
    from out(1) [OF this] obtain kv' where kv': "commit_create_view_row kv c now view = (Inr new, kv')"
      "views.object_step c kv kv' now (cs_snapshots \<sigma>) L (cs_tables \<sigma>) (cs_versions \<sigma>) (cs_views \<sigma>) {} {new}"
      by (auto simp: new_def views.row_begun_def)
    have id: "vr_view_id new = vr_view_id view" by (simp add: new_def)
    have free: "current_view kv c (vr_view_id view) = None"
      using False current_views_open(1) [OF inv, of "vr_view_id view"]
      by (cases "current_view kv c (vr_view_id view)") (auto simp: view_conflict_def)
    have "current_view kv' c i = ((current_view kv c)(vr_view_id view \<mapsto> new)) i" for i
      by (rule option_eqI) (use current_view_committed [OF inv kv'(2), of i] free id in auto)
    then have "current_view kv' c = (current_view kv c)(vr_view_id view \<mapsto> new)" by (rule ext)
    with False show ?thesis by (simp add: kv'(1) current_views_open(2) [OF inv])
  qed
qed

lemma comment_view_on_map:
  assumes inv: "catalog_inv kv c L \<sigma>" and ok: "pred_option string_ok (vcc_comment change)"
  shows "case commit_change_view_comment kv c now change of
      (Inr r, kv') \<Rightarrow> (\<exists>row. current_view kv c (vcc_view_id change) = Some row \<and>
        r = \<lparr>cvc_view_id = vcc_view_id change, cvc_previous = vr_comment row, cvc_changed = vcc_comment change\<rparr> \<and>
        current_view kv' c = (current_view kv c)(vcc_view_id change \<mapsto>
          row\<lparr>vr_comment := vcc_comment change, vr_validity := validity_new (next_commit_order kv) None\<rparr>))
    | (Inl e, kv') \<Rightarrow> current_view kv c (vcc_view_id change) = None \<and> kv' = kv"
proof (cases "cs_snapshots \<sigma> = []")
  case True
  then have "latest_snapshot kv c = Inr None" using objects_holdD(10) [OF inv] by simp
  then show ?thesis by (simp add: commit_change_view_comment_def current_view_def)
next
  case ne: False
  note O = objects_holdD [OF inv]
  note out = commit_change_view_comment_outcome [OF catalog_invD(2,3) [OF inv] ne O(3,4) ok, where now = now]
  show ?thesis
  proof (cases "current_view kv c (vcc_view_id change)")
    case None
    then have "commit_change_view_comment kv c now change = (Inl (NotFound ''view''), kv)"
      by (intro out(2)) (use current_views_open(1) [OF inv, of "vcc_view_id change"] in auto)
    with None show ?thesis by simp
  next
    case (Some row)
    then have row: "row \<in> open_views (cs_views \<sigma>)" "vr_view_id row = vcc_view_id change" using current_views_open(1) [OF inv] by blast+
    define new where "new = row\<lparr>vr_comment := vcc_comment change, vr_validity := validity_new (next_commit_order kv) None\<rparr>"
    from out(1) [OF row] obtain kv' where kv': "commit_change_view_comment kv c now change =
        (Inr \<lparr>cvc_view_id = vcc_view_id change, cvc_previous = vr_comment row, cvc_changed = vcc_comment change\<rparr>, kv')"
      "views.object_step c kv kv' now (cs_snapshots \<sigma>) L (cs_tables \<sigma>) (cs_versions \<sigma>) (cs_views \<sigma>) {row} {new}"
      by (auto simp: new_def views.row_begun_def)
    have id: "vr_view_id new = vcc_view_id change" using row(2) by (simp add: new_def)
    have "current_view kv' c i = ((current_view kv c)(vcc_view_id change \<mapsto> new)) i" for i
    proof (rule option_eqI)
      fix y
      have "y = row \<longrightarrow> i = vcc_view_id change" if "current_view kv c i = Some y" using that current_views_open(1) [OF inv] row(2) by auto
      then show "current_view kv' c i = Some y \<longleftrightarrow> ((current_view kv c)(vcc_view_id change \<mapsto> new)) i = Some y"
        using current_view_committed [OF inv kv'(2), of i y] Some id by auto
    qed
    then have "current_view kv' c = (current_view kv c)(vcc_view_id change \<mapsto> new)" by (rule ext)
    with Some show ?thesis by (simp add: kv'(1) new_def)
  qed
qed

lemma drop_views_on_map:
  assumes inv: "catalog_inv kv c L \<sigma>" and ids: "ids \<noteq> []" "distinct ids"
  shows "case commit_drop_views kv c now ids of
      (Inr rows, kv') \<Rightarrow> set ids \<subseteq> dom (current_view kv c) \<and> map vr_view_id rows = ids \<and>
        current_view kv' c = current_view kv c |` (- set ids)
    | (Inl e, kv') \<Rightarrow> \<not> set ids \<subseteq> dom (current_view kv c) \<and> current_view kv' c = current_view kv c"
proof (cases "cs_snapshots \<sigma> = []")
  case True
  then have "latest_snapshot kv c = Inr None" using objects_holdD(10) [OF inv] by simp
  moreover from this ids(1) have "\<not> set ids \<subseteq> dom (current_view kv c)" by (auto simp: current_view_def dom_def)
  ultimately show ?thesis
    using ids(1) by (cases "reject_duplicate_view_ids ids") (simp_all add: commit_drop_views_def)
next
  case ne: False
  note O = objects_holdD [OF inv]
  note out = commit_drop_views_outcome [OF catalog_invD(2,3) [OF inv] ne O(3,4) ids, of now]
  have all: "views.all_open (cs_views \<sigma>) ids \<longleftrightarrow> set ids \<subseteq> dom (current_view kv c)"
    using current_views_open(1) [OF inv] by (auto simp: views.all_open_def dom_def open_views_def subset_iff)
  show ?thesis
  proof (cases "views.all_open (cs_views \<sigma>) ids")
    case True
    from out(1) [OF True] obtain rows kv' where kv': "commit_drop_views kv c now ids =
        (Inr (map (views.row_ended (next_commit_order kv)) rows), kv')" "map vr_view_id rows = ids"
      "views.object_step c kv kv' now (cs_snapshots \<sigma>) L (cs_tables \<sigma>) (cs_versions \<sigma>) (cs_views \<sigma>) (set rows) {}" by blast
    have rows: "r \<in> open_views (cs_views \<sigma>)" if "r \<in> set rows" for r
      using kv'(3) that by (auto simp: views.object_step_def views.commits_def open_views_def)
    have "current_view kv' c i = (current_view kv c |` (- set ids)) i" for i
    proof (rule option_eqI)
      fix y
      have "y \<in> set rows \<longleftrightarrow> i \<in> set ids" if y: "current_view kv c i = Some y"
      proof
        show "i \<in> set ids" if "y \<in> set rows" using that y current_views_open(1) [OF inv] kv'(2) by auto
        show "y \<in> set rows" if "i \<in> set ids"
        proof -
          from that kv'(2) obtain r where r: "r \<in> set rows" "vr_view_id r = i" by auto
          then have "current_view kv c i = Some r" using current_views_open(1) [OF inv] rows by blast
          with y r(1) show ?thesis by simp
        qed
      qed
      then show "current_view kv' c i = Some y \<longleftrightarrow> (current_view kv c |` (- set ids)) i = Some y"
        using current_view_committed [OF inv kv'(3), of i y] by (auto simp: restrict_map_def)
    qed
    then have "current_view kv' c = current_view kv c |` (- set ids)" by (rule ext)
    moreover have "map vr_view_id (map (views.row_ended (next_commit_order kv)) rows) = ids"
      using kv'(2) by (simp add: comp_def views.row_ended_def)
    ultimately show ?thesis using True all by (simp add: kv'(1))
  next
    case False
    let ?kv = "snd (fake_generated_order_id kv)"
    have cat: "table_catalog ?kv c (cs_snapshots \<sigma>) L (cs_tables \<sigma>) (cs_versions \<sigma>)"
      using catalog_invD(2) [OF inv] by (simp add: table_catalog_def staging_ready_def)
    have "current_view ?kv c i = current_view kv c i" for i
      by (rule option_eqI) (use current_view_iff [OF cat _ O(4)] current_views_open(1) [OF inv] O(3) in simp)
    then have "current_view ?kv c = current_view kv c" by (rule ext)
    with out(2) [OF False] False all show ?thesis by auto
  qed
qed

section \<open>Properties\<close>

text \<open>C4: The view store is a map from ids to views. Creating a view adds its row at the commit's order, and is refused
  exactly when a current view has the id or the name in the schema; changing a comment replaces the row of that view and
  returns the old comment, and is refused exactly when there is no such view; dropping a batch removes exactly its
  views, and is refused, changing nothing, exactly when one of them does not exist.\<close>
theorem view_store_refines_map:
  assumes "catalog_reachable c kv" "view_row_ok view" "pred_option string_ok (vcc_comment change)" "ids \<noteq> []" "distinct ids"
  shows "(case commit_create_view_row kv c now view of
      (Inr r, kv') \<Rightarrow> r = view\<lparr>vr_validity := validity_new (next_commit_order kv) None\<rparr> \<and>
        \<not> view_conflict (ran (current_view kv c)) view \<and> current_view kv' c = (current_view kv c)(vr_view_id view \<mapsto> r)
    | (Inl e, kv') \<Rightarrow> view_conflict (ran (current_view kv c)) view \<and> kv' = kv) \<and>
   (case commit_change_view_comment kv c now change of
      (Inr r, kv') \<Rightarrow> (\<exists>row. current_view kv c (vcc_view_id change) = Some row \<and>
        r = \<lparr>cvc_view_id = vcc_view_id change, cvc_previous = vr_comment row, cvc_changed = vcc_comment change\<rparr> \<and>
        current_view kv' c = (current_view kv c)(vcc_view_id change \<mapsto>
          row\<lparr>vr_comment := vcc_comment change, vr_validity := validity_new (next_commit_order kv) None\<rparr>))
    | (Inl e, kv') \<Rightarrow> current_view kv c (vcc_view_id change) = None \<and> kv' = kv) \<and>
   (case commit_drop_views kv c now ids of
      (Inr rows, kv') \<Rightarrow> set ids \<subseteq> dom (current_view kv c) \<and> map vr_view_id rows = ids \<and>
        current_view kv' c = current_view kv c |` (- set ids)
    | (Inl e, kv') \<Rightarrow> \<not> set ids \<subseteq> dom (current_view kv c) \<and> current_view kv' c = current_view kv c)"
proof -
  obtain L \<sigma> where inv: "catalog_inv kv c L \<sigma>" using catalog_reachable_inv [OF assms(1)] by blast
  show ?thesis
  proof (intro conjI)
    show "case commit_create_view_row kv c now view of
        (Inr r, kv') \<Rightarrow> r = view\<lparr>vr_validity := validity_new (next_commit_order kv) None\<rparr> \<and>
          \<not> view_conflict (ran (current_view kv c)) view \<and> current_view kv' c = (current_view kv c)(vr_view_id view \<mapsto> r)
      | (Inl e, kv') \<Rightarrow> view_conflict (ran (current_view kv c)) view \<and> kv' = kv"
      using create_view_on_map [OF inv assms(2), of now] by (auto split: sum.splits)
  qed (rule comment_view_on_map [OF inv assms(3)] drop_views_on_map [OF inv assms(4,5)])+
qed

theorem view_store_refines_map_witness:
  "\<exists>kv r kv'. catalog_reachable 7 kv \<and> current_view kv 7 5 = Some example_begun \<and>
     commit_drop_views kv 7 0 [5] = (Inr r, kv') \<and> current_view kv' 7 5 = None"
proof -
  obtain kv where kv: "commit_create_view_row fake_new 7 0 example_view = (Inr example_begun, kv)" "catalog_reachable 7 kv"
    by (rule example_view_created)
  have id: "vr_view_id example_view = 5" by (simp add: example_view_def view_row_new_def)
  have "current_view kv 7 = (current_view fake_new 7)(5 \<mapsto> example_begun)"
    using view_store_refines_map [OF catalog_reachable.start example_view_ok, of "\<lparr>vcc_view_id = 5, vcc_comment = None\<rparr>" "[5]" 7 0]
    by (simp add: kv(1) id)
  then have cur: "current_view kv 7 5 = Some example_begun" by simp
  obtain r kv' where drop: "commit_drop_views kv 7 0 [5] = (r, kv')" by force
  have "case commit_drop_views kv 7 0 [5] of
      (Inr rows, kv') \<Rightarrow> set [5] \<subseteq> dom (current_view kv 7) \<and> map vr_view_id rows = [5] \<and>
        current_view kv' 7 = current_view kv 7 |` (- set [5])
    | (Inl e, kv') \<Rightarrow> \<not> set [5] \<subseteq> dom (current_view kv 7) \<and> current_view kv' 7 = current_view kv 7"
    using view_store_refines_map [OF kv(2) example_view_ok, of "\<lparr>vcc_view_id = 5, vcc_comment = None\<rparr>" "[5]" 0] by simp
  with drop cur kv(2) show ?thesis by (cases r) (auto simp: dom_def)
qed



text \<open>C36: Fresh objects can always be created. Whatever happened before, creating a table whose id and name no current
  table has, or a batch of macros whose ids and identities are free, succeeds, makes a newer snapshot the latest, and
  at that snapshot the point reads find the created rows.\<close>
theorem fresh_objects_are_created:
  assumes "catalog_reachable c kv" "latest_snapshot kv c = Inr (Some s)"
    and table: "table_row_ok table" "list_tables_at kv c (sn_order s) = Inr ts" "\<not> create_conflict (set ts) table"
    and rows: "\<forall>r \<in> set rows. macro_row_ok r" "rows \<noteq> []" "list_macros_at kv c (sn_order s) = Inr ms" "macros_creatable (set ms) rows"
  shows "(\<exists>t kv' s'. commit_create_table_row kv c now table = (Inr t, kv') \<and> latest_snapshot kv' c = Inr (Some s') \<and>
      sn_order s < sn_order s' \<and> load_table_at kv' c (tr_table_id table) (sn_order s') = Inr (Some t)) \<and>
    (\<exists>new kv' s'. commit_create_macro_rows kv c now rows None = (Inr new, kv') \<and> latest_snapshot kv' c = Inr (Some s') \<and>
      sn_order s < sn_order s' \<and> map mr_macro_id new = map mr_macro_id rows \<and>
      (\<forall>m \<in> set new. load_macro_at kv' c (mr_macro_id m) (sn_order s') = Inr (Some m)))"
proof -
  obtain L \<sigma> where I: "catalog_inv kv c L \<sigma>" using catalog_reachable_inv [OF assms(1)] by blast
  note O = objects_holdD [OF I] and C = catalog_invD [OF I] and A = table_catalogD [OF catalog_invD(2) [OF I]]
  define H where "H = cs_snapshots \<sigma>"
  have H: "H \<noteq> []" "s = last H" using O(10) assms(2) by (auto simp: H_def split: if_splits)
  define s' where "s' = next_snapshot now kv H"
  have s': "sn_order s' = next_commit_order kv" "sn_order s < sn_order s'"
    using next_snapshot_follows(2,3) [OF A(3) C(3), where now = now] H unfolding s'_def H_def by (auto simp: snapshot_before_def)
  have "x \<in> set ts \<longleftrightarrow> x \<in> cs_tables \<sigma> \<and> is_open x" for x
    using catalog_reads(4) [OF I, of "sn_order s"] table(2) visible_at_latest [of "sn_order s" "cs_tables \<sigma>"] A(7) H
    by (auto simp: lists_visible_def H_def)
  then have "\<not> create_conflict (cs_tables \<sigma>) table" using table(3) unfolding create_conflict_def by blast
  from commit_create_table_row_outcome(2) [OF C(2,3) table(1) this, of now] obtain kv' vs' where
    t: "commit_create_table_row kv c now table = (Inr (opened (next_commit_order kv) table), kv')"
    "table_catalog kv' c (H @ [s']) (L @ [s']) (insert (opened (next_commit_order kv) table) (cs_tables \<sigma>)) vs'"
    unfolding H_def s'_def by blast
  have tl: "latest_snapshot kv' c = Inr (Some s')" using latest_of_catalog [OF t(2)] by simp
  have found: "load_table_at kv' c (tr_table_id table) (sn_order s') = Inr (Some (opened (next_commit_order kv) table))"
  proof -
    obtain r where r: "load_table_at kv' c (tr_table_id table) (sn_order s') = Inr r"
      "\<And>x. r = Some x \<longleftrightarrow> x \<in> insert (opened (next_commit_order kv) table) (cs_tables \<sigma>) \<and> tr_table_id x = tr_table_id table \<and>
        is_visible_at (tr_validity x) (sn_order s')"
      using table_catalogD(2,4,6) [OF t(2)] by (rule load_table_at_reads) (rule that)
    have "r = Some (opened (next_commit_order kv) table)" unfolding r(2) by (simp add: s'(1) is_visible_at_def validity_new_sel)
    with r(1) show ?thesis by simp
  qed
  define new where "new = map (macros.row_begun (next_commit_order kv)) rows"
  have "set ms = open_macros (cs_macros \<sigma>)"
    using catalog_reads(3) [OF I, of "sn_order s"] rows(3) macros.visible_rows_spec(1) [OF O(5), of "sn_order s"]
      macros.visible_latest [of "sn_order s" "cs_macros \<sigma>"] O(6) H
    by (auto simp: open_macros_def macros.closed_history_def H_def)
  with rows(4) have "macros_creatable (open_macros (cs_macros \<sigma>)) rows" by simp
  from commit_create_macro_rows_outcome(1) [OF C(2,3) _ O(5,6) rows(1,2) this, of now] H(1) obtain kv'' where
    m: "commit_create_macro_rows kv c now rows None = (Inr new, kv'')"
    "macros.object_step c kv kv'' now H L (cs_tables \<sigma>) (cs_versions \<sigma>) (cs_macros \<sigma>) {} (set new)"
    unfolding H_def new_def by blast
  note st = m(2) [unfolded macros.object_step_def, folded s'_def]
  have ml: "latest_snapshot kv'' c = Inr (Some s')" using latest_of_catalog [of kv'' c "H @ [s']"] st by auto
  have mload: "load_macro_at kv'' c (mr_macro_id x) (sn_order s') = Inr (Some x)" if "x \<in> set new" for x
  proof -
    have wf: "versions_wf mr_macro_id mr_validity (macros.committed (next_commit_order kv) (cs_macros \<sigma>) {} (set new))"
      using st unfolding macros.closed_history_def by blast
    have kv: "fake_wf kv''" "macros.holds c (fake_get kv'') (macros.committed (next_commit_order kv) (cs_macros \<sigma>) {} (set new))"
      using st table_catalogD(2) by blast+
    obtain r where r: "load_macro_at kv'' c (mr_macro_id x) (sn_order s') = Inr r"
      "r = Some x \<longleftrightarrow> x \<in> macros.committed (next_commit_order kv) (cs_macros \<sigma>) {} (set new) \<and> mr_macro_id x = mr_macro_id x \<and>
        is_visible_at (mr_validity x) (sn_order s')"
      using load_macro_at_reads [OF kv wf, of "mr_macro_id x" "sn_order s'"] by blast
    have "is_visible_at (mr_validity x) (sn_order s')"
      using that by (auto simp: new_def s'(1) is_visible_at_def validity_new_sel)
    then have "r = Some x" using r(2) that by simp
    with r(1) show ?thesis by simp
  qed
  have "map mr_macro_id new = map mr_macro_id rows" by (simp add: new_def)
  then show ?thesis using t(1) tl s'(2) found m(1) ml mload by blast
qed

theorem fresh_objects_are_created_witness:
  "\<exists>kv t kv' s' new. catalog_reachable 7 kv \<and> commit_create_table_row kv 7 0 example_table = (Inr t, kv') \<and>
     latest_snapshot kv' 7 = Inr (Some s') \<and> load_table_at kv' 7 4 (sn_order s') = Inr (Some t) \<and>
     fst (commit_create_macro_rows kv 7 0 [example_macro] None) = Inr new \<and> map mr_macro_id new = [6]"
proof -
  obtain kv where kv: "catalog_reachable 7 kv" "latest_snapshot kv 7 = Inr (Some (next_snapshot 0 fake_new []))"
    "list_tables_at kv 7 (sn_order (next_snapshot 0 fake_new [])) = Inr []"
    "list_macros_at kv 7 (sn_order (next_snapshot 0 fake_new [])) = Inr []"
    by (rule example_view_created) (rule that)
  have ok: "\<forall>r \<in> set [example_macro]. macro_row_ok r"
    by (simp add: example_macro_def macro_row_ok_def macro_row_new_def implementation_ok_def macro_parameter_ok_def string_ok_def
        ascii_def utf8_valid.simps)
  have free: "\<not> create_conflict (set []) example_table" "macros_creatable (set []) [example_macro]"
    by (simp_all add: create_conflict_def macros_creatable_def)
  have ids: "tr_table_id example_table = 4" "mr_macro_id example_macro = 6"
    by (simp_all add: example_table_def table_row_with_catalog_metadata_def example_macro_def macro_row_new_def)
  from fresh_objects_are_created [OF kv(1,2) example_table_ok(1) kv(3) free(1) ok _ kv(4) free(2), of 0] kv(1) ids
  show ?thesis by auto
qed

end
