(* ===== verification/Cat_File_Stats.thy ===== *)
theory Cat_File_Stats
  imports Cat_Files Cat_Versioned
begin

text \<open>
  Column statistics of data files (\<open>file_stats.rs\<close>, with the batched metadata read of \<open>immutable_file_metadata.rs\<close>).
  A row is stored by file and column and again in a lookup index by table, column and file. Lists are computed from
  the store: the process-wide row caches in front of it hold immutable values (\<open>Cat_Lru\<close>) and are not modelled.
\<close>

section \<open>Rows\<close>

record file_column_stats_row =
  fs_data_file_id :: data_file_id
  fs_table_id :: table_id
  fs_column_id :: column_id
  fs_value_count :: "u64 option"
  fs_null_count :: u64
  fs_min_value :: "rust_string option"
  fs_max_value :: "rust_string option"
  fs_extra_stats :: "rust_string option"

definition file_column_stats_row_new ::
    "data_file_id \<Rightarrow> table_id \<Rightarrow> column_id \<Rightarrow> u64 \<Rightarrow> rust_string option \<Rightarrow> rust_string option \<Rightarrow> file_column_stats_row" where
  "file_column_stats_row_new data_file_id table_id column_id null_count min_value max_value =
     \<lparr>fs_data_file_id = data_file_id, fs_table_id = table_id, fs_column_id = column_id, fs_value_count = None,
      fs_null_count = null_count, fs_min_value = min_value, fs_max_value = max_value, fs_extra_stats = None\<rparr>"

definition fs_with_value_count :: "file_column_stats_row \<Rightarrow> u64 option \<Rightarrow> file_column_stats_row" where
  "fs_with_value_count r value_count = r\<lparr>fs_value_count := value_count\<rparr>"

definition fs_with_extra_stats :: "file_column_stats_row \<Rightarrow> rust_string option \<Rightarrow> file_column_stats_row" where
  "fs_with_extra_stats r extra_stats = r\<lparr>fs_extra_stats := extra_stats\<rparr>"

definition stats_encode_optional_string :: "rust_string option \<Rightarrow> bytes" where
  "stats_encode_optional_string v =
     (case v of
        Some s \<Rightarrow> [1] @ len_u32 s @ s
      | None \<Rightarrow> [0] @ u32_to_be_bytes 0)"

definition file_column_stats_row_encode :: "file_column_stats_row \<Rightarrow> bytes" where
  "file_column_stats_row_encode r =
     [3] @ u64_to_be_bytes (fs_data_file_id r) @ u64_to_be_bytes (fs_table_id r) @ u64_to_be_bytes (fs_column_id r) @
     (case fs_value_count r of
        Some value_count \<Rightarrow> [1] @ u64_to_be_bytes value_count
      | None \<Rightarrow> [0] @ u64_to_be_bytes 0) @
     u64_to_be_bytes (fs_null_count r) @ stats_encode_optional_string (fs_min_value r) @
     stats_encode_optional_string (fs_max_value r) @ stats_encode_optional_string (fs_extra_stats r)"

definition validate_stats_row_layout :: "bytes \<Rightarrow> (byte \<times> nat) catalog_result" where
  "validate_stats_row_layout bs =
     (case bs of
        [] \<Rightarrow> Inl (Decode ''file column stats row is empty'')
      | version # _ \<Rightarrow>
          rbind (if version = 1 then Inr (1 + 8 + 8 + 8 + 8)
                 else if version = 2 \<or> version = 3 then Inr (1 + 8 + 8 + 8 + 9 + 8)
                 else Inl (Decode ''unsupported file column stats row version'')) (\<lambda>fixed_len.
            if length bs < fixed_len then Inl (Decode ''file column stats row is too short'')
            else Inr (version, fixed_len)))"

definition stats_decode_u64 :: "bytes \<Rightarrow> u64 catalog_result" where
  "stats_decode_u64 bs = be_u64 (Decode ''field is truncated'') bs"

definition stats_decode_optional_u64 :: "bytes \<Rightarrow> nat \<Rightarrow> u64 option catalog_result" where
  "stats_decode_optional_u64 bs offset =
     (if length bs < offset + 9 then Inl (Decode ''field is truncated'')
      else rbind (byte_at bs offset) (\<lambda>present.
        rbind (slice bs (offset + 1) (offset + 9)) (\<lambda>vb.
        rbind (stats_decode_u64 vb) (\<lambda>v.
          if present = 0 then (if v = 0 then Inr None else Inl (Decode ''field absent marker has nonzero value''))
          else if present = 1 then Inr (Some v)
          else Inl (Decode ''field marker is invalid'')))))"

definition stats_decode_optional_string :: "bytes \<Rightarrow> nat \<Rightarrow> (rust_string option \<times> nat) catalog_result" where
  "stats_decode_optional_string bs offset =
     (if length bs < offset + 5 then Inl (Decode ''field is truncated'')
      else rbind (byte_at bs offset) (\<lambda>present.
        rbind (slice bs (offset + 1) (offset + 5)) (\<lambda>lb.
        rbind (be_u32 (Decode ''field length is truncated'') lb) (\<lambda>n.
        let value_start = offset + 5; len = unat n; value_end = value_start + len in
        if length bs < value_end then Inl (Decode ''field bytes are truncated'')
        else rbind
          (if present = 0 then
             (if len = 0 then Inr None else Inl (Decode ''field absent marker has nonzero length''))
           else if present = 1 then
             rbind (slice bs value_start value_end) (\<lambda>vb.
             rbind (str_from_utf8 (Decode ''field is not utf8'') vb) (\<lambda>s. Inr (Some s)))
           else Inl (Decode ''field marker is invalid''))
          (\<lambda>v. Inr (v, value_end))))))"

definition file_column_stats_row_decode :: "bytes \<Rightarrow> file_column_stats_row catalog_result" where
  "file_column_stats_row_decode bs =
     rbind (validate_stats_row_layout bs) (\<lambda>(version, fixed_len).
     rbind (if version \<ge> 2 then stats_decode_optional_u64 bs 25 else Inr None) (\<lambda>value_count.
     rbind (stats_decode_optional_string bs fixed_len) (\<lambda>(min_value, off1).
     rbind (stats_decode_optional_string bs off1) (\<lambda>(max_value, off2).
     rbind (if version \<ge> 3 then stats_decode_optional_string bs off2 else Inr (None, off2)) (\<lambda>(extra_stats, off3).
       if off3 \<noteq> length bs then Inl (Decode ''file column stats row has trailing bytes'')
       else
         rbind (slice bs 1 9) (\<lambda>fb. rbind (stats_decode_u64 fb) (\<lambda>data_file_id.
         rbind (slice bs 9 17) (\<lambda>tb. rbind (stats_decode_u64 tb) (\<lambda>table_id.
         rbind (slice bs 17 25) (\<lambda>cb. rbind (stats_decode_u64 cb) (\<lambda>column_id.
         rbind (slice bs (fixed_len - 8) fixed_len) (\<lambda>nb. rbind (stats_decode_u64 nb) (\<lambda>null_count.
           Inr \<lparr>fs_data_file_id = data_file_id, fs_table_id = table_id, fs_column_id = column_id,
                fs_value_count = value_count, fs_null_count = null_count, fs_min_value = min_value,
                fs_max_value = max_value, fs_extra_stats = extra_stats\<rparr>)))))))))))))"

text \<open>The tuple every list is sorted by.\<close>

definition stats_sort_key :: "file_column_stats_row \<Rightarrow> u64 \<times> u64 \<times> u64" where
  "stats_sort_key r = (fs_table_id r, fs_data_file_id r, fs_column_id r)"

section \<open>Registration\<close>

text \<open>Metadata of files that never changes; only its table is used here.\<close>

definition immutable_data_file_metadata_batch ::
    "fake_kv \<Rightarrow> catalog_id \<Rightarrow> data_file_id list \<Rightarrow> (data_file_id \<times> data_file_row) list catalog_result" where
  "immutable_data_file_metadata_batch kv catalog data_file_ids =
     (let missing = sorted_list_of_set (set data_file_ids) in
      rbind (kv_batch_get (\<lambda>k. Inr (fake_get kv k)) (map (data_file_key catalog) missing)) (\<lambda>vals.
        rmap (\<lambda>(requested_id, v).
          case v of
            None \<Rightarrow> Inl (NotFound ''data file'')
          | Some bs \<Rightarrow> rbind (data_file_row_decode bs) (\<lambda>data_file.
              if df_data_file_id data_file \<noteq> requested_id then Inl (Decode ''data file key contained another row'')
              else Inr (requested_id, data_file))) (zip missing vals)))"

definition stats_data_file_table_ids ::
    "fake_kv \<Rightarrow> catalog_id \<Rightarrow> file_column_stats_row list \<Rightarrow> (data_file_id \<times> table_id) list catalog_result" where
  "stats_data_file_table_ids kv catalog rows =
     rbind (immutable_data_file_metadata_batch kv catalog (map fs_data_file_id rows)) (\<lambda>metadata.
       Inr (map (\<lambda>(data_file_id, m). (data_file_id, df_table_id m)) metadata))"

definition validate_file_column_stats_row ::
    "(data_file_id \<times> table_id) list \<Rightarrow> file_column_stats_row \<Rightarrow> unit catalog_result" where
  "validate_file_column_stats_row table_ids row =
     (case map_of table_ids (fs_data_file_id row) of
        None \<Rightarrow> Inl (NotFound ''data file'')
      | Some table_id \<Rightarrow>
          if table_id \<noteq> fs_table_id row then Inl (InvalidMutation ''stats table does not match data file table'')
          else Inr ())"

definition stage_file_column_stats :: "kv_batch \<Rightarrow> catalog_id \<Rightarrow> file_column_stats_row \<Rightarrow> kv_batch" where
  "stage_file_column_stats b catalog row =
     (let encoded = file_column_stats_row_encode row;
          b1 = batch_put b (file_column_stats_key catalog (fs_data_file_id row) (fs_column_id row)) encoded
      in batch_put b1 (file_column_stats_lookup_key catalog (fs_table_id row) (fs_column_id row) (fs_data_file_id row)) encoded)"

definition stage_catalog_file_stats_version :: "kv_batch \<Rightarrow> catalog_id \<Rightarrow> catalog_order_id \<Rightarrow> kv_batch" where
  "stage_catalog_file_stats_version b catalog version =
     batch_put b (catalog_file_stats_version_key catalog) (order_as_bytes version)"

definition stage_table_file_stats_version :: "kv_batch \<Rightarrow> catalog_id \<Rightarrow> table_id \<Rightarrow> catalog_order_id \<Rightarrow> kv_batch" where
  "stage_table_file_stats_version b catalog table_id version =
     batch_put b (table_file_stats_version_key catalog table_id) (order_as_bytes version)"

definition stage_table_file_stats_versions_for_rows ::
    "kv_batch \<Rightarrow> catalog_id \<Rightarrow> file_column_stats_row list \<Rightarrow> catalog_order_id \<Rightarrow> kv_batch" where
  "stage_table_file_stats_versions_for_rows b catalog rows version =
     (if rows = [] then b
      else fold (\<lambda>table_id b. stage_table_file_stats_version b catalog table_id version)
             (sorted_list_of_set (fs_table_id ` set rows)) (stage_catalog_file_stats_version b catalog version))"

definition register_file_column_stats_batch ::
    "fake_kv \<Rightarrow> catalog_id \<Rightarrow> file_column_stats_row list \<Rightarrow> file_column_stats_row list kv_op" where
  "register_file_column_stats_batch kv catalog rows =
     (if rows = [] then (Inr rows, kv)
      else let (version, kv1) = fake_generated_order_id kv in
        attempt kv1 (stats_data_file_table_ids kv1 catalog rows) (\<lambda>table_ids.
        attempt kv1 (rfold (\<lambda>row b. rbind (validate_file_column_stats_row table_ids row) (\<lambda>_.
            Inr (stage_file_column_stats b catalog row))) rows batch_new) (\<lambda>b.
          commit_then kv1 (stage_table_file_stats_versions_for_rows b catalog rows version) rows)))"

definition register_file_column_stats ::
    "fake_kv \<Rightarrow> catalog_id \<Rightarrow> file_column_stats_row \<Rightarrow> file_column_stats_row kv_op" where
  "register_file_column_stats kv catalog row =
     (case register_file_column_stats_batch kv catalog [row] of
        (Inl e, kv1) \<Rightarrow> (Inl e, kv1)
      | (Inr rows, kv1) \<Rightarrow>
          (if rows = [] then Inl (Decode ''file column stats batch returned no rows'') else Inr (last rows), kv1))"

section \<open>Lists\<close>

definition list_file_column_stats_for_table_column ::
    "fake_kv \<Rightarrow> catalog_id \<Rightarrow> table_id \<Rightarrow> column_id \<Rightarrow> file_column_stats_row list catalog_result" where
  "list_file_column_stats_for_table_column kv catalog table_id column_id =
     rbind (fake_scan_prefix kv (file_column_stats_lookup_prefix catalog table_id column_id) Forward None)
       (rmap (\<lambda>i. file_column_stats_row_decode (ri_value i)))"

definition list_file_column_stats :: "fake_kv \<Rightarrow> catalog_id \<Rightarrow> file_column_stats_row list catalog_result" where
  "list_file_column_stats kv catalog =
     rbind (fake_scan_prefix kv (family_prefix catalog FileColumnStats) Forward None) (\<lambda>page.
     rbind (rmap (\<lambda>i. file_column_stats_row_decode (ri_value i)) page) (\<lambda>rows.
       Inr (sort_key stats_sort_key rows)))"

definition validate_file_column_stats_data_file_row :: "data_file_id \<Rightarrow> file_column_stats_row \<Rightarrow> unit catalog_result" where
  "validate_file_column_stats_data_file_row data_file_id row =
     (if fs_data_file_id row \<noteq> data_file_id then Inl (Decode ''file column stats prefix decoded another data file'')
      else Inr ())"

definition validate_file_column_stats_cache_row :: "data_file_id \<times> column_id \<Rightarrow> file_column_stats_row \<Rightarrow> unit catalog_result" where
  "validate_file_column_stats_cache_row key row =
     (if fs_data_file_id row \<noteq> fst key \<or> fs_column_id row \<noteq> snd key
      then Inl (Decode ''file column stats key contained another row'') else Inr ())"

definition file_column_stats_data_file_id_from_key :: "catalog_id \<Rightarrow> bytes \<Rightarrow> data_file_id catalog_result" where
  "file_column_stats_data_file_id_from_key catalog key =
     (case strip_prefix (family_prefix catalog FileColumnStats) key of
        None \<Rightarrow> Inl (InvalidKey ''file column stats key has wrong prefix'')
      | Some tail \<Rightarrow>
          if length tail \<noteq> 8 + 1 + 8 \<or> tail ! 8 \<noteq> slash
          then Inl (InvalidKey ''file column stats key tail must be 17 bytes with separator'')
          else rbind (slice tail 0 8) (be_u64 (InvalidKey ''file column stats data file id is truncated'')))"

definition dense_file_column_stats_scan_is_worthwhile :: "data_file_id list \<Rightarrow> bool" where
  "dense_file_column_stats_scan_is_worthwhile ids \<longleftrightarrow>
     (if length ids < 2 then False
      else saturating_add (u64_saturating_sub (last ids) (hd ids)) 1 \<le> u64_saturating_mul (word_of_nat (length ids)) 8)"

text \<open>Taking the rows of one file after another out of the map of rows by file.\<close>

fun take_file_rows ::
    "data_file_id list \<Rightarrow> (data_file_id \<times> file_column_stats_row) list \<Rightarrow> file_column_stats_row list" where
  "take_file_rows [] by_file = []"
| "take_file_rows (f # fs) by_file =
     sort_key stats_sort_key (map snd (filter (\<lambda>p. fst p = f) by_file)) @
     take_file_rows fs (filter (\<lambda>p. fst p \<noteq> f) by_file)"

definition load_dense_file_column_stats_uncached ::
    "fake_kv \<Rightarrow> catalog_id \<Rightarrow> data_file_id list \<Rightarrow> file_column_stats_row list catalog_result" where
  "load_dense_file_column_stats_uncached kv catalog missing =
     (if missing = [] then Inr []
      else rbind (fake_scan_range kv (file_column_stats_data_file_prefix catalog (hd missing))
                    (prefix_end (file_column_stats_data_file_prefix catalog (last missing))) Forward None) (\<lambda>page.
        rbind (rfold (\<lambda>i by_file.
            rbind (file_column_stats_data_file_id_from_key catalog (ri_key i)) (\<lambda>f.
              if f \<notin> set missing then Inr by_file
              else rbind (file_column_stats_row_decode (ri_value i)) (\<lambda>row.
                rbind (validate_file_column_stats_data_file_row f row) (\<lambda>_. Inr (by_file @ [(f, row)]))))) page [])
          (\<lambda>by_file. Inr (take_file_rows missing by_file))))"

definition load_sparse_file_column_stats ::
    "fake_kv \<Rightarrow> catalog_id \<Rightarrow> data_file_id list \<Rightarrow> file_column_stats_row list catalog_result" where
  "load_sparse_file_column_stats kv catalog missing =
     rbind (kv_scan_prefixes (fake_scan_prefix kv) (map (file_column_stats_data_file_prefix catalog) missing) Forward None)
       (\<lambda>scans. rbind (rmap (\<lambda>(f, page).
            rbind (rmap (\<lambda>i. rbind (file_column_stats_row_decode (ri_value i)) (\<lambda>row.
              rbind (validate_file_column_stats_data_file_row f row) (\<lambda>_. Inr row))) page) (\<lambda>rows.
              Inr (sort_key stats_sort_key rows))) (zip missing scans)) (\<lambda>rows. Inr (concat rows)))"

definition load_missing_file_column_stats_for_data_file_ids ::
    "fake_kv \<Rightarrow> catalog_id \<Rightarrow> data_file_id list \<Rightarrow> file_column_stats_row list catalog_result" where
  "load_missing_file_column_stats_for_data_file_ids kv catalog missing =
     (if missing = [] then Inr []
      else let ids = sort missing in
        if dense_file_column_stats_scan_is_worthwhile ids then load_dense_file_column_stats_uncached kv catalog ids
        else load_sparse_file_column_stats kv catalog ids)"

definition list_file_column_stats_for_data_file_ids ::
    "fake_kv \<Rightarrow> catalog_id \<Rightarrow> data_file_id list \<Rightarrow> file_column_stats_row list catalog_result" where
  "list_file_column_stats_for_data_file_ids kv catalog data_file_ids =
     rbind (load_missing_file_column_stats_for_data_file_ids kv catalog (rev (remdups (rev data_file_ids)))) (\<lambda>rows.
       Inr (sort_key stats_sort_key rows))"

definition load_exact_missing_file_column_stats ::
    "fake_kv \<Rightarrow> catalog_id \<Rightarrow> (data_file_id \<times> column_id) list \<Rightarrow> file_column_stats_row list catalog_result" where
  "load_exact_missing_file_column_stats kv catalog missing =
     rbind (kv_batch_get (\<lambda>k. Inr (fake_get kv k)) (map (\<lambda>(f, col). file_column_stats_key catalog f col) missing)) (\<lambda>vals.
       rfold (\<lambda>(key, v) rows.
         case v of
           None \<Rightarrow> Inr rows
         | Some bs \<Rightarrow> rbind (file_column_stats_row_decode bs) (\<lambda>row.
             rbind (validate_file_column_stats_cache_row key row) (\<lambda>_. Inr (rows @ [row])))) (zip missing vals) [])"

text \<open>Many keys are grouped by file: files with many requested columns are read whole when there are enough of them and
  their ids are dense, all other keys are read one by one.\<close>

definition load_missing_file_column_stats_for_data_file_columns ::
    "fake_kv \<Rightarrow> catalog_id \<Rightarrow> (data_file_id \<times> column_id) list \<Rightarrow> file_column_stats_row list catalog_result" where
  "load_missing_file_column_stats_for_data_file_columns kv catalog missing =
     (if missing = [] then Inr []
      else if length missing < 64 * 8 then load_exact_missing_file_column_stats kv catalog missing
      else
        let files = sorted_list_of_set (fst ` set missing);
            columns = (\<lambda>f. set (map snd (filter (\<lambda>k. fst k = f) missing)));
            full = filter (\<lambda>f. card (columns f) \<ge> 8) files;
            exact = concat (map (\<lambda>f. filter (\<lambda>k. fst k = f) missing) (filter (\<lambda>f. \<not> card (columns f) \<ge> 8) files))
        in if length full \<ge> 64 \<and> dense_file_column_stats_scan_is_worthwhile full
           then rbind (load_dense_file_column_stats_uncached kv catalog full) (\<lambda>dense.
             rbind (load_exact_missing_file_column_stats kv catalog exact) (\<lambda>rows.
               Inr (filter (\<lambda>row. fs_data_file_id row \<in> set full \<and> fs_column_id row \<in> columns (fs_data_file_id row)) dense @ rows)))
           else load_exact_missing_file_column_stats kv catalog
             (exact @ concat (map (\<lambda>f. map (Pair f) (sorted_list_of_set (columns f))) full)))"

definition list_file_column_stats_for_data_file_columns ::
    "fake_kv \<Rightarrow> catalog_id \<Rightarrow> data_file_id list \<Rightarrow> column_id list \<Rightarrow> file_column_stats_row list catalog_result" where
  "list_file_column_stats_for_data_file_columns kv catalog files columns =
     (if columns = [] then list_file_column_stats_for_data_file_ids kv catalog files
      else rbind (load_missing_file_column_stats_for_data_file_columns kv catalog
                    (remdups (sort (concat (map (\<lambda>f. map (Pair f) columns) files))))) (\<lambda>rows.
        Inr (sort_key stats_sort_key rows)))"

definition list_file_column_stats_for_data_files ::
    "fake_kv \<Rightarrow> catalog_id \<Rightarrow> data_file_row list \<Rightarrow> (table_id \<Rightarrow> column_id list option) \<Rightarrow>
     file_column_stats_row list catalog_result" where
  "list_file_column_stats_for_data_files kv catalog files columns_by_table =
     (let keys = concat (map (\<lambda>file. case columns_by_table (df_table_id file) of
              None \<Rightarrow> []
            | Some columns \<Rightarrow> map (Pair (df_data_file_id file)) columns) files)
      in rbind (load_missing_file_column_stats_for_data_file_columns kv catalog (rev (remdups (rev keys)))) (\<lambda>rows.
        Inr (sort_key stats_sort_key rows)))"

end
