(* ===== verification/Cat_Maintenance.thy ===== *)
theory Cat_Maintenance
  imports Cat_File_Stats Cat_File_Listing Cat_Tables
begin

text \<open>
  Cleanup of files no retained snapshot needs (\<open>maintenance.rs\<close>): the schedule of files to remove, the decisions
  whether a data file or delete file may be removed, and the removal of its metadata together with the metadata of
  tables that have become unreachable. The payloads of inline tables are not modelled.
\<close>

section \<open>Rows\<close>

record delete_file_cleanup_row =
  dc_delete_file :: delete_file_row
  dc_table_id :: table_id

datatype scheduled_data_file_cleanup_kind = UnreachableOnly | CompactionReplacement

record scheduled_data_file_cleanup_row =
  sd_data_file :: data_file_row
  sd_schedule_start_micros :: i64
  sd_cleanup_kind :: scheduled_data_file_cleanup_kind

record scheduled_delete_file_cleanup_row =
  sx_delete_file :: delete_file_row
  sx_table_id :: table_id
  sx_schedule_start_micros :: i64

datatype delete_file_physical_cleanup_decision =
  NotCleanupCandidate | CleanupCandidateStillNeededByRetainedSnapshot | SafeToRemove

section \<open>The schedule\<close>

definition cleanup_kind_tag :: "scheduled_data_file_cleanup_kind \<Rightarrow> byte" where
  "cleanup_kind_tag k = (case k of UnreachableOnly \<Rightarrow> 0 | CompactionReplacement \<Rightarrow> 1)"

definition cleanup_kind_from_tag :: "byte \<Rightarrow> scheduled_data_file_cleanup_kind catalog_result" where
  "cleanup_kind_from_tag tag =
     (if tag = 0 then Inr UnreachableOnly else if tag = 1 then Inr CompactionReplacement
      else Inl (Decode ''scheduled data cleanup kind is unknown''))"

definition encode_scheduled_data_cleanup_value :: "scheduled_data_file_cleanup_kind \<Rightarrow> i64 \<Rightarrow> bytes" where
  "encode_scheduled_data_cleanup_value cleanup_kind schedule_start_micros =
     [1, cleanup_kind_tag cleanup_kind] @ u64_to_be_bytes schedule_start_micros"

text \<open>Older values are empty or hold the time only.\<close>

definition decode_scheduled_data_cleanup_value :: "bytes \<Rightarrow> (scheduled_data_file_cleanup_kind \<times> i64) catalog_result" where
  "decode_scheduled_data_cleanup_value v =
     (if v = [] then Inr (UnreachableOnly, 0)
      else if length v = 8 then
        rbind (be_u64 (Decode ''scheduled cleanup timestamp is truncated'') v) (\<lambda>t. Inr (UnreachableOnly, t))
      else if length v \<noteq> 10 \<or> v ! 0 \<noteq> 1 then Inl (Decode ''scheduled data cleanup value has bytes'')
      else rbind (byte_at v 1) (\<lambda>tag. rbind (cleanup_kind_from_tag tag) (\<lambda>kind.
        rbind (slice v 2 10) (\<lambda>tb. rbind (be_u64 (Decode ''scheduled cleanup timestamp is truncated'') tb) (\<lambda>t.
          Inr (kind, t))))))"

definition stage_scheduled_data_file_cleanup_with_kind ::
    "since_epoch \<Rightarrow> kv_batch \<Rightarrow> catalog_id \<Rightarrow> data_file_id \<Rightarrow> scheduled_data_file_cleanup_kind \<Rightarrow> kv_batch" where
  "stage_scheduled_data_file_cleanup_with_kind clock b catalog data_file_id cleanup_kind =
     batch_put b (scheduled_data_file_cleanup_key catalog data_file_id)
       (encode_scheduled_data_cleanup_value cleanup_kind (current_timestamp_micros clock))"

definition stage_scheduled_data_file_cleanup :: "since_epoch \<Rightarrow> kv_batch \<Rightarrow> catalog_id \<Rightarrow> data_file_id \<Rightarrow> kv_batch" where
  "stage_scheduled_data_file_cleanup clock b catalog data_file_id =
     stage_scheduled_data_file_cleanup_with_kind clock b catalog data_file_id UnreachableOnly"

definition stage_scheduled_compacted_data_file_cleanup ::
    "since_epoch \<Rightarrow> kv_batch \<Rightarrow> catalog_id \<Rightarrow> data_file_id \<Rightarrow> kv_batch" where
  "stage_scheduled_compacted_data_file_cleanup clock b catalog data_file_id =
     stage_scheduled_data_file_cleanup_with_kind clock b catalog data_file_id CompactionReplacement"

definition encode_scheduled_delete_cleanup_value :: "table_id \<Rightarrow> i64 \<Rightarrow> bytes" where
  "encode_scheduled_delete_cleanup_value table_id schedule_start_micros =
     u64_to_be_bytes table_id @ u64_to_be_bytes schedule_start_micros"

definition stage_scheduled_delete_file_cleanup ::
    "since_epoch \<Rightarrow> kv_batch \<Rightarrow> catalog_id \<Rightarrow> table_id \<Rightarrow> delete_file_id \<Rightarrow> kv_batch" where
  "stage_scheduled_delete_file_cleanup clock b catalog table_id delete_file_id =
     batch_put b (scheduled_delete_file_cleanup_key catalog delete_file_id)
       (encode_scheduled_delete_cleanup_value table_id (current_timestamp_micros clock))"

definition scheduled_delete_cleanup_table_id :: "fake_kv \<Rightarrow> catalog_id \<Rightarrow> delete_file_row \<Rightarrow> table_id catalog_result" where
  "scheduled_delete_cleanup_table_id kv catalog delete_file =
     (case fake_get kv (data_file_key catalog (xf_data_file_id delete_file)) of
        None \<Rightarrow> Inl (NotFound ''delete file data file'')
      | Some v \<Rightarrow> rbind (data_file_row_decode v) (\<lambda>d. Inr (df_table_id d)))"

definition decode_scheduled_delete_cleanup_value ::
    "fake_kv \<Rightarrow> catalog_id \<Rightarrow> bytes \<Rightarrow> delete_file_row \<Rightarrow> (table_id \<times> i64) catalog_result" where
  "decode_scheduled_delete_cleanup_value kv catalog v delete_file =
     (if length v = 16 then
        rbind (slice v 0 8) (\<lambda>tb. rbind (be_u64 (Decode ''scheduled delete cleanup table id is truncated'') tb) (\<lambda>t.
        rbind (slice v 8 16) (\<lambda>sb. rbind (be_u64 (Decode ''scheduled delete cleanup timestamp is truncated'') sb) (\<lambda>s.
          Inr (t, s)))))
      else if length v = 8 then
        rbind (be_u64 (Decode ''scheduled delete cleanup table id is truncated'') v) (\<lambda>t. Inr (t, 0))
      else if length v = 0 then rbind (scheduled_delete_cleanup_table_id kv catalog delete_file) (\<lambda>t. Inr (t, 0))
      else Inl (Decode ''scheduled delete cleanup value has bytes''))"

definition list_scheduled_data_file_cleanup_rows ::
    "fake_kv \<Rightarrow> catalog_id \<Rightarrow> scheduled_data_file_cleanup_row list catalog_result" where
  "list_scheduled_data_file_cleanup_rows kv catalog =
     rbind (kv_scan_index_rows (\<lambda>k. Inr (fake_get kv k)) (fake_scan_prefix kv)
              \<lparr>index_prefix = scheduled_data_file_cleanup_prefix catalog, primary_prefix = family_prefix catalog DataFile\<rparr>)
       (\<lambda>joined. rfold (\<lambda>(index, primary) rows.
          case primary of
            None \<Rightarrow> Inr rows
          | Some p \<Rightarrow> rbind (decode_scheduled_data_cleanup_value (ri_value index)) (\<lambda>(kind, start).
              rbind (data_file_row_decode (ri_value p)) (\<lambda>d.
                Inr (rows @ [\<lparr>sd_data_file = d, sd_schedule_start_micros = start, sd_cleanup_kind = kind\<rparr>])))) joined [])"

text \<open>\<open>values.as_chunks::<2>().0\<close>.\<close>

fun chunks_of_two :: "'a list \<Rightarrow> ('a \<times> 'a) list" where
  "chunks_of_two (a # b # xs) = (a, b) # chunks_of_two xs"
| "chunks_of_two _ = []"

definition load_scheduled_data_file_cleanup_rows ::
    "fake_kv \<Rightarrow> catalog_id \<Rightarrow> data_file_id list \<Rightarrow> scheduled_data_file_cleanup_row list catalog_result" where
  "load_scheduled_data_file_cleanup_rows kv catalog data_file_ids =
     rbind (kv_batch_get (\<lambda>k. Inr (fake_get kv k))
              (concat (map (\<lambda>f. [scheduled_data_file_cleanup_key catalog f, data_file_key catalog f]) data_file_ids))) (\<lambda>vals.
       rfold (\<lambda>(f, pair) rows.
         case pair of
           (Some scheduled, Some data_file) \<Rightarrow>
             rbind (decode_scheduled_data_cleanup_value scheduled) (\<lambda>(kind, start).
             rbind (data_file_row_decode data_file) (\<lambda>d.
               if df_data_file_id d \<noteq> f
               then Inl (Decode ''scheduled cleanup data file id does not match requested id'')
               else Inr (rows @ [\<lparr>sd_data_file = d, sd_schedule_start_micros = start, sd_cleanup_kind = kind\<rparr>])))
         | _ \<Rightarrow> Inr rows) (zip data_file_ids (chunks_of_two vals)) [])"

definition list_scheduled_delete_file_cleanup_rows ::
    "fake_kv \<Rightarrow> catalog_id \<Rightarrow> scheduled_delete_file_cleanup_row list catalog_result" where
  "list_scheduled_delete_file_cleanup_rows kv catalog =
     rbind (kv_scan_index_rows (\<lambda>k. Inr (fake_get kv k)) (fake_scan_prefix kv)
              \<lparr>index_prefix = scheduled_delete_file_cleanup_prefix catalog, primary_prefix = family_prefix catalog DeleteFile\<rparr>)
       (\<lambda>joined. rfold (\<lambda>(index, primary) rows.
          case primary of
            None \<Rightarrow> Inr rows
          | Some p \<Rightarrow> rbind (delete_file_row_decode (ri_value p)) (\<lambda>x.
              rbind (decode_scheduled_delete_cleanup_value kv catalog (ri_value index) x) (\<lambda>(table_id, start).
                Inr (rows @ [\<lparr>sx_delete_file = x, sx_table_id = table_id, sx_schedule_start_micros = start\<rparr>])))) joined [])"

definition load_scheduled_delete_file_cleanup_rows ::
    "fake_kv \<Rightarrow> catalog_id \<Rightarrow> delete_file_id list \<Rightarrow> scheduled_delete_file_cleanup_row list catalog_result" where
  "load_scheduled_delete_file_cleanup_rows kv catalog delete_file_ids =
     rbind (kv_batch_get (\<lambda>k. Inr (fake_get kv k))
              (concat (map (\<lambda>f. [scheduled_delete_file_cleanup_key catalog f, delete_file_key catalog f]) delete_file_ids))) (\<lambda>vals.
       rfold (\<lambda>(f, pair) rows.
         case pair of
           (Some scheduled, Some delete_file) \<Rightarrow>
             rbind (delete_file_row_decode delete_file) (\<lambda>x.
               if xf_delete_file_id x \<noteq> f
               then Inl (Decode ''scheduled cleanup delete file id does not match requested id'')
               else rbind (decode_scheduled_delete_cleanup_value kv catalog scheduled x) (\<lambda>(table_id, start).
                 Inr (rows @ [\<lparr>sx_delete_file = x, sx_table_id = table_id, sx_schedule_start_micros = start\<rparr>])))
         | _ \<Rightarrow> Inr rows) (zip delete_file_ids (chunks_of_two vals)) [])"

definition is_scheduled_data_file_cleanup :: "fake_kv \<Rightarrow> catalog_id \<Rightarrow> data_file_id \<Rightarrow> bool" where
  "is_scheduled_data_file_cleanup kv catalog data_file_id \<longleftrightarrow>
     fake_get kv (scheduled_data_file_cleanup_key catalog data_file_id) \<noteq> None"

definition is_scheduled_delete_file_cleanup :: "fake_kv \<Rightarrow> catalog_id \<Rightarrow> delete_file_id \<Rightarrow> bool" where
  "is_scheduled_delete_file_cleanup kv catalog delete_file_id \<longleftrightarrow>
     fake_get kv (scheduled_delete_file_cleanup_key catalog delete_file_id) \<noteq> None"

section \<open>Which data files may go\<close>

definition row_is_unreachable :: "data_file_row \<Rightarrow> snapshot_row list \<Rightarrow> bool" where
  "row_is_unreachable row snapshots \<longleftrightarrow>
     end_order (df_validity row) \<noteq> None \<and> \<not> (\<exists>s \<in> set snapshots. data_file_visible_at row (sn_order s))"

definition data_file_partition_key :: "fake_kv \<Rightarrow> catalog_id \<Rightarrow> data_file_id \<Rightarrow> (u32 \<times> rust_string) list catalog_result" where
  "data_file_partition_key kv catalog data_file_id =
     rbind (list_file_partition_values_for_data_files kv catalog [data_file_id]) (\<lambda>rows.
       Inr (sort (map (\<lambda>r. (pv_partition_key_index r, pv_partition_value r)) rows)))"

definition partition_replacement_covers ::
    "fake_kv \<Rightarrow> catalog_id \<Rightarrow> data_file_row \<Rightarrow> data_file_row \<Rightarrow> catalog_order_id \<Rightarrow> bool catalog_result" where
  "partition_replacement_covers kv catalog candidate row snapshot_order =
     (if df_table_id candidate \<noteq> df_table_id row \<or> df_record_count candidate = 0 \<or>
         df_record_count candidate \<le> df_record_count row \<or> begin_order (df_validity candidate) > snapshot_order
      then Inr False
      else rbind (data_file_partition_key kv catalog (df_data_file_id candidate)) (\<lambda>candidate_key.
        if candidate_key = [] then Inr False
        else rbind (data_file_partition_key kv catalog (df_data_file_id row)) (\<lambda>row_key. Inr (candidate_key = row_key))))"

definition data_file_covers :: "data_file_row \<Rightarrow> data_file_row \<Rightarrow> bool" where
  "data_file_covers candidate row \<longleftrightarrow>
     (if df_table_id candidate \<noteq> df_table_id row \<or> \<not> df_row_id_start_known candidate \<or>
         \<not> df_row_id_start_known row \<or> df_record_count row = 0
      then False
      else let candidate_end = saturating_add (df_row_id_start candidate) (df_record_count candidate);
               row_end = saturating_add (df_row_id_start row) (df_record_count row)
           in df_row_id_start candidate \<le> df_row_id_start row \<and> row_end \<le> candidate_end)"

fun any_covering_data_file ::
    "fake_kv \<Rightarrow> catalog_id \<Rightarrow> data_file_row \<Rightarrow> catalog_order_id \<Rightarrow> range_item list \<Rightarrow> bool catalog_result" where
  "any_covering_data_file kv catalog row snapshot_order [] = Inr False"
| "any_covering_data_file kv catalog row snapshot_order (item # rest) =
     rbind (data_file_row_decode (ri_value item)) (\<lambda>candidate.
       if df_data_file_id candidate = df_data_file_id row \<or> begin_order (df_validity candidate) > snapshot_order
       then any_covering_data_file kv catalog row snapshot_order rest
       else if data_file_covers candidate row then Inr True
       else rbind (partition_replacement_covers kv catalog candidate row snapshot_order) (\<lambda>covered.
         if covered then Inr True else any_covering_data_file kv catalog row snapshot_order rest))"

definition has_covering_data_file :: "fake_kv \<Rightarrow> catalog_id \<Rightarrow> data_file_row \<Rightarrow> catalog_order_id \<Rightarrow> bool catalog_result" where
  "has_covering_data_file kv catalog row snapshot_order =
     rbind (fake_scan_prefix kv (family_prefix catalog DataFile) Forward None)
       (any_covering_data_file kv catalog row snapshot_order)"

fun covered_at_all :: "fake_kv \<Rightarrow> catalog_id \<Rightarrow> data_file_row \<Rightarrow> snapshot_row list \<Rightarrow> bool catalog_result" where
  "covered_at_all kv catalog row [] = Inr True"
| "covered_at_all kv catalog row (s # ss) =
     (if data_file_visible_at row (sn_order s)
      then rbind (has_covering_data_file kv catalog row (sn_order s)) (\<lambda>covered.
        if covered then covered_at_all kv catalog row ss else Inr False)
      else covered_at_all kv catalog row ss)"

definition data_file_is_safe_for_physical_cleanup ::
    "fake_kv \<Rightarrow> catalog_id \<Rightarrow> data_file_row \<Rightarrow> snapshot_row list \<Rightarrow> bool catalog_result" where
  "data_file_is_safe_for_physical_cleanup kv catalog row snapshots =
     (if end_order (df_validity row) = None then Inr False else covered_at_all kv catalog row snapshots)"

definition scheduled_data_file_is_safe_for_physical_cleanup ::
    "fake_kv \<Rightarrow> catalog_id \<Rightarrow> scheduled_data_file_cleanup_row \<Rightarrow> snapshot_row list \<Rightarrow> bool catalog_result" where
  "scheduled_data_file_is_safe_for_physical_cleanup kv catalog row snapshots =
     (if end_order (df_validity (sd_data_file row)) = None then Inr False
      else if sd_cleanup_kind row = CompactionReplacement then Inr True
      else data_file_is_safe_for_physical_cleanup kv catalog (sd_data_file row) snapshots)"

section \<open>Which delete files may go\<close>

definition timeline_delete_file_id :: "bytes \<Rightarrow> delete_file_id catalog_result" where
  "timeline_delete_file_id v = be_u64 (Decode ''delete file id value must be 8 bytes'') v"

definition delete_file_timeline_orders :: "fake_kv \<Rightarrow> catalog_id \<Rightarrow> delete_file_row \<Rightarrow> catalog_order_id list catalog_result" where
  "delete_file_timeline_orders kv catalog row =
     (let p = delete_file_timeline_prefix catalog (xf_data_file_id row) in
      rbind (fake_scan_range kv p (prefix_end p) Forward None) (\<lambda>page.
        rfold (\<lambda>item orders.
          rbind (case delete_file_row_decode (ri_value item) of
                   Inr existing \<Rightarrow> Inr (xf_delete_file_id existing)
                 | Inl _ \<Rightarrow> timeline_delete_file_id (ri_value item)) (\<lambda>delete_file_id.
            if delete_file_id = xf_delete_file_id row
            then rbind (delete_file_timeline_order_from_key catalog (xf_data_file_id row) (ri_key item)
                          (order_kind (begin_order (xf_validity row)))) (\<lambda>ord. Inr (orders @ [ord]))
            else Inr orders)) page []))"

definition delete_file_answers_any_retained_snapshot ::
    "fake_kv \<Rightarrow> catalog_id \<Rightarrow> delete_file_row \<Rightarrow> snapshot_row list \<Rightarrow> bool catalog_result" where
  "delete_file_answers_any_retained_snapshot kv catalog row snapshots =
     rbind (delete_file_timeline_orders kv catalog row) (\<lambda>orders.
       if \<exists>timeline_order \<in> set orders. \<exists>s \<in> set snapshots. delete_file_can_answer_snapshot row timeline_order (sn_order s)
       then Inr True
       else Inr (\<exists>s \<in> set snapshots. is_visible_at (xf_validity row) (sn_order s)))"

definition get_delete_file_physical_cleanup_decision ::
    "fake_kv \<Rightarrow> catalog_id \<Rightarrow> delete_file_row \<Rightarrow> snapshot_row list \<Rightarrow> delete_file_physical_cleanup_decision catalog_result" where
  "get_delete_file_physical_cleanup_decision kv catalog row snapshots =
     (if end_order (xf_validity row) = None then Inr NotCleanupCandidate
      else rbind (delete_file_answers_any_retained_snapshot kv catalog row snapshots) (\<lambda>needed.
        Inr (if needed then CleanupCandidateStillNeededByRetainedSnapshot else SafeToRemove)))"

definition delete_file_is_safe_for_physical_cleanup ::
    "fake_kv \<Rightarrow> catalog_id \<Rightarrow> delete_file_row \<Rightarrow> snapshot_row list \<Rightarrow> bool catalog_result" where
  "delete_file_is_safe_for_physical_cleanup kv catalog row snapshots =
     rbind (get_delete_file_physical_cleanup_decision kv catalog row snapshots) (\<lambda>d. Inr (d = SafeToRemove))"

definition source_data_file_has_compaction_replacement_cleanup :: "fake_kv \<Rightarrow> catalog_id \<Rightarrow> data_file_id \<Rightarrow> bool catalog_result" where
  "source_data_file_has_compaction_replacement_cleanup kv catalog data_file_id =
     (case fake_get kv (scheduled_data_file_cleanup_key catalog data_file_id) of
        None \<Rightarrow> Inr False
      | Some v \<Rightarrow> rbind (decode_scheduled_data_cleanup_value v) (\<lambda>(kind, _). Inr (kind = CompactionReplacement)))"

definition delete_file_cleanup_is_allowed ::
    "fake_kv \<Rightarrow> catalog_id \<Rightarrow> delete_file_row \<Rightarrow> snapshot_row list \<Rightarrow> bool catalog_result" where
  "delete_file_cleanup_is_allowed kv catalog row snapshots =
     rbind (delete_file_is_safe_for_physical_cleanup kv catalog row snapshots) (\<lambda>safe.
       if safe then Inr True
       else source_data_file_has_compaction_replacement_cleanup kv catalog (xf_data_file_id row))"

section \<open>The end-order index\<close>

datatype end_order_entry =
    EndDataFile data_file_id
  | EndDeleteFile table_id delete_file_id
  | EndInlineTable table_id schema_id catalog_order_id catalog_order_id

definition decode_end_order_entry :: "catalog_id \<Rightarrow> bytes \<Rightarrow> end_order_entry option catalog_result" where
  "decode_end_order_entry catalog key =
     (case strip_prefix (family_prefix catalog EndOrder) key of
        None \<Rightarrow> Inr None
      | Some tail \<Rightarrow>
          if length tail < 8 + 1 + 16 + 1 + 8 then Inl (InvalidKey ''end-order key tail is too short'')
          else
            rbind (slice tail 0 8) (\<lambda>tb. rbind (be_u64 (InvalidKey ''end-order table id is truncated'') tb) (\<lambda>table_id.
            rbind (byte_at tail 8) (\<lambda>sep1. rbind (byte_at tail 25) (\<lambda>sep2.
            if sep1 \<noteq> slash \<or> sep2 \<noteq> slash then Inl (InvalidKey ''end-order key separators are invalid'')
            else rbind (slice_from tail 26) (\<lambda>object.
              if length object = 8 then
                rbind (be_u64 (InvalidKey ''end-order data file id is truncated'') object) (\<lambda>f. Inr (Some (EndDataFile f)))
              else if length object = 10 \<and> object ! 0 = 120 \<and> object ! 1 = slash then
                rbind (slice_from object 2) (\<lambda>fb.
                rbind (be_u64 (InvalidKey ''end-order delete file id is truncated'') fb) (\<lambda>f.
                  Inr (Some (EndDeleteFile table_id f))))
              else if length object = 2 + 8 + 1 + 16 \<and> object ! 0 = 105 \<and> object ! 1 = slash then
                (if object ! 10 \<noteq> slash then Inl (InvalidKey ''end-order inline table separators are invalid'')
                 else
                   rbind (slice_from object 11) (\<lambda>bb.
                   rbind (be_u128 (InvalidKey ''end-order inline begin is truncated'') bb) (\<lambda>begin.
                   rbind (slice object 2 10) (\<lambda>sb.
                   rbind (be_u64 (InvalidKey ''end-order inline schema is truncated'') sb) (\<lambda>schema.
                   rbind (slice tail 9 25) (\<lambda>eb.
                     Inr (Some (EndInlineTable table_id schema (uuid_v7 begin) (order_from_bytes UuidV7 eb)))))))))
              else Inl (InvalidKey ''end-order object tail has unsupported shape'')))))))"

section \<open>Candidates\<close>

definition scheduled_data_files_for_cleanup ::
    "fake_kv \<Rightarrow> catalog_id \<Rightarrow> snapshot_row list \<Rightarrow> scheduled_data_file_cleanup_row list \<Rightarrow>
     (data_file_id set \<times> data_file_row list) catalog_result" where
  "scheduled_data_files_for_cleanup kv catalog snapshots scheduled =
     rfold (\<lambda>row (seen, rows).
       rbind (scheduled_data_file_is_safe_for_physical_cleanup kv catalog row snapshots) (\<lambda>safe.
         if safe then Inr (insert (df_data_file_id (sd_data_file row)) seen, rows @ [sd_data_file row])
         else Inr (seen, rows))) scheduled ({}, [])"

definition ended_data_files_for_cleanup ::
    "fake_kv \<Rightarrow> catalog_id \<Rightarrow> snapshot_row list \<Rightarrow> range_item list \<Rightarrow> data_file_id set \<times> data_file_row list \<Rightarrow>
     (data_file_id set \<times> data_file_row list) catalog_result" where
  "ended_data_files_for_cleanup kv catalog snapshots page st =
     rfold (\<lambda>item (seen, rows).
       rbind (decode_end_order_entry catalog (ri_key item)) (\<lambda>entry.
         case entry of
           Some (EndDataFile data_file_id) \<Rightarrow>
             if data_file_id \<in> seen then Inr (seen, rows)
             else (case fake_get kv (data_file_key catalog data_file_id) of
                 None \<Rightarrow> Inr (insert data_file_id seen, rows)
               | Some v \<Rightarrow> rbind (data_file_row_decode v) (\<lambda>row.
                   Inr (insert data_file_id seen, if row_is_unreachable row snapshots then rows @ [row] else rows)))
         | _ \<Rightarrow> Inr (seen, rows))) page st"

definition list_old_data_files_for_cleanup :: "fake_kv \<Rightarrow> catalog_id \<Rightarrow> data_file_row list catalog_result" where
  "list_old_data_files_for_cleanup kv catalog =
     rbind (list_snapshots kv catalog) (\<lambda>snapshots.
     rbind (list_scheduled_data_file_cleanup_rows kv catalog) (\<lambda>scheduled.
     rbind (scheduled_data_files_for_cleanup kv catalog snapshots scheduled) (\<lambda>st.
     rbind (fake_scan_prefix kv (family_prefix catalog EndOrder) Forward None) (\<lambda>page.
     rbind (ended_data_files_for_cleanup kv catalog snapshots page st) (\<lambda>(_, rows). Inr rows)))))"

definition scheduled_delete_files_for_cleanup ::
    "fake_kv \<Rightarrow> catalog_id \<Rightarrow> snapshot_row list \<Rightarrow> scheduled_delete_file_cleanup_row list \<Rightarrow>
     (delete_file_id set \<times> delete_file_cleanup_row list) catalog_result" where
  "scheduled_delete_files_for_cleanup kv catalog snapshots scheduled =
     rfold (\<lambda>row (seen, rows).
       if end_order (xf_validity (sx_delete_file row)) = None then Inr (seen, rows)
       else rbind (delete_file_cleanup_is_allowed kv catalog (sx_delete_file row) snapshots) (\<lambda>allowed.
         if allowed then Inr (insert (xf_delete_file_id (sx_delete_file row)) seen,
             rows @ [\<lparr>dc_delete_file = sx_delete_file row, dc_table_id = sx_table_id row\<rparr>])
         else Inr (seen, rows))) scheduled ({}, [])"

definition ended_delete_files_for_cleanup ::
    "fake_kv \<Rightarrow> catalog_id \<Rightarrow> snapshot_row list \<Rightarrow> range_item list \<Rightarrow> delete_file_id set \<times> delete_file_cleanup_row list \<Rightarrow>
     (delete_file_id set \<times> delete_file_cleanup_row list) catalog_result" where
  "ended_delete_files_for_cleanup kv catalog snapshots page st =
     rfold (\<lambda>item (seen, rows).
       rbind (decode_end_order_entry catalog (ri_key item)) (\<lambda>entry.
         case entry of
           Some (EndDeleteFile table_id delete_file_id) \<Rightarrow>
             if delete_file_id \<in> seen then Inr (seen, rows)
             else (case fake_get kv (delete_file_key catalog delete_file_id) of
                 None \<Rightarrow> Inr (insert delete_file_id seen, rows)
               | Some v \<Rightarrow> rbind (delete_file_row_decode v) (\<lambda>row.
                   rbind (if end_order (xf_validity row) \<noteq> None
                          then delete_file_cleanup_is_allowed kv catalog row snapshots else Inr False) (\<lambda>allowed.
                     Inr (insert delete_file_id seen,
                       if allowed then rows @ [\<lparr>dc_delete_file = row, dc_table_id = table_id\<rparr>] else rows))))
         | _ \<Rightarrow> Inr (seen, rows))) page st"

definition list_old_delete_files_for_cleanup :: "fake_kv \<Rightarrow> catalog_id \<Rightarrow> delete_file_cleanup_row list catalog_result" where
  "list_old_delete_files_for_cleanup kv catalog =
     rbind (list_snapshots kv catalog) (\<lambda>snapshots.
     rbind (list_scheduled_delete_file_cleanup_rows kv catalog) (\<lambda>scheduled.
     rbind (scheduled_delete_files_for_cleanup kv catalog snapshots scheduled) (\<lambda>st.
     rbind (fake_scan_prefix kv (family_prefix catalog EndOrder) Forward None) (\<lambda>page.
     rbind (ended_delete_files_for_cleanup kv catalog snapshots page st) (\<lambda>(_, rows). Inr rows)))))"

section \<open>Removal\<close>

definition stage_remove_unreachable_table_metadata ::
    "fake_kv \<Rightarrow> kv_batch \<Rightarrow> catalog_id \<Rightarrow> table_id \<Rightarrow> snapshot_row list \<Rightarrow> kv_batch catalog_result" where
  "stage_remove_unreachable_table_metadata kv b catalog table_id snapshots =
     rbind (list_table_rows kv catalog) (\<lambda>all_rows.
       let table_rows = filter (\<lambda>row. tr_table_id row = table_id) all_rows in
       if table_rows = [] \<or> (\<exists>row \<in> set table_rows. \<exists>s \<in> set snapshots. is_visible_at (tr_validity row) (sn_order s))
       then Inr b
       else
         let b1 = fold (\<lambda>row b. batch_delete b (table_visibility_key catalog (begin_order (tr_validity row)) (tr_table_id row)))
                    table_rows b;
             b2 = batch_delete b1 (current_table_row_key catalog table_id)
         in rbind (fake_scan_prefix kv (table_object_prefix catalog table_id) Forward None) (\<lambda>page.
              Inr (fold (\<lambda>item b. batch_delete b (ri_key item)) page b2)))"

definition file_column_stats_prefix :: "catalog_id \<Rightarrow> data_file_id \<Rightarrow> bytes" where
  "file_column_stats_prefix catalog data_file_id =
     family_prefix catalog FileColumnStats @ u64_to_be_bytes data_file_id @ [slash]"

definition stage_remove_file_column_stats ::
    "fake_kv \<Rightarrow> kv_batch \<Rightarrow> catalog_id \<Rightarrow> data_file_id \<Rightarrow> kv_batch catalog_result" where
  "stage_remove_file_column_stats kv b catalog data_file_id =
     rbind (fake_scan_prefix kv (file_column_stats_prefix catalog data_file_id) Forward None) (\<lambda>page.
       rfold (\<lambda>item b. rbind (file_column_stats_row_decode (ri_value item)) (\<lambda>row.
         Inr (batch_delete (batch_delete b (ri_key item))
           (file_column_stats_lookup_key catalog (fs_table_id row) (fs_column_id row) (fs_data_file_id row))))) page b)"

definition stage_remove_data_file_metadata ::
    "fake_kv \<Rightarrow> kv_batch \<Rightarrow> catalog_id \<Rightarrow> data_file_row \<Rightarrow> kv_batch catalog_result" where
  "stage_remove_data_file_metadata kv b catalog row =
     (let f = df_data_file_id row; t = df_table_id row;
          b1 = batch_delete b (data_file_key catalog f);
          b2 = batch_delete b1 (data_file_begin_key catalog t (begin_order (df_validity row)) f);
          b3 = (case end_order (df_validity row) of
                  Some ord \<Rightarrow> batch_delete b2 (data_file_end_key catalog t ord f) | None \<Rightarrow> b2);
          b4 = batch_delete b3 (current_data_file_key catalog t f)
      in rbind (stage_remove_file_column_stats kv b4 catalog f) (\<lambda>b5.
           delete_partition_values_for_data_file kv b5 catalog f))"

definition stage_remove_delete_file_metadata :: "kv_batch \<Rightarrow> catalog_id \<Rightarrow> delete_file_cleanup_row \<Rightarrow> kv_batch" where
  "stage_remove_delete_file_metadata b catalog row =
     (let x = dc_delete_file row; f = xf_delete_file_id x; ord = begin_order (xf_validity x); t = dc_table_id row;
          b1 = batch_delete b (delete_file_key catalog f);
          b2 = batch_delete b1 (delete_file_timeline_key catalog (xf_data_file_id x) ord f);
          b3 = batch_delete b2 (table_delete_file_change_key catalog t ord f);
          b4 = batch_delete b3 (order_delete_file_change_key catalog ord t f)
      in case end_order (xf_validity x) of
           Some e \<Rightarrow> batch_delete b4 (delete_file_end_key catalog t e f) | None \<Rightarrow> b4)"

definition remove_old_data_files :: "fake_kv \<Rightarrow> catalog_id \<Rightarrow> data_file_id list \<Rightarrow> data_file_row list kv_op" where
  "remove_old_data_files kv catalog data_file_ids =
     (if data_file_ids = [] then (Inr [], kv)
      else attempt kv (list_old_data_files_for_cleanup kv catalog) (\<lambda>cleanup_rows.
        attempt kv (list_snapshots kv catalog) (\<lambda>snapshots.
        let rows = filter (\<lambda>row. df_data_file_id row \<in> set data_file_ids) cleanup_rows;
            affected_tables = sorted_list_of_set (df_table_id ` set rows)
        in attempt kv (rfold (\<lambda>row b.
             let b1 = (if is_scheduled_data_file_cleanup kv catalog (df_data_file_id row)
                       then batch_delete b (scheduled_data_file_cleanup_key catalog (df_data_file_id row)) else b)
             in if row_is_unreachable row snapshots then stage_remove_data_file_metadata kv b1 catalog row else Inr b1)
               rows batch_new) (\<lambda>b.
           attempt kv (rfold (\<lambda>table_id b. stage_remove_unreachable_table_metadata kv b catalog table_id snapshots)
               affected_tables b) (\<lambda>b'.
             commit_then kv b' rows)))))"

definition remove_old_delete_files :: "fake_kv \<Rightarrow> catalog_id \<Rightarrow> delete_file_id list \<Rightarrow> delete_file_cleanup_row list kv_op" where
  "remove_old_delete_files kv catalog delete_file_ids =
     (if delete_file_ids = [] then (Inr [], kv)
      else attempt kv (list_old_delete_files_for_cleanup kv catalog) (\<lambda>cleanup_rows.
        attempt kv (list_snapshots kv catalog) (\<lambda>snapshots.
        attempt kv (rfold (\<lambda>row rows.
          if xf_delete_file_id (dc_delete_file row) \<notin> set delete_file_ids then Inr rows
          else rbind (delete_file_cleanup_is_allowed kv catalog (dc_delete_file row) snapshots) (\<lambda>allowed.
            Inr (if allowed then rows @ [row] else rows))) cleanup_rows []) (\<lambda>rows.
        let affected_tables = sorted_list_of_set (dc_table_id ` set rows);
            b = fold (\<lambda>row b.
              stage_remove_delete_file_metadata
                (if is_scheduled_delete_file_cleanup kv catalog (xf_delete_file_id (dc_delete_file row))
                 then batch_delete b (scheduled_delete_file_cleanup_key catalog (xf_delete_file_id (dc_delete_file row)))
                 else b) catalog row) rows batch_new
        in attempt kv (rfold (\<lambda>table_id b. stage_remove_unreachable_table_metadata kv b catalog table_id snapshots)
               affected_tables b) (\<lambda>b'.
             commit_then kv b' rows)))))"

end
