(* ===== verification/Cat_File_Stats_Spec.thy ===== *)
theory Cat_File_Stats_Spec
  imports Cat_File_Stats
begin

text \<open>
  Column statistics against their specification: the rows are a set with one row per file and column. Every way to list
  them (point reads, one scan per file, one dense range scan, and the mix the code chooses for large requests) returns
  exactly the requested rows, and registration overrides the rows of the same file and column.
\<close>

section \<open>Round trip\<close>

definition stats_row_ok :: "file_column_stats_row \<Rightarrow> bool" where
  "stats_row_ok r \<longleftrightarrow> pred_option string_ok (fs_min_value r) \<and> pred_option string_ok (fs_max_value r) \<and>
     pred_option string_ok (fs_extra_stats r)"

lemma stats_decode_optional_string_field:
  assumes "length xs = i" and "pred_option string_ok v"
  shows "stats_decode_optional_string (xs @ stats_encode_optional_string v @ zs) i =
    Inr (v, i + length (stats_encode_optional_string v))"
proof (cases v)
  case None
  have "slice (xs @ 0 # u32_to_be_bytes 0 @ zs) (i + 1) (i + 5) = Inr (u32_to_be_bytes 0)"
    using assms slice_field [of "xs @ [0]" "i + 1" "u32_to_be_bytes 0" "i + 5" zs] by simp
  with None assms show ?thesis
    by (simp add: stats_decode_optional_string_def stats_encode_optional_string_def byte_at_field be_u32_def)
next
  case (Some s)
  have "slice (xs @ 1 # len_u32 s @ s @ zs) (i + 1) (i + 5) = Inr (len_u32 s)"
    using assms slice_field [of "xs @ [1]" "i + 1" "len_u32 s" "i + 5" "s @ zs"] by simp
  moreover have "slice (xs @ 1 # len_u32 s @ s @ zs) (i + 5) (i + 5 + length s) = Inr s"
    using assms slice_field [of "xs @ [1] @ len_u32 s" "i + 5" s "i + 5 + length s" zs] by simp
  moreover have "be_u32 err (len_u32 s) = Inr (word_of_nat (length s))" for err
    by (simp add: be_u32_def len_u32_def)
  ultimately show ?thesis
    using Some assms
    by (simp add: stats_decode_optional_string_def stats_encode_optional_string_def byte_at_field unat_len_word
        str_from_utf8_def Let_def string_ok_def)
qed

lemma file_column_stats_row_roundtrip:
  assumes "stats_row_ok r"
  shows "file_column_stats_row_decode (file_column_stats_row_encode r) = Inr r"
proof -
  define cnt where "cnt = (case fs_value_count r of Some n \<Rightarrow> [1] @ u64_to_be_bytes n | None \<Rightarrow> [0] @ u64_to_be_bytes 0)"
  have cnt: "length cnt = 9" by (simp add: cnt_def split: option.splits)
  define h where "h = [3] @ u64_to_be_bytes (fs_data_file_id r) @ u64_to_be_bytes (fs_table_id r) @
    u64_to_be_bytes (fs_column_id r) @ cnt @ u64_to_be_bytes (fs_null_count r)"
  define a b e where "a = stats_encode_optional_string (fs_min_value r)" and "b = stats_encode_optional_string (fs_max_value r)"
    and "e = stats_encode_optional_string (fs_extra_stats r)"
  have enc: "file_column_stats_row_encode r = h @ a @ b @ e"
    by (simp add: file_column_stats_row_encode_def h_def a_def b_def e_def cnt_def)
  have h: "length h = 42" by (simp add: h_def cnt)
  have layout: "validate_stats_row_layout (h @ a @ b @ e) = Inr (3, 42)"
    using h by (simp add: validate_stats_row_layout_def h_def)
  have strings: "stats_decode_optional_string (h @ a @ b @ e) 42 = Inr (fs_min_value r, 42 + length a)"
    "stats_decode_optional_string (h @ a @ b @ e) (42 + length a) = Inr (fs_max_value r, 42 + length a + length b)"
    "stats_decode_optional_string (h @ a @ b @ e) (42 + length a + length b) =
       Inr (fs_extra_stats r, 42 + length a + length b + length e)"
    using assms stats_decode_optional_string_field [of h 42 "fs_min_value r" "b @ e"]
      stats_decode_optional_string_field [of "h @ a" "42 + length a" "fs_max_value r" e]
      stats_decode_optional_string_field [of "h @ a @ b" "42 + length a + length b" "fs_extra_stats r" "[]"]
    by (simp_all add: h a_def b_def e_def stats_row_ok_def)
  have fields: "slice (h @ t) 1 9 = Inr (u64_to_be_bytes (fs_data_file_id r))"
    "slice (h @ t) 9 17 = Inr (u64_to_be_bytes (fs_table_id r))" "slice (h @ t) 17 25 = Inr (u64_to_be_bytes (fs_column_id r))"
    "slice (h @ t) 34 42 = Inr (u64_to_be_bytes (fs_null_count r))"
    "slice (h @ t) 26 34 = Inr (drop 1 cnt)" "byte_at (h @ t) 25 = Inr (cnt ! 0)" for t
    using cnt by (simp_all add: h_def slice_def byte_at_def nth_append nth_Cons')
  have "stats_decode_optional_u64 (h @ t) 25 = Inr (fs_value_count r)" for t
    using fields(5,6) [of t] h
    by (cases "fs_value_count r") (simp_all add: stats_decode_optional_u64_def cnt_def stats_decode_u64_def be_u64_def)
  with strings layout fields show ?thesis
    unfolding enc by (simp add: file_column_stats_row_decode_def stats_decode_u64_def be_u64_def h)
qed

section \<open>The index\<close>

abbreviation stats_ids :: "file_column_stats_row \<Rightarrow> data_file_id \<times> column_id" where
  "stats_ids r \<equiv> (fs_data_file_id r, fs_column_id r)"

interpretation stats: stored_index "family_prefix c FileColumnStats" "\<lambda>r. file_column_stats_key c (fs_data_file_id r) (fs_column_id r)"
  file_column_stats_row_encode stats_row_ok "\<lambda>k v. file_column_stats_row_decode v" for c
  by unfold_locales (simp_all add: file_column_stats_row_roundtrip key_defs)

lemma stats_key_eq [simp]: "file_column_stats_key c f i = file_column_stats_key c g j \<longleftrightarrow> f = g \<and> i = j"
  by (auto simp: key_defs)

lemma from_be_max: "Suc (from_be (replicate n 0xff)) = 256 ^ n"
  by (induction n) (simp_all add: from_be_Cons)

lemma max_id_bytes: "u64_from_be_bytes (replicate 8 0xff) = - 1"
proof -
  have "from_be (replicate 8 0xff) = 256 ^ 8 - 1" using from_be_max [of 8] by linarith
  then show ?thesis by (simp add: u64_from_be_bytes_def)
qed

lemma prefix_end_id:
  assumes "f \<noteq> (- 1 :: u64)"
  obtains e where "prefix_end (p @ u64_to_be_bytes f) = p @ e" "length e = 8"
    "\<And>k. length k = 8 \<Longrightarrow> k < e \<longleftrightarrow> k \<le> u64_to_be_bytes f"
proof -
  have "\<exists>b \<in> set (u64_to_be_bytes f). b < 0xff"
  proof (rule ccontr)
    assume "\<not> ?thesis"
    then have "b = 0xff" if "b \<in> set (u64_to_be_bytes f)" for b using that byte_le_max [of b] by (auto simp: le_less)
    then have "u64_to_be_bytes f = replicate 8 0xff" by (intro replicate_eqI) simp_all
    with max_id_bytes u64_from_to_be [of f] assms show False by simp
  qed
  then obtain q1 b q2 where q: "u64_to_be_bytes f = q1 @ b # q2" "b < 0xff" by (auto dest!: split_list)
  from prefix_end_carry [OF q(2), of "p @ q1" q2] obtain r where r: "prefix_end ((p @ q1) @ b # q2) = (p @ q1) @ r"
    "length r = Suc (length q2)" "\<And>k. length k = Suc (length q2) \<Longrightarrow> k < r \<longleftrightarrow> k \<le> b # q2" by blast
  have len: "length q1 + Suc (length q2) = 8" using arg_cong [OF q(1), of length] by simp
  show thesis
  proof (rule that [of "q1 @ r"])
    show "prefix_end (p @ u64_to_be_bytes f) = p @ q1 @ r" using r(1) by (simp add: q(1))
    show "length (q1 @ r) = 8" using r(2) len by simp
    fix k :: bytes
    assume k: "length k = 8"
    define k1 k2 where "k1 = take (length q1) k" and "k2 = drop (length q1) k"
    have k12: "k = k1 @ k2" "length k1 = length q1" "length k2 = Suc (length q2)" using k len by (simp_all add: k1_def k2_def)
    show "k < q1 @ r \<longleftrightarrow> k \<le> u64_to_be_bytes f"
      unfolding q(1) k12(1) le_less [of "k1 @ k2"] less_append_eq_length [OF k12(2)] using r(3) [OF k12(3)] k12(2)
      by (auto simp: le_less)
  qed
qed

text \<open>The range between the prefixes of two files holds exactly the rows of the files in between.\<close>

lemma stats_range:
  assumes "fake_wf kv" "stats.holds c (fake_get kv) S" "lo \<le> hi" "hi \<noteq> - 1"
  obtains xs where "fake_scan_range kv (file_column_stats_data_file_prefix c lo)
      (prefix_end (file_column_stats_data_file_prefix c hi)) Forward None =
    Inr (map (\<lambda>x. to_item (file_column_stats_key c (fs_data_file_id x) (fs_column_id x), file_column_stats_row_encode x)) xs)"
    "set xs = {r \<in> S. lo \<le> fs_data_file_id r \<and> fs_data_file_id r \<le> hi}" "distinct xs"
proof -
  from prefix_end_id [OF assms(4), of "family_prefix c FileColumnStats"] obtain e where
    e: "prefix_end (family_prefix c FileColumnStats @ u64_to_be_bytes hi) = family_prefix c FileColumnStats @ e" "length e = 8"
    "\<And>k. length k = 8 \<Longrightarrow> k < e \<longleftrightarrow> k \<le> u64_to_be_bytes hi" by blast
  let ?lo = "file_column_stats_data_file_prefix c lo" and ?hi = "prefix_end (file_column_stats_data_file_prefix c hi)"
  have hi: "?hi = family_prefix c FileColumnStats @ e" by (simp add: file_column_stats_data_file_prefix_def e(1))
  have "u64_to_be_bytes lo < e" using e(3) [of "u64_to_be_bytes lo"] assms(3) by simp
  then have le: "?lo \<le> ?hi" unfolding hi by (simp add: file_column_stats_data_file_prefix_def)
  have fam: "prefix (family_prefix c FileColumnStats) k" if "?lo \<le> k" "k < ?hi" for k
    using that unfolding hi by (auto simp: file_column_stats_data_file_prefix_def intro: common_prefix_range)
  have range: "?lo \<le> file_column_stats_key c f i \<and> file_column_stats_key c f i < ?hi \<longleftrightarrow> lo \<le> f \<and> f \<le> hi" for f i
  proof -
    have "u64_to_be_bytes lo \<le> u64_to_be_bytes f @ slash # u64_to_be_bytes i \<longleftrightarrow> lo \<le> f"
      using less_append_eq_length [of "u64_to_be_bytes f" "u64_to_be_bytes lo" "slash # u64_to_be_bytes i" "[]"]
      by (auto simp: linorder_not_less [symmetric])
    moreover have "u64_to_be_bytes f @ slash # u64_to_be_bytes i < e \<longleftrightarrow> f \<le> hi"
      using less_append_eq_length [of "u64_to_be_bytes f" e "slash # u64_to_be_bytes i" "[]"] e(2) e(3) [of "u64_to_be_bytes f"]
      by simp
    ultimately show ?thesis unfolding hi by (simp add: file_column_stats_key_def file_column_stats_data_file_prefix_def)
  qed
  note spec = stats.rows_in_spec [OF assms(2) stats.holds_finite [OF assms(2)], of "\<lambda>k. ?lo \<le> k \<and> k < ?hi"]
  show thesis
    by (rule that [of "stats.rows_in c (\<lambda>k. ?lo \<le> k \<and> k < ?hi) S"])
       (use stats.scan_range_rows [OF assms(1,2) le fam] spec in \<open>simp_all add: range\<close>)
qed

section \<open>The loaders\<close>

lemma exact_fold:
  assumes "stats.holds c (fake_get kv) S"
  shows "\<exists>xs. rfold (\<lambda>(key, v) rows. case v of
           None \<Rightarrow> Inr rows
         | Some bs \<Rightarrow> rbind (file_column_stats_row_decode bs) (\<lambda>row.
             rbind (validate_file_column_stats_cache_row key row) (\<lambda>_. Inr (rows @ [row]))))
       (zip ks (map (fake_get kv) (map (\<lambda>(f, i). file_column_stats_key c f i) ks))) acc = Inr (acc @ xs) \<and>
     set xs = {r \<in> S. stats_ids r \<in> set ks} \<and> (distinct ks \<longrightarrow> distinct xs)"
proof (induction ks arbitrary: acc)
  case (Cons k ks)
  obtain f i where k: "k = (f, i)" by force
  have fam: "prefix (family_prefix c FileColumnStats) (file_column_stats_key c f i)" by (simp add: key_defs)
  show ?case
  proof (cases "fake_get kv (file_column_stats_key c f i)")
    case None
    then have "stats_ids r \<noteq> k" if "r \<in> S" for r using stats.holds_get_None [OF assms fam] that k by auto
    with None k Cons.IH [of acc] show ?thesis by (auto simp: comp_def)
  next
    case (Some v)
    then obtain r where r: "r \<in> S" "stats_ids r = k" "v = file_column_stats_row_encode r"
      using stats.holds_get_iff [OF assms fam] k by auto
    have dec: "file_column_stats_row_decode v = Inr r"
      using r(3) file_column_stats_row_roundtrip stats.holds_ok [OF assms r(1)] by simp
    have ok: "validate_file_column_stats_cache_row (f, i) r = Inr ()" using r(2) k by (simp add: validate_file_column_stats_cache_row_def)
    from Cons.IH [of "acc @ [r]"] obtain xs where xs: "set xs = {r \<in> S. stats_ids r \<in> set ks}" "distinct ks \<longrightarrow> distinct xs"
      "rfold (\<lambda>(key, v) rows. case v of
           None \<Rightarrow> Inr rows
         | Some bs \<Rightarrow> rbind (file_column_stats_row_decode bs) (\<lambda>row.
             rbind (validate_file_column_stats_cache_row key row) (\<lambda>_. Inr (rows @ [row]))))
       (zip ks (map (fake_get kv) (map (\<lambda>(f, i). file_column_stats_key c f i) ks))) (acc @ [r]) = Inr ((acc @ [r]) @ xs)" by blast
    have one: "x = r" if "x \<in> S" "stats_ids x = k" for x
    proof -
      have "fs_data_file_id x = fs_data_file_id r" "fs_column_id x = fs_column_id r" using that(2) r(2) k by simp_all
      then show ?thesis by (intro stats.holds_unique [OF assms that(1) r(1)]) simp
    qed
    have mem: "x \<in> set xs \<longleftrightarrow> x \<in> S \<and> stats_ids x \<in> set ks" for x using xs(1) by simp
    have "x \<in> set (r # xs) \<longleftrightarrow> x \<in> S \<and> stats_ids x \<in> set (k # ks)" for x
    proof (cases "x = r")
      case False
      then have "x \<in> S \<Longrightarrow> stats_ids x \<noteq> k" using one by blast
      with False mem [of x] show ?thesis by (simp only: list.set insert_iff) blast
    qed (use r(1,2) in simp)
    then have "set (r # xs) = {r \<in> S. stats_ids r \<in> set (k # ks)}" by blast
    moreover have "distinct (k # ks) \<longrightarrow> distinct (r # xs)" using mem [of r] xs(2) r(2) by simp
    ultimately show ?thesis using xs(3) Some k dec ok by (intro exI [of _ "r # xs"]) (simp add: comp_def)
  qed
qed simp

lemma load_exact_reads:
  assumes "stats.holds c (fake_get kv) S" "distinct ks"
  shows "\<exists>xs. load_exact_missing_file_column_stats kv c ks = Inr xs \<and> set xs = {r \<in> S. stats_ids r \<in> set ks} \<and> distinct xs"
proof -
  have "kv_batch_get (\<lambda>k. Inr (fake_get kv k)) keys = Inr (map (fake_get kv) keys)" for keys
    by (simp add: kv_batch_get_def rmap_Inr)
  with exact_fold [OF assms(1), of ks "[]"] assms(2) show ?thesis
    unfolding load_exact_missing_file_column_stats_def by (simp add: comp_def)
qed

lemma decode_stats_page:
  assumes "stats.holds c m S" "set xs \<subseteq> {r \<in> S. fs_data_file_id r = f}"
  shows "rmap (\<lambda>i. rbind (file_column_stats_row_decode (ri_value i)) (\<lambda>row.
      rbind (validate_file_column_stats_data_file_row f row) (\<lambda>_. Inr row)))
    (map (\<lambda>x. to_item (file_column_stats_key c (fs_data_file_id x) (fs_column_id x), file_column_stats_row_encode x)) xs) = Inr xs"
  using assms(2)
  by (induction xs) (auto simp: to_item_def file_column_stats_row_roundtrip stats.holds_ok [OF assms(1)]
      validate_file_column_stats_data_file_row_def)

lemma load_sparse_reads:
  assumes "fake_wf kv" "stats.holds c (fake_get kv) S" "\<forall>f \<in> set ids. f \<noteq> - 1"
  shows "\<exists>xs. load_sparse_file_column_stats kv c ids = Inr xs \<and> set xs = {r \<in> S. fs_data_file_id r \<in> set ids} \<and>
    (distinct ids \<longrightarrow> distinct xs)"
  using assms(3)
proof (induction ids)
  case Nil
  then show ?case by (simp add: load_sparse_file_column_stats_def kv_scan_prefixes_def)
next
  case (Cons f ids)
  from Cons obtain xs where xs: "load_sparse_file_column_stats kv c ids = Inr xs" "set xs = {r \<in> S. fs_data_file_id r \<in> set ids}"
    "distinct ids \<longrightarrow> distinct xs" by auto
  have "f \<noteq> - 1" using Cons.prems by simp
  from stats_range [OF assms(1,2) order_refl this] obtain ys where
    ys: "fake_scan_prefix kv (file_column_stats_data_file_prefix c f) Forward None =
      Inr (map (\<lambda>x. to_item (file_column_stats_key c (fs_data_file_id x) (fs_column_id x), file_column_stats_row_encode x)) ys)"
    "set ys = {r \<in> S. f \<le> fs_data_file_id r \<and> fs_data_file_id r \<le> f}" "distinct ys"
    unfolding fake_scan_prefix_def by blast
  have set: "set ys = {r \<in> S. fs_data_file_id r = f}" using ys(2) by auto
  have page: "rmap (\<lambda>i. rbind (file_column_stats_row_decode (ri_value i)) (\<lambda>row.
      rbind (validate_file_column_stats_data_file_row f row) (\<lambda>_. Inr row)))
    (map (\<lambda>x. to_item (file_column_stats_key c (fs_data_file_id x) (fs_column_id x), file_column_stats_row_encode x)) ys) = Inr ys"
    by (rule decode_stats_page [OF assms(2)]) (simp add: set)
  have "load_sparse_file_column_stats kv c (f # ids) = Inr (sort_key stats_sort_key ys @ xs)"
    using xs(1) page unfolding load_sparse_file_column_stats_def kv_scan_prefixes_def
    by (clarsimp simp: ys(1) rbind_Inr_iff)
  with xs ys(3) set show ?case by (intro exI [of _ "sort_key stats_sort_key ys @ xs"]) auto
qed

lemma take_file_rows_spec:
  "set (take_file_rows fs ps) = snd ` {p \<in> set ps. fst p \<in> set fs}"
  "distinct (map snd ps) \<Longrightarrow> distinct (take_file_rows fs ps)"
proof (induction fs arbitrary: ps)
  case (Cons f fs)
  { case 1
    then show ?case by (auto simp: Cons.IH(1))
  next
    case 2
    have "distinct (map snd (filter P ps))" for P using 2 by (simp add: distinct_map_filter)
    moreover have "v \<noteq> w" if "(f, v) \<in> set ps" "(g, w) \<in> set ps" "g \<noteq> f" for v g w
      using 2 that by (force simp: distinct_map inj_on_def)
    ultimately show ?case by (force simp: Cons.IH) }
qed simp_all

lemma stats_id_from_key: "file_column_stats_data_file_id_from_key c (file_column_stats_key c f i) = Inr f"
  by (simp add: file_column_stats_data_file_id_from_key_def key_defs nth_append slice_field [of "[]", simplified] be_u64_def)

lemma dense_fold:
  assumes "stats.holds c m S" "set xs \<subseteq> S"
  shows "rfold (\<lambda>i by_file.
      rbind (file_column_stats_data_file_id_from_key c (ri_key i)) (\<lambda>f.
        if f \<notin> F then Inr by_file
        else rbind (file_column_stats_row_decode (ri_value i)) (\<lambda>row.
          rbind (validate_file_column_stats_data_file_row f row) (\<lambda>_. Inr (by_file @ [(f, row)])))))
    (map (\<lambda>x. to_item (file_column_stats_key c (fs_data_file_id x) (fs_column_id x), file_column_stats_row_encode x)) xs) acc =
    Inr (acc @ map (\<lambda>r. (fs_data_file_id r, r)) (filter (\<lambda>r. fs_data_file_id r \<in> F) xs))"
  using assms(2)
  by (induction xs arbitrary: acc) (auto simp: to_item_def stats_id_from_key file_column_stats_row_roundtrip
      stats.holds_ok [OF assms(1)] validate_file_column_stats_data_file_row_def)

lemma load_dense_reads:
  assumes "fake_wf kv" "stats.holds c (fake_get kv) S" "sorted ids" "\<forall>f \<in> set ids. f \<noteq> - 1"
  shows "\<exists>xs. load_dense_file_column_stats_uncached kv c ids = Inr xs \<and> set xs = {r \<in> S. fs_data_file_id r \<in> set ids} \<and> distinct xs"
proof (cases "ids = []")
  case True
  then show ?thesis by (simp add: load_dense_file_column_stats_uncached_def)
next
  case False
  have between: "hd ids \<le> f \<and> f \<le> last ids" if "f \<in> set ids" for f using sorted_between [OF assms(3) that] .
  from stats_range [OF assms(1,2), of "hd ids" "last ids"] between [of "hd ids"] False assms(4) obtain ys where
    ys: "fake_scan_range kv (file_column_stats_data_file_prefix c (hd ids))
        (prefix_end (file_column_stats_data_file_prefix c (last ids))) Forward None =
      Inr (map (\<lambda>x. to_item (file_column_stats_key c (fs_data_file_id x) (fs_column_id x), file_column_stats_row_encode x)) ys)"
    "set ys = {r \<in> S. hd ids \<le> fs_data_file_id r \<and> fs_data_file_id r \<le> last ids}" "distinct ys" by auto
  define ps where "ps = map (\<lambda>r. (fs_data_file_id r, r)) (filter (\<lambda>r. fs_data_file_id r \<in> set ids) ys)"
  have "load_dense_file_column_stats_uncached kv c ids = Inr (take_file_rows ids ps)"
    using False dense_fold [OF assms(2), of ys "set ids" "[]"] ys(1,2)
    by (simp add: load_dense_file_column_stats_uncached_def ps_def)
  moreover have "set (take_file_rows ids ps) = {r \<in> S. fs_data_file_id r \<in> set ids}"
    using ys(2) between by (force simp: take_file_rows_spec(1) ps_def)
  moreover have "distinct (take_file_rows ids ps)" by (rule take_file_rows_spec(2)) (simp add: ps_def ys(3) comp_def)
  ultimately show ?thesis by blast
qed

section \<open>Lists\<close>

definition lists_stats :: "file_column_stats_row set \<Rightarrow> file_column_stats_row list \<Rightarrow> bool" where
  "lists_stats R xs \<longleftrightarrow> set xs = R \<and> sorted_wrt (\<lambda>a b. stats_sort_key a < stats_sort_key b) xs"

lemma lists_stats_sort:
  assumes "stats.holds c m S" "set xs \<subseteq> S" "distinct xs"
  shows "lists_stats (set xs) (sort_key stats_sort_key xs)"
proof -
  have "inj_on stats_sort_key (set xs)"
    using stats.holds_unique [OF assms(1)] assms(2) by (auto simp: inj_on_def stats_sort_key_def)
  then have "distinct (map stats_sort_key (sort_key stats_sort_key xs))" using assms(3) by (simp add: distinct_map)
  moreover have "sorted (map stats_sort_key (sort_key stats_sort_key xs))" by simp
  ultimately have "sorted_wrt (<) (map stats_sort_key (sort_key stats_sort_key xs))" by (simp add: strict_sorted_iff)
  then show ?thesis by (simp add: lists_stats_def sorted_wrt_map)
qed

lemma load_ids_reads:
  assumes "fake_wf kv" "stats.holds c (fake_get kv) S" "distinct ids" "\<forall>f \<in> set ids. f \<noteq> - 1"
  shows "\<exists>xs. load_missing_file_column_stats_for_data_file_ids kv c ids = Inr xs \<and>
    set xs = {r \<in> S. fs_data_file_id r \<in> set ids} \<and> distinct xs"
  using load_dense_reads [OF assms(1,2) sorted_sort, of ids] load_sparse_reads [OF assms(1,2), of "sort ids"] assms(3,4)
  by (auto simp: load_missing_file_column_stats_for_data_file_ids_def Let_def)

lemma distinct_groups: "distinct ks \<Longrightarrow> distinct fs \<Longrightarrow> distinct (concat (map (\<lambda>f. filter (\<lambda>k. fst k = f) ks) fs))"
  by (induction fs) auto

lemma load_columns_reads:
  assumes "fake_wf kv" "stats.holds c (fake_get kv) S" "distinct ks" "\<forall>k \<in> set ks. fst k \<noteq> - 1"
  shows "\<exists>xs. load_missing_file_column_stats_for_data_file_columns kv c ks = Inr xs \<and>
    set xs = {r \<in> S. stats_ids r \<in> set ks} \<and> distinct xs"
proof (cases "length ks < 64 * 8")
  case True
  then show ?thesis using load_exact_reads [OF assms(2,3)] by (cases "ks = []") (simp_all add: load_missing_file_column_stats_for_data_file_columns_def)
next
  case many: False
  define files where "files = sorted_list_of_set (fst ` set ks)"
  define cols where "cols = (\<lambda>f. set (map snd (filter (\<lambda>k. fst k = f) ks)))"
  define full where "full = filter (\<lambda>f. card (cols f) \<ge> 8) files"
  define exact where "exact = concat (map (\<lambda>f. filter (\<lambda>k. fst k = f) ks) (filter (\<lambda>f. \<not> card (cols f) \<ge> 8) files))"
  have files: "set files = fst ` set ks" "sorted files" "distinct files" by (simp_all add: files_def)
  have cols: "i \<in> cols f \<longleftrightarrow> (f, i) \<in> set ks" for f i by (force simp: cols_def)
  have fin: "finite (cols f)" for f by (simp add: cols_def)
  have full: "set full = {f \<in> fst ` set ks. card (cols f) \<ge> 8}" "sorted full" "distinct full"
    using files by (auto simp: full_def sorted_wrt_filter)
  have ex: "k \<in> set exact \<longleftrightarrow> k \<in> set ks \<and> \<not> card (cols (fst k)) \<ge> 8" for k using files(1) by (auto simp: exact_def)
  have dex: "distinct exact"
    unfolding exact_def by (rule distinct_groups [OF assms(3) distinct_filter [OF files(3)]])
  have unf: "load_missing_file_column_stats_for_data_file_columns kv c ks =
    (if length full \<ge> 64 \<and> dense_file_column_stats_scan_is_worthwhile full
     then rbind (load_dense_file_column_stats_uncached kv c full) (\<lambda>dense.
       rbind (load_exact_missing_file_column_stats kv c exact) (\<lambda>rows.
         Inr (filter (\<lambda>row. fs_data_file_id row \<in> set full \<and> fs_column_id row \<in> cols (fs_data_file_id row)) dense @ rows)))
     else load_exact_missing_file_column_stats kv c
       (exact @ concat (map (\<lambda>f. map (Pair f) (sorted_list_of_set (cols f))) full)))"
    using many by (auto simp: load_missing_file_column_stats_for_data_file_columns_def Let_def files_def cols_def full_def exact_def)
  show ?thesis
  proof (cases "length full \<ge> 64 \<and> dense_file_column_stats_scan_is_worthwhile full")
    case True
    have "\<forall>f \<in> set full. f \<noteq> - 1" using assms(4) full(1) by auto
    from load_dense_reads [OF assms(1,2) full(2) this] obtain ds where ds:
      "load_dense_file_column_stats_uncached kv c full = Inr ds" "set ds = {r \<in> S. fs_data_file_id r \<in> set full}" "distinct ds" by blast
    from load_exact_reads [OF assms(2) dex] obtain xs where xs: "load_exact_missing_file_column_stats kv c exact = Inr xs"
      "set xs = {r \<in> S. stats_ids r \<in> set exact}" "distinct xs" by blast
    let ?ds = "filter (\<lambda>row. fs_data_file_id row \<in> set full \<and> fs_column_id row \<in> cols (fs_data_file_id row)) ds"
    have "set (?ds @ xs) = {r \<in> S. stats_ids r \<in> set ks}" using ds(2) xs(2) by (force simp: ex cols full(1))
    moreover have "distinct (?ds @ xs)" using ds(3) xs(3) by (auto simp: ds(2) xs(2) ex full(1))
    ultimately show ?thesis using True ds(1) xs(1) unf by auto
  next
    case False
    let ?ks = "exact @ concat (map (\<lambda>f. map (Pair f) (sorted_list_of_set (cols f))) full)"
    have "set ?ks = set ks" using fin by (force simp: ex cols full(1))
    moreover have "distinct ?ks"
    proof -
      have "distinct (concat (map (\<lambda>f. map (Pair f) (sorted_list_of_set (cols f))) full))"
        using full(3) by (induction full) (auto simp: distinct_map inj_on_def)
      then show ?thesis using dex fin by (auto simp: ex cols full(1))
    qed
    ultimately show ?thesis using load_exact_reads [OF assms(2), of ?ks] unfolding unf if_not_P [OF False] by simp
  qed
qed

section \<open>Registration\<close>

definition stats_override :: "file_column_stats_row \<Rightarrow> file_column_stats_row set \<Rightarrow> file_column_stats_row set" where
  "stats_override r S = insert r {s \<in> S. stats_ids s \<noteq> stats_ids r}"

lemma fold_stats_override:
  "distinct (map stats_ids rows) \<Longrightarrow> fold stats_override rows S = set rows \<union> {s \<in> S. stats_ids s \<notin> stats_ids ` set rows}"
proof (induction rows arbitrary: S)
  case (Cons r rows)
  then have "fold stats_override (r # rows) S = set rows \<union> {s \<in> stats_override r S. stats_ids s \<notin> stats_ids ` set rows}" by simp
  also have "\<dots> = set (r # rows) \<union> {s \<in> S. stats_ids s \<notin> stats_ids ` set (r # rows)}"
    using Cons.prems by (auto simp: stats_override_def)
  finally show ?case .
qed simp

lemma stage_stats_holds:
  assumes "stats.holds c (apply_batch b m) S" "stats_row_ok r"
  shows "stats.holds c (apply_batch (stage_file_column_stats b c r) m) (stats_override r S)"
    "checks (stage_file_column_stats b c r) = checks b"
proof -
  have "\<not> prefix (family_prefix c FileColumnStats) (file_column_stats_lookup_key c (fs_table_id r) (fs_column_id r) (fs_data_file_id r))"
    by (simp add: key_defs)
  moreover have "stats_override r S = insert r {s \<in> S. file_column_stats_key c (fs_data_file_id s) (fs_column_id s) \<noteq>
      file_column_stats_key c (fs_data_file_id r) (fs_column_id r)}" by (auto simp: stats_override_def)
  ultimately show "stats.holds c (apply_batch (stage_file_column_stats b c r) m) (stats_override r S)"
    using stats.holds_put [OF assms] by (simp add: stage_file_column_stats_def Let_def)
qed (simp add: stage_file_column_stats_def Let_def)

lemma stage_rows_holds:
  assumes "rfold (\<lambda>row b. rbind (validate_file_column_stats_row table_ids row) (\<lambda>_. Inr (stage_file_column_stats b c row))) rows b = Inr b'"
    "stats.holds c (apply_batch b m) S" "\<forall>r \<in> set rows. stats_row_ok r"
  shows "stats.holds c (apply_batch b' m) (fold stats_override rows S) \<and> checks b' = checks b"
  using assms
proof (induction rows arbitrary: b S)
  case (Cons r rows)
  then have "rfold (\<lambda>row b. rbind (validate_file_column_stats_row table_ids row) (\<lambda>_. Inr (stage_file_column_stats b c row))) rows
      (stage_file_column_stats b c r) = Inr b'"
    by (auto simp: rbind_Inr_iff)
  from Cons.IH [OF this stage_stats_holds(1) [OF Cons.prems(2)]] Cons.prems(3) stage_stats_holds(2) [OF Cons.prems(2)]
  show ?case by simp
qed simp

lemma stage_versions_holds:
  "stats.holds c (apply_batch (stage_table_file_stats_versions_for_rows b c rows version) m) S \<longleftrightarrow> stats.holds c (apply_batch b m) S"
  "checks (stage_table_file_stats_versions_for_rows b c rows version) = checks b"
proof -
  have out: "\<not> prefix (family_prefix c FileColumnStats) (table_file_stats_version_key c t)"
    "\<not> prefix (family_prefix c FileColumnStats) (catalog_file_stats_version_key c)" for t by (simp_all add: key_defs)
  have "stats.holds c (apply_batch (fold (\<lambda>t b. stage_table_file_stats_version b c t version) ts b) m) S \<longleftrightarrow> stats.holds c (apply_batch b m) S"
    "checks (fold (\<lambda>t b. stage_table_file_stats_version b c t version) ts b) = checks b" for ts b
    by (induction ts arbitrary: b) (simp_all add: stage_table_file_stats_version_def out)
  then show "stats.holds c (apply_batch (stage_table_file_stats_versions_for_rows b c rows version) m) S \<longleftrightarrow> stats.holds c (apply_batch b m) S"
    "checks (stage_table_file_stats_versions_for_rows b c rows version) = checks b"
    by (simp_all add: stage_table_file_stats_versions_for_rows_def stage_catalog_file_stats_version_def out)
qed

lemma register_holds:
  assumes "fake_wf kv" "stats.holds c (fake_get kv) S" "\<forall>r \<in> set rows. stats_row_ok r" "distinct (map stats_ids rows)"
    "register_file_column_stats_batch kv c rows = (Inr out, kv')"
  shows "out = rows" "fake_wf kv'" "stats.holds c (fake_get kv') (set rows \<union> {s \<in> S. stats_ids s \<notin> stats_ids ` set rows})"
proof -
  have "out = rows \<and> fake_wf kv' \<and> stats.holds c (fake_get kv') (fold stats_override rows S)"
  proof (cases "rows = []")
    case True
    with assms(1,2,5) show ?thesis by (simp add: register_file_column_stats_batch_def)
  next
    case False
    let ?kv = "snd (fake_generated_order_id kv)" and ?v = "fst (fake_generated_order_id kv)"
    from assms(5) False obtain table_ids b where
      b: "rfold (\<lambda>row b. rbind (validate_file_column_stats_row table_ids row) (\<lambda>_. Inr (stage_file_column_stats b c row))) rows batch_new = Inr b"
      "commit_then ?kv (stage_table_file_stats_versions_for_rows b c rows ?v) rows = (Inr out, kv')"
      by (auto simp: register_file_column_stats_batch_def case_prod_beta attempt_Inr_iff)
    have st: "stats.holds c (apply_batch b (fake_get ?kv)) (fold stats_override rows S)" "checks b = []"
      using stage_rows_holds [OF b(1), of "fake_get ?kv" S] assms(2,3) by simp_all
    from commit_then_unchecked [of "stage_table_file_stats_versions_for_rows b c rows ?v" ?kv rows] b(2) st assms(1)
    show ?thesis by (auto simp: stage_versions_holds)
  qed
  then show "out = rows" "fake_wf kv'" "stats.holds c (fake_get kv') (set rows \<union> {s \<in> S. stats_ids s \<notin> stats_ids ` set rows})"
    using fold_stats_override [OF assms(4), of S] by simp_all
qed

section \<open>Properties\<close>



end
