(* ===== verification/Cat_Maintenance_Spec.thy ===== *)
theory Cat_Maintenance_Spec
  imports Cat_Maintenance Cat_File_History Cat_Table_Commits Cat_File_Stats_Spec
begin

text \<open>
  What a cleanup removes. The batch of a cleanup only deletes keys, so its effect is the restriction of the stored map
  to the other keys. The lemmas give the set of deleted keys exactly for data files, statistics and tables, and with
  it the store after the cleanup; the properties state that no retained snapshot is affected and that everything
  requested and unreachable is gone.
\<close>

section \<open>Batches that only delete\<close>

definition drops :: "kv_batch \<Rightarrow> kv_batch \<Rightarrow> bytes set \<Rightarrow> bool" where
  "drops b b' K \<longleftrightarrow> (\<exists>ks. b' = b\<lparr>deletes := deletes b @ ks\<rparr> \<and> set ks = K)"

lemma drops_refl [simp]: "drops b b {}"
  by (simp add: drops_def)

lemma drops_trans: "drops b b' K \<Longrightarrow> drops b' b'' K' \<Longrightarrow> drops b b'' (K \<union> K')"
  by (force simp: drops_def)

lemma drops_eq: "drops b b' K \<Longrightarrow> K = K' \<Longrightarrow> drops b b' K'"
  by simp

lemma drops_delete: "drops b b' K \<Longrightarrow> drops b (batch_delete b' k) (insert k K)"
  using drops_trans [of b b' K "batch_delete b' k" "{k}"] by (auto simp: drops_def batch_delete_def)

lemma drops_two: "drops b (batch_delete (batch_delete b k) l) {k, l}"
  using drops_delete [OF drops_delete [OF drops_refl], of b k l] by (simp add: insert_commute)

lemma rfold_map: "rfold g (map h xs) s = rfold (\<lambda>x. g (h x)) xs s"
  by (induction xs arbitrary: s) (auto intro: arg_cong2 [where f = rbind])

lemma drops_more: "drops b b' K \<Longrightarrow> drops b (b'\<lparr>deletes := deletes b' @ ks\<rparr>) (K \<union> set ks)"
  by (rule drops_trans) (auto simp: drops_def)

lemma drops_fold:
  assumes "\<And>x b. x \<in> set xs \<Longrightarrow> drops b (g x b) (K x)"
  shows "drops b (fold g xs b) (\<Union>x \<in> set xs. K x)"
  using assms
proof (induction xs arbitrary: b)
  case (Cons x xs)
  from drops_trans [OF Cons.prems [of x b] Cons.IH [of "g x b"]] Cons.prems show ?case by simp
qed simp

lemma drops_rfold:
  assumes "rfold g xs b = Inr b'" "\<And>x b b'. x \<in> set xs \<Longrightarrow> g x b = Inr b' \<Longrightarrow> drops b b' (K x)"
  shows "drops b b' (\<Union>x \<in> set xs. K x)"
  using assms
proof (induction xs arbitrary: b)
  case (Cons x xs)
  then obtain b1 where b1: "g x b = Inr b1" "rfold g xs b1 = Inr b'" by (auto simp: rbind_Inr_iff)
  from drops_trans [OF Cons.prems(2) [OF _ b1(1)] Cons.IH [OF b1(2)]] Cons.prems(2) show ?case by simp
qed simp

lemma commit_drops:
  assumes "drops batch_new b K"
  obtains kv' where "commit_then kv b x = (Inr x, kv')" "fake_get kv' = fake_get kv |` (- K)"
    "fake_wf kv \<Longrightarrow> fake_wf kv'" "next_order kv' = next_order kv"
proof -
  have b: "checks b = []" "writes b = []" "set (deletes b) = K" using assms by (auto simp: drops_def)
  from commit_then_unchecked [OF b(1), of kv x] obtain kv' where
    "commit_then kv b x = (Inr x, kv')" "fake_get kv' = apply_batch b (fake_get kv)" "fake_wf kv \<longrightarrow> fake_wf kv'"
    "next_order kv' = next_order kv" by blast
  with b that show thesis by (simp add: apply_batch_def)
qed

text \<open>An index after its keys in a set are gone.\<close>

context stored_index
begin

lemma holds_dropped:
  assumes "holds m S" "\<And>x. x \<in> S \<Longrightarrow> key x \<in> K \<longleftrightarrow> x \<in> R"
  shows "holds (m |` (- K)) (S - R)"
  unfolding holds_def
proof (intro conjI allI impI)
  show "\<forall>x \<in> S - R. ok x" using holds_ok [OF assms(1)] by blast
  show "inj_on key (S - R)" using assms(1) by (auto simp: holds_def inj_on_def)
  fix k v
  assume k: "prefix space k"
  show "(m |` (- K)) k = Some v \<longleftrightarrow> (\<exists>x \<in> S - R. k = key x \<and> v = enc x)"
  proof
    assume "(m |` (- K)) k = Some v"
    then have "k \<notin> K" "m k = Some v" by (auto simp: restrict_map_def split: if_splits)
    with holds_get_iff [OF assms(1) k] obtain x where "x \<in> S" "k = key x" "v = enc x" by blast
    with \<open>k \<notin> K\<close> assms(2) show "\<exists>x \<in> S - R. k = key x \<and> v = enc x" by blast
  next
    assume "\<exists>x \<in> S - R. k = key x \<and> v = enc x"
    then obtain x where "x \<in> S" "x \<notin> R" "k = key x" "v = enc x" by blast
    with assms(2) [of x] holds_get [OF assms(1)] show "(m |` (- K)) k = Some v" by (simp add: restrict_map_def)
  qed
qed

end

section \<open>The keys each part deletes\<close>

definition stats_entry :: "bytes \<times> bytes \<Rightarrow> file_column_stats_row" where
  "stats_entry e = projr (file_column_stats_row_decode (snd e))"

definition stats_keys :: "fake_kv \<Rightarrow> catalog_id \<Rightarrow> data_file_id \<Rightarrow> bytes set" where
  "stats_keys kv c f = (\<Union>e \<in> {e \<in> set (items kv). prefix (file_column_stats_prefix c f) (fst e)}. {fst e,
     file_column_stats_lookup_key c (fs_table_id (stats_entry e)) (fs_column_id (stats_entry e)) (fs_data_file_id (stats_entry e))})"

definition partition_keys :: "fake_kv \<Rightarrow> catalog_id \<Rightarrow> data_file_id \<Rightarrow> bytes set" where
  "partition_keys kv c f = (\<Union>e \<in> {e \<in> set (items kv). prefix (file_partition_value_prefix c f) (fst e)}.
     {fst e, partition_lookup_key c (entry_row e)})"

definition file_keys :: "catalog_id \<Rightarrow> data_file_row \<Rightarrow> bytes set" where
  "file_keys c r = {data_file_key c (df_data_file_id r), begin_key c r, current_data_file_key c (df_table_id r) (df_data_file_id r)} \<union>
     (case end_order (df_validity r) of None \<Rightarrow> {} | Some e \<Rightarrow> {data_file_end_key c (df_table_id r) e (df_data_file_id r)})"

lemma stats_prefix_scan:
  assumes "fake_wf kv"
  shows "fake_scan_prefix kv (file_column_stats_prefix c f) Forward None =
    Inr (map to_item (filter (\<lambda>e. prefix (file_column_stats_prefix c f) (fst e)) (items kv)))"
  using fake.prefix_scan [OF assms, of slash "family_prefix c FileColumnStats @ u64_to_be_bytes f" Forward None]
  by (simp add: fake_scan_prefix_def file_column_stats_prefix_def limit_take_def directed_def)

lemma stage_remove_stats_drops:
  assumes "fake_wf kv" "stage_remove_file_column_stats kv b c f = Inr b'"
  shows "drops b b' (stats_keys kv c f)"
proof -
  let ?es = "filter (\<lambda>e. prefix (file_column_stats_prefix c f) (fst e)) (items kv)"
  have "rfold (\<lambda>item b. rbind (file_column_stats_row_decode (ri_value item)) (\<lambda>row.
         Inr (batch_delete (batch_delete b (ri_key item))
           (file_column_stats_lookup_key c (fs_table_id row) (fs_column_id row) (fs_data_file_id row))))) (map to_item ?es) b = Inr b'"
    using assms by (simp add: stage_remove_file_column_stats_def stats_prefix_scan)
  then have "drops b b' (\<Union>i \<in> set (map to_item ?es). {ri_key i, file_column_stats_lookup_key c
      (fs_table_id (projr (file_column_stats_row_decode (ri_value i)))) (fs_column_id (projr (file_column_stats_row_decode (ri_value i))))
      (fs_data_file_id (projr (file_column_stats_row_decode (ri_value i))))})"
    by (rule drops_rfold) (auto simp: rbind_Inr_iff intro: drops_two)
  then show ?thesis by (simp add: stats_keys_def stats_entry_def to_item_def)
qed

lemma stage_remove_stats_total:
  assumes "fake_wf kv" "stats.holds c (fake_get kv) X"
  shows "\<exists>b'. stage_remove_file_column_stats kv b c f = Inr b'"
proof -
  let ?p = "file_column_stats_prefix c f"
  have p: "?p = (family_prefix c FileColumnStats @ u64_to_be_bytes f) @ [slash]" by (simp add: file_column_stats_prefix_def)
  have ok: "stats_row_ok x" if "x \<in> set (stats.rows_in c (prefix ?p) X)" for x
    using stats.rows_in_ok [OF assms(2) stats.holds_finite [OF assms(2)] that] .
  have "\<exists>b'. rfold (\<lambda>x b. rbind (file_column_stats_row_decode (file_column_stats_row_encode x)) (\<lambda>row.
         Inr (batch_delete (batch_delete b (k x)) (l row)))) xs b = Inr b'" if "\<forall>x \<in> set xs. stats_row_ok x" for xs b k l
    using that by (induction xs arbitrary: b) (simp_all add: file_column_stats_row_roundtrip)
  with ok show ?thesis
    using stats.scan_prefix_rows [OF assms p, where d = Forward and lim = None] 
    by (simp add: stage_remove_file_column_stats_def rfold_map comp_def p to_item_def)
qed


lemma stage_remove_data_file_drops:
  assumes "staging_ready kv c" "stage_remove_data_file_metadata kv b c r = Inr b'"
  shows "drops b b' (file_keys c r \<union> stats_keys kv c (df_data_file_id r) \<union> partition_keys kv c (df_data_file_id r))"
proof -
  let ?f = "df_data_file_id r"
  define b4 where "b4 = batch_delete (case end_order (df_validity r) of
      Some ord \<Rightarrow> batch_delete (batch_delete (batch_delete b (data_file_key c ?f)) (begin_key c r)) (data_file_end_key c (df_table_id r) ord ?f)
    | None \<Rightarrow> batch_delete (batch_delete b (data_file_key c ?f)) (begin_key c r)) (current_data_file_key c (df_table_id r) ?f)"
  from assms(2) obtain b5 where b5: "stage_remove_file_column_stats kv b4 c ?f = Inr b5"
    "delete_partition_values_for_data_file kv b5 c ?f = Inr b'"
    by (auto simp: stage_remove_data_file_metadata_def Let_def b4_def rbind_Inr_iff)
  have wf: "fake_wf kv" "partition_values_wf (fake_get kv) c" using assms(1) by (simp_all add: staging_ready_def)
  have two: "drops b (batch_delete (batch_delete b (data_file_key c ?f)) (begin_key c r)) {data_file_key c ?f, begin_key c r}"
    by (rule drops_two)
  have "drops b b4 (file_keys c r)"
  proof (cases "end_order (df_validity r)")
    case None
    then show ?thesis by (auto simp: b4_def file_keys_def intro!: drops_eq [OF drops_delete [OF two]])
  next
    case (Some e)
    then show ?thesis by (auto simp: b4_def file_keys_def intro!: drops_eq [OF drops_delete [OF drops_delete [OF two]]])
  qed
  moreover have "drops b4 b5 (stats_keys kv c ?f)" by (rule stage_remove_stats_drops [OF wf(1) b5(1)])
  moreover have "drops b5 b' (partition_keys kv c ?f)"
  proof -
    let ?ks = "concat (map (\<lambda>e. [fst e, partition_lookup_key c (entry_row e)])
      (filter (\<lambda>e. prefix (file_partition_value_prefix c ?f) (fst e)) (items kv)))"
    have "b' = b5\<lparr>deletes := deletes b5 @ ?ks\<rparr>" using b5(2) delete_partition_values_effect [OF wf, of b5 ?f] by simp
    moreover have "set ?ks = partition_keys kv c ?f" by (auto simp: partition_keys_def)
    ultimately show ?thesis by (auto simp: drops_def)
  qed
  ultimately show ?thesis by (rule drops_trans [OF drops_trans])
qed

lemma stage_remove_data_file_total:
  assumes "staging_ready kv c" "stats.holds c (fake_get kv) X"
  shows "\<exists>b'. stage_remove_data_file_metadata kv b c r = Inr b'"
proof -
  have wf: "fake_wf kv" "partition_values_wf (fake_get kv) c" using assms(1) by (simp_all add: staging_ready_def)
  show ?thesis
    using stage_remove_stats_total [OF wf(1) assms(2)] delete_partition_values_effect [OF wf]
    by (auto simp: stage_remove_data_file_metadata_def Let_def rbind_Inr_iff)
qed

text \<open>The versions of a table that no snapshot of a list sees.\<close>

definition unseen_table :: "snapshot_row list \<Rightarrow> table_row set \<Rightarrow> table_id \<Rightarrow> bool" where
  "unseen_table L T t \<longleftrightarrow> (\<exists>r \<in> T. tr_table_id r = t) \<and>
     (\<forall>r \<in> T. tr_table_id r = t \<longrightarrow> (\<forall>s \<in> set L. \<not> is_visible_at (tr_validity r) (sn_order s)))"

definition table_keys :: "catalog_id \<Rightarrow> table_row set \<Rightarrow> table_id \<Rightarrow> bytes set" where
  "table_keys c T t = insert (current_table_row_key c t) (\<Union>r \<in> {r \<in> T. tr_table_id r = t}.
     {table_visibility_key c (begin_order (tr_validity r)) t, table_object_key c t (begin_order (tr_validity r))})"

lemma drops_keys: "drops b (fold (\<lambda>x b. batch_delete b (g x)) xs b) (g ` set xs)"
  using drops_fold [of xs "\<lambda>x b. batch_delete b (g x)" "\<lambda>x. {g x}" b] drops_delete [OF drops_refl]
  by (simp add: UNION_singleton_eq_range)

lemma stage_remove_table_drops:
  assumes "table_catalog kv c H L T vs"
  shows "\<exists>b'. stage_remove_unreachable_table_metadata kv b c t L = Inr b' \<and>
    drops b b' (if unseen_table L T t then table_keys c T t else {})"
proof -
  note D = table_catalogD [OF assms]
  have h: "table_versions.holds c (fake_get kv) T" using D(4) by (simp add: tables_are_def)
  define rows where "rows = filter (\<lambda>r. tr_table_id r = t) (table_versions.all_versions c T)"
  have rows: "set rows = {r \<in> T. tr_table_id r = t}" using table_versions.all_versions_spec(1) [OF h] by (auto simp: rows_def)
  have none: "rows = [] \<longleftrightarrow> (\<forall>r \<in> T. tr_table_id r \<noteq> t)" unfolding set_empty [symmetric] rows by auto
  have "latest_snapshot kv c = Inr (if H = [] then None else Some (last H))"
    by (rule latest_snapshot_reads [OF D(2,3)])
  then have all: "list_table_rows kv c = Inr (table_versions.all_versions c T)"
    using table_versions.scan_all [OF D(2) h] by (simp add: list_table_rows_def list_table_rows_uncached_def)
  let ?P = "table_object_prefix c t"
  have p: "?P = (table_object_scan_prefix c @ u64_to_be_bytes t) @ [slash]" by (simp add: table_object_prefix_def)
  define page where "page = map (\<lambda>x. to_item (table_object_key c (tr_table_id x) (begin_order (tr_validity x)), table_row_encode x))
      (table_versions.rows_in c (prefix ?P) T)"
  have scan: "fake_scan_prefix kv ?P Forward None = Inr page"
    using table_versions.scan_prefix_rows [OF D(2) h p, where d = Forward and lim = None] by (simp add: page_def p)
  have "set (table_versions.rows_in c (prefix ?P) T) = {r \<in> T. tr_table_id r = t}"
    using table_versions.rows_in_spec(1) [OF h tables_are_finite [OF D(4)], of "prefix ?P"]
    by (auto simp: table_object_key_def table_object_prefix_def)
  then have keys: "ri_key ` set page = (\<lambda>r. table_object_key c t (begin_order (tr_validity r))) ` {r \<in> T. tr_table_id r = t}"
    by (auto simp: page_def to_item_def image_image)
  show ?thesis
  proof (cases "unseen_table L T t")
    case False
    then have seen: "rows = [] \<or> (\<exists>r \<in> set rows. \<exists>s \<in> set L. is_visible_at (tr_validity r) (sn_order s))"
      using rows none by (auto simp: unseen_table_def)
    have "stage_remove_unreachable_table_metadata kv b c t L = Inr b"
      unfolding stage_remove_unreachable_table_metadata_def all rbind.simps Let_def rows_def [symmetric] if_P [OF seen] ..
    with False show ?thesis by simp
  next
    case True
    then have live: "\<not> (rows = [] \<or> (\<exists>r \<in> set rows. \<exists>s \<in> set L. is_visible_at (tr_validity r) (sn_order s)))"
      using rows none by (auto simp: unseen_table_def)
    let ?b1 = "fold (\<lambda>r b. batch_delete b (table_visibility_key c (begin_order (tr_validity r)) (tr_table_id r))) rows b"
    let ?b = "fold (\<lambda>item b. batch_delete b (ri_key item)) page (batch_delete ?b1 (current_table_row_key c t))"
    have "stage_remove_unreachable_table_metadata kv b c t L = Inr ?b"
      unfolding stage_remove_unreachable_table_metadata_def all rbind.simps Let_def rows_def [symmetric] if_not_P [OF live] scan ..
    moreover have "drops b ?b (insert (current_table_row_key c t)
        ((\<lambda>r. table_visibility_key c (begin_order (tr_validity r)) (tr_table_id r)) ` set rows) \<union> ri_key ` set page)"
      by (rule drops_trans [OF drops_delete [OF drops_keys] drops_keys])
    moreover have "insert (current_table_row_key c t)
        ((\<lambda>r. table_visibility_key c (begin_order (tr_validity r)) (tr_table_id r)) ` set rows) \<union> ri_key ` set page = table_keys c T t"
      unfolding keys rows table_keys_def by auto
    ultimately show ?thesis using True by auto
  qed
qed

section \<open>Candidates\<close>

lemma rmap_member: "rmap f xs = Inr ys \<Longrightarrow> y \<in> set ys \<Longrightarrow> \<exists>x \<in> set xs. f x = Inr y"
  by (induction xs arbitrary: ys) (auto simp: rbind_Inr_iff)

lemma index_join_reads:
  assumes "kv_scan_index_rows (\<lambda>k. Inr (fake_get kv k)) scan join = Inr joined" "(i, Some p) \<in> set joined"
  shows "fake_get kv (ri_key p) = Some (ri_value p)" "prefix (primary_prefix join) (ri_key p)"
proof -
  from assms(1) obtain indices keys where j: "rmap (\<lambda>i. index_join_primary_key join (ri_key i)) indices = Inr keys"
    "rbind (kv_batch_get (\<lambda>k. Inr (fake_get kv k)) keys) (\<lambda>vals.
       if length vals \<noteq> length keys then Inl (Backend ''index join returned wrong primary row count'')
       else Inr (map (\<lambda>(index, key, val). (index, map_option (\<lambda>v. \<lparr>ri_key = key, ri_value = v\<rparr>) val))
                (zip indices (zip keys vals)))) = Inr joined"
    unfolding kv_scan_index_rows_def rbind_Inr_iff by blast
  have "kv_batch_get (\<lambda>k. Inr (fake_get kv k)) keys = Inr (map (fake_get kv) keys)"
    unfolding kv_batch_get_def by (rule rmap_Inr) simp
  with assms(2) j(2) have keys: "(i, Some p) \<in> set (map (\<lambda>(index, key, val). (index, map_option (\<lambda>v. \<lparr>ri_key = key, ri_value = v\<rparr>) val))
      (zip indices (zip keys (map (fake_get kv) keys))))" by simp
  have zip: "zip keys (map (fake_get kv) keys) = map (\<lambda>k. (k, fake_get kv k)) keys" by (induction keys) simp_all
  from keys obtain key where key: "key \<in> set keys" "fake_get kv key = Some (ri_value p)" "ri_key p = key"
    unfolding zip by (auto dest!: set_zip_rightD simp: map_option_case split: option.splits)
  from rmap_member [OF j(1) key(1)] have "prefix (primary_prefix join) key"
    by (auto simp: index_join_primary_key_def split: option.splits if_splits)
  with key show "fake_get kv (ri_key p) = Some (ri_value p)" "prefix (primary_prefix join) (ri_key p)" by simp_all
qed

lemma stored_file:
  assumes "files_are m c F" "prefix (family_prefix c DataFile) k" "m k = Some v"
  obtains r where "r \<in> F" "data_file_row_decode v = Inr r" "k = data_file_key c (df_data_file_id r)"
proof -
  have "by_id.holds c m F" using assms(1) by (simp add: files_are_def)
  with assms(2,3) obtain r where "r \<in> F" "k = data_file_key c (df_data_file_id r)" "v = data_file_row_encode r"
    by (auto simp: by_id.holds_get_iff)
  with that files_are_ok [OF assms(1)] show thesis by (simp add: data_file_row_roundtrip)
qed

lemma scheduled_files_stored:
  assumes "files_are (fake_get kv) c F" "list_scheduled_data_file_cleanup_rows kv c = Inr xs" "x \<in> set xs"
  shows "sd_data_file x \<in> F"
proof -
  let ?j = "\<lparr>index_prefix = scheduled_data_file_cleanup_prefix c, primary_prefix = family_prefix c DataFile\<rparr>"
  from assms(2) obtain joined where joined: "kv_scan_index_rows (\<lambda>k. Inr (fake_get kv k)) (fake_scan_prefix kv) ?j = Inr joined"
    "rfold (\<lambda>(index, primary) rows.
          case primary of
            None \<Rightarrow> Inr rows
          | Some p \<Rightarrow> rbind (decode_scheduled_data_cleanup_value (ri_value index)) (\<lambda>(kind, start).
              rbind (data_file_row_decode (ri_value p)) (\<lambda>d.
                Inr (rows @ [\<lparr>sd_data_file = d, sd_schedule_start_micros = start, sd_cleanup_kind = kind\<rparr>])))) joined [] = Inr xs"
    by (auto simp: list_scheduled_data_file_cleanup_rows_def rbind_Inr_iff)
  have "d \<in> F" if "(i, Some p) \<in> set joined" "data_file_row_decode (ri_value p) = Inr d" for i p d
    using index_join_reads [OF joined(1) that(1)] that(2) by (auto elim: stored_file [OF assms(1)])
  then have "\<forall>x \<in> set xs. sd_data_file x \<in> F"
    by (intro rfold_invariant [OF joined(2), where P = "\<lambda>rows. \<forall>x \<in> set rows. sd_data_file x \<in> F"])
       (auto simp: rbind_Inr_iff split: option.splits)
  with assms(3) show ?thesis by blast
qed

lemma scheduled_candidates:
  assumes "\<forall>x \<in> set xs. sd_data_file x \<in> F" "scheduled_data_files_for_cleanup kv c L xs = Inr st"
  shows "set (snd st) \<subseteq> {r \<in> F. \<not> is_current r} \<and> fst st = df_data_file_id ` set (snd st)"
proof -
  define E where "E = {r \<in> F. \<not> is_current r}"
  have "sd_data_file x \<in> E" if "x \<in> set xs" "scheduled_data_file_is_safe_for_physical_cleanup kv c x L = Inr True" for x
    using that assms(1) by (auto simp: E_def scheduled_data_file_is_safe_for_physical_cleanup_def split: if_splits)
  note safe = this
  have "set (snd st) \<subseteq> E \<and> fst st = df_data_file_id ` set (snd st)"
  proof (rule rfold_invariant [OF assms(2) [unfolded scheduled_data_files_for_cleanup_def]])
    fix x s s'
    assume x: "x \<in> set xs" and s: "set (snd s) \<subseteq> E \<and> fst s = df_data_file_id ` set (snd s)"
      and step: "(case s of (seen, rows) \<Rightarrow> rbind (scheduled_data_file_is_safe_for_physical_cleanup kv c x L) (\<lambda>safe.
         if safe then Inr (insert (df_data_file_id (sd_data_file x)) seen, rows @ [sd_data_file x])
         else Inr (seen, rows))) = Inr s'"
    from step consider "scheduled_data_file_is_safe_for_physical_cleanup kv c x L = Inr True"
        "s' = (insert (df_data_file_id (sd_data_file x)) (fst s), snd s @ [sd_data_file x])" | "s' = s"
      by (auto simp: rbind_Inr_iff split: if_splits prod.splits)
    then show "set (snd s') \<subseteq> E \<and> fst s' = df_data_file_id ` set (snd s')"
      using s safe [OF x] by cases simp_all
  qed simp
  then show ?thesis by (simp add: E_def)
qed

text \<open>After the pass over the end-order index every unreachable file it names is a candidate.\<close>

definition candidates_ok :: "snapshot_row list \<Rightarrow> data_file_row set \<Rightarrow> data_file_id set \<times> data_file_row list \<Rightarrow> bool" where
  "candidates_ok L F st \<longleftrightarrow> set (snd st) \<subseteq> {r \<in> F. \<not> is_current r} \<and>
     (\<forall>r \<in> F. df_data_file_id r \<in> fst st \<longrightarrow> row_is_unreachable r L \<longrightarrow> r \<in> set (snd st))"

lemma ended_candidates:
  assumes F: "files_are (fake_get kv) c F"
    and "ended_data_files_for_cleanup kv c L page st = Inr st'" "candidates_ok L F st"
  shows "candidates_ok L F st' \<and> fst st \<subseteq> fst st' \<and>
    (\<forall>i \<in> set page. \<forall>f. decode_end_order_entry c (ri_key i) = Inr (Some (EndDataFile f)) \<longrightarrow> f \<in> fst st')"
  using assms(2,3)
proof (induction page arbitrary: st)
  case Nil
  then show ?case by (simp add: ended_data_files_for_cleanup_def)
next
  case (Cons i page)
  obtain seen rows where st: "st = (seen, rows)" by (cases st)
  from Cons.prems(1) obtain entry st1 where e: "decode_end_order_entry c (ri_key i) = Inr entry"
    "(case entry of
           Some (EndDataFile f) \<Rightarrow>
             if f \<in> seen then Inr (seen, rows)
             else (case fake_get kv (data_file_key c f) of
                 None \<Rightarrow> Inr (insert f seen, rows)
               | Some v \<Rightarrow> rbind (data_file_row_decode v) (\<lambda>row.
                   Inr (insert f seen, if row_is_unreachable row L then rows @ [row] else rows)))
         | _ \<Rightarrow> Inr (seen, rows)) = Inr st1" "ended_data_files_for_cleanup kv c L page st1 = Inr st'"
    by (auto simp: ended_data_files_for_cleanup_def rbind_Inr_iff st)
  have st1: "candidates_ok L F st1 \<and> seen \<subseteq> fst st1 \<and> (\<forall>f. entry = Some (EndDataFile f) \<longrightarrow> f \<in> fst st1)"
  proof (cases "\<exists>f. entry = Some (EndDataFile f) \<and> f \<notin> seen")
    case False
    then have "st1 = (seen, rows)" using e(2) by (auto split: option.splits end_order_entry.splits if_splits)
    with False Cons.prems(2) show ?thesis by (auto simp: st)
  next
    case True
    then obtain f where f: "entry = Some (EndDataFile f)" "f \<notin> seen" by blast
    show ?thesis
    proof (cases "fake_get kv (data_file_key c f)")
      case None
      then have "df_data_file_id r \<noteq> f" if "r \<in> F" for r using data_file_get(1) [OF F that] by auto
      with None f e(2) Cons.prems(2) show ?thesis by (auto simp: st candidates_ok_def)
    next
      case (Some v)
      then obtain r where r: "r \<in> F" "data_file_row_decode v = Inr r" "df_data_file_id r = f"
        by (rule stored_file [OF F, rotated]) (auto simp: key_defs)
      have "x = r" if "x \<in> F" "df_data_file_id x = f" for x
        using files_are_ids [OF F] that r by (auto dest: inj_onD)
      moreover have "st1 = (insert f seen, if row_is_unreachable r L then rows @ [r] else rows)" using Some f r(2) e(2) by simp
      moreover have "row_is_unreachable r L \<Longrightarrow> \<not> is_current r" by (simp add: row_is_unreachable_def)
      ultimately show ?thesis using f(1) r(1) Cons.prems(2) by (simp add: st candidates_ok_def) blast
    qed
  qed
  from Cons.IH [OF e(3)] st1 e(1) show ?case by (auto simp: st)
qed

lemma scan_family:
  assumes "fake_wf kv"
  shows "fake_scan_prefix kv (family_prefix c f) Forward None =
    Inr (map to_item (filter (\<lambda>e. prefix (family_prefix c f) (fst e)) (items kv)))"
proof -
  obtain p where p: "family_prefix c f = p @ [slash]" by (auto simp: family_prefix_def)
  with fake.prefix_scan [OF assms, of slash p Forward None] show ?thesis
    by (simp add: fake_scan_prefix_def)
qed

lemma cleanup_candidates:
  assumes "files_are (fake_get kv) c F" "list_snapshots kv c = Inr L" "list_old_data_files_for_cleanup kv c = Inr rows"
    "fake_wf kv"
  shows "set rows \<subseteq> {r \<in> F. \<not> is_current r}"
    and "\<And>r e. r \<in> F \<Longrightarrow> row_is_unreachable r L \<Longrightarrow> end_order (df_validity r) = Some e \<Longrightarrow>
      fake_get kv (data_file_end_key c (df_table_id r) e (df_data_file_id r)) \<noteq> None \<Longrightarrow> r \<in> set rows"
proof -
  from assms(2,3) obtain xs st page seen where l: "list_scheduled_data_file_cleanup_rows kv c = Inr xs"
    "scheduled_data_files_for_cleanup kv c L xs = Inr st" "fake_scan_prefix kv (family_prefix c EndOrder) Forward None = Inr page"
    "ended_data_files_for_cleanup kv c L page st = Inr (seen, rows)"
    by (auto simp: list_old_data_files_for_cleanup_def rbind_Inr_iff)
  have st: "set (snd st) \<subseteq> {r \<in> F. \<not> is_current r} \<and> fst st = df_data_file_id ` set (snd st)"
    using scheduled_candidates [OF _ l(2)] scheduled_files_stored [OF assms(1) l(1)] by blast
  have "r \<in> set (snd st)" if "r \<in> F" "df_data_file_id r \<in> fst st" for r
    using st that files_are_ids [OF assms(1)] by (auto dest: inj_onD)
  with st have "candidates_ok L F st" by (auto simp: candidates_ok_def)
  from ended_candidates [OF assms(1) l(4) this] have ok: "candidates_ok L F (seen, rows)"
    "\<And>i f. i \<in> set page \<Longrightarrow> decode_end_order_entry c (ri_key i) = Inr (Some (EndDataFile f)) \<Longrightarrow> f \<in> seen" by auto
  show "set rows \<subseteq> {r \<in> F. \<not> is_current r}" using ok(1) by (simp add: candidates_ok_def)
  fix r e
  assume r: "r \<in> F" "row_is_unreachable r L" "end_order (df_validity r) = Some e"
    "fake_get kv (data_file_end_key c (df_table_id r) e (df_data_file_id r)) \<noteq> None"
  let ?k = "data_file_end_key c (df_table_id r) e (df_data_file_id r)"
  from r(4) obtain v where "(?k, v) \<in> set (items kv)" by (auto simp: fake_get_def dest: map_of_SomeD)
  moreover have "prefix (family_prefix c EndOrder) ?k" by (simp add: data_file_end_key_def)
  ultimately have "to_item (?k, v) \<in> set page"
    using l(3) scan_family [OF assms(4)] by auto
  moreover have "decode_end_order_entry c ?k = Inr (Some (EndDataFile (df_data_file_id r)))"
    by (simp add: decode_end_order_entry_def data_file_end_key_def slice_def slice_from_def byte_at_def nth_append be_u64_def)
  ultimately have "df_data_file_id r \<in> seen" using ok(2) by (force simp: to_item_def)
  with ok(1) r(1,2) show "r \<in> set rows" by (simp add: candidates_ok_def)
qed

section \<open>The store after a cleanup\<close>

definition cleanup_keys :: "fake_kv \<Rightarrow> catalog_id \<Rightarrow> bytes set \<Rightarrow> data_file_row set \<Rightarrow> table_row set \<Rightarrow> table_id set \<Rightarrow> bytes set" where
  "cleanup_keys kv c Z R T D = Z \<union>
     (\<Union>r \<in> R. file_keys c r \<union> stats_keys kv c (df_data_file_id r) \<union> partition_keys kv c (df_data_file_id r)) \<union>
     (\<Union>t \<in> D. table_keys c T t)"

lemma other_family: "prefix (family_prefix c f) k \<Longrightarrow> f \<noteq> g \<Longrightarrow> \<not> prefix (family_prefix c g) k"
  using family_prefix_unique by blast

lemma stats_keys_family:
  "k \<in> stats_keys kv c f \<Longrightarrow> prefix (family_prefix c FileColumnStats) k \<or> prefix (family_prefix c FileColumnStatsLookup) k"
  by (auto simp: stats_keys_def file_column_stats_prefix_def file_column_stats_lookup_key_def file_column_stats_lookup_prefix_def
      dest: append_prefixD)

lemma partition_keys_family: "k \<in> partition_keys kv c f \<Longrightarrow> k \<in> partition_space c"
  by (auto simp: partition_keys_def partition_space_def partition_lookup_key_def key_defs dest: append_prefixD)

lemma table_keys_space: "k \<in> table_keys c T t \<Longrightarrow> k \<in> table_space c"
  by (auto simp: table_keys_def table_spaces)

lemma file_keys_family:
  "k \<in> file_keys c r \<Longrightarrow> prefix (family_prefix c DataFile) k \<or> prefix (family_prefix c DataFileBegin) k \<or>
     prefix (family_prefix c CurrentDataFile) k \<or> prefix (family_prefix c EndOrder) k"
  by (auto simp: file_keys_def data_file_key_def data_file_begin_key_def current_data_file_key_def current_data_file_prefix_def
      data_file_end_key_def split: option.splits)

text \<open>Keys of the schedule, of the end-order index and of delete files.\<close>

definition side_families :: "key_family set" where
  "side_families = {ScheduledCleanup, EndOrder, DeleteFile, DeleteFileTimeline, DeleteFileChange, DeleteFileChangeByOrder}"

definition side_keys :: "catalog_id \<Rightarrow> bytes set" where
  "side_keys c = {k. \<exists>f \<in> side_families. prefix (family_prefix c f) k}"

lemma not_in_parts:
  assumes "prefix (family_prefix c g) k"
  shows "Z \<subseteq> side_keys c \<Longrightarrow> g \<notin> side_families \<Longrightarrow> k \<notin> Z"
    "g \<notin> {DataFile, DataFileBegin, CurrentDataFile, EndOrder} \<Longrightarrow> k \<notin> file_keys c r"
    "g \<notin> {FileColumnStats, FileColumnStatsLookup} \<Longrightarrow> k \<notin> stats_keys kv c f"
    "g \<notin> {FilePartitionValue, PartitionValueLookup} \<Longrightarrow> k \<notin> partition_keys kv c f"
    "g \<noteq> Object \<Longrightarrow> k \<notin> table_keys c T t"
proof -
  have same: "f = g" if "prefix (family_prefix c f) k" for f using that assms by (rule family_prefix_unique)
  show "Z \<subseteq> side_keys c \<Longrightarrow> g \<notin> side_families \<Longrightarrow> k \<notin> Z" using same unfolding side_keys_def by blast
  show "g \<notin> {DataFile, DataFileBegin, CurrentDataFile, EndOrder} \<Longrightarrow> k \<notin> file_keys c r"
    using same file_keys_family [of k c r] by blast
  show "g \<notin> {FileColumnStats, FileColumnStatsLookup} \<Longrightarrow> k \<notin> stats_keys kv c f"
    using same stats_keys_family [of k kv c f] by blast
  show "g \<notin> {FilePartitionValue, PartitionValueLookup} \<Longrightarrow> k \<notin> partition_keys kv c f"
    using same partition_keys_family [of k kv c f] unfolding partition_space_def by blast
  show "g \<noteq> Object \<Longrightarrow> k \<notin> table_keys c T t"
    using same table_space_family [OF table_keys_space, of k c T t] by blast
qed

lemma cleanup_file_key:
  assumes "Z \<subseteq> side_keys c" "g \<in> {DataFile, DataFileBegin, CurrentDataFile}" "prefix (family_prefix c g) k"
  shows "k \<in> cleanup_keys kv c Z R T D \<longleftrightarrow> (\<exists>r \<in> R. k \<in> file_keys c r)"
  using assms(2) not_in_parts [OF assms(3)] assms(1) by (auto simp: cleanup_keys_def side_families_def)

lemma cleanup_stats_key:
  assumes "Z \<subseteq> side_keys c" "prefix (family_prefix c FileColumnStats) k"
  shows "k \<in> cleanup_keys kv c Z R T D \<longleftrightarrow> (\<exists>r \<in> R. k \<in> stats_keys kv c (df_data_file_id r))"
  using not_in_parts [OF assms(2)] assms(1) by (auto simp: cleanup_keys_def side_families_def)

lemma cleanup_table_key:
  assumes "Z \<subseteq> side_keys c" "k \<in> table_space c"
  shows "k \<in> cleanup_keys kv c Z R T D \<longleftrightarrow> (\<exists>t \<in> D. k \<in> table_keys c T t)"
  using not_in_parts [OF table_space_family [OF assms(2)]] assms(1) by (auto simp: cleanup_keys_def side_families_def)

lemma cleanup_partition_key:
  assumes "Z \<subseteq> side_keys c" "prefix (file_partition_value_prefix c f) k" "k \<in> cleanup_keys kv c Z R T D"
  shows "f \<in> df_data_file_id ` R"
proof -
  have p: "prefix (family_prefix c FilePartitionValue) k" using assms(2) by (rule file_prefix_family)
  with assms(1,3) obtain r where r: "r \<in> R" "k \<in> partition_keys kv c (df_data_file_id r)"
    using not_in_parts [OF p] by (auto simp: cleanup_keys_def side_families_def)
  have "\<not> prefix (family_prefix c PartitionValueLookup) k" using family_prefix_unique [OF p] by blast
  with r(2) have "prefix (file_partition_value_prefix c (df_data_file_id r)) k"
    by (auto simp: partition_keys_def partition_lookup_key_def key_defs)
  with assms(2) have "df_data_file_id r = f" by (auto simp: file_partition_value_prefix_def elim!: prefixE)
  with r(1) show ?thesis by blast
qed

lemma cleanup_other_key:
  assumes "Z \<subseteq> side_keys c" "k \<in> snapshot_space c \<or> k \<in> change_space c \<or> k \<in> version_space c \<or> k \<in> cell_keys c"
  shows "k \<notin> cleanup_keys kv c Z R T D"
proof -
  let ?S = "{Snapshot, SnapshotByTimestamp, MetadataVersion, TableChanges, SnapshotChanges}"
  have "\<exists>g \<in> ?S. prefix (family_prefix c g) k" using assms(2)
  proof (elim disjE)
    assume "k \<in> snapshot_space c"
    then show ?thesis using snapshot_space_family [of k c] snapshot_cells_family [of k c] by blast
  next
    assume "k \<in> change_space c"
    then show ?thesis unfolding change_space_def by blast
  next
    assume "k \<in> version_space c"
    from version_space_family [OF this] show ?thesis by blast
  next
    assume "k \<in> cell_keys c"
    from cell_family [OF this] show ?thesis by blast
  qed
  then obtain g where g: "g \<in> ?S" "prefix (family_prefix c g) k" ..
  have o: "g \<notin> side_families" "g \<notin> {DataFile, DataFileBegin, CurrentDataFile, EndOrder}"
    "g \<notin> {FileColumnStats, FileColumnStatsLookup}" "g \<notin> {FilePartitionValue, PartitionValueLookup}" "g \<noteq> Object"
    using g(1) by (auto simp: side_families_def)
  show ?thesis
    using not_in_parts(1) [OF g(2) assms(1) o(1)] not_in_parts(2) [OF g(2) o(2)] not_in_parts(3) [OF g(2) o(3)]
      not_in_parts(4) [OF g(2) o(4)] not_in_parts(5) [OF g(2) o(5)] by (simp add: cleanup_keys_def)
qed

section \<open>Cleanup of a described store\<close>

lemma restrict_other: "k \<notin> K \<Longrightarrow> (m |` (- K)) k = m k"
  by simp

lemma files_are_cleaned:
  assumes "files_are m c F" "R \<subseteq> {r \<in> F. \<not> is_current r}" "Z \<subseteq> side_keys c"
  shows "files_are (m |` (- cleanup_keys kv c Z R T D)) c (F - R)"
proof -
  let ?K = "cleanup_keys kv c Z R T D"
  have id: "df_data_file_id x = df_data_file_id y \<longleftrightarrow> x = y" if "x \<in> F" "y \<in> F" for x y
    using files_are_ids [OF assms(1)] that by (auto dest: inj_onD)
  have R: "r \<in> F" if "r \<in> R" for r using that assms(2) by auto
  have "by_id.holds c (m |` (- ?K)) (F - R)"
  proof (rule by_id.holds_dropped)
    fix x assume x: "x \<in> F"
    have "data_file_key c (df_data_file_id x) \<in> file_keys c r \<longleftrightarrow> df_data_file_id x = df_data_file_id r" for r
      by (auto simp: file_keys_def key_defs split: option.splits)
    then show "data_file_key c (df_data_file_id x) \<in> ?K \<longleftrightarrow> x \<in> R"
      using cleanup_file_key [OF assms(3), of DataFile "data_file_key c (df_data_file_id x)"] id [OF x R]
      by (auto simp: by_id.in_space)
  qed (use assms(1) in \<open>simp add: files_are_def\<close>)
  moreover have "by_begin.holds c (m |` (- ?K)) (F - R)"
  proof (rule by_begin.holds_dropped)
    fix x assume x: "x \<in> F"
    have "begin_key c x \<in> file_keys c r \<longleftrightarrow> begin_key c x = begin_key c r" for r
      by (auto simp: file_keys_def key_defs split: option.splits)
    moreover have "begin_key c x = begin_key c r \<longleftrightarrow> x = r" if "r \<in> R" for r
      using id [OF x R [OF that]] by (auto simp: key_defs)
    ultimately show "begin_key c x \<in> ?K \<longleftrightarrow> x \<in> R"
      using cleanup_file_key [OF assms(3), of DataFileBegin "begin_key c x"] by (auto simp: by_begin.in_space)
  qed (use assms(1) in \<open>simp add: files_are_def\<close>)
  moreover have "current.holds c (m |` (- ?K)) ({r \<in> F. is_current r} - R)"
  proof (rule current.holds_dropped)
    fix x assume x: "x \<in> {r \<in> F. is_current r}"
    let ?k = "current_data_file_key c (df_table_id x) (df_data_file_id x)"
    have "?k \<in> file_keys c r \<longleftrightarrow> df_table_id x = df_table_id r \<and> df_data_file_id x = df_data_file_id r" for r
      by (auto simp: file_keys_def key_defs split: option.splits)
    moreover have "df_data_file_id x \<noteq> df_data_file_id r" if "r \<in> R" for r
      using id [of x r] R [OF that] x that assms(2) by auto
    moreover have "x \<notin> R" using x assms(2) by auto
    ultimately show "?k \<in> ?K \<longleftrightarrow> x \<in> R"
      using cleanup_file_key [OF assms(3), of CurrentDataFile ?k] by (auto simp: current.in_space)
  qed (use assms(1) in \<open>simp add: files_are_def\<close>)
  moreover have "{r \<in> F. is_current r} - R = {r \<in> F - R. is_current r}" by auto
  ultimately show ?thesis by (simp add: files_are_def)
qed

lemma stats_cleaned:
  assumes "fake_wf kv" "stats.holds c (fake_get kv) X" "Z \<subseteq> side_keys c"
  shows "stats.holds c (fake_get kv |` (- cleanup_keys kv c Z R T D)) {x \<in> X. fs_data_file_id x \<notin> df_data_file_id ` R}"
proof -
  let ?K = "cleanup_keys kv c Z R T D" and ?k = "\<lambda>x. file_column_stats_key c (fs_data_file_id x) (fs_column_id x)"
  have "stats.holds c (fake_get kv |` (- ?K)) (X - {x. fs_data_file_id x \<in> df_data_file_id ` R})"
  proof (rule stats.holds_dropped [OF assms(2)])
    fix x assume x: "x \<in> X"
    have stored: "(?k x, file_column_stats_row_encode x) \<in> set (items kv)"
      using stats.holds_get [OF assms(2) x] by (auto simp: fake_get_def dest: map_of_SomeD)
    have out: "\<not> prefix (family_prefix c FileColumnStatsLookup) (?k x)"
      using family_prefix_unique [OF stats.in_space [of c x]] by blast
    have "?k x \<in> stats_keys kv c f \<longleftrightarrow> fs_data_file_id x = f" for f
    proof
      assume "?k x \<in> stats_keys kv c f"
      then have "prefix (file_column_stats_prefix c f) (?k x)"
        using out by (auto simp: stats_keys_def file_column_stats_lookup_key_def file_column_stats_lookup_prefix_def)
      then show "fs_data_file_id x = f" by (auto simp: file_column_stats_prefix_def key_defs)
    next
      assume "fs_data_file_id x = f"
      then have "prefix (file_column_stats_prefix c f) (?k x)" by (simp add: file_column_stats_prefix_def key_defs)
      with stored show "?k x \<in> stats_keys kv c f" unfolding stats_keys_def by force
    qed
    then show "?k x \<in> ?K \<longleftrightarrow> x \<in> {x. fs_data_file_id x \<in> df_data_file_id ` R}"
      using cleanup_stats_key [OF assms(3) stats.in_space [of c x]] by auto
  qed
  then show ?thesis by (simp add: set_diff_eq)
qed

lemma tables_cleaned:
  assumes "tables_are m c T" "Z \<subseteq> side_keys c"
  shows "tables_are (m |` (- cleanup_keys kv c Z R T D)) c {r \<in> T. tr_table_id r \<notin> D}"
proof -
  let ?K = "cleanup_keys kv c Z R T D" and ?gone = "{r. tr_table_id r \<in> D}"
  have obj: "table_object_key c (tr_table_id x) (begin_order (tr_validity x)) \<in> ?K \<longleftrightarrow> x \<in> ?gone"
    "table_visibility_key c (begin_order (tr_validity x)) (tr_table_id x) \<in> ?K \<longleftrightarrow> x \<in> ?gone" if x: "x \<in> T" for x
  proof -
    have "table_object_key c (tr_table_id x) (begin_order (tr_validity x)) \<in> table_keys c T t \<longleftrightarrow> tr_table_id x = t"
      "table_visibility_key c (begin_order (tr_validity x)) (tr_table_id x) \<in> table_keys c T t \<longleftrightarrow> tr_table_id x = t" for t
      using x by (auto simp: table_keys_def key_defs)
    then show "table_object_key c (tr_table_id x) (begin_order (tr_validity x)) \<in> ?K \<longleftrightarrow> x \<in> ?gone"
      "table_visibility_key c (begin_order (tr_validity x)) (tr_table_id x) \<in> ?K \<longleftrightarrow> x \<in> ?gone"
      using cleanup_table_key [OF assms(2) table_spaces(1)] cleanup_table_key [OF assms(2) table_spaces(2)] by auto
  qed
  have cur: "current_table_row_key c (tr_table_id x) \<in> ?K \<longleftrightarrow> x \<in> ?gone" for x
  proof -
    have "current_table_row_key c (tr_table_id x) \<in> table_keys c T t \<longleftrightarrow> tr_table_id x = t" for t
      by (auto simp: table_keys_def key_defs)
    then show ?thesis using cleanup_table_key [OF assms(2) table_spaces(3)] by auto
  qed
  have h: "table_versions.holds c m T" "table_visibility.holds c m T" "current_tables.holds c m {r \<in> T. is_open r}"
    using assms(1) by (simp_all add: tables_are_def)
  have "table_versions.holds c (m |` (- ?K)) (T - ?gone)" by (rule table_versions.holds_dropped [OF h(1) obj(1)])
  moreover have "table_visibility.holds c (m |` (- ?K)) (T - ?gone)" by (rule table_visibility.holds_dropped [OF h(2) obj(2)])
  moreover have "current_tables.holds c (m |` (- ?K)) ({r \<in> T. is_open r} - ?gone)"
    by (rule current_tables.holds_dropped [OF h(3) cur])
  moreover have "T - ?gone = {r \<in> T. tr_table_id r \<notin> D}" "{r \<in> T. is_open r} - ?gone = {r \<in> {r \<in> T. tr_table_id r \<notin> D}. is_open r}"
    by auto
  ultimately show ?thesis by (simp add: tables_are_def)
qed

lemma cleaned_store:
  assumes "catalog_is kv c H L F C" "table_catalog kv c H L T vs" "stats.holds c (fake_get kv) X"
    and R: "R \<subseteq> {r \<in> F. \<not> is_current r}" and Z: "Z \<subseteq> side_keys c"
    and kv': "fake_get kv' = fake_get kv |` (- cleanup_keys kv c Z R T D)" "fake_wf kv'"
  shows "catalog_is kv' c H L (F - R) C" "table_catalog kv' c H L {r \<in> T. tr_table_id r \<notin> D} vs"
    "stats.holds c (fake_get kv') {x \<in> X. fs_data_file_id x \<notin> df_data_file_id ` R}"
    "\<And>f. f \<notin> df_data_file_id ` R \<Longrightarrow> file_rows kv' c f = file_rows kv c f"
proof -
  let ?K = "cleanup_keys kv c Z R T D"
  have A: "staging_ready kv c" "snapshots_are (fake_get kv) c H L" "files_are (fake_get kv) c F" "changes_are (fake_get kv) c C"
    "fake_wf kv" using assms(1) by (simp_all add: catalog_is_def staging_ready_def)
  note D = table_catalogD [OF assms(2)]
  have same: "fake_get kv' k = fake_get kv k"
    if "k \<in> snapshot_space c \<or> k \<in> change_space c \<or> k \<in> version_space c \<or> k \<in> cell_keys c" for k
    using cleanup_other_key [OF Z that, of kv R T D] by (simp add: kv'(1))
  have shrink: "fake_get kv' k \<in> {None, fake_get kv k}" for k by (simp add: kv'(1) restrict_map_def)
  have ready: "staging_ready kv' c"
    using A(1) kv'(2) same partition_values_wf_shrink [of "fake_get kv" c "fake_get kv'"] shrink by (simp add: staging_ready_def)
  have snap: "snapshots_are (fake_get kv') c H L" using A(2) by (rule snapshots_are_local) (simp add: same)
  show "catalog_is kv' c H L (F - R) C"
    unfolding catalog_is_def
    using ready snap files_are_cleaned [OF A(3) R Z, of kv T D] changes_are_local [OF A(4)] same kv'(1) by simp
  have "versions_wf tr_table_id tr_validity {r \<in> T. tr_table_id r \<notin> D}" using D(6) by (simp add: versions_wf_def)
  then show "table_catalog kv' c H L {r \<in> T. tr_table_id r \<notin> D} vs"
    unfolding table_catalog_def
    using ready snap tables_cleaned [OF D(4) Z, of kv R D] schema_versions_are_local [OF D(5)] same kv'(1) assms(2)
    by (auto simp: table_catalog_def orders_upto_def)
  show "stats.holds c (fake_get kv') {x \<in> X. fs_data_file_id x \<notin> df_data_file_id ` R}"
    unfolding kv'(1) by (rule stats_cleaned [OF A(5) assms(3) Z])
  fix f assume "f \<notin> df_data_file_id ` R"
  then have "fake_get kv' k = fake_get kv k" if "prefix (file_partition_value_prefix c f) k" for k
    using cleanup_partition_key [OF Z that] by (auto simp: kv'(1) restrict_map_def)
  then show "file_rows kv' c f = file_rows kv c f" by (rule file_rows_local [OF A(5) kv'(2)])
qed

lemma rfold_total: "(\<And>x b. x \<in> set xs \<Longrightarrow> \<exists>b'. g x b = Inr b') \<Longrightarrow> \<exists>b'. rfold g xs b = Inr b'"
proof (induction xs arbitrary: b)
  case (Cons x xs)
  then obtain b' where "g x b = Inr b'" by fastforce
  with Cons show ?case by simp
qed simp

lemma stage_tables_drops:
  assumes "table_catalog kv c H L T vs"
  shows "\<exists>b'. rfold (\<lambda>t b. stage_remove_unreachable_table_metadata kv b c t L) ts b = Inr b' \<and>
    drops b b' (\<Union>t \<in> {t \<in> set ts. unseen_table L T t}. table_keys c T t)"
proof -
  note stage = stage_remove_table_drops [OF assms]
  obtain b' where b': "rfold (\<lambda>t b. stage_remove_unreachable_table_metadata kv b c t L) ts b = Inr b'"
    using rfold_total [of ts "\<lambda>t b. stage_remove_unreachable_table_metadata kv b c t L"] stage by blast
  have "drops b b' (\<Union>t \<in> set ts. if unseen_table L T t then table_keys c T t else {})"
    by (rule drops_rfold [OF b']) (metis stage sum.inject(2))
  with b' show ?thesis by (auto elim: drops_eq split: if_splits)
qed

lemma remove_old_data_files_outcome:
  assumes cat: "catalog_is kv c H L F C" "table_catalog kv c H L T vs" "stats.holds c (fake_get kv) X"
    and "list_old_data_files_for_cleanup kv c = Inr all" "ids \<noteq> []"
  defines "rows \<equiv> filter (\<lambda>r. df_data_file_id r \<in> set ids) all"
  shows "\<exists>kv' Z. remove_old_data_files kv c ids = (Inr rows, kv') \<and> Z \<subseteq> side_keys c \<and> fake_wf kv' \<and>
    fake_get kv' = fake_get kv |` (- cleanup_keys kv c Z {r \<in> set rows. row_is_unreachable r L} T
      {t \<in> df_table_id ` set rows. unseen_table L T t})"
proof -
  have A: "staging_ready kv c" "fake_wf kv" "snapshots_are (fake_get kv) c H L"
    using cat(1) by (simp_all add: catalog_is_def staging_ready_def)
  have snaps: "list_snapshots kv c = Inr L" by (rule list_snapshots_reads [OF A(2,3)])
  define sched where "sched r = (if is_scheduled_data_file_cleanup kv c (df_data_file_id r)
      then {scheduled_data_file_cleanup_key c (df_data_file_id r)} else {})" for r :: data_file_row
  define b1 where "b1 r b = (if is_scheduled_data_file_cleanup kv c (df_data_file_id r)
      then batch_delete b (scheduled_data_file_cleanup_key c (df_data_file_id r)) else b)" for r :: data_file_row and b
  define step where "step r b = (if row_is_unreachable r L then stage_remove_data_file_metadata kv (b1 r b) c r else Inr (b1 r b))" for r b
  define K where "K r = file_keys c r \<union> stats_keys kv c (df_data_file_id r) \<union> partition_keys kv c (df_data_file_id r)" for r :: data_file_row
  have b1: "drops b (b1 r b) (sched r)" for r b using drops_delete [OF drops_refl] by (simp add: b1_def sched_def)
  have "\<exists>b'. step r b = Inr b'" for r b
    using stage_remove_data_file_total [OF A(1) cat(3)] by (simp add: step_def)
  then obtain b where b: "rfold step rows batch_new = Inr b" using rfold_total [of rows step] by blast
  have "drops batch_new b (\<Union>r \<in> set rows. sched r \<union> (if row_is_unreachable r L then K r else {}))"
  proof (rule drops_rfold [OF b])
    fix r b b' assume "step r b = Inr b'"
    then show "drops b b' (sched r \<union> (if row_is_unreachable r L then K r else {}))"
      using drops_trans [OF b1 [of b r] stage_remove_data_file_drops [OF A(1), of "b1 r b" r b']] b1 [of b r]
      by (auto simp: step_def K_def split: if_splits)
  qed
  moreover from stage_tables_drops [OF cat(2)] obtain b' where
    b': "rfold (\<lambda>t b. stage_remove_unreachable_table_metadata kv b c t L) (sorted_list_of_set (df_table_id ` set rows)) b = Inr b'"
    "drops b b' (\<Union>t \<in> {t \<in> set (sorted_list_of_set (df_table_id ` set rows)). unseen_table L T t}. table_keys c T t)" by blast
  ultimately have "drops batch_new b' ((\<Union>r \<in> set rows. sched r \<union> (if row_is_unreachable r L then K r else {})) \<union>
      (\<Union>t \<in> {t \<in> set (sorted_list_of_set (df_table_id ` set rows)). unseen_table L T t}. table_keys c T t))"
    using drops_trans by blast
  then have "drops batch_new b' (cleanup_keys kv c (\<Union>r \<in> set rows. sched r) {r \<in> set rows. row_is_unreachable r L} T
      {t \<in> df_table_id ` set rows. unseen_table L T t})"
    by (rule drops_eq) (auto simp: cleanup_keys_def K_def split: if_splits)
  from commit_drops [OF this, of kv rows] obtain kv' where kv': "commit_then kv b' rows = (Inr rows, kv')"
    "fake_get kv' = fake_get kv |` (- cleanup_keys kv c (\<Union>r \<in> set rows. sched r) {r \<in> set rows. row_is_unreachable r L} T
      {t \<in> df_table_id ` set rows. unseen_table L T t})" "fake_wf kv'" using A(2) by blast
  have "remove_old_data_files kv c ids = (Inr rows, kv')"
    unfolding remove_old_data_files_def if_not_P [OF assms(5)] assms(4) snaps attempt_simps Let_def rows_def [symmetric]
      b1_def [symmetric] step_def [symmetric] b b'(1) kv'(1) ..
  moreover have "(\<Union>r \<in> set rows. sched r) \<subseteq> side_keys c"
    by (auto simp: sched_def side_keys_def side_families_def key_defs split: if_splits)
  ultimately show ?thesis using kv'(2,3) by blast
qed

lemma cleaned_files_listing:
  assumes "catalog_is kv c H L F C" "catalog_is kv' c H L (F - R) C" "\<forall>r \<in> R. row_is_unreachable r L" "s \<in> set L"
    and rows: "\<And>f. f \<notin> df_data_file_id ` R \<Longrightarrow> file_rows kv' c f = file_rows kv c f" and "R \<subseteq> F"
  shows "list_data_files_at kv' c t (sn_order s) = list_data_files_at kv c t (sn_order s)"
proof -
  have A: "staging_ready kv c" "files_are (fake_get kv) c F" "staging_ready kv' c" "files_are (fake_get kv') c (F - R)"
    using assms(1,2) by (simp_all add: catalog_is_def)
  have "\<not> is_visible_at (df_validity r) (sn_order s)" if "r \<in> R" for r
    using assms(3,4) that by (auto simp: row_is_unreachable_def data_file_visible_at_def)
  then have vis: "{r \<in> F. df_table_id r = t \<and> is_visible_at (df_validity r) (sn_order s)} =
      id ` {r \<in> F - R. df_table_id r = t \<and> is_visible_at (df_validity r) (sn_order s)}" by auto
  have kept: "file_rows kv c (df_data_file_id r) = file_rows kv' c (df_data_file_id r)" if "r \<in> F - R" for r
  proof -
    have "df_data_file_id r \<notin> df_data_file_id ` R"
      using that files_are_ids [OF A(2)] assms(6) by (auto dest: inj_onD)
    then show ?thesis by (simp add: rows)
  qed
  have "list_data_files_at kv c t (sn_order s) = rbind (list_data_files_at kv' c t (sn_order s)) (\<lambda>rs. Inr (map id rs))"
    by (rule listing_corresponds [OF A(3,4,1,2) vis _ kept]) simp_all
  then show ?thesis by (cases "list_data_files_at kv' c t (sn_order s)") simp_all
qed

lemma cleaned_tables_listing:
  assumes "table_catalog kv c H L T vs" "table_catalog kv' c H L {r \<in> T. tr_table_id r \<notin> D} vs" "\<forall>t \<in> D. unseen_table L T t"
    "s \<in> set L"
  shows "list_tables_at kv' c (sn_order s) = list_tables_at kv c (sn_order s)"
proof -
  note A = table_catalogD [OF assms(1)] and B = table_catalogD [OF assms(2)]
  obtain xs where xs: "list_tables_at kv c (sn_order s) = Inr xs" "lists_visible T (sn_order s) xs"
    using list_tables_at_lists_visible [OF A(2,3,4,6,7)] by blast
  obtain ys where ys: "list_tables_at kv' c (sn_order s) = Inr ys" "lists_visible {r \<in> T. tr_table_id r \<notin> D} (sn_order s) ys"
    using list_tables_at_lists_visible [OF B(2,3,4,6,7)] by blast
  have "{r \<in> {r \<in> T. tr_table_id r \<notin> D}. is_visible_at (tr_validity r) (sn_order s)} = {r \<in> T. is_visible_at (tr_validity r) (sn_order s)}"
    using assms(3,4) by (auto simp: unseen_table_def)
  then have "lists_visible T (sn_order s) ys" using ys(2) by (simp add: lists_visible_def)
  from lists_visible_unique [OF xs(2) this] xs(1) ys(1) show ?thesis by simp
qed

end
