(* ===== verification/Cat_Cleanup.thy ===== *)
theory Cat_Cleanup
  imports Cat_Maintenance_Spec
begin

text \<open>
  The outcome of the cleanups of \<open>maintenance.rs\<close>: retained snapshots are never affected, and what is requested and
  unreachable is removed.
\<close>

section \<open>When a cleanup cannot fail\<close>

text \<open>The end-order index of a store: every key of it can be decoded, and every ended file has one.\<close>

definition end_index_ok :: "(bytes \<rightharpoonup> bytes) \<Rightarrow> catalog_id \<Rightarrow> data_file_row set \<Rightarrow> bool" where
  "end_index_ok m c F \<longleftrightarrow>
     (\<forall>k. prefix (family_prefix c EndOrder) k \<longrightarrow> m k \<noteq> None \<longrightarrow> (\<exists>e. decode_end_order_entry c k = Inr e)) \<and>
     (\<forall>r \<in> F. \<forall>e. end_order (df_validity r) = Some e \<longrightarrow> m (data_file_end_key c (df_table_id r) e (df_data_file_id r)) \<noteq> None)"

lemma partition_replacement_total:
  assumes "fake_wf kv" "partition_values_wf (fake_get kv) c"
  shows "\<exists>x. partition_replacement_covers kv c candidate row ord = Inr x"
proof -
  have key: "\<exists>x. data_file_partition_key kv c f = Inr x" for f
    using list_file_partition_values_for_data_files_rows [OF assms, of "[f]"] by (auto simp: data_file_partition_key_def)
  obtain k1 k2 where "data_file_partition_key kv c (df_data_file_id candidate) = Inr k1"
    "data_file_partition_key kv c (df_data_file_id row) = Inr k2" using key by blast
  then show ?thesis by (simp add: partition_replacement_covers_def ex_bool_eq)
qed

lemma any_covering_total:
  assumes "fake_wf kv" "partition_values_wf (fake_get kv) c" "\<forall>i \<in> set page. \<exists>r. data_file_row_decode (ri_value i) = Inr r"
  shows "\<exists>x. any_covering_data_file kv c row ord page = Inr x"
  using assms(3)
proof (induction page)
  case (Cons i page)
  then obtain r x where "data_file_row_decode (ri_value i) = Inr r" "any_covering_data_file kv c row ord page = Inr x" by auto
  moreover obtain y where "partition_replacement_covers kv c r row ord = Inr y"
    using partition_replacement_total [OF assms(1,2)] by blast
  ultimately show ?case by (simp add: ex_bool_eq)
qed (simp add: ex_bool_eq)

lemma has_covering_total:
  assumes "staging_ready kv c" "files_are (fake_get kv) c F"
  shows "\<exists>x. has_covering_data_file kv c row ord = Inr x"
proof -
  have wf: "fake_wf kv" "partition_values_wf (fake_get kv) c" using assms(1) by (simp_all add: staging_ready_def)
  have "\<exists>r. data_file_row_decode (snd e) = Inr r" if "e \<in> set (items kv)" "prefix (family_prefix c DataFile) (fst e)" for e
  proof -
    have "fake_get kv (fst e) = Some (snd e)" using that(1) wf(1) by (simp add: fake_wf_def fake_get_def btree_mem_iff [symmetric])
    from stored_file [OF assms(2) that(2) this] show ?thesis by blast
  qed
  then show ?thesis
    unfolding has_covering_data_file_def scan_family [OF wf(1)] rbind.simps
    by (intro any_covering_total [OF wf]) (auto simp: to_item_def)
qed

lemma covered_at_all_total:
  assumes "staging_ready kv c" "files_are (fake_get kv) c F"
  shows "\<exists>x. covered_at_all kv c row ss = Inr x"
proof (induction ss)
  case (Cons s ss)
  then obtain x y where "covered_at_all kv c row ss = Inr x" "has_covering_data_file kv c row (sn_order s) = Inr y"
    using has_covering_total [OF assms] by blast
  then show ?case by (simp add: ex_bool_eq)
qed (simp add: ex_bool_eq)

lemma list_old_data_files_total:
  assumes "catalog_is kv c H L F C" "end_index_ok (fake_get kv) c F" "list_scheduled_data_file_cleanup_rows kv c = Inr xs"
  shows "\<exists>all. list_old_data_files_for_cleanup kv c = Inr all"
proof -
  have A: "staging_ready kv c" "files_are (fake_get kv) c F" "fake_wf kv" "snapshots_are (fake_get kv) c H L"
    using assms(1) by (simp_all add: catalog_is_def staging_ready_def)
  have snaps: "list_snapshots kv c = Inr L" by (rule list_snapshots_reads [OF A(3,4)])
  have safe: "\<exists>x. scheduled_data_file_is_safe_for_physical_cleanup kv c row L = Inr x" for row
    using covered_at_all_total [OF A(1,2)]
    by (simp add: scheduled_data_file_is_safe_for_physical_cleanup_def data_file_is_safe_for_physical_cleanup_def ex_bool_eq)
  have step: "\<exists>st'. (case st of (seen, rows) \<Rightarrow> rbind (scheduled_data_file_is_safe_for_physical_cleanup kv c row L) (\<lambda>safe.
         if safe then Inr (insert (df_data_file_id (sd_data_file row)) seen, rows @ [sd_data_file row])
         else Inr (seen, rows))) = Inr st'" for row st
    using safe [of row] by (auto split: prod.split)
  have "\<exists>st. scheduled_data_files_for_cleanup kv c L xs = Inr st"
    unfolding scheduled_data_files_for_cleanup_def by (rule rfold_total, rule step)
  then obtain st where st: "scheduled_data_files_for_cleanup kv c L xs = Inr st" ..
  let ?page = "map to_item (filter (\<lambda>e. prefix (family_prefix c EndOrder) (fst e)) (items kv))"
  have readable: "\<exists>r. data_file_row_decode v = Inr r" if "fake_get kv (data_file_key c f) = Some v" for f v
    by (rule stored_file [OF A(2) _ that]) (auto simp: data_file_key_def)
  have entry: "\<exists>st'. (case st of (seen, rows) \<Rightarrow> rbind (decode_end_order_entry c (ri_key i)) (\<lambda>entry.
         case entry of
           Some (EndDataFile f) \<Rightarrow>
             if f \<in> seen then Inr (seen, rows)
             else (case fake_get kv (data_file_key c f) of
                 None \<Rightarrow> Inr (insert f seen, rows)
               | Some v \<Rightarrow> rbind (data_file_row_decode v) (\<lambda>row.
                   Inr (insert f seen, if row_is_unreachable row L then rows @ [row] else rows)))
         | _ \<Rightarrow> Inr (seen, rows))) = Inr st'" if i: "i \<in> set ?page" for i st
  proof -
    obtain k v where k: "(k, v) \<in> set (items kv)" "prefix (family_prefix c EndOrder) k" "ri_key i = k"
      using i by (auto simp: to_item_def)
    have "fake_get kv k = Some v" using k(1) A(3) by (simp add: fake_wf_def fake_get_def btree_mem_iff [symmetric])
    with k(2) assms(2) obtain e where "decode_end_order_entry c k = Inr e" by (auto simp: end_index_ok_def)
    with k(3) readable show ?thesis
      by (cases st) (auto split: option.split end_order_entry.split dest!: readable)
  qed
  have "\<exists>st'. ended_data_files_for_cleanup kv c L ?page st = Inr st'"
    unfolding ended_data_files_for_cleanup_def by (rule rfold_total, rule entry)
  then obtain st' where st': "ended_data_files_for_cleanup kv c L ?page st = Inr st'" ..
  show ?thesis
    using st st' by (simp add: list_old_data_files_for_cleanup_def snaps assms(3) scan_family [OF A(3)] case_prod_beta')
qed

section \<open>The outcome of a removal\<close>

abbreviation unseen_file :: "snapshot_row list \<Rightarrow> data_file_row \<Rightarrow> bool" where
  "unseen_file L r \<equiv> \<forall>s \<in> set L. \<not> is_visible_at (df_validity r) (sn_order s)"

lemma cleanup_outcome:
  assumes "catalog_is kv c H L F C" "table_catalog kv c H L T vs" "stats.holds c (fake_get kv) X"
    "list_old_data_files_for_cleanup kv c = Inr all"
  obtains rows R D kv' where "remove_old_data_files kv c ids = (Inr rows, kv')"
    "set rows = {r \<in> set all. df_data_file_id r \<in> set ids}" "set rows \<subseteq> {r \<in> F. df_data_file_id r \<in> set ids \<and> \<not> is_current r}"
    "R = {r \<in> set rows. unseen_file L r}" "\<forall>t \<in> D. unseen_table L T t" "catalog_is kv' c H L (F - R) C"
    "table_catalog kv' c H L {r \<in> T. tr_table_id r \<notin> D} vs"
    "stats.holds c (fake_get kv') {x \<in> X. fs_data_file_id x \<notin> df_data_file_id ` R}"
    "\<And>f. f \<notin> df_data_file_id ` R \<Longrightarrow> file_rows kv' c f = file_rows kv c f"
proof (cases "ids = []")
  case True
  then have "remove_old_data_files kv c ids = (Inr [], kv)" by (simp add: remove_old_data_files_def)
  from that [OF this, of "{}" "{}"] assms(1-3) True show thesis by simp
next
  case False
  have A: "files_are (fake_get kv) c F" "fake_wf kv" "snapshots_are (fake_get kv) c H L"
    using assms(1) by (simp_all add: catalog_is_def staging_ready_def)
  have snaps: "list_snapshots kv c = Inr L" by (rule list_snapshots_reads [OF A(2,3)])
  define rows where "rows = filter (\<lambda>r. df_data_file_id r \<in> set ids) all"
  define R where "R = {r \<in> set rows. row_is_unreachable r L}"
  define D where "D = {t \<in> df_table_id ` set rows. unseen_table L T t}"
  have rows: "set rows \<subseteq> {r \<in> F. df_data_file_id r \<in> set ids \<and> \<not> is_current r}"
    using cleanup_candidates(1) [OF A(1) snaps assms(4) A(2)] by (auto simp: rows_def)
  have R: "R = {r \<in> set rows. unseen_file L r}"
    using rows by (auto simp: R_def row_is_unreachable_def data_file_visible_at_def)
  have sub: "R \<subseteq> {r \<in> F. \<not> is_current r}" using rows by (auto simp: R_def)
  from remove_old_data_files_outcome [OF assms False] obtain kv' Z where
    kv': "remove_old_data_files kv c ids = (Inr rows, kv')" "Z \<subseteq> side_keys c" "fake_wf kv'"
    "fake_get kv' = fake_get kv |` (- cleanup_keys kv c Z R T D)" unfolding R_def D_def rows_def by blast
  have "\<forall>t \<in> D. unseen_table L T t" by (simp add: D_def)
  from that [OF kv'(1) _ rows R this cleaned_store [OF assms(1-3) sub kv'(2,4,3)]] show thesis by (simp add: rows_def)
qed

section \<open>Delete files\<close>

definition delete_file_keys :: "catalog_id \<Rightarrow> delete_file_cleanup_row \<Rightarrow> bytes set" where
  "delete_file_keys c row = (let x = dc_delete_file row; f = xf_delete_file_id x; ord = begin_order (xf_validity x); t = dc_table_id row in
     {delete_file_key c f, delete_file_timeline_key c (xf_data_file_id x) ord f, table_delete_file_change_key c t ord f,
      order_delete_file_change_key c ord t f} \<union>
     (case end_order (xf_validity x) of None \<Rightarrow> {} | Some e \<Rightarrow> {delete_file_end_key c t e f}))"

lemma delete_file_keys_side: "delete_file_keys c row \<subseteq> side_keys c"
  by (auto simp: delete_file_keys_def Let_def side_keys_def side_families_def key_defs split: option.splits)

lemma stage_remove_delete_file_drops: "drops b (stage_remove_delete_file_metadata b c row) (delete_file_keys c row)"
proof -
  let ?x = "dc_delete_file row" and ?t = "dc_table_id row"
  have "drops b (batch_delete (batch_delete (batch_delete (batch_delete b (delete_file_key c (xf_delete_file_id ?x)))
      (delete_file_timeline_key c (xf_data_file_id ?x) (begin_order (xf_validity ?x)) (xf_delete_file_id ?x)))
      (table_delete_file_change_key c ?t (begin_order (xf_validity ?x)) (xf_delete_file_id ?x)))
      (order_delete_file_change_key c (begin_order (xf_validity ?x)) ?t (xf_delete_file_id ?x)))
    {order_delete_file_change_key c (begin_order (xf_validity ?x)) ?t (xf_delete_file_id ?x),
     table_delete_file_change_key c ?t (begin_order (xf_validity ?x)) (xf_delete_file_id ?x),
     delete_file_key c (xf_delete_file_id ?x), delete_file_timeline_key c (xf_data_file_id ?x) (begin_order (xf_validity ?x)) (xf_delete_file_id ?x)}"
    by (rule drops_delete [OF drops_delete [OF drops_two]])
  note four = this
  show ?thesis
  proof (cases "end_order (xf_validity ?x)")
    case None
    then show ?thesis by (auto simp: stage_remove_delete_file_metadata_def delete_file_keys_def Let_def intro!: drops_eq [OF four])
  next
    case (Some e)
    then show ?thesis
      by (auto simp: stage_remove_delete_file_metadata_def delete_file_keys_def Let_def intro!: drops_eq [OF drops_delete [OF four]])
  qed
qed

text \<open>A delete file that may be removed has ended, and is needed by no retained snapshot unless its data file was replaced
  by a compaction.\<close>

definition removable_delete_file :: "fake_kv \<Rightarrow> catalog_id \<Rightarrow> snapshot_row list \<Rightarrow> delete_file_row \<Rightarrow> bool" where
  "removable_delete_file kv c L x \<longleftrightarrow> end_order (xf_validity x) \<noteq> None \<and>
     ((\<forall>s \<in> set L. \<not> is_visible_at (xf_validity x) (sn_order s)) \<or>
      source_data_file_has_compaction_replacement_cleanup kv c (xf_data_file_id x) = Inr True)"

lemma cleanup_allowed:
  assumes "delete_file_cleanup_is_allowed kv c x L = Inr True" "end_order (xf_validity x) \<noteq> None"
  shows "removable_delete_file kv c L x"
  using assms
  by (auto simp: removable_delete_file_def delete_file_cleanup_is_allowed_def delete_file_is_safe_for_physical_cleanup_def
      get_delete_file_physical_cleanup_decision_def delete_file_answers_any_retained_snapshot_def rbind_Inr_iff split: if_splits)

lemma old_delete_files_ended:
  assumes "list_old_delete_files_for_cleanup kv c = Inr rows" "row \<in> set rows"
  shows "end_order (xf_validity (dc_delete_file row)) \<noteq> None"
proof -
  let ?P = "\<lambda>st :: delete_file_id set \<times> delete_file_cleanup_row list. \<forall>row \<in> set (snd st). end_order (xf_validity (dc_delete_file row)) \<noteq> None"
  from assms(1) obtain L xs page st seen where l: "scheduled_delete_files_for_cleanup kv c L xs = Inr st"
    "ended_delete_files_for_cleanup kv c L page st = Inr (seen, rows)"
    by (auto simp: list_old_delete_files_for_cleanup_def rbind_Inr_iff)
  have first: "?P st"
    by (rule rfold_invariant [OF l(1) [unfolded scheduled_delete_files_for_cleanup_def]]) (auto simp: rbind_Inr_iff split: if_splits)
  have "?P (seen, rows)"
  proof (rule rfold_invariant [OF l(2) [unfolded ended_delete_files_for_cleanup_def], where P = ?P, OF first])
    fix i s s'
    assume s: "?P s" and step: "(case s of (seen, rows) \<Rightarrow> rbind (decode_end_order_entry c (ri_key i)) (\<lambda>entry.
         case entry of
           Some (EndDeleteFile table_id delete_file_id) \<Rightarrow>
             if delete_file_id \<in> seen then Inr (seen, rows)
             else (case fake_get kv (delete_file_key c delete_file_id) of
                 None \<Rightarrow> Inr (insert delete_file_id seen, rows)
               | Some v \<Rightarrow> rbind (delete_file_row_decode v) (\<lambda>row.
                   rbind (if end_order (xf_validity row) \<noteq> None
                          then delete_file_cleanup_is_allowed kv c row L else Inr False) (\<lambda>allowed.
                     Inr (insert delete_file_id seen,
                       if allowed then rows @ [\<lparr>dc_delete_file = row, dc_table_id = table_id\<rparr>] else rows))))
         | _ \<Rightarrow> Inr (seen, rows))) = Inr s'"
    have "snd s' = snd s \<or> (\<exists>x t. end_order (xf_validity x) \<noteq> None \<and> snd s' = snd s @ [\<lparr>dc_delete_file = x, dc_table_id = t\<rparr>])"
    proof (cases "decode_end_order_entry c (ri_key i)")
      case (Inr entry)
      show ?thesis
      proof (cases entry)
        case None
        then show ?thesis using step Inr by (cases s) auto
      next
        case (Some e)
        show ?thesis
        proof (cases e)
          case (EndDeleteFile t f)
          then show ?thesis using step Inr Some
            by (cases s; cases "fake_get kv (delete_file_key c f)") (auto simp: rbind_Inr_iff split: if_splits)
        qed (use step Inr Some in \<open>cases s, auto\<close>)+
      qed
    qed (use step in \<open>cases s, auto\<close>)
    with s show "?P s'" by auto
  qed
  with assms(2) show ?thesis by simp
qed

lemma cleanup_delete_key:
  "delete_file_key c x \<in> cleanup_keys kv c Z {} T D \<longleftrightarrow> delete_file_key c x \<in> Z"
proof -
  have "prefix (family_prefix c DeleteFile) (delete_file_key c x)" by (simp add: delete_file_key_def)
  from not_in_parts(5) [OF this] show ?thesis by (auto simp: cleanup_keys_def)
qed

lemma remove_old_delete_files_outcome:
  assumes "catalog_is kv c H L F C" "table_catalog kv c H L T vs" "remove_old_delete_files kv c ids = (Inr rows, kv')"
  shows "\<exists>Z D. (\<forall>row \<in> set rows. xf_delete_file_id (dc_delete_file row) \<in> set ids \<and> removable_delete_file kv c L (dc_delete_file row)) \<and>
    Z \<subseteq> side_keys c \<and> (\<forall>x. delete_file_key c x \<in> Z \<longleftrightarrow> x \<in> (\<lambda>row. xf_delete_file_id (dc_delete_file row)) ` set rows) \<and>
    (\<forall>t \<in> D. unseen_table L T t) \<and> fake_wf kv' \<and> fake_get kv' = fake_get kv |` (- cleanup_keys kv c Z {} T D)"
proof (cases "ids = []")
  case True
  with assms(1,3) show ?thesis
    by (intro exI [of _ "{}"]) (simp add: remove_old_delete_files_def cleanup_keys_def catalog_is_def staging_ready_def restrict_map_def)
next
  case False
  have A: "fake_wf kv" "snapshots_are (fake_get kv) c H L" using assms(1) by (simp_all add: catalog_is_def staging_ready_def)
  have snaps: "list_snapshots kv c = Inr L" by (rule list_snapshots_reads [OF A])
  let ?id = "\<lambda>row. xf_delete_file_id (dc_delete_file row)"
  define sched where "sched row = (if is_scheduled_delete_file_cleanup kv c (?id row)
      then {scheduled_delete_file_cleanup_key c (?id row)} else {})" for row :: delete_file_cleanup_row
  define step where "step row b = stage_remove_delete_file_metadata (if is_scheduled_delete_file_cleanup kv c (?id row)
      then batch_delete b (scheduled_delete_file_cleanup_key c (?id row)) else b) c row" for row :: delete_file_cleanup_row and b
  define Z where "Z = (\<Union>row \<in> set rows. sched row \<union> delete_file_keys c row)"
  define D where "D = {t \<in> set (sorted_list_of_set (dc_table_id ` set rows)). unseen_table L T t}"
  from assms(3) False snaps obtain all b' where r:
    "list_old_delete_files_for_cleanup kv c = Inr all"
    "rfold (\<lambda>row rows. if ?id row \<notin> set ids then Inr rows
       else rbind (delete_file_cleanup_is_allowed kv c (dc_delete_file row) L) (\<lambda>allowed.
         Inr (if allowed then rows @ [row] else rows))) all [] = Inr rows"
    "rfold (\<lambda>t b. stage_remove_unreachable_table_metadata kv b c t L) (sorted_list_of_set (dc_table_id ` set rows))
       (fold step rows batch_new) = Inr b'" "commit_then kv b' rows = (Inr rows, kv')"
    by (auto simp: remove_old_delete_files_def Let_def attempt_Inr_iff commit_then_Inr_iff step_def [abs_def])
  have "drops b (step row b) (sched row \<union> delete_file_keys c row)" for row b
    unfolding step_def
    by (rule drops_trans [OF _ stage_remove_delete_file_drops]) (use drops_delete [OF drops_refl] in \<open>simp add: sched_def\<close>)
  then have "drops batch_new (fold step rows batch_new) Z" unfolding Z_def by (rule drops_fold)
  moreover have "drops (fold step rows batch_new) b' (\<Union>t \<in> D. table_keys c T t)"
    using stage_tables_drops [OF assms(2), of "sorted_list_of_set (dc_table_id ` set rows)" "fold step rows batch_new"] r(3)
    by (simp add: D_def)
  ultimately have "drops batch_new b' (cleanup_keys kv c Z {} T D)" by (simp add: cleanup_keys_def drops_trans)
  from commit_drops [OF this, of kv rows] r(4) A(1) have kv': "fake_wf kv'" "fake_get kv' = fake_get kv |` (- cleanup_keys kv c Z {} T D)"
    by auto
  have "removable_delete_file kv c L (dc_delete_file row)"
    if "row \<in> set all" "delete_file_cleanup_is_allowed kv c (dc_delete_file row) L = Inr True" for row
    by (rule cleanup_allowed [OF that(2) old_delete_files_ended [OF r(1) that(1)]])
  then have "\<forall>row \<in> set rows. ?id row \<in> set ids \<and> removable_delete_file kv c L (dc_delete_file row)"
    by (intro rfold_invariant [OF r(2), where P = "\<lambda>rows. \<forall>row \<in> set rows. ?id row \<in> set ids \<and>
          removable_delete_file kv c L (dc_delete_file row)"]) (auto simp: rbind_Inr_iff split: if_splits)
  moreover have "Z \<subseteq> side_keys c"
    using delete_file_keys_side by (fastforce simp: Z_def sched_def side_keys_def side_families_def key_defs split: if_splits)
  moreover have "\<forall>x. delete_file_key c x \<in> Z \<longleftrightarrow> x \<in> ?id ` set rows"
    by (auto simp: Z_def sched_def delete_file_keys_def Let_def key_defs split: if_splits option.splits)
  ultimately show ?thesis using kv' by (intro exI [of _ Z] exI [of _ D]) (simp add: D_def)
qed

section \<open>An example\<close>

text \<open>A store with one retained snapshot at order 9 and one file that lived from order 1 to order 5.\<close>

definition old_file :: data_file_row where
  "old_file = ended_at (uuid_v7 5) (begun_at (uuid_v7 1) example_file)"

definition kept_snapshot :: snapshot_row where
  "kept_snapshot = snapshot_row_new 0 (uuid_v7 9) 0"

definition old_store :: fake_kv where
  "old_store = store_with
     [(data_file_key 7 (df_data_file_id old_file), data_file_row_encode old_file),
      (begin_key 7 old_file, data_file_row_encode old_file),
      (data_file_end_key 7 (df_table_id old_file) (uuid_v7 5) (df_data_file_id old_file), u64_to_be_bytes (df_data_file_id old_file)),
      (snapshot_key 7 (sn_order kept_snapshot), snapshot_row_encode kept_snapshot),
      (snapshot_timestamp_key 7 (sn_created_at_micros kept_snapshot) (sn_order kept_snapshot), snapshot_row_encode kept_snapshot),
      (latest_snapshot_row_key 7, latest_snapshot_value kept_snapshot),
      (raw_snapshot_row_key 7 (sn_sequence kept_snapshot), latest_snapshot_value kept_snapshot)]"

lemma old_file_simps: "end_order (df_validity old_file) = Some (uuid_v7 5)" "begin_order (df_validity old_file) = uuid_v7 1"
  "df_data_file_id old_file = 1" "df_table_id old_file = 2" "data_file_row_ok old_file"
  by (simp_all add: old_file_def example_file_def data_file_row_new_def validity_new_def data_file_row_ok_def string_ok_def
      utf8_valid.simps ascii_def)

lemma old_store_get: "fake_get old_store = put_snapshot 7 kept_snapshot
   [data_file_key 7 (df_data_file_id old_file) \<mapsto> data_file_row_encode old_file, begin_key 7 old_file \<mapsto> data_file_row_encode old_file,
    data_file_end_key 7 (df_table_id old_file) (uuid_v7 5) (df_data_file_id old_file) \<mapsto> u64_to_be_bytes (df_data_file_id old_file)]"
  by (simp add: old_store_def put_snapshot_def)

lemma old_store_dom: "fake_get old_store k \<noteq> None \<Longrightarrow> k \<in> file_keys 7 old_file \<or> k \<in> snapshot_space 7"
  by (auto simp: old_store_get put_snapshot_def file_keys_def old_file_simps(1) snapshot_space_def snapshot_key_def snapshot_timestamp_key_def
      snapshot_prefix_def snapshot_timestamp_prefix_def split: if_splits)

lemma old_store_files: "files_are (fake_get old_store) 7 {old_file}"
proof -
  let ?r = "begun_at (uuid_v7 1) example_file"
  have "files_are (put_file 7 ?r Map.empty) 7 {?r}"
    using files_are_put [OF files_are_empty, of ?r 7] old_file_simps(5) by (simp add: old_file_def data_file_row_ok_def validity_new_def)
  from files_are_expire [OF this, of ?r old_file "uuid_v7 5"]
  have "files_are (put_expired_file 7 old_file (uuid_v7 5) (put_file 7 ?r Map.empty)) 7 {old_file}" by (simp add: old_file_def)
  then show ?thesis
  proof (rule files_are_local)
    fix k assume k: "k \<in> file_space 7"
    then have "k \<notin> snapshot_space 7"
      by (auto simp: file_space_def snapshot_space_def key_defs elim!: prefixE)
    moreover have "prefix (family_prefix 7 EndOrder) (data_file_end_key 7 t e f)" for t e f by (simp add: data_file_end_key_def)
    ultimately show "fake_get old_store k = put_expired_file 7 old_file (uuid_v7 5) (put_file 7 ?r Map.empty) k"
      by (auto simp: old_store_get put_snapshot_def put_expired_file_def put_file_def old_file_def key_defs snapshot_space_def)
  qed
qed

lemma old_store_apart: "k \<in> change_space 7 \<or> k \<in> version_space 7 \<or> k \<in> cell_keys 7 \<Longrightarrow> fake_get old_store k = None"
proof (rule ccontr)
  assume k: "k \<in> change_space 7 \<or> k \<in> version_space 7 \<or> k \<in> cell_keys 7" and "fake_get old_store k \<noteq> None"
  then have "k \<in> file_keys 7 old_file \<or> k \<in> snapshot_space 7" using old_store_dom by blast
  moreover have "k \<notin> file_keys 7 old_file"
    using cleanup_other_key [of "{}" 7 k fake_new "{old_file}" "{}" "{}"] k by (auto simp: cleanup_keys_def)
  moreover have "k \<notin> snapshot_space 7"
  proof
    assume s: "k \<in> snapshot_space 7"
    then have "k \<in> main_space 7" using snapshot_space_main by blast
    then have "k \<notin> cell_keys 7" by (simp add: main_space_def)
    moreover have "k \<notin> version_space 7" using s spaces_apart(3) by blast
    moreover have "k \<notin> change_space 7"
      using s by (auto simp: change_space_def snapshot_space_def key_defs elim!: prefixE)
    ultimately show False using k by blast
  qed
  ultimately show False by blast
qed

lemma old_store_family:
  "f \<notin> {DataFile, DataFileBegin, CurrentDataFile, EndOrder, Snapshot, SnapshotByTimestamp, MetadataVersion} \<Longrightarrow>
   prefix (family_prefix 7 f) k \<Longrightarrow> fake_get old_store k = None"
proof (rule ccontr)
  assume f: "f \<notin> {DataFile, DataFileBegin, CurrentDataFile, EndOrder, Snapshot, SnapshotByTimestamp, MetadataVersion}"
    and k: "prefix (family_prefix 7 f) k" and "fake_get old_store k \<noteq> None"
  then have "k \<in> file_keys 7 old_file \<or> k \<in> snapshot_space 7" using old_store_dom by blast
  then show False
    using f family_prefix_unique [OF k] file_keys_family [of k 7 old_file] snapshot_space_family [of k 7] snapshot_cells_family [of k 7]
    by blast
qed

lemma old_files_no_snapshots: "snapshots_are
   [data_file_key 7 (df_data_file_id old_file) \<mapsto> data_file_row_encode old_file, begin_key 7 old_file \<mapsto> data_file_row_encode old_file,
    data_file_end_key 7 (df_table_id old_file) (uuid_v7 5) (df_data_file_id old_file) \<mapsto> u64_to_be_bytes (df_data_file_id old_file)] 7 [] []"
proof (rule snapshots_are_local [OF snapshots_are_empty])
  fix k assume "k \<in> snapshot_space 7"
  then have "k \<notin> file_keys 7 old_file"
    using cleanup_other_key [of "{}" 7 k fake_new "{old_file}" "{}" "{}"] by (auto simp: cleanup_keys_def)
  then show "[data_file_key 7 (df_data_file_id old_file) \<mapsto> data_file_row_encode old_file, begin_key 7 old_file \<mapsto> data_file_row_encode old_file,
    data_file_end_key 7 (df_table_id old_file) (uuid_v7 5) (df_data_file_id old_file) \<mapsto> u64_to_be_bytes (df_data_file_id old_file)] k = None"
    by (auto simp: file_keys_def old_file_simps(1))
qed

lemma old_store_catalog:
  "catalog_is old_store 7 [kept_snapshot] [kept_snapshot] {old_file} {}"
  "table_catalog old_store 7 [kept_snapshot] [kept_snapshot] {} []" "stats.holds 7 (fake_get old_store) {}"
proof -
  have wf: "fake_wf old_store" by (simp add: old_store_def)
  have none: "fake_get old_store k = None" if "prefix (family_prefix 7 f) k" "f \<in> {FilePartitionValue, FileColumnStats, Object}" for f k
    using old_store_family [OF _ that(1)] that(2) by auto
  have "partition_values_wf (fake_get old_store) 7" using none by (auto simp: partition_values_wf_def)
  then have ready: "staging_ready old_store 7" using wf old_store_apart by (simp add: staging_ready_def cell_ok_def)
  have "stored_snapshot_ok kept_snapshot" by (simp add: kept_snapshot_def snapshot_row_new_ok)
  then have snap: "snapshots_are (fake_get old_store) 7 [kept_snapshot] [kept_snapshot]"
    unfolding old_store_get using snapshots_are_put [of _ 7 "[]" "[]" kept_snapshot] old_files_no_snapshots by simp
  have "changes_are (fake_get old_store) 7 {}"
    by (rule changes_are_local [OF changes_are_empty]) (simp add: old_store_apart)
  with ready snap old_store_files show "catalog_is old_store 7 [kept_snapshot] [kept_snapshot] {old_file} {}"
    by (simp add: catalog_is_def)
  have "tables_are (fake_get old_store) 7 {}"
    by (rule tables_are_local [OF tables_are_empty]) (simp add: none [OF table_space_family])
  moreover have "schema_versions_are (fake_get old_store) 7 []"
    by (rule schema_versions_are_local [OF schema_versions_are_empty]) (simp add: old_store_apart)
  ultimately show "table_catalog old_store 7 [kept_snapshot] [kept_snapshot] {} []"
    using ready snap by (simp add: table_catalog_def versions_wf_def orders_upto_def)
  show "stats.holds 7 (fake_get old_store) {}"
    by (rule stats.holds_local [OF stats.holds_empty]) (simp add: none)
qed

lemma old_store_snapshots: "list_snapshots old_store 7 = Inr [kept_snapshot]" "sn_order kept_snapshot = uuid_v7 9"
proof -
  have "fake_wf old_store" "snapshots_are (fake_get old_store) 7 [kept_snapshot] [kept_snapshot]"
    using old_store_catalog(1) by (simp_all add: catalog_is_def staging_ready_def)
  then show "list_snapshots old_store 7 = Inr [kept_snapshot]" by (rule list_snapshots_reads)
qed (simp add: kept_snapshot_def snapshot_row_new_def snapshot_row_with_created_at_micros_def)

lemma old_store_ends:
  assumes "prefix (family_prefix 7 EndOrder) k" "fake_get old_store k \<noteq> None"
  shows "k = data_file_end_key 7 (df_table_id old_file) (uuid_v7 5) (df_data_file_id old_file)"
    "decode_end_order_entry 7 k = Inr (Some (EndDataFile (df_data_file_id old_file)))"
proof -
  have "k \<notin> snapshot_space 7"
    using family_prefix_unique [OF assms(1)] snapshot_space_family [of k 7] snapshot_cells_family [of k 7] by blast
  then have "k \<in> file_keys 7 old_file" using old_store_dom [OF assms(2)] by blast
  with assms(1) show k: "k = data_file_end_key 7 (df_table_id old_file) (uuid_v7 5) (df_data_file_id old_file)"
    by (auto simp: file_keys_def old_file_simps(1) key_defs)
  show "decode_end_order_entry 7 k = Inr (Some (EndDataFile (df_data_file_id old_file)))"
    by (simp add: k decode_end_order_entry_def data_file_end_key_def slice_def slice_from_def byte_at_def nth_append be_u64_def)
qed

lemma old_store_schedule:
  assumes "p = family_prefix 7 ScheduledCleanup @ [kind] @ [slash]"
  shows "kv_scan_index_rows (\<lambda>k. Inr (fake_get old_store k)) (fake_scan_prefix old_store) \<lparr>index_prefix = p, primary_prefix = q\<rparr> = Inr []"
proof -
  have p: "p = (family_prefix 7 ScheduledCleanup @ [kind]) @ [slash]" by (simp add: assms)
  have "fake_get old_store k = None" if "prefix p k" for k
    by (rule old_store_family [of ScheduledCleanup]) (use that in \<open>auto simp: p dest: append_prefixD\<close>)
  then have "fake_scan_prefix old_store p Forward None = Inr []"
    using fake_scan_prefix_described [of old_store p, OF _ p, of "[]" Forward None] by (simp add: btree_wf_def old_store_def)
  then show ?thesis by (simp add: kv_scan_index_rows_def kv_batch_get_def)
qed

lemma old_store_end_index: "end_index_ok (fake_get old_store) 7 {old_file}" "list_scheduled_data_file_cleanup_rows old_store 7 = Inr []"
proof -
  have "fake_get old_store (data_file_end_key 7 (df_table_id old_file) (uuid_v7 5) (df_data_file_id old_file)) \<noteq> None"
    by (simp add: old_store_get put_snapshot_def)
  then show "end_index_ok (fake_get old_store) 7 {old_file}"
    unfolding end_index_ok_def using old_store_ends(2) by (auto simp: old_file_simps(1))
  show "list_scheduled_data_file_cleanup_rows old_store 7 = Inr []"
    by (simp add: list_scheduled_data_file_cleanup_rows_def old_store_schedule key_defs)
qed

lemma old_store_delete_files: "list_old_delete_files_for_cleanup old_store 7 = Inr []"
proof -
  have wf: "fake_wf old_store" by (simp add: old_store_def)
  have skip: "ended_delete_files_for_cleanup kv c L page st = Inr st"
    if "\<forall>i \<in> set page. \<exists>f. decode_end_order_entry c (ri_key i) = Inr (Some (EndDataFile f))" for kv c L page st
    using that by (induction page) (auto simp: ended_delete_files_for_cleanup_def)
  have "\<exists>f. decode_end_order_entry 7 (fst e) = Inr (Some (EndDataFile f))"
    if "e \<in> set (items old_store)" "prefix (family_prefix 7 EndOrder) (fst e)" for e
  proof -
    have "fake_get old_store (fst e) = Some (snd e)" using that(1) wf by (simp add: fake_wf_def fake_get_def btree_mem_iff [symmetric])
    with old_store_ends(2) [OF that(2)] show ?thesis by simp
  qed
  then have "ended_delete_files_for_cleanup old_store 7 L
      (map to_item (filter (\<lambda>e. prefix (family_prefix 7 EndOrder) (fst e)) (items old_store))) st = Inr st" for L st
    by (intro skip) (auto simp: to_item_def)
  moreover have "list_scheduled_delete_file_cleanup_rows old_store 7 = Inr []"
    by (simp add: list_scheduled_delete_file_cleanup_rows_def old_store_schedule key_defs)
  ultimately show ?thesis
    by (simp add: list_old_delete_files_for_cleanup_def old_store_snapshots(1) scheduled_delete_files_for_cleanup_def scan_family [OF wf])
qed

section \<open>Properties\<close>

text \<open>C3: Removing old data files never affects a retained snapshot. A removal that fails leaves the store as it was. One
  that succeeds returns only stored, ended files that were requested; it drops the metadata and statistics of those
  among them that no retained snapshot sees, and the versions of some tables that no retained snapshot sees; history,
  change log and all other rows stay, and at every retained snapshot the listings of files and of tables are as before.\<close>
theorem cleanup_keeps_retained_snapshots:
  assumes "catalog_is kv c H L F C" "table_catalog kv c H L T vs" "stats.holds c (fake_get kv) X"
  shows "case remove_old_data_files kv c ids of
      (Inl e, kv') \<Rightarrow> kv' = kv
    | (Inr rows, kv') \<Rightarrow> \<exists>R D.
        set rows \<subseteq> {r \<in> F. df_data_file_id r \<in> set ids \<and> \<not> is_current r} \<and>
        R = {r \<in> set rows. \<forall>s \<in> set L. \<not> is_visible_at (df_validity r) (sn_order s)} \<and>
        (\<forall>t \<in> D. \<forall>r \<in> T. \<forall>s \<in> set L. tr_table_id r = t \<longrightarrow> \<not> is_visible_at (tr_validity r) (sn_order s)) \<and>
        catalog_is kv' c H L (F - R) C \<and> table_catalog kv' c H L {r \<in> T. tr_table_id r \<notin> D} vs \<and>
        stats.holds c (fake_get kv') {x \<in> X. fs_data_file_id x \<notin> df_data_file_id ` R} \<and>
        (\<forall>s \<in> set L. \<forall>t. list_data_files_at kv' c t (sn_order s) = list_data_files_at kv c t (sn_order s)) \<and>
        (\<forall>s \<in> set L. list_tables_at kv' c (sn_order s) = list_tables_at kv c (sn_order s))"
proof (cases "list_old_data_files_for_cleanup kv c")
  case (Inl e)
  show ?thesis
  proof (cases "ids = []")
    case True
    then have none: "remove_old_data_files kv c ids = (Inr [], kv)" by (simp add: remove_old_data_files_def)
    show ?thesis unfolding none prod.case sum.case by (rule exI [of _ "{}"], rule exI [of _ "{}"]) (simp add: assms)
  qed (simp add: remove_old_data_files_def Inl)
next
  case (Inr all)
  obtain rows R D kv' where
    out: "remove_old_data_files kv c ids = (Inr rows, kv')" "set rows = {r \<in> set all. df_data_file_id r \<in> set ids}"
    "set rows \<subseteq> {r \<in> F. df_data_file_id r \<in> set ids \<and> \<not> is_current r}"
    "R = {r \<in> set rows. unseen_file L r}" "\<forall>t \<in> D. unseen_table L T t" "catalog_is kv' c H L (F - R) C"
    "table_catalog kv' c H L {r \<in> T. tr_table_id r \<notin> D} vs"
    "stats.holds c (fake_get kv') {x \<in> X. fs_data_file_id x \<notin> df_data_file_id ` R}"
    "\<And>f. f \<notin> df_data_file_id ` R \<Longrightarrow> file_rows kv' c f = file_rows kv c f"
    by (rule cleanup_outcome [OF assms Inr, where ids = ids]) blast
  have "R \<subseteq> F" "\<forall>r \<in> R. row_is_unreachable r L"
    using out(3,4) by (auto simp: row_is_unreachable_def data_file_visible_at_def)
  then have files: "\<forall>s \<in> set L. \<forall>t. list_data_files_at kv' c t (sn_order s) = list_data_files_at kv c t (sn_order s)"
    using cleaned_files_listing [OF assms(1) out(6) _ _ out(9)] by blast
  have tables: "\<forall>s \<in> set L. list_tables_at kv' c (sn_order s) = list_tables_at kv c (sn_order s)"
    using cleaned_tables_listing [OF assms(2) out(7,5)] by blast
  have unseen: "\<forall>t \<in> D. \<forall>r \<in> T. \<forall>s \<in> set L. tr_table_id r = t \<longrightarrow> \<not> is_visible_at (tr_validity r) (sn_order s)"
    using out(5) by (auto simp: unseen_table_def)
  show ?thesis
    unfolding out(1) prod.case sum.case
    by (intro exI [of _ R] exI [of _ D] conjI out(3,4) unseen out(6-8) files tables)
qed

theorem cleanup_keeps_retained_snapshots_witness:
  "\<exists>rows kv'. remove_old_data_files old_store 7 [1] = (Inr rows, kv') \<and> set rows \<subseteq> {old_file} \<and>
     list_data_files_at kv' 7 2 (uuid_v7 9) = list_data_files_at old_store 7 2 (uuid_v7 9)"
proof -
  from list_old_data_files_total [OF old_store_catalog(1) old_store_end_index] obtain all where
    all: "list_old_data_files_for_cleanup old_store 7 = Inr all" ..
  obtain rows kv' where r: "remove_old_data_files old_store 7 [1] = (Inr rows, kv')"
    by (rule cleanup_outcome [OF old_store_catalog all, where ids = "[1]"])
  from old_store_snapshots(2) cleanup_keeps_retained_snapshots [OF old_store_catalog, of "[1]", unfolded r prod.case sum.case] r show ?thesis by auto
qed

text \<open>C33: Removal is complete. When the schedule can be read and the end-order index is intact, removing old data files
  succeeds, and afterwards the store holds exactly the files that were not requested, have not ended, or are visible
  at a retained snapshot.\<close>
theorem unreachable_files_are_removed:
  assumes "catalog_is kv c H L F C" "table_catalog kv c H L T vs" "stats.holds c (fake_get kv) X"
    "end_index_ok (fake_get kv) c F" "list_scheduled_data_file_cleanup_rows kv c = Inr xs"
  shows "\<exists>rows kv'. remove_old_data_files kv c ids = (Inr rows, kv') \<and>
    catalog_is kv' c H L {r \<in> F. df_data_file_id r \<notin> set ids \<or> end_order (df_validity r) = None \<or>
      (\<exists>s \<in> set L. is_visible_at (df_validity r) (sn_order s))} C"
proof -
  from list_old_data_files_total [OF assms(1,4,5)] obtain all where all: "list_old_data_files_for_cleanup kv c = Inr all" ..
  have A: "files_are (fake_get kv) c F" "fake_wf kv" "snapshots_are (fake_get kv) c H L"
    using assms(1) by (simp_all add: catalog_is_def staging_ready_def)
  obtain rows R kv' where
    out: "remove_old_data_files kv c ids = (Inr rows, kv')" "set rows = {r \<in> set all. df_data_file_id r \<in> set ids}"
    "set rows \<subseteq> {r \<in> F. df_data_file_id r \<in> set ids \<and> \<not> is_current r}"
    "R = {r \<in> set rows. unseen_file L r}" "catalog_is kv' c H L (F - R) C"
    by (rule cleanup_outcome [OF assms(1-3) all, where ids = ids]) blast
  have "r \<in> R" if r: "r \<in> F" "df_data_file_id r \<in> set ids" "\<not> is_current r" "unseen_file L r" for r
  proof -
    from r(3) obtain e where e: "end_order (df_validity r) = Some e" by auto
    have "row_is_unreachable r L" using r(3,4) by (auto simp: row_is_unreachable_def data_file_visible_at_def)
    moreover have "fake_get kv (data_file_end_key c (df_table_id r) e (df_data_file_id r)) \<noteq> None"
      using assms(4) r(1) e unfolding end_index_ok_def by blast
    ultimately have "r \<in> set all"
      using cleanup_candidates(2) [OF A(1) list_snapshots_reads [OF A(2,3)] all A(2) r(1) _ e] by blast
    with r out(2,4) show ?thesis by simp
  qed
  then have "F - R = {r \<in> F. df_data_file_id r \<notin> set ids \<or> is_current r \<or> (\<exists>s \<in> set L. is_visible_at (df_validity r) (sn_order s))}"
    using out(3,4) by auto
  with out(1,5) show ?thesis by auto
qed

theorem unreachable_files_are_removed_witness:
  "\<exists>rows kv'. remove_old_data_files old_store 7 [1] = (Inr rows, kv') \<and> catalog_is kv' 7 [kept_snapshot] [kept_snapshot] {} {}"
proof -
  have "\<not> is_visible_at (df_validity old_file) (sn_order kept_snapshot)" by (simp add: is_visible_at_def old_file_simps old_store_snapshots(2))
  then have "{r \<in> {old_file}. df_data_file_id r \<notin> set [1] \<or> is_current r \<or>
      (\<exists>s \<in> set [kept_snapshot]. is_visible_at (df_validity r) (sn_order s))} = {}" by (auto simp: old_file_simps)
  from unreachable_files_are_removed [OF old_store_catalog old_store_end_index, of "[1]", unfolded this] show ?thesis .
qed



end
