(* ===== verification/Cat_Settings.thy ===== *)
theory Cat_Settings
  imports Cat_Index Cat_Cursor
begin

text \<open>
  The two small stores of a catalog: settings by scope and name (\<open>metadata_settings.rs\<close>) and column mappings by id
  (\<open>column_mappings.rs\<close>). Each is one index; writing replaces the row with the same key, listing returns all rows.
\<close>

section \<open>Settings\<close>

datatype metadata_setting_scope = GlobalScope | SchemaScope u64 | TableScope u64

record metadata_setting_row =
  ms_key :: rust_string
  ms_value :: rust_string
  ms_scope :: metadata_setting_scope

definition metadata_setting_row_global :: "rust_string \<Rightarrow> rust_string \<Rightarrow> metadata_setting_row" where
  "metadata_setting_row_global key val = \<lparr>ms_key = key, ms_value = val, ms_scope = GlobalScope\<rparr>"

definition metadata_setting_row_schema :: "rust_string \<Rightarrow> rust_string \<Rightarrow> u64 \<Rightarrow> metadata_setting_row" where
  "metadata_setting_row_schema key val schema_id = \<lparr>ms_key = key, ms_value = val, ms_scope = SchemaScope schema_id\<rparr>"

definition metadata_setting_row_table :: "rust_string \<Rightarrow> rust_string \<Rightarrow> u64 \<Rightarrow> metadata_setting_row" where
  "metadata_setting_row_table key val table_id = \<lparr>ms_key = key, ms_value = val, ms_scope = TableScope table_id\<rparr>"

definition metadata_setting_key :: "catalog_id \<Rightarrow> metadata_setting_scope \<Rightarrow> rust_string \<Rightarrow> bytes" where
  "metadata_setting_key catalog scope key =
     family_prefix catalog MetadataSetting @
     (case scope of
        GlobalScope \<Rightarrow> [103]
      | SchemaScope i \<Rightarrow> [115] @ u64_to_be_bytes i
      | TableScope i \<Rightarrow> [116] @ u64_to_be_bytes i) @ [slash] @ key"

definition decode_metadata_setting_key :: "bytes \<Rightarrow> catalog_id \<Rightarrow> (metadata_setting_scope \<times> rust_string) catalog_result" where
  "decode_metadata_setting_key bs catalog =
     (case strip_prefix (family_prefix catalog MetadataSetting) bs of
        None \<Rightarrow> Inl (Decode ''metadata setting key has invalid prefix'')
      | Some rest \<Rightarrow>
          rbind (if rest \<noteq> [] \<and> rest ! 0 = 103 \<and> length rest > 1 \<and> rest ! 1 = slash then Inr (GlobalScope, 2)
                 else if rest \<noteq> [] \<and> rest ! 0 = 115 \<and> length rest \<ge> 10 \<and> rest ! 9 = slash then
                   rbind (slice rest 1 9) (\<lambda>ib. rbind (be_u64 (Decode ''metadata schema scope is truncated'') ib) (\<lambda>i.
                     Inr (SchemaScope i, 10)))
                 else if rest \<noteq> [] \<and> rest ! 0 = 116 \<and> length rest \<ge> 10 \<and> rest ! 9 = slash then
                   rbind (slice rest 1 9) (\<lambda>ib. rbind (be_u64 (Decode ''metadata table scope is truncated'') ib) (\<lambda>i.
                     Inr (TableScope i, 10)))
                 else Inl (Decode ''metadata setting key has invalid scope'')) (\<lambda>(scope, key_start).
          rbind (slice_from rest key_start) (\<lambda>kb.
          rbind (str_from_utf8 (Decode ''metadata setting key is not utf8'') kb) (\<lambda>key. Inr (scope, key)))))"

definition stage_metadata_setting :: "kv_batch \<Rightarrow> catalog_id \<Rightarrow> metadata_setting_row \<Rightarrow> kv_batch" where
  "stage_metadata_setting b catalog row = batch_put b (metadata_setting_key catalog (ms_scope row) (ms_key row)) (ms_value row)"

definition set_metadata_setting :: "fake_kv \<Rightarrow> catalog_id \<Rightarrow> metadata_setting_row \<Rightarrow> unit kv_op" where
  "set_metadata_setting kv catalog row = commit_then kv (stage_metadata_setting batch_new catalog row) ()"

definition decode_metadata_setting :: "catalog_id \<Rightarrow> bytes \<Rightarrow> bytes \<Rightarrow> metadata_setting_row catalog_result" where
  "decode_metadata_setting catalog k v =
     rbind (decode_metadata_setting_key k catalog) (\<lambda>(scope, key).
     rbind (str_from_utf8 (Decode ''metadata setting value is not utf8'') v) (\<lambda>val.
       Inr \<lparr>ms_key = key, ms_value = val, ms_scope = scope\<rparr>))"

definition list_metadata_settings :: "fake_kv \<Rightarrow> catalog_id \<Rightarrow> metadata_setting_row list catalog_result" where
  "list_metadata_settings kv catalog =
     rbind (fake_scan_prefix kv (family_prefix catalog MetadataSetting) Forward None)
       (rmap (\<lambda>i. decode_metadata_setting catalog (ri_key i) (ri_value i)))"

section \<open>Column mappings\<close>

record name_mapping_column_row =
  nm_column_id :: column_id
  nm_source_name :: rust_string
  nm_target_field_id :: u64
  nm_parent_column :: "u64 option"
  nm_is_partition :: bool

record column_mapping_row =
  cm_mapping_id :: u64
  cm_table_id :: table_id
  cm_mapping_type :: rust_string
  cm_columns :: "name_mapping_column_row list"

definition column_mapping_row_new :: "u64 \<Rightarrow> table_id \<Rightarrow> rust_string \<Rightarrow> column_mapping_row" where
  "column_mapping_row_new mapping_id table_id mapping_type =
     \<lparr>cm_mapping_id = mapping_id, cm_table_id = table_id, cm_mapping_type = mapping_type, cm_columns = []\<rparr>"

definition column_mapping_key :: "catalog_id \<Rightarrow> u64 \<Rightarrow> bytes" where
  "column_mapping_key catalog mapping_id = family_prefix catalog ColumnMapping @ u64_to_be_bytes mapping_id"

definition encode_mapping_column :: "name_mapping_column_row \<Rightarrow> bytes" where
  "encode_mapping_column column =
     u64_to_be_bytes (nm_column_id column) @ encode_string (nm_source_name column) @ u64_to_be_bytes (nm_target_field_id column) @
     (case nm_parent_column column of
        Some parent \<Rightarrow> [1] @ u64_to_be_bytes parent
      | None \<Rightarrow> [0] @ u64_to_be_bytes 0) @ [if nm_is_partition column then 1 else 0]"

definition encode_mapping :: "column_mapping_row \<Rightarrow> bytes" where
  "encode_mapping row =
     [1] @ u64_to_be_bytes (cm_mapping_id row) @ u64_to_be_bytes (cm_table_id row) @ encode_string (cm_mapping_type row) @
     u32_to_be_bytes (word_of_nat (length (cm_columns row))) @ concat (map encode_mapping_column (cm_columns row))"

abbreviation mapping_truncated :: catalog_error where
  "mapping_truncated \<equiv> Decode ''truncated column mapping row''"

definition mapping_decode_u64 :: "u64 reader" where
  "mapping_decode_u64 bs =
     rbind (read_raw mapping_truncated 8 bs) (\<lambda>(raw, rest).
       rbind (be_u64 (Decode ''invalid length'') raw) (\<lambda>v. Inr (v, rest)))"

definition mapping_decode_u32 :: "u32 reader" where
  "mapping_decode_u32 bs =
     rbind (read_raw mapping_truncated 4 bs) (\<lambda>(raw, rest).
       rbind (be_u32 (Decode ''invalid length'') raw) (\<lambda>v. Inr (v, rest)))"

definition mapping_decode_byte :: "byte reader" where
  "mapping_decode_byte bs =
     rbind (read_raw mapping_truncated 1 bs) (\<lambda>(raw, rest).
       case raw of [] \<Rightarrow> Inl (Decode ''missing'') | v # _ \<Rightarrow> Inr (v, rest))"

definition mapping_decode_string :: "rust_string reader" where
  "mapping_decode_string bs =
     rbind (mapping_decode_u32 bs) (\<lambda>(len, rest).
     rbind (read_raw mapping_truncated (unat len) rest) (\<lambda>(raw, rest').
     rbind (str_from_utf8 (Decode ''invalid utf-8'') raw) (\<lambda>s. Inr (s, rest'))))"

definition decode_mapping_column :: "name_mapping_column_row reader" where
  "decode_mapping_column bs =
     rbind (mapping_decode_u64 bs) (\<lambda>(column_id, bs1).
     rbind (mapping_decode_string bs1) (\<lambda>(source_name, bs2).
     rbind (mapping_decode_u64 bs2) (\<lambda>(target_field_id, bs3).
     rbind (mapping_decode_byte bs3) (\<lambda>(has_parent, bs4).
     rbind (mapping_decode_u64 bs4) (\<lambda>(parent_value, bs5).
     rbind (mapping_decode_byte bs5) (\<lambda>(is_partition, bs6).
     rbind (if has_parent = 0 then Inr None else if has_parent = 1 then Inr (Some parent_value)
            else Inl (Decode ''invalid mapping parent marker'')) (\<lambda>parent_column.
     rbind (if is_partition = 0 then Inr False else if is_partition = 1 then Inr True
            else Inl (Decode ''invalid mapping partition marker'')) (\<lambda>partition.
       Inr (\<lparr>nm_column_id = column_id, nm_source_name = source_name, nm_target_field_id = target_field_id,
             nm_parent_column = parent_column, nm_is_partition = partition\<rparr>, bs6)))))))))"

text \<open>Bytes after the last column are ignored.\<close>

definition column_mapping_row_decode :: "bytes \<Rightarrow> column_mapping_row catalog_result" where
  "column_mapping_row_decode bs =
     (case bs of
        [] \<Rightarrow> Inl (Decode ''empty column mapping row'')
      | version # bs0 \<Rightarrow>
          if version \<noteq> 1 then Inl (Decode ''unsupported column mapping row version'')
          else
            rbind (mapping_decode_u64 bs0) (\<lambda>(mapping_id, bs1).
            rbind (mapping_decode_u64 bs1) (\<lambda>(table_id, bs2).
            rbind (mapping_decode_string bs2) (\<lambda>(mapping_type, bs3).
            rbind (mapping_decode_u32 bs3) (\<lambda>(column_count, bs4).
            rbind (read_many (unat column_count) decode_mapping_column bs4) (\<lambda>(columns, _).
              Inr \<lparr>cm_mapping_id = mapping_id, cm_table_id = table_id, cm_mapping_type = mapping_type, cm_columns = columns\<rparr>))))))"

definition put_column_mappings :: "fake_kv \<Rightarrow> catalog_id \<Rightarrow> column_mapping_row list \<Rightarrow> unit kv_op" where
  "put_column_mappings kv catalog rows =
     commit_then kv (fold (\<lambda>row b. batch_put b (column_mapping_key catalog (cm_mapping_id row)) (encode_mapping row)) rows batch_new) ()"

definition list_column_mappings :: "fake_kv \<Rightarrow> catalog_id \<Rightarrow> u64 option \<Rightarrow> column_mapping_row list catalog_result" where
  "list_column_mappings kv catalog start_from =
     rbind (fake_scan_prefix kv (family_prefix catalog ColumnMapping) Forward None) (\<lambda>page.
     rbind (rmap (\<lambda>i. column_mapping_row_decode (ri_value i)) page) (\<lambda>rows.
       let sorted = sort_key cm_mapping_id rows
       in Inr (case start_from of None \<Rightarrow> sorted | Some start \<Rightarrow> filter (\<lambda>row. cm_mapping_id row \<ge> start) sorted)))"

section \<open>Round trips\<close>

definition setting_ok :: "metadata_setting_row \<Rightarrow> bool" where
  "setting_ok row \<longleftrightarrow> utf8_valid (ms_key row) \<and> utf8_valid (ms_value row)"

lemma decode_metadata_setting_stored:
  "setting_ok row \<Longrightarrow>
   decode_metadata_setting c (metadata_setting_key c (ms_scope row) (ms_key row)) (ms_value row) = Inr row"
  by (cases "ms_scope row")
     (simp_all add: setting_ok_def decode_metadata_setting_def decode_metadata_setting_key_def metadata_setting_key_def slice_def
       slice_from_def nth_append be_u64_def str_from_utf8_def)

definition mapping_ok :: "column_mapping_row \<Rightarrow> bool" where
  "mapping_ok row \<longleftrightarrow> string_ok (cm_mapping_type row) \<and> (\<forall>col \<in> set (cm_columns row). string_ok (nm_source_name col)) \<and>
     length (cm_columns row) < 2 ^ 32"

lemma mapping_reads [simp]:
  "mapping_decode_u64 (u64_to_be_bytes v @ rest) = Inr (v, rest)"
  "mapping_decode_u32 (u32_to_be_bytes w @ rest) = Inr (w, rest)"
  "mapping_decode_byte (b # rest) = Inr (b, rest)"
  "string_ok s \<Longrightarrow> mapping_decode_string (encode_string s @ rest) = Inr (s, rest)"
  by (simp_all add: mapping_decode_u64_def mapping_decode_u32_def mapping_decode_byte_def mapping_decode_string_def read_raw_def
      be_u64_def be_u32_def encode_string_def len_u32_def string_ok_def unat_len_word str_from_utf8_def)

lemma decode_mapping_column_stored:
  "string_ok (nm_source_name col) \<Longrightarrow> decode_mapping_column (encode_mapping_column col @ rest) = Inr (col, rest)"
  by (cases "nm_parent_column col") (simp_all add: decode_mapping_column_def encode_mapping_column_def)

lemma read_mapping_columns:
  "\<forall>col \<in> set cols. string_ok (nm_source_name col) \<Longrightarrow>
   read_many (length cols) decode_mapping_column (concat (map encode_mapping_column cols) @ rest) = Inr (cols, rest)"
  by (induction cols) (simp_all add: decode_mapping_column_stored)

lemma column_mapping_roundtrip: "mapping_ok row \<Longrightarrow> column_mapping_row_decode (encode_mapping row) = Inr row"
  using read_mapping_columns [of "cm_columns row" "[]"]
  by (simp add: mapping_ok_def column_mapping_row_decode_def encode_mapping_def unat_len_word)

section \<open>The stored settings\<close>

interpretation settings: stored_index "family_prefix c MetadataSetting" "\<lambda>r. metadata_setting_key c (ms_scope r) (ms_key r)"
  ms_value setting_ok "decode_metadata_setting c" for c
  by unfold_locales (simp add: metadata_setting_key_def, erule decode_metadata_setting_stored)

lemma metadata_setting_key_eq [simp]: "metadata_setting_key c s k = metadata_setting_key c s' k' \<longleftrightarrow> s = s' \<and> k = k'"
  by (cases s; cases s') (auto simp: metadata_setting_key_def)

text \<open>The decoder accepts exactly the keys that the encoder produces.\<close>

lemma decode_metadata_setting_key_only:
  assumes "decode_metadata_setting_key k c = Inr (scope, name)"
  shows "k = metadata_setting_key c scope name \<and> utf8_valid name"
proof -
  from assms obtain rest where k: "k = family_prefix c MetadataSetting @ rest"
    by (auto simp: decode_metadata_setting_key_def strip_prefix_Some_iff split: option.splits)
  have split10: "rest = rest ! 0 # take 8 (drop 1 rest) @ rest ! 9 # drop 10 rest" if "10 \<le> length rest"
    using that by (intro nth_equalityI) (auto simp: nth_append nth_Cons split: nat.splits intro!: arg_cong [of _ _ "(!) rest"])
  have split2: "rest = rest ! 0 # rest ! 1 # drop 2 rest" if "1 < length rest"
    using that by (intro nth_equalityI) (auto simp: nth_Cons split: nat.splits)
  show ?thesis
    using assms split10 split2 unfolding k
    by (auto simp: decode_metadata_setting_key_def metadata_setting_key_def slice_def slice_from_def be_u64_def str_from_utf8_def
        rbind_Inr_iff split: if_splits)
qed

lemma decode_metadata_setting_only:
  "decode_metadata_setting c k v = Inr row \<Longrightarrow>
   k = metadata_setting_key c (ms_scope row) (ms_key row) \<and> v = ms_value row \<and> setting_ok row"
  by (auto simp: decode_metadata_setting_def rbind_Inr_iff str_from_utf8_def setting_ok_def
      dest!: decode_metadata_setting_key_only split: if_splits)

lemma rmap_inverse:
  assumes "rmap f xs = Inr ys" "\<And>x y. f x = Inr y \<Longrightarrow> x = g y \<and> P y"
  shows "xs = map g ys" "\<forall>y \<in> set ys. P y"
  using assms by (induction xs arbitrary: ys) (auto simp: rbind_Inr_iff)

text \<open>A listing that succeeds shows the whole contents of the family.\<close>

lemma listed_settings_hold:
  assumes "fake_wf kv" "list_metadata_settings kv c = Inr rows"
  shows "settings.holds c (fake_get kv) (set rows)"
proof -
  let ?p = "family_prefix c MetadataSetting" and ?e = "\<lambda>r. (metadata_setting_key c (ms_scope r) (ms_key r), ms_value r)"
  let ?es = "filter (\<lambda>e. prefix ?p (fst e)) (items kv)"
  have wf: "btree_wf (items kv)" using assms(1) by (simp add: fake_wf_def)
  have read: "rmap (\<lambda>e. decode_metadata_setting c (fst e) (snd e)) ?es = Inr rows"
    using assms(2) fake.prefix_scan [OF assms(1), of slash "catalog_prefix c @ [family_code MetadataSetting]" Forward None]
    by (simp add: list_metadata_settings_def fake_scan_prefix_def family_prefix_def rmap_map to_item_def)
  have only: "e = ?e r \<and> setting_ok r" if "decode_metadata_setting c (fst e) (snd e) = Inr r" for e r
    using decode_metadata_setting_only [OF that] by (simp add: prod_eq_iff)
  have es: "?es = map ?e rows" using read only by (rule rmap_inverse(1))
  have ok: "\<forall>r \<in> set rows. setting_ok r" using read only by (rule rmap_inverse(2))
  have entry: "fake_get kv k = Some v \<longleftrightarrow> (k, v) \<in> ?e ` set rows" if "prefix ?p k" for k v
  proof -
    have "fake_get kv k = Some v \<longleftrightarrow> (k, v) \<in> set ?es"
      using that by (simp add: fake_get_def btree_mem_iff [OF wf])
    then show ?thesis unfolding es by simp
  qed
  have "a = b" if "a \<in> set rows" "b \<in> set rows" "fst (?e a) = fst (?e b)" for a b
  proof -
    have "fake_get kv (fst (?e a)) = Some (ms_value a)" "fake_get kv (fst (?e b)) = Some (ms_value b)"
      using that(1,2) by (auto simp: entry settings.in_space)
    with that(3) show ?thesis by simp
  qed
  then show ?thesis using ok entry by (auto simp: settings.holds_def inj_on_def)
qed

lemma list_settings_rows:
  assumes "fake_wf kv" "settings.holds c (fake_get kv) S"
  shows "list_metadata_settings kv c = Inr (settings.rows_in c (prefix (family_prefix c MetadataSetting)) S)"
  using settings.scan_prefix_rows [OF assms, of "family_prefix c MetadataSetting" "catalog_prefix c @ [family_code MetadataSetting]" slash]
    settings.decode_stored [OF assms(2) settings.holds_finite [OF assms(2)]]
  by (simp add: list_metadata_settings_def family_prefix_def)

section \<open>The stored column mappings\<close>

interpretation mappings: stored_index "family_prefix c ColumnMapping" "\<lambda>r. column_mapping_key c (cm_mapping_id r)"
  encode_mapping mapping_ok "\<lambda>k. column_mapping_row_decode" for c
  by unfold_locales (simp_all add: column_mapping_key_def column_mapping_roundtrip)

lemma column_mapping_key_order [simp]:
  "column_mapping_key c i = column_mapping_key c j \<longleftrightarrow> i = j" "column_mapping_key c i < column_mapping_key c j \<longleftrightarrow> i < j"
  by (simp_all add: column_mapping_key_def)

text \<open>The store as a map from mapping ids to rows.\<close>

definition stored_mappings :: "fake_kv \<Rightarrow> catalog_id \<Rightarrow> (u64 \<rightharpoonup> column_mapping_row) \<Rightarrow> bool" where
  "stored_mappings kv c M \<longleftrightarrow> fake_wf kv \<and> (\<forall>i row. M i = Some row \<longrightarrow> cm_mapping_id row = i) \<and>
     mappings.holds c (fake_get kv) (ran M)"

definition put_mappings :: "column_mapping_row list \<Rightarrow> (u64 \<rightharpoonup> column_mapping_row) \<Rightarrow> u64 \<rightharpoonup> column_mapping_row" where
  "put_mappings rows M = fold (\<lambda>row M. M(cm_mapping_id row \<mapsto> row)) rows M"

definition mappings_from :: "u64 option \<Rightarrow> (u64 \<rightharpoonup> column_mapping_row) \<Rightarrow> column_mapping_row list" where
  "mappings_from start M = map (\<lambda>i. the (M i)) (filter (\<lambda>i. case start of None \<Rightarrow> True | Some s \<Rightarrow> s \<le> i) (sorted_list_of_set (dom M)))"

lemma ran_by_id:
  assumes "\<And>i row. M i = Some row \<Longrightarrow> cm_mapping_id row = i"
  shows "ran (M(cm_mapping_id row \<mapsto> row)) = insert row {y \<in> ran M. cm_mapping_id y \<noteq> cm_mapping_id row}"
proof (rule set_eqI)
  fix y
  show "y \<in> ran (M(cm_mapping_id row \<mapsto> row)) \<longleftrightarrow> y \<in> insert row {y \<in> ran M. cm_mapping_id y \<noteq> cm_mapping_id row}"
  proof (cases "y = row")
    case True
    then show ?thesis by (auto simp: ran_def)
  next
    case False
    then have "y \<in> ran (M(cm_mapping_id row \<mapsto> row)) \<longleftrightarrow> (\<exists>i. i \<noteq> cm_mapping_id row \<and> M i = Some y)"
      by (auto simp: ran_def)
    also have "\<dots> \<longleftrightarrow> y \<in> ran M \<and> cm_mapping_id y \<noteq> cm_mapping_id row"
      unfolding ran_def mem_Collect_eq using assms [of _ y] by blast
    finally show ?thesis using False by simp
  qed
qed

lemma staged_mappings_hold:
  assumes "mappings.holds c m (ran M)" "\<And>i row. M i = Some row \<Longrightarrow> cm_mapping_id row = i" "\<forall>row \<in> set rows. mapping_ok row"
  shows "mappings.holds c (fold (\<lambda>row m. m(column_mapping_key c (cm_mapping_id row) \<mapsto> encode_mapping row)) rows m) (ran (put_mappings rows M))"
    and "put_mappings rows M i = Some row \<Longrightarrow> cm_mapping_id row = i"
proof -
  have "mappings.holds c (fold (\<lambda>row m. m(column_mapping_key c (cm_mapping_id row) \<mapsto> encode_mapping row)) rows m) (ran (put_mappings rows M)) \<and>
    (\<forall>i row. put_mappings rows M i = Some row \<longrightarrow> cm_mapping_id row = i)"
    using assms
  proof (induction rows arbitrary: m M)
    case (Cons row rows)
    have "mappings.holds c (m(column_mapping_key c (cm_mapping_id row) \<mapsto> encode_mapping row)) (ran (M(cm_mapping_id row \<mapsto> row)))"
      using mappings.holds_put [OF Cons.prems(1), of row] Cons.prems(3) by (simp add: ran_by_id [OF Cons.prems(2)])
    moreover have "cm_mapping_id y = i" if "(M(cm_mapping_id row \<mapsto> row)) i = Some y" for i y
      using that Cons.prems(2) [of i y] by (cases "i = cm_mapping_id row") simp_all
    moreover have "\<forall>row \<in> set rows. mapping_ok row" using Cons.prems(3) by simp
    ultimately have IH: "mappings.holds c (fold (\<lambda>row m. m(column_mapping_key c (cm_mapping_id row) \<mapsto> encode_mapping row)) rows
        (m(column_mapping_key c (cm_mapping_id row) \<mapsto> encode_mapping row))) (ran (put_mappings rows (M(cm_mapping_id row \<mapsto> row)))) \<and>
      (\<forall>i y. put_mappings rows (M(cm_mapping_id row \<mapsto> row)) i = Some y \<longrightarrow> cm_mapping_id y = i)"
      by (rule Cons.IH)
    have "put_mappings (row # rows) M = put_mappings rows (M(cm_mapping_id row \<mapsto> row))" by (simp add: put_mappings_def)
    with IH show ?case unfolding fold.simps comp_def by simp
  qed (simp add: put_mappings_def)
  then show "mappings.holds c (fold (\<lambda>row m. m(column_mapping_key c (cm_mapping_id row) \<mapsto> encode_mapping row)) rows m) (ran (put_mappings rows M))"
    and "put_mappings rows M i = Some row \<Longrightarrow> cm_mapping_id row = i" by blast+
qed

lemma staged_mappings_batch:
  "checks (fold (\<lambda>row b. batch_put b (column_mapping_key c (cm_mapping_id row)) (encode_mapping row)) rows b) = checks b"
  "apply_batch (fold (\<lambda>row b. batch_put b (column_mapping_key c (cm_mapping_id row)) (encode_mapping row)) rows b) m =
     fold (\<lambda>row m. m(column_mapping_key c (cm_mapping_id row) \<mapsto> encode_mapping row)) rows (apply_batch b m)"
  by (induction rows arbitrary: b) simp_all

lemma stored_mappings_finite: "stored_mappings kv c M \<Longrightarrow> finite (dom M)"
proof -
  assume s: "stored_mappings kv c M"
  then have "finite (ran M)" using mappings.holds_finite [of c kv "ran M"] by (simp add: stored_mappings_def)
  moreover have "dom M \<subseteq> cm_mapping_id ` ran M" using s by (force simp: stored_mappings_def ran_def dom_def)
  ultimately show ?thesis by (metis finite_imageI finite_subset)
qed

lemma list_column_mappings_exact:
  assumes "stored_mappings kv c M"
  shows "list_column_mappings kv c start = Inr (mappings_from start M)"
proof -
  let ?p = "family_prefix c ColumnMapping" and ?rows = "map (\<lambda>i. the (M i)) (sorted_list_of_set (dom M))"
  have wf: "fake_wf kv" and h: "mappings.holds c (fake_get kv) (ran M)" and ids: "\<And>i row. M i = Some row \<Longrightarrow> cm_mapping_id row = i"
    using assms by (simp_all add: stored_mappings_def)
  note fin = stored_mappings_finite [OF assms]
  have id: "cm_mapping_id (the (M i)) = i" if "i \<in> dom M" for i using that ids by auto
  have by_id: "map cm_mapping_id ?rows = sorted_list_of_set (dom M)"
    using fin id by (auto intro!: map_idI)
  have "set ?rows = {x \<in> ran M. prefix ?p (column_mapping_key c (cm_mapping_id x))}"
    using fin by (force simp: column_mapping_key_def ran_def dom_def)
  moreover have "sorted_wrt (<) (map cm_mapping_id ?rows)" unfolding by_id by (rule strict_sorted_list_of_set)
  then have "sorted_wrt (\<lambda>a b. column_mapping_key c (cm_mapping_id a) < column_mapping_key c (cm_mapping_id b)) ?rows"
    unfolding sorted_wrt_map column_mapping_key_order .
  ultimately have rows: "?rows = mappings.rows_in c (prefix ?p) (ran M)"
    using mappings.rows_in_unique [OF h mappings.holds_finite [OF h]] by blast
  have "fake_scan_prefix kv ?p Forward None = Inr (map (\<lambda>x. to_item (column_mapping_key c (cm_mapping_id x), encode_mapping x)) ?rows)"
    using mappings.scan_prefix_rows [OF wf h, of ?p "catalog_prefix c @ [family_code ColumnMapping]" slash] unfolding rows
    by (simp add: family_prefix_def)
  moreover have "rmap (\<lambda>i. column_mapping_row_decode (ri_value i))
      (map (\<lambda>x. to_item (column_mapping_key c (cm_mapping_id x), encode_mapping x)) ?rows) = Inr ?rows"
    unfolding rows by (rule mappings.decode_stored [OF h mappings.holds_finite [OF h]])
  moreover have "sort_key cm_mapping_id ?rows = ?rows"
    by (rule sort_key_id_if_sorted, unfold by_id) simp
  moreover have "filter (\<lambda>row. cm_mapping_id row \<ge> s) ?rows = map (\<lambda>i. the (M i)) (filter (\<lambda>i. s \<le> i) (sorted_list_of_set (dom M)))" for s
    unfolding filter_map comp_def using fin id by (intro arg_cong [of _ _ "map _"] filter_cong) simp_all
  ultimately show ?thesis
    by (cases start) (simp_all add: list_column_mappings_def mappings_from_def)
qed

section \<open>Properties\<close>

text \<open>C38: Setting a value succeeds on every store whose settings can be listed: afterwards the listing has the new row in the
  place of the row with the same scope and name, if there was one, all other rows unchanged, and no two rows share a scope
  and a name (rows come in the order of their keys: catalog-wide settings first, then schemas, then tables).\<close>
theorem metadata_setting_set_then_list:
  assumes "fake_wf kv" "list_metadata_settings kv c = Inr rows" "setting_ok row"
  shows "\<exists>kv' rows'. set_metadata_setting kv c row = (Inr (), kv') \<and> fake_wf kv' \<and> list_metadata_settings kv' c = Inr rows' \<and>
    set rows' = insert row {r \<in> set rows. (ms_scope r, ms_key r) \<noteq> (ms_scope row, ms_key row)} \<and>
    sorted_wrt (\<lambda>a b. metadata_setting_key c (ms_scope a) (ms_key a) < metadata_setting_key c (ms_scope b) (ms_key b)) rows'"
proof -
  let ?S = "insert row {r \<in> set rows. (ms_scope r, ms_key r) \<noteq> (ms_scope row, ms_key row)}"
  obtain kv' where kv': "set_metadata_setting kv c row = (Inr (), kv')" "fake_wf kv'"
    "fake_get kv' = (fake_get kv)(metadata_setting_key c (ms_scope row) (ms_key row) \<mapsto> ms_value row)"
    using commit_then_unchecked [of "stage_metadata_setting batch_new c row" kv "()"] assms(1)
    by (auto simp: set_metadata_setting_def stage_metadata_setting_def)
  have h: "settings.holds c (fake_get kv') ?S"
    using settings.holds_put [OF listed_settings_hold [OF assms(1,2)] assms(3)] unfolding kv'(3) by simp
  note spec = settings.rows_in_spec [OF h settings.holds_finite [OF h], of "prefix (family_prefix c MetadataSetting)"]
  have "{x \<in> ?S. prefix (family_prefix c MetadataSetting) (metadata_setting_key c (ms_scope x) (ms_key x))} = ?S"
    by (auto simp: metadata_setting_key_def)
  note spec' = spec(1,3) [unfolded this]
  show ?thesis
    by (intro exI [of _ kv'] exI conjI, rule kv'(1), rule kv'(2), rule list_settings_rows [OF kv'(2) h], rule spec'(1), rule spec'(2))
qed

theorem metadata_setting_set_then_list_witness:
  "\<exists>kv' rows'. set_metadata_setting fake_new 7 (metadata_setting_row_global [97] [49]) = (Inr (), kv') \<and> fake_wf kv' \<and>
     list_metadata_settings kv' 7 = Inr rows' \<and> set rows' = {metadata_setting_row_global [97] [49]}"
proof -
  let ?r = "metadata_setting_row_global [97] [49]"
  have wf: "fake_wf fake_new" and empty: "fake_get fake_new = Map.empty"
    by (simp_all add: fake_wf_def fake_new_def btree_wf_def fake_get_def [abs_def])
  have none: "list_metadata_settings fake_new 7 = Inr []"
    using list_settings_rows [OF wf, of 7 "{}"] settings.holds_empty [of 7] by (simp add: empty settings.rows_in_def)
  have ok: "setting_ok ?r" by code_simp
  from metadata_setting_set_then_list [OF wf none ok] show ?thesis by auto
qed


text \<open>C39: The column mappings of a catalog behave as a map from mapping ids: writing a list of rows succeeds and overrides the
  rows with those ids (the last row of the list wins), and listing from an id returns the rows with that id or a larger
  one, in the order of the ids.\<close>
theorem column_mappings_refine_map:
  assumes "stored_mappings kv c M" "\<forall>row \<in> set rows. mapping_ok row"
  shows "\<exists>kv'. put_column_mappings kv c rows = (Inr (), kv') \<and> stored_mappings kv' c (put_mappings rows M) \<and>
    (\<forall>start. list_column_mappings kv' c start = Inr (mappings_from start (put_mappings rows M)))"
proof -
  let ?b = "fold (\<lambda>row b. batch_put b (column_mapping_key c (cm_mapping_id row)) (encode_mapping row)) rows batch_new"
  have wf: "fake_wf kv" and h: "mappings.holds c (fake_get kv) (ran M)" and ids: "\<And>i row. M i = Some row \<Longrightarrow> cm_mapping_id row = i"
    using assms(1) by (simp_all add: stored_mappings_def)
  obtain kv' where kv': "put_column_mappings kv c rows = (Inr (), kv')" "fake_wf kv'" "fake_get kv' = apply_batch ?b (fake_get kv)"
    using commit_then_unchecked [of ?b kv "()"] wf by (auto simp: put_column_mappings_def staged_mappings_batch(1))
  have "stored_mappings kv' c (put_mappings rows M)"
    using staged_mappings_hold [OF h ids assms(2)] kv'(2) unfolding stored_mappings_def kv'(3) staged_mappings_batch(2) by simp
  with kv'(1) list_column_mappings_exact [OF this] show ?thesis by blast
qed

theorem column_mappings_refine_map_witness:
  "\<exists>kv'. put_column_mappings fake_new 7 [column_mapping_row_new 2 1 [97], column_mapping_row_new 1 1 [98], column_mapping_row_new 2 1 [99]] = (Inr (), kv') \<and>
     list_column_mappings kv' 7 (Some 2) = Inr [column_mapping_row_new 2 1 [99]]"
proof -
  let ?rows = "[column_mapping_row_new 2 1 [97], column_mapping_row_new 1 1 [98], column_mapping_row_new 2 1 [99]]"
  have s: "stored_mappings fake_new 7 Map.empty"
    using mappings.holds_empty [of 7] by (simp add: stored_mappings_def fake_wf_def fake_new_def btree_wf_def fake_get_def [abs_def])
  have ok: "\<forall>row \<in> set ?rows. mapping_ok row"
  proof -
    have "utf8_valid [97]" "utf8_valid [98]" "utf8_valid [99]" by code_simp+
    then show ?thesis by (simp add: mapping_ok_def column_mapping_row_new_def string_ok_def)
  qed
  have "mappings_from (Some 2) (put_mappings ?rows Map.empty) = [column_mapping_row_new 2 1 [99]]"
  proof -
    have "sorted_list_of_set {1, 2 :: u64} = [1, 2]" "\<not> (2 :: u64) \<le> 1" by (simp, code_simp)
    moreover have "dom (put_mappings ?rows Map.empty) = {1, 2}" by (auto simp: put_mappings_def column_mapping_row_new_def)
    ultimately show ?thesis by (simp add: mappings_from_def put_mappings_def column_mapping_row_new_def)
  qed
  moreover from column_mappings_refine_map [OF s ok] obtain kv' where "put_column_mappings fake_new 7 ?rows = (Inr (), kv')"
    "\<forall>start. list_column_mappings kv' 7 start = Inr (mappings_from start (put_mappings ?rows Map.empty))" by blast
  ultimately show ?thesis by (intro exI [of _ kv']) simp
qed

end
