(* ===== verification/Cat_Table_Drop.thy ===== *)
theory Cat_Table_Drop
  imports Cat_Table_History Cat_File_History Cat_Maintenance
begin

text \<open>
  Dropping tables, \<open>table_drop.rs\<close>. One commit ends the current version of each table, ends every current data file
  of the table together with its delete file, logs the removals and schedules the files for cleanup. The theory
  composes the effects of the table store and of the data file store in one batch.
\<close>

section \<open>The operation\<close>

record dropped_table =
  dt_table :: table_row
  dt_expired_data_file_count :: nat
  dt_expired_delete_file_count :: nat

fun reject_duplicates :: "table_id set \<Rightarrow> table_id list \<Rightarrow> unit catalog_result" where
  "reject_duplicates seen [] = Inr ()"
| "reject_duplicates seen (t # ts) =
     (if t \<in> seen then Inl (InvalidMutation ''table is listed more than once for drop'') else reject_duplicates (insert t seen) ts)"

definition reject_duplicate_table_ids :: "table_id list \<Rightarrow> unit catalog_result" where
  "reject_duplicate_table_ids table_ids = reject_duplicates {} table_ids"

text \<open>The body of the loop over the files of a table, with the two counters.\<close>

definition stage_drop_attached_file ::
    "since_epoch \<Rightarrow> fake_kv \<Rightarrow> catalog_id \<Rightarrow> catalog_order_id \<Rightarrow> attached_data_file \<Rightarrow> kv_batch \<times> nat \<times> nat \<Rightarrow>
     (kv_batch \<times> nat \<times> nat) catalog_result" where
  "stage_drop_attached_file clock kv catalog ord attached_file = (\<lambda>(b, data_files, delete_files).
     rbind (stage_expire_current_data_file kv b catalog (df_data_file_id (ad_data_file attached_file)) ord) (\<lambda>(b1, data_file).
       let b2 = stage_scheduled_data_file_cleanup clock b1 catalog (df_data_file_id data_file) in
       case ad_delete_file attached_file of
         None \<Rightarrow> Inr (b2, data_files + 1, delete_files)
       | Some delete_file \<Rightarrow>
           rbind (stage_expire_current_delete_file kv b2 catalog data_file (xf_delete_file_id delete_file) ord) (\<lambda>(b3, _).
             Inr (stage_scheduled_delete_file_cleanup clock b3 catalog (df_table_id data_file) (xf_delete_file_id delete_file),
                  data_files + 1, delete_files + 1))))"

definition stage_drop_table ::
    "since_epoch \<Rightarrow> fake_kv \<Rightarrow> catalog_id \<Rightarrow> catalog_order_id \<Rightarrow> table_id \<Rightarrow> kv_batch \<times> dropped_table list \<Rightarrow>
     (kv_batch \<times> dropped_table list) catalog_result" where
  "stage_drop_table clock kv catalog ord table_id = (\<lambda>(b, dropped).
     rbind (load_current_table_row kv catalog table_id) (\<lambda>found.
       case found of
         None \<Rightarrow> Inl (NotFound ''table'')
       | Some table \<Rightarrow>
           rbind (list_current_data_files_with_deletes kv catalog table_id) (\<lambda>files.
           rbind (rfold (stage_drop_attached_file clock kv catalog ord) files (b, 0, 0)) (\<lambda>(b1, data_files, delete_files).
             let table1 = table\<lparr>tr_validity := (tr_validity table)\<lparr>end_order := Some ord\<rparr>\<rparr>;
                 b2 = batch_put b1 (table_object_key catalog (tr_table_id table1) (begin_order (tr_validity table1))) (table_row_encode table1);
                 b3 = stage_table_visibility_row b2 catalog table1;
                 b4 = stage_remove_current_table_row b3 catalog (tr_table_id table1)
             in Inr (b4, dropped @ [\<lparr>dt_table = table1, dt_expired_data_file_count = data_files,
                  dt_expired_delete_file_count = delete_files\<rparr>])))))"

definition commit_drop_tables_at ::
    "since_epoch \<Rightarrow> fake_kv \<Rightarrow> catalog_id \<Rightarrow> table_id list \<Rightarrow> raw_snapshot_sequence option \<Rightarrow> dropped_table list kv_op" where
  "commit_drop_tables_at clock kv catalog table_ids commit_raw_snapshot =
     (if table_ids = [] then (Inr [], kv)
      else attempt kv (reject_duplicate_table_ids table_ids) (\<lambda>_.
        attempt kv (latest_snapshot kv catalog) (\<lambda>found.
          case found of
            None \<Rightarrow> (Inl (NotFound ''catalog snapshot''), kv)
          | Some latest \<Rightarrow>
              let (ord, kv1) = fake_generated_order_id kv;
                  sequence = (case commit_raw_snapshot of Some s \<Rightarrow> s | None \<Rightarrow> raw_sequence_next (sn_sequence latest));
                  snapshot = snapshot_row_new (current_timestamp_micros clock) ord sequence;
                  b = stage_snapshot batch_new catalog snapshot
              in attempt kv1 (stage_next_schema_version kv1 b catalog snapshot) (\<lambda>b1.
                 attempt kv1 (rfold (stage_drop_table clock kv1 catalog ord) table_ids (b1, [])) (\<lambda>(b2, dropped).
                   commit_then kv1 b2 dropped)))))"

definition commit_drop_tables :: "since_epoch \<Rightarrow> fake_kv \<Rightarrow> catalog_id \<Rightarrow> table_id list \<Rightarrow> dropped_table list kv_op" where
  "commit_drop_tables clock kv catalog table_ids = commit_drop_tables_at clock kv catalog table_ids None"

lemma reject_duplicates_iff:
  "reject_duplicates seen ts = (if distinct ts \<and> set ts \<inter> seen = {} then Inr ()
     else Inl (InvalidMutation ''table is listed more than once for drop''))"
  by (induction ts arbitrary: seen) auto

section \<open>What a drop does to the contents\<close>

abbreviation end_files :: "catalog_order_id \<Rightarrow> data_file_row set \<Rightarrow> data_file_row set \<Rightarrow> data_file_row set" where
  "end_files ord R S \<equiv> (S - R) \<union> ended_at ord ` R"

abbreviation end_tables :: "catalog_order_id \<Rightarrow> table_row set \<Rightarrow> table_row set \<Rightarrow> table_row set" where
  "end_tables ord P T \<equiv> (T - P) \<union> ended ord ` P"

abbreviation removals :: "catalog_order_id \<Rightarrow> data_file_row set \<Rightarrow> data_file_change set" where
  "removals ord R \<equiv> (\<lambda>r. change_of r ord Removed) ` R"

text \<open>The keys a drop may touch besides the snapshot and the schema version.\<close>

definition drop_side :: "catalog_id \<Rightarrow> bytes set" where
  "drop_side c = {k. \<exists>f \<in> {EndOrder, DeleteFile, CurrentDeleteFile, DeleteFileTimeline, ScheduledCleanup}. prefix (family_prefix c f) k}"

definition drop_space :: "catalog_id \<Rightarrow> bytes set" where
  "drop_space c = table_space c \<union> file_space c \<union> change_space c \<union> drop_side c"

lemma drop_spaces_apart:
  "k \<in> file_space c \<Longrightarrow> k \<notin> drop_side c" "k \<in> change_space c \<Longrightarrow> k \<notin> drop_side c" "k \<in> table_space c \<Longrightarrow> k \<notin> drop_side c"
  "k \<in> table_space c \<Longrightarrow> k \<notin> file_space c" "k \<in> table_space c \<Longrightarrow> k \<notin> change_space c" "k \<in> file_space c \<Longrightarrow> k \<notin> change_space c"
  using table_space_family [of k c]
  by (auto simp: file_space_def change_space_def drop_side_def dest: family_prefix_unique)

lemma drop_space_apart:
  "k \<in> version_space c \<or> k \<in> snapshot_space c \<Longrightarrow> k \<notin> drop_space c"
proof -
  have other: "prefix (family_prefix c f) k \<Longrightarrow> f \<noteq> g \<Longrightarrow> \<not> prefix (family_prefix c g) k" for f g
    using family_prefix_unique by blast
  assume "k \<in> version_space c \<or> k \<in> snapshot_space c"
  then have "k \<notin> table_space c" using spaces_apart by blast
  moreover from \<open>k \<in> version_space c \<or> k \<in> snapshot_space c\<close>
  have "prefix (family_prefix c MetadataVersion) k \<or> prefix (family_prefix c Snapshot) k \<or> prefix (family_prefix c SnapshotByTimestamp) k"
    using version_space_family snapshot_space_family snapshot_cells_family by blast
  then have "k \<notin> file_space c \<union> change_space c \<union> drop_side c"
    unfolding file_space_def change_space_def drop_side_def
    by (elim disjE) (auto dest: other)
  ultimately show ?thesis by (simp add: drop_space_def)
qed

text \<open>An effect that ends the files \<open>R\<close> and the table versions \<open>P\<close>.\<close>

definition drop_effect ::
    "catalog_id \<Rightarrow> catalog_order_id \<Rightarrow> data_file_row set \<Rightarrow> table_row set \<Rightarrow> ((bytes \<rightharpoonup> bytes) \<Rightarrow> (bytes \<rightharpoonup> bytes)) \<Rightarrow> bool" where
  "drop_effect c ord R P f \<longleftrightarrow> (\<forall>r \<in> R. is_current r) \<and> (\<forall>p \<in> P. is_open p) \<and>
     (\<forall>m k. k \<notin> drop_space c \<longrightarrow> f m k = m k) \<and>
     (\<forall>m S. files_are m c S \<longrightarrow> R \<subseteq> S \<longrightarrow> files_are (f m) c (end_files ord R S)) \<and>
     (\<forall>m C. changes_are m c C \<longrightarrow> changes_are (f m) c (C \<union> removals ord R)) \<and>
     (\<forall>m T. tables_are m c T \<longrightarrow> P \<subseteq> T \<longrightarrow> tables_are (f m) c (end_tables ord P T))"

lemma drop_effect_side:
  assumes "\<And>m k. k \<notin> drop_side c \<Longrightarrow> f m k = m k"
  shows "drop_effect c ord {} {} f"
  unfolding drop_effect_def
  by (auto simp: drop_space_def assms drop_spaces_apart elim: files_are_local changes_are_local tables_are_local)

lemma end_files_twice:
  assumes "\<forall>r \<in> R'. is_current r" "R \<inter> R' = {}"
  shows "end_files ord R' (end_files ord R S) = end_files ord (R \<union> R') S"
proof -
  have "ended_at ord r \<notin> R'" for r using assms(1) by fastforce
  with assms(2) show ?thesis by auto
qed

lemma end_tables_twice:
  assumes "\<forall>p \<in> P'. is_open p" "P \<inter> P' = {}"
  shows "end_tables ord P' (end_tables ord P T) = end_tables ord (P \<union> P') T"
proof -
  have "ended ord p \<notin> P'" for p using assms(1) by fastforce
  then have "ended ord ` P - P' = ended ord ` P" by blast
  moreover have "T - P - P' = T - (P \<union> P')" by blast
  ultimately show ?thesis by (simp add: Un_Diff image_Un Un_assoc)
qed

lemma drop_effect_comp:
  assumes f: "drop_effect c ord R P f" and g: "drop_effect c ord R' P' g" and new: "R \<inter> R' = {}" "P \<inter> P' = {}"
  shows "drop_effect c ord (R \<union> R') (P \<union> P') (g \<circ> f)"
proof -
  have "files_are (g (f m)) c (end_files ord (R \<union> R') S)" if "files_are m c S" "R \<union> R' \<subseteq> S" for m S
  proof -
    have "files_are (f m) c (end_files ord R S)" "R' \<subseteq> end_files ord R S" using f that new by (auto simp: drop_effect_def)
    then have "files_are (g (f m)) c (end_files ord R' (end_files ord R S))" using g by (simp add: drop_effect_def)
    moreover have "\<forall>r \<in> R'. is_current r" using g by (simp add: drop_effect_def)
    from end_files_twice [OF this new(1)] have "end_files ord R' (end_files ord R S) = end_files ord (R \<union> R') S" .
    ultimately show ?thesis by simp
  qed
  moreover have "tables_are (g (f m)) c (end_tables ord (P \<union> P') T)" if "tables_are m c T" "P \<union> P' \<subseteq> T" for m T
  proof -
    have "tables_are (f m) c (end_tables ord P T)" "P' \<subseteq> end_tables ord P T" using f that new by (auto simp: drop_effect_def)
    then have "tables_are (g (f m)) c (end_tables ord P' (end_tables ord P T))" using g by (simp add: drop_effect_def)
    moreover have "\<forall>p \<in> P'. is_open p" using g by (simp add: drop_effect_def)
    from end_tables_twice [OF this new(2)] have "end_tables ord P' (end_tables ord P T) = end_tables ord (P \<union> P') T" .
    ultimately show ?thesis by simp
  qed
  moreover have "changes_are (g (f m)) c (C \<union> removals ord (R \<union> R'))" if "changes_are m c C" for m C
  proof -
    have "changes_are (g (f m)) c ((C \<union> removals ord R) \<union> removals ord R')" using f g that by (simp add: drop_effect_def)
    then show ?thesis by (simp add: image_Un Un_assoc)
  qed
  ultimately show ?thesis using f g by (auto simp: drop_effect_def)
qed

lemma drop_effect_file:
  assumes "is_current r" "order_kind ord = UuidV7"
  shows "drop_effect c ord {r} {} (expire_file c (ended_at ord r) ord)"
proof -
  let ?r = "ended_at ord r"
  have frame: "expire_file c ?r ord m k = m k" if "k \<notin> drop_space c" for m k
    using that by (auto simp: expire_file_def put_change_def put_expired_file_def drop_space_def drop_side_def file_space_def
        change_space_def table_change_key_def snapshot_change_key_def key_defs)
  have "files_are (expire_file c ?r ord m) c (end_files ord {r} S)" if "files_are m c S" "{r} \<subseteq> S" for m S
  proof -
    have "files_are (put_expired_file c ?r ord m) c (insert ?r (S - {r}))"
      using that by (intro files_are_expire) simp_all
    then have "files_are (expire_file c ?r ord m) c (insert ?r (S - {r}))"
      by (rule files_are_local) (simp add: expire_file_def spaces_disjoint)
    then show ?thesis by simp
  qed
  moreover have "changes_are (expire_file c ?r ord m) c (C \<union> removals ord {r})" if "changes_are m c C" for m C
  proof -
    have "changes_are (put_expired_file c ?r ord m) c C" using that by (rule changes_are_local) (simp add: spaces_disjoint)
    then show ?thesis using assms(2) changes_are_put [of _ c C "change_of r ord Removed"] by (simp add: expire_file_def)
  qed
  moreover have "tables_are (expire_file c ?r ord m) c T" if "tables_are m c T" for m T
    using that
  proof (rule tables_are_local)
    fix k assume "k \<in> table_space c"
    then have "prefix (family_prefix c Object) k" by (rule table_space_family)
    then show "expire_file c ?r ord m k = m k"
      by (auto simp: expire_file_def put_change_def put_expired_file_def table_change_key_def snapshot_change_key_def key_defs)
  qed
  ultimately show ?thesis using assms(1) frame by (simp add: drop_effect_def)
qed

lemma drop_effect_table:
  assumes "is_open p"
  shows "drop_effect c ord {} {p} (\<lambda>m. (put_version c (ended ord p) m)(current_table_row_key c (tr_table_id p) := None))"
proof -
  let ?f = "\<lambda>m. (put_version c (ended ord p) m)(current_table_row_key c (tr_table_id p) := None)"
  have frame: "?f m k = m k" if "k \<notin> table_space c" for m k using that effects_local(3) table_spaces by auto
  have "tables_are (?f m) c (end_tables ord {p} T)" if "tables_are m c T" "{p} \<subseteq> T" for m T
    using tables_are_end [OF that(1) _ assms, of ord] that(2) by simp
  moreover have "files_are (?f m) c S" if "files_are m c S" for m S
    using that by (rule files_are_local) (use frame drop_spaces_apart in blast)
  moreover have "changes_are (?f m) c C" if "changes_are m c C" for m C
    using that by (rule changes_are_local) (use frame drop_spaces_apart in blast)
  moreover have "?f m k = m k" if "k \<notin> drop_space c" for m k using frame that unfolding drop_space_def by blast
  ultimately show ?thesis using assms unfolding drop_effect_def by simp
qed

section \<open>Staging\<close>

text \<open>The keys a drop deletes are never among the keys it writes, so the deletions take effect.\<close>

definition current_space :: "catalog_id \<Rightarrow> bytes set" where
  "current_space c = {k. prefix (family_prefix c CurrentDataFile) k} \<union> {k. prefix (family_prefix c CurrentDeleteFile) k} \<union>
     {k. prefix (current_table_row_prefix c) k}"

definition drop_batch :: "catalog_id \<Rightarrow> kv_batch \<Rightarrow> bool" where
  "drop_batch c b \<longleftrightarrow> fst ` set (writes b) \<inter> current_space c = {}"

lemma drop_batch_simps [simp]:
  "drop_batch c batch_new" "drop_batch c (batch_put b k v) \<longleftrightarrow> k \<notin> current_space c \<and> drop_batch c b"
  "drop_batch c (batch_delete b k) = drop_batch c b" "drop_batch c (b\<lparr>deletes := ds\<rparr>) = drop_batch c b"
  by (auto simp: drop_batch_def batch_put_def batch_delete_def batch_new_def)

lemma current_space_family:
  "k \<in> current_space c \<Longrightarrow> prefix (family_prefix c CurrentDataFile) k \<or> prefix (family_prefix c CurrentDeleteFile) k \<or>
     prefix (family_prefix c Object) k"
  by (auto simp: current_space_def current_table_row_prefix_def dest: append_prefixD)

lemma other_family_not_current:
  "prefix (family_prefix c f) k \<Longrightarrow> f \<notin> {CurrentDataFile, CurrentDeleteFile, Object} \<Longrightarrow> k \<notin> current_space c"
  by (auto dest!: current_space_family dest: family_prefix_unique)

lemma drop_writes [simp]:
  "data_file_key c f \<notin> current_space c" "data_file_begin_key c t ord f \<notin> current_space c" "data_file_end_key c t ord f \<notin> current_space c"
  "table_data_file_change_key c t ord kind f \<notin> current_space c" "snapshot_data_file_change_key c t ord kind f \<notin> current_space c"
  "scheduled_data_file_cleanup_key c f \<notin> current_space c" "scheduled_delete_file_cleanup_key c f \<notin> current_space c"
  "delete_file_key c f \<notin> current_space c" "delete_file_end_key c t ord f \<notin> current_space c"
  by (rule other_family_not_current, simp add: key_defs, simp)+

lemma drop_table_writes [simp]:
  "table_object_key c t ord \<notin> current_space c" "table_visibility_key c ord t \<notin> current_space c"
proof -
  have "\<not> prefix (family_prefix c f) (table_object_key c t ord)" "\<not> prefix (family_prefix c f) (table_visibility_key c ord t)"
    if "f \<noteq> Object" for f using that by (auto simp: key_defs)
  then show "table_object_key c t ord \<notin> current_space c" "table_visibility_key c ord t \<notin> current_space c"
    by (auto simp: current_space_def table_spaces_differ)
qed

lemma drop_deletes [simp]:
  "current_data_file_key c t f \<in> current_space c" "current_delete_file_key c f \<in> current_space c" "current_table_row_key c t \<in> current_space c"
  by (simp_all add: current_space_def key_defs)

lemma drop_side_keys [simp]:
  "scheduled_data_file_cleanup_key c f \<in> drop_side c" "scheduled_delete_file_cleanup_key c f \<in> drop_side c"
  "delete_file_key c f \<in> drop_side c" "delete_file_end_key c t ord f \<in> drop_side c" "current_delete_file_key c f \<in> drop_side c"
  by (simp_all add: drop_side_def key_defs)

lemma drop_side_main: "k \<in> drop_side c \<Longrightarrow> k \<in> main_space c"
  by (auto simp: drop_side_def intro: main_space_family [rotated])

lemma not_written: "drop_batch c b \<Longrightarrow> k \<in> current_space c \<Longrightarrow> k \<notin> fst ` set (writes b)"
  by (auto simp: drop_batch_def)

text \<open>Steps that stay on the side.\<close>

definition side_stages :: "fake_kv \<Rightarrow> catalog_id \<Rightarrow> kv_batch \<Rightarrow> kv_batch \<Rightarrow> bool" where
  "side_stages kv c b b' \<longleftrightarrow> (\<exists>f. stages kv c b b' f {} {} \<and> (\<forall>m k. k \<notin> drop_side c \<longrightarrow> f m k = m k))"

lemma side_refl: "batch_ready c b \<Longrightarrow> side_stages kv c b b"
  unfolding side_stages_def using stages_refl [of c b kv] by (intro exI [of _ id]) simp

lemma side_put: "side_stages kv c b b' \<Longrightarrow> k \<in> drop_side c \<Longrightarrow> side_stages kv c b (batch_put b' k v)"
proof -
  assume a: "side_stages kv c b b'" "k \<in> drop_side c"
  then obtain f where f: "stages kv c b b' f {} {}" "\<forall>m k. k \<notin> drop_side c \<longrightarrow> f m k = m k" unfolding side_stages_def by blast
  from then_put [OF f(1) drop_side_main [OF a(2)], of v] f(2) a(2) show ?thesis
    unfolding side_stages_def by (intro exI [of _ "\<lambda>m. (f m)(k \<mapsto> v)"]) auto
qed

lemma side_delete:
  assumes "side_stages kv c b b'" "k \<in> drop_side c" "k \<notin> fst ` set (writes b')"
  shows "side_stages kv c b (batch_delete b' k)"
proof -
  from assms(1) obtain f where f: "stages kv c b b' f {} {}" "\<forall>m k. k \<notin> drop_side c \<longrightarrow> f m k = m k" unfolding side_stages_def by blast
  from then_delete [OF f(1) drop_side_main [OF assms(2)] assms(3)] f(2) assms(2) show ?thesis
    unfolding side_stages_def by (intro exI [of _ "\<lambda>m. (f m)(k := None)"]) auto
qed

lemma timeline_key_listed: "timeline_key_loop d is = Inr (Some k) \<Longrightarrow> k \<in> ri_key ` set is"
  by (induction d "is" rule: timeline_key_loop.induct) (auto simp: rbind_Inr_iff split: if_splits)

lemma timeline_key_in_family:
  assumes "fake_wf kv" "delete_file_timeline_key_for_row kv c r = Inr (Some k)"
  shows "prefix (family_prefix c DeleteFileTimeline) k"
proof -
  let ?p = "family_prefix c DeleteFileTimeline @ u64_to_be_bytes (xf_data_file_id r)"
  have "fake_scan_prefix kv (?p @ [slash]) Forward None = Inr (map to_item (filter (\<lambda>e. prefix (?p @ [slash]) (fst e)) (items kv)))"
    using fake.prefix_scan [OF assms(1), of slash ?p Forward None] by (simp add: fake_scan_prefix_def)
  with assms(2) have "k \<in> ri_key ` set (map to_item (filter (\<lambda>e. prefix (?p @ [slash]) (fst e)) (items kv)))"
    by (intro timeline_key_listed) (simp add: delete_file_timeline_key_for_row_def delete_file_timeline_prefix_def)
  then show ?thesis by (auto simp: to_item_def dest: append_prefixD)
qed

lemma expire_delete_file_side:
  assumes "fake_wf kv" "batch_ready c b" "drop_batch c b" "stage_expire_current_delete_file kv b c r d ord = Inr (b', x)"
  shows "side_stages kv c b b' \<and> drop_batch c b'"
proof -
  from assms(4) obtain row key where row: "load_delete_file kv c d = Inr row" and
    key: "delete_file_timeline_key_for_row kv c (row\<lparr>xf_validity := (xf_validity row)\<lparr>end_order := Some ord\<rparr>\<rparr>) = Inr key"
    by (auto simp: stage_expire_current_delete_file_def rbind_Inr_iff Let_def split: if_splits)
  define row1 where "row1 = row\<lparr>xf_validity := (xf_validity row)\<lparr>end_order := Some ord\<rparr>\<rparr>"
  define b1 where "b1 = batch_put b (delete_file_key c d) (delete_file_row_encode row1)"
  define b2 where "b2 = (case key of None \<Rightarrow> b1 | Some k \<Rightarrow> batch_put b1 k (delete_file_row_encode row1))"
  have b': "b' = batch_put (batch_delete b2 (current_delete_file_key c (df_data_file_id r)))
      (delete_file_end_key c (df_table_id r) ord d) (u64_to_be_bytes d)"
    using assms(4) row key unfolding b2_def b1_def row1_def
    by (auto simp: stage_expire_current_delete_file_def Let_def split: if_splits)
  have fam: "prefix (family_prefix c DeleteFileTimeline) k" if "key = Some k" for k
    using timeline_key_in_family [OF assms(1)] key that by blast
  have b1: "side_stages kv c b b1 \<and> drop_batch c b1"
    using assms(2,3) side_put [OF side_refl] by (simp add: b1_def)
  have b2: "side_stages kv c b b2 \<and> drop_batch c b2"
  proof (cases key)
    case (Some k)
    have "k \<in> drop_side c" using fam [OF Some] by (auto simp: drop_side_def)
    with b1 Some other_family_not_current [OF fam [OF Some]] side_put show ?thesis by (simp add: b2_def)
  qed (use b1 in \<open>simp add: b2_def\<close>)
  then have "side_stages kv c b (batch_delete b2 (current_delete_file_key c (df_data_file_id r)))"
    by (intro side_delete not_written) auto
  from side_put [OF this] b2 show ?thesis by (simp add: b')
qed

section \<open>Dropping the files of a table\<close>

lemma expire_keeps_drop_batch:
  assumes "staging_ready kv c" "stage_expire_data_file kv b c r ord = Inr b'" "drop_batch c b"
  shows "drop_batch c b'"
  using assms
  by (auto simp: stage_expire_data_file_def Let_def delete_partition_lookups_effect staging_ready_def write_data_file_change_def)

lemma expire_file_stages:
  assumes "staging_ready kv c" "batch_ready c b" "drop_batch c b" "files_are (fake_get kv) c S" "r \<in> S"
  shows "stage_expire_current_data_file kv b c (df_data_file_id r) ord = Inr (b', x) \<Longrightarrow>
      x = ended_at ord r \<and> is_current r \<and> stages kv c b b' (expire_file c (ended_at ord r) ord) {} {} \<and> drop_batch c b'"
    and "is_current r \<Longrightarrow> begin_order (df_validity r) < ord \<Longrightarrow>
      \<exists>b'. stage_expire_current_data_file kv b c (df_data_file_id r) ord = Inr (b', ended_at ord r)"
proof -
  have "current_data_file_key c (df_table_id (ended_at ord r)) (df_data_file_id (ended_at ord r)) \<notin> fst ` set (writes b)"
    using assms(3) by (rule not_written) simp
  from stages_expire [OF assms(1,2) this, of ord] obtain b1 where
    b1: "stage_expire_data_file kv b c (ended_at ord r) ord = Inr b1" "stages kv c b b1 (expire_file c (ended_at ord r) ord) {} {}"
    by blast
  note op = stage_expire_current_stored [OF assms(4,5), of b ord, unfolded b1(1) rbind.simps]
  have "drop_batch c b1" using assms(1) b1(1) assms(3) by (rule expire_keeps_drop_batch)
  with b1(2) show "stage_expire_current_data_file kv b c (df_data_file_id r) ord = Inr (b', x) \<Longrightarrow>
      x = ended_at ord r \<and> is_current r \<and> stages kv c b b' (expire_file c (ended_at ord r) ord) {} {} \<and> drop_batch c b'"
    unfolding op by (auto split: if_splits)
  show "is_current r \<Longrightarrow> begin_order (df_validity r) < ord \<Longrightarrow>
      \<exists>b'. stage_expire_current_data_file kv b c (df_data_file_id r) ord = Inr (b', ended_at ord r)"
    unfolding op by (simp add: order_not_le [symmetric] del: order_not_le)
qed

text \<open>A step that ends the files \<open>R\<close> and the tables \<open>P\<close>.\<close>

definition drop_stages ::
    "fake_kv \<Rightarrow> catalog_id \<Rightarrow> catalog_order_id \<Rightarrow> kv_batch \<Rightarrow> kv_batch \<Rightarrow> data_file_row set \<Rightarrow> table_row set \<Rightarrow> bool" where
  "drop_stages kv c ord b b' R P \<longleftrightarrow> drop_batch c b' \<and> (\<exists>f. stages kv c b b' f {} {} \<and> drop_effect c ord R P f)"

lemma drop_stages_ready: "drop_stages kv c ord b b' R P \<Longrightarrow> batch_ready c b' \<and> drop_batch c b'"
  unfolding drop_stages_def using stages_ready by blast

lemma drop_stages_refl: "batch_ready c b \<Longrightarrow> drop_batch c b \<Longrightarrow> drop_stages kv c ord b b {} {}"
  unfolding drop_stages_def using stages_refl [of c b kv] drop_effect_side [of c id ord] by auto

lemma drop_stages_trans:
  assumes "drop_stages kv c ord b1 b2 R P" "drop_stages kv c ord b2 b3 R' P'" "R \<inter> R' = {}" "P \<inter> P' = {}"
  shows "drop_stages kv c ord b1 b3 (R \<union> R') (P \<union> P')"
proof -
  from assms obtain f g where "stages kv c b1 b2 f {} {}" "drop_effect c ord R P f" "stages kv c b2 b3 g {} {}"
    "drop_effect c ord R' P' g" "drop_batch c b3" by (auto simp: drop_stages_def)
  with stages_trans [of kv c b1 b2 f "{}" "{}" b3 g "{}" "{}"] drop_effect_comp [of c ord R P f R' P' g] assms(3,4)
  show ?thesis by (auto simp: drop_stages_def)
qed

lemma drop_stages_side: "side_stages kv c b b' \<Longrightarrow> drop_batch c b' \<Longrightarrow> drop_stages kv c ord b b' {} {}"
  unfolding side_stages_def drop_stages_def using drop_effect_side by blast

lemma drop_stages_then_side:
  "drop_stages kv c ord b b' R P \<Longrightarrow> side_stages kv c b' b'' \<Longrightarrow> drop_batch c b'' \<Longrightarrow> drop_stages kv c ord b b'' R P"
  using drop_stages_trans [of kv c ord b b' R P b'' "{}" "{}"] drop_stages_side by auto

lemma drop_file_step:
  assumes ready: "staging_ready kv c" "batch_ready c b" "drop_batch c b" and files: "files_are (fake_get kv) c S" "ad_data_file a \<in> S"
    and ord: "order_kind ord = UuidV7" and step: "stage_drop_attached_file clock kv c ord a (b, n, k) = Inr (b', n', k')"
  shows "drop_stages kv c ord b b' {ad_data_file a} {} \<and> n' = n + 1 \<and> k' = k + (if ad_delete_file a = None then 0 else 1)"
proof -
  let ?r = "ad_data_file a" and ?key = "scheduled_data_file_cleanup_key c (df_data_file_id (ad_data_file a))"
  from step obtain b1 where b1: "stage_expire_current_data_file kv b c (df_data_file_id ?r) ord = Inr (b1, ended_at ord ?r)"
    using expire_file_stages(1) [OF ready files]
    by (auto simp: stage_drop_attached_file_def rbind_Inr_iff split: prod.splits)
  note e = expire_file_stages(1) [OF ready files b1]
  have "drop_stages kv c ord b b1 {?r} {}"
    unfolding drop_stages_def using e drop_effect_file [OF _ ord] by blast
  define b2 where "b2 = stage_scheduled_data_file_cleanup clock b1 c (df_data_file_id ?r)"
  have "batch_ready c b1" using e stages_ready by blast
  from side_put [OF side_refl [OF this]] have "side_stages kv c b1 b2" "drop_batch c b2"
    using e by (simp_all add: b2_def stage_scheduled_data_file_cleanup_def stage_scheduled_data_file_cleanup_with_kind_def)
  with \<open>drop_stages kv c ord b b1 {?r} {}\<close> have b2: "drop_stages kv c ord b b2 {?r} {}" by (rule drop_stages_then_side)
  show ?thesis
  proof (cases "ad_delete_file a")
    case None
    with step b2 show ?thesis by (simp add: stage_drop_attached_file_def b1 b2_def)
  next
    case (Some d)
    with step obtain b3 x where b3: "stage_expire_current_delete_file kv b2 c (ended_at ord ?r) (xf_delete_file_id d) ord = Inr (b3, x)"
      "b' = stage_scheduled_delete_file_cleanup clock b3 c (df_table_id ?r) (xf_delete_file_id d)" "n' = n + 1" "k' = k + 1"
      by (auto simp: stage_drop_attached_file_def b1 b2_def rbind_Inr_iff)
    have wf: "fake_wf kv" using ready(1) by (simp add: staging_ready_def)
    from expire_delete_file_side [OF wf _ _ b3(1)] drop_stages_ready [OF b2]
    have "side_stages kv c b2 b3" "drop_batch c b3" by blast+
    then have "side_stages kv c b2 b' \<and> drop_batch c b'" using side_put by (simp add: b3(2) stage_scheduled_delete_file_cleanup_def)
    with drop_stages_then_side [OF b2] Some b3(3,4) show ?thesis by simp
  qed
qed

abbreviation deletes_in :: "attached_data_file list \<Rightarrow> nat" where
  "deletes_in as \<equiv> length (filter (\<lambda>a. ad_delete_file a \<noteq> None) as)"

lemma drop_files_step:
  assumes ready: "staging_ready kv c" and files: "files_are (fake_get kv) c S" and ord: "order_kind ord = UuidV7"
    and "batch_ready c b" "drop_batch c b" "ad_data_file ` set as \<subseteq> S" "distinct (map ad_data_file as)"
    and "rfold (stage_drop_attached_file clock kv c ord) as (b, n, k) = Inr (b', n', k')"
  shows "drop_stages kv c ord b b' (ad_data_file ` set as) {} \<and> n' = n + length as \<and> k' = k + deletes_in as"
  using assms(4-)
proof (induction as arbitrary: b n k)
  case Nil
  then show ?case using drop_stages_refl [of c b kv ord] by simp
next
  case (Cons a as)
  from Cons.prems(5) obtain b1 n1 k1 where 1: "stage_drop_attached_file clock kv c ord a (b, n, k) = Inr (b1, n1, k1)"
    "rfold (stage_drop_attached_file clock kv c ord) as (b1, n1, k1) = Inr (b', n', k')"
    by (auto simp: rbind_Inr_iff)
  have a: "ad_data_file a \<in> S" using Cons.prems(3) by simp
  note step = drop_file_step [OF ready Cons.prems(1,2) files a ord 1(1)]
  then have "batch_ready c b1" "drop_batch c b1" using drop_stages_ready by blast+
  from Cons.IH [OF this _ _ 1(2)] Cons.prems(3,4)
  have IH: "drop_stages kv c ord b1 b' (ad_data_file ` set as) {} \<and> n' = n1 + length as \<and> k' = k1 + deletes_in as" by simp
  have "{ad_data_file a} \<inter> ad_data_file ` set as = {}" using Cons.prems(4) by auto
  with drop_stages_trans [OF conjunct1 [OF step] conjunct1 [OF IH]] have "drop_stages kv c ord b b' (ad_data_file ` set (a # as)) {}" by simp
  with step IH show ?case by auto
qed

section \<open>Dropping tables\<close>

lemma attach_keeps_files:
  assumes "attach_current_delete_files kv c rows = Inr as"
  shows "map ad_data_file as = rows"
proof -
  have zipped: "rmap (\<lambda>(r, p). rbind (rtranspose (current_delete_file_from_index_value kv c) p) (\<lambda>x.
      Inr \<lparr>ad_data_file = r, ad_delete_file = G x\<rparr>)) (zip rs ps) = Inr zs \<Longrightarrow> length ps = length rs \<Longrightarrow> map ad_data_file zs = rs"
    for rs ps zs and G :: "delete_file_row option \<Rightarrow> delete_file_row option"
    by (induction rs ps arbitrary: zs rule: list_induct2') (auto simp: rbind_Inr_iff)
  have "length ps = length ks" if "kv_batch_get (\<lambda>k. Inr (fake_get kv k)) ks = Inr ps" for ks ps
    using that rmap_length unfolding kv_batch_get_def by blast
  then have "map ad_data_file as = rows" if "kv_batch_get (\<lambda>k. Inr (fake_get kv k)) (map f rows) = Inr ps"
    "rmap (\<lambda>(r, p). rbind (rtranspose (current_delete_file_from_index_value kv c) p) (\<lambda>x.
      Inr \<lparr>ad_data_file = r, ad_delete_file = G x\<rparr>)) (zip rows ps) = Inr as" for f ps
    and G :: "delete_file_row option \<Rightarrow> delete_file_row option"
    using that zipped by (metis length_map)
  with assms show ?thesis
    by (auto simp: attach_current_delete_files_def attach_data_files_without_deletes_def rbind_Inr_iff comp_def split: if_splits)
qed

lemma attached_files:
  assumes "staging_ready kv c" "files_are (fake_get kv) c S" "list_current_data_files_with_deletes kv c t = Inr as"
  shows "map ad_data_file as = current_rows c t S"
proof -
  have wf: "fake_wf kv" using assms(1) by (simp add: staging_ready_def)
  from assms(3) show ?thesis
    by (auto simp: list_current_data_files_with_deletes_def list_current_data_files_def rbind_Inr_iff
        scan_current_data_files_reads [OF wf assms(2)] dest: attach_keeps_files)
qed

abbreviation files_of :: "table_id set \<Rightarrow> data_file_row set \<Rightarrow> data_file_row set" where
  "files_of ts S \<equiv> {r \<in> S. is_current r \<and> df_table_id r \<in> ts}"

abbreviation versions_of :: "table_id set \<Rightarrow> table_row set \<Rightarrow> table_row set" where
  "versions_of ts T \<equiv> {p \<in> T. is_open p \<and> tr_table_id p \<in> ts}"

text \<open>What the operation reports about a table.\<close>

definition drop_report :: "fake_kv \<Rightarrow> catalog_id \<Rightarrow> table_row set \<Rightarrow> catalog_order_id \<Rightarrow> table_id \<Rightarrow> dropped_table \<Rightarrow> bool" where
  "drop_report kv c T ord t d \<longleftrightarrow> (\<exists>p \<in> T. is_open p \<and> tr_table_id p = t \<and> dt_table d = ended ord p) \<and>
     (\<exists>as. list_current_data_files_with_deletes kv c t = Inr as \<and> dt_expired_data_file_count d = length as \<and>
        dt_expired_delete_file_count d = deletes_in as)"

lemma drop_table_step:
  assumes ready: "staging_ready kv c" and files: "files_are (fake_get kv) c S" and tabs: "tables_are (fake_get kv) c T"
    and ord: "order_kind ord = UuidV7" and b: "batch_ready c b" "drop_batch c b"
    and step: "stage_drop_table clock kv c ord t (b, out) = Inr (b', out')"
  shows "drop_stages kv c ord b b' (files_of {t} S) (versions_of {t} T) \<and> (\<exists>d. out' = out @ [d] \<and> drop_report kv c T ord t d)"
proof -
  obtain p where p: "p \<in> T" "is_open p" "tr_table_id p = t"
  proof (rule ccontr)
    assume "\<not> thesis"
    then have "load_current_table_row kv c t = Inr None" using that by (intro load_current_table_row_reads(2) [OF tabs]) blast
    with step show False by (simp add: stage_drop_table_def)
  qed
  note found = load_current_table_row_reads(1) [OF tabs p(1,2), unfolded p(3)]
  from step obtain as b1 n k where 1: "list_current_data_files_with_deletes kv c t = Inr as"
    "rfold (stage_drop_attached_file clock kv c ord) as (b, 0, 0) = Inr (b1, n, k)"
    by (auto simp: stage_drop_table_def found rbind_Inr_iff)
  let ?p = "ended ord p" and ?key = "current_table_row_key c t"
  let ?b = "batch_put (batch_put b1 (table_object_key c t (begin_order (tr_validity p))) (table_row_encode ?p))
      (table_visibility_key c (begin_order (tr_validity p)) t) (table_row_encode ?p)"
  have out: "b' = batch_delete ?b ?key" "out' = out @ [\<lparr>dt_table = ?p, dt_expired_data_file_count = n, dt_expired_delete_file_count = k\<rparr>]"
    using step by (simp_all add: stage_drop_table_def found 1 stage_table_visibility_row_def stage_remove_current_table_row_def p(3) Let_def)
  note rows = attached_files [OF ready files 1(1)]
  have "ad_data_file ` set as = files_of {t} S"
    using current_rows_spec(1) [OF files, of t] arg_cong [OF rows, of set] by (auto simp flip: set_map)
  moreover have "distinct (map ad_data_file as)" unfolding rows by (rule current_rows_spec(2) [OF files])
  ultimately have fs: "drop_stages kv c ord b b1 (files_of {t} S) {}" "n = length as" "k = deletes_in as"
    using drop_files_step [OF ready files ord b _ _ 1(2)] by auto
  then have b1: "batch_ready c b1" "drop_batch c b1" using drop_stages_ready by blast+
  have "drop_batch c ?b" using b1(2) by simp
  then have new: "?key \<notin> fst ` set (writes ?b)" by (rule not_written) simp
  have "stages kv c b1 b' (\<lambda>m. (put_version c ?p m)(?key := None)) {} {}"
    using then_delete [OF then_put [OF stages_put [OF b1(1)]] _ new, where kv = kv] by (simp add: out(1) put_version_def p(3))
  with drop_effect_table [OF p(2), of c ord] b1(2) have "drop_stages kv c ord b1 b' {} {p}"
    unfolding drop_stages_def out(1) by (auto simp: p(3))
  moreover have "versions_of {t} T = {p}" using open_unique [OF tabs] p by auto
  ultimately have "drop_stages kv c ord b b' (files_of {t} S) (versions_of {t} T)"
    using drop_stages_trans [OF fs(1), of b' "{}" "{p}"] by simp
  then show ?thesis using out(2) p 1(1) fs(2,3) by (auto simp: drop_report_def)
qed

lemma drop_tables_step:
  assumes ready: "staging_ready kv c" and files: "files_are (fake_get kv) c S" and tabs: "tables_are (fake_get kv) c T"
    and ord: "order_kind ord = UuidV7" and "batch_ready c b" "drop_batch c b" "distinct ts"
    and "rfold (stage_drop_table clock kv c ord) ts (b, out) = Inr (b', out')"
  shows "drop_stages kv c ord b b' (files_of (set ts) S) (versions_of (set ts) T) \<and>
    (\<exists>ds. out' = out @ ds \<and> list_all2 (drop_report kv c T ord) ts ds)"
  using assms(5-)
proof (induction ts arbitrary: b out)
  case Nil
  then show ?case using drop_stages_refl [of c b kv ord] by simp
next
  case (Cons t ts)
  from Cons.prems(4) obtain b1 out1 where 1: "stage_drop_table clock kv c ord t (b, out) = Inr (b1, out1)"
    "rfold (stage_drop_table clock kv c ord) ts (b1, out1) = Inr (b', out')" by (auto simp: rbind_Inr_iff)
  note step = drop_table_step [OF ready files tabs ord Cons.prems(1,2) 1(1)]
  then have "batch_ready c b1" "drop_batch c b1" using drop_stages_ready by blast+
  from Cons.IH [OF this _ 1(2)] Cons.prems(3)
  have IH: "drop_stages kv c ord b1 b' (files_of (set ts) S) (versions_of (set ts) T)"
    "\<exists>ds. out' = out1 @ ds \<and> list_all2 (drop_report kv c T ord) ts ds" by simp_all
  have "files_of {t} S \<inter> files_of (set ts) S = {}" "versions_of {t} T \<inter> versions_of (set ts) T = {}" using Cons.prems(3) by auto
  from drop_stages_trans [OF conjunct1 [OF step] IH(1) this]
  have "drop_stages kv c ord b b' (files_of {t} S \<union> files_of (set ts) S) (versions_of {t} T \<union> versions_of (set ts) T)" .
  moreover have "files_of {t} S \<union> files_of (set ts) S = files_of (set (t # ts)) S"
    "versions_of {t} T \<union> versions_of (set ts) T = versions_of (set (t # ts)) T" by auto
  moreover obtain d ds where "out1 = out @ [d]" "drop_report kv c T ord t d" "out' = out1 @ ds" "list_all2 (drop_report kv c T ord) ts ds"
    using step IH(2) by blast
  then have "\<exists>ds. out' = out @ ds \<and> list_all2 (drop_report kv c T ord) (t # ts) ds" by (intro exI [of _ "d # ds"]) simp
  ultimately show ?case by simp
qed

end
