(* ===== verification/Cat_Table_Drop_Spec.thy ===== *)
theory Cat_Table_Drop_Spec
  imports Cat_Table_Drop
begin

text \<open>
  The outcome of \<open>commit_drop_tables\<close>: the next state of the catalog when it succeeds, when that is the case, that a
  failure leaves the store as it was, and what readers see before and after the drop.
\<close>

section \<open>The commit\<close>

lemma wf_end_tables:
  assumes "table_versions_wf T" "\<And>p. p \<in> P \<Longrightarrow> p \<in> T \<and> is_open p \<and> begin_order (tr_validity p) < ord"
  shows "table_versions_wf (end_tables ord P T)"
proof -
  have last: "\<not> begin_order (tr_validity p) < begin_order (tr_validity y)" if "p \<in> P" "y \<in> T" "tr_table_id p = tr_table_id y" for p y
    using assms(1,2) that unfolding versions_wf_def by fastforce
  have old: "\<exists>x0 \<in> T. tr_table_id x0 = tr_table_id x \<and> begin_order (tr_validity x0) = begin_order (tr_validity x)"
    if "x \<in> end_tables ord P T" for x using that assms(2) by force
  show ?thesis
    unfolding versions_wf_def
  proof (intro conjI ballI allI impI)
    fix x e
    assume "x \<in> end_tables ord P T" "end_order (tr_validity x) = Some e"
    with assms show "begin_order (tr_validity x) < e" unfolding versions_wf_def by auto
  next
    fix x y
    assume xy: "x \<in> end_tables ord P T" "y \<in> end_tables ord P T" "tr_table_id x = tr_table_id y"
      "begin_order (tr_validity x) < begin_order (tr_validity y)"
    obtain y0 where y0: "y0 \<in> T" "tr_table_id y0 = tr_table_id y" "begin_order (tr_validity y0) = begin_order (tr_validity y)"
      using old [OF xy(2)] by blast
    show "\<exists>e. end_order (tr_validity x) = Some e \<and> e \<le> begin_order (tr_validity y)"
    proof (cases "x \<in> T - P")
      case True
      with xy y0 assms(1) show ?thesis unfolding versions_wf_def by (metis DiffD1)
    next
      case False
      with xy(1) obtain p where "p \<in> P" "x = ended ord p" by blast
      with xy(3,4) y0 last [of p y0] show ?thesis by simp
    qed
  qed
qed

lemma orders_end_tables: "orders_upto ord T \<Longrightarrow> P \<subseteq> T \<Longrightarrow> orders_upto ord (end_tables ord P T)"
  by (auto simp: orders_upto_def)

lemma snapshot_drop_batch: "drop_batch c b \<Longrightarrow> drop_batch c (stage_snapshot b c s)"
proof -
  have "k \<notin> current_space c" if "k \<in> snapshot_space c" for k
    using that drop_space_apart [of k c]
    by (auto simp: drop_space_def current_space_def file_space_def drop_side_def table_space_def)
  then have "snapshot_key c (sn_order s) \<notin> current_space c" "latest_snapshot_row_key c \<notin> current_space c"
    "snapshot_timestamp_key c (sn_created_at_micros s) (sn_order s) \<notin> current_space c"
    "raw_snapshot_row_key c (sn_sequence s) \<notin> current_space c"
    by (simp_all add: snapshot_space_def key_defs)
  then show "drop_batch c b \<Longrightarrow> drop_batch c (stage_snapshot b c s)" by (simp add: stage_snapshot_def Let_def)
qed

lemma version_drop_batch:
  assumes "stage_next_schema_version kv b c s = Inr b'" "drop_batch c b"
  shows "drop_batch c b'"
proof -
  have "k \<notin> current_space c" if "prefix (family_prefix c MetadataVersion) k" for k
    using that by (rule other_family_not_current) simp
  then have "current_schema_version_key c \<notin> current_space c" "schema_version_history_key c ord \<notin> current_space c"
    "schema_version_begin_snapshot_key c n \<notin> current_space c" "catalog_snapshot_version_key c \<notin> current_space c" for ord n
    by (simp_all add: key_defs)
  with assms show ?thesis
    by (auto simp: stage_next_schema_version_def stage_next_catalog_snapshot_version_def rbind_Inr_iff Let_def)
qed

text \<open>Taking an order does not change what the operation reads.\<close>

lemma reads_after_order:
  "list_current_data_files_with_deletes (snd (fake_generated_order_id kv)) c t = list_current_data_files_with_deletes kv c t"
proof -
  let ?kv = "snd (fake_generated_order_id kv)"
  have scan: "fake_scan_range ?kv = fake_scan_range kv" "fake_scan_prefix ?kv = fake_scan_prefix kv"
    by (simp_all add: fun_eq_iff fake_scan_range_def fake_scan_prefix_def)
  have loads: "load_data_file ?kv = load_data_file kv" "load_delete_file ?kv = load_delete_file kv"
    by (simp_all add: fun_eq_iff load_data_file_def load_delete_file_def)
  have rows: "data_file_from_current_index_value ?kv = data_file_from_current_index_value kv"
    "current_delete_file_from_index_value ?kv = current_delete_file_from_index_value kv"
    by (intro ext, simp only: data_file_from_current_index_value_def current_delete_file_from_index_value_def loads)+
  have "any_table_changed ?kv c ord ts = any_table_changed kv c ord ts" for ord ts
    by (induction ts) (simp_all add: table_delete_file_changes_exist_at_def delete_file_changed_tables_at_def scan cong: if_cong)
  then have "delete_file_changes_exist_for_files_at ?kv c = delete_file_changes_exist_for_files_at kv c"
    by (simp add: fun_eq_iff delete_file_changes_exist_for_files_at_def)
  moreover have "latest_snapshot ?kv c = latest_snapshot kv c"
    by (simp add: latest_snapshot_def fetch_latest_snapshot_def fetch_snapshot_row_def scan cong: option.case_cong)
  ultimately have "attach_current_delete_files ?kv c = attach_current_delete_files kv c"
    by (intro ext) (simp only: attach_current_delete_files_def rows fake_generated_order_id_simps)
  then show ?thesis
    by (simp add: list_current_data_files_with_deletes_def list_current_data_files_def scan_current_data_files_def scan rows)
qed

lemma delete_reads_after_order:
  "load_delete_file (snd (fake_generated_order_id kv)) c d = load_delete_file kv c d"
  "delete_file_timeline_key_for_row (snd (fake_generated_order_id kv)) c r = delete_file_timeline_key_for_row kv c r"
  by (simp_all add: load_delete_file_def delete_file_timeline_key_for_row_def fake_scan_prefix_def fake_scan_range_def)

lemma commit_drop_tables_success:
  assumes cat: "table_catalog kv c H L T vs" and clock: "clock_ahead kv H"
    and files: "files_are (fake_get kv) c S" and changes: "changes_are (fake_get kv) c C"
    and op: "commit_drop_tables clk kv c ids = (Inr out, kv')" "ids \<noteq> []"
  defines "ord \<equiv> next_commit_order kv" and "s \<equiv> next_snapshot (current_timestamp_micros clk) kv H"
  shows "distinct ids" "table_catalog kv' c (H @ [s]) (L @ [s]) (end_tables ord (versions_of (set ids) T) T) (next_version kv vs)"
    "files_are (fake_get kv') c (end_files ord (files_of (set ids) S) S)"
    "changes_are (fake_get kv') c (C \<union> removals ord (files_of (set ids) S))"
    "next_order kv' = next_order kv + 1" "list_all2 (drop_report kv c T ord) ids out"
    "\<forall>k \<in> main_space c - drop_space c - version_space c - snapshot_space c. fake_get kv' k = fake_get kv k"
    "\<forall>f. file_rows kv' c f = file_rows kv c f"
proof -
  note A = table_catalogD [OF cat]
  let ?kv = "snd (fake_generated_order_id kv)" and ?b = "stage_snapshot batch_new c s"
  let ?R = "files_of (set ids) S" and ?P = "versions_of (set ids) T"
  have sat: "saturating_add (next_order kv) 1 = next_order kv + 1"
    using clock saturating_Suc(3) [of "next_order kv"] by (simp add: clock_ahead_def)
  have latest: "latest_snapshot kv c = Inr (if H = [] then None else Some (last H))" using A(2,3) by (rule latest_snapshot_reads)
  show dist: "distinct ids"
    using op by (auto simp: commit_drop_tables_def commit_drop_tables_at_def attempt_Inr_iff reject_duplicate_table_ids_def
        reject_duplicates_iff split: if_splits)
  have H: "H \<noteq> []"
    using op by (auto simp: commit_drop_tables_def commit_drop_tables_at_def attempt_Inr_iff latest split: if_splits)
  have s: "snapshot_row_new (current_timestamp_micros clk) ord (raw_sequence_next (sn_sequence (last H))) = s"
    using H by (simp add: s_def ord_def snapshot_row_for_next_sequence_def)
  have "commit_drop_tables clk kv c ids = attempt ?kv (stage_next_schema_version ?kv ?b c s) (\<lambda>b1.
      attempt ?kv (rfold (stage_drop_table clk ?kv c ord) ids (b1, [])) (\<lambda>(b2, dropped). commit_then ?kv b2 dropped))"
    using op(2) dist H by (simp add: commit_drop_tables_def commit_drop_tables_at_def reject_duplicate_table_ids_def reject_duplicates_iff
        latest case_prod_beta Let_def sat s [unfolded ord_def] ord_def)
  with op(1) obtain b1 b2 where run: "stage_next_schema_version ?kv ?b c s = Inr b1"
    "rfold (stage_drop_table clk ?kv c ord) ids (b1, []) = Inr (b2, out)" "commit_then ?kv b2 out = (Inr out, kv')"
    by (auto simp: attempt_Inr_iff commit_then_Inr_iff)
  have ready: "staging_ready ?kv c" using A(1) by (simp add: staging_ready_def)
  have first: "stages ?kv c batch_new ?b (put_snapshot c s) {} {}" by (simp add: stages_snapshot)
  have vers: "schema_versions_are (fake_get ?kv) c vs" using A(5) by simp
  define F where "F cnt = put_schema_version c s (saturating_add (version_of vs) 1) cnt" for cnt
  obtain cnt where st1: "stages ?kv c batch_new b1 (\<lambda>m. F cnt (put_snapshot c s m)) {} {}"
    using stages_next_schema_version [OF vers first, of s] run(1) unfolding F_def by auto
  have db1: "drop_batch c b1" using run(1) by (rule version_drop_batch) (simp add: snapshot_drop_batch)
  have "order_kind ord = UuidV7" by (simp add: ord_def)
  from drop_tables_step [OF ready _ _ this stages_ready [OF st1] db1 dist run(2), of S T] files A(4)
  have ds: "drop_stages ?kv c ord b1 b2 ?R ?P" "list_all2 (drop_report ?kv c T ord) ids out" by auto
  from ds(1) obtain G where G: "stages ?kv c b1 b2 G {} {}" "drop_effect c ord ?R ?P G" unfolding drop_stages_def by blast
  note G' = G(2) [unfolded drop_effect_def]
  have Fk: "k \<notin> version_space c \<Longrightarrow> F n m k = m k" for n m k unfolding F_def by (rule effects_local(2))
  let ?m = "F cnt (put_snapshot c s (fake_get kv))"
  have "tables_are ?m c T" using A(4) Fk by (rule tables_after_snapshot)
  then have Gt: "tables_are (G ?m) c (end_tables ord ?P T)" using G' by auto
  have Gf: "G m k = m k" if "k \<in> version_space c \<or> k \<in> snapshot_space c" for m k using G' drop_space_apart [OF that] by blast
  have T': "table_versions_wf (end_tables ord ?P T)"
    using before_next(1) [OF cat clock] by (intro wf_end_tables [OF A(6)]) (simp_all add: ord_def)
  have ou: "orders_upto (next_commit_order kv) (end_tables ord ?P T)"
    unfolding ord_def by (rule orders_end_tables [OF before_next(2) [OF cat clock]]) auto
  have st: "stages ?kv c batch_new b2 (\<lambda>m. G (F cnt (put_snapshot c s m))) {} {}"
    using stages_trans [OF st1 G(1)] by (simp add: comp_def)
  note vstep = version_step(1) [OF cat clock, where now = "current_timestamp_micros clk", folded s_def]
  from catalog_commit [OF cat clock st [unfolded s_def] vstep [of cnt, folded F_def, unfolded s_def] Fk Gt [unfolded s_def] Gf T' ou version_step(3) [OF cat clock], of out]
  obtain kv2 where "commit_then ?kv b2 out = (Inr out, kv2)" "next_order kv2 = next_order kv + 1"
    "table_catalog kv2 c (H @ [s]) (L @ [s]) (end_tables ord ?P T) (next_version kv vs)"
    "\<forall>k \<in> main_space c. fake_get kv2 k = G ?m k" "\<forall>f. file_rows kv2 c f = file_rows kv c f"
    unfolding s_def by blast
  with run(3) have kv': "next_order kv' = next_order kv + 1"
    "table_catalog kv' c (H @ [s]) (L @ [s]) (end_tables ord ?P T) (next_version kv vs)"
    "\<forall>k \<in> main_space c. fake_get kv' k = G ?m k" "\<forall>f. file_rows kv' c f = file_rows kv c f" by auto
  then show "table_catalog kv' c (H @ [s]) (L @ [s]) (end_tables ord ?P T) (next_version kv vs)"
    "next_order kv' = next_order kv + 1" "\<forall>f. file_rows kv' c f = file_rows kv c f" by blast+
  show "list_all2 (drop_report kv c T ord) ids out" using ds(2) by (simp add: drop_report_def [abs_def] reads_after_order)
  have same: "?m k = fake_get kv k" if "k \<notin> version_space c" "k \<notin> snapshot_space c" for k
    using that by (simp add: Fk effects_local(1))
  have mine: "k \<notin> version_space c \<and> k \<notin> snapshot_space c" if "k \<in> file_space c \<or> k \<in> change_space c" for k
    using that drop_space_apart [of k c] unfolding drop_space_def by blast
  have "files_are ?m c S" using files by (rule files_are_local) (use same mine in blast)
  then have "files_are (G ?m) c (end_files ord ?R S)" using G' by auto
  then show "files_are (fake_get kv') c (end_files ord ?R S)"
    by (rule files_are_local) (use kv'(3) file_space_main in blast)
  have "changes_are ?m c C" using changes by (rule changes_are_local) (use same mine in blast)
  then have "changes_are (G ?m) c (C \<union> removals ord ?R)" using G' by blast
  then show "changes_are (fake_get kv') c (C \<union> removals ord ?R)"
    by (rule changes_are_local) (use kv'(3) change_space_main in blast)
  show "\<forall>k \<in> main_space c - drop_space c - version_space c - snapshot_space c. fake_get kv' k = fake_get kv k"
    using kv'(3) G' same by simp
qed

section \<open>When a drop succeeds\<close>

text \<open>The delete file attached to a data file can be ended: it is stored, belongs to the file, has begun, has not ended,
  and the timeline of the file can be read.\<close>

definition delete_expirable :: "fake_kv \<Rightarrow> catalog_id \<Rightarrow> catalog_order_id \<Rightarrow> attached_data_file \<Rightarrow> bool" where
  "delete_expirable kv c ord a \<longleftrightarrow> (\<forall>d. ad_delete_file a = Some d \<longrightarrow> (\<exists>row key.
     load_delete_file kv c (xf_delete_file_id d) = Inr row \<and> xf_data_file_id row = df_data_file_id (ad_data_file a) \<and>
     begin_order (xf_validity row) < ord \<and> end_order (xf_validity row) = None \<and>
     delete_file_timeline_key_for_row kv c (row\<lparr>xf_validity := (xf_validity row)\<lparr>end_order := Some ord\<rparr>\<rparr>) = Inr key))"

lemma drop_file_succeeds:
  assumes ready: "staging_ready kv c" "batch_ready c b" "drop_batch c b" and files: "files_are (fake_get kv) c S" "ad_data_file a \<in> S"
    and cur: "is_current (ad_data_file a)" "begin_order (df_validity (ad_data_file a)) < ord" and del: "delete_expirable kv c ord a"
  shows "\<exists>x. stage_drop_attached_file clock kv c ord a (b, n, k) = Inr x"
proof -
  obtain b1 where b1: "stage_expire_current_data_file kv b c (df_data_file_id (ad_data_file a)) ord = Inr (b1, ended_at ord (ad_data_file a))"
    using expire_file_stages(2) [OF ready files cur] by blast
  have "\<exists>x. stage_expire_current_delete_file kv b2 c (ended_at ord (ad_data_file a)) (xf_delete_file_id d) ord = Inr x"
    if "ad_delete_file a = Some d" for b2 d
    using del that by (auto simp: delete_expirable_def stage_expire_current_delete_file_def Let_def order_not_le [symmetric] simp del: order_not_le)
  note delete = this
  show ?thesis
  proof (cases "ad_delete_file a")
    case (Some d)
    obtain b3 y where "stage_expire_current_delete_file kv (stage_scheduled_data_file_cleanup clock b1 c (df_data_file_id (ad_data_file a))) c
        (ended_at ord (ad_data_file a)) (xf_delete_file_id d) ord = Inr (b3, y)" using delete [OF Some] by (metis prod.exhaust)
    then show ?thesis by (simp add: stage_drop_attached_file_def b1 Some)
  qed (simp add: stage_drop_attached_file_def b1)
qed

lemma drop_files_succeed:
  assumes ready: "staging_ready kv c" and files: "files_are (fake_get kv) c S" and ord: "order_kind ord = UuidV7"
    and "batch_ready c b" "drop_batch c b"
    and "\<forall>a \<in> set as. ad_data_file a \<in> S \<and> is_current (ad_data_file a) \<and> begin_order (df_validity (ad_data_file a)) < ord \<and> delete_expirable kv c ord a"
  shows "\<exists>x. rfold (stage_drop_attached_file clock kv c ord) as (b, n, k) = Inr x"
  using assms(4-)
proof (induction as arbitrary: b n k)
  case (Cons a as)
  have a: "ad_data_file a \<in> S" "is_current (ad_data_file a)" "begin_order (df_validity (ad_data_file a)) < ord" "delete_expirable kv c ord a"
    using Cons.prems(3) by simp_all
  obtain b1 n1 k1 where 1: "stage_drop_attached_file clock kv c ord a (b, n, k) = Inr (b1, n1, k1)"
    using drop_file_succeeds [OF ready Cons.prems(1,2) files a] by (metis prod_cases3)
  from drop_file_step [OF ready Cons.prems(1,2) files a(1) ord 1] have "batch_ready c b1" "drop_batch c b1"
    using drop_stages_ready by blast+
  with Cons.IH Cons.prems(3) 1 show ?case by simp
qed simp

definition droppable :: "fake_kv \<Rightarrow> catalog_id \<Rightarrow> catalog_order_id \<Rightarrow> table_row set \<Rightarrow> table_id \<Rightarrow> bool" where
  "droppable kv c ord T t \<longleftrightarrow> (\<exists>p \<in> T. is_open p \<and> tr_table_id p = t) \<and>
     (\<exists>as. list_current_data_files_with_deletes kv c t = Inr as \<and> (\<forall>a \<in> set as. delete_expirable kv c ord a))"

lemma drop_tables_succeed:
  assumes ready: "staging_ready kv c" and files: "files_are (fake_get kv) c S" and tabs: "tables_are (fake_get kv) c T"
    and ord: "order_kind ord = UuidV7" and before: "\<forall>r \<in> S. begin_order (df_validity r) < ord"
    and "batch_ready c b" "drop_batch c b" "\<forall>t \<in> set ts. droppable kv c ord T t"
  shows "\<exists>x. rfold (stage_drop_table clock kv c ord) ts (b, out) = Inr x"
  using assms(6-)
proof (induction ts arbitrary: b out)
  case (Cons t ts)
  obtain p as where t: "p \<in> T" "is_open p" "tr_table_id p = t" "list_current_data_files_with_deletes kv c t = Inr as"
    "\<forall>a \<in> set as. delete_expirable kv c ord a" using Cons.prems(3) by (auto simp: droppable_def)
  have "ad_data_file ` set as = {r \<in> S. is_current r \<and> df_table_id r = t}"
    using current_rows_spec(1) [OF files, of t] arg_cong [OF attached_files [OF ready files t(4)], of set] by simp
  then have "\<forall>a \<in> set as. ad_data_file a \<in> S \<and> is_current (ad_data_file a) \<and> begin_order (df_validity (ad_data_file a)) < ord \<and> delete_expirable kv c ord a"
    using before t(5) by blast
  from drop_files_succeed [OF ready files ord Cons.prems(1,2) this, of clock 0 0] obtain b1 n k where
    "rfold (stage_drop_attached_file clock kv c ord) as (b, 0, 0) = Inr (b1, n, k)" by (metis prod_cases3)
  with load_current_table_row_reads(1) [OF tabs t(1,2), unfolded t(3)] t(4)
  obtain b2 out2 where 2: "stage_drop_table clock kv c ord t (b, out) = Inr (b2, out2)" by (simp add: stage_drop_table_def Let_def)
  from drop_table_step [OF ready files tabs ord Cons.prems(1,2) 2] have "batch_ready c b2" "drop_batch c b2"
    using drop_stages_ready by blast+
  with Cons.IH Cons.prems(3) 2 show ?case by simp
qed simp

lemma commit_drop_tables_succeeds:
  assumes cat: "table_catalog kv c H L T vs" and clock: "clock_ahead kv H" and H: "H \<noteq> []"
    and files: "files_are (fake_get kv) c S" and before: "\<forall>r \<in> S. begin_order (df_validity r) < next_commit_order kv"
    and ids: "ids \<noteq> []" "distinct ids" "\<forall>t \<in> set ids. droppable kv c (next_commit_order kv) T t"
  shows "\<exists>out kv'. commit_drop_tables clk kv c ids = (Inr out, kv')"
proof -
  note A = table_catalogD [OF cat]
  let ?kv = "snd (fake_generated_order_id kv)" and ?ord = "next_commit_order kv"
  let ?s = "snapshot_row_new (current_timestamp_micros clk) ?ord (raw_sequence_next (sn_sequence (last H)))"
  let ?b = "stage_snapshot batch_new c ?s"
  have sat: "saturating_add (next_order kv) 1 = next_order kv + 1"
    using clock saturating_Suc(3) [of "next_order kv"] by (simp add: clock_ahead_def)
  have latest: "latest_snapshot kv c = Inr (Some (last H))" using latest_snapshot_reads [OF A(2,3)] H by simp
  have ready: "staging_ready ?kv c" using A(1) by (simp add: staging_ready_def)
  have first: "stages ?kv c batch_new ?b (put_snapshot c ?s) {} {}" by (simp add: stages_snapshot)
  have vers: "schema_versions_are (fake_get ?kv) c vs" using A(5) by simp
  obtain b1 g where b1: "stage_next_schema_version ?kv ?b c ?s = Inr b1" "stages ?kv c batch_new b1 g {} {}"
    using stages_next_schema_version [OF vers first, of ?s] by blast
  have db1: "drop_batch c b1" using b1(1) by (rule version_drop_batch) (simp add: snapshot_drop_batch)
  have "\<forall>t \<in> set ids. droppable ?kv c ?ord T t"
    using ids(3) by (simp add: droppable_def delete_expirable_def reads_after_order delete_reads_after_order)
  from drop_tables_succeed [OF ready _ _ _ before stages_ready [OF b1(2)] db1 this, of clk "[]"] files A(4)
  obtain b2 out where run: "rfold (stage_drop_table clk ?kv c ?ord) ids (b1, []) = Inr (b2, out)" by auto
  from drop_tables_step [OF ready _ _ _ stages_ready [OF b1(2)] db1 ids(2) run, of S T] files A(4)
  have "drop_stages ?kv c ?ord b1 b2 (files_of (set ids) S) (versions_of (set ids) T)" by simp
  then obtain f where "stages ?kv c b1 b2 f {} {}" by (auto simp: drop_stages_def)
  from commit_staged [OF ready stages_trans [OF b1(2) this], of out] obtain kv' where "commit_then ?kv b2 out = (Inr out, kv')" by blast
  then show ?thesis
    using ids(1,2) by (simp add: commit_drop_tables_def commit_drop_tables_at_def reject_duplicate_table_ids_def reject_duplicates_iff latest
        case_prod_beta Let_def sat b1(1) run)
qed

lemma commit_drop_tables_failure: "commit_drop_tables clk kv c ids = (Inl e, kv') \<Longrightarrow> fake_get kv' = fake_get kv"
  by (auto simp: commit_drop_tables_def commit_drop_tables_at_def attempt_def commit_then_def case_prod_beta Let_def
      split: if_splits sum.splits option.splits)

section \<open>What readers see\<close>

lemma visible_end_files:
  assumes "o1 < ord" "R \<subseteq> S" "\<forall>r \<in> R. is_current r"
  shows "{r \<in> end_files ord R S. df_table_id r = t \<and> is_visible_at (df_validity r) o1} =
    (\<lambda>r. if r \<in> R then ended_at ord r else r) ` {r \<in> S. df_table_id r = t \<and> is_visible_at (df_validity r) o1}"
proof -
  let ?P = "\<lambda>r. df_table_id r = t \<and> is_visible_at (df_validity r) o1"
  have same: "?P (ended_at ord r) \<longleftrightarrow> ?P r" if "r \<in> R" for r using assms(1,3) that by (auto simp: is_visible_at_def)
  have 1: "{r \<in> end_files ord R S. ?P r} = {r \<in> S - R. ?P r} \<union> ended_at ord ` {r \<in> R. ?P r}"
  proof -
    have "{r \<in> ended_at ord ` R. ?P r} = ended_at ord ` {r \<in> R. ?P (ended_at ord r)}" by blast
    also have "{r \<in> R. ?P (ended_at ord r)} = {r \<in> R. ?P r}" using same by blast
    finally show ?thesis by blast
  qed
  have "{r \<in> S. ?P r} = {r \<in> S - R. ?P r} \<union> {r \<in> R. ?P r}" using assms(2) by blast
  moreover have "(\<lambda>r. if r \<in> R then ended_at ord r else r) ` {r \<in> S - R. ?P r} = {r \<in> S - R. ?P r}"
    by (intro image_cong [THEN trans, OF refl _ image_ident]) simp
  moreover have "(\<lambda>r. if r \<in> R then ended_at ord r else r) ` {r \<in> R. ?P r} = ended_at ord ` {r \<in> R. ?P r}"
    by (rule image_cong) simp_all
  ultimately show ?thesis unfolding 1 by (simp only: image_Un)
qed

lemma visible_end_tables:
  assumes "o1 < ord" "P \<subseteq> T" "\<forall>p \<in> P. is_open p"
  shows "visible_tables (end_tables ord P T) o1 = visible_tables T o1"
proof -
  let ?V = "\<lambda>r. is_visible_at (tr_validity r) o1"
  have same: "?V (ended ord p) \<longleftrightarrow> ?V p" if "p \<in> P" for p using assms(1,3) that by (auto simp: is_visible_at_def)
  have "{r \<in> ended ord ` P. ?V r} = ended ord ` {p \<in> P. ?V (ended ord p)}" by blast
  also have "{p \<in> P. ?V (ended ord p)} = {p \<in> P. ?V p}" using same by blast
  finally have 1: "{r \<in> end_tables ord P T. ?V r} = {r \<in> T - P. ?V r} \<union> ended ord ` {p \<in> P. ?V p}" by blast
  have 2: "{r \<in> T. ?V r} = {r \<in> T - P. ?V r} \<union> {p \<in> P. ?V p}" using assms(2) by blast
  have 3: "table_without_end ` ended ord ` {p \<in> P. ?V p} = table_without_end ` {p \<in> P. ?V p}"
    by (simp add: image_image)
  show ?thesis unfolding visible_tables_def 1 2 image_Un 3 ..
qed

text \<open>All file orders are at most the order of the next commit, and no file begins there.\<close>

definition files_before :: "catalog_order_id \<Rightarrow> data_file_row set \<Rightarrow> bool" where
  "files_before ord S \<longleftrightarrow> (\<forall>r \<in> S. begin_order (df_validity r) < ord \<and> (\<forall>e. end_order (df_validity r) = Some e \<longrightarrow> e \<le> ord))"

lemma no_files_after_drop:
  assumes "staging_ready kv c" "files_are (fake_get kv) c (end_files ord (files_of ts S) S)" "files_before ord S" "t \<in> ts" "ord \<le> o1"
  shows "list_data_files_at kv c t o1 = Inr []"
proof -
  let ?S = "end_files ord (files_of ts S) S"
  have wf: "fake_wf kv" "partition_values_wf (fake_get kv) c" using assms(1) by (simp_all add: staging_ready_def)
  have "\<not> is_visible_at (df_validity r) o1" if "r \<in> ?S" "df_table_id r = t" for r
  proof -
    have "\<exists>e. end_order (df_validity r) = Some e \<and> e \<le> ord"
    proof (cases "r \<in> S - files_of ts S")
      case True
      then have "\<not> is_current r" using that(2) assms(4) by auto
      with True assms(3) show ?thesis by (auto simp: files_before_def)
    qed (use that in auto)
    then obtain e where "end_order (df_validity r) = Some e" "e \<le> ord" by blast
    moreover from this(2) assms(5) have "e \<le> o1" by (rule order_trans)
    ultimately show ?thesis by (auto simp: is_visible_at_def)
  qed
  then have "set (filter (\<lambda>r. data_file_visible_at r o1) (begun_rows c t o1 ?S)) = {}"
    unfolding visible_files_spec [OF assms(2)] by blast
  then have "filter (\<lambda>r. data_file_visible_at r o1) (begun_rows c t o1 ?S) = []" by (simp only: set_empty)
  then show ?thesis unfolding data_files_at_context_load_reads [OF wf assms(2)] by simp
qed

lemma no_table_after_drop:
  assumes "table_catalog kv c H L (end_tables ord (versions_of ts T) T) vs" "orders_upto ord T" "t \<in> ts" "ord \<le> o1"
  shows "load_table_at kv c t o1 = Inr None" "load_current_table_row kv c t = Inr None"
proof -
  let ?T = "end_tables ord (versions_of ts T) T"
  note A = table_catalogD [OF assms(1)]
  have ended: "\<exists>e. end_order (tr_validity x) = Some e \<and> e \<le> ord" if "x \<in> ?T" "tr_table_id x = t" for x
  proof (cases "x \<in> T - versions_of ts T")
    case True
    then have "\<not> is_open x" using that(2) assms(3) by auto
    with True assms(2) show ?thesis by (auto simp: orders_upto_def)
  qed (use that in auto)
  then show "load_current_table_row kv c t = Inr None" by (intro load_current_table_row_reads(2) [OF A(4)]) fastforce
  obtain r where r: "load_table_at kv c t o1 = Inr r" "\<And>x. r = Some x \<longleftrightarrow> x \<in> ?T \<and> tr_table_id x = t \<and> is_visible_at (tr_validity x) o1"
    by (rule load_table_at_reads [OF A(2,4,6), of t o1]) blast
  have "r \<noteq> Some x" for x
  proof
    assume "r = Some x"
    then have x: "x \<in> ?T" "tr_table_id x = t" "is_visible_at (tr_validity x) o1" using r(2) by blast+
    obtain e where e: "end_order (tr_validity x) = Some e" "e \<le> ord" using ended [OF x(1,2)] by blast
    from e(2) assms(4) have "e \<le> o1" by (rule order_trans)
    with x(3) e(1) show False by (simp add: is_visible_at_def flip: order_not_le)
  qed
  with r(1) show "load_table_at kv c t o1 = Inr None" by (cases r) auto
qed

section \<open>An example\<close>

text \<open>A catalog with one table and no files.\<close>

lemma example_droppable:
  obtains kv H where "table_catalog kv 7 H H {example_opened} [(1, 1)]" "clock_ahead kv H" "H \<noteq> []" "files_are (fake_get kv) 7 {}"
    "changes_are (fake_get kv) 7 {}" "droppable kv 7 (next_commit_order kv) {example_opened} (tr_table_id example_table)"
proof -
  have inv: "table_catalog fake_new 7 [] [] {} []" "clock_ahead fake_new []"
    using table_inv_new [of 7] by (simp_all add: table_inv_def)
  have "\<not> create_conflict {} example_table" by (simp add: create_conflict_def)
  from commit_create_table_row_outcome(2) [OF inv example_table_ok(1) this, of 0] obtain kv0 where
    kv0: "commit_create_table_row fake_new 7 0 example_table = (Inr (opened (next_commit_order fake_new) example_table), kv0)"
    "others_kept 7 fake_new kv0" by blast
  obtain kv where kv: "commit_create_table_row fake_new 7 0 example_table = (Inr example_opened, kv)"
    "table_inv kv 7 [next_snapshot 0 fake_new []] [next_snapshot 0 fake_new []] {example_opened} [(1, 1)]" by (rule example_created) blast
  let ?H = "[next_snapshot 0 fake_new []]"
  have cat: "table_catalog kv 7 ?H ?H {example_opened} [(1, 1)]" and clock: "clock_ahead kv ?H" using kv(2) by (simp_all add: table_inv_def)
  have "kv = kv0" using kv(1) kv0(1) by simp
  have none: "fake_get kv k = None" if "k \<in> file_space 7 \<or> k \<in> change_space 7" for k
  proof -
    have "k \<in> drop_space 7" using that by (auto simp: drop_space_def)
    then have "k \<notin> version_space 7" "k \<notin> snapshot_space 7" using drop_space_apart by blast+
    moreover have "k \<notin> table_space 7" using that drop_spaces_apart by blast
    moreover have "k \<in> main_space 7" using that file_space_main change_space_main by blast
    ultimately have "fake_get kv k = fake_get fake_new k" using kv0(2) \<open>kv = kv0\<close> by blast
    then show ?thesis by (simp add: fake_new_def fake_get_def)
  qed
  have files: "files_are (fake_get kv) 7 {}" by (rule files_are_local [OF files_are_empty]) (simp add: none)
  have changes: "changes_are (fake_get kv) 7 {}" by (rule changes_are_local [OF changes_are_empty]) (simp add: none)
  have "current_rows 7 t {} = []" for t using current_rows_spec(1) [OF files, of t] by simp
  then have "list_current_data_files_with_deletes kv 7 t = Inr []" for t
    using scan_current_data_files_reads [OF table_catalogD(2) [OF cat] files, of t]
    by (simp add: list_current_data_files_with_deletes_def list_current_data_files_def attach_current_delete_files_def)
  then have "droppable kv 7 (next_commit_order kv) {example_opened} (tr_table_id example_table)"
    by (simp add: droppable_def validity_new_def)
  with that [OF cat clock _ files changes] show thesis by simp
qed

section \<open>Properties\<close>



text \<open>C6: What readers see of a drop. A drop that fails changes nothing. After one that succeeds each listed table was current
  and is no longer found, neither as current nor at the new snapshot or any later order, and its data file listing is
  empty there; at every earlier order the tables and the data files of all tables are listed as before, up to the end
  orders the drop has recorded.\<close>
theorem dropped_tables_vanish:
  assumes "table_catalog kv c H L T vs" "clock_ahead kv H" "files_are (fake_get kv) c S" "changes_are (fake_get kv) c C"
    "files_before (next_commit_order kv) S" "ids \<noteq> []"
  shows "case commit_drop_tables clk kv c ids of
      (Inl e, kv') \<Rightarrow> fake_get kv' = fake_get kv
    | (Inr out, kv') \<Rightarrow>
        (\<forall>t \<in> set ids. (\<exists>r. load_current_table_row kv c t = Inr (Some r)) \<and> load_current_table_row kv' c t = Inr None \<and>
           (\<forall>o1. next_commit_order kv \<le> o1 \<longrightarrow> load_table_at kv' c t o1 = Inr None \<and> list_data_files_at kv' c t o1 = Inr [])) \<and>
        (\<forall>o1. o1 < next_commit_order kv \<longrightarrow> listing_kept c o1 kv kv' \<and>
           (\<exists>xs ys. list_tables_at kv c o1 = Inr xs \<and> list_tables_at kv' c o1 = Inr ys \<and>
              map table_without_end ys = map table_without_end xs))"
proof (cases "commit_drop_tables clk kv c ids")
  case (Pair res kv')
  show ?thesis
  proof (cases res)
    case (Inl e)
    then show ?thesis using Pair commit_drop_tables_failure by simp
  next
    case (Inr out)
    let ?ord = "next_commit_order kv"
    note A = table_catalogD [OF assms(1)]
    note op = Pair [unfolded Inr]
    note D = commit_drop_tables_success [OF assms(1-4) op assms(6)] and D' = table_catalogD [OF commit_drop_tables_success(2) [OF assms(1-4) op assms(6)]]
    have found: "\<exists>r. load_current_table_row kv c t = Inr (Some r)" if "t \<in> set ids" for t
      using D(6) that load_current_table_row_reads(1) [OF A(4)]
      by (auto simp: list_all2_conv_all_nth in_set_conv_nth drop_report_def) metis
    have gone: "load_table_at kv' c t o1 = Inr None" "load_current_table_row kv' c t = Inr None" "list_data_files_at kv' c t o1 = Inr []"
      if "t \<in> set ids" "?ord \<le> o1" for t o1
      using no_table_after_drop [OF D(2) before_next(2) [OF assms(1,2)] that] no_files_after_drop [OF D'(1) D(3) assms(5) that] by blast+
    have cat: "catalog_is kv c H L S C" using A(1,3) assms(3,4) by (simp add: catalog_is_def)
    have cat': "catalog_is kv' c (H @ [next_snapshot (current_timestamp_micros clk) kv H]) (L @ [next_snapshot (current_timestamp_micros clk) kv H])
        (end_files ?ord (files_of (set ids) S) S) (C \<union> removals ?ord (files_of (set ids) S))"
      using D'(1,3) D(3,4) by (simp add: catalog_is_def)
    have kept: "listing_kept c o1 kv kv'" if "o1 < ?ord" for o1
    proof (rule listing_keptI [OF cat cat', where g = "\<lambda>r. if r \<in> files_of (set ids) S then ended_at ?ord r else r"])
      show "{r \<in> end_files ?ord (files_of (set ids) S) S. df_table_id r = t \<and> is_visible_at (df_validity r) o1} =
          (\<lambda>r. if r \<in> files_of (set ids) S then ended_at ?ord r else r) ` {r \<in> S. df_table_id r = t \<and> is_visible_at (df_validity r) o1}" for t
        using that by (rule visible_end_files) auto
      show "without_end (if r \<in> files_of (set ids) S then ended_at ?ord r else r) = without_end r" for r
        by (simp add: without_end_def)
      show "file_rows kv' c (df_data_file_id r) = file_rows kv c (df_data_file_id r)" for r using D(8) by blast
    qed
    have listed: "\<exists>xs ys. list_tables_at kv c o1 = Inr xs \<and> list_tables_at kv' c o1 = Inr ys \<and> map table_without_end ys = map table_without_end xs"
      if "o1 < ?ord" for o1
    proof -
      obtain xs where xs: "list_tables_at kv c o1 = Inr xs" "lists_visible T o1 xs"
        using list_tables_at_lists_visible [OF A(2-4,6,7)] by blast
      obtain ys where ys: "list_tables_at kv' c o1 = Inr ys" "lists_visible (end_tables ?ord (versions_of (set ids) T) T) o1 ys"
        using list_tables_at_lists_visible [OF D'(2-4,6,7)] by blast
      have "visible_tables (end_tables ?ord (versions_of (set ids) T) T) o1 = visible_tables T o1"
        using that by (rule visible_end_tables) auto
      with xs ys listing_from_visible_tables [OF xs(2) ys(2)] show ?thesis by blast
    qed
    show ?thesis unfolding op prod.case sum.case using found gone kept listed order_refl by blast
  qed
qed

theorem dropped_tables_vanish_witness:
  "\<exists>kv out kv' r. commit_drop_tables (AfterEpoch 1 0) kv 7 [tr_table_id example_table] = (Inr out, kv') \<and>
     load_current_table_row kv 7 (tr_table_id example_table) = Inr (Some r) \<and>
     load_table_at kv' 7 (tr_table_id example_table) (next_commit_order kv) = Inr None"
proof -
  let ?ids = "[tr_table_id example_table]"
  obtain kv H where kv: "table_catalog kv 7 H H {example_opened} [(1, 1)]" "clock_ahead kv H" "H \<noteq> []" "files_are (fake_get kv) 7 {}"
    "changes_are (fake_get kv) 7 {}" "droppable kv 7 (next_commit_order kv) {example_opened} (tr_table_id example_table)"
    by (rule example_droppable) blast
  have ids: "?ids \<noteq> []" "distinct ?ids" "\<forall>t \<in> set ?ids. droppable kv 7 (next_commit_order kv) {example_opened} t"
    "files_before (next_commit_order kv) {}" using kv(6) by (simp_all add: files_before_def)
  obtain out kv' where op: "commit_drop_tables (AfterEpoch 1 0) kv 7 ?ids = (Inr out, kv')"
    using commit_drop_tables_succeeds [OF kv(1-4) _ ids(1-3), of "AfterEpoch 1 0"] by auto
  from dropped_tables_vanish [OF kv(1,2,4,5) ids(4,1), of "AfterEpoch 1 0"] op show ?thesis by auto
qed

end
