(* ===== verification/Cat_Orphan_Files.thy ===== *)
theory Cat_Orphan_Files
  imports Cat_File_Spec
begin

text \<open>
  The files a catalog knows, \<open>orphan_cleanup.rs\<close>. A caller removes from the object store what is not in this list, so
  the list has to be complete: every stored data file and every stored delete file is in it, whatever its window.
\<close>

datatype known_cleanup_file_row = KnownData data_file_row | KnownDelete delete_file_row table_id

definition list_all_data_file_rows :: "fake_kv \<Rightarrow> catalog_id \<Rightarrow> data_file_row list catalog_result" where
  "list_all_data_file_rows kv catalog =
     rbind (fake_scan_prefix kv (family_prefix catalog DataFile) Forward None) (rmap (\<lambda>i. data_file_row_decode (ri_value i)))"

definition list_all_delete_file_rows :: "fake_kv \<Rightarrow> catalog_id \<Rightarrow> delete_file_row list catalog_result" where
  "list_all_delete_file_rows kv catalog =
     rbind (fake_scan_prefix kv (family_prefix catalog DeleteFile) Forward None) (rmap (\<lambda>i. delete_file_row_decode (ri_value i)))"

definition list_known_files_for_orphan_cleanup :: "fake_kv \<Rightarrow> catalog_id \<Rightarrow> known_cleanup_file_row list catalog_result" where
  "list_known_files_for_orphan_cleanup kv catalog =
     rbind (list_all_data_file_rows kv catalog) (\<lambda>data_files.
     rbind (list_all_delete_file_rows kv catalog) (\<lambda>delete_files.
       rfold (\<lambda>delete_file rows.
         case find (\<lambda>row. df_data_file_id row = xf_data_file_id delete_file) data_files of
           None \<Rightarrow> Inl (InvalidMutation ''delete file references missing data file'')
         | Some data_file \<Rightarrow> Inr (rows @ [KnownDelete delete_file (df_table_id data_file)]))
         delete_files (map KnownData data_files)))"

interpretation delete_rows: stored_index "family_prefix c DeleteFile" "\<lambda>r. delete_file_key c (xf_delete_file_id r)"
  delete_file_row_encode delete_file_row_ok "\<lambda>k. delete_file_row_decode" for c
  by unfold_locales (simp_all add: delete_file_key_def delete_file_row_roundtrip)

lemma all_data_file_rows:
  assumes "fake_wf kv" "files_are (fake_get kv) c S"
  shows "\<exists>rows. list_all_data_file_rows kv c = Inr rows \<and> set rows = S"
proof -
  have h: "by_id.holds c (fake_get kv) S" using assms(2) by (simp add: files_are_def)
  have "list_all_data_file_rows kv c = Inr (by_id.rows_in c (prefix (family_prefix c DataFile)) S)"
    using by_id.scan_prefix_rows [OF assms(1) h, of "family_prefix c DataFile" "catalog_prefix c @ [family_code DataFile]" slash]
      by_id.decode_stored [OF h by_id.holds_finite [OF h]]
    by (simp add: list_all_data_file_rows_def family_prefix_def)
  moreover have "set (by_id.rows_in c (prefix (family_prefix c DataFile)) S) = S"
    unfolding by_id.rows_in_spec(1) [OF h by_id.holds_finite [OF h]] by (simp add: data_file_key_def)
  ultimately show ?thesis by blast
qed

lemma all_delete_file_rows:
  assumes "fake_wf kv" "delete_rows.holds c (fake_get kv) X"
  shows "\<exists>rows. list_all_delete_file_rows kv c = Inr rows \<and> set rows = X"
proof -
  have "list_all_delete_file_rows kv c = Inr (delete_rows.rows_in c (prefix (family_prefix c DeleteFile)) X)"
    using delete_rows.scan_prefix_rows [OF assms, of "family_prefix c DeleteFile" "catalog_prefix c @ [family_code DeleteFile]" slash]
      delete_rows.decode_stored [OF assms(2) delete_rows.holds_finite [OF assms(2)]]
    by (simp add: list_all_delete_file_rows_def family_prefix_def)
  moreover have "set (delete_rows.rows_in c (prefix (family_prefix c DeleteFile)) X) = X"
    unfolding delete_rows.rows_in_spec(1) [OF assms(2) delete_rows.holds_finite [OF assms(2)]] by (simp add: delete_file_key_def)
  ultimately show ?thesis by blast
qed

text \<open>Attaching the tables of the delete files.\<close>

lemma known_deletes:
  assumes "\<forall>x \<in> set xs. \<exists>r. find (\<lambda>row. df_data_file_id row = xf_data_file_id x) ds = Some r"
  shows "rfold (\<lambda>x rows. case find (\<lambda>row. df_data_file_id row = xf_data_file_id x) ds of
      None \<Rightarrow> Inl e | Some r \<Rightarrow> Inr (rows @ [KnownDelete x (df_table_id r)])) xs out =
    Inr (out @ map (\<lambda>x. KnownDelete x (df_table_id (the (find (\<lambda>row. df_data_file_id row = xf_data_file_id x) ds)))) xs)"
  using assms
proof (induction xs arbitrary: out)
  case (Cons x xs)
  then obtain r where "find (\<lambda>row. df_data_file_id row = xf_data_file_id x) ds = Some r" by auto
  with Cons show ?case by simp
qed simp

theorem known_files_complete:
  assumes "fake_wf kv" "files_are (fake_get kv) c S" "delete_rows.holds c (fake_get kv) X"
    and "\<forall>x \<in> X. \<exists>r \<in> S. df_data_file_id r = xf_data_file_id x"
  shows "\<exists>rows. list_known_files_for_orphan_cleanup kv c = Inr rows \<and>
    set rows = KnownData ` S \<union> {KnownDelete x (df_table_id r) | x r. x \<in> X \<and> r \<in> S \<and> df_data_file_id r = xf_data_file_id x}"
proof -
  obtain ds where ds: "list_all_data_file_rows kv c = Inr ds" "set ds = S" using all_data_file_rows [OF assms(1,2)] by blast
  obtain xs where xs: "list_all_delete_file_rows kv c = Inr xs" "set xs = X" using all_delete_file_rows [OF assms(1,3)] by blast
  let ?f = "\<lambda>x. find (\<lambda>row. df_data_file_id row = xf_data_file_id x) ds"
  have found: "?f x = Some r" if "r \<in> S" "df_data_file_id r = xf_data_file_id x" for x r
  proof -
    have "?f x \<noteq> None" using that ds(2) by (auto simp: find_None_iff)
    then obtain y where y: "?f x = Some y" by blast
    then have "y \<in> S" "df_data_file_id y = xf_data_file_id x" using ds(2) by (auto simp: find_Some_iff)
    with that have "y = r" using inj_onD [OF files_are_ids [OF assms(2)], of y r] by simp
    with y show ?thesis by simp
  qed
  have all: "\<forall>x \<in> set xs. \<exists>r. ?f x = Some r" using assms(4) found xs(2) by blast
  have "list_known_files_for_orphan_cleanup kv c = Inr (map KnownData ds @ map (\<lambda>x. KnownDelete x (df_table_id (the (?f x)))) xs)"
    by (simp add: list_known_files_for_orphan_cleanup_def ds(1) xs(1) known_deletes [OF all])
  moreover have "(\<lambda>x. KnownDelete x (df_table_id (the (?f x)))) ` X =
      {KnownDelete x (df_table_id r) | x r. x \<in> X \<and> r \<in> S \<and> df_data_file_id r = xf_data_file_id x}"
  proof (intro set_eqI iffI)
    fix k assume "k \<in> (\<lambda>x. KnownDelete x (df_table_id (the (?f x)))) ` X"
    then obtain x where x: "x \<in> X" "k = KnownDelete x (df_table_id (the (?f x)))" by blast
    obtain r where "r \<in> S" "df_data_file_id r = xf_data_file_id x" using assms(4) x(1) by blast
    with x found [of r x] show "k \<in> {KnownDelete x (df_table_id r) | x r. x \<in> X \<and> r \<in> S \<and> df_data_file_id r = xf_data_file_id x}" by auto
  next
    fix k assume "k \<in> {KnownDelete x (df_table_id r) | x r. x \<in> X \<and> r \<in> S \<and> df_data_file_id r = xf_data_file_id x}"
    then obtain x r where x: "x \<in> X" "r \<in> S" "df_data_file_id r = xf_data_file_id x" "k = KnownDelete x (df_table_id r)" by blast
    with found [of r x] show "k \<in> (\<lambda>x. KnownDelete x (df_table_id (the (?f x)))) ` X" by (intro image_eqI [of _ _ x]) simp_all
  qed
  ultimately show ?thesis using ds(2) xs(2) by (intro exI conjI) (assumption, simp)
qed

end
