(* ===== verification/Spec2Isabelle.thy ===== *)
theory Spec2Isabelle
  imports Cat_File_History Cat_Lru Cat_Catalog_Current Cat_Cleanup Cat_Settings Cat_Table_Drop_Spec
    Cat_Orphan_Files
begin

text \<open>
  A verification of the DuckLake catalog, the crate \<open>crates/ducklake-catalog\<close>. File names below are relative to its
  \<open>src\<close> directory.

  \<^bold>\<open>The program.\<close> The catalog keeps the metadata of a data lake (snapshots, schemas, tables, views, macros, data files,
  delete files) in one ordered key-value store. Every mutation reads what it needs, stages its writes in a batch and
  commits the batch atomically, together with a new snapshot row. Objects are versioned: a row has a validity window
  from the order of the commit that began it to the order of the commit that ended it, and a reader at an order sees
  the rows whose window contains it. Orders are sixteen bytes, compared as bytes; keys are built so that their byte
  order is the order the scans need.

  \<^bold>\<open>Machine types and effects.\<close> Integers keep their width (\<open>u16\<close> to \<open>u128\<close>, \<open>i64\<close> as words). A Rust \<open>String\<close> is its
  list of bytes, with valid UTF-8 and a length below \<open>2^32\<close> as a well-formedness predicate (\<open>string_ok\<close>).
  \<open>CatalogResult<T>\<close> is a sum whose left side is the error; the literal part of an error message is kept, the values
  formatted into it are not. A Rust panic is the error \<open>Panic\<close>, so that its absence can be proved. A mutating
  operation takes the store and returns its result together with the new store; the time of day is the argument \<open>now\<close>.
  An unlimited scan (\<open>usize::MAX\<close>) is the limit \<open>None\<close>. A \<open>BTreeMap\<close> is an ascending association list, a \<open>BTreeSet\<close> a set
  or its sorted list. One-field wrappers around a row (\<open>DroppedView\<close>, \<open>DroppedMacro\<close>) are that row.

  \<^bold>\<open>The theories.\<close>
  \<^item> \<open>Cat_Prelude\<close>: words, big-endian bytes and their order, results, loops that stop at the first error, ordered maps.
  \<^item> \<open>Cat_Ids\<close>: \<open>ids.rs\<close>, \<open>error.rs\<close>; \<open>Cat_Key_Family\<close>, \<open>Cat_Keys\<close>: \<open>keys.rs\<close>, \<open>object_keys.rs\<close>, \<open>change_keys.rs\<close>,
    \<open>snapshot_keys.rs\<close>, \<open>key_debug.rs\<close>. Keys of different families and catalogs are apart, and the byte order of keys is the
    order of what they encode.
  \<^item> \<open>Cat_Kv\<close>: \<open>kv.rs\<close>, the batch, the read operations, the paged visitor and the in-memory backend. Scans return exactly
    their range, a commit is atomic and refuses on a changed fence, the visitor terminates and is complete.
  \<^item> \<open>Cat_Rows\<close>, \<open>Cat_Cursor\<close>, \<open>Cat_Object_Rows\<close>: \<open>rows.rs\<close>, \<open>schema_rows.rs\<close>, \<open>table_rows.rs\<close>, \<open>table_partition_rows.rs\<close>,
    \<open>table_sort_rows.rs\<close>, \<open>view_rows.rs\<close>, \<open>macro_rows.rs\<close>. Encoding and decoding are inverse, and no input makes a decoder
    panic.
  \<^item> \<open>Cat_Watermarks\<close>: \<open>conflict_watermarks.rs\<close>. Committed maxima never fall.
  \<^item> \<open>Cat_Store\<close>: \<open>store.rs\<close>, the snapshot history with its indexes by order, by sequence and by time.
  \<^item> \<open>Cat_Index\<close>: the locale \<open>stored_index\<close>, the contract between a store and the part of the key space it owns: its keys
    lie in one space and a stored value decodes to its row. It gives the reads and writes of such an index as
    operations on the set of rows it holds. Every index of the data file and table stores interprets it.
  \<^item> \<open>Cat_Staging\<close>: what a staging step does to the map a batch will commit. Steps compose; a commit turns the composed
    effect into the contents of the store.
  \<^item> \<open>Cat_Partitions\<close>: \<open>file_partitions.rs\<close>; \<open>Cat_Changes\<close>: \<open>data_file_changes.rs\<close> and the change log of \<open>conflict.rs\<close>;
    \<open>Cat_Lru\<close>: \<open>lru_cache.rs\<close>, which refines a list of the most recently used pairs; \<open>Cat_Schema_Versions\<close>:
    \<open>schema_version_state.rs\<close>.
  \<^item> \<open>Cat_Files\<close>, \<open>Cat_File_Listing\<close>: \<open>data_file_store.rs\<close> and its modules, \<open>file_visibility.rs\<close>. \<open>Cat_File_Spec\<close> relates the
    three indexes of data files to one set of rows; \<open>Cat_File_Commits\<close> gives the outcome of every commit;
    \<open>Cat_File_History\<close> makes the commits a step relation and proves snapshot isolation, exact listings and that row ids
    are never reused.
  \<^item> \<open>Cat_File_Stats\<close>, \<open>Cat_File_Stats_Spec\<close>: \<open>file_stats.rs\<close> and the row of \<open>immutable_file_metadata.rs\<close>. Registering
    statistics replaces the rows of the same file and column and keeps all others; the listing and every loader
    (per column, per file, dense, sparse) return exactly the rows asked for.
  \<^item> \<open>Cat_Maintenance\<close>, \<open>Cat_Maintenance_Spec\<close>, \<open>Cat_Cleanup\<close>: \<open>maintenance.rs\<close> without inline payloads. The batch of a
    cleanup only deletes; its key set is given exactly. No listing at a retained snapshot changes, everything requested
    and unreachable is removed, and a delete file goes only when no retained snapshot sees it or its data file was
    replaced by a compaction.
  \<^item> \<open>Cat_Settings\<close>: \<open>metadata_settings.rs\<close> and \<open>column_mappings.rs\<close>, two stores of one index each. A listing after a write
    has the written rows in place of those with the same key; the column mappings refine a map from ids to rows.
  \<^item> \<open>Cat_Versioned\<close>: the locale \<open>versioned_objects\<close> (over \<open>stored_index\<close>), objects stored by id and begin order.
  \<^item> \<open>Cat_Tables\<close>: \<open>table_store.rs\<close>, \<open>table_version_commit.rs\<close> and \<open>commit_table_replacements\<close> of \<open>kv.rs\<close>; \<open>Cat_Table_Edits\<close>:
    \<open>table_columns.rs\<close>, \<open>table_column_defaults.rs\<close>, \<open>table_comments.rs\<close>, \<open>table_partition.rs\<close>, \<open>table_sort.rs\<close>.
    \<open>Cat_Table_Spec\<close>, \<open>Cat_Table_Reads\<close>, \<open>Cat_Table_Commits\<close>, \<open>Cat_Table_Names\<close>, \<open>Cat_Table_Steps\<close> and
    \<open>Cat_Table_History\<close> follow the same course as for files, down to the step relation of all table commits.
  \<^item> \<open>Cat_Table_Drop\<close>, \<open>Cat_Table_Drop_Spec\<close>: \<open>table_drop.rs\<close>, a commit across the table store, the data file store and the
    cleanup schedule. Each staging step ends some files and table versions and touches no other part of the key space;
    the steps compose, so a drop ends exactly the listed tables and their files, and earlier orders read as before.
  \<^item> \<open>Cat_Orphan_Files\<close>: \<open>orphan_cleanup.rs\<close>. The list of known files has every stored data file and delete file.
  \<^item> \<open>Cat_Objects\<close>: \<open>schema_store.rs\<close>, \<open>view_store.rs\<close>, \<open>macro_store.rs\<close>. \<open>Cat_Object_Spec\<close> has the locale \<open>object_kind\<close>
    (over \<open>versioned_objects\<close>), interpreted for schemas, views and macros; \<open>Cat_Object_Commits\<close> and \<open>Cat_Object_Steps\<close>
    give the outcome of every commit of the three stores.
  \<^item> \<open>Cat_Object_History\<close>, \<open>Cat_Catalog_History\<close>, \<open>Cat_Catalog_Current\<close>: the whole catalog. One invariant over the state
    of all stores is kept by every commit of every store, whether it succeeds or not; from it follow snapshot
    isolation of the four listings, exact reads, unique names, well-formed rows, the view store as a map, and that
    fresh objects can always be created.

  \<^bold>\<open>Step relations.\<close> \<open>file_step\<close>, \<open>table_step\<close> and \<open>catalog_step\<close> have one rule per commit operation. Their side conditions
  are what the callers of the crate guarantee: the strings of a request are valid, and after the commit the order
  generator and the snapshot sequence have not reached the end of their types (\<open>counters_ok\<close>). Creating schemas also
  assumes fresh ids and creating macros an initialised catalog, because the code does not check these.

  \<^bold>\<open>Loops and bounds.\<close> Loops over lists are folds that stop at the first error. The paged visitor of \<open>kv.rs\<close> and the
  descendant search of \<open>table_columns.rs\<close> recurse with a termination proof; no definition uses fuel.

  \<^bold>\<open>Not modelled.\<close> The FoundationDB backend (\<open>fdb*.rs\<close>) is asynchronous glue over a client library; the stores are verified
  over the in-memory backend of \<open>kv.rs\<close>, which implements the same trait. The runtime (\<open>runtime_*.rs\<close>) is a C interface
  and wire protocol with process-wide caches, metrics and tracing; reads are modelled as they happen on a cache miss,
  the configuration the crate's own tests run in. Compaction and data mutations
  combine the file commits modelled here with inline data, rows kept in the catalog in a columnar encoding of their own;
  these and the delete change feeds are left out as further clients of the same staging and index layers.
\<close>

end
